(* ===== verification/Prelude.thy ===== *)
theory Prelude
  imports Main "HOL-Library.Word"
begin

unbundle bit_operations_syntax

text \<open>
  Shared vocabulary of the development. Python's unbounded integers are \<open>int\<close> with the
  library's two's-complement bit operations (\<open>AND\<close>, \<open>OR\<close>, \<open>XOR\<close>, \<open>push_bit\<close>,
  \<open>drop_bit\<close>), which are exactly Python's \<open>& | ^ << >>\<close>. Exceptions are values of
  \<open>py_error\<close>, results are \<open>py_error + 'a\<close>, sequenced by \<open>ebind\<close>. The collection
  \<open>mask_simps\<close> turns the masks of the source into \<open>take_bit\<close>, on which the library's
  \<open>bit_simps\<close> work. The locale \<open>codec\<close> is the contract of an encoder with its decoder.
\<close>

section \<open>Exceptions as values\<close>

datatype py_error =
    AssertionError
  | IndexError
  | KeyError
  | AttributeError
  | ValueError
  | OverflowError
  | StructError
  | TypeError
  | ZeroDivisionError
  | OSError
  | TimeoutExpired
  | RuntimeError string
  | CompileError string

text \<open>A text between single quotes, as the messages of exceptions have it.\<close>

definition quoted :: "string \<Rightarrow> string" where
  "quoted s = CHR 0x27 # s @ [CHR 0x27]"

definition ebind :: "'e + 'a \<Rightarrow> ('a \<Rightarrow> 'e + 'b) \<Rightarrow> 'e + 'b" where
  "ebind m f = (case m of Inl e \<Rightarrow> Inl e | Inr x \<Rightarrow> f x)"

lemma ebind_simps [simp]:
  "ebind (Inl e) f = Inl e"
  "ebind (Inr x) f = f x"
  by (simp_all add: ebind_def)

lemma ebind_cong [fundef_cong]:
  "m = m' \<Longrightarrow> (\<And>x. m' = Inr x \<Longrightarrow> f x = g x) \<Longrightarrow> ebind m f = ebind m' g"
  by (cases m') simp_all

lemma ebind_eq_Inr_iff: "ebind m f = Inr y \<longleftrightarrow> (\<exists>x. m = Inr x \<and> f x = Inr y)"
  by (cases m) simp_all

lemma ebind_InrE [elim!]:
  assumes "ebind m f = Inr y"
  obtains x where "m = Inr x" "f x = Inr y"
  using assms by (auto simp: ebind_eq_Inr_iff)

text \<open>A loop whose body may raise.\<close>

primrec efold :: "('a \<Rightarrow> 's \<Rightarrow> 'e + 's) \<Rightarrow> 'a list \<Rightarrow> 's \<Rightarrow> 'e + 's" where
  "efold f [] s = Inr s"
| "efold f (x # xs) s = ebind (f x s) (efold f xs)"

lemma efold_append: "efold f (xs @ ys) s = ebind (efold f xs s) (efold f ys)"
  by (induction xs arbitrary: s) (auto simp: ebind_def split: sum.splits)

lemma efold_invariant:
  "efold f xs s = Inr s' \<Longrightarrow> I s \<Longrightarrow> (\<And>x s s'. x \<in> set xs \<Longrightarrow> I s \<Longrightarrow> f x s = Inr s' \<Longrightarrow> I s') \<Longrightarrow> I s'"
proof (induction xs arbitrary: s)
  case (Cons x xs)
  from Cons.prems(1) obtain t where t: "f x s = Inr t" "efold f xs t = Inr s'" by auto
  have "I t" using Cons.prems(3) [of x s t] Cons.prems(2) t(1) by simp
  then show ?case using Cons.IH [OF t(2)] Cons.prems(3) by (meson list.set_intros(2))
qed simp

section \<open>Python's shifts and bit length\<close>

text \<open>
  \<open>shl\<close> and \<open>shr\<close> are \<open>x << n\<close> and \<open>x >> n\<close> for an amount the code computes. Python
  raises \<open>ValueError\<close> on a negative amount; every use in the model has a non-negative one.
\<close>

definition shl :: "int \<Rightarrow> int \<Rightarrow> int" where
  "shl x n = push_bit (nat n) x"

definition shr :: "int \<Rightarrow> int \<Rightarrow> int" where
  "shr x n = drop_bit (nat n) x"

lemma shl_eq: "shl x n = x * 2 ^ nat n"
  by (simp add: shl_def push_bit_eq_mult)

lemma shr_eq: "shr x n = x div 2 ^ nat n"
  by (simp add: shr_def drop_bit_eq_div)

function bit_count_up :: "int \<Rightarrow> int" where
  "bit_count_up x = (if x \<le> 0 then 0 else 1 + bit_count_up (x div 2))"
  by pat_completeness auto
termination
  by (relation "measure nat") auto

declare bit_count_up.simps [simp del]

definition bit_length :: "int \<Rightarrow> int" where
  "bit_length x = bit_count_up \<bar>x\<bar>"

lemma bit_count_up_bounds:
  "0 < x \<Longrightarrow> 0 < bit_count_up x \<and> 2 ^ nat (bit_count_up x - 1) \<le> x \<and> x < 2 ^ nat (bit_count_up x)"
proof (induction x rule: bit_count_up.induct)
  case (1 x)
  show ?case
  proof (cases "x = 1")
    case True
    then show ?thesis by (simp add: bit_count_up.simps)
  next
    case False
    with 1 have "0 < x div 2" and x: "0 < x" by auto
    with "1.IH" have IH: "0 < bit_count_up (x div 2)"
      "2 ^ nat (bit_count_up (x div 2) - 1) \<le> x div 2"
      "x div 2 < 2 ^ nat (bit_count_up (x div 2))"
      by auto
    define k where "k = nat (bit_count_up (x div 2) - 1)"
    have k: "bit_count_up (x div 2) = int (Suc k)"
      using IH(1) by (simp add: k_def)
    have "2 ^ k \<le> x div 2" and "x div 2 < 2 ^ Suc k"
      using IH(2,3) unfolding k by (simp_all only: nat_int) simp
    then have "2 ^ Suc k \<le> x" and "x < 2 ^ Suc (Suc k)"
      by simp_all
    moreover have "bit_count_up x = int (Suc (Suc k))"
      using x k by (simp add: bit_count_up.simps [of x])
    then have "nat (bit_count_up x - 1) = Suc k" "nat (bit_count_up x) = Suc (Suc k)"
      "0 < bit_count_up x"
      by simp_all
    ultimately show ?thesis by simp
  qed
qed

lemma bit_length_0 [simp]: "bit_length 0 = 0"
  by (simp add: bit_length_def bit_count_up.simps)

lemma bit_length_pos: "0 < x \<Longrightarrow> 0 < bit_length x"
  using bit_count_up_bounds [of x] by (simp add: bit_length_def)

lemma bit_length_nonneg [simp]: "0 \<le> bit_length x"
proof (cases "x = 0")
  case False
  then show ?thesis using bit_count_up_bounds [of "\<bar>x\<bar>"] by (simp add: bit_length_def)
qed simp

lemma bit_length_le: "0 < x \<Longrightarrow> 2 ^ nat (bit_length x - 1) \<le> x"
  using bit_count_up_bounds [of x] by (simp add: bit_length_def)

lemma bit_length_less: "0 \<le> x \<Longrightarrow> x < 2 ^ nat (bit_length x)"
  using bit_count_up_bounds [of x] by (cases "x = 0") (simp_all add: bit_length_def)

lemma bit_length_bounds:
  assumes "0 < x" "bit_length x = int (Suc n)"
  shows "2 ^ n \<le> x" "x < 2 ^ Suc n"
proof -
  have n: "nat (bit_length x) = Suc n" "nat (bit_length x - 1) = n"
    using assms(2) by simp_all
  show "2 ^ n \<le> x" using bit_length_le [OF assms(1)] n(2) by simp
  show "x < 2 ^ Suc n" using bit_length_less [of x] assms(1) n(1) by (simp del: power_Suc)
qed

lemma bit_length_unique:
  assumes "2 ^ n \<le> x" and "x < 2 ^ Suc n"
  shows "bit_length x = int (Suc n)"
proof -
  have x: "0 < x" using assms(1) by (smt (verit) zero_less_power)
  obtain m where m: "bit_length x = int (Suc m)"
    using bit_length_pos [OF x] by (metis gr0_conv_Suc of_nat_0_less_iff zero_less_imp_eq_int)
  have "(2 :: int) ^ m \<le> x" and "x < 2 ^ Suc m"
    using bit_length_bounds [OF x m] .
  then have "(2 :: int) ^ m < 2 ^ Suc n" and "(2 :: int) ^ n < 2 ^ Suc m"
    using assms by linarith+
  then have "m < Suc n" and "n < Suc m"
    using power_less_imp_less_exp [of "2 :: int"] by (auto simp del: power_Suc)
  with m show ?thesis by simp
qed

lemma bit_length_gt_iff: "0 \<le> x \<Longrightarrow> int n < bit_length x \<longleftrightarrow> 2 ^ n \<le> x"
proof (cases "x = 0")
  case False
  assume "0 \<le> x"
  with False have x: "0 < x" by simp
  obtain m where m: "bit_length x = int (Suc m)"
    using bit_length_pos [OF x] by (metis gr0_conv_Suc of_nat_0_less_iff zero_less_imp_eq_int)
  note b = bit_length_bounds [OF x m]
  have "n \<le> m \<longleftrightarrow> 2 ^ n \<le> x"
  proof
    assume "n \<le> m"
    then have "(2 :: int) ^ n \<le> 2 ^ m" by (simp add: power_increasing)
    with b(1) show "2 ^ n \<le> x" by linarith
  next
    assume "2 ^ n \<le> x"
    with b(2) have "(2 :: int) ^ n < 2 ^ Suc m" by linarith
    then show "n \<le> m" using power_less_imp_less_exp [of "2 :: int" n "Suc m"] by simp
  qed
  then show ?thesis using m by auto
qed simp

section \<open>Masks\<close>

named_theorems mask_simps \<open>the masks of the source as \<open>take_bit\<close>\<close>

lemma and_mask_simps [mask_simps]:
  fixes x :: int
  shows "x AND 1 = take_bit 1 x" "x AND 3 = take_bit 2 x" "x AND 7 = take_bit 3 x"
    "x AND 15 = take_bit 4 x" "x AND 31 = take_bit 5 x" "x AND 63 = take_bit 6 x"
    "x AND 0xFF = take_bit 8 x" "x AND 0x3FF = take_bit 10 x" "x AND 0xFFF = take_bit 12 x"
    "x AND 0x7FFF = take_bit 15 x" "x AND 0x7FFFFF = take_bit 23 x"
    "x AND 0xFFFFFFFF = take_bit 32 x"
  by (simp_all add: take_bit_eq_mask mask_eq_exp_minus_1)

lemma and_mask_exp [mask_simps]:
  fixes x :: int
  shows "x AND (push_bit n 1 - 1) = take_bit n x"
  by (simp add: take_bit_eq_mask mask_eq_exp_minus_1 push_bit_eq_mult)

lemma and_shl_mask: "x AND (shl 1 k - 1) = x mod 2 ^ nat k"
  by (simp add: shl_eq take_bit_eq_mod [symmetric] take_bit_eq_mask mask_eq_exp_minus_1)

lemma take_bit_nonneg [simp]: "0 \<le> take_bit n (x :: int)"
  by simp

lemma take_bit_lt: "take_bit n (x :: int) < 2 ^ n"
  by simp

lemma take_bit_id: "0 \<le> x \<Longrightarrow> x < 2 ^ n \<Longrightarrow> take_bit n (x :: int) = x"
  by (simp add: take_bit_int_eq_self)

lemma take_bit_self_iff: "take_bit n (x :: int) = x \<longleftrightarrow> 0 \<le> x \<and> x < 2 ^ n"
  by (metis take_bit_int_eq_self take_bit_lt take_bit_nonneg)

lemma not_bit_above: "0 \<le> x \<Longrightarrow> x < 2 ^ m \<Longrightarrow> m \<le> n \<Longrightarrow> \<not> bit (x :: int) n"
  by (metis bit_take_bit_iff linorder_not_less take_bit_id)

text \<open>The simplifier turns a shift by one into a doubling.\<close>

lemma bit_double_right [bit_simps]: "bit (x * 2 :: int) n \<longleftrightarrow> 0 < n \<and> bit x (n - 1)"
  using bit_push_bit_iff_int [of 1 x n] by (auto simp: push_bit_eq_mult)

text \<open>A comprehension whose element expression may raise.\<close>

primrec emap :: "('a \<Rightarrow> 'e + 'b) \<Rightarrow> 'a list \<Rightarrow> 'e + 'b list" where
  "emap f [] = Inr []"
| "emap f (x # xs) = ebind (f x) (\<lambda>y. ebind (emap f xs) (\<lambda>ys. Inr (y # ys)))"

lemma emap_length: "emap f xs = Inr ys \<Longrightarrow> length ys = length xs"
  by (induction xs arbitrary: ys) auto

lemma emap_nth: "emap f xs = Inr ys \<Longrightarrow> i < length xs \<Longrightarrow> f (xs ! i) = Inr (ys ! i)"
  by (induction xs arbitrary: ys i) (auto simp: nth_Cons split: nat.splits)

lemma emap_total: "(\<And>x. x \<in> set xs \<Longrightarrow> \<exists>y. f x = Inr y) \<Longrightarrow> \<exists>ys. emap f xs = Inr ys"
  by (induction xs) (fastforce simp: ebind_eq_Inr_iff)+

section \<open>Encoders and decoders\<close>

locale codec =
  fixes enc :: "'a \<Rightarrow> 'e + 'b" and dec :: "'b \<Rightarrow> 'e + 'a" and valid :: "'a \<Rightarrow> bool"
  assumes enc_total: "valid x \<Longrightarrow> \<exists>y. enc x = Inr y"
    and dec_enc: "valid x \<Longrightarrow> enc x = Inr y \<Longrightarrow> dec y = Inr x"
begin

lemma roundtrip: "valid x \<Longrightarrow> ebind (enc x) dec = Inr x"
  using enc_total dec_enc by fastforce

lemma enc_inj: "valid x \<Longrightarrow> valid y \<Longrightarrow> enc x = enc y \<Longrightarrow> x = y"
  by (metis roundtrip sum.inject(2))

lemma emap_enc_total: "list_all valid xs \<Longrightarrow> \<exists>ys. emap enc xs = Inr ys"
  by (rule emap_total) (auto simp: list_all_iff intro: enc_total)

lemma emap_roundtrip: "list_all valid xs \<Longrightarrow> emap enc xs = Inr ys \<Longrightarrow> emap dec ys = Inr xs"
  by (induction xs arbitrary: ys) (auto dest: dec_enc)

lemma emap_enc_inj:
  "list_all valid xs \<Longrightarrow> list_all valid ys \<Longrightarrow> emap enc xs = emap enc ys \<Longrightarrow> xs = ys"
  by (metis emap_enc_total emap_roundtrip sum.inject(2))

end

end
