(* ===== verification/Isa.thy ===== *)
theory Isa
  imports Prelude
begin

text \<open>
  The Titan ISA v2 as \<^verbatim>\<open>compiler/titan_compiler.py\<close> defines it: the opcode table
  \<open>OPS\<close> with its inverse \<open>OP_NAMES\<close>, the two instruction encoders \<open>enc_r\<close> and
  \<open>enc_i\<close>, the field extractions that the disassembler and the simulator share, and
  \<open>disassemble\<close>. The lemmas show that every field written is the field read back, that
  words fit 32 bits, and exactly when an encoding or a disassembly raises.
\<close>

section \<open>Opcodes\<close>

datatype isa_op =
    I_ADD | I_SUB | I_MUL | I_MULHI | I_DIV | I_AND | I_OR | I_XOR | I_SHL | I_SHR | I_SRA |
    I_SLT | I_SLTU | I_MIN | I_MAX | I_FMA | I_FADD | I_FMUL | I_FMIN | I_FMAX | I_CVT |
    I_SETP | I_LOAD | I_STORE | I_BRANCH | I_BARRIER | I_WMMA | I_SIN | I_COS | I_FFMA |
    I_ATOM_ADD | I_ATOM_CAS

fun OPS :: "isa_op \<Rightarrow> int" where
  "OPS I_ADD = 0"
| "OPS I_SUB = 1"
| "OPS I_MUL = 2"
| "OPS I_MULHI = 3"
| "OPS I_DIV = 4"
| "OPS I_AND = 5"
| "OPS I_OR = 6"
| "OPS I_XOR = 7"
| "OPS I_SHL = 8"
| "OPS I_SHR = 9"
| "OPS I_SRA = 10"
| "OPS I_SLT = 11"
| "OPS I_SLTU = 12"
| "OPS I_MIN = 13"
| "OPS I_MAX = 14"
| "OPS I_FMA = 15"
| "OPS I_FADD = 16"
| "OPS I_FMUL = 17"
| "OPS I_FMIN = 18"
| "OPS I_FMAX = 19"
| "OPS I_CVT = 20"
| "OPS I_SETP = 21"
| "OPS I_LOAD = 22"
| "OPS I_STORE = 23"
| "OPS I_BRANCH = 24"
| "OPS I_BARRIER = 25"
| "OPS I_WMMA = 26"
| "OPS I_SIN = 27"
| "OPS I_COS = 28"
| "OPS I_FFMA = 29"
| "OPS I_ATOM_ADD = 30"
| "OPS I_ATOM_CAS = 31"

text \<open>The keys of the dictionary, in its order.\<close>

definition all_ops :: "isa_op list" where
  "all_ops =
    [I_ADD, I_SUB, I_MUL, I_MULHI, I_DIV, I_AND, I_OR, I_XOR, I_SHL, I_SHR, I_SRA, I_SLT,
     I_SLTU, I_MIN, I_MAX, I_FMA, I_FADD, I_FMUL, I_FMIN, I_FMAX, I_CVT, I_SETP, I_LOAD,
     I_STORE, I_BRANCH, I_BARRIER, I_WMMA, I_SIN, I_COS, I_FFMA, I_ATOM_ADD, I_ATOM_CAS]"

fun op_str :: "isa_op \<Rightarrow> string" where
  "op_str I_ADD = ''ADD''"
| "op_str I_SUB = ''SUB''"
| "op_str I_MUL = ''MUL''"
| "op_str I_MULHI = ''MULHI''"
| "op_str I_DIV = ''DIV''"
| "op_str I_AND = ''AND''"
| "op_str I_OR = ''OR''"
| "op_str I_XOR = ''XOR''"
| "op_str I_SHL = ''SHL''"
| "op_str I_SHR = ''SHR''"
| "op_str I_SRA = ''SRA''"
| "op_str I_SLT = ''SLT''"
| "op_str I_SLTU = ''SLTU''"
| "op_str I_MIN = ''MIN''"
| "op_str I_MAX = ''MAX''"
| "op_str I_FMA = ''FMA''"
| "op_str I_FADD = ''FADD''"
| "op_str I_FMUL = ''FMUL''"
| "op_str I_FMIN = ''FMIN''"
| "op_str I_FMAX = ''FMAX''"
| "op_str I_CVT = ''CVT''"
| "op_str I_SETP = ''SETP''"
| "op_str I_LOAD = ''LOAD''"
| "op_str I_STORE = ''STORE''"
| "op_str I_BRANCH = ''BRANCH''"
| "op_str I_BARRIER = ''BARRIER''"
| "op_str I_WMMA = ''WMMA''"
| "op_str I_SIN = ''SIN''"
| "op_str I_COS = ''COS''"
| "op_str I_FFMA = ''FFMA''"
| "op_str I_ATOM_ADD = ''ATOM_ADD''"
| "op_str I_ATOM_CAS = ''ATOM_CAS''"

definition OP_NAMES :: "int \<Rightarrow> isa_op option" where
  "OP_NAMES = map_of (map (\<lambda>k. (OPS k, k)) all_ops)"

instantiation isa_op :: linorder
begin

definition less_eq_isa_op :: "isa_op \<Rightarrow> isa_op \<Rightarrow> bool" where
  "less_eq_isa_op a b \<longleftrightarrow> OPS a \<le> OPS b"

definition less_isa_op :: "isa_op \<Rightarrow> isa_op \<Rightarrow> bool" where
  "less_isa_op a b \<longleftrightarrow> OPS a < OPS b"

instance
proof
  fix x y :: isa_op
  show "x \<le> y \<Longrightarrow> y \<le> x \<Longrightarrow> x = y"
    by (cases x; cases y) (simp_all add: less_eq_isa_op_def)
qed (auto simp: less_eq_isa_op_def less_isa_op_def)

end

lemma OPS_range: "0 \<le> OPS k \<and> OPS k < 32"
  by (cases k) simp_all

lemma OPS_take_bit [simp]: "take_bit 5 (OPS k) = OPS k"
  using OPS_range [of k] by (simp add: take_bit_id)

lemma OP_NAMES_OPS [simp]: "OP_NAMES (OPS k) = Some k"
  by (cases k) (simp_all add: OP_NAMES_def all_ops_def)

text \<open>The table is total on five bits: no opcode field is unnamed.\<close>

lemma OP_NAMES_total: "0 \<le> n \<Longrightarrow> n < 32 \<Longrightarrow> \<exists>k. OP_NAMES n = Some k \<and> OPS k = n"
proof -
  assume "0 \<le> n" "n < 32"
  then have "n \<in> set (map OPS all_ops)"
    by (simp add: all_ops_def) presburger
  then obtain k where "n = OPS k" by auto
  then show ?thesis by auto
qed

lemma OPS_inj: "OPS a = OPS b \<longleftrightarrow> a = b"
  by (metis OP_NAMES_OPS option.inject)

section \<open>Constants\<close>

datatype cmp = CMP_EQ | CMP_NE | CMP_LT | CMP_GE | CMP_LTU | CMP_GEU

fun cmp_code :: "cmp \<Rightarrow> int" where
  "cmp_code CMP_EQ = 0"
| "cmp_code CMP_NE = 1"
| "cmp_code CMP_LT = 2"
| "cmp_code CMP_GE = 3"
| "cmp_code CMP_LTU = 4"
| "cmp_code CMP_GEU = 5"

definition CMP_NAMES :: "string list" where
  "CMP_NAMES = [''EQ'', ''NE'', ''LT'', ''GE'', ''LTU'', ''GEU'']"

definition R_ZERO :: int where "R_ZERO = 0"
definition R_PARAM :: int where "R_PARAM = 1"
definition R_LDA :: int where "R_LDA = 58"
definition R_LDB :: int where "R_LDB = 59"
definition R_LDC :: int where "R_LDC = 60"

definition R_POOL :: "int list" where
  "R_POOL = map int [2..<58]"

definition EXIT_IMM :: int where "EXIT_IMM = 0xFFF"
definition WMMA_FLAG_FP8 :: int where "WMMA_FLAG_FP8 = 1"
definition WMMA_TILE :: int where "WMMA_TILE = 16"

lemmas isa_consts = R_ZERO_def R_PARAM_def R_LDA_def R_LDB_def R_LDC_def EXIT_IMM_def
  WMMA_FLAG_FP8_def WMMA_TILE_def

lemma R_POOL_iff: "r \<in> set R_POOL \<longleftrightarrow> 2 \<le> r \<and> r < 58"
proof
  show "2 \<le> r \<and> r < 58 \<Longrightarrow> r \<in> set R_POOL"
    unfolding R_POOL_def set_map set_upt
    by (rule image_eqI [of _ _ "nat r"]) (simp, simp add: nat_less_iff le_nat_iff)
  show "r \<in> set R_POOL \<Longrightarrow> 2 \<le> r \<and> r < 58"
    unfolding R_POOL_def set_map set_upt by auto
qed

lemma distinct_R_POOL [simp]: "distinct R_POOL"
  by (simp add: R_POOL_def distinct_map)

section \<open>Encoders\<close>

definition enc_r :: "int \<Rightarrow> int \<Rightarrow> int \<Rightarrow> int \<Rightarrow> int \<Rightarrow> int \<Rightarrow> int" where
  "enc_r opc rd rs1 rs2 rs3 prd =
     push_bit 27 opc OR push_bit 21 (rd AND 63) OR push_bit 15 (rs1 AND 63) OR
     push_bit 9 (rs2 AND 63) OR push_bit 3 (rs3 AND 63) OR push_bit 1 (prd AND 3)"

definition enc_i :: "int \<Rightarrow> int \<Rightarrow> int \<Rightarrow> int \<Rightarrow> int \<Rightarrow> py_error + int" where
  "enc_i opc rd rs1 imm prd =
     (if \<not> (0 \<le> imm \<and> imm \<le> 0xFFF) then Inl AssertionError
      else Inr (push_bit 27 opc OR push_bit 21 (rd AND 63) OR push_bit 15 (rs1 AND 63) OR
                push_bit 3 (imm AND 0xFFF) OR push_bit 1 (prd AND 3) OR 1))"

section \<open>Fields of a word\<close>

definition f_op :: "int \<Rightarrow> int" where "f_op w = drop_bit 27 w AND 31"
definition f_rd :: "int \<Rightarrow> int" where "f_rd w = drop_bit 21 w AND 63"
definition f_rs1 :: "int \<Rightarrow> int" where "f_rs1 w = drop_bit 15 w AND 63"
definition f_rs2 :: "int \<Rightarrow> int" where "f_rs2 w = drop_bit 9 w AND 63"
definition f_rs3 :: "int \<Rightarrow> int" where "f_rs3 w = drop_bit 3 w AND 63"
definition f_pred :: "int \<Rightarrow> int" where "f_pred w = drop_bit 1 w AND 3"
definition f_uimm :: "int \<Rightarrow> int" where "f_uimm w = w AND 1"
definition f_imm :: "int \<Rightarrow> int" where "f_imm w = drop_bit 3 w AND 0xFFF"

lemmas field_defs = f_op_def f_rd_def f_rs1_def f_rs2_def f_rs3_def f_pred_def f_uimm_def f_imm_def

lemma field_ranges:
  "0 \<le> f_op w \<and> f_op w < 32" "0 \<le> f_rd w \<and> f_rd w < 64" "0 \<le> f_rs1 w \<and> f_rs1 w < 64"
  "0 \<le> f_rs2 w \<and> f_rs2 w < 64" "0 \<le> f_rs3 w \<and> f_rs3 w < 64" "0 \<le> f_pred w \<and> f_pred w < 4"
  "0 \<le> f_uimm w \<and> f_uimm w < 2" "0 \<le> f_imm w \<and> f_imm w < 4096"
  unfolding field_defs mask_simps
  using take_bit_lt [of 5 "drop_bit 27 w"] take_bit_lt [of 6 "drop_bit 21 w"]
    take_bit_lt [of 6 "drop_bit 15 w"] take_bit_lt [of 6 "drop_bit 9 w"]
    take_bit_lt [of 6 "drop_bit 3 w"] take_bit_lt [of 2 "drop_bit 1 w"]
    take_bit_lt [of 1 w] take_bit_lt [of 12 "drop_bit 3 w"]
  by simp_all

lemma enc_r_fields:
  assumes "0 \<le> opc" "opc < 32"
  shows "f_op (enc_r opc rd rs1 rs2 rs3 prd) = opc"
    "f_rd (enc_r opc rd rs1 rs2 rs3 prd) = take_bit 6 rd"
    "f_rs1 (enc_r opc rd rs1 rs2 rs3 prd) = take_bit 6 rs1"
    "f_rs2 (enc_r opc rd rs1 rs2 rs3 prd) = take_bit 6 rs2"
    "f_rs3 (enc_r opc rd rs1 rs2 rs3 prd) = take_bit 6 rs3"
    "f_pred (enc_r opc rd rs1 rs2 rs3 prd) = take_bit 2 prd"
    "f_uimm (enc_r opc rd rs1 rs2 rs3 prd) = 0"
proof -
  have op: "take_bit 5 opc = opc" using assms by (simp add: take_bit_id)
  have "take_bit 5 (drop_bit 27 (enc_r opc rd rs1 rs2 rs3 prd)) = take_bit 5 opc"
    unfolding enc_r_def mask_simps by (rule bit_eqI) (auto simp: bit_simps)
  with op show "f_op (enc_r opc rd rs1 rs2 rs3 prd) = opc"
    by (simp add: f_op_def mask_simps)
  show "f_rd (enc_r opc rd rs1 rs2 rs3 prd) = take_bit 6 rd"
    "f_rs1 (enc_r opc rd rs1 rs2 rs3 prd) = take_bit 6 rs1"
    "f_rs2 (enc_r opc rd rs1 rs2 rs3 prd) = take_bit 6 rs2"
    "f_rs3 (enc_r opc rd rs1 rs2 rs3 prd) = take_bit 6 rs3"
    "f_pred (enc_r opc rd rs1 rs2 rs3 prd) = take_bit 2 prd"
    "f_uimm (enc_r opc rd rs1 rs2 rs3 prd) = 0"
    unfolding enc_r_def field_defs mask_simps
    by (rule bit_eqI; auto simp: bit_simps)+
qed

lemma enc_i_Inr:
  assumes "0 \<le> imm" "imm \<le> 0xFFF"
  shows "enc_i opc rd rs1 imm prd = Inr (push_bit 27 opc OR push_bit 21 (take_bit 6 rd) OR
    push_bit 15 (take_bit 6 rs1) OR push_bit 3 (take_bit 12 imm) OR push_bit 1 (take_bit 2 prd) OR 1)"
  using assms unfolding enc_i_def mask_simps by simp

lemma enc_i_fields:
  assumes "0 \<le> opc" "opc < 32" and w: "enc_i opc rd rs1 imm prd = Inr w"
  shows "f_op w = opc" "f_rd w = take_bit 6 rd" "f_rs1 w = take_bit 6 rs1"
    "f_imm w = imm" "f_pred w = take_bit 2 prd" "f_uimm w = 1"
proof -
  have op: "take_bit 5 opc = opc" using assms by (simp add: take_bit_id)
  have imm: "0 \<le> imm" "imm \<le> 0xFFF" using w by (auto simp: enc_i_def split: if_splits)
  then have imm': "take_bit 12 imm = imm" by (simp add: take_bit_id)
  have weq: "w = push_bit 27 opc OR push_bit 21 (take_bit 6 rd) OR
    push_bit 15 (take_bit 6 rs1) OR push_bit 3 (take_bit 12 imm) OR push_bit 1 (take_bit 2 prd) OR 1"
    using enc_i_Inr [OF imm, of opc rd rs1 prd] w by simp
  have "take_bit 5 (drop_bit 27 w) = take_bit 5 opc"
    unfolding weq by (rule bit_eqI) (auto simp: bit_simps)
  with op show "f_op w = opc" by (simp add: f_op_def mask_simps)
  have "take_bit 12 (drop_bit 3 w) = take_bit 12 imm"
    unfolding weq by (rule bit_eqI) (auto simp: bit_simps)
  with imm' show "f_imm w = imm" by (simp add: f_imm_def mask_simps)
  show "f_rd w = take_bit 6 rd" "f_rs1 w = take_bit 6 rs1"
    "f_pred w = take_bit 2 prd" "f_uimm w = 1"
    unfolding weq field_defs mask_simps by (rule bit_eqI; auto simp: bit_simps)+
qed

lemma enc_r_32bit:
  assumes "0 \<le> opc" "opc < 32"
  shows "0 \<le> enc_r opc rd rs1 rs2 rs3 prd \<and> enc_r opc rd rs1 rs2 rs3 prd < 2 ^ 32"
proof -
  have op: "take_bit 5 opc = opc" using assms by (simp add: take_bit_id)
  have "take_bit 32 (enc_r opc rd rs1 rs2 rs3 prd) = enc_r opc rd rs1 rs2 rs3 prd"
    unfolding enc_r_def mask_simps by (simp only: take_bit_or take_bit_push_bit) (simp add: op)
  then show ?thesis by (simp only: take_bit_self_iff)
qed

lemma enc_i_32bit:
  assumes "0 \<le> opc" "opc < 32" "enc_i opc rd rs1 imm prd = Inr w"
  shows "0 \<le> w \<and> w < 2 ^ 32"
proof -
  have op: "take_bit 5 opc = opc" using assms by (simp add: take_bit_id)
  have "w = push_bit 27 opc OR push_bit 21 (take_bit 6 rd) OR
    push_bit 15 (take_bit 6 rs1) OR push_bit 3 (take_bit 12 imm) OR push_bit 1 (take_bit 2 prd) OR 1"
    using assms(3) by (auto simp: enc_i_def mask_simps split: if_splits)
  then have "take_bit 32 w = w"
    by (simp only: take_bit_or take_bit_push_bit) (simp add: op)
  then show ?thesis by (simp only: take_bit_self_iff)
qed

section \<open>Instructions as data\<close>

text \<open>
  An instruction in one of the two formats, with the arguments of the encoder call that
  builds its word, and what the field extractions read back from a word.
\<close>

datatype instr =
    RInstr isa_op int int int int int
  | IInstr isa_op int int int int

fun encode :: "instr \<Rightarrow> py_error + int" where
  "encode (RInstr k rd rs1 rs2 rs3 prd) = Inr (enc_r (OPS k) rd rs1 rs2 rs3 prd)"
| "encode (IInstr k rd rs1 imm prd) = enc_i (OPS k) rd rs1 imm prd"

definition decode_word :: "int \<Rightarrow> py_error + instr" where
  "decode_word w =
    (case OP_NAMES (f_op w) of
       None \<Rightarrow> Inl KeyError
     | Some k \<Rightarrow>
         Inr (if f_uimm w \<noteq> 0 then IInstr k (f_rd w) (f_rs1 w) (f_imm w) (f_pred w)
              else RInstr k (f_rd w) (f_rs1 w) (f_rs2 w) (f_rs3 w) (f_pred w)))"

definition field_ok :: "nat \<Rightarrow> int \<Rightarrow> bool" where
  "field_ok n x \<longleftrightarrow> 0 \<le> x \<and> x < 2 ^ n"

fun instr_ok :: "instr \<Rightarrow> bool" where
  "instr_ok (RInstr k rd rs1 rs2 rs3 prd) \<longleftrightarrow>
     field_ok 6 rd \<and> field_ok 6 rs1 \<and> field_ok 6 rs2 \<and> field_ok 6 rs3 \<and> field_ok 2 prd"
| "instr_ok (IInstr k rd rs1 imm prd) \<longleftrightarrow>
     field_ok 6 rd \<and> field_ok 6 rs1 \<and> field_ok 12 imm \<and> field_ok 2 prd"

lemma take_bit_field: "field_ok n x \<Longrightarrow> take_bit n x = x"
  by (simp add: field_ok_def take_bit_id)

interpretation isa: codec encode decode_word instr_ok
proof
  show "\<exists>y. encode x = Inr y" if "instr_ok x" for x
    using that by (cases x) (auto simp: enc_i_def field_ok_def)
  show "decode_word y = Inr x" if "instr_ok x" "encode x = Inr y" for x y
  proof (cases x)
    case (RInstr k rd rs1 rs2 rs3 prd)
    have "y = enc_r (OPS k) rd rs1 rs2 rs3 prd" using that(2) RInstr by simp
    then show ?thesis
      using that(1) RInstr OPS_range [of k] by (simp add: decode_word_def enc_r_fields take_bit_field)
  next
    case (IInstr k rd rs1 imm prd)
    have y: "enc_i (OPS k) rd rs1 imm prd = Inr y" using that(2) IInstr by simp
    show ?thesis
      using enc_i_fields [OF _ _ y] that(1) IInstr OPS_range [of k]
      by (simp add: decode_word_def take_bit_field)
  qed
qed

section \<open>Disassembler\<close>

fun dec_str :: "nat \<Rightarrow> string" where
  "dec_str n = (if n < 10 then [char_of (48 + n)] else dec_str (n div 10) @ [char_of (48 + n mod 10)])"

declare dec_str.simps [simp del]

definition reg_str :: "int \<Rightarrow> string" where
  "reg_str r = ''r'' @ dec_str (nat r)"

definition disassemble :: "int \<Rightarrow> py_error + string" where
  "disassemble w =
    (let rd = f_rd w; rs1 = f_rs1 w; rs2 = f_rs2 w; rs3 = f_rs3 w;
         prd = f_pred w; uimm = f_uimm w; imm = f_imm w;
         ptxt = (if prd \<noteq> 0 then ''@p'' @ dec_str (nat prd) @ '' '' else []);
         src2 = (if uimm \<noteq> 0 then ''#'' @ dec_str (nat imm) else reg_str rs2)
     in case OP_NAMES (f_op w) of
       None \<Rightarrow> Inl KeyError
     | Some name \<Rightarrow>
       (if name = I_BRANCH then Inr (ptxt @ ''BRANCH -> '' @ dec_str (nat imm))
        else if name = I_BARRIER then
          Inr (if uimm \<noteq> 0 \<and> imm = EXIT_IMM then ptxt @ ''EXIT'' else ptxt @ ''BARRIER'')
        else if name = I_SETP then
          (let cond = drop_bit 2 rd AND 7; pdst = rd AND 3
           in if cond < int (length CMP_NAMES)
              then Inr (ptxt @ ''SETP.'' @ (CMP_NAMES ! nat cond) @ '' p'' @ dec_str (nat pdst) @
                        '', '' @ reg_str rs1 @ '', '' @ src2)
              else Inl IndexError)
        else if name = I_WMMA then
          Inr (ptxt @ ''WMMA.'' @ (if rs3 AND WMMA_FLAG_FP8 \<noteq> 0 then ''FP8'' else ''INT8'') @
               ''.16x16x16 ['' @ reg_str rd @ ''] += ['' @ reg_str rs1 @ ''] x ['' @ reg_str rs2 @ '']'')
        else if name = I_LOAD then
          Inr (ptxt @ ''LOAD '' @ reg_str rd @ '', ['' @ reg_str rs1 @ '' + '' @ src2 @ '']'')
        else if name = I_STORE then
          Inr (ptxt @ ''STORE ['' @ reg_str rs1 @ '' + '' @ src2 @ ''], '' @ reg_str rd)
        else if name = I_FMA then
          Inr (ptxt @ ''FMA '' @ reg_str rd @ '', '' @ reg_str rs1 @ '', '' @ src2 @ '', '' @ reg_str rs3)
        else Inr (ptxt @ op_str name @ '' '' @ reg_str rd @ '', '' @ reg_str rs1 @ '', '' @ src2)))"

lemma disassemble_error_iff:
  "(\<exists>e. disassemble w = Inl e) \<longleftrightarrow> f_op w = OPS I_SETP \<and> 6 \<le> (drop_bit 2 (f_rd w) AND 7)"
proof -
  obtain k where k: "OP_NAMES (f_op w) = Some k" "OPS k = f_op w"
    using OP_NAMES_total [of "f_op w"] field_ranges(1) [of w] by auto
  show ?thesis
    by (cases "k = I_SETP")
       (auto simp: disassemble_def Let_def k(1) k(2)[symmetric] OPS_inj CMP_NAMES_def
          simp del: OPS.simps)
qed

end
