(* ===== verification/Assembler.thy ===== *)
theory Assembler
  imports Isa
begin

text \<open>
  The class \<open>Assembler\<close> of \<^verbatim>\<open>compiler/titan_compiler.py\<close>: an instruction stream with
  label fixups. A \<open>Label\<close> object is an index into the heap \<open>labels\<close>, whose cell is the
  label's mutable \<open>pc\<close> (\<open>None\<close> until bound). The invariant \<open>asm_wf\<close> says that every
  pending fixup points at a distinct branch word with an empty target; every operation keeps
  it, and \<open>finalize\<close> then patches exactly the target fields.
\<close>

section \<open>State and operations\<close>

record assembler =
  words :: "int list"
  fixups :: "(nat \<times> nat) list"
  labels :: "nat option list"

definition asm_init :: assembler where
  "asm_init = \<lparr>words = [], fixups = [], labels = []\<rparr>"

definition asm_here :: "assembler \<Rightarrow> nat \<times> assembler" where
  "asm_here s = (length (labels s), s\<lparr>labels := labels s @ [Some (length (words s))]\<rparr>)"

definition asm_new_label :: "assembler \<Rightarrow> nat \<times> assembler" where
  "asm_new_label s = (length (labels s), s\<lparr>labels := labels s @ [None]\<rparr>)"

definition asm_bind :: "nat \<Rightarrow> assembler \<Rightarrow> assembler" where
  "asm_bind l s = s\<lparr>labels := (labels s)[l := Some (length (words s))]\<rparr>"

definition asm_emit :: "int \<Rightarrow> assembler \<Rightarrow> assembler" where
  "asm_emit w s = s\<lparr>words := words s @ [w]\<rparr>"

definition asm_r :: "isa_op \<Rightarrow> int \<Rightarrow> int \<Rightarrow> int \<Rightarrow> int \<Rightarrow> int \<Rightarrow> assembler \<Rightarrow> assembler" where
  "asm_r opn rd rs1 rs2 rs3 prd s = asm_emit (enc_r (OPS opn) rd rs1 rs2 rs3 prd) s"

definition asm_i :: "isa_op \<Rightarrow> int \<Rightarrow> int \<Rightarrow> int \<Rightarrow> int \<Rightarrow> assembler \<Rightarrow> py_error + assembler" where
  "asm_i opn rd rs1 imm prd s =
     ebind (enc_i (OPS opn) rd rs1 imm prd) (\<lambda>w. Inr (asm_emit w s))"

definition asm_branch :: "nat \<Rightarrow> int \<Rightarrow> assembler \<Rightarrow> py_error + assembler" where
  "asm_branch l prd s =
     (let s1 = s\<lparr>fixups := fixups s @ [(length (words s), l)]\<rparr>
      in ebind (enc_i (OPS I_BRANCH) 0 0 0 prd) (\<lambda>w. Inr (asm_emit w s1)))"

definition asm_setp :: "cmp \<Rightarrow> int \<Rightarrow> int \<Rightarrow> int \<Rightarrow> assembler \<Rightarrow> assembler" where
  "asm_setp cond pdst rs1 rs2 s =
     asm_r I_SETP (push_bit 2 (cmp_code cond) OR pdst) rs1 rs2 0 0 s"

definition asm_li :: "int \<Rightarrow> int \<Rightarrow> assembler \<Rightarrow> py_error + assembler" where
  "asm_li rd v s =
    (let value = v AND 0xFFFFFFFF in
     if value \<le> 0xFFF then asm_i I_ADD rd R_ZERO value 0 s
     else if push_bit 32 1 - value \<le> 0xFFF then
       ebind (asm_i I_ADD rd R_ZERO (push_bit 32 1 - value) 0 s) (\<lambda>s.
       Inr (asm_r I_SUB rd R_ZERO rd 0 0 s))
     else
       ebind (asm_i I_ADD rd R_ZERO (drop_bit 24 value AND 0xFF) 0 s) (\<lambda>s.
       ebind (asm_i I_SHL rd rd 12 0 s) (\<lambda>s.
       ebind (asm_i I_OR rd rd (drop_bit 12 value AND 0xFFF) 0 s) (\<lambda>s.
       ebind (asm_i I_SHL rd rd 12 0 s) (\<lambda>s.
       asm_i I_OR rd rd (value AND 0xFFF) 0 s)))))"

definition asm_mov :: "int \<Rightarrow> int \<Rightarrow> assembler \<Rightarrow> py_error + assembler" where
  "asm_mov rd rs s = (if rd \<noteq> rs then asm_i I_ADD rd rs 0 0 s else Inr s)"

definition asm_exit :: "assembler \<Rightarrow> py_error + assembler" where
  "asm_exit s = asm_i I_BARRIER 0 0 EXIT_IMM 0 s"

definition label_pc :: "nat option list \<Rightarrow> nat \<Rightarrow> nat option" where
  "label_pc lbls l = (if l < length lbls then lbls ! l else None)"

definition patch :: "int \<Rightarrow> nat \<Rightarrow> int" where
  "patch w pc = w OR push_bit 3 (int pc AND 0xFFF)"

fun patch_all :: "nat option list \<Rightarrow> (nat \<times> nat) list \<Rightarrow> int list \<Rightarrow> py_error + int list" where
  "patch_all lbls [] ws = Inr ws"
| "patch_all lbls ((idx, l) # fs) ws =
     (case label_pc lbls l of
        None \<Rightarrow> Inl (CompileError ''unbound label'')
      | Some pc \<Rightarrow>
          if pc > 0xFFF then Inl (CompileError ''branch target beyond imm12 range'')
          else if idx < length ws then patch_all lbls fs (ws[idx := patch (ws ! idx) pc])
          else Inl IndexError)"

definition asm_finalize :: "assembler \<Rightarrow> py_error + (int list \<times> assembler)" where
  "asm_finalize s =
     ebind (patch_all (labels s) (fixups s) (words s)) (\<lambda>ws.
       Inr (ws, s\<lparr>words := ws, fixups := []\<rparr>))"

lemmas asm_defs = asm_here_def asm_new_label_def asm_bind_def asm_emit_def asm_r_def asm_i_def
  asm_branch_def asm_setp_def asm_mov_def asm_exit_def

section \<open>The assembler invariant\<close>

text \<open>The word \<open>branch\<close> emits, before its target is known.\<close>

definition branch_word :: "int \<Rightarrow> int" where
  "branch_word prd = push_bit 27 24 OR push_bit 1 (take_bit 2 prd) OR 1"

lemma enc_branch [simp]: "enc_i 24 0 0 0 prd = Inr (branch_word prd)"
  by (simp add: enc_i_def branch_word_def mask_simps)

definition asm_wf :: "assembler \<Rightarrow> bool" where
  "asm_wf s \<longleftrightarrow>
     distinct (map fst (fixups s)) \<and>
     (\<forall>(i, l) \<in> set (fixups s). i < length (words s) \<and> l < length (labels s) \<and>
        (\<exists>prd. words s ! i = branch_word prd)) \<and>
     (\<forall>p \<in> set (labels s). \<forall>pc. p = Some pc \<longrightarrow> pc \<le> length (words s))"

lemma asm_wf_init: "asm_wf asm_init"
  by (simp add: asm_wf_def asm_init_def)

lemma asm_wf_emit: "asm_wf s \<Longrightarrow> asm_wf (asm_emit w s)"
  unfolding asm_wf_def asm_emit_def by (fastforce simp: nth_append)

lemma asm_wf_here: "asm_wf s \<Longrightarrow> asm_wf (snd (asm_here s))"
  unfolding asm_wf_def asm_here_def by fastforce

lemma asm_wf_new_label: "asm_wf s \<Longrightarrow> asm_wf (snd (asm_new_label s))"
  unfolding asm_wf_def asm_new_label_def by fastforce

lemma asm_wf_bind: "asm_wf s \<Longrightarrow> asm_wf (asm_bind l s)"
  unfolding asm_wf_def asm_bind_def
  using set_update_subset_insert [of "labels s" l "Some (length (words s))"] by fastforce

lemma asm_wf_r: "asm_wf s \<Longrightarrow> asm_wf (asm_r opn rd rs1 rs2 rs3 prd s)"
  by (simp add: asm_r_def asm_wf_emit)

lemma asm_wf_setp: "asm_wf s \<Longrightarrow> asm_wf (asm_setp c p a b s)"
  by (simp add: asm_setp_def asm_wf_r)

lemma asm_wf_i: "asm_wf s \<Longrightarrow> asm_i opn rd rs1 imm prd s = Inr s' \<Longrightarrow> asm_wf s'"
  by (auto simp: asm_i_def asm_wf_emit)

lemma asm_wf_branch:
  assumes "asm_wf s" "l < length (labels s)" "asm_branch l prd s = Inr s'"
  shows "asm_wf s'"
proof -
  have s': "s' = s\<lparr>fixups := fixups s @ [(length (words s), l)], words := words s @ [branch_word prd]\<rparr>"
    using assms(3) by (simp add: asm_branch_def asm_emit_def)
  show ?thesis
    using assms(1,2) unfolding asm_wf_def s'
    by (fastforce simp: nth_append)
qed

lemma asm_wf_li: "asm_wf s \<Longrightarrow> asm_li rd v s = Inr s' \<Longrightarrow> asm_wf s'"
  unfolding asm_li_def Let_def
  by (auto split: if_splits intro: asm_wf_i asm_wf_r) (meson asm_wf_i)

lemma asm_wf_mov: "asm_wf s \<Longrightarrow> asm_mov rd rs s = Inr s' \<Longrightarrow> asm_wf s'"
  by (auto simp: asm_mov_def intro: asm_wf_i split: if_splits)

lemma asm_wf_exit: "asm_wf s \<Longrightarrow> asm_exit s = Inr s' \<Longrightarrow> asm_wf s'"
  by (auto simp: asm_exit_def intro: asm_wf_i)

lemmas asm_wf_intros = asm_wf_emit asm_wf_here asm_wf_new_label asm_wf_bind asm_wf_r asm_wf_setp
  asm_wf_i asm_wf_branch asm_wf_li asm_wf_mov asm_wf_exit

text \<open>
  What each emitter appends, when it does not raise: \<open>iw\<close> is the word of an immediate
  instruction whose immediate fits, \<open>li_words\<close> the sequence \<open>li\<close> chooses.
\<close>

definition iw :: "isa_op \<Rightarrow> int \<Rightarrow> int \<Rightarrow> int \<Rightarrow> int" where
  "iw opn rd rs1 imm = push_bit 27 (OPS opn) OR push_bit 21 (take_bit 6 rd) OR
     push_bit 15 (take_bit 6 rs1) OR push_bit 3 (take_bit 12 imm) OR 1"

definition rw :: "isa_op \<Rightarrow> int \<Rightarrow> int \<Rightarrow> int \<Rightarrow> int" where
  "rw opn rd rs1 rs2 = enc_r (OPS opn) rd rs1 rs2 0 0"

lemma asm_i_eq: "0 \<le> imm \<Longrightarrow> imm \<le> 0xFFF \<Longrightarrow> asm_i opn rd rs1 imm 0 s = Inr (asm_emit (iw opn rd rs1 imm) s)"
  by (simp add: asm_i_def enc_i_Inr iw_def)

lemma asm_r_eq: "asm_r opn rd rs1 rs2 0 0 s = asm_emit (rw opn rd rs1 rs2) s"
  by (simp add: asm_r_def rw_def)

lemma iw_enc: "0 \<le> imm \<Longrightarrow> imm \<le> 0xFFF \<Longrightarrow> enc_i (OPS opn) rd rs1 imm 0 = Inr (iw opn rd rs1 imm)"
  by (simp add: enc_i_Inr iw_def)

definition li_words :: "int \<Rightarrow> int \<Rightarrow> int list" where
  "li_words rd v =
    (let value = take_bit 32 v in
     if value \<le> 0xFFF then [iw I_ADD rd R_ZERO value]
     else if 2 ^ 32 - value \<le> 0xFFF then
       [iw I_ADD rd R_ZERO (2 ^ 32 - value), rw I_SUB rd R_ZERO rd]
     else
       [iw I_ADD rd R_ZERO (take_bit 8 (drop_bit 24 value)), iw I_SHL rd rd 12,
        iw I_OR rd rd (take_bit 12 (drop_bit 12 value)), iw I_SHL rd rd 12,
        iw I_OR rd rd (take_bit 12 value)])"

definition asm_append :: "int list \<Rightarrow> assembler \<Rightarrow> assembler" where
  "asm_append ws s = s\<lparr>words := words s @ ws\<rparr>"

lemma asm_append_simps [simp]:
  "words (asm_append ws s) = words s @ ws" "fixups (asm_append ws s) = fixups s"
  "labels (asm_append ws s) = labels s" "asm_append [] s = s"
  "asm_append vs (asm_append ws s) = asm_append (ws @ vs) s"
  "asm_emit w s = asm_append [w] s"
  by (simp_all add: asm_append_def asm_emit_def)

lemma take_bit_le_mask: "take_bit n (x :: int) \<le> 2 ^ n - 1"
  using take_bit_lt [of n x] by linarith

lemma asm_li_eq: "asm_li rd v s = Inr (asm_append (li_words rd v) s)"
proof -
  have "take_bit 8 x \<le> (0xFFF :: int)" "take_bit 12 x \<le> (0xFFF :: int)" for x :: int
    using take_bit_le_mask [of 8 x] take_bit_le_mask [of 12 x] by simp_all
  moreover have "0 \<le> 2 ^ 32 - take_bit 32 v"
    using take_bit_lt [of 32 v] by simp
  ultimately show ?thesis
    unfolding asm_li_def li_words_def Let_def mask_simps
    by (auto simp: asm_i_eq asm_r_eq)
qed

lemma asm_mov_eq: "asm_mov rd rs s = Inr (asm_append (if rd \<noteq> rs then [iw I_ADD rd rs 0] else []) s)"
  by (simp add: asm_mov_def asm_i_eq)

text \<open>Immediates of the source that always fit.\<close>

lemma asm_exit_Inr: "asm_exit s = Inr (asm_emit 0xC8007FF9 s)"
  by (simp add: asm_exit_def asm_i_def enc_i_def EXIT_IMM_def)

lemma asm_i_Inr: "0 \<le> imm \<Longrightarrow> imm \<le> 0xFFF \<Longrightarrow> \<exists>s'. asm_i opn rd rs1 imm prd s = Inr s'"
  by (simp add: asm_i_def enc_i_def)

section \<open>Patching\<close>

lemma patch_branch_word:
  assumes "pc \<le> 0xFFF"
  shows "enc_i (OPS I_BRANCH) 0 0 (int pc) prd = Inr (patch (branch_word prd) pc)"
proof -
  have "take_bit 12 (int pc) = int pc" using assms by (simp add: take_bit_id)
  then have "patch (branch_word prd) pc =
    push_bit 27 24 OR push_bit 3 (int pc) OR push_bit 1 (take_bit 2 prd) OR 1"
    unfolding patch_def branch_word_def mask_simps by (simp only: or.assoc or.commute or.left_commute)
  moreover have "take_bit 12 (int pc) = int pc" using assms by (simp add: take_bit_id)
  ultimately show ?thesis using assms by (simp add: enc_i_def mask_simps)
qed

text \<open>A successful run of the patch loop: what every word of the result is.\<close>

lemma patch_all_length: "patch_all lbls fs ws = Inr ws' \<Longrightarrow> length ws' = length ws"
  by (induction lbls fs ws rule: patch_all.induct) (auto split: option.splits if_splits)

lemma patch_all_other:
  "patch_all lbls fs ws = Inr ws' \<Longrightarrow> i \<notin> fst ` set fs \<Longrightarrow> ws' ! i = ws ! i"
  by (induction lbls fs ws rule: patch_all.induct) (auto split: option.splits if_splits)

lemma patch_all_fixup:
  "patch_all lbls fs ws = Inr ws' \<Longrightarrow> distinct (map fst fs) \<Longrightarrow> (i, l) \<in> set fs \<Longrightarrow>
   \<exists>pc. label_pc lbls l = Some pc \<and> pc \<le> 0xFFF \<and> i < length ws \<and> ws' ! i = patch (ws ! i) pc"
proof (induction lbls fs ws rule: patch_all.induct)
  case (2 lbls idx l' fs ws)
  from "2.prems"(1) obtain pc where pc: "label_pc lbls l' = Some pc" "pc \<le> 0xFFF" "idx < length ws"
    and rest: "patch_all lbls fs (ws[idx := patch (ws ! idx) pc]) = Inr ws'"
    by (auto split: option.splits if_splits)
  show ?case
  proof (cases "i = idx")
    case True
    with "2.prems"(2,3) have "l = l'" and "idx \<notin> fst ` set fs"
      by (auto simp: image_iff)
    with patch_all_other [OF rest this(2)] pc True show ?thesis by auto
  next
    case False
    with "2.prems"(3) have "(i, l) \<in> set fs" by auto
    moreover have "\<not> pc > 0xFFF" using pc by simp
    ultimately show ?thesis
      using "2.IH" [OF pc(1) _ pc(3) rest] "2.prems"(2) False by auto
  qed
qed simp

lemma patch_all_total:
  assumes "\<forall>(i, l) \<in> set fs. i < length ws \<and> (\<exists>pc. label_pc lbls l = Some pc \<and> pc \<le> 0xFFF)"
  shows "\<exists>ws'. patch_all lbls fs ws = Inr ws'"
  using assms by (induction lbls fs ws rule: patch_all.induct) (auto split: option.splits)

lemma asm_i_error_iff: "(\<exists>e. asm_i opn rd rs1 imm prd s = Inl e) \<longleftrightarrow> imm < 0 \<or> 0xFFF < imm"
  by (auto simp: asm_i_def enc_i_def)

end
