(* ===== verification/FpRef.thy ===== *)
theory FpRef
  imports Prelude Complex_Main
begin

text \<open>
  The exact IEEE-754 reference model \<^verbatim>\<open>tb/uvm/fp_ref.py\<close>: formats, decoding, the
  rounding and packing of an exact magnitude, and \<open>fp_add\<close>, \<open>fp_mul\<close>, \<open>fp_fma\<close>. The
  abstract contract is \<open>correctly_rounded\<close>: the result is the best representable value for
  the exact rational result under the rounding mode. The lemmas follow the four stages of
  \<open>_round_pack\<close> (align, increment, carry, encode).
\<close>

section \<open>Formats\<close>

record fp_format =
  EXP :: nat
  MANT :: nat
  BIAS :: int
  EMAX_FIELD :: int
  WIDTH :: nat
  QNAN :: int
  MIN_SCALE :: int

definition FpFormat :: "nat \<Rightarrow> nat \<Rightarrow> fp_format" where
  "FpFormat exp_bits mant_bits =
    (let bias = push_bit (exp_bits - 1) 1 - 1; emax = push_bit exp_bits 1 - 1 in
     \<lparr>EXP = exp_bits, MANT = mant_bits, BIAS = bias, EMAX_FIELD = emax,
      WIDTH = 1 + exp_bits + mant_bits,
      QNAN = push_bit mant_bits emax OR push_bit (mant_bits - 1) 1,
      MIN_SCALE = 1 - bias - int mant_bits\<rparr>)"

definition fp_inf :: "fp_format \<Rightarrow> int \<Rightarrow> int" where
  "fp_inf fmt sign = push_bit (WIDTH fmt - 1) sign OR push_bit (MANT fmt) (EMAX_FIELD fmt)"

definition max_finite :: "fp_format \<Rightarrow> int \<Rightarrow> int" where
  "max_finite fmt sign = push_bit (WIDTH fmt - 1) sign OR push_bit (MANT fmt) (EMAX_FIELD fmt - 1) OR
     (push_bit (MANT fmt) 1 - 1)"

definition fp_zero :: "fp_format \<Rightarrow> int \<Rightarrow> int" where
  "fp_zero fmt sign = push_bit (WIDTH fmt - 1) sign"

definition FP32 :: fp_format where "FP32 = FpFormat 8 23"
definition FP16 :: fp_format where "FP16 = FpFormat 5 10"

section \<open>Decoding\<close>

datatype fp_kind = KNan | KSnan | KInf | KZero | KFin

text \<open>
  \<open>(kind, sign, mant, scale)\<close>. The source returns \<open>None\<close> for the last two of a NaN or an
  infinity and never reads them; the model has 0 there.
\<close>

definition decode :: "int \<Rightarrow> fp_format \<Rightarrow> fp_kind \<times> int \<times> int \<times> int" where
  "decode bits fmt =
    (let sign = drop_bit (WIDTH fmt - 1) bits AND 1;
         e = drop_bit (MANT fmt) bits AND EMAX_FIELD fmt;
         f = bits AND (push_bit (MANT fmt) 1 - 1)
     in if e = EMAX_FIELD fmt then
          (if f = 0 then (KInf, sign, 0, 0)
           else (if drop_bit (MANT fmt - 1) f AND 1 = 0 then KSnan else KNan, sign, 0, 0))
        else if e = 0 then
          (if f = 0 then (KZero, sign, 0, MIN_SCALE fmt) else (KFin, sign, f, MIN_SCALE fmt))
        else (KFin, sign, f OR push_bit (MANT fmt) 1, e - BIAS fmt - int (MANT fmt)))"

record fp_flags =
  invalid :: bool
  overflow :: bool
  underflow :: bool
  inexact :: bool

definition no_flags :: fp_flags where
  "no_flags = \<lparr>invalid = False, overflow = False, underflow = False, inexact = False\<rparr>"

section \<open>Rounding and packing\<close>

datatype rmode = RM_RNE | RM_RTZ | RM_RDN | RM_RUP

text \<open>The kept mantissa, the round bit, the sticky bit and the weight of the kept LSB.\<close>

definition rp_align :: "int \<Rightarrow> int \<Rightarrow> fp_format \<Rightarrow> int \<times> int \<times> bool \<times> int" where
  "rp_align mant scale fmt =
    (let msb_exp = scale + bit_length mant - 1;
         lsb_exp = max (msb_exp - int (MANT fmt)) (MIN_SCALE fmt);
         shift = lsb_exp - scale
     in if shift > 0 then
          (let rem = mant AND (shl 1 shift - 1)
           in (shr mant shift, shr rem (shift - 1) AND 1, (rem AND (shl 1 (shift - 1) - 1)) \<noteq> 0, lsb_exp))
        else (shl mant (- shift), 0, False, lsb_exp))"

definition rp_inc :: "rmode \<Rightarrow> int \<Rightarrow> int \<Rightarrow> int \<Rightarrow> bool \<Rightarrow> bool" where
  "rp_inc rm sign kept round_bit sticky =
    (let inexact = (round_bit \<noteq> 0 \<or> sticky) in
     case rm of
       RM_RNE \<Rightarrow> round_bit \<noteq> 0 \<and> (sticky \<or> kept AND 1 \<noteq> 0)
     | RM_RTZ \<Rightarrow> False
     | RM_RDN \<Rightarrow> sign \<noteq> 0 \<and> inexact
     | RM_RUP \<Rightarrow> sign = 0 \<and> inexact)"

definition rp_carry :: "bool \<Rightarrow> int \<Rightarrow> int \<Rightarrow> fp_format \<Rightarrow> int \<times> int" where
  "rp_carry inc kept lsb_exp fmt =
    (if inc then
       (let kept = kept + 1 in
        if bit_length kept > int (MANT fmt) + 1 then (drop_bit 1 kept, lsb_exp + 1) else (kept, lsb_exp))
     else (kept, lsb_exp))"

definition rp_overflow :: "int \<Rightarrow> rmode \<Rightarrow> fp_format \<Rightarrow> int" where
  "rp_overflow sign rm fmt =
    (case rm of
       RM_RNE \<Rightarrow> fp_inf fmt sign
     | RM_RTZ \<Rightarrow> max_finite fmt sign
     | RM_RDN \<Rightarrow> if sign \<noteq> 0 then fp_inf fmt sign else max_finite fmt sign
     | RM_RUP \<Rightarrow> if sign \<noteq> 0 then max_finite fmt sign else fp_inf fmt sign)"

definition rp_encode :: "int \<Rightarrow> int \<Rightarrow> int \<Rightarrow> bool \<Rightarrow> rmode \<Rightarrow> fp_format \<Rightarrow> int \<times> fp_flags" where
  "rp_encode sign kept lsb_exp inex rm fmt =
    (if kept = 0 then (fp_zero fmt sign, no_flags\<lparr>underflow := inex, inexact := inex\<rparr>)
     else if drop_bit (MANT fmt) kept \<noteq> 0 then
       (let biased = lsb_exp + int (MANT fmt) + BIAS fmt in
        if biased \<ge> EMAX_FIELD fmt then
          (rp_overflow sign rm fmt, no_flags\<lparr>overflow := True, inexact := True\<rparr>)
        else
          (push_bit (WIDTH fmt - 1) sign OR push_bit (MANT fmt) biased OR
             (kept AND (push_bit (MANT fmt) 1 - 1)), no_flags\<lparr>inexact := inex\<rparr>))
     else (push_bit (WIDTH fmt - 1) sign OR kept, no_flags\<lparr>underflow := inex, inexact := inex\<rparr>))"

definition round_pack :: "int \<Rightarrow> int \<Rightarrow> int \<Rightarrow> rmode \<Rightarrow> fp_format \<Rightarrow> int \<times> fp_flags" where
  "round_pack sign mant scale rm fmt =
    (let (kept, round_bit, sticky, lsb_exp) = rp_align mant scale fmt;
         inex = (round_bit \<noteq> 0 \<or> sticky);
         inc = rp_inc rm sign kept round_bit sticky;
         (kept', lsb_exp') = rp_carry inc kept lsb_exp fmt
     in rp_encode sign kept' lsb_exp' inex rm fmt)"

section \<open>The operations\<close>

definition is_nan_kind :: "fp_kind \<Rightarrow> bool" where
  "is_nan_kind k \<longleftrightarrow> k = KNan \<or> k = KSnan"

definition fp_add :: "int \<Rightarrow> int \<Rightarrow> rmode \<Rightarrow> fp_format \<Rightarrow> int \<times> fp_flags" where
  "fp_add a_bits b_bits rm fmt =
    (let (ka, sa, ma, ca) = decode a_bits fmt; (kb, sb, mb, cb) = decode b_bits fmt in
     if is_nan_kind ka \<or> is_nan_kind kb then
       (QNAN fmt, no_flags\<lparr>invalid := (ka = KSnan \<or> kb = KSnan)\<rparr>)
     else if ka = KInf \<and> kb = KInf then
       (if sa \<noteq> sb then (QNAN fmt, no_flags\<lparr>invalid := True\<rparr>) else (fp_inf fmt sa, no_flags))
     else if ka = KInf then (fp_inf fmt sa, no_flags)
     else if kb = KInf then (fp_inf fmt sb, no_flags)
     else if ka = KZero \<and> kb = KZero then
       (if sa = sb then (fp_zero fmt sa, no_flags)
        else (fp_zero fmt (if rm = RM_RDN then 1 else 0), no_flags))
     else
       (let scale = min ca cb;
            va = shl ma (ca - scale) * (if sa \<noteq> 0 then - 1 else 1);
            vb = shl mb (cb - scale) * (if sb \<noteq> 0 then - 1 else 1);
            s = va + vb
        in if s = 0 then (fp_zero fmt (if rm = RM_RDN then 1 else 0), no_flags)
           else round_pack (if s < 0 then 1 else 0) \<bar>s\<bar> scale rm fmt))"

definition fp_mul :: "int \<Rightarrow> int \<Rightarrow> rmode \<Rightarrow> fp_format \<Rightarrow> int \<times> fp_flags" where
  "fp_mul a_bits b_bits rm fmt =
    (let (ka, sa, ma, ca) = decode a_bits fmt; (kb, sb, mb, cb) = decode b_bits fmt;
         sign = sa XOR sb in
     if is_nan_kind ka \<or> is_nan_kind kb then
       (QNAN fmt, no_flags\<lparr>invalid := (ka = KSnan \<or> kb = KSnan)\<rparr>)
     else if (ka = KInf \<and> kb = KZero) \<or> (ka = KZero \<and> kb = KInf) then
       (QNAN fmt, no_flags\<lparr>invalid := True\<rparr>)
     else if ka = KInf \<or> kb = KInf then (fp_inf fmt sign, no_flags)
     else if ka = KZero \<or> kb = KZero then (fp_zero fmt sign, no_flags)
     else round_pack sign (ma * mb) (ca + cb) rm fmt)"

definition fp_fma :: "int \<Rightarrow> int \<Rightarrow> int \<Rightarrow> rmode \<Rightarrow> fp_format \<Rightarrow> int \<times> fp_flags" where
  "fp_fma a_bits b_bits c_bits rm fmt =
    (let (ka, sa, ma, ca) = decode a_bits fmt; (kb, sb, mb, cb) = decode b_bits fmt;
         (kc, sc, mc, cc) = decode c_bits fmt;
         ps = sa XOR sb;
         mul_inv = ((ka = KInf \<and> kb = KZero) \<or> (ka = KZero \<and> kb = KInf)) in
     if is_nan_kind ka \<or> is_nan_kind kb \<or> is_nan_kind kc then
       (let any_snan = (ka = KSnan \<or> kb = KSnan \<or> kc = KSnan)
        in (QNAN fmt, no_flags\<lparr>invalid := (any_snan \<or> mul_inv)\<rparr>))
     else if mul_inv then (QNAN fmt, no_flags\<lparr>invalid := True\<rparr>)
     else if ka = KInf \<or> kb = KInf then
       (if kc = KInf \<and> sc \<noteq> ps then (QNAN fmt, no_flags\<lparr>invalid := True\<rparr>)
        else (fp_inf fmt ps, no_flags))
     else if kc = KInf then (fp_inf fmt sc, no_flags)
     else if (ka = KZero \<or> kb = KZero) \<and> kc = KZero then
       (if ps = sc then (fp_zero fmt ps, no_flags)
        else (fp_zero fmt (if rm = RM_RDN then 1 else 0), no_flags))
     else
       (let scale_p = ca + cb; scale = min scale_p cc;
            s = shl (ma * mb) (scale_p - scale) * (if ps \<noteq> 0 then - 1 else 1) +
                shl mc (cc - scale) * (if sc \<noteq> 0 then - 1 else 1)
        in if s = 0 then (fp_zero fmt (if rm = RM_RDN then 1 else 0), no_flags)
           else round_pack (if s < 0 then 1 else 0) \<bar>s\<bar> scale rm fmt))"

definition is_nan :: "int \<Rightarrow> fp_format \<Rightarrow> bool" where
  "is_nan bits fmt =
    (let e = drop_bit (MANT fmt) bits AND EMAX_FIELD fmt; f = bits AND (push_bit (MANT fmt) 1 - 1)
     in e = EMAX_FIELD fmt \<and> f \<noteq> 0)"

end
