(* ===== verification/FpRound.thy ===== *)
theory FpRound
  imports FpRef
begin

text \<open>
  The rounding of \<^verbatim>\<open>tb/uvm/fp_ref.py\<close> against its contract. \<open>fp_val\<close> is the exact
  rational value of a bit pattern, \<open>correctly_rounded\<close> says which pattern IEEE-754 asks for
  when the exact result is \<open>x\<close>. The locale \<open>ieee_format\<close> collects what the proofs need of
  a format; it is interpreted for FP32, FP16 and the binary64 that Python's floats are.
\<close>

section \<open>Values\<close>

definition fp_kind_of :: "fp_format \<Rightarrow> int \<Rightarrow> fp_kind" where
  "fp_kind_of fmt b = fst (decode b fmt)"

definition fp_finite :: "fp_format \<Rightarrow> int \<Rightarrow> bool" where
  "fp_finite fmt b \<longleftrightarrow> fp_kind_of fmt b = KZero \<or> fp_kind_of fmt b = KFin"

definition fp_sign :: "fp_format \<Rightarrow> int \<Rightarrow> int" where
  "fp_sign fmt b = fst (snd (decode b fmt))"

definition sgn_rat :: "int \<Rightarrow> rat" where
  "sgn_rat s = (if s \<noteq> 0 then - 1 else 1)"

definition mag :: "int \<Rightarrow> int \<Rightarrow> rat" where
  "mag m c = of_int m * 2 powi c"

definition fp_val :: "fp_format \<Rightarrow> int \<Rightarrow> rat" where
  "fp_val fmt b = (case decode b fmt of (k, s, m, c) \<Rightarrow> sgn_rat s * mag m c)"

text \<open>The magnitude from which round-to-nearest overflows.\<close>

definition rne_limit :: "fp_format \<Rightarrow> rat" where
  "rne_limit fmt = (2 ^ (MANT fmt + 1) - 1 / 2) * 2 powi (EMAX_FIELD fmt - 1 - BIAS fmt - int (MANT fmt))"

definition correctly_rounded :: "fp_format \<Rightarrow> rmode \<Rightarrow> rat \<Rightarrow> int \<Rightarrow> bool" where
  "correctly_rounded fmt rm x r \<longleftrightarrow>
    (if fp_finite fmt r then
       (case rm of
          RM_RNE \<Rightarrow> \<bar>x\<bar> < rne_limit fmt \<and>
            (\<forall>y. fp_finite fmt y \<longrightarrow> \<bar>fp_val fmt r - x\<bar> \<le> \<bar>fp_val fmt y - x\<bar> \<and>
               (\<bar>fp_val fmt r - x\<bar> = \<bar>fp_val fmt y - x\<bar> \<and> fp_val fmt y \<noteq> fp_val fmt r \<longrightarrow> even r))
        | RM_RTZ \<Rightarrow> \<bar>fp_val fmt r\<bar> \<le> \<bar>x\<bar> \<and> 0 \<le> fp_val fmt r * x \<and>
            (\<forall>y. fp_finite fmt y \<and> \<bar>fp_val fmt y\<bar> \<le> \<bar>x\<bar> \<longrightarrow> \<bar>fp_val fmt y\<bar> \<le> \<bar>fp_val fmt r\<bar>)
        | RM_RDN \<Rightarrow> fp_val fmt r \<le> x \<and>
            (\<forall>y. fp_finite fmt y \<and> fp_val fmt y \<le> x \<longrightarrow> fp_val fmt y \<le> fp_val fmt r)
        | RM_RUP \<Rightarrow> x \<le> fp_val fmt r \<and>
            (\<forall>y. fp_finite fmt y \<and> x \<le> fp_val fmt y \<longrightarrow> fp_val fmt r \<le> fp_val fmt y))
     else
       fp_kind_of fmt r = KInf \<and> fp_sign fmt r = (if x < 0 then 1 else 0) \<and>
       (case rm of
          RM_RNE \<Rightarrow> rne_limit fmt \<le> \<bar>x\<bar>
        | RM_RTZ \<Rightarrow> False
        | RM_RDN \<Rightarrow> x < 0 \<and> (\<forall>y. fp_finite fmt y \<longrightarrow> x < fp_val fmt y)
        | RM_RUP \<Rightarrow> 0 < x \<and> (\<forall>y. fp_finite fmt y \<longrightarrow> fp_val fmt y < x)))"

section \<open>Powers of two with an integer exponent\<close>

lemma powi2_pos [simp]: "0 < (2 :: rat) powi n"
  by simp

lemma powi2_nonneg [simp]: "0 \<le> (2 :: rat) powi n"
  by (simp add: less_imp_le)

lemma powi2_add: "(2 :: rat) powi (a + b) = 2 powi a * 2 powi b"
  by (simp add: power_int_add)

lemma powi2_nat: "(2 :: rat) powi int n = 2 ^ n"
  by simp

lemma powi2_mono: "a \<le> b \<Longrightarrow> (2 :: rat) powi a \<le> 2 powi b"
  by (simp add: power_int_increasing)

lemma powi2_diff: "b \<le> a \<Longrightarrow> (2 :: rat) powi a = 2 ^ nat (a - b) * 2 powi b"
  using powi2_add [of "a - b" b] by (simp add: power_int_def)

lemma mag_shift: "b \<le> a \<Longrightarrow> mag m a = mag (m * 2 ^ nat (a - b)) b"
  by (simp add: mag_def powi2_diff)

lemma mag_nonneg: "0 \<le> m \<Longrightarrow> 0 \<le> mag m c"
  by (simp add: mag_def)

lemma mag_pos: "0 < m \<Longrightarrow> 0 < mag m c"
  by (simp add: mag_def)

lemma mag_0 [simp]: "mag 0 c = 0"
  by (simp add: mag_def)

lemma mag_eq_0_iff [simp]: "mag m c = 0 \<longleftrightarrow> m = 0"
  by (simp add: mag_def)

section \<open>The grid of representable magnitudes\<close>

locale ieee_format =
  fixes ex mb :: nat
  assumes ex2: "2 \<le> ex" and mb1: "1 \<le> mb"
begin

abbreviation fmt :: fp_format where "fmt \<equiv> FpFormat ex mb"

lemma fmt_sel [simp]:
  "EXP fmt = ex" "MANT fmt = mb" "BIAS fmt = 2 ^ (ex - 1) - 1" "EMAX_FIELD fmt = 2 ^ ex - 1"
  "WIDTH fmt = 1 + ex + mb" "MIN_SCALE fmt = 2 - 2 ^ (ex - 1) - int mb"
  by (simp_all add: FpFormat_def Let_def push_bit_eq_mult)

lemma bias_pos: "2 \<le> (2 :: int) ^ (ex - 1)" "(2 :: int) ^ ex = 2 * 2 ^ (ex - 1)"
proof -
  obtain k where k: "ex = Suc (Suc k)"
    using ex2 by (metis One_nat_def Suc_1 Suc_le_D Suc_le_mono le_SucE)
  show "(2 :: int) ^ ex = 2 * 2 ^ (ex - 1)" by (simp add: k)
  have "(1 :: int) \<le> 2 ^ k" by simp
  then show "2 \<le> (2 :: int) ^ (ex - 1)" by (simp add: k)
qed

definition grid :: "rat \<Rightarrow> bool" where
  "grid y \<longleftrightarrow> (\<exists>k l. 0 \<le> k \<and> k < 2 ^ (mb + 1) \<and> MIN_SCALE fmt \<le> l \<and> y = mag k l)"

text \<open>No representable magnitude lies strictly between two neighbours of the kept grid.\<close>

lemma grid_gap:
  assumes y: "grid y" and lsb: "MIN_SCALE fmt \<le> lsb" and kept: "lsb = MIN_SCALE fmt \<or> 2 ^ mb \<le> kept"
    and "0 \<le> kept"
  shows "y \<le> mag kept lsb \<or> mag (kept + 1) lsb \<le> y"
proof -
  obtain k l where kl: "0 \<le> k" "k < 2 ^ (mb + 1)" "MIN_SCALE fmt \<le> l" "y = mag k l"
    using y by (auto simp: grid_def)
  show ?thesis
  proof (cases "lsb \<le> l")
    case True
    define q where "q = k * 2 ^ nat (l - lsb)"
    have y: "y = mag q lsb" using kl(4) mag_shift [OF True] by (simp add: q_def)
    show ?thesis
    proof (cases "q \<le> kept")
      case True
      then have "(of_int q :: rat) \<le> of_int kept" by (simp only: of_int_le_iff)
      then show ?thesis unfolding y mag_def by (intro disjI1 mult_right_mono) simp_all
    next
      case False
      then have "(of_int (kept + 1) :: rat) \<le> of_int q" by (simp only: of_int_le_iff)
      then show ?thesis unfolding y mag_def by (intro disjI2 mult_right_mono) simp_all
    qed
  next
    case False
    then have *: "2 ^ mb \<le> kept" using kept kl(3) by auto
    have "(of_int k :: rat) \<le> of_int (2 ^ (mb + 1))" using kl(2) by (simp only: of_int_le_iff)
    then have "y \<le> 2 ^ (mb + 1) * 2 powi l"
      unfolding kl(4) mag_def by (intro mult_right_mono) simp_all
    also have "\<dots> = 2 ^ mb * 2 powi (l + 1)" by (simp add: power_int_add)
    also have "\<dots> \<le> 2 ^ mb * 2 powi lsb"
      using False by (intro mult_left_mono powi2_mono) simp_all
    also have "\<dots> \<le> mag kept lsb"
    proof -
      have "(of_int (2 ^ mb) :: rat) \<le> of_int kept" using * by (simp only: of_int_le_iff)
      then show ?thesis unfolding mag_def by (intro mult_right_mono) simp_all
    qed
    finally show ?thesis by simp
  qed
qed

section \<open>Stage one: alignment\<close>

lemma rp_align_exact:
  assumes mant: "0 < mant" and r: "rp_align mant scale fmt = (kept, rb, st, lsb)"
  shows "\<exists>\<phi>. mag mant scale = (of_int kept + \<phi>) * 2 powi lsb \<and> 0 \<le> \<phi> \<and> \<phi> < 1 \<and>
    (rb \<noteq> 0 \<longleftrightarrow> 1 / 2 \<le> \<phi>) \<and> (st \<longleftrightarrow> \<phi> \<noteq> 0 \<and> \<phi> \<noteq> 1 / 2)"
proof -
  define sh where "sh = lsb - scale"
  have lsb: "lsb = max (scale + bit_length mant - 1 - int mb) (MIN_SCALE fmt)"
    using r by (auto simp: rp_align_def Let_def split: if_splits)
  show ?thesis
  proof (cases "0 < sh")
    case True
    define n where "n = nat (sh - 1)"
    have n: "sh = int (Suc n)" "nat sh = Suc n" "nat (sh - 1) = n" using True by (simp_all add: n_def)
    define rem where "rem = mant mod 2 ^ Suc n"
    have "rp_align mant scale fmt = (shr mant sh, shr (mant AND (shl 1 sh - 1)) (sh - 1) AND 1,
        ((mant AND (shl 1 sh - 1)) AND (shl 1 (sh - 1) - 1)) \<noteq> 0, lsb)"
      using True lsb by (simp add: rp_align_def Let_def sh_def)
    then have out: "kept = mant div 2 ^ Suc n" "rb = (rem div 2 ^ n) mod 2" "st \<longleftrightarrow> rem mod 2 ^ n \<noteq> 0"
      using r unfolding and_shl_mask shr_eq n(2,3) and_one_eq rem_def by (simp_all del: power_Suc)
    have rem: "0 \<le> rem" "rem < 2 ^ Suc n" by (simp_all add: rem_def del: power_Suc)
    have split: "mant = kept * 2 ^ Suc n + rem"
      by (simp only: out(1) rem_def div_mult_mod_eq)
    define \<phi> :: rat where "\<phi> = of_int rem / 2 ^ Suc n"
    have "mag mant scale = (of_int kept + \<phi>) * (2 ^ Suc n * 2 powi scale)"
      unfolding mag_def \<phi>_def by (subst split) (simp add: field_simps)
    also have "2 ^ Suc n * 2 powi scale = (2 :: rat) powi lsb"
      using powi2_diff [of scale lsb] True n(2) by (simp add: sh_def)
    finally have eq: "mag mant scale = (of_int kept + \<phi>) * 2 powi lsb" .
    have q: "rem div 2 ^ n = (if 2 ^ n \<le> rem then 1 else 0)"
      using rem by (auto simp: div_pos_pos_trivial intro!: int_div_pos_eq [where r = "rem - 2 ^ n"])
    have half: "1 / 2 \<le> \<phi> \<longleftrightarrow> 2 ^ n \<le> rem"
    proof -
      have "1 / 2 \<le> \<phi> \<longleftrightarrow> (2 :: rat) ^ n \<le> of_int rem" by (simp add: \<phi>_def field_simps)
      also have "\<dots> \<longleftrightarrow> 2 ^ n \<le> rem"
        using of_int_le_iff [of "2 ^ n" rem, where ?'a = rat] by simp
      finally show ?thesis .
    qed
    have "rem mod 2 ^ n = 0 \<longleftrightarrow> rem = 0 \<or> rem = 2 ^ n"
    proof -
      have "rem = (rem div 2 ^ n) * 2 ^ n + rem mod 2 ^ n" by (simp only: div_mult_mod_eq)
      then have "rem = (if 2 ^ n \<le> rem then 2 ^ n else 0) + rem mod 2 ^ n"
        unfolding q by (simp split: if_splits)
      moreover have "(0 :: int) < 2 ^ n" by simp
      ultimately show ?thesis
        by (metis add_cancel_left_right add_cancel_right_right add.right_neutral mod_0 mod_self)
    qed
    moreover have "\<phi> = 1 / 2 \<longleftrightarrow> rem = 2 ^ n"
    proof -
      have "\<phi> = 1 / 2 \<longleftrightarrow> of_int rem = (2 :: rat) ^ n" by (auto simp: \<phi>_def field_simps)
      also have "\<dots> \<longleftrightarrow> rem = 2 ^ n"
        by (metis of_int_eq_iff of_int_numeral of_int_power)
      finally show ?thesis .
    qed
    moreover have "\<phi> = 0 \<longleftrightarrow> rem = 0" by (simp add: \<phi>_def)
    moreover have "0 \<le> \<phi>" using rem by (simp add: \<phi>_def)
    moreover have "\<phi> < 1"
      using rem(2) of_int_less_iff [of rem "2 ^ Suc n", where ?'a = rat] by (simp add: \<phi>_def)
    ultimately show ?thesis
      using eq out half q by (intro exI [of _ \<phi>]) auto
  next
    case False
    then have out: "kept = mant * 2 ^ nat (scale - lsb)" "rb = 0" "\<not> st"
      using r lsb by (auto simp: rp_align_def Let_def sh_def shl_eq split: if_splits)
    have "mag mant scale = mag kept lsb"
      using False mag_shift [of lsb scale mant] by (simp add: out sh_def)
    then show ?thesis using out by (intro exI [of _ 0]) (simp add: mag_def)
  qed
qed

lemma rp_align_kept:
  assumes mant: "0 < mant" and r: "rp_align mant scale fmt = (kept, rb, st, lsb)"
  shows "0 \<le> kept" "kept < 2 ^ (mb + 1)" "MIN_SCALE fmt \<le> lsb" "lsb = MIN_SCALE fmt \<or> 2 ^ mb \<le> kept"
proof -
  have lsb: "lsb = max (scale + bit_length mant - 1 - int mb) (MIN_SCALE fmt)"
    using r by (auto simp: rp_align_def Let_def split: if_splits)
  then show "MIN_SCALE fmt \<le> lsb" by simp
  obtain \<phi> where eq: "mag mant scale = (of_int kept + \<phi>) * 2 powi lsb" and \<phi>: "0 \<le> \<phi>" "\<phi> < 1"
    using rp_align_exact [OF assms] by blast
  show "0 \<le> kept"
  proof -
    have "0 < (of_int kept + \<phi>) * 2 powi lsb" using mag_pos [OF mant] eq by metis
    then have "0 < of_int kept + \<phi>" by (metis powi2_pos zero_less_mult_pos2)
    then have "- 1 < (of_int kept :: rat)" using \<phi> by linarith
    then show ?thesis by linarith
  qed
  define B where "B = nat (bit_length mant - 1)"
  have B: "bit_length mant = int (Suc B)" using bit_length_pos [OF mant] by (simp add: B_def)
  have "(2 :: int) ^ B \<le> mant" "mant < 2 ^ Suc B"
    using bit_length_bounds [OF mant B] .
  then have "(2 :: rat) ^ B \<le> of_int mant" "of_int mant < (2 :: rat) ^ Suc B"
    using of_int_le_iff [of "2 ^ B" mant, where ?'a = rat]
      of_int_less_iff [of mant "2 ^ Suc B", where ?'a = rat] by simp_all
  then have lo: "2 powi (scale + int B) \<le> mag mant scale"
    and hi: "mag mant scale < 2 powi (scale + int (Suc B))"
    unfolding mag_def powi2_add powi2_nat
    by (simp_all only: mult.commute [of "2 powi scale"] mult_le_cancel_right_pos
        mult_less_cancel_right_pos powi2_pos)
  show "kept < 2 ^ (mb + 1)"
  proof -
    have "scale + int (Suc B) \<le> int (mb + 1) + lsb" using lsb B by simp
    then have "(of_int kept + \<phi>) * 2 powi lsb < 2 powi (int (mb + 1) + lsb)"
      using hi eq powi2_mono order_less_le_trans by metis
    then have "of_int kept + \<phi> < 2 ^ (mb + 1)"
      unfolding powi2_add powi2_nat by (simp only: mult_less_cancel_right_pos powi2_pos)
    then have "of_int kept < (of_int (2 ^ (mb + 1)) :: rat)" using \<phi>(1) by simp
    then show ?thesis by (simp only: of_int_less_iff)
  qed
  show "lsb = MIN_SCALE fmt \<or> 2 ^ mb \<le> kept"
  proof (cases "lsb = MIN_SCALE fmt")
    case False
    then have "scale + int B = int mb + lsb" using lsb B by simp
    then have "2 powi (int mb + lsb) \<le> (of_int kept + \<phi>) * 2 powi lsb"
      using lo eq by metis
    then have "2 ^ mb \<le> of_int kept + \<phi>"
      unfolding powi2_add powi2_nat by (simp only: mult_le_cancel_right_pos powi2_pos)
    then have "(of_int (2 ^ mb) :: rat) < of_int (kept + 1)" using \<phi>(2) by simp
    then have "2 ^ mb < kept + 1" by (simp only: of_int_less_iff)
    then show ?thesis by simp
  qed simp
qed

section \<open>Stage three: the carry out of the increment\<close>

lemma rp_carry_spec:
  assumes kept: "0 \<le> kept" "kept < 2 ^ (mb + 1)" "lsb = MIN_SCALE fmt \<or> 2 ^ mb \<le> kept"
    and c: "rp_carry inc kept lsb fmt = (kept', lsb')"
  shows "mag kept' lsb' = mag (kept + of_bool inc) lsb" "0 \<le> kept'" "kept' < 2 ^ (mb + 1)"
    "lsb \<le> lsb'" "lsb' = MIN_SCALE fmt \<or> 2 ^ mb \<le> kept'"
    "lsb' \<noteq> lsb \<Longrightarrow> inc \<and> kept = 2 ^ (mb + 1) - 1 \<and> lsb' = lsb + 1"
    "even kept' \<longleftrightarrow> even (kept + of_bool inc)"
proof -
  have carry: "int mb + 1 < bit_length (kept + 1) \<longleftrightarrow> kept + 1 = 2 ^ (mb + 1)"
    using bit_length_gt_iff [of "kept + 1" "mb + 1"] kept by auto
  have even: "even ((2 :: int) ^ mb)" using mb1 by simp
  have eqs: "mag kept' lsb' = mag (kept + of_bool inc) lsb \<and> 0 \<le> kept' \<and> kept' < 2 ^ (mb + 1) \<and>
    lsb \<le> lsb' \<and> (lsb' = MIN_SCALE fmt \<or> 2 ^ mb \<le> kept') \<and>
    (lsb' \<noteq> lsb \<longrightarrow> inc \<and> kept = 2 ^ (mb + 1) - 1 \<and> lsb' = lsb + 1) \<and>
    (even kept' \<longleftrightarrow> even (kept + of_bool inc))"
  proof (cases "inc \<and> kept + 1 = 2 ^ (mb + 1)")
    case True
    then have "kept' = drop_bit 1 (2 ^ (mb + 1))" "lsb' = lsb + 1"
      using c carry by (auto simp: rp_carry_def Let_def)
    then have "kept' = 2 ^ mb" "lsb' = lsb + 1" by (simp_all add: drop_bit_eq_div)
    moreover have "mag (2 ^ mb) (lsb + 1) = mag (2 ^ (mb + 1)) lsb"
      by (simp add: mag_def power_int_add)
    ultimately show ?thesis using True kept even by simp
  next
    case False
    then have "kept' = kept + of_bool inc" "lsb' = lsb"
      using c carry by (auto simp: rp_carry_def Let_def split: if_splits)
    then show ?thesis using False kept by auto
  qed
  then show "mag kept' lsb' = mag (kept + of_bool inc) lsb" "0 \<le> kept'" "kept' < 2 ^ (mb + 1)"
    "lsb \<le> lsb'" "lsb' = MIN_SCALE fmt \<or> 2 ^ mb \<le> kept'"
    "lsb' \<noteq> lsb \<Longrightarrow> inc \<and> kept = 2 ^ (mb + 1) - 1 \<and> lsb' = lsb + 1"
    "even kept' \<longleftrightarrow> even (kept + of_bool inc)"
    by blast+
qed

section \<open>Bit patterns and their fields\<close>

definition pk :: "int \<Rightarrow> int \<Rightarrow> int \<Rightarrow> int" where
  "pk s E f = push_bit (ex + mb) s OR push_bit mb E OR f"

lemma pk_fields:
  assumes s: "0 \<le> s" "s \<le> 1" and E: "0 \<le> E" "E < 2 ^ ex" and f: "0 \<le> f" "f < 2 ^ mb"
  shows "drop_bit (WIDTH fmt - 1) (pk s E f) AND 1 = s"
    "drop_bit (MANT fmt) (pk s E f) AND EMAX_FIELD fmt = E"
    "pk s E f AND (push_bit (MANT fmt) 1 - 1) = f"
    "even (pk s E f) \<longleftrightarrow> even f"
    "0 \<le> pk s E f \<and> pk s E f < 2 ^ WIDTH fmt"
proof -
  have t: "take_bit 1 s = s" "take_bit ex E = E" "take_bit mb f = f"
    using assms by (simp_all add: take_bit_id)
  have emax: "x AND EMAX_FIELD fmt = take_bit ex x" for x
    using and_mask_exp [of x ex] by (simp add: push_bit_eq_mult)
  have d: "drop_bit (ex + mb) f = 0" "drop_bit mb f = 0" "drop_bit ex E = 0"
  proof -
    show "drop_bit mb f = 0" using f by (simp add: drop_bit_eq_div)
    then show "drop_bit (ex + mb) f = 0" by (metis drop_bit_drop_bit drop_bit_of_0 add.commute)
    show "drop_bit ex E = 0" using E by (simp add: drop_bit_eq_div)
  qed
  have "drop_bit (ex + mb) (pk s E f) = s"
    by (simp add: pk_def drop_bit_or d drop_bit_push_bit_int)
  then show "drop_bit (WIDTH fmt - 1) (pk s E f) AND 1 = s"
    using t(1) by (simp only: mask_simps fmt_sel diff_add_inverse add.assoc)
  have "take_bit ex (drop_bit mb (pk s E f)) = take_bit ex (push_bit ex s OR E)"
    by (simp add: pk_def drop_bit_or d drop_bit_push_bit_int)
  also have "\<dots> = E" by (simp add: take_bit_or take_bit_push_bit t)
  finally show "drop_bit (MANT fmt) (pk s E f) AND EMAX_FIELD fmt = E"
    unfolding emax by simp
  have "take_bit mb (pk s E f) = f"
    by (simp add: pk_def take_bit_or take_bit_push_bit t)
  then show f': "pk s E f AND (push_bit (MANT fmt) 1 - 1) = f"
    by (simp only: and_mask_exp fmt_sel)
  have "take_bit 1 (take_bit mb (pk s E f)) = take_bit 1 f"
    using \<open>take_bit mb (pk s E f) = f\<close> by simp
  then have "take_bit 1 (pk s E f) = take_bit 1 f" using mb1 by (simp add: min_def)
  then show "even (pk s E f) \<longleftrightarrow> even f"
    by (metis even_take_bit_eq zero_neq_one)
  have "take_bit (Suc ex) E = E" "take_bit (Suc (ex + mb)) f = f"
  proof -
    have "(2 :: int) ^ ex \<le> 2 ^ Suc ex" "(2 :: int) ^ mb \<le> 2 ^ Suc (ex + mb)"
      by (simp_all only: power_increasing one_le_numeral le_SucI order_refl le_add2)
    then have "E < 2 ^ Suc ex" "f < 2 ^ Suc (ex + mb)" using E f by linarith+
    then show "take_bit (Suc ex) E = E" "take_bit (Suc (ex + mb)) f = f"
      using E f by (simp_all only: take_bit_id)
  qed
  moreover have "take_bit 1 s = s" by (rule t(1))
  ultimately have "take_bit (1 + ex + mb) (pk s E f) = pk s E f"
    unfolding pk_def take_bit_or take_bit_push_bit by (simp del: take_bit_Suc_0 take_bit_Suc)
  then show "0 \<le> pk s E f \<and> pk s E f < 2 ^ WIDTH fmt"
    unfolding take_bit_self_iff by simp
qed

text \<open>What \<open>decode\<close> returns, by the three fields.\<close>

definition MAX_SCALE :: int where
  "MAX_SCALE = EMAX_FIELD fmt - 1 - BIAS fmt - int mb"

definition max_mag :: rat where
  "max_mag = mag (2 ^ (mb + 1) - 1) MAX_SCALE"

lemma emax_and: "x AND EMAX_FIELD fmt = take_bit ex x"
  using and_mask_exp [of x ex] by (simp add: push_bit_eq_mult)

lemma or_hidden: "0 \<le> (f :: int) \<Longrightarrow> f < 2 ^ mb \<Longrightarrow> f OR push_bit mb 1 = f + 2 ^ mb"
proof -
  assume f: "0 \<le> f" "f < 2 ^ mb"
  have "\<not> bit f n \<or> \<not> bit (push_bit mb 1 :: int) n" for n
    using not_bit_above [OF f, of n] by (auto simp: bit_simps)
  then have "f + push_bit mb 1 = f OR push_bit mb 1"
    by (intro disjunctive_add) auto
  then show ?thesis by (simp add: push_bit_eq_mult)
qed

lemma decode_fields:
  assumes "drop_bit (WIDTH fmt - 1) b AND 1 = s" "drop_bit (MANT fmt) b AND EMAX_FIELD fmt = E"
    "b AND (push_bit (MANT fmt) 1 - 1) = f"
  shows "decode b fmt =
    (if E = 2 ^ ex - 1 then
       (if f = 0 then (KInf, s, 0, 0)
        else (if drop_bit (mb - 1) f AND 1 = 0 then KSnan else KNan, s, 0, 0))
     else if E = 0 then
       (if f = 0 then (KZero, s, 0, MIN_SCALE fmt) else (KFin, s, f, MIN_SCALE fmt))
     else (KFin, s, f + 2 ^ mb, E - BIAS fmt - int mb))"
proof -
  have "0 \<le> f" "f < 2 ^ mb"
    using assms(3) by (auto simp: and_mask_exp)
  then show ?thesis
    using assms or_hidden [of f] unfolding decode_def Let_def by simp
qed

lemma decode_cases:
  obtains s E f where "0 \<le> s" "s \<le> 1" "0 \<le> E" "E < 2 ^ ex" "0 \<le> f" "f < 2 ^ mb"
    "decode b fmt =
    (if E = 2 ^ ex - 1 then
       (if f = 0 then (KInf, s, 0, 0)
        else (if drop_bit (mb - 1) f AND 1 = 0 then KSnan else KNan, s, 0, 0))
     else if E = 0 then
       (if f = 0 then (KZero, s, 0, MIN_SCALE fmt) else (KFin, s, f, MIN_SCALE fmt))
     else (KFin, s, f + 2 ^ mb, E - BIAS fmt - int mb))"
proof -
  define s where "s = drop_bit (WIDTH fmt - 1) b AND 1"
  define E where "E = drop_bit (MANT fmt) b AND EMAX_FIELD fmt"
  define f where "f = b AND (push_bit (MANT fmt) 1 - 1)"
  have "0 \<le> s" "s \<le> 1" by (simp_all add: s_def and_one_eq)
  moreover have "0 \<le> E" "E < 2 ^ ex" unfolding E_def emax_and by simp_all
  moreover have "0 \<le> f" "f < 2 ^ mb" unfolding f_def and_mask_exp by simp_all
  ultimately show thesis
    using decode_fields [OF s_def [symmetric] E_def [symmetric] f_def [symmetric]] that by blast
qed

lemma decode_finite:
  assumes "decode b fmt = (k, s, m, c)"
  shows "s = 0 \<or> s = 1" "k = KZero \<longleftrightarrow> (k = KZero \<or> k = KFin) \<and> m = 0"
    "k = KZero \<or> k = KFin \<Longrightarrow> 0 \<le> m \<and> m < 2 ^ (mb + 1) \<and> MIN_SCALE fmt \<le> c \<and> c \<le> MAX_SCALE"
proof -
  obtain s' E f where *: "0 \<le> s'" "s' \<le> 1" "0 \<le> E" "E < 2 ^ ex" "0 \<le> f" "f < 2 ^ mb"
    "decode b fmt =
    (if E = 2 ^ ex - 1 then
       (if f = 0 then (KInf, s', 0, 0)
        else (if drop_bit (mb - 1) f AND 1 = 0 then KSnan else KNan, s', 0, 0))
     else if E = 0 then
       (if f = 0 then (KZero, s', 0, MIN_SCALE fmt) else (KFin, s', f, MIN_SCALE fmt))
     else (KFin, s', f + 2 ^ mb, E - BIAS fmt - int mb))"
    by (rule decode_cases)
  show "s = 0 \<or> s = 1" using * assms by (auto split: if_splits)
  have "(2 :: int) ^ mb > 0" by simp
  then have f: "f + 2 ^ mb \<noteq> 0" "f < 2 ^ (mb + 1)" "f + 2 ^ mb < 2 ^ (mb + 1)" using *(5,6) by auto
  show "k = KZero \<longleftrightarrow> (k = KZero \<or> k = KFin) \<and> m = 0"
    using *(7) assms f by (auto split: if_splits)
  show "0 \<le> m \<and> m < 2 ^ (mb + 1) \<and> MIN_SCALE fmt \<le> c \<and> c \<le> MAX_SCALE"
    if "k = KZero \<or> k = KFin"
    using that *(3-7) assms f bias_pos unfolding MAX_SCALE_def by (auto split: if_splits)
qed

lemma fp_finite_val:
  assumes "fp_finite fmt b"
  obtains k s m c where "decode b fmt = (k, s, m, c)" "s = 0 \<or> s = 1" "0 \<le> m" "m < 2 ^ (mb + 1)"
    "MIN_SCALE fmt \<le> c" "c \<le> MAX_SCALE" "fp_val fmt b = sgn_rat s * mag m c"
proof -
  obtain k s m c where d: "decode b fmt = (k, s, m, c)" by (metis prod_cases4)
  then show thesis
    using that decode_finite [OF d] assms by (auto simp: fp_finite_def fp_kind_of_def fp_val_def)
qed

lemma abs_sgn_rat [simp]: "\<bar>sgn_rat s * x\<bar> = \<bar>x\<bar>"
  by (simp add: sgn_rat_def)

lemma mag_mono2: "0 \<le> m \<Longrightarrow> m \<le> m' \<Longrightarrow> c \<le> c' \<Longrightarrow> mag m c \<le> mag m' c'"
  unfolding mag_def by (intro mult_mono powi2_mono) simp_all

lemma fp_finite_grid:
  assumes "fp_finite fmt b"
  shows "grid \<bar>fp_val fmt b\<bar>" "\<bar>fp_val fmt b\<bar> \<le> max_mag"
proof -
  obtain k s m c where d: "decode b fmt = (k, s, m, c)" "s = 0 \<or> s = 1" and
    *: "0 \<le> m" "m < 2 ^ (mb + 1)" "MIN_SCALE fmt \<le> c" "c \<le> MAX_SCALE"
    and v: "fp_val fmt b = sgn_rat s * mag m c"
    by (rule fp_finite_val [OF assms])
  then have "\<bar>fp_val fmt b\<bar> = mag m c" by (simp add: mag_nonneg)
  then show "grid \<bar>fp_val fmt b\<bar>" using *(1,2,3) unfolding grid_def by blast
  have "m \<le> 2 ^ (mb + 1) - 1" using *(2) by linarith
  then have "mag m c \<le> max_mag"
    unfolding max_mag_def using *(1,4) by (intro mag_mono2)
  then show "\<bar>fp_val fmt b\<bar> \<le> max_mag" using \<open>\<bar>fp_val fmt b\<bar> = mag m c\<close> by simp
qed

section \<open>Stage four: encoding\<close>

text \<open>A kept mantissa that does not overflow is encoded exactly.\<close>

lemma rp_encode_finite:
  assumes s: "0 \<le> s" "s \<le> 1" and kept: "0 \<le> kept" "kept < 2 ^ (mb + 1)"
    and lsb: "MIN_SCALE fmt \<le> lsb" "lsb = MIN_SCALE fmt \<or> 2 ^ mb \<le> kept" "lsb \<le> MAX_SCALE"
    and r: "rp_encode s kept lsb inex rm fmt = (r, fl)"
  shows "fp_finite fmt r" "fp_val fmt r = sgn_rat s * mag kept lsb" "even r \<longleftrightarrow> even kept"
    "0 \<le> r \<and> r < 2 ^ WIDTH fmt" "overflow fl = False" "inexact fl = inex" "invalid fl = False"
    "underflow fl \<longleftrightarrow> inex \<and> kept < 2 ^ mb"
proof -
  define E where "E = (if kept < 2 ^ mb then 0 else lsb + int mb + BIAS fmt)"
  define f where "f = (if kept < 2 ^ mb then kept else kept - 2 ^ mb)"
  have pos: "(0 :: int) < 2 ^ ex" "(0 :: int) < 2 ^ mb" by simp_all
  have E: "0 \<le> E" "E < 2 ^ ex - 1"
    using lsb kept bias_pos unfolding E_def MAX_SCALE_def by auto
  have f: "0 \<le> f" "f < 2 ^ mb" using kept by (auto simp: f_def)
  have drop: "drop_bit mb kept = 0 \<longleftrightarrow> kept < 2 ^ mb"
    using kept(1) pos by (auto simp: drop_bit_eq_div zdiv_eq_0_iff)
  have low: "kept AND (2 ^ mb - 1) = f"
  proof -
    have "kept AND (2 ^ mb - 1) = kept mod 2 ^ mb"
      using and_mask_exp [of kept mb] by (simp add: push_bit_eq_mult take_bit_eq_mod)
    also have "\<dots> = f"
      using kept by (auto simp: f_def mod_pos_pos_trivial intro!: int_mod_pos_eq [where q = 1])
    finally show ?thesis .
  qed
  have f0: "kept = 0 \<Longrightarrow> f = 0" using pos by (simp add: f_def)
  have rr: "r = pk s E f \<and> fl = (if kept < 2 ^ mb then no_flags\<lparr>underflow := inex, inexact := inex\<rparr>
    else no_flags\<lparr>inexact := inex\<rparr>)"
  proof (cases "kept < 2 ^ mb")
    case True
    then have "rp_encode s kept lsb inex rm fmt =
      (push_bit (ex + mb) s OR kept, no_flags\<lparr>underflow := inex, inexact := inex\<rparr>)"
      using drop unfolding rp_encode_def fp_zero_def by (simp add: push_bit_eq_mult)
    then show ?thesis using True r by (simp add: pk_def E_def f_def)
  next
    case False
    have "kept \<noteq> 0" using False pos by auto
    moreover have "\<not> EMAX_FIELD fmt \<le> lsb + int mb + BIAS fmt"
      using lsb(3) unfolding MAX_SCALE_def by simp
    ultimately have "rp_encode s kept lsb inex rm fmt =
      (push_bit (ex + mb) s OR push_bit mb (lsb + int mb + BIAS fmt) OR f, no_flags\<lparr>inexact := inex\<rparr>)"
      using False drop low unfolding rp_encode_def by (simp add: Let_def push_bit_eq_mult or.assoc)
    then show ?thesis using False r by (simp add: pk_def E_def or.assoc)
  qed
  note pkf = pk_fields [OF s E(1) _ f]
  have E': "E < 2 ^ ex" using E by simp
  have dec: "decode r fmt = (if E = 0 then
       (if f = 0 then (KZero, s, 0, MIN_SCALE fmt) else (KFin, s, f, MIN_SCALE fmt))
     else (KFin, s, f + 2 ^ mb, E - BIAS fmt - int mb))"
    using decode_fields [OF pkf(1,2,3) [OF E']] E rr by simp
  show "fp_finite fmt r" using dec by (auto simp: fp_finite_def fp_kind_of_def)
  have E0: "E = 0 \<longleftrightarrow> kept < 2 ^ mb" using lsb(1) by (auto simp: E_def)
  show "fp_val fmt r = sgn_rat s * mag kept lsb"
    using dec lsb(2) E0 by (auto simp: fp_val_def f_def E_def mag_def)
  show "even r \<longleftrightarrow> even kept"
    using rr pkf(4) [OF E'] mb1 by (auto simp: f_def)
  show "0 \<le> r \<and> r < 2 ^ WIDTH fmt" using rr pkf(5) [OF E'] by simp
  show "overflow fl = False" "inexact fl = inex" "invalid fl = False"
    "underflow fl \<longleftrightarrow> inex \<and> kept < 2 ^ mb"
    using rr by (auto simp: no_flags_def)
qed

lemma pk_zero_fields: "fp_inf fmt s = pk s (2 ^ ex - 1) 0"
  "max_finite fmt s = pk s (2 ^ ex - 2) (2 ^ mb - 1)"
  "fp_zero fmt s = pk s 0 0"
  by (simp_all add: fp_inf_def max_finite_def fp_zero_def pk_def push_bit_eq_mult)

lemma decode_special:
  assumes s: "0 \<le> s" "s \<le> 1"
  shows "decode (fp_inf fmt s) fmt = (KInf, s, 0, 0)"
    "decode (fp_zero fmt s) fmt = (KZero, s, 0, MIN_SCALE fmt)"
    "decode (max_finite fmt s) fmt = (KFin, s, 2 ^ (mb + 1) - 1, MAX_SCALE)"
proof -
  have p: "(0 :: int) < 2 ^ ex" "(0 :: int) < 2 ^ mb" by simp_all
  have E: "0 \<le> (2 :: int) ^ ex - 1" "(2 :: int) ^ ex - 1 < 2 ^ ex"
    "0 \<le> (2 :: int) ^ ex - 2" "(2 :: int) ^ ex - 2 < 2 ^ ex"
    "0 \<le> (2 :: int) ^ mb - 1" "(2 :: int) ^ mb - 1 < 2 ^ mb" "(2 :: int) ^ ex \<noteq> 2" "(2 :: int) ^ ex \<noteq> 1"
    using bias_pos p by auto
  show "decode (fp_inf fmt s) fmt = (KInf, s, 0, 0)"
    using decode_fields [OF pk_fields(1,2,3) [OF s E(1,2) order_refl p(2)]] pk_zero_fields by simp
  show "decode (fp_zero fmt s) fmt = (KZero, s, 0, MIN_SCALE fmt)"
    using decode_fields [OF pk_fields(1,2,3) [OF s order_refl p(1) order_refl p(2)]] pk_zero_fields E(8)
    by (simp del: fmt_sel(6))
  show "decode (max_finite fmt s) fmt = (KFin, s, 2 ^ (mb + 1) - 1, MAX_SCALE)"
    using decode_fields [OF pk_fields(1,2,3) [OF s E(3,4,5,6)]] pk_zero_fields E(7)
    by (simp add: MAX_SCALE_def)
qed

lemma finite_special:
  assumes s: "0 \<le> s" "s \<le> 1"
  shows "\<not> fp_finite fmt (fp_inf fmt s)" "fp_kind_of fmt (fp_inf fmt s) = KInf" "fp_sign fmt (fp_inf fmt s) = s"
    "fp_finite fmt (fp_zero fmt s)" "fp_val fmt (fp_zero fmt s) = 0"
    "fp_finite fmt (max_finite fmt s)" "fp_val fmt (max_finite fmt s) = sgn_rat s * max_mag"
  using decode_special [OF s]
  by (simp_all add: fp_finite_def fp_kind_of_def fp_sign_def fp_val_def max_mag_def)

section \<open>The magnitude that rounding keeps\<close>

definition aligned :: "rat \<Rightarrow> int \<Rightarrow> rat \<Rightarrow> int \<Rightarrow> bool" where
  "aligned X kept \<phi> lsb \<longleftrightarrow> X = (of_int kept + \<phi>) * 2 powi lsb \<and> 0 \<le> \<phi> \<and> \<phi> < 1 \<and> 0 \<le> kept \<and>
     kept < 2 ^ (mb + 1) \<and> MIN_SCALE fmt \<le> lsb \<and> (lsb = MIN_SCALE fmt \<or> 2 ^ mb \<le> kept)"

lemma aligned_bounds:
  assumes "aligned X kept \<phi> lsb"
  shows "mag kept lsb \<le> X" "X < mag (kept + 1) lsb" "X = mag kept lsb + \<phi> * 2 powi lsb"
    "mag (kept + 1) lsb = mag kept lsb + 2 powi lsb"
    "grid y \<Longrightarrow> y \<le> mag kept lsb \<or> mag kept lsb + 2 powi lsb \<le> y"
    "0 \<le> \<phi>" "\<phi> < 1" "0 \<le> mag kept lsb"
proof -
  have X: "X = (of_int kept + \<phi>) * 2 powi lsb" and \<phi>: "0 \<le> \<phi>" "\<phi> < 1" and k: "0 \<le> kept"
    using assms by (auto simp: aligned_def)
  show eq: "X = mag kept lsb + \<phi> * 2 powi lsb" unfolding X mag_def by (simp add: algebra_simps)
  show m1: "mag (kept + 1) lsb = mag kept lsb + 2 powi lsb" by (simp add: mag_def algebra_simps)
  have "0 \<le> \<phi> * 2 powi lsb" using \<phi> by simp
  then show "mag kept lsb \<le> X" using eq by linarith
  have "\<phi> * 2 powi lsb < 1 * 2 powi lsb" using \<phi>(2) by (intro mult_strict_right_mono) simp_all
  then show "X < mag (kept + 1) lsb" using eq m1 by linarith
  show "y \<le> mag kept lsb \<or> mag kept lsb + 2 powi lsb \<le> y" if "grid y"
    using grid_gap [OF that, of lsb kept] assms m1 by (simp add: aligned_def)
  show "0 \<le> \<phi>" "\<phi> < 1" by (rule \<phi>)+
  show "0 \<le> mag kept lsb" using k by (rule mag_nonneg)
qed

text \<open>Rounding down, up and to nearest, on magnitudes.\<close>

lemma round_down_best:
  assumes "aligned X kept \<phi> lsb" "grid y" "y \<le> X"
  shows "y \<le> mag kept lsb"
  using aligned_bounds(2,4,5) [OF assms(1)] assms(2,3) by fastforce

lemma round_up_ge: "aligned X kept \<phi> lsb \<Longrightarrow> X \<le> mag (kept + of_bool (\<phi> \<noteq> 0)) lsb"
  using aligned_bounds(2,3) [of X kept \<phi> lsb] by auto

lemma round_up_best:
  assumes "aligned X kept \<phi> lsb" "grid y" "X \<le> y"
  shows "mag (kept + of_bool (\<phi> \<noteq> 0)) lsb \<le> y"
proof -
  note b = aligned_bounds [OF assms(1)]
  show "mag (kept + of_bool (\<phi> \<noteq> 0)) lsb \<le> y"
  proof (cases "\<phi> = 0")
    case True
    then show ?thesis using b(3) assms(3) by simp
  next
    case False
    then have "mag kept lsb < X" using b(3,6) by simp
    then show ?thesis using b(4) b(5) [OF assms(2)] assms(3) False by auto
  qed
qed

lemma round_near_best:
  assumes "aligned X kept \<phi> lsb" "grid y"
    and inc: "inc \<longleftrightarrow> 1 / 2 < \<phi> \<or> (\<phi> = 1 / 2 \<and> odd kept)"
  shows "\<bar>mag (kept + of_bool inc) lsb - X\<bar> \<le> \<bar>y - X\<bar>"
    "\<bar>mag (kept + of_bool inc) lsb - X\<bar> = \<bar>y - X\<bar> \<Longrightarrow> y \<noteq> mag (kept + of_bool inc) lsb \<Longrightarrow>
      even (kept + of_bool inc)"
proof -
  define U :: rat where "U = 2 powi lsb"
  define M where "M = mag kept lsb"
  define F where "F = \<phi> * U"
  have U: "0 < U" by (simp add: U_def)
  have X: "X = M + F" and M1: "mag (kept + 1) lsb = M + U"
    and y: "y \<le> M \<or> M + U \<le> y" and \<phi>: "0 \<le> \<phi>" "\<phi> < 1"
    using aligned_bounds [OF assms(1)] assms(2) by (auto simp: U_def M_def F_def)
  have V: "mag (kept + of_bool inc) lsb = (if inc then M + U else M)"
    using M1 by (simp add: M_def)
  have F: "0 \<le> F" "F < U" using \<phi> U by (simp_all add: F_def)
  have up: "U \<le> 2 * F" if inc
  proof -
    have "(1 / 2) * U \<le> \<phi> * U" using that inc U by (intro mult_right_mono) auto
    then show ?thesis by (simp add: F_def)
  qed
  have down: "2 * F \<le> U" if "\<not> inc"
  proof -
    have "\<phi> * U \<le> (1 / 2) * U" using that inc U by (intro mult_right_mono) auto
    then show ?thesis by (simp add: F_def)
  qed
  show "\<bar>mag (kept + of_bool inc) lsb - X\<bar> \<le> \<bar>y - X\<bar>"
    unfolding V X using y F up down by (auto split: if_splits)
  assume eq: "\<bar>mag (kept + of_bool inc) lsb - X\<bar> = \<bar>y - X\<bar>" and ne: "y \<noteq> mag (kept + of_bool inc) lsb"
  have "2 * F = U"
    using eq ne F y up down unfolding V X by (auto split: if_splits simp: abs_if)
  then have "(2 * \<phi>) * U = 1 * U" by (simp add: F_def)
  then have "\<phi> = 1 / 2" using U by simp
  then show "even (kept + of_bool inc)" using inc by auto
qed

section \<open>Correct rounding\<close>

definition inc_spec :: "rmode \<Rightarrow> int \<Rightarrow> int \<Rightarrow> rat \<Rightarrow> bool" where
  "inc_spec rm s kept \<phi> = (case rm of
     RM_RNE \<Rightarrow> 1 / 2 < \<phi> \<or> (\<phi> = 1 / 2 \<and> odd kept)
   | RM_RTZ \<Rightarrow> False
   | RM_RDN \<Rightarrow> s \<noteq> 0 \<and> \<phi> \<noteq> 0
   | RM_RUP \<Rightarrow> s = 0 \<and> \<phi> \<noteq> 0)"

lemma sgn_rat_cases: "sgn_rat s = 1 \<or> sgn_rat s = - 1"
  by (simp add: sgn_rat_def)

lemma sgn_rat_sq [simp]: "sgn_rat s * (sgn_rat s * x) = x"
  by (simp add: sgn_rat_def)

lemma grid_0: "grid 0"
  unfolding grid_def by (intro exI [of _ 0] exI [of _ "MIN_SCALE fmt"]) simp

lemma sgn_rat_swap: "sgn_rat s * v = w \<longleftrightarrow> v = sgn_rat s * w"
  by (metis sgn_rat_sq)

lemma abs_diff_sgn: "\<bar>sgn_rat s * a - sgn_rat s * b\<bar> = \<bar>a - b\<bar>"
  by (auto simp: sgn_rat_def)

lemma abs_diff_sgn2: "\<bar>v - sgn_rat s * b\<bar> = \<bar>sgn_rat s * v - b\<bar>"
  by (auto simp: sgn_rat_def)

text \<open>Nearest over all finite patterns, not only those of the result's sign.\<close>

lemma round_near_finite:
  assumes al: "aligned X kept \<phi> lsb" and X: "0 < X" and fin: "fp_finite fmt b"
    and inc: "inc \<longleftrightarrow> 1 / 2 < \<phi> \<or> (\<phi> = 1 / 2 \<and> odd kept)"
  shows "\<bar>mag (kept + of_bool inc) lsb - X\<bar> \<le> \<bar>sgn_rat s * fp_val fmt b - X\<bar>"
    "\<bar>mag (kept + of_bool inc) lsb - X\<bar> = \<bar>sgn_rat s * fp_val fmt b - X\<bar> \<Longrightarrow>
     sgn_rat s * fp_val fmt b \<noteq> mag (kept + of_bool inc) lsb \<Longrightarrow> even (kept + of_bool inc)"
proof -
  define v where "v = sgn_rat s * fp_val fmt b"
  have zero: "\<bar>mag (kept + of_bool inc) lsb - X\<bar> \<le> X"
    using round_near_best(1) [OF al grid_0 inc] X by simp
  have "\<bar>mag (kept + of_bool inc) lsb - X\<bar> \<le> \<bar>v - X\<bar> \<and>
    (\<bar>mag (kept + of_bool inc) lsb - X\<bar> = \<bar>v - X\<bar> \<and> v \<noteq> mag (kept + of_bool inc) lsb \<longrightarrow>
     even (kept + of_bool inc))"
  proof (cases "0 \<le> v")
    case True
    then have "v = \<bar>fp_val fmt b\<bar>" unfolding v_def by (metis abs_of_nonneg abs_sgn_rat)
    then have "grid v" using fp_finite_grid(1) [OF fin] by simp
    from round_near_best [OF al this inc] show ?thesis by blast
  next
    case False
    then show ?thesis using zero X by auto
  qed
  then show "\<bar>mag (kept + of_bool inc) lsb - X\<bar> \<le> \<bar>sgn_rat s * fp_val fmt b - X\<bar>"
    "\<bar>mag (kept + of_bool inc) lsb - X\<bar> = \<bar>sgn_rat s * fp_val fmt b - X\<bar> \<Longrightarrow>
     sgn_rat s * fp_val fmt b \<noteq> mag (kept + of_bool inc) lsb \<Longrightarrow> even (kept + of_bool inc)"
    unfolding v_def by blast+
qed

lemma round_finite_correct:
  assumes al: "aligned X kept \<phi> lsb" and X: "0 < X" and s: "s = 0 \<or> s = 1"
    and r: "fp_finite fmt r" "fp_val fmt r = sgn_rat s * mag (kept + of_bool inc) lsb"
      "even r \<longleftrightarrow> even (kept + of_bool inc)"
    and inc: "inc = inc_spec rm s kept \<phi>" and lim: "rm = RM_RNE \<Longrightarrow> X < rne_limit fmt"
  shows "correctly_rounded fmt rm (sgn_rat s * X) r"
proof (cases rm)
  case RM_RNE
  have inc': "inc \<longleftrightarrow> 1 / 2 < \<phi> \<or> (\<phi> = 1 / 2 \<and> odd kept)"
    using inc RM_RNE by (simp add: inc_spec_def)
  have "\<bar>fp_val fmt r - sgn_rat s * X\<bar> \<le> \<bar>fp_val fmt y - sgn_rat s * X\<bar> \<and>
    (\<bar>fp_val fmt r - sgn_rat s * X\<bar> = \<bar>fp_val fmt y - sgn_rat s * X\<bar> \<and> fp_val fmt y \<noteq> fp_val fmt r \<longrightarrow> even r)"
    if "fp_finite fmt y" for y
    using round_near_finite [OF al X that inc', of s] r(2,3)
    unfolding abs_diff_sgn abs_diff_sgn2 sgn_rat_swap [of s "fp_val fmt y"]
    by (simp add: abs_diff_sgn)
  then show ?thesis using RM_RNE r(1) lim X by (simp add: correctly_rounded_def)
next
  case RM_RTZ
  have "\<not> inc" using inc RM_RTZ by (simp add: inc_spec_def)
  then have v: "fp_val fmt r = sgn_rat s * mag kept lsb" using r(2) by simp
  have "\<bar>fp_val fmt r\<bar> = mag kept lsb" unfolding v using aligned_bounds(8) [OF al] by simp
  moreover have "0 \<le> fp_val fmt r * (sgn_rat s * X)"
    unfolding v using aligned_bounds(8) [OF al] X by (auto simp: sgn_rat_def)
  moreover have "\<bar>sgn_rat s * X\<bar> = X" using X by simp
  ultimately show ?thesis
    using RM_RTZ r(1) aligned_bounds(1) [OF al] round_down_best [OF al fp_finite_grid(1)]
    by (simp add: correctly_rounded_def)
next
  case RM_RDN
  show ?thesis
  proof (cases "s = 0")
    case True
    then have v: "fp_val fmt r = mag kept lsb" using r(2) inc RM_RDN by (simp add: inc_spec_def sgn_rat_def)
    have "fp_val fmt y \<le> fp_val fmt r" if "fp_finite fmt y" "fp_val fmt y \<le> X" for y
      using round_down_best [OF al fp_finite_grid(1) [OF that(1)]] that(2) v aligned_bounds(8) [OF al]
      by (cases "0 \<le> fp_val fmt y") auto
    then show ?thesis
      using RM_RDN r(1) True v aligned_bounds(1) [OF al] by (simp add: correctly_rounded_def sgn_rat_def)
  next
    case False
    then have sg: "sgn_rat s = - 1" by (simp add: sgn_rat_def)
    have v: "fp_val fmt r = - mag (kept + of_bool (\<phi> \<noteq> 0)) lsb"
      using r(2) inc RM_RDN False by (simp add: inc_spec_def sg)
    have "fp_val fmt y \<le> fp_val fmt r" if "fp_finite fmt y" "fp_val fmt y \<le> - X" for y
      using round_up_best [OF al fp_finite_grid(1) [OF that(1)]] that(2) v X by auto
    then show ?thesis
      using RM_RDN r(1) v round_up_ge [OF al] by (simp add: correctly_rounded_def sg)
  qed
next
  case RM_RUP
  show ?thesis
  proof (cases "s = 0")
    case True
    then have sg: "sgn_rat s = 1" by (simp add: sgn_rat_def)
    have v: "fp_val fmt r = mag (kept + of_bool (\<phi> \<noteq> 0)) lsb"
      using r(2) inc RM_RUP True by (simp add: inc_spec_def sgn_rat_def)
    have "fp_val fmt r \<le> fp_val fmt y" if "fp_finite fmt y" "X \<le> fp_val fmt y" for y
      using round_up_best [OF al fp_finite_grid(1) [OF that(1)]] that(2) v X by auto
    then show ?thesis
      using RM_RUP r(1) v round_up_ge [OF al] by (simp add: correctly_rounded_def sg)
  next
    case False
    then have sg: "sgn_rat s = - 1" by (simp add: sgn_rat_def)
    then have v: "fp_val fmt r = - mag kept lsb" using r(2) inc RM_RUP False by (simp add: inc_spec_def sg)
    have "fp_val fmt r \<le> fp_val fmt y" if "fp_finite fmt y" "- X \<le> fp_val fmt y" for y
      using round_down_best [OF al fp_finite_grid(1) [OF that(1)]] that(2) v aligned_bounds(8) [OF al]
      by (cases "0 \<le> fp_val fmt y") auto
    then show ?thesis
      using RM_RUP r(1) v aligned_bounds(1) [OF al] by (simp add: correctly_rounded_def sg)
  qed
qed

lemma max_mag_alt: "max_mag = 2 ^ (mb + 1) * 2 powi MAX_SCALE - 2 powi MAX_SCALE"
  by (simp add: max_mag_def mag_def algebra_simps)

lemma rne_limit_alt: "rne_limit fmt = 2 ^ (mb + 1) * 2 powi MAX_SCALE - 2 powi MAX_SCALE / 2"
  by (simp add: rne_limit_def MAX_SCALE_def algebra_simps)

lemma MIN_le_MAX: "MIN_SCALE fmt \<le> MAX_SCALE"
  using bias_pos by (simp add: MAX_SCALE_def)

text \<open>What overflow says of the exact magnitude.\<close>

lemma overflow_magnitude:
  assumes al: "aligned X kept \<phi> lsb" and c: "rp_carry inc kept lsb fmt = (kept', lsb')"
    and ov: "MAX_SCALE < lsb'" and inc: "inc = inc_spec rm s kept \<phi>"
  shows "max_mag < X" "rm = RM_RNE \<Longrightarrow> rne_limit fmt \<le> X"
proof -
  define T :: rat where "T = 2 powi MAX_SCALE"
  have T: "0 < T" by (simp add: T_def)
  have k: "0 \<le> kept" "kept < 2 ^ (mb + 1)" "lsb = MIN_SCALE fmt \<or> 2 ^ mb \<le> kept"
    and X: "X = (of_int kept + \<phi>) * 2 powi lsb" and \<phi>: "0 \<le> \<phi>" "\<phi> < 1"
    using al by (auto simp: aligned_def)
  note cs = rp_carry_spec [OF k c]
  have "max_mag < X \<and> (rm = RM_RNE \<longrightarrow> rne_limit fmt \<le> X)"
  proof (cases "MAX_SCALE < lsb")
    case True
    then have "2 ^ mb \<le> kept" using k(3) MIN_le_MAX by auto
    then have "mag (2 ^ mb) (MAX_SCALE + 1) \<le> mag kept lsb" using True by (intro mag_mono2) auto
    also have "\<dots> \<le> X" by (rule aligned_bounds(1) [OF al])
    also have "mag (2 ^ mb) (MAX_SCALE + 1) = 2 ^ (mb + 1) * T"
      by (simp add: mag_def T_def power_int_add)
    finally have W: "2 ^ (mb + 1) * T \<le> X" .
    show ?thesis
      unfolding max_mag_alt rne_limit_alt T_def [symmetric]
      using W T by (intro conjI impI) linarith+
  next
    case False
    then have "lsb' \<noteq> lsb" and lsb: "lsb = MAX_SCALE" using ov cs(4,6) by auto
    then have inc1: "inc" and kept: "kept = 2 ^ (mb + 1) - 1" using cs(6) by auto
    define F where "F = \<phi> * T"
    have X': "X = max_mag + F"
      unfolding X kept lsb max_mag_alt T_def F_def by (simp add: algebra_simps)
    have "T / 2 \<le> F" if "rm = RM_RNE"
    proof -
      have "(1 / 2) * T \<le> \<phi> * T"
        using that inc inc1 T by (intro mult_right_mono) (auto simp: inc_spec_def)
      then show ?thesis by (simp add: F_def)
    qed
    moreover have "0 < \<phi>"
      using inc inc1 \<phi> by (cases rm) (auto simp: inc_spec_def)
    then have "0 < F" using T by (simp add: F_def)
    ultimately show ?thesis
      unfolding X' max_mag_alt rne_limit_alt T_def [symmetric] by (intro conjI impI) simp_all
  qed
  then show "max_mag < X" "rm = RM_RNE \<Longrightarrow> rne_limit fmt \<le> X"
    by blast+
qed

lemma no_overflow_limit:
  assumes al: "aligned X kept \<phi> lsb" and c: "rp_carry inc kept lsb fmt = (kept', lsb')"
    and nov: "lsb' \<le> MAX_SCALE" and inc: "inc = inc_spec RM_RNE s kept \<phi>"
  shows "X < rne_limit fmt"
proof -
  define T :: rat where "T = 2 powi MAX_SCALE"
  have T: "0 < T" by (simp add: T_def)
  have k: "0 \<le> kept" "kept < 2 ^ (mb + 1)" "lsb = MIN_SCALE fmt \<or> 2 ^ mb \<le> kept"
    and X: "X = (of_int kept + \<phi>) * 2 powi lsb" and \<phi>: "0 \<le> \<phi>" "\<phi> < 1"
    using al by (auto simp: aligned_def)
  note cs = rp_carry_spec [OF k c]
  note ub = aligned_bounds(2) [OF al]
  show ?thesis
  proof (cases "lsb = MAX_SCALE")
    case False
    then have "lsb + 1 \<le> MAX_SCALE" using nov cs(4) by simp
    have "mag (kept + 1) lsb \<le> mag (2 ^ (mb + 1)) lsb" using k by (intro mag_mono2) auto
    also have "\<dots> = mag (2 ^ mb) (lsb + 1)" by (simp add: mag_def power_int_add)
    also have "\<dots> \<le> mag (2 ^ mb) MAX_SCALE"
      using \<open>lsb + 1 \<le> MAX_SCALE\<close> by (intro mag_mono2) auto
    also have "\<dots> = 2 ^ mb * T" by (simp add: mag_def T_def)
    finally have X1: "X < 2 ^ mb * T" using ub by simp
    have "T \<le> 2 ^ mb * T" using T by simp
    moreover have "2 ^ (mb + 1) * T = 2 * (2 ^ mb * T)" by simp
    ultimately show ?thesis using X1 T unfolding rne_limit_alt T_def [symmetric] by linarith
  next
    case True
    then have nc: "lsb' = lsb" using nov cs(4) by simp
    show ?thesis
    proof (cases "kept = 2 ^ (mb + 1) - 1")
      case kmax: True
      have "\<not> inc"
      proof
        assume inc
        then have "mag kept' lsb = mag (2 ^ (mb + 1)) lsb" using cs(1) nc kmax by simp
        then have "(of_int kept' :: rat) = of_int (2 ^ (mb + 1))"
          unfolding mag_def by (simp only: mult_cancel_right) simp
        then have "kept' = 2 ^ (mb + 1)" by (simp only: of_int_eq_iff)
        then show False using cs(3) by simp
      qed
      moreover have "odd kept" using kmax by simp
      ultimately have "\<phi> < 1 / 2" using inc by (auto simp: inc_spec_def)
      then have "\<phi> * T < (1 / 2) * T" using T by (intro mult_strict_right_mono)
      moreover have "X = (2 ^ (mb + 1) * T - T) + \<phi> * T"
        unfolding X True kmax T_def by (simp add: algebra_simps)
      ultimately show ?thesis unfolding rne_limit_alt T_def [symmetric] by linarith
    next
      case False
      then have "mag (kept + 1) lsb \<le> mag (2 ^ (mb + 1) - 1) lsb" using k by (intro mag_mono2) auto
      also have "\<dots> = max_mag" by (simp add: True max_mag_def)
      finally have "X < max_mag" using ub by simp
      then show ?thesis using T unfolding max_mag_alt rne_limit_alt T_def [symmetric] by linarith
    qed
  qed
qed

lemma round_overflow_correct:
  assumes X: "max_mag < X" and s: "s = 0 \<or> s = 1" and lim: "rm = RM_RNE \<Longrightarrow> rne_limit fmt \<le> X"
  shows "correctly_rounded fmt rm (sgn_rat s * X) (rp_overflow s rm fmt)"
proof -
  have s': "0 \<le> s" "s \<le> 1" using s by auto
  note sp = finite_special [OF s']
  have "(0 :: int) < 2 ^ (mb + 1) - 1"
    using one_less_power [of "2 :: int" "mb + 1"] by simp
  then have pos: "0 < max_mag" unfolding max_mag_def by (rule mag_pos)
  have le: "fp_val fmt y \<le> max_mag" "- max_mag \<le> fp_val fmt y" if "fp_finite fmt y" for y
    using fp_finite_grid(2) [OF that] by auto
  show ?thesis
    using s X lim sp pos le
    by (cases rm)
       (auto simp: rp_overflow_def correctly_rounded_def sgn_rat_def mult_nonneg_nonneg
          intro: fp_finite_grid(2) dest: le
          intro!: order_less_le_trans [OF _ le(2)] order_le_less_trans [OF le(1)])
qed

lemma rp_inc_spec:
  assumes "rb \<noteq> 0 \<longleftrightarrow> 1 / 2 \<le> \<phi>" "st \<longleftrightarrow> \<phi> \<noteq> 0 \<and> \<phi> \<noteq> 1 / 2"
  shows "rp_inc rm s kept rb st = inc_spec rm s kept \<phi>" "(rb \<noteq> 0 \<or> st) \<longleftrightarrow> \<phi> \<noteq> 0"
proof -
  show ie: "(rb \<noteq> 0 \<or> st) \<longleftrightarrow> \<phi> \<noteq> 0" using assms by auto
  have "kept AND 1 \<noteq> 0 \<longleftrightarrow> odd kept" by (simp add: and_one_eq odd_iff_mod_2_eq_one)
  then show "rp_inc rm s kept rb st = inc_spec rm s kept \<phi>"
    using assms ie unfolding rp_inc_def inc_spec_def Let_def by (cases rm) auto
qed

text \<open>What \<open>round_pack\<close> promises for the sign \<open>s\<close> and the exact magnitude \<open>X\<close>.\<close>

definition packed :: "rmode \<Rightarrow> int \<Rightarrow> rat \<Rightarrow> int \<Rightarrow> fp_flags \<Rightarrow> bool" where
  "packed rm s X r fl \<longleftrightarrow> correctly_rounded fmt rm (sgn_rat s * X) r \<and>
    (inexact fl \<longleftrightarrow> \<not> (fp_finite fmt r \<and> fp_val fmt r = sgn_rat s * X)) \<and>
    (0 \<le> r \<and> r < 2 ^ WIDTH fmt) \<and> \<not> invalid fl \<and>
    (overflow fl \<longrightarrow> max_mag < X \<and> inexact fl \<and> \<not> underflow fl) \<and>
    (underflow fl \<longrightarrow> inexact fl \<and> fp_finite fmt r \<and> \<bar>fp_val fmt r\<bar> < mag (2 ^ mb) (MIN_SCALE fmt)) \<and>
    (fp_finite fmt r \<longrightarrow> fp_val fmt r \<noteq> 0 \<longrightarrow> (fp_val fmt r < 0 \<longleftrightarrow> s = 1)) \<and>
    \<not> is_nan_kind (fp_kind_of fmt r)"

lemma inc_exact_iff:
  assumes al: "aligned X kept \<phi> lsb" and inc: "inc = inc_spec rm s kept \<phi>" and \<phi>: "0 \<le> \<phi>" "\<phi> < 1"
  shows "sgn_rat s * mag (kept + of_bool inc) lsb = sgn_rat s * X \<longleftrightarrow> \<phi> = 0"
proof -
  have "sgn_rat s * mag (kept + of_bool inc) lsb = sgn_rat s * X \<longleftrightarrow> mag (kept + of_bool inc) lsb = X"
    using sgn_rat_cases [of s] by auto
  also have "\<dots> \<longleftrightarrow> of_int kept + of_bool inc = of_int kept + \<phi>"
    using al by (simp add: aligned_def mag_def)
  also have "\<dots> \<longleftrightarrow> \<phi> = 0" using inc \<phi> by (cases inc; cases rm) (auto simp: inc_spec_def)
  finally show ?thesis .
qed

lemma packed_finite:
  assumes al: "aligned X kept \<phi> lsb" and X0: "0 < X" and s: "s = 0 \<or> s = 1"
    and inc: "inc = inc_spec rm s kept \<phi>" and \<phi>: "0 \<le> \<phi>" "\<phi> < 1"
    and k: "0 \<le> kept" "kept < 2 ^ (mb + 1)" "MIN_SCALE fmt \<le> lsb" "lsb = MIN_SCALE fmt \<or> 2 ^ mb \<le> kept"
    and c: "rp_carry inc kept lsb fmt = (kept', lsb')" and True: "lsb' \<le> MAX_SCALE"
    and enc: "rp_encode s kept' lsb' (\<phi> \<noteq> 0) rm fmt = (r, fl)"
  shows "packed rm s X r fl"
proof -
  note cs = rp_carry_spec [OF k(1,2,4) c]
  have s': "0 \<le> s" "s \<le> 1" using s by auto
  have "MIN_SCALE fmt \<le> lsb'" using k(3) cs(4) by simp
  note e = rp_encode_finite [OF s' cs(2,3) this cs(5) True enc]
  have val: "fp_val fmt r = sgn_rat s * mag (kept + of_bool inc) lsb" using e(2) cs(1) by simp
  have lim: "X < rne_limit fmt" if "rm = RM_RNE"
    using no_overflow_limit [OF al c True] inc that by simp
  have "correctly_rounded fmt rm (sgn_rat s * X) r"
    using round_finite_correct [OF al X0 s e(1) val _ inc lim] e(3) cs(7) by simp
  moreover have "\<phi> \<noteq> 0 \<longleftrightarrow> fp_val fmt r \<noteq> sgn_rat s * X"
    unfolding val using inc_exact_iff [OF al inc \<phi>] by simp
  moreover have "\<bar>fp_val fmt r\<bar> < mag (2 ^ mb) (MIN_SCALE fmt)" if "underflow fl"
  proof -
    have "kept' < 2 ^ mb" "lsb' = MIN_SCALE fmt" using that e(8) cs(5) by auto
    then have "mag kept' lsb' < mag (2 ^ mb) (MIN_SCALE fmt)"
      unfolding mag_def by (simp only: mult_less_cancel_right_pos of_int_less_iff powi2_pos)
    then show ?thesis unfolding e(2) using mag_nonneg [OF cs(2)] by simp
  qed
  moreover have "fp_val fmt r < 0 \<longleftrightarrow> s = 1" if "fp_val fmt r \<noteq> 0"
    using that s mag_pos [of kept' lsb'] cs(2) unfolding e(2)
    by (cases "kept' = 0") (auto simp: sgn_rat_def)
  ultimately show ?thesis
    unfolding packed_def using e by (auto simp: fp_finite_def is_nan_kind_def)
qed

lemma max_mag_pos: "0 < max_mag"
proof -
  have "(0 :: int) < 2 ^ (mb + 1) - 1" using one_less_power [of "2 :: int" "mb + 1"] by simp
  then show ?thesis unfolding max_mag_def by (rule mag_pos)
qed

lemma packed_overflow:
  assumes X: "max_mag < X" and lim: "rm = RM_RNE \<Longrightarrow> rne_limit fmt \<le> X" and s: "s = 0 \<or> s = 1"
  shows "packed rm s X (rp_overflow s rm fmt) (no_flags\<lparr>overflow := True, inexact := True\<rparr>)"
proof -
  define r where "r = rp_overflow s rm fmt"
  have s': "0 \<le> s" "s \<le> 1" using s by auto
  have cr: "correctly_rounded fmt rm (sgn_rat s * X) r"
    unfolding r_def using round_overflow_correct [OF X s lim] by simp
  note sp = finite_special [OF s']
  have rng: "0 \<le> fp_inf fmt s \<and> fp_inf fmt s < 2 ^ WIDTH fmt"
    "0 \<le> max_finite fmt s \<and> max_finite fmt s < 2 ^ WIDTH fmt"
    unfolding pk_zero_fields using bias_pos by (intro pk_fields(5) s'; simp)+
  have r2: "r = fp_inf fmt s \<or> (r = max_finite fmt s \<and> (rm = RM_RTZ \<or> rm = RM_RDN \<and> s = 0 \<or> rm = RM_RUP \<and> s = 1))"
    using s by (cases rm) (auto simp: r_def rp_overflow_def)
  have notexact: "\<not> (fp_finite fmt r \<and> fp_val fmt r = sgn_rat s * X)"
  proof
    assume a: "fp_finite fmt r \<and> fp_val fmt r = sgn_rat s * X"
    then have "r = max_finite fmt s" using r2 sp(1) by auto
    then have "sgn_rat s * max_mag = sgn_rat s * X" using a sp(7) by simp
    then have "X = max_mag" using sgn_rat_cases [of s] by auto
    then show False using X by simp
  qed
  show ?thesis
    unfolding packed_def r_def [symmetric] using cr notexact rng r2 sp X s max_mag_pos
    by (auto simp: no_flags_def is_nan_kind_def fp_finite_def sgn_rat_def zero_less_mult_iff)
qed

theorem round_pack_packed:
  assumes s: "s = 0 \<or> s = 1" and mant: "0 < mant" and r: "round_pack s mant scale rm fmt = (r, fl)"
  shows "packed rm s (mag mant scale) r fl"
proof -
  obtain kept rb st lsb where al0: "rp_align mant scale fmt = (kept, rb, st, lsb)"
    by (metis prod_cases4)
  obtain \<phi> where \<phi>: "mag mant scale = (of_int kept + \<phi>) * 2 powi lsb" "0 \<le> \<phi>" "\<phi> < 1"
    "rb \<noteq> 0 \<longleftrightarrow> 1 / 2 \<le> \<phi>" "st \<longleftrightarrow> \<phi> \<noteq> 0 \<and> \<phi> \<noteq> 1 / 2"
    using rp_align_exact [OF mant al0] by blast
  note k = rp_align_kept [OF mant al0]
  have al: "aligned (mag mant scale) kept \<phi> lsb" using \<phi> k by (simp add: aligned_def)
  define inc where "inc = rp_inc rm s kept rb st"
  have inc: "inc = inc_spec rm s kept \<phi>" and inex: "(rb \<noteq> 0 \<or> st) \<longleftrightarrow> \<phi> \<noteq> 0"
    using rp_inc_spec [OF \<phi>(4,5)] by (simp_all add: inc_def)
  obtain kept' lsb' where c: "rp_carry inc kept lsb fmt = (kept', lsb')" by (metis surj_pair)
  have enc: "rp_encode s kept' lsb' (\<phi> \<noteq> 0) rm fmt = (r, fl)"
    using r al0 c inex by (simp add: round_pack_def inc_def)
  show ?thesis
  proof (cases "lsb' \<le> MAX_SCALE")
    case True
    then show ?thesis by (rule packed_finite [OF al mag_pos [OF mant] s inc \<phi>(2,3) k c _ enc])
  next
    case False
    then have ov: "MAX_SCALE < lsb'" by simp
    note cs = rp_carry_spec [OF k(1,2,4) c]
    have "lsb' \<noteq> MIN_SCALE fmt" using ov MIN_le_MAX by simp
    then have k2: "2 ^ mb \<le> kept'" using cs(5) by simp
    have "drop_bit mb kept' \<noteq> 0"
    proof
      assume "drop_bit mb kept' = 0"
      then have "kept' < 2 ^ mb" using cs(2) by (auto simp: drop_bit_eq_div zdiv_eq_0_iff)
      then show False using k2 by simp
    qed
    moreover have "kept' \<noteq> 0" using k2 by (metis not_one_le_zero one_le_power one_le_numeral order_trans)
    moreover have "EMAX_FIELD fmt \<le> lsb' + int mb + BIAS fmt" using ov by (simp add: MAX_SCALE_def)
    ultimately have "r = rp_overflow s rm fmt" "fl = no_flags\<lparr>overflow := True, inexact := True\<rparr>"
      using enc by (simp_all add: rp_encode_def Let_def)
    then show ?thesis using packed_overflow overflow_magnitude [OF al c ov inc] s by blast
  qed
qed

end

end
