(* ===== verification/FpOps.thy ===== *)
theory FpOps
  imports FpRound
begin

text \<open>
  The operations of \<^verbatim>\<open>tb/uvm/fp_ref.py\<close>: \<open>fp_add\<close>, \<open>fp_mul\<close> and \<open>fp_fma\<close> return the
  correctly rounded exact result with the right flags on finite operands, their special
  cases follow IEEE-754, addition and multiplication commute, and a fused multiply-add by
  one is an addition.
\<close>

section \<open>The formats of the source\<close>

interpretation fp32: ieee_format 8 23
  by unfold_locales simp_all

interpretation fp16: ieee_format 5 10
  by unfold_locales simp_all

lemma FP32_eq: "FP32 = FpFormat 8 23" and FP16_eq: "FP16 = FpFormat 5 10"
  by (simp_all add: FP32_def FP16_def)

section \<open>Scaling an exact magnitude does not change its rounding\<close>

lemma bit_length_scale: "0 < m \<Longrightarrow> bit_length (m * 2 ^ k) = bit_length m + int k"
proof -
  assume m: "0 < m"
  then obtain n where n: "bit_length m = int (Suc n)"
    using bit_length_pos [OF m] by (metis gr0_conv_Suc of_nat_0_less_iff zero_less_imp_eq_int)
  from bit_length_bounds [OF m n] have "2 ^ (n + k) \<le> m * 2 ^ k" "m * 2 ^ k < 2 ^ Suc (n + k)"
    by (simp_all add: power_add)
  then have "bit_length (m * 2 ^ k) = int (Suc (n + k))" by (rule bit_length_unique)
  then show ?thesis using n by simp
qed

lemma div_scale_mod: "(m * 2 ^ k) mod (2 ^ (n + k)) = (m mod 2 ^ n) * (2 :: int) ^ k"
  by (simp add: power_add mult_mod_left)

lemma rp_align_scale:
  assumes m: "0 < m"
  shows "rp_align (m * 2 ^ k) (c - int k) fmt = rp_align m c fmt"
proof -
  define lsb where "lsb = max (c + bit_length m - 1 - int (MANT fmt)) (MIN_SCALE fmt)"
  have lsb': "max (c - int k + bit_length (m * 2 ^ k) - 1 - int (MANT fmt)) (MIN_SCALE fmt) = lsb"
    using bit_length_scale [OF m, of k] by (simp add: lsb_def)
  consider "lsb - c > 0" | "lsb - c \<le> 0" "lsb - c + int k > 0" | "lsb - c + int k \<le> 0"
    by linarith
  then show ?thesis
  proof cases
    case 1
    define n where "n = nat (lsb - c - 1)"
    have n: "nat (lsb - c) = Suc n" "nat (lsb - c - 1) = n" "nat (lsb - (c - int k)) = Suc n + k"
      "nat (lsb - (c - int k) - 1) = n + k"
      using 1 by (auto simp: n_def nat_add_distrib nat_eq_iff)
    have d: "(m * 2 ^ k) div 2 ^ (j + k) = m div (2 :: int) ^ j" for m :: int and j
      by (simp add: power_add)
    have "rp_align m c fmt = (m div 2 ^ Suc n, (m mod 2 ^ Suc n div 2 ^ n) mod 2,
        m mod 2 ^ Suc n mod 2 ^ n \<noteq> 0, lsb)"
      unfolding rp_align_def Let_def lsb_def [symmetric] using 1
      by (simp add: and_shl_mask shr_eq n and_one_eq del: power_Suc)
    moreover have "rp_align (m * 2 ^ k) (c - int k) fmt = (m div 2 ^ Suc n,
        ((m mod 2 ^ Suc n) * 2 ^ k div 2 ^ (n + k)) mod 2, (m mod 2 ^ Suc n) * 2 ^ k mod 2 ^ (n + k) \<noteq> 0, lsb)"
      unfolding rp_align_def Let_def lsb' using 1
      by (simp only: and_shl_mask shr_eq n and_one_eq d div_scale_mod) simp
    ultimately show ?thesis by (simp add: d div_scale_mod del: power_Suc)
  next
    case 2
    define j where "j = nat (c - lsb)"
    define n where "n = nat (lsb - c + int k - 1)"
    have n: "nat (lsb - (c - int k)) = Suc n" "nat (lsb - (c - int k) - 1) = n" "k = j + Suc n"
      "nat (- (lsb - c)) = j"
      using 2 by (auto simp: n_def j_def nat_eq_iff)
    have e: "m * 2 ^ k = m * 2 ^ j * (2 :: int) ^ Suc n" by (simp add: n(3) power_add)
    have "rp_align m c fmt = (m * 2 ^ j, 0, False, lsb)"
      unfolding rp_align_def Let_def lsb_def [symmetric] using 2 n(4) by (simp add: shl_eq)
    moreover have "rp_align (m * 2 ^ k) (c - int k) fmt = (m * 2 ^ j, 0, False, lsb)"
      unfolding rp_align_def Let_def lsb' using 2
      by (simp only: and_shl_mask shr_eq n(1,2) and_one_eq e) simp
    ultimately show ?thesis by simp
  next
    case 3
    have "nat (- (lsb - (c - int k))) + k = nat (- (lsb - c))" using 3 by (simp add: nat_eq_iff)
    then have "m * 2 ^ k * 2 ^ nat (- (lsb - (c - int k))) = m * (2 :: int) ^ nat (- (lsb - c))"
      by (metis mult.assoc power_add add.commute)
    then show ?thesis
      unfolding rp_align_def Let_def lsb' lsb_def [symmetric] using 3 by (simp add: shl_eq)
  qed
qed

lemma round_pack_scale:
  "0 < m \<Longrightarrow> round_pack s (m * 2 ^ k) (c - int k) rm fmt = round_pack s m c rm fmt"
  by (simp add: round_pack_def rp_align_scale)

section \<open>Commutativity\<close>

lemma fp_add_comm: "fp_add a b rm fmt = fp_add b a rm fmt"
proof -
  obtain ka sa ma ca where a: "decode a fmt = (ka, sa, ma, ca)" by (metis prod_cases4)
  obtain kb sb mb cb where b: "decode b fmt = (kb, sb, mb, cb)" by (metis prod_cases4)
  show ?thesis
    unfolding fp_add_def a b Let_def prod.case
    by (cases ka; cases kb) (simp_all add: is_nan_kind_def min.commute [of cb ca]
        add.commute [of "shl mb (cb - min ca cb) * _"])
qed

lemma fp_mul_comm: "fp_mul a b rm fmt = fp_mul b a rm fmt"
proof -
  obtain ka sa ma ca where a: "decode a fmt = (ka, sa, ma, ca)" by (metis prod_cases4)
  obtain kb sb mb cb where b: "decode b fmt = (kb, sb, mb, cb)" by (metis prod_cases4)
  show ?thesis
    unfolding fp_mul_def a b Let_def prod.case
    by (cases ka; cases kb) (simp_all add: is_nan_kind_def xor.commute mult.commute add.commute)
qed

section \<open>Sums on a common scale\<close>

text \<open>The common tail of addition and fused multiply-add.\<close>

definition pack_sum :: "int \<Rightarrow> int \<Rightarrow> rmode \<Rightarrow> fp_format \<Rightarrow> int \<times> fp_flags" where
  "pack_sum s scale rm fmt =
    (if s = 0 then (fp_zero fmt (if rm = RM_RDN then 1 else 0), no_flags)
     else round_pack (if s < 0 then 1 else 0) \<bar>s\<bar> scale rm fmt)"

definition signed_at :: "int \<Rightarrow> int \<Rightarrow> int \<Rightarrow> int \<Rightarrow> int" where
  "signed_at s m c scale = m * 2 ^ nat (c - scale) * (if s \<noteq> 0 then - 1 else 1)"

definition finite_kind :: "fp_kind \<Rightarrow> bool" where
  "finite_kind k \<longleftrightarrow> k = KZero \<or> k = KFin"

lemma fp_add_finite:
  assumes "decode a fmt = (ka, sa, ma, ca)" "decode b fmt = (kb, sb, mb, cb)"
    "finite_kind ka" "finite_kind kb" "\<not> (ka = KZero \<and> kb = KZero)"
  shows "fp_add a b rm fmt =
    pack_sum (signed_at sa ma ca (min ca cb) + signed_at sb mb cb (min ca cb)) (min ca cb) rm fmt"
proof -
  have k: "\<not> is_nan_kind ka" "\<not> is_nan_kind kb" "ka \<noteq> KInf" "kb \<noteq> KInf"
    using assms(3,4) by (auto simp: finite_kind_def is_nan_kind_def)
  show ?thesis
    unfolding fp_add_def assms(1,2) Let_def prod.case
    by (simp only: k assms(5) simp_thms if_False pack_sum_def signed_at_def shl_eq)
qed

lemma fp_fma_finite:
  assumes "decode a fmt = (ka, sa, ma, ca)" "decode b fmt = (kb, sb, mb, cb)" "decode c fmt = (kc, sc, mc, cc)"
    "finite_kind ka" "finite_kind kb" "finite_kind kc" "\<not> ((ka = KZero \<or> kb = KZero) \<and> kc = KZero)"
  shows "fp_fma a b c rm fmt =
    pack_sum (signed_at (sa XOR sb) (ma * mb) (ca + cb) (min (ca + cb) cc) + signed_at sc mc cc (min (ca + cb) cc))
      (min (ca + cb) cc) rm fmt"
proof -
  have k: "\<not> is_nan_kind ka" "\<not> is_nan_kind kb" "\<not> is_nan_kind kc" "ka \<noteq> KInf" "kb \<noteq> KInf" "kc \<noteq> KInf"
    using assms(4-6) by (auto simp: finite_kind_def is_nan_kind_def)
  show ?thesis
    unfolding fp_fma_def assms(1-3) Let_def prod.case
    by (simp only: k assms(7) simp_thms if_False pack_sum_def signed_at_def shl_eq)
qed

lemma mag_signed_at:
  "scale \<le> c \<Longrightarrow> mag (signed_at s m c scale) scale = sgn_rat s * mag m c"
  using mag_shift [of scale c m] by (auto simp: mag_def signed_at_def sgn_rat_def)

lemma mag_add: "mag (a + b) c = mag a c + mag b c"
  by (simp add: mag_def algebra_simps)

lemma pack_sum_scale: "pack_sum (s * 2 ^ k) (c - int k) rm fmt = pack_sum s c rm fmt"
proof (cases "s = 0")
  case False
  then have "\<bar>s * 2 ^ k\<bar> = \<bar>s\<bar> * 2 ^ k" "0 < \<bar>s\<bar>" "s * 2 ^ k < 0 \<longleftrightarrow> s < 0"
    by (simp_all add: abs_mult mult_less_0_iff)
  then show ?thesis using False round_pack_scale [of "\<bar>s\<bar>"] by (simp add: pack_sum_def)
qed (simp add: pack_sum_def)

text \<open>The result and flags an operation on finite operands must give for the exact value \<open>x\<close>.\<close>

definition rounds_to :: "fp_format \<Rightarrow> rmode \<Rightarrow> rat \<Rightarrow> int \<Rightarrow> fp_flags \<Rightarrow> bool" where
  "rounds_to fmt rm x r fl \<longleftrightarrow> correctly_rounded fmt rm x r \<and>
     (inexact fl \<longleftrightarrow> \<not> (fp_finite fmt r \<and> fp_val fmt r = x)) \<and>
     (0 \<le> r \<and> r < 2 ^ WIDTH fmt) \<and> \<not> invalid fl"

context ieee_format
begin

lemma correctly_rounded_zero:
  assumes "fp_finite fmt r" "fp_val fmt r = 0"
  shows "correctly_rounded fmt rm 0 r"
proof -
  have "(1 :: rat) \<le> 2 ^ (MANT fmt + 1)" by (rule one_le_power) simp
  then have "(0 :: rat) < 2 ^ (MANT fmt + 1) - 1 / 2" by linarith
  then have "0 < rne_limit fmt" unfolding rne_limit_def by (intro mult_pos_pos) simp_all
  then show ?thesis using assms by (cases rm) (auto simp: correctly_rounded_def)
qed

lemma pack_sum_spec:
  assumes r: "pack_sum s scale rm fmt = (r, fl)"
  shows "correctly_rounded fmt rm (mag s scale) r"
    "inexact fl \<longleftrightarrow> \<not> (fp_finite fmt r \<and> fp_val fmt r = mag s scale)"
    "0 \<le> r \<and> r < 2 ^ WIDTH fmt" "\<not> invalid fl" "\<not> is_nan_kind (fp_kind_of fmt r)"
proof -
  have *: "correctly_rounded fmt rm (mag s scale) r \<and>
    (inexact fl \<longleftrightarrow> \<not> (fp_finite fmt r \<and> fp_val fmt r = mag s scale)) \<and>
    (0 \<le> r \<and> r < 2 ^ WIDTH fmt) \<and> \<not> invalid fl \<and> \<not> is_nan_kind (fp_kind_of fmt r)"
  proof (cases "s = 0")
    case True
    define z :: int where "z = (if rm = RM_RDN then 1 else 0)"
    have z: "0 \<le> z" "z \<le> 1" by (simp_all add: z_def)
    have r': "r = fp_zero fmt z" "fl = no_flags" using r True by (simp_all add: pack_sum_def z_def)
    have "0 \<le> r \<and> r < 2 ^ WIDTH fmt"
      unfolding r' pk_zero_fields by (intro pk_fields(5) z) simp_all
    then show ?thesis
      using finite_special(4,5) [OF z] correctly_rounded_zero True r'
      by (auto simp: no_flags_def is_nan_kind_def fp_finite_def)
  next
    case False
    define g :: int where "g = (if s < 0 then 1 else 0)"
    have g: "g = 0 \<or> g = 1" "0 < \<bar>s\<bar>" using False by (auto simp: g_def)
    have "round_pack g \<bar>s\<bar> scale rm fmt = (r, fl)" using r False by (simp add: pack_sum_def g_def)
    moreover have "mag s scale = sgn_rat g * mag \<bar>s\<bar> scale"
      by (auto simp: mag_def sgn_rat_def g_def)
    ultimately show ?thesis
      using round_pack_packed [OF g] unfolding packed_def by metis
  qed
  then show "correctly_rounded fmt rm (mag s scale) r"
    "inexact fl \<longleftrightarrow> \<not> (fp_finite fmt r \<and> fp_val fmt r = mag s scale)"
    "0 \<le> r \<and> r < 2 ^ WIDTH fmt" "\<not> invalid fl" "\<not> is_nan_kind (fp_kind_of fmt r)"
    by blast+
qed

lemma finite_kind_finite:
  "decode b fmt = (k, s, m, c) \<Longrightarrow> fp_finite fmt b \<longleftrightarrow> finite_kind k"
  by (simp add: fp_finite_def fp_kind_of_def finite_kind_def)

lemma fp_val_decode: "decode b fmt = (k, s, m, c) \<Longrightarrow> fp_val fmt b = sgn_rat s * mag m c"
  by (simp add: fp_val_def)

lemma zero_result_spec:
  assumes z: "z = 0 \<or> z = 1" and x: "x = 0"
  shows "correctly_rounded fmt rm x (fp_zero fmt z)" "fp_finite fmt (fp_zero fmt z)"
    "fp_val fmt (fp_zero fmt z) = x" "0 \<le> fp_zero fmt z \<and> fp_zero fmt z < 2 ^ WIDTH fmt"
proof -
  have z': "0 \<le> z" "z \<le> 1" using z by auto
  show "fp_finite fmt (fp_zero fmt z)" "fp_val fmt (fp_zero fmt z) = x"
    using finite_special(4,5) [OF z'] x by simp_all
  then show "correctly_rounded fmt rm x (fp_zero fmt z)"
    using correctly_rounded_zero x by simp
  show "0 \<le> fp_zero fmt z \<and> fp_zero fmt z < 2 ^ WIDTH fmt"
    unfolding pk_zero_fields by (intro pk_fields(5) z') simp_all
qed



lemma pack_sum_rounds: "pack_sum s scale rm fmt = (r, fl) \<Longrightarrow> rounds_to fmt rm (mag s scale) r fl"
  using pack_sum_spec [of s scale rm r fl] by (simp add: rounds_to_def)

lemma zero_rounds: "z = 0 \<or> z = 1 \<Longrightarrow> x = 0 \<Longrightarrow> rounds_to fmt rm x (fp_zero fmt z) no_flags"
  using zero_result_spec(1) [of z x rm] zero_result_spec(2-) [of z x]
  unfolding rounds_to_def no_flags_def by (simp only: fp_flags.simps) blast

lemma fp_add_rounds:
  assumes fin: "fp_finite fmt a" "fp_finite fmt b" and r: "fp_add a b rm fmt = (r, fl)"
  shows "rounds_to fmt rm (fp_val fmt a + fp_val fmt b) r fl"
proof -
  obtain ka sa ma ca where a: "decode a fmt = (ka, sa, ma, ca)" by (metis prod_cases4)
  obtain kb sb mb cb where b: "decode b fmt = (kb, sb, mb, cb)" by (metis prod_cases4)
  have k: "finite_kind ka" "finite_kind kb"
    using fin finite_kind_finite [OF a] finite_kind_finite [OF b] by simp_all
  note v = fp_val_decode [OF a] fp_val_decode [OF b]
  show ?thesis
  proof (cases "ka = KZero \<and> kb = KZero")
    case True
    then have "ma = 0" "mb = 0" using decode_finite(2) [OF a] decode_finite(2) [OF b] by auto
    moreover obtain z where "r = fp_zero fmt z" "fl = no_flags" "z = 0 \<or> z = 1"
      using r True decode_finite(1) [OF a] unfolding fp_add_def a b
      by (auto simp: is_nan_kind_def split: if_splits)
    ultimately show ?thesis using zero_rounds v by simp
  next
    case False
    from r have "pack_sum (signed_at sa ma ca (min ca cb) + signed_at sb mb cb (min ca cb)) (min ca cb) rm fmt = (r, fl)"
      unfolding fp_add_finite [OF a b k False] .
    from pack_sum_rounds [OF this] show ?thesis
      unfolding mag_add v by (simp add: mag_signed_at)
  qed
qed

lemma xor_bit: "sa = 0 \<or> sa = 1 \<Longrightarrow> sb = 0 \<or> sb = 1 \<Longrightarrow>
    (sa XOR sb = 0 \<or> sa XOR sb = (1 :: int)) \<and> sgn_rat (sa XOR sb) = sgn_rat sa * sgn_rat sb"
  by (auto simp: sgn_rat_def)

lemma mag_mult: "mag (m * n) (c + d) = mag m c * mag n d"
  by (simp add: mag_def powi2_add)

lemma fp_mul_rounds:
  assumes fin: "fp_finite fmt a" "fp_finite fmt b" and r: "fp_mul a b rm fmt = (r, fl)"
  shows "rounds_to fmt rm (fp_val fmt a * fp_val fmt b) r fl"
proof -
  obtain ka sa ma ca where a: "decode a fmt = (ka, sa, ma, ca)" by (metis prod_cases4)
  obtain kb sb mb cb where b: "decode b fmt = (kb, sb, mb, cb)" by (metis prod_cases4)
  have k: "finite_kind ka" "finite_kind kb"
    using fin finite_kind_finite [OF a] finite_kind_finite [OF b] by simp_all
  define g where "g = sa XOR sb"
  have g: "g = 0 \<or> g = 1" "sgn_rat g = sgn_rat sa * sgn_rat sb"
    using xor_bit decode_finite(1) [OF a] decode_finite(1) [OF b] unfolding g_def by blast+
  note v = fp_val_decode [OF a] fp_val_decode [OF b]
  have val: "fp_val fmt a * fp_val fmt b = sgn_rat g * mag (ma * mb) (ca + cb)"
    by (simp add: v g(2) mag_mult algebra_simps)
  show ?thesis
  proof (cases "ka = KZero \<or> kb = KZero")
    case True
    then have "fp_val fmt a * fp_val fmt b = 0"
      using decode_finite(2) [OF a] decode_finite(2) [OF b] v by auto
    moreover have "r = fp_zero fmt g" "fl = no_flags"
      using r True k unfolding fp_mul_def a b
      by (auto simp: is_nan_kind_def finite_kind_def g_def)
    ultimately show ?thesis using zero_rounds [OF g(1)] by (simp only:)
  next
    case False
    then have "ka = KFin" "kb = KFin" using k by (auto simp: finite_kind_def)
    then have "0 < ma * mb"
      using decode_finite(2,3) [OF a] decode_finite(2,3) [OF b] by (auto intro!: mult_pos_pos)
    moreover have "round_pack g (ma * mb) (ca + cb) rm fmt = (r, fl)"
      using r \<open>ka = KFin\<close> \<open>kb = KFin\<close> unfolding fp_mul_def a b
      by (simp add: is_nan_kind_def g_def)
    ultimately show ?thesis
      using round_pack_packed [OF g(1)] val by (simp add: rounds_to_def packed_def)
  qed
qed

lemma fp_fma_rounds:
  assumes fin: "fp_finite fmt a" "fp_finite fmt b" "fp_finite fmt c" and r: "fp_fma a b c rm fmt = (r, fl)"
  shows "rounds_to fmt rm (fp_val fmt a * fp_val fmt b + fp_val fmt c) r fl"
proof -
  obtain ka sa ma ca where a: "decode a fmt = (ka, sa, ma, ca)" by (metis prod_cases4)
  obtain kb sb mb cb where b: "decode b fmt = (kb, sb, mb, cb)" by (metis prod_cases4)
  obtain kc sc mc cc where c: "decode c fmt = (kc, sc, mc, cc)" by (metis prod_cases4)
  have k: "finite_kind ka" "finite_kind kb" "finite_kind kc"
    using fin finite_kind_finite [OF a] finite_kind_finite [OF b] finite_kind_finite [OF c] by simp_all
  define g where "g = sa XOR sb"
  have g: "g = 0 \<or> g = 1" "sgn_rat g = sgn_rat sa * sgn_rat sb"
    using xor_bit decode_finite(1) [OF a] decode_finite(1) [OF b] unfolding g_def by blast+
  note v = fp_val_decode [OF a] fp_val_decode [OF b] fp_val_decode [OF c]
  have val: "fp_val fmt a * fp_val fmt b = sgn_rat g * mag (ma * mb) (ca + cb)"
    by (simp add: v g(2) mag_mult algebra_simps)
  show ?thesis
  proof (cases "(ka = KZero \<or> kb = KZero) \<and> kc = KZero")
    case True
    then have "fp_val fmt a * fp_val fmt b + fp_val fmt c = 0"
      using decode_finite(2) [OF a] decode_finite(2) [OF b] decode_finite(2) [OF c] v by auto
    moreover obtain z where "r = fp_zero fmt z" "fl = no_flags" "z = 0 \<or> z = 1"
      using r True k g(1) unfolding fp_fma_def a b c g_def
      by (auto simp: is_nan_kind_def finite_kind_def split: if_splits)
    ultimately show ?thesis using zero_rounds by (simp only:)
  next
    case False
    from r have "pack_sum (signed_at g (ma * mb) (ca + cb) (min (ca + cb) cc) + signed_at sc mc cc (min (ca + cb) cc))
        (min (ca + cb) cc) rm fmt = (r, fl)"
      unfolding fp_fma_finite [OF a b c k False] g_def .
    from pack_sum_rounds [OF this] show ?thesis
      unfolding mag_add val v(3) by (simp add: mag_signed_at)
  qed
qed

lemma is_nan_kind_of: "is_nan b fmt \<longleftrightarrow> is_nan_kind (fp_kind_of fmt b)"
  by (simp add: is_nan_def is_nan_kind_def fp_kind_of_def decode_def Let_def)

lemma decode_QNAN: "decode (QNAN fmt) fmt = (KNan, 0, 0, 0)"
proof -
  have p: "(0 :: int) < 2 ^ (mb - 1)" "(2 :: int) ^ (mb - 1) < 2 ^ mb"
    using mb1 by (simp_all add: power_strict_increasing)
  have q: "QNAN fmt = pk 0 (2 ^ ex - 1) (2 ^ (mb - 1))"
    by (simp add: pk_def FpFormat_def Let_def push_bit_eq_mult)
  show ?thesis
    unfolding q using decode_fields [OF pk_fields(1-3)] p
    by (simp add: drop_bit_eq_div and_one_eq)
qed

lemma decode_one: "decode (push_bit mb (2 ^ (ex - 1) - 1)) fmt = (KFin, 0, 2 ^ mb, - int mb)"
proof -
  define P :: int where "P = 2 ^ (ex - 1) - 1"
  have e: "(2 :: int) ^ ex = 2 * 2 ^ (ex - 1)" using ex2 by (cases ex) simp_all
  have "(2 :: int) \<le> 2 ^ (ex - 1)" using ex2 by (intro self_le_power) simp_all
  then have E: "0 < P" "P < 2 ^ ex - 1" using e unfolding P_def by linarith+
  have P: "BIAS fmt = P" by (simp add: P_def)
  have q: "push_bit mb P = pk 0 P 0" by (simp add: pk_def)
  show ?thesis
    unfolding P_def [symmetric] unfolding q
    using decode_fields [OF pk_fields(1-3), of 0 P 0] E unfolding P by simp
qed

lemma signed_at_scaled:
  "scale \<le> c - int k \<Longrightarrow> scale + int j \<le> c \<Longrightarrow>
    signed_at s (m * 2 ^ k) (c - int k) scale = signed_at s m c (scale + int j) * 2 ^ j"
proof -
  assume h: "scale \<le> c - int k" "scale + int j \<le> c"
  then have "k + nat (c - int k - scale) = nat (c - (scale + int j)) + j" by (simp add: nat_eq_iff)
  then show ?thesis by (simp add: signed_at_def power_add [symmetric] mult.assoc)
qed

lemma fp_fma_one: "fp_fma a (push_bit mb (2 ^ (ex - 1) - 1)) c rm fmt = fp_add a c rm fmt"
proof -
  obtain ka sa ma ca where a: "decode a fmt = (ka, sa, ma, ca)" by (metis prod_cases4)
  obtain kc sc mc cc where c: "decode c fmt = (kc, sc, mc, cc)" by (metis prod_cases4)
  show ?thesis
  proof (cases "finite_kind ka \<and> finite_kind kc \<and> \<not> (ka = KZero \<and> kc = KZero)")
    case False
    then show ?thesis
      unfolding fp_fma_def fp_add_def a c decode_one Let_def prod.case finite_kind_def
      by (cases ka; cases kc) (simp_all add: is_nan_kind_def)
  next
    case True
    define j where "j = nat (min ca cc - min (ca - int mb) cc)"
    have j: "min ca cc = min (ca - int mb) cc + int j" by (auto simp: j_def min_def)
    have m: "min (ca - int mb) cc \<le> ca" "min (ca - int mb) cc \<le> ca - int mb" "min (ca - int mb) cc \<le> cc"
      "min (ca - int mb) cc + int j \<le> ca" "min (ca - int mb) cc + int j \<le> cc"
      unfolding j [symmetric] by auto
    have "pack_sum (signed_at (sa XOR 0) (ma * 2 ^ mb) (ca + - int mb) (min (ca + - int mb) cc) +
        signed_at sc mc cc (min (ca + - int mb) cc)) (min (ca + - int mb) cc) rm fmt =
      pack_sum ((signed_at sa ma ca (min ca cc) + signed_at sc mc cc (min ca cc)) * 2 ^ j) (min ca cc - int j) rm fmt"
      using signed_at_scaled [of "min (ca - int mb) cc" ca mb j sa ma]
        signed_at_scaled [of "min (ca - int mb) cc" cc 0 j sc mc] j m
      by (simp add: algebra_simps del: min.bounded_iff)
    then show ?thesis
      unfolding pack_sum_scale using True fp_fma_finite [OF a decode_one c, of rm] fp_add_finite [OF a c, of rm]
      by (simp add: finite_kind_def)
  qed
qed

lemma fp_fma_nan:
  assumes r: "fp_fma a b c rm fmt = (r, fl)"
    and a: "decode a fmt = (ka, sa, ma, ca)" and b: "decode b fmt = (kb, sb, mb', cb)"
    and c: "decode c fmt = (kc, sc, mc, cc)"
  defines "prod_inv \<equiv> (ka = KInf \<and> kb = KZero) \<or> (ka = KZero \<and> kb = KInf)"
    and "sum_inv \<equiv> (ka = KInf \<or> kb = KInf) \<and> kc = KInf \<and> sc \<noteq> sa XOR sb"
    and "nan_in \<equiv> is_nan_kind ka \<or> is_nan_kind kb \<or> is_nan_kind kc"
  shows "is_nan r fmt \<longleftrightarrow> nan_in \<or> prod_inv \<or> sum_inv" "is_nan r fmt \<longrightarrow> r = QNAN fmt"
    "invalid fl \<longleftrightarrow> ka = KSnan \<or> kb = KSnan \<or> kc = KSnan \<or> prod_inv \<or> (\<not> nan_in \<and> sum_inv)"
proof -
  have g: "sa = 0 \<or> sa = 1" "sb = 0 \<or> sb = 1" "sc = 0 \<or> sc = 1"
    using decode_finite(1) [OF a] decode_finite(1) [OF b] decode_finite(1) [OF c] by blast+
  have q: "is_nan (QNAN fmt) fmt" by (simp add: is_nan_kind_of fp_kind_of_def decode_QNAN is_nan_kind_def)
  have i: "\<not> is_nan (fp_inf fmt s) fmt" "\<not> is_nan (fp_zero fmt s) fmt" if "s = 0 \<or> s = 1" for s
    using decode_special(1,2) [of s] that by (auto simp: is_nan_kind_of fp_kind_of_def is_nan_kind_def)
  have x: "sa XOR sb = 0 \<or> sa XOR sb = 1" using xor_bit g by blast
  have "(is_nan r fmt \<longleftrightarrow> nan_in \<or> prod_inv \<or> sum_inv) \<and> (is_nan r fmt \<longrightarrow> r = QNAN fmt) \<and>
    (invalid fl \<longleftrightarrow> ka = KSnan \<or> kb = KSnan \<or> kc = KSnan \<or> prod_inv \<or> (\<not> nan_in \<and> sum_inv))"
  proof (cases "finite_kind ka \<and> finite_kind kb \<and> finite_kind kc \<and> \<not> ((ka = KZero \<or> kb = KZero) \<and> kc = KZero)")
    case True
    then have k: "\<not> nan_in" "\<not> prod_inv" "\<not> sum_inv" "ka \<noteq> KSnan" "kb \<noteq> KSnan" "kc \<noteq> KSnan"
      by (auto simp: finite_kind_def nan_in_def prod_inv_def sum_inv_def is_nan_kind_def)
    show ?thesis
      using r True fp_fma_finite [OF a b c, of rm] pack_sum_spec(4,5) k by (auto simp: is_nan_kind_of)
  next
    case False
    note r' = r [unfolded fp_fma_def a b c Let_def prod.case]
    have sn: "ka = KSnan \<or> kb = KSnan \<or> kc = KSnan \<Longrightarrow> nan_in" by (auto simp: nan_in_def is_nan_kind_def)
    consider (nan) nan_in | (prod) "\<not> nan_in" prod_inv
      | (sum) "\<not> nan_in" "\<not> prod_inv" "ka = KInf \<or> kb = KInf" "kc = KInf \<and> sc \<noteq> sa XOR sb"
      | (inf) "\<not> nan_in" "\<not> prod_inv" "ka = KInf \<or> kb = KInf" "\<not> (kc = KInf \<and> sc \<noteq> sa XOR sb)"
      | (addend) "\<not> nan_in" "\<not> prod_inv" "\<not> (ka = KInf \<or> kb = KInf)" "kc = KInf"
      | (zero) "\<not> nan_in" "\<not> prod_inv" "\<not> (ka = KInf \<or> kb = KInf)" "kc \<noteq> KInf"
          "(ka = KZero \<or> kb = KZero) \<and> kc = KZero"
      using False unfolding finite_kind_def nan_in_def is_nan_kind_def
      by (cases ka; cases kb; cases kc) auto
    then show ?thesis
    proof cases
      case nan
      then have "r = QNAN fmt" "invalid fl \<longleftrightarrow> (ka = KSnan \<or> kb = KSnan \<or> kc = KSnan) \<or> prod_inv"
        using r' unfolding nan_in_def prod_inv_def by (auto simp: no_flags_def)
      then show ?thesis using nan q by simp
    next
      case prod
      then have "r = QNAN fmt" "invalid fl"
        using r' unfolding nan_in_def prod_inv_def by (auto simp: no_flags_def)
      then show ?thesis using prod q by simp
    next
      case sum
      then have "r = QNAN fmt" "invalid fl"
        using r' unfolding nan_in_def prod_inv_def by (auto simp: no_flags_def)
      then show ?thesis using sum q by (simp add: sum_inv_def)
    next
      case inf
      then have "r = fp_inf fmt (sa XOR sb)" "\<not> invalid fl"
        using r' unfolding nan_in_def prod_inv_def by (auto simp: no_flags_def)
      then show ?thesis using inf i(1) [OF x] sn by (auto simp: sum_inv_def)
    next
      case addend
      then have "r = fp_inf fmt sc" "\<not> invalid fl"
        using r' unfolding nan_in_def prod_inv_def by (auto simp: no_flags_def)
      then show ?thesis using addend i(1) [OF g(3)] sn by (auto simp: sum_inv_def)
    next
      case zero
      then obtain z where "r = fp_zero fmt z" "z = 0 \<or> z = 1" "\<not> invalid fl"
        using r' g(3) unfolding nan_in_def prod_inv_def by (auto simp: no_flags_def split: if_splits)
      then show ?thesis using zero i(2) sn by (auto simp: sum_inv_def)
    qed
  qed
  then show "is_nan r fmt \<longleftrightarrow> nan_in \<or> prod_inv \<or> sum_inv" "is_nan r fmt \<longrightarrow> r = QNAN fmt"
    "invalid fl \<longleftrightarrow> ka = KSnan \<or> kb = KSnan \<or> kc = KSnan \<or> prod_inv \<or> (\<not> nan_in \<and> sum_inv)"
    by blast+
qed

end

section \<open>The properties of the reference model\<close>

text \<open>C8: for every format with at least two exponent bits and one mantissa bit, every rounding
  mode and all finite operands, \<open>fp_fma\<close> returns the correctly rounded value of the exact
  \<open>a * b + c\<close> (one rounding), sets \<open>inexact\<close> exactly when the result differs from it, stays
  within the format's width and never raises \<open>invalid\<close>.\<close>

theorem fp_fma_correct:
  assumes "2 \<le> ex" "1 \<le> mb"
    and "fp_finite (FpFormat ex mb) a" "fp_finite (FpFormat ex mb) b" "fp_finite (FpFormat ex mb) c"
    and "fp_fma a b c rm (FpFormat ex mb) = (r, fl)"
  shows "rounds_to (FpFormat ex mb) rm
    (fp_val (FpFormat ex mb) a * fp_val (FpFormat ex mb) b + fp_val (FpFormat ex mb) c) r fl"
  using assms by (intro ieee_format.fp_fma_rounds ieee_format.intro)

lemma fp_fma_correct_witness:
  "rounds_to (FpFormat 5 10) RM_RDN
    (fp_val (FpFormat 5 10) 0x3C01 * fp_val (FpFormat 5 10) 0xBC01 + fp_val (FpFormat 5 10) 0x3C02)
    0x8010 no_flags"
  by (rule fp_fma_correct) code_simp+

text \<open>C9: likewise \<open>fp_add\<close> returns the correctly rounded exact sum.\<close>

theorem fp_add_correct:
  assumes "2 \<le> ex" "1 \<le> mb" "fp_finite (FpFormat ex mb) a" "fp_finite (FpFormat ex mb) b"
    and "fp_add a b rm (FpFormat ex mb) = (r, fl)"
  shows "rounds_to (FpFormat ex mb) rm (fp_val (FpFormat ex mb) a + fp_val (FpFormat ex mb) b) r fl"
  using assms by (intro ieee_format.fp_add_rounds ieee_format.intro)

lemma fp_add_correct_witness:
  "rounds_to (FpFormat 8 23) RM_RNE
    (fp_val (FpFormat 8 23) 0x3F800000 + fp_val (FpFormat 8 23) 0x33800001) 0x3F800001 (no_flags\<lparr>inexact := True\<rparr>)"
  by (rule fp_add_correct) code_simp+

text \<open>C10: likewise \<open>fp_mul\<close> returns the correctly rounded exact product, also when it
  overflows or is subnormal.\<close>

theorem fp_mul_correct:
  assumes "2 \<le> ex" "1 \<le> mb" "fp_finite (FpFormat ex mb) a" "fp_finite (FpFormat ex mb) b"
    and "fp_mul a b rm (FpFormat ex mb) = (r, fl)"
  shows "rounds_to (FpFormat ex mb) rm (fp_val (FpFormat ex mb) a * fp_val (FpFormat ex mb) b) r fl"
  using assms by (intro ieee_format.fp_mul_rounds ieee_format.intro)

lemma fp_mul_correct_witness:
  "rounds_to (FpFormat 5 10) RM_RNE (fp_val (FpFormat 5 10) 0x7BFF * fp_val (FpFormat 5 10) 0x4000) 0x7C00
    (no_flags\<lparr>overflow := True, inexact := True\<rparr>)"
  by (rule fp_mul_correct) code_simp+

text \<open>A fused multiply-add whose second factor is the format's 1.0 is \<open>fp_add\<close>, bit for bit
  and flag for flag, on every input (NaNs, infinities and signed zeros included).\<close>

theorem fp_fma_one_is_add:
  assumes "2 \<le> ex" "1 \<le> mb"
  shows "fp_fma a (push_bit mb (2 ^ (ex - 1) - 1)) c rm (FpFormat ex mb) = fp_add a c rm (FpFormat ex mb)"
  using assms by (intro ieee_format.fp_fma_one ieee_format.intro)

lemma fp_fma_one_is_add_witness:
  "fp_fma 0x80000001 (push_bit 23 (2 ^ (8 - 1) - 1)) 0x7F800001 RM_RUP (FpFormat 8 23) =
    fp_add 0x80000001 0x7F800001 RM_RUP (FpFormat 8 23)"
  by (rule fp_fma_one_is_add) simp_all

text \<open>C11: \<open>fp_fma\<close> gives a NaN exactly when an operand is one, the product is infinity times
  zero or an infinite product meets the opposite infinity; the NaN is the canonical quiet one;
  and \<open>invalid\<close> is raised exactly for a signalling operand or one of those two operations.\<close>

theorem fp_fma_nan_invalid:
  assumes "2 \<le> ex" "1 \<le> mb" "fp_fma a b c rm (FpFormat ex mb) = (r, fl)"
    and "decode a (FpFormat ex mb) = (ka, sa, ma, ca)" "decode b (FpFormat ex mb) = (kb, sb, m, cb)"
    and "decode c (FpFormat ex mb) = (kc, sc, mc, cc)"
    and "prod_inv = ((ka = KInf \<and> kb = KZero) \<or> (ka = KZero \<and> kb = KInf))"
    and "sum_inv = ((ka = KInf \<or> kb = KInf) \<and> kc = KInf \<and> sc \<noteq> sa XOR sb)"
    and "nan_in = (is_nan_kind ka \<or> is_nan_kind kb \<or> is_nan_kind kc)"
  shows "(if nan_in \<or> prod_inv \<or> sum_inv then is_nan r (FpFormat ex mb) \<and> r = QNAN (FpFormat ex mb)
      else \<not> is_nan r (FpFormat ex mb)) \<and>
    (invalid fl \<longleftrightarrow> ka = KSnan \<or> kb = KSnan \<or> kc = KSnan \<or> prod_inv \<or> (\<not> nan_in \<and> sum_inv))"
  using ieee_format.fp_fma_nan [OF ieee_format.intro [OF assms(1,2)] assms(3-6)] unfolding assms(7-9)
  by (simp split: if_splits)

lemma fp_fma_nan_invalid_witness:
  "(if False \<or> True \<or> False then is_nan 0x7E00 (FpFormat 5 10) \<and> 0x7E00 = QNAN (FpFormat 5 10)
      else \<not> is_nan 0x7E00 (FpFormat 5 10)) \<and>
    (invalid (no_flags\<lparr>invalid := True\<rparr>) \<longleftrightarrow> KInf = KSnan \<or> KZero = KSnan \<or> KZero = KSnan \<or> True \<or> (\<not> False \<and> False))"
  by (rule fp_fma_nan_invalid [where ex = 5 and mb = 10 and a = "0x7C00" and b = 0 and c = 0 and rm = RM_RNE
        and sa = 0 and ma = 0 and ca = 0 and sb = 0 and m = 0 and cb = "- 24" and sc = 0 and mc = 0 and cc = "- 24"])
    (code_simp | simp)+

text \<open>Addition and multiplication commute on every pair of bit patterns, flags included.\<close>

theorem fp_add_mul_commute:
  "fp_add a b rm fmt = fp_add b a rm fmt \<and> fp_mul a b rm fmt = fp_mul b a rm fmt"
  by (simp add: fp_add_comm [of a b] fp_mul_comm [of a b])

end
