(* ===== verification/PyFloat.thy ===== *)
theory PyFloat
  imports FpOps
begin

text \<open>
  Python's floats as the source uses them: binary64 bit patterns of the format
  \<open>FpFormat 11 52\<close>, with the correctly rounded true division of two integers and the
  truncating \<open>int(f)\<close>. The main lemma is that \<open>int(a / b)\<close>, the way the simulator divides,
  truncates the exact quotient for all 32-bit operands: the two roundings cannot reach the
  next integer.
\<close>

section \<open>binary64\<close>

definition FP64 :: fp_format where "FP64 = FpFormat 11 52"

interpretation fp64: ieee_format 11 52
  by unfold_locales simp_all

context ieee_format
begin

lemma representable:
  assumes m: "0 < m" "m < 2 ^ (mb + 1)" and c: "MIN_SCALE fmt \<le> c" "c \<le> MAX_SCALE" and s: "s = 0 \<or> s = 1"
  obtains y where "fp_finite fmt y" "fp_val fmt y = sgn_rat s * mag m c"
proof -
  have s': "0 \<le> s" "s \<le> 1" using s by auto
  have bl: "bit_length m \<le> int mb + 1"
    using bit_length_gt_iff [of m "mb + 1"] m by (smt (verit) of_nat_1 of_nat_add)
  define lsb where "lsb = max (c + bit_length m - 1 - int mb) (MIN_SCALE fmt)"
  have lsb: "lsb \<le> c" using bl c by (simp add: lsb_def)
  have al: "rp_align m c fmt = (shl m (c - lsb), 0, False, lsb)"
    unfolding rp_align_def Let_def fmt_sel(2) lsb_def [symmetric] using lsb by simp
  note k = rp_align_kept [OF m(1) al]
  have v: "mag (shl m (c - lsb)) lsb = mag m c" using mag_shift [OF lsb] by (simp add: shl_eq)
  obtain r fl where enc: "rp_encode s (shl m (c - lsb)) lsb False RM_RNE fmt = (r, fl)" by (metis surj_pair)
  have "lsb \<le> MAX_SCALE" using lsb c by simp
  from rp_encode_finite(1,2) [OF s' k this enc] show thesis using that v by simp
qed

lemma nearest_between:
  assumes r: "fp_finite fmt r" and cr: "correctly_rounded fmt RM_RNE (sgn_rat s * M) r"
    and M: "lo \<le> M" "M \<le> hi" and s: "s = 0 \<or> s = 1"
    and lo: "fp_finite fmt yl" "fp_val fmt yl = sgn_rat s * lo"
    and hi: "fp_finite fmt yh" "fp_val fmt yh = sgn_rat s * hi"
  shows "lo \<le> sgn_rat s * fp_val fmt r \<and> sgn_rat s * fp_val fmt r \<le> hi"
proof -
  have near: "\<bar>fp_val fmt r - sgn_rat s * M\<bar> \<le> \<bar>fp_val fmt y - sgn_rat s * M\<bar>" if "fp_finite fmt y" for y
    using cr r that by (simp add: correctly_rounded_def)
  have sg: "sgn_rat s = 1 \<or> sgn_rat s = - 1" by (simp add: sgn_rat_def)
  from near [OF lo(1)] near [OF hi(1)] show ?thesis
    using sg M unfolding lo hi by auto
qed

end

section \<open>True division and truncation\<close>

text \<open>\<open>a / b\<close> for integers \<open>a\<close> and \<open>b \<noteq> 0\<close> whose quotient is in range: at least 55 quotient
  bits and a sticky bit, rounded once.\<close>

definition py_truediv :: "int \<Rightarrow> int \<Rightarrow> int" where
  "py_truediv a b =
    (let sign = (if (a < 0) \<noteq> (b < 0) then 1 else 0); n = \<bar>a\<bar>; d = \<bar>b\<bar> in
     if n = 0 then fp_zero FP64 sign
     else
       (let sh = max 0 (55 + bit_length d - bit_length n); q = shl n sh div d; rm = shl n sh mod d
        in fst (round_pack sign (2 * q + (if rm \<noteq> 0 then 1 else 0)) (- sh - 1) RM_RNE FP64)))"

text \<open>\<open>int(f)\<close>.\<close>

definition py_int_of_float :: "int \<Rightarrow> py_error + int" where
  "py_int_of_float f =
    (case decode f FP64 of (k, s, m, c) \<Rightarrow>
       if is_nan_kind k then Inl ValueError
       else if k = KInf then Inl OverflowError
       else Inr ((if s \<noteq> 0 then - 1 else 1) * (if c \<ge> 0 then shl m c else shr m (- c))))"

lemma py_int_of_float_floor:
  assumes f: "fp_finite FP64 f" and s: "s = 0 \<or> s = 1"
    and b: "of_int n \<le> sgn_rat s * fp_val FP64 f" "sgn_rat s * fp_val FP64 f < of_int n + 1" and n: "0 \<le> n"
  shows "py_int_of_float f = Inr ((if s = 0 then 1 else - 1) * n)"
proof -
  obtain k s' m c where d: "decode f FP64 = (k, s', m, c)" by (metis prod_cases4)
  have fin: "k = KZero \<or> k = KFin" using f d by (simp add: fp_finite_def fp_kind_of_def)
  note df = fp64.decode_finite [of f k s' m c, folded FP64_def, OF d]
  have m: "0 \<le> m" using df(3) fin by simp
  have v: "fp_val FP64 f = sgn_rat s' * mag m c" using d by (simp add: fp_val_def)
  define t where "t = (if c \<ge> 0 then shl m c else shr m (- c))"
  have t: "of_int t \<le> mag m c \<and> mag m c < of_int t + 1"
  proof (cases "c \<ge> 0")
    case True
    then have "mag m c = of_int t" using mag_shift [of 0 c m] by (simp add: t_def shl_eq mag_def)
    then show ?thesis by simp
  next
    case False
    define j where "j = nat (- c)"
    have c: "c = - int j" using False by (simp add: j_def)
    have "mag m c = of_int m / 2 ^ j" by (simp add: mag_def c power_int_minus divide_inverse)
    moreover have "t = m div 2 ^ j" using False by (simp add: t_def shr_eq j_def)
    moreover have "of_int (m div 2 ^ j) \<le> (of_int m / 2 ^ j :: rat)"
      "(of_int m / 2 ^ j :: rat) < of_int (m div 2 ^ j) + 1"
      using floor_divide_of_int_eq [of m "2 ^ j", where 'a = rat] by (simp_all add: floor_eq_iff)
    ultimately show ?thesis by simp
  qed
  have mp: "0 \<le> mag m c" using m by (simp add: mag_def)
  have t0: "0 \<le> t" using m by (simp add: t_def shl_eq shr_eq pos_imp_zdiv_nonneg_iff)
  have s'01: "s' = 0 \<or> s' = 1" using df(1) .
  have eq: "py_int_of_float f = Inr ((if s' \<noteq> 0 then - 1 else 1) * t)"
    using fin by (auto simp: py_int_of_float_def d t_def is_nan_kind_def)
  show ?thesis
  proof (cases "s' = s")
    case True
    then have "sgn_rat s * fp_val FP64 f = mag m c" using v by (simp add: sgn_rat_def)
    then have "(of_int n :: rat) < of_int t + 1" "(of_int t :: rat) < of_int n + 1" using b t by linarith+
    then have "n = t" by linarith
    then show ?thesis using eq True s by auto
  next
    case False
    then have e: "sgn_rat s * fp_val FP64 f = - mag m c" using v s s'01 by (auto simp: sgn_rat_def)
    have "(0 :: rat) \<le> of_int n" using n by simp
    then have "mag m c = 0" "(of_int n :: rat) \<le> 0" using b(1) e mp by linarith+
    then have "n = 0" "(of_int t :: rat) \<le> 0" using n t by linarith+
    then have "n = 0" "t = 0" using t0 by simp_all
    then show ?thesis using eq by simp
  qed
qed

text \<open>The scaled quotient with its sticky bit lies between the neighbouring multiples of
  \<open>1 / 2 ^ k\<close> that enclose the exact quotient.\<close>

lemma sticky_quotient_bounds:
  fixes n d :: int
  assumes d: "0 < d" and n: "0 \<le> n" and sh: "k \<le> sh"
    and lo: "j * d \<le> n * 2 ^ k" and hi: "n * 2 ^ k \<le> j' * d"
  defines "q \<equiv> n * 2 ^ sh div d" and "e \<equiv> (if n * 2 ^ sh mod d \<noteq> 0 then 1 else 0 :: int)"
  shows "j * 2 ^ (sh - k) * 2 \<le> 2 * q + e" "2 * q + e \<le> j' * 2 ^ (sh - k) * 2"
proof -
  have e: "0 \<le> e" "e \<le> 1" by (simp_all add: e_def)
  have sp: "(2 :: int) ^ sh = 2 ^ k * 2 ^ (sh - k)" using sh by (simp add: power_add [symmetric])
  have lo': "j * 2 ^ (sh - k) * d \<le> n * 2 ^ sh"
    using mult_right_mono [OF lo, of "2 ^ (sh - k)"] by (simp add: sp algebra_simps)
  have hi': "n * 2 ^ sh \<le> j' * 2 ^ (sh - k) * d"
    using mult_right_mono [OF hi, of "2 ^ (sh - k)"] by (simp add: sp algebra_simps)
  have "j * 2 ^ (sh - k) \<le> q"
    unfolding q_def using zdiv_mono1 [OF lo' d] d by simp
  then show "j * 2 ^ (sh - k) * 2 \<le> 2 * q + e" using e by simp
  have qd: "q * d + n * 2 ^ sh mod d = n * 2 ^ sh" unfolding q_def by simp
  show "2 * q + e \<le> j' * 2 ^ (sh - k) * 2"
  proof (cases "n * 2 ^ sh mod d = 0")
    case True
    then have "q * d \<le> j' * 2 ^ (sh - k) * d" using qd hi' by simp
    then have "q \<le> j' * 2 ^ (sh - k)" using d by simp
    then show ?thesis using True by (simp add: e_def)
  next
    case False
    then have "0 < n * 2 ^ sh mod d" using pos_mod_sign [OF d, of "n * 2 ^ sh"] by linarith
    then have "q * d < j' * 2 ^ (sh - k) * d" using qd hi' by linarith
    then have "q < j' * 2 ^ (sh - k)" using d by simp
    then show ?thesis using e by simp
  qed
qed

lemma bit_length_31: "0 < x \<Longrightarrow> x \<le> 2 ^ 31 \<Longrightarrow> bit_length x \<le> 32"
  using bit_length_gt_iff [of x 32] by simp

lemma quotient_bracket:
  fixes n d :: int
  assumes n: "0 < n" "n \<le> 2 ^ 31" and d: "0 < d" "d \<le> 2 ^ 31"
  defines "sh \<equiv> max 0 (55 + bit_length d - bit_length n)"
  defines "mant \<equiv> 2 * (shl n sh div d) + (if shl n sh mod d \<noteq> 0 then 1 else 0)"
  obtains hi k where "0 < hi" "hi < 2 ^ 53" "k \<le> 32" "of_int (n div d) \<le> mag mant (- sh - 1)"
    "mag mant (- sh - 1) \<le> mag hi (- int k)" "mag hi (- int k) < of_int (n div d) + 1"
proof -
  define SH where "SH = nat sh"
  define k where "k = nat (bit_length d)"
  define N where "N = n div d"
  have SH: "sh = int SH" by (simp add: SH_def sh_def)
  have k: "k \<le> SH" "int k = bit_length d" "k \<le> 32"
    using bit_length_31 [OF n] bit_length_31 [OF d] by (auto simp: SH_def sh_def k_def)
  have kb: "d < 2 ^ k" using bit_length_less [of d] d by (simp add: k_def)
  have "k = Suc (nat (bit_length d - 1))" using bit_length_pos [OF d(1)] by (simp add: k_def)
  then have kb2: "2 ^ k \<le> 2 * d" using bit_length_le [OF d(1)] by simp
  have "n = d * N + n mod d" by (simp add: N_def)
  then have Nd: "N * d \<le> n" "n < (N + 1) * d"
    using pos_mod_bound [OF d(1), of n] pos_mod_sign [OF d(1), of n] by (simp_all add: algebra_simps)
  have N: "0 \<le> N" unfolding N_def using n d pos_imp_zdiv_nonneg_iff by simp
  define hi where "hi = (N + 1) * 2 ^ k - 1"
  have "1 * 2 ^ k \<le> ((N + 1) * d - n) * 2 ^ k" using Nd(2) by (intro mult_right_mono) simp_all
  then have hid: "n * 2 ^ k \<le> hi * d" using kb by (simp add: hi_def algebra_simps)
  have lod: "N * 2 ^ k * d \<le> n * 2 ^ k" using mult_right_mono [OF Nd(1), of "2 ^ k"] by (simp add: algebra_simps)
  have "1 * 2 \<le> (N + 1) * 2 ^ k" using N d kb by (intro mult_mono) simp_all
  then have hi0: "0 < hi" by (simp add: hi_def)
  have "(N + 1) * 2 ^ k \<le> (N + 1) * (2 * d)" using kb2 N by (intro mult_left_mono) simp_all
  also have "\<dots> \<le> 2 * n + 2 * d" using Nd(1) by (simp add: algebra_simps)
  finally have hi1: "hi < 2 ^ 53" using n d by (simp add: hi_def)
  have mant: "N * 2 ^ k * 2 ^ (SH - k) * 2 \<le> mant" "mant \<le> hi * 2 ^ (SH - k) * 2"
    unfolding mant_def shl_eq SH_def [symmetric]
    by (rule sticky_quotient_bounds [OF d(1) _ k(1) lod hid], use n in simp)+
  have sc: "mag x (- int k) = mag (x * 2 ^ (SH - k) * 2) (- sh - 1)" for x
  proof -
    have "nat (- int k - (- sh - 1)) = Suc (SH - k)" using k SH by simp
    then show ?thesis using mag_shift [of "- sh - 1" "- int k" x] k(1) SH by (simp add: ac_simps)
  qed
  have Nv: "of_int N = mag (N * 2 ^ k) (- int k)" by (simp add: mag_def power_int_minus)
  have mono: "mag x c \<le> mag y c" if "x \<le> y" for x y c using that by (simp add: mag_def mult_right_mono)
  have "mag hi (- int k) < mag ((N + 1) * 2 ^ k) (- int k)" by (simp add: mag_def hi_def)
  also have "\<dots> = of_int N + 1" by (simp add: mag_def power_int_minus)
  finally have "mag hi (- int k) < of_int N + 1" .
  moreover have "of_int N \<le> mag mant (- sh - 1)" unfolding Nv sc by (rule mono [OF mant(1)])
  moreover have "mag mant (- sh - 1) \<le> mag hi (- int k)" unfolding sc by (rule mono [OF mant(2)])
  ultimately show thesis using that hi0 hi1 k(3) unfolding N_def by blast
qed

lemma py_int_of_truediv:
  assumes a: "\<bar>a\<bar> \<le> 2 ^ 31" and b: "b \<noteq> 0" "\<bar>b\<bar> \<le> 2 ^ 31"
  shows "py_int_of_float (py_truediv a b) = Inr ((if (a < 0) \<noteq> (b < 0) then - 1 else 1) * (\<bar>a\<bar> div \<bar>b\<bar>))"
proof (cases "a = 0")
  case True
  have "py_int_of_float (fp_zero FP64 0) = Inr 0" "py_int_of_float (fp_zero FP64 1) = Inr 0" by code_simp+
  then show ?thesis using True by (auto simp: py_truediv_def)
next
  case False
  define s :: int where "s = (if (a < 0) \<noteq> (b < 0) then 1 else 0)"
  define n where "n = \<bar>a\<bar>"
  define d where "d = \<bar>b\<bar>"
  have s: "s = 0 \<or> s = 1" by (simp add: s_def)
  have n: "0 < n" "n \<le> 2 ^ 31" using False a by (simp_all add: n_def)
  have d: "0 < d" "d \<le> 2 ^ 31" using b by (simp_all add: d_def)
  define sh where "sh = max 0 (55 + bit_length d - bit_length n)"
  define mant where "mant = 2 * (shl n sh div d) + (if shl n sh mod d \<noteq> 0 then 1 else 0)"
  obtain hi k where hi: "0 < hi" "hi < 2 ^ 53" "k \<le> 32" "of_int (n div d) \<le> mag mant (- sh - 1)"
    "mag mant (- sh - 1) \<le> mag hi (- int k)" "mag hi (- int k) < of_int (n div d) + 1"
    using quotient_bracket [OF n d] unfolding mant_def sh_def by metis
  have N: "0 \<le> n div d" "n div d < 2 ^ 53"
    using n d pos_imp_zdiv_nonneg_iff [of d n] zdiv_mono2 [of n 1 d] by simp_all
  obtain r fl where r: "round_pack s mant (- sh - 1) RM_RNE FP64 = (r, fl)" by (metis surj_pair)
  have pr: "py_truediv a b = r"
    using r False unfolding py_truediv_def Let_def n_def [symmetric] d_def [symmetric] sh_def [symmetric]
      mant_def [symmetric] s_def [symmetric] using n by simp
  have ms: "MIN_SCALE FP64 = - 1074" "fp64.MAX_SCALE = 971"
    by (simp_all add: FP64_def FpFormat_def fp64.MAX_SCALE_def)
  obtain yh where yh: "fp_finite FP64 yh" "fp_val FP64 yh = sgn_rat s * mag hi (- int k)"
    using fp64.representable [of hi "- int k" s] hi(1-3) s ms by (auto simp: FP64_def)
  obtain yl where yl: "fp_finite FP64 yl" "fp_val FP64 yl = sgn_rat s * of_int (n div d)"
  proof (cases "n div d = 0")
    case True
    then show thesis using that [of "fp_zero FP64 0"] fp64.finite_special(4,5) [of 0] by (simp add: FP64_def)
  next
    case False
    then show thesis
      using fp64.representable [of "n div d" 0 s] N s ms that by (auto simp: FP64_def mag_def)
  qed
  have mp: "0 < mant"
  proof (rule ccontr)
    assume "\<not> 0 < mant"
    moreover have "0 \<le> shl n sh div d" using n d by (simp add: shl_eq pos_imp_zdiv_nonneg_iff)
    ultimately have "shl n sh div d = 0" "shl n sh mod d = 0" by (auto simp: mant_def split: if_splits)
    then have "shl n sh = 0" by (metis div_mult_mod_eq add.right_neutral mult_zero_left)
    then show False using n by (simp add: shl_eq)
  qed
  note pk = fp64.round_pack_packed [OF s mp, folded FP64_def, OF r, unfolded fp64.packed_def, folded FP64_def]
  have fin: "fp_finite FP64 r"
  proof (rule ccontr)
    assume "\<not> fp_finite FP64 r"
    then have "rne_limit FP64 \<le> \<bar>sgn_rat s * mag mant (- sh - 1)\<bar>"
      using pk by (simp add: correctly_rounded_def split: if_splits)
    moreover have "\<bar>sgn_rat s * mag mant (- sh - 1)\<bar> = mag mant (- sh - 1)"
      using mp by (simp add: sgn_rat_def mag_def abs_mult)
    moreover have "(of_int (n div d) :: rat) < of_int (2 ^ 53)" using N by (simp only: of_int_less_iff)
    ultimately have "rne_limit FP64 < 2 ^ 53 + 1" using hi(5,6) by simp
    then show False by (simp add: rne_limit_def FP64_def FpFormat_def)
  qed
  have "of_int (n div d) \<le> sgn_rat s * fp_val FP64 r \<and> sgn_rat s * fp_val FP64 r \<le> mag hi (- int k)"
    using fp64.nearest_between [folded FP64_def, OF fin _ hi(4,5) s yl yh] pk by blast
  then have "py_int_of_float r = Inr ((if s = 0 then 1 else - 1) * (n div d))"
    using py_int_of_float_floor [OF fin s _ _ N(1)] hi(6) by force
  then show ?thesis unfolding pr by (simp add: s_def n_def d_def)
qed

section \<open>The conversions of the simulator\<close>

text \<open>
  Float arithmetic is the exact model of \<open>FpRef\<close> at binary64. A NaN is the canonical quiet
  one: Python leaves its sign and payload to the machine.
\<close>

definition py_fadd :: "int \<Rightarrow> int \<Rightarrow> int" where
  "py_fadd a b = fst (fp_add a b RM_RNE FP64)"

definition py_fmul :: "int \<Rightarrow> int \<Rightarrow> int" where
  "py_fmul a b = fst (fp_mul a b RM_RNE FP64)"

text \<open>The float \<open>m * 2 ** c\<close> for a small integer \<open>m\<close>.\<close>

definition py_float :: "int \<Rightarrow> int \<Rightarrow> int" where
  "py_float m c =
    (if m = 0 then fp_zero FP64 0
     else fst (round_pack (if m < 0 then 1 else 0) \<bar>m\<bar> c RM_RNE FP64))"

definition fp8_to_float :: "int \<Rightarrow> int" where
  "fp8_to_float b =
    (let s = (if b AND 0x80 \<noteq> 0 then py_float (- 1) 0 else py_float 1 0);
         e = drop_bit 3 b AND 0xF; m = b AND 7
     in if e = 0xF \<and> m = 7 then QNAN FP64
        else if e = 0 then py_fmul (py_fmul s (py_truediv m 8)) (py_float 1 (- 6))
        else py_fmul (py_fmul s (py_fadd (py_float 1 0) (py_truediv m 8))) (py_float 1 (e - 7)))"

text \<open>\<open>struct.unpack("<f")\<close> and \<open>struct.pack("<f")\<close> on the 32-bit pattern.\<close>

definition unpack_f32 :: "int \<Rightarrow> int" where
  "unpack_f32 w =
    (case decode w FP32 of (k, s, m, c) \<Rightarrow>
       if is_nan_kind k then QNAN FP64
       else if k = KInf then fp_inf FP64 s
       else if k = KZero then fp_zero FP64 s
       else fst (round_pack s m c RM_RNE FP64))"

definition pack_f32 :: "int \<Rightarrow> py_error + int" where
  "pack_f32 f =
    (case decode f FP64 of (k, s, m, c) \<Rightarrow>
       if is_nan_kind k then Inr (QNAN FP32)
       else if k = KInf then Inr (fp_inf FP32 s)
       else if k = KZero then Inr (fp_zero FP32 s)
       else (let (r, fl) = round_pack s m c RM_RNE FP32
             in if overflow fl then Inl OverflowError else Inr r))"

text \<open>The comparison \<open>a < b\<close> of two doubles, on a common scale.\<close>

definition scaled :: "int \<Rightarrow> int \<Rightarrow> int" where
  "scaled f e = (case decode f FP64 of (k, s, m, c) \<Rightarrow> (if s \<noteq> 0 then - 1 else 1) * shl m (c - e))"

definition py_flt :: "int \<Rightarrow> int \<Rightarrow> bool" where
  "py_flt a b =
    (case (decode a FP64, decode b FP64) of ((ka, sa, ma, ca), (kb, sb, mb, cb)) \<Rightarrow>
       if is_nan_kind ka \<or> is_nan_kind kb then False
       else if ka = KInf then sa \<noteq> 0 \<and> \<not> (kb = KInf \<and> sb \<noteq> 0)
       else if kb = KInf then sb = 0
       else scaled a (min ca cb) < scaled b (min ca cb))"

end
