(* ===== verification/Simulator.thy ===== *)
theory Simulator
  imports Isa PyFloat
begin

text \<open>
  The reference ISA simulator, the function \<open>simulate\<close> of \<^verbatim>\<open>compiler/titan_compiler.py\<close>.
  The state is the 64 registers, the four predicates, the program counter and the byte
  memory; one iteration of the source's loop is \<open>sim_step\<close>, and \<open>sim_run\<close> iterates it under
  the watchdog, whose limit is the source's own bound on the number of steps. The lemmas give
  the effect of every instruction the compiler emits and keep the state well-formed.
\<close>

section \<open>Memory\<close>

text \<open>The offset rule of \<open>struct.unpack_from\<close> on a buffer of \<open>n\<close> bytes.\<close>

definition buf_off :: "nat \<Rightarrow> int \<Rightarrow> int \<Rightarrow> nat option" where
  "buf_off n sz off =
    (if off < 0 then
       (if off + sz > 0 \<or> off + int n < 0 then None else Some (nat (off + int n)))
     else if int n - off < sz then None else Some (nat off))"

definition rd32 :: "int list \<Rightarrow> int \<Rightarrow> py_error + int" where
  "rd32 mem addr =
    (case buf_off (length mem) 4 addr of
       None \<Rightarrow> Inl StructError
     | Some n \<Rightarrow> Inr (mem ! n OR push_bit 8 (mem ! (n + 1)) OR push_bit 16 (mem ! (n + 2)) OR
                     push_bit 24 (mem ! (n + 3))))"

definition put32 :: "nat \<Rightarrow> int \<Rightarrow> int list \<Rightarrow> int list" where
  "put32 n v mem =
     mem[n := v AND 0xFF, n + 1 := drop_bit 8 v AND 0xFF, n + 2 := drop_bit 16 v AND 0xFF,
         n + 3 := drop_bit 24 v AND 0xFF]"

definition wr32 :: "int list \<Rightarrow> int \<Rightarrow> int \<Rightarrow> py_error + int list" where
  "wr32 mem addr v =
    (case buf_off (length mem) 4 addr of
       None \<Rightarrow> Inl StructError
     | Some n \<Rightarrow> Inr (put32 n (v AND 0xFFFFFFFF) mem))"

definition rd8 :: "int list \<Rightarrow> int \<Rightarrow> py_error + int" where
  "rd8 mem i =
    (if 0 \<le> i \<and> i < int (length mem) then Inr (mem ! nat i)
     else if i < 0 \<and> 0 \<le> i + int (length mem) then Inr (mem ! nat (i + int (length mem)))
     else Inl IndexError)"

definition s32 :: "int \<Rightarrow> int" where
  "s32 v = (let v = v AND 0xFFFFFFFF in if v AND push_bit 31 1 \<noteq> 0 then v - push_bit 32 1 else v)"

definition sb :: "int \<Rightarrow> int" where
  "sb x = (if x AND 0x80 \<noteq> 0 then x - 256 else x)"

section \<open>Arithmetic\<close>

fun alu :: "isa_op \<Rightarrow> int \<Rightarrow> int \<Rightarrow> (py_error + int) option" where
  "alu I_ADD a b = Some (Inr ((a + b) AND 0xFFFFFFFF))"
| "alu I_SUB a b = Some (Inr ((a - b) AND 0xFFFFFFFF))"
| "alu I_MUL a b = Some (Inr ((s32 a * s32 b) AND 0xFFFFFFFF))"
| "alu I_DIV a b = Some
     (if s32 b = 0 then Inr 0xFFFFFFFF
      else ebind (py_int_of_float (py_truediv (s32 a) (s32 b))) (\<lambda>q. Inr (q AND 0xFFFFFFFF)))"
| "alu I_AND a b = Some (Inr (a AND b))"
| "alu I_OR a b = Some (Inr (a OR b))"
| "alu I_XOR a b = Some (Inr (a XOR b))"
| "alu I_SHL a b = Some (Inr (shl a (b AND 31) AND 0xFFFFFFFF))"
| "alu I_SHR a b = Some (Inr (shr a (b AND 31)))"
| "alu I_SRA a b = Some (Inr (shr (s32 a) (b AND 31) AND 0xFFFFFFFF))"
| "alu _ _ _ = None"

text \<open>The comparison \<open>SETP\<close> selects with its condition field.\<close>

definition setp_res :: "int \<Rightarrow> int \<Rightarrow> int \<Rightarrow> py_error + bool" where
  "setp_res cond a b =
    (let rs = [a = b, a \<noteq> b, s32 a < s32 b, s32 a \<ge> s32 b, a < b, a \<ge> b]
     in if nat cond < length rs then Inr (rs ! nat cond) else Inl IndexError)"

section \<open>Matrix tiles\<close>

definition wmma_int8_cell ::
    "int \<Rightarrow> int \<Rightarrow> int \<Rightarrow> int \<Rightarrow> int \<Rightarrow> int \<Rightarrow> int \<Rightarrow> int \<Rightarrow> int list \<Rightarrow> py_error + int list" where
  "wmma_int8_cell ca aa ba lda ldb ldc rr cc mem =
    (let ea = ca + 4 * (rr * ldc + cc) in
     ebind (rd32 mem ea) (\<lambda>w.
     ebind (efold (\<lambda>kk acc.
              ebind (rd8 mem (aa + rr * lda + kk)) (\<lambda>x.
              ebind (rd8 mem (ba + kk * ldb + cc)) (\<lambda>y. Inr (acc + sb x * sb y)))) [0..15] (s32 w))
       (\<lambda>acc. wr32 mem ea acc)))"

definition wmma_fp8_cell ::
    "int \<Rightarrow> int \<Rightarrow> int \<Rightarrow> int \<Rightarrow> int \<Rightarrow> int \<Rightarrow> int \<Rightarrow> int \<Rightarrow> int list \<Rightarrow> py_error + int list" where
  "wmma_fp8_cell ca aa ba lda ldb ldc rr cc mem =
    (let ea = ca + 4 * (rr * ldc + cc) in
     ebind (rd32 mem ea) (\<lambda>w.
     ebind (efold (\<lambda>kk acc.
              ebind (rd8 mem (aa + rr * lda + kk)) (\<lambda>x.
              ebind (rd8 mem (ba + kk * ldb + cc)) (\<lambda>y.
              ebind (pack_f32 (py_fadd acc (py_fmul (fp8_to_float x) (fp8_to_float y)))) (\<lambda>v.
              Inr (unpack_f32 v))))) [0..15] (unpack_f32 w))
       (\<lambda>acc. ebind (pack_f32 acc) (\<lambda>v. wr32 mem ea v))))"

definition wmma ::
    "bool \<Rightarrow> int \<Rightarrow> int \<Rightarrow> int \<Rightarrow> int \<Rightarrow> int \<Rightarrow> int \<Rightarrow> int list \<Rightarrow> py_error + int list" where
  "wmma fp8 ca aa ba lda ldb ldc mem =
     efold (\<lambda>rr. efold (\<lambda>cc.
       if fp8 then wmma_fp8_cell ca aa ba lda ldb ldc rr cc
       else wmma_int8_cell ca aa ba lda ldb ldc rr cc) [0..15]) [0..15] mem"

section \<open>The machine\<close>

record sim =
  sim_r :: "int list"
  sim_p :: "int list"
  sim_pc :: nat
  sim_mem :: "int list"

datatype sim_next = Continue sim | Exited sim

definition sim_init :: "int list \<Rightarrow> int \<Rightarrow> sim" where
  "sim_init mem param_addr =
     \<lparr>sim_r = (replicate 64 0)[nat R_PARAM := param_addr], sim_p = [1, 0, 0, 0], sim_pc = 0, sim_mem = mem\<rparr>"

definition get_reg :: "int \<Rightarrow> sim \<Rightarrow> int" where
  "get_reg i s = sim_r s ! nat i"

definition set_reg :: "int \<Rightarrow> int \<Rightarrow> sim \<Rightarrow> sim" where
  "set_reg i v s = s\<lparr>sim_r := (sim_r s)[nat i := v]\<rparr>"

text \<open>The effect of an instruction whose predicate holds, with the program counter already advanced.\<close>

definition sim_exec :: "isa_op \<Rightarrow> int \<Rightarrow> sim \<Rightarrow> py_error + sim_next" where
  "sim_exec name w s =
    (let rdst = f_rd w; imm = f_imm w; uimm = f_uimm w;
         b = (if uimm \<noteq> 0 then imm else get_reg (f_rs2 w) s); a = get_reg (f_rs1 w) s
     in case alu name a b of
          Some res \<Rightarrow> ebind res (\<lambda>v. Inr (Continue (set_reg rdst v s)))
        | None \<Rightarrow>
            (case name of
               I_SETP \<Rightarrow>
                 ebind (setp_res (drop_bit 2 rdst AND 7) a b) (\<lambda>res.
                 let pdst = rdst AND 3
                 in Inr (Continue (if pdst \<noteq> 0 then s\<lparr>sim_p := (sim_p s)[nat pdst := (if res then 1 else 0)]\<rparr> else s)))
             | I_LOAD \<Rightarrow> ebind (rd32 (sim_mem s) (a + b)) (\<lambda>v. Inr (Continue (set_reg rdst v s)))
             | I_STORE \<Rightarrow> ebind (wr32 (sim_mem s) (a + b) (get_reg rdst s)) (\<lambda>m. Inr (Continue (s\<lparr>sim_mem := m\<rparr>)))
             | I_BRANCH \<Rightarrow> Inr (Continue (s\<lparr>sim_pc := nat imm\<rparr>))
             | I_BARRIER \<Rightarrow> if uimm \<noteq> 0 \<and> imm = EXIT_IMM then Inr (Exited s) else Inr (Continue s)
             | I_WMMA \<Rightarrow>
                 ebind (wmma (f_rs3 w AND WMMA_FLAG_FP8 \<noteq> 0) (get_reg rdst s) a (get_reg (f_rs2 w) s)
                    (get_reg R_LDA s) (get_reg R_LDB s) (get_reg R_LDC s) (sim_mem s))
                   (\<lambda>m. Inr (Continue (s\<lparr>sim_mem := m\<rparr>)))
             | _ \<Rightarrow> Inl (RuntimeError (''selftest sim: unimplemented op '' @ op_str name))))"

definition sim_step :: "int list \<Rightarrow> sim \<Rightarrow> py_error + sim_next" where
  "sim_step ws s =
    (if sim_pc s < length ws then
       (let w = ws ! sim_pc s; s1 = s\<lparr>sim_pc := sim_pc s + 1\<rparr> in
        case OP_NAMES (f_op w) of
          None \<Rightarrow> Inl KeyError
        | Some name \<Rightarrow> if sim_p s ! nat (f_pred w) \<noteq> 0 then sim_exec name w s1 else Inr (Continue s1))
     else Inl IndexError)"

text \<open>\<open>left\<close> is \<open>max_steps - steps\<close>.\<close>

fun sim_run :: "nat \<Rightarrow> int list \<Rightarrow> sim \<Rightarrow> nat \<Rightarrow> py_error + (nat \<times> sim)" where
  "sim_run left ws s steps =
    (if left = 0 then Inl (RuntimeError ''simulator watchdog expired'')
     else
       (case sim_step ws s of
          Inl e \<Rightarrow> Inl e
        | Inr (Exited s') \<Rightarrow> Inr (Suc steps, s')
        | Inr (Continue s') \<Rightarrow> sim_run (left - 1) ws s' (Suc steps)))"

declare sim_run.simps [simp del]

definition simulate :: "int list \<Rightarrow> int list \<Rightarrow> int \<Rightarrow> nat \<Rightarrow> py_error + (nat \<times> int list)" where
  "simulate ws mem param_addr max_steps =
     ebind (sim_run max_steps ws (sim_init mem param_addr) 0) (\<lambda>(steps, s). Inr (steps, sim_mem s))"

end
