(* ===== verification/SimSteps.thy ===== *)
theory SimSteps
  imports Simulator Assembler "HOL-Library.Signed_Division"
begin

text \<open>
  The instructions of the simulator as operations on machine words, and runs of code. A
  register holds \<open>uint\<close> of a \<open>32 word\<close>; the integer formulas of \<open>simulate\<close> are then the
  word operations \<open>+\<close>, \<open>-\<close>, \<open>*\<close>, \<open>sdiv\<close>, \<open>AND\<close>, shifts and signed comparison. \<open>steps\<close> is
  the reflexive transitive closure of one continuing step; \<open>seg ws k code\<close> says that
  \<open>code\<close> lies in the program at address \<open>k\<close>.
\<close>

section \<open>Arithmetic on words\<close>

lemma and_FFFFFFFF: "(x :: int) AND 0xFFFFFFFF = uint (word_of_int x :: 32 word)"
  by (simp add: mask_simps uint_word_of_int take_bit_eq_mod)

lemma uint_range32: "0 \<le> uint (w :: 32 word)" "uint (w :: 32 word) < 4294967296"
  using uint_bounded [of w] by simp_all

lemma s32_uint: "s32 (uint (w :: 32 word)) = sint w"
proof -
  have "uint w AND 0xFFFFFFFF = uint w" by (simp add: and_FFFFFFFF)
  moreover have "uint w AND push_bit 31 1 \<noteq> 0 \<longleftrightarrow> bit w 31"
    by (simp add: push_bit_eq_mult and_exp_eq_0_iff_not_bit [of _ 31, simplified] bit_uint_iff)
  moreover have "sint w = (if bit w 31 then uint w - 4294967296 else uint w)"
    using signed_take_bit_eq_take_bit_minus [of 31 "uint w"]
    by (simp add: sint_uint bit_uint_iff take_bit_int_eq_self_iff uint_range32 of_bool_def)
  ultimately show ?thesis by (simp add: s32_def Let_def push_bit_eq_mult)
qed

definition word_div :: "32 word \<Rightarrow> 32 word \<Rightarrow> 32 word" where
  "word_div a b = (if b = 0 then - 1 else word_of_int (sint a sdiv sint b))"

definition word_sh :: "32 word \<Rightarrow> nat" where
  "word_sh b = unat b mod 32"

lemma sh_and_31: "uint (b :: 32 word) AND 31 = int (word_sh b)"
proof -
  have "uint b AND 31 = uint b mod 32" unfolding mask_simps take_bit_eq_mod by simp
  then show ?thesis by (simp add: word_sh_def zmod_int)
qed

lemma sint_range32: "- 2147483648 \<le> sint (w :: 32 word)" "sint (w :: 32 word) < 2147483648"
  using sint_greater_eq [of w] sint_less [of w] by simp_all

fun word_alu :: "isa_op \<Rightarrow> 32 word \<Rightarrow> 32 word \<Rightarrow> 32 word" where
  "word_alu I_ADD a b = a + b"
| "word_alu I_SUB a b = a - b"
| "word_alu I_MUL a b = a * b"
| "word_alu I_DIV a b = word_div a b"
| "word_alu I_AND a b = a AND b"
| "word_alu I_OR a b = a OR b"
| "word_alu I_XOR a b = a XOR b"
| "word_alu I_SHL a b = push_bit (word_sh b) a"
| "word_alu I_SHR a b = drop_bit (word_sh b) a"
| "word_alu I_SRA a b = signed_drop_bit (word_sh b) a"
| "word_alu _ a b = 0"

definition alu_op :: "isa_op \<Rightarrow> bool" where
  "alu_op k \<longleftrightarrow> k \<in> {I_ADD, I_SUB, I_MUL, I_DIV, I_AND, I_OR, I_XOR, I_SHL, I_SHR, I_SRA}"

lemma alu_word:
  assumes "alu_op k"
  shows "alu k (uint a) (uint b) = Some (Inr (uint (word_alu k a b)))"
proof -
  have div: "alu I_DIV (uint a) (uint b) = Some (Inr (uint (word_div a b)))"
  proof (cases "b = 0")
    case True
    moreover have "uint (- 1 :: 32 word) = 4294967295" by (simp add: unsigned_minus_1_eq_mask mask_eq_exp_minus_1)
    ultimately show ?thesis by (simp add: word_div_def s32_def)
  next
    case False
    have nz: "sint b \<noteq> 0" using False by (metis signed_eq_0_iff)
    have "\<bar>sint a\<bar> \<le> 2 ^ 31" "\<bar>sint b\<bar> \<le> 2 ^ 31"
      using sint_range32 [of a] sint_range32 [of b] by auto
    from py_int_of_truediv [OF this(1) nz this(2)]
    have "py_int_of_float (py_truediv (sint a) (sint b)) = Inr (sint a sdiv sint b)"
      by (auto simp: signed_divide_int_def sgn_if)
    then show ?thesis using False nz by (simp add: word_div_def s32_uint and_FFFFFFFF)
  qed
  have shl: "word_of_int (push_bit n (uint a)) = push_bit n a" for n
    by (rule bit_word_eqI) (auto simp: bit_simps)
  have sra: "word_of_int (drop_bit n (sint a)) = signed_drop_bit n a" for n
  proof (rule bit_word_eqI)
    fix i
    assume "i < LENGTH(32)"
    then show "bit (word_of_int (drop_bit n (sint a)) :: 32 word) i \<longleftrightarrow> bit (signed_drop_bit n a) i"
      by (cases "n + i = 31") (auto simp: bit_simps min_def)
  qed
  have shr: "uint (drop_bit n a) = drop_bit n (uint a)" for n
    using uint_lt2p [of a] by (simp add: unsigned_drop_bit_eq take_bit_id)
  show ?thesis
    using assms div unfolding alu_op_def
    by (auto simp: and_FFFFFFFF s32_uint sh_and_31 shl_def shr_def shl sra shr uint_and uint_or uint_xor)
qed

section \<open>Fields of emitted words\<close>

definition is_reg :: "int \<Rightarrow> bool" where
  "is_reg i \<longleftrightarrow> 0 \<le> i \<and> i < 64"

lemma is_reg_pool: "i \<in> set R_POOL \<Longrightarrow> is_reg i \<and> i \<noteq> 0 \<and> i \<noteq> 1"
  by (auto simp: R_POOL_iff is_reg_def)

lemma is_reg_consts [simp]: "is_reg R_ZERO" "is_reg R_PARAM" "is_reg 0" "is_reg 1"
  by (simp_all add: is_reg_def R_ZERO_def R_PARAM_def)

lemma take_bit_reg: "is_reg i \<Longrightarrow> take_bit 6 i = i"
  by (simp add: is_reg_def take_bit_id)

lemma OPS_bounds: "0 \<le> OPS k \<and> OPS k < 32"
  by (cases k) simp_all

lemma iw_fields:
  assumes "is_reg rd" "is_reg rs1" "0 \<le> imm" "imm \<le> 0xFFF"
  shows "f_op (iw k rd rs1 imm) = OPS k" "f_rd (iw k rd rs1 imm) = rd" "f_rs1 (iw k rd rs1 imm) = rs1"
    "f_imm (iw k rd rs1 imm) = imm" "f_pred (iw k rd rs1 imm) = 0" "f_uimm (iw k rd rs1 imm) = 1"
  using enc_i_fields [OF _ _ iw_enc [OF assms(3,4)], of k rd rs1] OPS_bounds [of k] assms
  by (simp_all add: take_bit_reg)

lemma rw_fields:
  assumes "is_reg rd" "is_reg rs1" "is_reg rs2"
  shows "f_op (rw k rd rs1 rs2) = OPS k" "f_rd (rw k rd rs1 rs2) = rd" "f_rs1 (rw k rd rs1 rs2) = rs1"
    "f_rs2 (rw k rd rs1 rs2) = rs2" "f_pred (rw k rd rs1 rs2) = 0" "f_uimm (rw k rd rs1 rs2) = 0"
  using enc_r_fields [of "OPS k" rd rs1 rs2 0 0] OPS_bounds [of k] assms
  by (simp_all add: take_bit_reg rw_def)

section \<open>Single steps\<close>

text \<open>A machine in range: 64 registers, 4 predicates, \<open>P0\<close> true, byte memory.\<close>

definition byte_mem :: "int list \<Rightarrow> bool" where
  "byte_mem m \<longleftrightarrow> (\<forall>x \<in> set m. 0 \<le> x \<and> x < 256)"

definition sim_ok :: "sim \<Rightarrow> bool" where
  "sim_ok s \<longleftrightarrow> length (sim_r s) = 64 \<and> length (sim_p s) = 4 \<and> sim_p s ! 0 = 1 \<and> byte_mem (sim_mem s)"

definition has_reg :: "sim \<Rightarrow> int \<Rightarrow> 32 word \<Rightarrow> bool" where
  "has_reg s i w \<longleftrightarrow> get_reg i s = uint w"

definition put_reg :: "int \<Rightarrow> 32 word \<Rightarrow> sim \<Rightarrow> sim" where
  "put_reg i w s = set_reg i (uint w) (s\<lparr>sim_pc := sim_pc s + 1\<rparr>)"

lemma get_set_reg [simp]:
  "length (sim_r s) = 64 \<Longrightarrow> is_reg i \<Longrightarrow> is_reg j \<Longrightarrow> get_reg j (set_reg i v s) = (if i = j then v else get_reg j s)"
  by (auto simp: get_reg_def set_reg_def is_reg_def nth_list_update)

lemma get_reg_pc [simp]: "get_reg i (s\<lparr>sim_pc := k\<rparr>) = get_reg i s"
  "get_reg i (s\<lparr>sim_mem := m\<rparr>) = get_reg i s" "get_reg i (s\<lparr>sim_p := p\<rparr>) = get_reg i s"
  by (simp_all add: get_reg_def)

lemma set_reg_sel [simp]:
  "sim_pc (set_reg i v s) = sim_pc s" "sim_mem (set_reg i v s) = sim_mem s" "sim_p (set_reg i v s) = sim_p s"
  "length (sim_r (set_reg i v s)) = length (sim_r s)"
  by (simp_all add: set_reg_def)

lemma put_reg_simps [simp]:
  "sim_pc (put_reg i w s) = sim_pc s + 1" "sim_mem (put_reg i w s) = sim_mem s" "sim_p (put_reg i w s) = sim_p s"
  "sim_ok (put_reg i w s) = sim_ok s"
  by (simp_all add: put_reg_def sim_ok_def)

lemma has_reg_put [simp]:
  "sim_ok s \<Longrightarrow> is_reg i \<Longrightarrow> is_reg j \<Longrightarrow> has_reg (put_reg i w s) j v = (if i = j then v = w else has_reg s j v)"
  by (auto simp: has_reg_def put_reg_def sim_ok_def word_uint_eq_iff)

lemma get_reg_put: "sim_ok s \<Longrightarrow> is_reg i \<Longrightarrow> is_reg j \<Longrightarrow> get_reg j (put_reg i w s) = (if i = j then uint w else get_reg j s)"
  by (auto simp: put_reg_def sim_ok_def)

lemma sim_step_exec:
  assumes "sim_ok s" "sim_pc s < length ws" "ws ! sim_pc s = w" "f_op w = OPS k" "f_pred w = 0"
  shows "sim_step ws s = sim_exec k w (s\<lparr>sim_pc := sim_pc s + 1\<rparr>)"
  using assms by (simp add: sim_step_def Let_def OP_NAMES_OPS sim_ok_def)

lemma step_alu_i:
  assumes "sim_ok s" "sim_pc s < length ws" "ws ! sim_pc s = iw k rd rs1 imm" "alu_op k"
    and "is_reg rd" "is_reg rs1" "0 \<le> imm" "imm \<le> 0xFFF" "has_reg s rs1 a"
  shows "sim_step ws s = Inr (Continue (put_reg rd (word_alu k a (word_of_int imm)) s))"
proof -
  have "uint (word_of_int imm :: 32 word) = imm" using assms(7,8) by (simp add: uint_word_of_int)
  then have "alu k (uint a) imm = Some (Inr (uint (word_alu k a (word_of_int imm))))"
    using alu_word [OF assms(4), of a "word_of_int imm"] by simp
  then show ?thesis
    unfolding sim_step_exec [OF assms(1-3) iw_fields(1,5) [OF assms(5-8)]]
    using assms by (simp add: sim_exec_def Let_def iw_fields has_reg_def put_reg_def)
qed

lemma step_alu_r:
  assumes "sim_ok s" "sim_pc s < length ws" "ws ! sim_pc s = rw k rd rs1 rs2" "alu_op k"
    and "is_reg rd" "is_reg rs1" "is_reg rs2" "has_reg s rs1 a" "has_reg s rs2 b"
  shows "sim_step ws s = Inr (Continue (put_reg rd (word_alu k a b) s))"
proof -
  note f = rw_fields [OF assms(5-7), of k]
  show ?thesis
    unfolding sim_step_exec [OF assms(1-3) f(1,5)]
    using assms alu_word [OF assms(4), of a b] by (simp add: sim_exec_def Let_def f has_reg_def put_reg_def)
qed

lemma step_load:
  assumes "sim_ok s" "sim_pc s < length ws" "ws ! sim_pc s = rw I_LOAD rd rs1 rs2"
    and "is_reg rd" "is_reg rs1" "is_reg rs2" "has_reg s rs1 a" "has_reg s rs2 b"
    and "rd32 (sim_mem s) (uint a + uint b) = Inr (uint v)"
  shows "sim_step ws s = Inr (Continue (put_reg rd v s))"
proof -
  note f = rw_fields [OF assms(4-6), of I_LOAD]
  show ?thesis
    unfolding sim_step_exec [OF assms(1-3) f(1,5)]
    using assms by (simp add: sim_exec_def Let_def f has_reg_def put_reg_def)
qed

lemma step_store:
  assumes "sim_ok s" "sim_pc s < length ws" "ws ! sim_pc s = rw I_STORE rd rs1 rs2"
    and "is_reg rd" "is_reg rs1" "is_reg rs2" "has_reg s rd v" "has_reg s rs1 a" "has_reg s rs2 b"
    and "wr32 (sim_mem s) (uint a + uint b) (uint v) = Inr m"
  shows "sim_step ws s = Inr (Continue (s\<lparr>sim_pc := sim_pc s + 1, sim_mem := m\<rparr>))"
proof -
  note f = rw_fields [OF assms(4-6), of I_STORE]
  show ?thesis
    unfolding sim_step_exec [OF assms(1-3) f(1,5)]
    using assms by (simp add: sim_exec_def Let_def f has_reg_def)
qed

lemma step_load_param:
  assumes "sim_ok s" "sim_pc s < length ws" "ws ! sim_pc s = iw I_LOAD rd R_PARAM imm"
    and "is_reg rd" "0 \<le> imm" "imm \<le> 0xFFF" "rd32 (sim_mem s) (get_reg R_PARAM s + imm) = Inr (uint v)"
  shows "sim_step ws s = Inr (Continue (put_reg rd v s))"
proof -
  note f = iw_fields [OF assms(4) is_reg_consts(2) assms(5,6), of I_LOAD]
  show ?thesis
    unfolding sim_step_exec [OF assms(1-3) f(1,5)]
    using assms by (simp add: sim_exec_def Let_def f put_reg_def)
qed

text \<open>The loop test \<open>SETP.GE p1, a, b\<close>.\<close>

definition setp_ge_word :: "int \<Rightarrow> int \<Rightarrow> int" where
  "setp_ge_word a b = rw I_SETP (push_bit 2 (cmp_code CMP_GE) OR 1) a b"

definition set_p1 :: "bool \<Rightarrow> sim \<Rightarrow> sim" where
  "set_p1 c s = s\<lparr>sim_pc := sim_pc s + 1, sim_p := (sim_p s)[1 := (if c then 1 else 0)]\<rparr>"

lemma step_setp_ge:
  assumes "sim_ok s" "sim_pc s < length ws" "ws ! sim_pc s = setp_ge_word ra rb"
    and "is_reg ra" "is_reg rb" "has_reg s ra a" "has_reg s rb b"
  shows "sim_step ws s = Inr (Continue (set_p1 (sint b \<le> sint a) s))"
proof -
  have r: "is_reg (push_bit 2 (cmp_code CMP_GE) OR 1)" by (simp add: is_reg_def push_bit_eq_mult)
  have f: "push_bit 2 (cmp_code CMP_GE) OR 1 = (13 :: int)" by (simp add: push_bit_eq_mult)
  have d: "drop_bit 2 13 AND 7 = (3 :: int)" "(13 :: int) AND 3 = 1" by (simp_all add: drop_bit_eq_div)
  note g = rw_fields [OF r assms(4,5), of I_SETP]
  show ?thesis
    unfolding sim_step_exec [OF assms(1,2) assms(3) [unfolded setp_ge_word_def] g(1,5)]
    using assms by (simp add: sim_exec_def Let_def g [unfolded f] f d has_reg_def setp_res_def set_p1_def s32_uint)
qed

text \<open>A patched branch, taken when its predicate holds.\<close>

lemma patched_branch_fields:
  assumes "pc \<le> 0xFFF" "prd = 0 \<or> prd = 1"
  shows "f_op (patch (branch_word prd) pc) = OPS I_BRANCH" "f_imm (patch (branch_word prd) pc) = int pc"
    "f_pred (patch (branch_word prd) pc) = prd"
  using enc_i_fields [OF _ _ patch_branch_word [OF assms(1), of prd]] OPS_bounds [of I_BRANCH] assms(2)
  by auto

lemma step_branch:
  assumes "sim_ok s" "sim_pc s < length ws" "ws ! sim_pc s = patch (branch_word prd) pc"
    and "pc \<le> 0xFFF" "prd = 0 \<or> prd = 1"
  shows "sim_step ws s = Inr (Continue (s\<lparr>sim_pc := (if sim_p s ! nat prd \<noteq> 0 then pc else sim_pc s + 1)\<rparr>))"
  using assms patched_branch_fields [OF assms(4,5)] OP_NAMES_OPS [of I_BRANCH]
  by (simp add: sim_step_def Let_def sim_exec_def)

lemma step_exit:
  assumes "sim_ok s" "sim_pc s < length ws" "ws ! sim_pc s = 0xC8007FF9"
  shows "sim_step ws s = Inr (Exited (s\<lparr>sim_pc := sim_pc s + 1\<rparr>))"
proof -
  have f: "f_op 0xC8007FF9 = OPS I_BARRIER" "f_pred 0xC8007FF9 = 0" "f_uimm 0xC8007FF9 = 1" "f_imm 0xC8007FF9 = 0xFFF"
    by (simp_all add: field_defs drop_bit_eq_div)
  show ?thesis
    unfolding sim_step_exec [OF assms f(1,2)]
    by (simp add: sim_exec_def Let_def f EXIT_IMM_def)
qed

section \<open>Runs\<close>

definition continues :: "int list \<Rightarrow> sim \<Rightarrow> sim \<Rightarrow> bool" where
  "continues ws s s' \<longleftrightarrow> sim_step ws s = Inr (Continue s')"

definition steps :: "int list \<Rightarrow> sim \<Rightarrow> sim \<Rightarrow> bool" where
  "steps ws = (continues ws)\<^sup>*\<^sup>*"

lemma steps_refl [simp, intro]: "steps ws s s"
  by (simp add: steps_def)

lemma steps_trans [trans]: "steps ws s s' \<Longrightarrow> steps ws s' s'' \<Longrightarrow> steps ws s s''"
  by (simp add: steps_def)

lemma steps_step: "sim_step ws s = Inr (Continue s') \<Longrightarrow> steps ws s' s'' \<Longrightarrow> steps ws s s''"
  by (simp add: steps_def continues_def converse_rtranclp_into_rtranclp)

lemma steps_one: "sim_step ws s = Inr (Continue s') \<Longrightarrow> steps ws s s'"
  by (auto intro: steps_step)

text \<open>A run to a halting step fixes the simulator's result for every large enough watchdog.\<close>

lemma sim_run_steps:
  assumes "steps ws s s'" "sim_step ws s' = Inr (Exited s'')"
  shows "\<exists>n. \<forall>left > n. \<forall>k. sim_run left ws s k = Inr (k + n + 1, s'')"
  using assms(1) unfolding steps_def
proof (induction rule: converse_rtranclp_induct)
  case base
  have "\<forall>left > 0. \<forall>k. sim_run left ws s' k = Inr (k + 0 + 1, s'')"
    using assms(2) by (subst sim_run.simps) simp
  then show ?case by blast
next
  case (step s t)
  then obtain n where n: "\<forall>left > n. \<forall>k. sim_run left ws t k = Inr (k + n + 1, s'')" by blast
  have "sim_run left ws s k = Inr (k + Suc n + 1, s'')" if "Suc n < left" for left k
  proof -
    have "n < left - 1" using that by simp
    then show ?thesis using n step(1) that by (subst sim_run.simps) (simp add: continues_def)
  qed
  then show ?case by blast
qed

section \<open>Code segments\<close>

definition seg :: "int list \<Rightarrow> nat \<Rightarrow> int list \<Rightarrow> bool" where
  "seg ws k code \<longleftrightarrow> k + length code \<le> length ws \<and> (\<forall>i < length code. ws ! (k + i) = code ! i)"

lemma seg_Nil [simp]: "seg ws k [] \<longleftrightarrow> k \<le> length ws"
  by (simp add: seg_def)

lemma seg_Cons [simp]: "seg ws k (c # cs) \<longleftrightarrow> k < length ws \<and> ws ! k = c \<and> seg ws (k + 1) cs"
proof -
  have "(\<forall>i < Suc n. P i) \<longleftrightarrow> P 0 \<and> (\<forall>i < n. P (Suc i))" for n and P :: "nat \<Rightarrow> bool"
    by (metis less_Suc_eq_0_disj)
  then show ?thesis unfolding seg_def by auto
qed

lemma seg_append: "seg ws k (cs @ ds) \<longleftrightarrow> seg ws k cs \<and> seg ws (k + length cs) ds"
proof (induction cs arbitrary: k)
  case Nil
  show ?case by (auto simp: seg_def)
qed simp

end
