(* ===== verification/KernelAst.thy ===== *)
theory KernelAst
  imports Prelude
begin

text \<open>
  The kernel language of \<^verbatim>\<open>compiler/titan_compiler.py\<close>: the part of Python's \<open>ast\<close> that
  the compiler inspects, one constructor per node class it tests for and an \<open>Other\<close>
  constructor, with the children a visitor reaches, for every class it does not; the string of an
  \<open>OtherStmt\<close> is the name of its class. The parser
  \<open>ast.parse\<close> is Python's; a module body is its output. Line numbers only decorate error
  messages and are left out.
\<close>

section \<open>Syntax\<close>

text \<open>
  \<open>COther\<close> is a constant that is not an \<open>int\<close> (a string, a float, \<open>None\<close>); its flag says
  whether it compares equal to \<open>0\<close>. In Python a \<open>bool\<close> is an \<open>int\<close>.
\<close>

datatype const = CInt int | CBool bool | COther string bool

datatype binop =
    Add | Sub | Mult | LShift | RShift | BitAnd | BitOr | BitXor | FloorDiv | Mod
  | Div | Pow | MatMult

datatype expr =
    Constant const
  | Name string
  | USub expr
  | UnaryOther expr
  | BinOp expr binop expr
  | Subscript expr expr
  | Call expr "expr list" "expr list"
  | Attribute expr string
  | OtherExpr "expr list"

datatype stmt =
    For expr expr "stmt list" "stmt list"
  | Assign "expr list" expr
  | AugAssign expr binop expr
  | Return "expr option"
  | ExprStmt expr
  | Pass
  | OtherStmt string "expr list" "stmt list"

text \<open>\<open>fextra\<close> holds the expressions of a definition outside its body (defaults, decorators).\<close>

record fundef =
  fname :: string
  fargs :: "string list"
  fbody :: "stmt list"
  fextra :: "expr list"

datatype toplevel = FunctionDef fundef | OtherTop

fun const_int :: "const \<Rightarrow> int option" where
  "const_int (CInt v) = Some v"
| "const_int (CBool b) = Some (if b then 1 else 0)"
| "const_int (COther _ _) = None"

fun const_eq_0 :: "const \<Rightarrow> bool" where
  "const_eq_0 (CInt v) = (v = 0)"
| "const_eq_0 (CBool b) = (\<not> b)"
| "const_eq_0 (COther _ z) = z"

section \<open>The frontend helpers\<close>

fun functions_of :: "toplevel list \<Rightarrow> fundef list" where
  "functions_of [] = []"
| "functions_of (FunctionDef f # ts) = f # functions_of ts"
| "functions_of (OtherTop # ts) = functions_of ts"

definition parse_kernel :: "toplevel list \<Rightarrow> string option \<Rightarrow> py_error + fundef" where
  "parse_kernel tree func_name =
    (let fns = functions_of tree in
     if fns = [] then Inl (CompileError ''no function definition found in kernel source'')
     else
       (case func_name of
          None \<Rightarrow> Inr (hd fns)
        | Some n \<Rightarrow>
            if n = '''' then Inr (hd fns)
            else
              (let fns = filter (\<lambda>f. fname f = n) fns in
               if fns = [] then Inl (CompileError (''function '' @ quoted n @ '' not found'')) else Inr (hd fns))))"

text \<open>The names a visitor finds directly under a subscript.\<close>

fun expr_arrays :: "expr \<Rightarrow> string list" where
  "expr_arrays (Constant _) = []"
| "expr_arrays (Name _) = []"
| "expr_arrays (USub e) = expr_arrays e"
| "expr_arrays (UnaryOther e) = expr_arrays e"
| "expr_arrays (BinOp l _ r) = expr_arrays l @ expr_arrays r"
| "expr_arrays (Subscript v i) = (case v of Name n \<Rightarrow> [n] | _ \<Rightarrow> []) @ expr_arrays v @ expr_arrays i"
| "expr_arrays (Call f xs ks) = expr_arrays f @ concat (map expr_arrays xs) @ concat (map expr_arrays ks)"
| "expr_arrays (Attribute e _) = expr_arrays e"
| "expr_arrays (OtherExpr xs) = concat (map expr_arrays xs)"

fun stmt_arrays :: "stmt \<Rightarrow> string list" where
  "stmt_arrays (For t i body orelse) =
     expr_arrays t @ expr_arrays i @ concat (map stmt_arrays body) @ concat (map stmt_arrays orelse)"
| "stmt_arrays (Assign ts v) = concat (map expr_arrays ts) @ expr_arrays v"
| "stmt_arrays (AugAssign t _ v) = expr_arrays t @ expr_arrays v"
| "stmt_arrays (Return r) = (case r of None \<Rightarrow> [] | Some e \<Rightarrow> expr_arrays e)"
| "stmt_arrays (ExprStmt e) = expr_arrays e"
| "stmt_arrays Pass = []"
| "stmt_arrays (OtherStmt _ es ss) = concat (map expr_arrays es) @ concat (map stmt_arrays ss)"

definition collect_array_params :: "fundef \<Rightarrow> string set" where
  "collect_array_params fn =
     set (concat (map expr_arrays (fextra fn)) @ concat (map stmt_arrays (fbody fn)))"

lemma hd_filter: "filter P xs \<noteq> [] \<Longrightarrow> hd (filter P xs) \<in> set xs \<and> P (hd (filter P xs))"
  by (induction xs) auto

lemma parse_kernel_Inr:
  assumes "parse_kernel tree n = Inr f"
  shows "FunctionDef f \<in> set tree"
proof -
  have fs: "set (functions_of ts) = {f. FunctionDef f \<in> set ts}" for ts
    by (induction ts rule: functions_of.induct) auto
  have "f = hd (functions_of tree) \<and> functions_of tree \<noteq> [] \<or>
    (\<exists>m. f = hd (filter (\<lambda>f. fname f = m) (functions_of tree)) \<and> filter (\<lambda>f. fname f = m) (functions_of tree) \<noteq> [])"
    using assms unfolding parse_kernel_def Let_def by (auto split: option.splits if_splits)
  then have "f \<in> set (functions_of tree)"
    using hd_in_set [of "functions_of tree"] hd_filter by blast
  then show ?thesis using fs by simp
qed

lemma parse_kernel_named:
  "parse_kernel tree (Some n) = Inr f \<Longrightarrow> n \<noteq> '''' \<Longrightarrow> fname f = n"
  unfolding parse_kernel_def Let_def
  using hd_filter [of "\<lambda>f. fname f = n" "functions_of tree"] by (auto split: if_splits)

end
