(* ===== verification/ScalarCodegen.thy ===== *)
theory ScalarCodegen
  imports Assembler KernelAst
begin

text \<open>
  The class \<open>ScalarCodegen\<close> of \<^verbatim>\<open>compiler/titan_compiler.py\<close>: register allocation from the
  pool \<open>R2..R57\<close>, lowering of expressions and statements, \<open>range\<close> loops, and \<open>compile\<close>.
  The state \<open>cg\<close> holds what the object holds: the assembler, the free list and the variable
  map. An exception aborts the compilation, so an error carries no state. Of the texts of the messages the
  line numbers and the dump of an unsupported expression are left out.
\<close>

section \<open>State and register management\<close>

record cg =
  asm :: assembler
  free_regs :: "int list"
  vars :: "(string \<times> int) list"

definition cg_init :: cg where
  "cg_init = \<lparr>asm = asm_init, free_regs = R_POOL, vars = []\<rparr>"

definition alloc :: "cg \<Rightarrow> py_error + (int \<times> cg)" where
  "alloc s = (case free_regs s of
     [] \<Rightarrow> Inl (CompileError ''register pressure too high (out of regs)'')
   | x # xs \<Rightarrow> Inr (x, s\<lparr>free_regs := xs\<rparr>))"

definition release :: "int \<Rightarrow> cg \<Rightarrow> cg" where
  "release reg s =
    (if reg \<in> set R_POOL \<and> reg \<notin> snd ` set (vars s) then s\<lparr>free_regs := reg # free_regs s\<rparr> else s)"

definition release_if :: "bool \<Rightarrow> int \<Rightarrow> cg \<Rightarrow> cg" where
  "release_if tmp reg s = (if tmp then release reg s else s)"

definition var_reg :: "string \<Rightarrow> cg \<Rightarrow> py_error + (int \<times> cg)" where
  "var_reg name s = (case map_of (vars s) name of
     Some reg \<Rightarrow> Inr (reg, s)
   | None \<Rightarrow> ebind (alloc s) (\<lambda>(reg, s). Inr (reg, s\<lparr>vars := (name, reg) # vars s\<rparr>)))"

text \<open>The assembler calls of the code generator, on its own state.\<close>

definition cg_r :: "isa_op \<Rightarrow> int \<Rightarrow> int \<Rightarrow> int \<Rightarrow> cg \<Rightarrow> cg" where
  "cg_r opn rd rs1 rs2 s = s\<lparr>asm := asm_r opn rd rs1 rs2 0 0 (asm s)\<rparr>"

definition cg_i :: "isa_op \<Rightarrow> int \<Rightarrow> int \<Rightarrow> int \<Rightarrow> cg \<Rightarrow> py_error + cg" where
  "cg_i opn rd rs1 imm s = ebind (asm_i opn rd rs1 imm 0 (asm s)) (\<lambda>a. Inr (s\<lparr>asm := a\<rparr>))"

definition cg_li :: "int \<Rightarrow> int \<Rightarrow> cg \<Rightarrow> py_error + cg" where
  "cg_li rd v s = ebind (asm_li rd v (asm s)) (\<lambda>a. Inr (s\<lparr>asm := a\<rparr>))"

definition cg_mov :: "int \<Rightarrow> int \<Rightarrow> cg \<Rightarrow> py_error + cg" where
  "cg_mov rd rs s = ebind (asm_mov rd rs (asm s)) (\<lambda>a. Inr (s\<lparr>asm := a\<rparr>))"

section \<open>Expressions\<close>

fun BINOPS :: "binop \<Rightarrow> isa_op option" where
  "BINOPS Add = Some I_ADD"
| "BINOPS Sub = Some I_SUB"
| "BINOPS Mult = Some I_MUL"
| "BINOPS LShift = Some I_SHL"
| "BINOPS RShift = Some I_SRA"
| "BINOPS BitAnd = Some I_AND"
| "BINOPS BitOr = Some I_OR"
| "BINOPS BitXor = Some I_XOR"
| "BINOPS FloorDiv = Some I_DIV"
| "BINOPS _ = None"

text \<open>The name of the class of an operator and of a statement.\<close>

fun op_class :: "binop \<Rightarrow> string" where
  "op_class Add = ''Add''"
| "op_class Sub = ''Sub''"
| "op_class Mult = ''Mult''"
| "op_class LShift = ''LShift''"
| "op_class RShift = ''RShift''"
| "op_class BitAnd = ''BitAnd''"
| "op_class BitOr = ''BitOr''"
| "op_class BitXor = ''BitXor''"
| "op_class FloorDiv = ''FloorDiv''"
| "op_class Mod = ''Mod''"
| "op_class Div = ''Div''"
| "op_class Pow = ''Pow''"
| "op_class MatMult = ''MatMult''"

fun stmt_class :: "stmt \<Rightarrow> string" where
  "stmt_class (For _ _ _ _) = ''For''"
| "stmt_class (Assign _ _) = ''Assign''"
| "stmt_class (AugAssign _ _ _) = ''AugAssign''"
| "stmt_class (Return _) = ''Return''"
| "stmt_class (ExprStmt _) = ''Expr''"
| "stmt_class Pass = ''Pass''"
| "stmt_class (OtherStmt name _ _) = name"

text \<open>The small constant of the immediate form.\<close>

fun imm_const :: "expr \<Rightarrow> int option" where
  "imm_const (Constant c) =
     (case const_int c of Some v \<Rightarrow> if 0 \<le> v \<and> v \<le> 0xFFF then Some v else None | None \<Rightarrow> None)"
| "imm_const _ = None"

function (sequential) gen_expr :: "expr \<Rightarrow> cg \<Rightarrow> py_error + ((int \<times> bool) \<times> cg)"
  and gen_binop :: "expr \<Rightarrow> binop \<Rightarrow> expr \<Rightarrow> cg \<Rightarrow> py_error + ((int \<times> bool) \<times> cg)"
  and gen_subscript :: "expr \<Rightarrow> expr \<Rightarrow> cg \<Rightarrow> py_error + ((int \<times> int \<times> bool) \<times> cg)" where
  "gen_expr (Constant c) s =
     (case const_int c of
        None \<Rightarrow> Inl (CompileError ''only integer constants supported'')
      | Some v \<Rightarrow>
          ebind (alloc s) (\<lambda>(t, s).
          ebind (cg_li t v s) (\<lambda>s. Inr ((t, True), s))))"
| "gen_expr (Name x) s =
     (case map_of (vars s) x of
        None \<Rightarrow> Inl (CompileError (''undefined variable '' @ quoted x))
      | Some reg \<Rightarrow> Inr ((reg, False), s))"
| "gen_expr (USub e) s =
     ebind (gen_expr e s) (\<lambda>((src, tmp), s).
     ebind (alloc s) (\<lambda>(t, s).
     Inr ((t, True), release_if tmp src (cg_r I_SUB t R_ZERO src s))))"
| "gen_expr (BinOp l opn r) s = gen_binop l opn r s"
| "gen_expr (Subscript v i) s =
     ebind (gen_subscript v i s) (\<lambda>((base, off, off_tmp), s).
     ebind (alloc s) (\<lambda>(t, s).
     Inr ((t, True), release_if off_tmp off (cg_r I_LOAD t base off s))))"
| "gen_expr _ s = Inl (CompileError ''unsupported expression'')"
| "gen_binop l opn r s =
     (if BINOPS opn = None \<and> opn \<noteq> Mod then Inl (CompileError (''unsupported operator '' @ op_class opn))
      else
        ebind (gen_expr l s) (\<lambda>((a, a_tmp), s).
        case (if opn = Mod then None else imm_const r) of
          Some v \<Rightarrow>
            ebind (alloc s) (\<lambda>(t, s).
            ebind (cg_i (the (BINOPS opn)) t a v s) (\<lambda>s.
            Inr ((t, True), release_if a_tmp a s)))
        | None \<Rightarrow>
            ebind (gen_expr r s) (\<lambda>((b, b_tmp), s).
            ebind (alloc s) (\<lambda>(t, s).
            let s =
              (if opn = Mod then cg_r I_SUB t a t (cg_r I_MUL t t b (cg_r I_DIV t a b s))
               else cg_r (the (BINOPS opn)) t a b s)
            in Inr ((t, True), release_if b_tmp b (release_if a_tmp a s))))))"
| "gen_subscript v i s =
     (case v of
        Name name \<Rightarrow>
          (case map_of (vars s) name of
             None \<Rightarrow> Inl (CompileError (''unknown array '' @ quoted name))
           | Some _ \<Rightarrow>
               ebind (gen_expr i s) (\<lambda>((idx_reg, idx_tmp), s).
               ebind (alloc s) (\<lambda>(off, s).
               ebind (cg_i I_SHL off idx_reg 2 s) (\<lambda>s.
               let s = release_if idx_tmp idx_reg s
               in (case map_of (vars s) name of
                     Some base \<Rightarrow> Inr ((base, off, True), s)
                   | None \<Rightarrow> Inl KeyError)))))
      | _ \<Rightarrow> Inl (CompileError ''only direct array subscripts supported''))"
  by pat_completeness auto
termination
  by (relation "measure (case_sum (\<lambda>(e, s). 2 * size e)
      (case_sum (\<lambda>(l, opn, r, s). 2 * size l + 2 * size r + 1) (\<lambda>(v, i, s). 2 * size v + 2 * size i + 1)))") auto

section \<open>Statements\<close>

text \<open>The \<open>Assign\<close> branch of \<open>gen_stmt\<close>.\<close>

definition gen_assign :: "expr list \<Rightarrow> expr \<Rightarrow> cg \<Rightarrow> py_error + cg" where
  "gen_assign targets value s =
    (case targets of
       [Name x] \<Rightarrow>
         ebind (gen_expr value s) (\<lambda>((src, tmp), s).
         ebind (var_reg x s) (\<lambda>(dst, s).
         ebind (cg_mov dst src s) (\<lambda>s. Inr (release_if tmp src s))))
     | [Subscript v i] \<Rightarrow>
         ebind (gen_expr value s) (\<lambda>((val, val_tmp), s).
         ebind (gen_subscript v i s) (\<lambda>((base, off, off_tmp), s).
         Inr (release_if off_tmp off (release_if val_tmp val (cg_r I_STORE val base off s)))))
     | [_] \<Rightarrow> Inl (CompileError ''unsupported assignment target'')
     | _ \<Rightarrow> Inl (CompileError ''multiple assignment not supported''))"

text \<open>The right-hand side of the assignment an \<open>AugAssign\<close> expands to.\<close>

fun aug_expand :: "expr \<Rightarrow> binop \<Rightarrow> expr \<Rightarrow> py_error + expr" where
  "aug_expand (Subscript v i) opn e = Inr (BinOp (Subscript v i) opn e)"
| "aug_expand (Name x) opn e = Inr (BinOp (Name x) opn e)"
| "aug_expand _ _ _ = Inl AttributeError"

text \<open>The head of a loop: the loop variable's name, start, stop and step, or the error.\<close>

definition range_args :: "expr list \<Rightarrow> py_error + (expr \<times> expr \<times> int)" where
  "range_args args =
    (case args of
       [stop] \<Rightarrow> Inr (Constant (CInt 0), stop, 1)
     | [start, stop] \<Rightarrow> Inr (start, stop, 1)
     | [start, stop, Constant c] \<Rightarrow>
         (case const_int c of
            Some v \<Rightarrow>
              if v \<le> 0 then Inl (CompileError ''range step must be a positive integer constant'')
              else Inr (start, stop, v)
          | None \<Rightarrow> Inl (CompileError ''range step must be a positive integer constant''))
     | [_, _, _] \<Rightarrow> Inl (CompileError ''range step must be a positive integer constant'')
     | _ \<Rightarrow> Inl (CompileError ''bad range()''))"

definition for_head :: "expr \<Rightarrow> expr \<Rightarrow> py_error + (string \<times> expr \<times> expr \<times> int)" where
  "for_head target it =
    (case it of
       Call (Name f) args _ \<Rightarrow>
         if f \<noteq> ''range'' then Inl (CompileError (''only '' @ quoted ''for ... in range(...)'' @ '' loops supported''))
         else
           (case target of
              Name x \<Rightarrow> ebind (range_args args) (\<lambda>(start, stop, step). Inr (x, start, stop, step))
            | _ \<Rightarrow> Inl (CompileError ''loop target must be a simple name''))
     | _ \<Rightarrow> Inl (CompileError (''only '' @ quoted ''for ... in range(...)'' @ '' loops supported'')))"

text \<open>The code of a loop before its body: initialisation, the held bound, the exit test.
  It returns the register of the variable, that of the bound, and the two labels.\<close>

definition for_enter :: "string \<Rightarrow> expr \<Rightarrow> expr \<Rightarrow> cg \<Rightarrow> py_error + ((int \<times> int \<times> nat \<times> nat) \<times> cg)" where
  "for_enter x start stop s =
     ebind (var_reg x s) (\<lambda>(ivar, s).
     ebind (gen_expr start s) (\<lambda>((s_reg, s_tmp), s).
     ebind (cg_mov ivar s_reg s) (\<lambda>s.
     let s = release_if s_tmp s_reg s in
     ebind (gen_expr stop s) (\<lambda>((stop_reg, stop_tmp), s).
     ebind (if stop_tmp then Inr (stop_reg, s)
            else ebind (alloc s) (\<lambda>(held, s). ebind (cg_mov held stop_reg s) (\<lambda>s. Inr (held, s))))
       (\<lambda>(stop_reg, s).
     let (top_l, a) = asm_here (asm s);
         (end_l, a) = asm_new_label a;
         a = asm_setp CMP_GE 1 ivar stop_reg a
     in ebind (asm_branch end_l 1 a) (\<lambda>a.
     Inr ((ivar, stop_reg, top_l, end_l), s\<lparr>asm := a\<rparr>)))))))"

text \<open>The code of a loop after its body.\<close>

definition for_leave :: "int \<Rightarrow> int \<Rightarrow> int \<Rightarrow> nat \<Rightarrow> nat \<Rightarrow> cg \<Rightarrow> py_error + cg" where
  "for_leave ivar stop_reg step top_l end_l s =
     ebind (cg_i I_ADD ivar ivar step s) (\<lambda>s.
     ebind (asm_branch top_l 0 (asm s)) (\<lambda>a.
     Inr (release stop_reg (s\<lparr>asm := asm_bind end_l a\<rparr>))))"

fun gen_stmt :: "stmt \<Rightarrow> cg \<Rightarrow> py_error + cg"
  and gen_stmts :: "stmt list \<Rightarrow> cg \<Rightarrow> py_error + cg" where
  "gen_stmt (For target it body orelse) s =
     ebind (for_head target it) (\<lambda>(x, start, stop, step).
     ebind (for_enter x start stop s) (\<lambda>((ivar, stop_reg, top_l, end_l), s).
     ebind (gen_stmts body s) (\<lambda>s.
     if orelse \<noteq> [] then Inl (CompileError ''for/else not supported'')
     else for_leave ivar stop_reg step top_l end_l s)))"
| "gen_stmt (Assign targets value) s = gen_assign targets value s"
| "gen_stmt (AugAssign target opn value) s =
     ebind (aug_expand target opn value) (\<lambda>e. gen_assign [target] e s)"
| "gen_stmt (Return v) s =
     (if v \<noteq> None then Inl (CompileError ''kernels cannot return values; write results through array parameters'')
      else ebind (asm_exit (asm s)) (\<lambda>a. Inr (s\<lparr>asm := a\<rparr>)))"
| "gen_stmt (ExprStmt (Constant _)) s = Inr s"
| "gen_stmt Pass s = Inr s"
| "gen_stmt c s = Inl (CompileError (''unsupported statement '' @ stmt_class c))"
| "gen_stmts [] s = Inr s"
| "gen_stmts (c # cs) s = ebind (gen_stmt c s) (gen_stmts cs)"

fun gen_params :: "nat \<Rightarrow> string list \<Rightarrow> cg \<Rightarrow> py_error + cg" where
  "gen_params idx [] s = Inr s"
| "gen_params idx (a # as) s =
     ebind (var_reg a s) (\<lambda>(reg, s).
     ebind (cg_i I_LOAD reg R_PARAM (4 * int idx) s) (gen_params (Suc idx) as))"

definition compile :: "fundef \<Rightarrow> py_error + int list" where
  "compile fn =
     ebind (gen_params 0 (fargs fn) cg_init) (\<lambda>s.
     ebind (gen_stmts (fbody fn) s) (\<lambda>s.
     ebind (asm_exit (asm s)) (\<lambda>a.
     ebind (asm_finalize a) (\<lambda>(ws, a). Inr ws))))"

end
