(* ===== verification/KernelSem.thy ===== *)
theory KernelSem
  imports SimSteps ScalarCodegen
begin

text \<open>
  What a kernel means: the abstract specification of the scalar backend. Values are 32-bit
  machine words, arrays are byte addresses into the memory the machine shares, a name may
  have no value yet. A loop is the C loop \<open>for (x = start, n = stop; x < n; x += step)\<close>, and
  a name that first gets a value inside a loop body is local to one iteration. \<open>None\<close> means
  that the kernel has no defined meaning there (an unset name, an address outside the
  memory, a construct outside the language) or that the fuel is used up.
\<close>

section \<open>Expressions\<close>

type_synonym env = "string \<Rightarrow> 32 word option"

fun kbinop :: "binop \<Rightarrow> 32 word \<Rightarrow> 32 word \<Rightarrow> 32 word option" where
  "kbinop Add a b = Some (a + b)"
| "kbinop Sub a b = Some (a - b)"
| "kbinop Mult a b = Some (a * b)"
| "kbinop LShift a b = Some (push_bit (unat b mod 32) a)"
| "kbinop RShift a b = Some (signed_drop_bit (unat b mod 32) a)"
| "kbinop BitAnd a b = Some (a AND b)"
| "kbinop BitOr a b = Some (a OR b)"
| "kbinop BitXor a b = Some (a XOR b)"
| "kbinop FloorDiv a b = Some (word_div a b)"
| "kbinop Mod a b = Some (a - word_div a b * b)"
| "kbinop _ a b = None"

definition kaddr :: "32 word \<Rightarrow> 32 word \<Rightarrow> int" where
  "kaddr base idx = uint base + uint (push_bit 2 idx)"

fun keval :: "env \<Rightarrow> int list \<Rightarrow> expr \<Rightarrow> 32 word option" where
  "keval env mem (Constant c) = map_option word_of_int (const_int c)"
| "keval env mem (Name x) = env x"
| "keval env mem (USub e) = map_option uminus (keval env mem e)"
| "keval env mem (BinOp l opn r) =
     (case (keval env mem l, keval env mem r) of (Some a, Some b) \<Rightarrow> kbinop opn a b | _ \<Rightarrow> None)"
| "keval env mem (Subscript v i) =
     (case v of
        Name x \<Rightarrow>
          (case (env x, keval env mem i) of
             (Some base, Some idx) \<Rightarrow>
               (case rd32 mem (kaddr base idx) of Inr w \<Rightarrow> Some (word_of_int w) | Inl _ \<Rightarrow> None)
           | _ \<Rightarrow> None)
      | _ \<Rightarrow> None)"
| "keval env mem _ = None"

section \<open>Statements\<close>

datatype kres = KNormal env "int list" | KReturn "int list"

definition kassign :: "expr list \<Rightarrow> expr \<Rightarrow> env \<Rightarrow> int list \<Rightarrow> kres option" where
  "kassign targets value env mem =
    (case keval env mem value of
       None \<Rightarrow> None
     | Some v \<Rightarrow>
         (case targets of
            [Name x] \<Rightarrow> Some (KNormal (env(x \<mapsto> v)) mem)
          | [Subscript (Name x) i] \<Rightarrow>
              (case (env x, keval env mem i) of
                 (Some base, Some idx) \<Rightarrow>
                   (case wr32 mem (kaddr base idx) (uint v) of Inr m \<Rightarrow> Some (KNormal env m) | Inl _ \<Rightarrow> None)
               | _ \<Rightarrow> None)
          | _ \<Rightarrow> None))"

text \<open>The names that had a value when the loop was entered keep it from one iteration to the next.\<close>

definition krestrict :: "env \<Rightarrow> env \<Rightarrow> env" where
  "krestrict env0 env = (\<lambda>x. if env0 x = None then None else env x)"

function kstmt :: "nat \<Rightarrow> stmt \<Rightarrow> env \<Rightarrow> int list \<Rightarrow> kres option"
  and kstmts :: "nat \<Rightarrow> stmt list \<Rightarrow> env \<Rightarrow> int list \<Rightarrow> kres option"
  and kloop :: "nat \<Rightarrow> string \<Rightarrow> 32 word \<Rightarrow> 32 word \<Rightarrow> stmt list \<Rightarrow> env \<Rightarrow> env \<Rightarrow> int list \<Rightarrow> kres option" where
  "kstmt n c env mem =
     (case c of
        For target it body orelse \<Rightarrow>
          (case for_head target it of
             Inl _ \<Rightarrow> None
           | Inr (x, start, stop, step) \<Rightarrow>
               (case keval env mem start of
                  None \<Rightarrow> None
                | Some v \<Rightarrow>
                    let env1 = env(x \<mapsto> v) in
                    (case keval env1 mem stop of
                       None \<Rightarrow> None
                     | Some bnd \<Rightarrow> kloop n x bnd (word_of_int step) body env1 env1 mem)))
      | Assign targets value \<Rightarrow> kassign targets value env mem
      | AugAssign target opn value \<Rightarrow> kassign [target] (BinOp target opn value) env mem
      | Return None \<Rightarrow> Some (KReturn mem)
      | ExprStmt (Constant _) \<Rightarrow> Some (KNormal env mem)
      | Pass \<Rightarrow> Some (KNormal env mem)
      | _ \<Rightarrow> None)"
| "kstmts n cs env mem =
     (case cs of
        [] \<Rightarrow> Some (KNormal env mem)
      | c # cs \<Rightarrow>
          (case kstmt n c env mem of
             Some (KNormal env mem) \<Rightarrow> kstmts n cs env mem
           | r \<Rightarrow> r))"
| "kloop n x bnd step body env0 env mem =
     (case env x of
        None \<Rightarrow> None
      | Some i \<Rightarrow>
          if sint i < sint bnd then
            (if n = 0 then None
             else
               (case kstmts (n - 1) body (krestrict env0 env) mem of
                  Some (KNormal env1 mem1) \<Rightarrow>
                    (case env1 x of
                       None \<Rightarrow> None
                     | Some i1 \<Rightarrow> kloop (n - 1) x bnd step body env0 (env1(x \<mapsto> i1 + step)) mem1)
                | r \<Rightarrow> r))
          else Some (KNormal env mem))"
  by pat_completeness auto
termination
  by (relation "measures [case_sum (\<lambda>(n, c, env, mem). n) (case_sum (\<lambda>(n, cs, env, mem). n) (\<lambda>(n, a). n)),
       case_sum (\<lambda>(n, c, env, mem). size c) (case_sum (\<lambda>(n, cs, env, mem). size_list size cs) (\<lambda>a. 0))]") auto

declare kstmt.simps [simp del] kstmts.simps [simp del] kloop.simps [simp del]

text \<open>A kernel: the parameters are read from the parameter block, then the body runs.\<close>

fun kparams :: "int list \<Rightarrow> int \<Rightarrow> nat \<Rightarrow> string list \<Rightarrow> env \<Rightarrow> env option" where
  "kparams mem addr idx [] env = Some env"
| "kparams mem addr idx (a # as) env =
     (case rd32 mem (addr + 4 * int idx) of
        Inl _ \<Rightarrow> None
      | Inr w \<Rightarrow> kparams mem addr (Suc idx) as (env(a \<mapsto> word_of_int w)))"

definition krun :: "nat \<Rightarrow> fundef \<Rightarrow> int list \<Rightarrow> int \<Rightarrow> int list option" where
  "krun n fn mem addr =
     (case kparams mem addr 0 (fargs fn) (\<lambda>_. None) of
        None \<Rightarrow> None
      | Some env \<Rightarrow>
          (case kstmts n (fbody fn) env mem of
             Some (KNormal _ m) \<Rightarrow> Some m
           | Some (KReturn m) \<Rightarrow> Some m
           | None \<Rightarrow> None))"

end
