(* ===== verification/CodegenExpr.thy ===== *)
theory CodegenExpr
  imports KernelSem
begin

text \<open>
  Correctness of expression lowering. \<open>cg_ok\<close> is the register invariant of the code
  generator: the free list and the registers of variables are disjoint, duplicate-free parts
  of the pool. An expression appends straight-line code that writes only registers of the
  free list and leaves the value of the expression in its result register; the register is
  either that of a variable or a temporary taken out of the free list.
\<close>

section \<open>The register invariant\<close>

definition regs_of :: "cg \<Rightarrow> int set" where
  "regs_of s = snd ` set (vars s)"

definition cg_ok :: "cg \<Rightarrow> bool" where
  "cg_ok s \<longleftrightarrow> distinct (free_regs s) \<and> set (free_regs s) \<subseteq> set R_POOL \<and> regs_of s \<subseteq> set R_POOL \<and>
     set (free_regs s) \<inter> regs_of s = {} \<and> distinct (map snd (vars s))"

lemma cg_ok_init: "cg_ok cg_init"
  by (simp add: cg_ok_def cg_init_def regs_of_def)

lemma cg_ok_asm [simp]: "cg_ok (s\<lparr>asm := a\<rparr>) = cg_ok s" "regs_of (s\<lparr>asm := a\<rparr>) = regs_of s"
  by (simp_all add: cg_ok_def regs_of_def)

lemma free_is_reg: "cg_ok s \<Longrightarrow> r \<in> set (free_regs s) \<Longrightarrow> is_reg r \<and> r \<noteq> 0 \<and> r \<noteq> 1 \<and> r \<in> set R_POOL"
  using is_reg_pool by (auto simp: cg_ok_def)

lemma var_is_reg: "cg_ok s \<Longrightarrow> r \<in> regs_of s \<Longrightarrow> is_reg r \<and> r \<noteq> 0 \<and> r \<noteq> 1 \<and> r \<notin> set (free_regs s)"
  using is_reg_pool by (auto simp: cg_ok_def)

lemma var_in_regs: "map_of (vars s) x = Some r \<Longrightarrow> r \<in> regs_of s"
  unfolding regs_of_def by (force dest: map_of_SomeD)

lemma alloc_ok:
  assumes "alloc s = Inr (t, s1)" "cg_ok s"
  shows "t \<in> set (free_regs s)" "set (free_regs s1) = set (free_regs s) - {t}" "cg_ok s1"
    "vars s1 = vars s" "asm s1 = asm s" "t \<notin> regs_of s"
proof -
  obtain xs where s: "free_regs s = t # xs" "s1 = s\<lparr>free_regs := xs\<rparr>"
    using assms(1) by (auto simp: alloc_def split: list.splits)
  have r: "regs_of s1 = regs_of s" by (simp add: s(2) regs_of_def)
  show "t \<in> set (free_regs s)" "set (free_regs s1) = set (free_regs s) - {t}" "cg_ok s1"
    "vars s1 = vars s" "asm s1 = asm s" "t \<notin> regs_of s"
    using assms(2) s r by (auto simp: cg_ok_def)
qed

lemma release_ok:
  assumes "cg_ok s" "reg \<notin> set (free_regs s)"
  shows "cg_ok (release reg s)" "vars (release reg s) = vars s" "asm (release reg s) = asm s"
    "set (free_regs (release reg s)) =
      (if reg \<in> set R_POOL \<and> reg \<notin> regs_of s then insert reg (set (free_regs s)) else set (free_regs s))"
  using assms by (auto simp: release_def cg_ok_def regs_of_def)

lemma release_if_ok:
  assumes "cg_ok s" "tmp \<Longrightarrow> reg \<notin> set (free_regs s) \<and> reg \<in> set R_POOL \<and> reg \<notin> regs_of s"
  shows "cg_ok (release_if tmp reg s)" "vars (release_if tmp reg s) = vars s" "asm (release_if tmp reg s) = asm s"
    "set (free_regs (release_if tmp reg s)) = (if tmp then insert reg (set (free_regs s)) else set (free_regs s))"
  using assms release_ok [of s reg] by (auto simp: release_if_def)

lemma cg_emit_simps [simp]:
  "cg_r k rd a b s = s\<lparr>asm := asm_append [rw k rd a b] (asm s)\<rparr>"
  "cg_li rd v s = Inr (s\<lparr>asm := asm_append (li_words rd v) (asm s)\<rparr>)"
  "cg_mov rd rs s = Inr (s\<lparr>asm := asm_append (if rd \<noteq> rs then [iw I_ADD rd rs 0] else []) (asm s)\<rparr>)"
  "0 \<le> imm \<Longrightarrow> imm \<le> 0xFFF \<Longrightarrow> cg_i k rd rs imm s = Inr (s\<lparr>asm := asm_append [iw k rd rs imm] (asm s)\<rparr>)"
  by (simp_all add: cg_r_def cg_i_def cg_li_def cg_mov_def asm_r_eq asm_i_eq asm_li_eq asm_mov_eq)

section \<open>Straight-line runs\<close>

definition moved :: "int list \<Rightarrow> sim \<Rightarrow> sim \<Rightarrow> nat \<Rightarrow> int set \<Rightarrow> bool" where
  "moved ws \<sigma> \<sigma>' n F \<longleftrightarrow> steps ws \<sigma> \<sigma>' \<and> sim_pc \<sigma>' = sim_pc \<sigma> + n \<and> sim_mem \<sigma>' = sim_mem \<sigma> \<and>
     sim_p \<sigma>' = sim_p \<sigma> \<and> sim_ok \<sigma>' \<and> (\<forall>i. is_reg i \<longrightarrow> i \<notin> F \<longrightarrow> get_reg i \<sigma>' = get_reg i \<sigma>)"

lemma moved_refl: "sim_ok \<sigma> \<Longrightarrow> moved ws \<sigma> \<sigma> 0 F"
  by (simp add: moved_def)

lemma moved_trans: "moved ws \<sigma> \<sigma>1 n F \<Longrightarrow> moved ws \<sigma>1 \<sigma>2 m G \<Longrightarrow> F \<subseteq> H \<Longrightarrow> G \<subseteq> H \<Longrightarrow> moved ws \<sigma> \<sigma>2 (n + m) H"
  unfolding moved_def by (auto intro: steps_trans) (metis subsetD)+

lemma moved_trans_same: "moved ws \<sigma> \<sigma>1 n F \<Longrightarrow> moved ws \<sigma>1 \<sigma>2 m F \<Longrightarrow> moved ws \<sigma> \<sigma>2 (n + m) F"
  by (rule moved_trans) auto

lemma moved_weaken: "moved ws \<sigma> \<sigma>' n F \<Longrightarrow> F \<subseteq> H \<Longrightarrow> moved ws \<sigma> \<sigma>' n H"
  unfolding moved_def by blast

lemma moved_keeps: "moved ws \<sigma> \<sigma>' n F \<Longrightarrow> is_reg i \<Longrightarrow> i \<notin> F \<Longrightarrow> has_reg \<sigma>' i v = has_reg \<sigma> i v"
  by (simp add: moved_def has_reg_def)

lemma moved_put:
  "sim_step ws \<sigma> = Inr (Continue (put_reg rd v \<sigma>)) \<Longrightarrow> sim_ok \<sigma> \<Longrightarrow> is_reg rd \<Longrightarrow>
    moved ws \<sigma> (put_reg rd v \<sigma>) 1 {rd} \<and> has_reg (put_reg rd v \<sigma>) rd v"
  by (auto simp: moved_def get_reg_put steps_one)

lemma moved_alu_i:
  assumes "sim_ok \<sigma>" "sim_pc \<sigma> = pc" "seg ws pc [iw k rd rs1 imm]" "alu_op k" "is_reg rd" "is_reg rs1"
    "0 \<le> imm" "imm \<le> 0xFFF" "has_reg \<sigma> rs1 a"
  obtains \<sigma>' where "moved ws \<sigma> \<sigma>' 1 {rd}" "has_reg \<sigma>' rd (word_alu k a (word_of_int imm))"
    "sim_ok \<sigma>'" "sim_pc \<sigma>' = pc + 1"
proof -
  have "sim_pc \<sigma> < length ws" "ws ! sim_pc \<sigma> = iw k rd rs1 imm" using assms(2,3) by auto
  from moved_put [OF step_alu_i [OF assms(1) this assms(4-9)] assms(1,5)] show thesis
    using that [of "put_reg rd (word_alu k a (word_of_int imm)) \<sigma>"] assms(1,2) by simp
qed

lemma moved_alu_r:
  assumes "sim_ok \<sigma>" "sim_pc \<sigma> = pc" "seg ws pc [rw k rd rs1 rs2]" "alu_op k" "is_reg rd" "is_reg rs1" "is_reg rs2"
    "has_reg \<sigma> rs1 a" "has_reg \<sigma> rs2 b"
  obtains \<sigma>' where "moved ws \<sigma> \<sigma>' 1 {rd}" "has_reg \<sigma>' rd (word_alu k a b)"
    "sim_ok \<sigma>'" "sim_pc \<sigma>' = pc + 1"
proof -
  have "sim_pc \<sigma> < length ws" "ws ! sim_pc \<sigma> = rw k rd rs1 rs2" using assms(2,3) by auto
  from moved_put [OF step_alu_r [OF assms(1) this assms(4-9)] assms(1,5)] show thesis
    using that [of "put_reg rd (word_alu k a b) \<sigma>"] assms(1,2) by simp
qed

lemma moved_load:
  assumes "sim_ok \<sigma>" "sim_pc \<sigma> = pc" "seg ws pc [rw I_LOAD rd rs1 rs2]" "is_reg rd" "is_reg rs1" "is_reg rs2"
    "has_reg \<sigma> rs1 a" "has_reg \<sigma> rs2 b" "rd32 (sim_mem \<sigma>) (uint a + uint b) = Inr (uint v)"
  obtains \<sigma>' where "moved ws \<sigma> \<sigma>' 1 {rd}" "has_reg \<sigma>' rd v" "sim_ok \<sigma>'" "sim_pc \<sigma>' = pc + 1"
proof -
  have "sim_pc \<sigma> < length ws" "ws ! sim_pc \<sigma> = rw I_LOAD rd rs1 rs2" using assms(2,3) by auto
  from moved_put [OF step_load [OF assms(1) this assms(4-9)] assms(1,4)] show thesis
    using that [of "put_reg rd v \<sigma>"] assms(1,2) by simp
qed

lemma moved_ok: "moved ws \<sigma> \<sigma>' n F \<Longrightarrow> sim_ok \<sigma>'" "moved ws \<sigma> \<sigma>' n F \<Longrightarrow> sim_pc \<sigma>' = sim_pc \<sigma> + n"
  "moved ws \<sigma> \<sigma>' n F \<Longrightarrow> sim_mem \<sigma>' = sim_mem \<sigma>"
  by (simp_all add: moved_def)

section \<open>Constants\<close>

definition zero_reg :: "sim \<Rightarrow> bool" where
  "zero_reg \<sigma> \<longleftrightarrow> has_reg \<sigma> R_ZERO 0"

lemma word_of_parts:
  "push_bit 12 (push_bit 12 (word_of_int (take_bit 8 (drop_bit 24 v))) OR
      word_of_int (take_bit 12 (drop_bit 12 v))) OR word_of_int (take_bit 12 v) = (word_of_int v :: 32 word)"
proof (rule bit_word_eqI)
  fix n
  assume "n < LENGTH(32)"
  then show "bit (push_bit 12 (push_bit 12 (word_of_int (take_bit 8 (drop_bit 24 v))) OR
      word_of_int (take_bit 12 (drop_bit 12 v))) OR word_of_int (take_bit 12 v) :: 32 word) n \<longleftrightarrow> bit (word_of_int v :: 32 word) n"
    by (cases "n < 12"; cases "n < 24") (auto simp: bit_simps)
qed

lemma word_of_take32: "word_of_int (take_bit 32 v) = (word_of_int v :: 32 word)"
  by (rule bit_word_eqI) (auto simp: bit_simps)

lemma li_runs:
  assumes ok: "sim_ok \<sigma>" and z: "zero_reg \<sigma>" and sg: "seg ws (sim_pc \<sigma>) (li_words rd v)"
    and rd: "is_reg rd" "rd \<noteq> 0"
  obtains \<sigma>' where "moved ws \<sigma> \<sigma>' (length (li_words rd v)) {rd}" "has_reg \<sigma>' rd (word_of_int v)"
proof -
  define u where "u = take_bit 32 v"
  have u: "0 \<le> u" "u < 2 ^ 32" "word_of_int u = (word_of_int v :: 32 word)"
    unfolding u_def using word_of_take32 take_bit_lt [of 32 v] by auto
  have z0: "has_reg \<sigma> R_ZERO 0" using z by (simp add: zero_reg_def)
  have alu: "alu_op I_ADD" "alu_op I_SUB" "alu_op I_SHL" "alu_op I_OR" by (simp_all add: alu_op_def)
  have rb: "0 \<le> take_bit 8 x" "take_bit 8 x \<le> (0xFFF :: int)" "0 \<le> take_bit 12 x" "take_bit 12 x \<le> (0xFFF :: int)" for x :: int
    using take_bit_le_mask [of 8 x] take_bit_le_mask [of 12 x] by simp_all
  consider (small) "u \<le> 0xFFF" | (neg) "\<not> u \<le> 0xFFF" "2 ^ 32 - u \<le> 0xFFF" | (big) "\<not> u \<le> 0xFFF" "\<not> 2 ^ 32 - u \<le> 0xFFF"
    by blast
  then show thesis
  proof cases
    case small
    then have l: "li_words rd v = [iw I_ADD rd R_ZERO u]" by (simp add: li_words_def u_def Let_def)
    from moved_alu_i [OF ok refl sg [unfolded l] alu(1) rd(1) is_reg_consts(1) u(1) small z0]
    obtain \<sigma>' where "moved ws \<sigma> \<sigma>' 1 {rd}" "has_reg \<sigma>' rd (word_alu I_ADD 0 (word_of_int u))" .
    then show thesis using that l u(3) by simp
  next
    case neg
    define k where "k = 2 ^ 32 - u"
    have l: "li_words rd v = [iw I_ADD rd R_ZERO k, rw I_SUB rd R_ZERO rd]"
      using neg by (simp add: li_words_def u_def Let_def k_def)
    have k: "0 \<le> k" "k \<le> 0xFFF" using u neg by (simp_all add: k_def)
    have sg': "seg ws (sim_pc \<sigma>) [iw I_ADD rd R_ZERO k]" "seg ws (sim_pc \<sigma> + 1) [rw I_SUB rd R_ZERO rd]"
      using sg by (simp_all add: l)
    from moved_alu_i [OF ok refl sg'(1) alu(1) rd(1) is_reg_consts(1) k z0] obtain \<sigma>1
      where m1: "moved ws \<sigma> \<sigma>1 1 {rd}" "has_reg \<sigma>1 rd (word_alu I_ADD 0 (word_of_int k))"
        "sim_ok \<sigma>1" "sim_pc \<sigma>1 = sim_pc \<sigma> + 1" .
    have z1: "has_reg \<sigma>1 R_ZERO 0" using moved_keeps [OF m1(1), of R_ZERO 0] z0 rd(2) by (simp add: R_ZERO_def)
    from moved_alu_r [OF m1(3,4) sg'(2) alu(2) rd(1) is_reg_consts(1) rd(1) z1 m1(2)]
    obtain \<sigma>2 where m2: "moved ws \<sigma>1 \<sigma>2 1 {rd}" "has_reg \<sigma>2 rd (word_alu I_SUB 0 (word_alu I_ADD 0 (word_of_int k)))" .
    have "word_of_int (2 ^ 32) = (0 :: 32 word)" by (simp add: word_of_int_2p_len [where 'a = 32, simplified])
    then have "- word_of_int k = (word_of_int v :: 32 word)" using u(3) by (simp add: k_def)
    then show thesis using that moved_trans [OF m1(1) m2(1), of "{rd}"] m2(2) l by simp
  next
    case big
    define a where "a = take_bit 8 (drop_bit 24 u)"
    define b where "b = take_bit 12 (drop_bit 12 u)"
    define c where "c = take_bit 12 u"
    have l: "li_words rd v = [iw I_ADD rd R_ZERO a, iw I_SHL rd rd 12, iw I_OR rd rd b, iw I_SHL rd rd 12, iw I_OR rd rd c]"
      using big by (simp add: li_words_def u_def Let_def a_def b_def c_def)
    have r: "0 \<le> a" "a \<le> 0xFFF" "0 \<le> b" "b \<le> 0xFFF" "0 \<le> c" "c \<le> 0xFFF" "(0 :: int) \<le> 12" "(12 :: int) \<le> 0xFFF"
      unfolding a_def b_def c_def by (rule rb | simp)+
    have sgs: "seg ws (sim_pc \<sigma>) [iw I_ADD rd R_ZERO a]" "seg ws (sim_pc \<sigma> + 1) [iw I_SHL rd rd 12]"
      "seg ws (sim_pc \<sigma> + 1 + 1) [iw I_OR rd rd b]" "seg ws (sim_pc \<sigma> + 1 + 1 + 1) [iw I_SHL rd rd 12]"
      "seg ws (sim_pc \<sigma> + 1 + 1 + 1 + 1) [iw I_OR rd rd c]"
      using sg by (simp_all add: l)
    define v1 :: "32 word" where "v1 = word_alu I_ADD 0 (word_of_int a)"
    define v2 where "v2 = word_alu I_SHL v1 (word_of_int 12)"
    define v3 where "v3 = word_alu I_OR v2 (word_of_int b)"
    define v4 where "v4 = word_alu I_SHL v3 (word_of_int 12)"
    define v5 where "v5 = word_alu I_OR v4 (word_of_int c)"
    from moved_alu_i [OF ok refl sgs(1) alu(1) rd(1) is_reg_consts(1) r(1,2) z0] obtain \<sigma>1
      where m1: "moved ws \<sigma> \<sigma>1 1 {rd}" "has_reg \<sigma>1 rd v1" "sim_ok \<sigma>1" "sim_pc \<sigma>1 = sim_pc \<sigma> + 1"
      unfolding v1_def .
    from moved_alu_i [OF m1(3,4) sgs(2) alu(3) rd(1) rd(1) r(7,8) m1(2)] obtain \<sigma>2
      where m2: "moved ws \<sigma>1 \<sigma>2 1 {rd}" "has_reg \<sigma>2 rd v2" "sim_ok \<sigma>2" "sim_pc \<sigma>2 = sim_pc \<sigma> + 1 + 1"
      unfolding v2_def .
    from moved_alu_i [OF m2(3,4) sgs(3) alu(4) rd(1) rd(1) r(3,4) m2(2)] obtain \<sigma>3
      where m3: "moved ws \<sigma>2 \<sigma>3 1 {rd}" "has_reg \<sigma>3 rd v3" "sim_ok \<sigma>3" "sim_pc \<sigma>3 = sim_pc \<sigma> + 1 + 1 + 1"
      unfolding v3_def .
    from moved_alu_i [OF m3(3,4) sgs(4) alu(3) rd(1) rd(1) r(7,8) m3(2)] obtain \<sigma>4
      where m4: "moved ws \<sigma>3 \<sigma>4 1 {rd}" "has_reg \<sigma>4 rd v4" "sim_ok \<sigma>4" "sim_pc \<sigma>4 = sim_pc \<sigma> + 1 + 1 + 1 + 1"
      unfolding v4_def .
    from moved_alu_i [OF m4(3,4) sgs(5) alu(4) rd(1) rd(1) r(5,6) m4(2)] obtain \<sigma>5
      where m5: "moved ws \<sigma>4 \<sigma>5 1 {rd}" "has_reg \<sigma>5 rd v5"
      unfolding v5_def .
    have "v5 = word_of_int v"
      using word_of_parts [of u] u(3) by (simp add: a_def b_def c_def word_sh_def v5_def v4_def v3_def v2_def v1_def)
    moreover have "moved ws \<sigma> \<sigma>5 (1 + 1 + 1 + 1 + 1) {rd}"
      by (rule moved_trans_same [OF moved_trans_same [OF moved_trans_same [OF moved_trans_same [OF m1(1) m2(1)] m3(1)] m4(1)] m5(1)])
    ultimately show thesis using that m5(2) l by simp
  qed
qed

section \<open>Lowering an expression\<close>

text \<open>The machine holds the environment: \<open>R0\<close> is zero and every value is in its variable's register.\<close>

definition holds :: "(string \<times> int) list \<Rightarrow> env \<Rightarrow> sim \<Rightarrow> bool" where
  "holds V env \<sigma> \<longleftrightarrow> zero_reg \<sigma> \<and>
     (\<forall>x v. env x = Some v \<longrightarrow> (\<exists>reg. map_of V x = Some reg \<and> has_reg \<sigma> reg v))"

text \<open>Code that writes only registers in \<open>F\<close> and leaves the value in \<open>r\<close>.\<close>

definition computes :: "int list \<Rightarrow> int set \<Rightarrow> (string \<times> int) list \<Rightarrow> (env \<Rightarrow> int list \<Rightarrow> 32 word option) \<Rightarrow> int \<Rightarrow> bool" where
  "computes code F V val r \<longleftrightarrow>
     (\<forall>ws \<sigma> env v. seg ws (sim_pc \<sigma>) code \<longrightarrow> sim_ok \<sigma> \<longrightarrow> holds V env \<sigma> \<longrightarrow> val env (sim_mem \<sigma>) = Some v \<longrightarrow>
        (\<exists>\<sigma>'. moved ws \<sigma> \<sigma>' (length code) F \<and> has_reg \<sigma>' r v))"

definition lowered :: "cg \<Rightarrow> cg \<Rightarrow> int \<Rightarrow> bool \<Rightarrow> (env \<Rightarrow> int list \<Rightarrow> 32 word option) \<Rightarrow> bool" where
  "lowered s s' r tmp val \<longleftrightarrow> vars s' = vars s \<and> cg_ok s' \<and>
     (if tmp then r \<in> set (free_regs s) \<and> set (free_regs s') = set (free_regs s) - {r}
      else r \<in> regs_of s \<and> set (free_regs s') = set (free_regs s)) \<and>
     (\<exists>code. asm s' = asm_append code (asm s) \<and> computes code (set (free_regs s)) (vars s) val r)"

lemma holds_moved:
  assumes "holds V env \<sigma>" "moved ws \<sigma> \<sigma>' n F" "0 \<notin> F" "snd ` set V \<inter> F = {}" "snd ` set V \<subseteq> set R_POOL"
  shows "holds V env \<sigma>'"
proof -
  have z: "zero_reg \<sigma>'"
    using assms(1,3) moved_keeps [OF assms(2), of R_ZERO 0] by (simp add: holds_def zero_reg_def R_ZERO_def)
  have "has_reg \<sigma>' reg v" if "map_of V x = Some reg" "has_reg \<sigma> reg v" for x reg v
  proof -
    have "reg \<in> snd ` set V" using that(1) by (force dest: map_of_SomeD)
    then have "is_reg reg" "reg \<notin> F" using assms(4,5) is_reg_pool by auto
    then show ?thesis using moved_keeps [OF assms(2)] that(2) by simp
  qed
  then show ?thesis using assms(1) z unfolding holds_def by blast
qed

lemma holds_moved_free:
  assumes "holds (vars s) env \<sigma>" "moved ws \<sigma> \<sigma>' n F" "F \<subseteq> set (free_regs s)" "cg_ok s"
  shows "holds (vars s) env \<sigma>'"
proof (rule holds_moved [OF assms(1,2)])
  show "0 \<notin> F" using free_is_reg [OF assms(4)] assms(3) by blast
  show "snd ` set (vars s) \<inter> F = {}" "snd ` set (vars s) \<subseteq> set R_POOL"
    using assms(3,4) unfolding cg_ok_def regs_of_def by blast+
qed

lemma BINOPS_word: "BINOPS opn = Some k \<Longrightarrow> alu_op k \<and> kbinop opn a b = Some (word_alu k a b)"
  by (cases opn) (auto simp: alu_op_def word_sh_def)

lemma lowered_const:
  assumes "alloc s = Inr (t, s1)" "cg_ok s" "const_int c = Some v"
  shows "lowered s (s1\<lparr>asm := asm_append (li_words t v) (asm s1)\<rparr>) t True (\<lambda>env mem. keval env mem (Constant c))"
proof -
  note a = alloc_ok [OF assms(1,2)]
  note t = free_is_reg [OF assms(2) a(1)]
  have "computes (li_words t v) (set (free_regs s)) (vars s) (\<lambda>env mem. keval env mem (Constant c)) t"
    unfolding computes_def
  proof (intro allI impI)
    fix ws \<sigma> env w
    assume h: "seg ws (sim_pc \<sigma>) (li_words t v)" "sim_ok \<sigma>" "holds (vars s) env \<sigma>" "keval env (sim_mem \<sigma>) (Constant c) = Some w"
    have "zero_reg \<sigma>" using h(3) by (simp add: holds_def)
    from li_runs [OF h(2) this h(1)] t obtain \<sigma>' where "moved ws \<sigma> \<sigma>' (length (li_words t v)) {t}" "has_reg \<sigma>' t (word_of_int v)"
      by blast
    then show "\<exists>\<sigma>'. moved ws \<sigma> \<sigma>' (length (li_words t v)) (set (free_regs s)) \<and> has_reg \<sigma>' t w"
      using h(4) assms(3) a(1) by (auto intro: moved_weaken)
  qed
  then show ?thesis using a by (auto simp: lowered_def)
qed

text \<open>Instructions that turn operands held in registers into a result in \<open>t\<close>.\<close>

definition finishes :: "int list \<Rightarrow> (string \<times> int) list \<Rightarrow> int \<Rightarrow> (sim \<Rightarrow> env \<Rightarrow> bool) \<Rightarrow>
    (env \<Rightarrow> int list \<Rightarrow> 32 word option) \<Rightarrow> bool" where
  "finishes cs V t pre val \<longleftrightarrow>
     (\<forall>ws \<sigma> env w. sim_ok \<sigma> \<longrightarrow> seg ws (sim_pc \<sigma>) cs \<longrightarrow> holds V env \<sigma> \<longrightarrow> pre \<sigma> env \<longrightarrow>
        val env (sim_mem \<sigma>) = Some w \<longrightarrow> (\<exists>\<sigma>'. moved ws \<sigma> \<sigma>' (length cs) {t} \<and> has_reg \<sigma>' t w))"

lemma lowered_reg:
  assumes "lowered s s1 r tmp val" "cg_ok s"
  shows "is_reg r \<and> r \<in> set R_POOL \<and> r \<notin> set (free_regs s1) \<and> (tmp \<longrightarrow> r \<in> set (free_regs s) \<and> r \<notin> regs_of s1)"
proof (cases tmp)
  case True
  then have "r \<in> set (free_regs s)" "r \<notin> set (free_regs s1)" "vars s1 = vars s" using assms(1) by (auto simp: lowered_def)
  then show ?thesis using free_is_reg [OF assms(2)] assms(2) by (auto simp: cg_ok_def regs_of_def)
next
  case False
  then have "r \<in> regs_of s" "set (free_regs s1) = set (free_regs s)" using assms(1) by (auto simp: lowered_def)
  then show ?thesis using var_is_reg [OF assms(2)] assms(2) False by (auto simp: cg_ok_def)
qed

lemma lowered_unary:
  assumes low: "lowered s s1 r tmp val" and ok: "cg_ok s" and al: "alloc s1 = Inr (t, s2)"
    and fin: "finishes cs (vars s) t (\<lambda>\<sigma> env. \<exists>v. has_reg \<sigma> r v \<and> val env (sim_mem \<sigma>) = Some v) val'"
    and val: "\<And>env mem w. val' env mem = Some w \<Longrightarrow> \<exists>v. val env mem = Some v"
  shows "lowered s (release_if tmp r (s2\<lparr>asm := asm_append cs (asm s2)\<rparr>)) t True val'"
proof -
  have ok1: "cg_ok s1" and v1: "vars s1 = vars s" using low by (simp_all add: lowered_def)
  note a = alloc_ok [OF al ok1]
  note r = lowered_reg [OF low ok]
  have tf: "t \<in> set (free_regs s)" using low a(1) by (auto simp: lowered_def split: if_splits)
  obtain code where code: "asm s1 = asm_append code (asm s)" "computes code (set (free_regs s)) (vars s) val r"
    using low by (auto simp: lowered_def)
  have "computes (code @ cs) (set (free_regs s)) (vars s) val' t"
    unfolding computes_def
  proof (intro allI impI)
    fix ws \<sigma> env w
    assume h: "seg ws (sim_pc \<sigma>) (code @ cs)" "sim_ok \<sigma>" "holds (vars s) env \<sigma>" "val' env (sim_mem \<sigma>) = Some w"
    then obtain v where v: "val env (sim_mem \<sigma>) = Some v" using val by blast
    have sg: "seg ws (sim_pc \<sigma>) code" "seg ws (sim_pc \<sigma> + length code) cs" using h(1) by (simp_all add: seg_append)
    from code(2) sg(1) h(2,3) v obtain \<sigma>1 where s1: "moved ws \<sigma> \<sigma>1 (length code) (set (free_regs s))" "has_reg \<sigma>1 r v"
      unfolding computes_def by blast
    note m = moved_ok [OF s1(1)]
    from fin m(1) sg(2) holds_moved_free [OF h(3) s1(1) order_refl ok] s1(2) v h(4)
    obtain \<sigma>2 where "moved ws \<sigma>1 \<sigma>2 (length cs) {t}" "has_reg \<sigma>2 t w"
      unfolding finishes_def m(2) [symmetric] m(3) [symmetric] by blast
    then show "\<exists>\<sigma>'. moved ws \<sigma> \<sigma>' (length (code @ cs)) (set (free_regs s)) \<and> has_reg \<sigma>' t w"
      using moved_trans [OF s1(1) _ order_refl] tf by auto
  qed
  moreover note rel = release_if_ok [of "s2\<lparr>asm := asm_append cs (asm s2)\<rparr>" tmp r]
  ultimately show ?thesis
    using low a r v1 code(1) tf by (auto simp: lowered_def regs_of_def)
qed

lemma lowered_binary:
  assumes low1: "lowered s s1 a ta val1" and low2: "lowered s1 s2 b tb val2" and ok: "cg_ok s"
    and al: "alloc s2 = Inr (t, s3)"
    and fin: "finishes cs (vars s) t (\<lambda>\<sigma> env. \<exists>x y. has_reg \<sigma> a x \<and> has_reg \<sigma> b y \<and>
      val1 env (sim_mem \<sigma>) = Some x \<and> val2 env (sim_mem \<sigma>) = Some y) val'"
    and val: "\<And>env mem w. val' env mem = Some w \<Longrightarrow> \<exists>x y. val1 env mem = Some x \<and> val2 env mem = Some y"
  shows "lowered s (release_if tb b (release_if ta a (s3\<lparr>asm := asm_append cs (asm s3)\<rparr>))) t True val'"
proof -
  have ok1: "cg_ok s1" "cg_ok s2" and v1: "vars s1 = vars s" "vars s2 = vars s"
    using low1 low2 by (simp_all add: lowered_def)
  note al' = alloc_ok [OF al ok1(2)]
  note ra = lowered_reg [OF low1 ok]
  note rb = lowered_reg [OF low2 ok1(1)]
  have sub: "set (free_regs s1) \<subseteq> set (free_regs s)" "set (free_regs s2) \<subseteq> set (free_regs s1)"
    using low1 low2 by (auto simp: lowered_def split: if_splits)
  have tf: "t \<in> set (free_regs s)" "t \<in> set (free_regs s1)" using sub al'(1) by auto
  obtain c1 where c1: "asm s1 = asm_append c1 (asm s)" "computes c1 (set (free_regs s)) (vars s) val1 a"
    using low1 by (auto simp: lowered_def)
  obtain c2 where c2: "asm s2 = asm_append c2 (asm s1)" "computes c2 (set (free_regs s1)) (vars s) val2 b"
    using low2 v1 by (auto simp: lowered_def)
  have "computes (c1 @ c2 @ cs) (set (free_regs s)) (vars s) val' t"
    unfolding computes_def
  proof (intro allI impI)
    fix ws \<sigma> env w
    assume h: "seg ws (sim_pc \<sigma>) (c1 @ c2 @ cs)" "sim_ok \<sigma>" "holds (vars s) env \<sigma>" "val' env (sim_mem \<sigma>) = Some w"
    then obtain x y where xy: "val1 env (sim_mem \<sigma>) = Some x" "val2 env (sim_mem \<sigma>) = Some y" using val by blast
    have sg: "seg ws (sim_pc \<sigma>) c1" "seg ws (sim_pc \<sigma> + length c1) c2" "seg ws (sim_pc \<sigma> + length c1 + length c2) cs"
      using h(1) by (simp_all add: seg_append)
    from c1(2) sg(1) h(2,3) xy(1) obtain \<sigma>1 where s1: "moved ws \<sigma> \<sigma>1 (length c1) (set (free_regs s))" "has_reg \<sigma>1 a x"
      unfolding computes_def by blast
    note m = moved_ok [OF s1(1)]
    have h1: "holds (vars s) env \<sigma>1" by (rule holds_moved_free [OF h(3) s1(1) order_refl ok])
    from c2(2) sg(2) m(1) h1 xy(2) obtain \<sigma>2 where s2: "moved ws \<sigma>1 \<sigma>2 (length c2) (set (free_regs s1))" "has_reg \<sigma>2 b y"
      unfolding computes_def m(2) [symmetric] m(3) [symmetric] by blast
    note m' = moved_ok [OF s2(1)]
    have h2: "holds (vars s) env \<sigma>2" by (rule holds_moved_free [OF h1 s2(1) sub(1) ok])
    have a2: "has_reg \<sigma>2 a x" using moved_keeps [OF s2(1)] ra s1(2) by simp
    from fin m'(1) sg(3) h2 a2 s2(2) xy h(4) obtain \<sigma>3 where s3: "moved ws \<sigma>2 \<sigma>3 (length cs) {t}" "has_reg \<sigma>3 t w"
      unfolding finishes_def m(2) [symmetric] m'(2) [symmetric] m(3) [symmetric] m'(3) [symmetric] by blast
    have "moved ws \<sigma>1 \<sigma>3 (length c2 + length cs) (set (free_regs s))"
      by (rule moved_trans [OF s2(1) s3(1)]) (use sub tf in auto)
    then show "\<exists>\<sigma>'. moved ws \<sigma> \<sigma>' (length (c1 @ c2 @ cs)) (set (free_regs s)) \<and> has_reg \<sigma>' t w"
      using moved_trans_same [OF s1(1)] s3(2) by auto
  qed
  moreover define s4 where "s4 = s3\<lparr>asm := asm_append cs (asm s3)\<rparr>"
  have r4: "cg_ok s4" "regs_of s4 = regs_of s" "free_regs s4 = free_regs s3" "vars s4 = vars s"
    using al' v1 by (simp_all add: s4_def regs_of_def)
  have rg: "regs_of s1 = regs_of s" "regs_of s2 = regs_of s" using v1 by (simp_all add: regs_of_def)
  have pa: "ta \<Longrightarrow> a \<notin> set (free_regs s4) \<and> a \<in> set R_POOL \<and> a \<notin> regs_of s4"
    using ra sub al'(2) r4 rg by auto
  note ra4 = release_if_ok [OF r4(1) pa]
  have pb: "tb \<Longrightarrow> b \<notin> set (free_regs (release_if ta a s4)) \<and> b \<in> set R_POOL \<and> b \<notin> regs_of (release_if ta a s4)"
    using rb ra al'(2) r4 ra4(2,4) rg by (auto simp: regs_of_def split: if_splits)
  note rb4 = release_if_ok [OF ra4(1) pb]
  have "set (free_regs (release_if tb b (release_if ta a s4))) = set (free_regs s) - {t}"
    using rb4(4) ra4(4) r4(3) al'(1,2) low1 low2 tf ra rb by (auto simp: lowered_def split: if_splits)
  ultimately show ?thesis
    unfolding s4_def [symmetric] lowered_def using rb4 ra4 r4 tf c1(1) c2(1) al'(5) by (auto simp: s4_def)
qed

section \<open>The instructions of each construct\<close>

lemma finishes_neg:
  assumes "is_reg t" "is_reg r"
  shows "finishes [rw I_SUB t R_ZERO r] V t (\<lambda>\<sigma> env. \<exists>v. has_reg \<sigma> r v \<and> keval env (sim_mem \<sigma>) e = Some v)
    (\<lambda>env mem. keval env mem (USub e))"
  unfolding finishes_def
proof (intro allI impI, elim exE conjE)
  fix ws \<sigma> env w v
  assume h: "sim_ok \<sigma>" "seg ws (sim_pc \<sigma>) [rw I_SUB t R_ZERO r]" "holds V env \<sigma>"
    "keval env (sim_mem \<sigma>) (USub e) = Some w" "has_reg \<sigma> r v" "keval env (sim_mem \<sigma>) e = Some v"
  have "has_reg \<sigma> R_ZERO 0" using h(3) by (simp add: holds_def zero_reg_def)
  from moved_alu_r [OF h(1) refl h(2) _ assms(1) _ assms(2) this h(5)] h(4,6)
  show "\<exists>\<sigma>'. moved ws \<sigma> \<sigma>' (length [rw I_SUB t R_ZERO r]) {t} \<and> has_reg \<sigma>' t w"
    by (auto simp: alu_op_def)
qed

lemma finishes_imm:
  assumes "is_reg t" "is_reg a" and k: "BINOPS opn = Some k" and c: "imm_const e = Some i"
  shows "finishes [iw k t a i] V t (\<lambda>\<sigma> env. \<exists>v. has_reg \<sigma> a v \<and> keval env (sim_mem \<sigma>) l = Some v)
    (\<lambda>env mem. keval env mem (BinOp l opn e))"
  unfolding finishes_def
proof (intro allI impI, elim exE conjE)
  fix ws \<sigma> env w v
  assume h: "sim_ok \<sigma>" "seg ws (sim_pc \<sigma>) [iw k t a i]" "holds V env \<sigma>"
    "keval env (sim_mem \<sigma>) (BinOp l opn e) = Some w" "has_reg \<sigma> a v" "keval env (sim_mem \<sigma>) l = Some v"
  have i: "0 \<le> i" "i \<le> 0xFFF" "keval env (sim_mem \<sigma>) e = Some (word_of_int i)"
    using c by (auto elim!: imm_const.elims split: option.splits if_splits)
  have "w = word_alu k v (word_of_int i)" using h(4,6) i(3) BINOPS_word [OF k] by simp
  moreover have "alu_op k" using BINOPS_word [OF k] by blast
  from moved_alu_i [OF h(1) refl h(2) this assms(1,2) i(1,2) h(5)] obtain \<sigma>'
    where "moved ws \<sigma> \<sigma>' 1 {t}" "has_reg \<sigma>' t (word_alu k v (word_of_int i))" .
  ultimately show "\<exists>\<sigma>'. moved ws \<sigma> \<sigma>' (length [iw k t a i]) {t} \<and> has_reg \<sigma>' t w" by auto
qed

lemma finishes_binop:
  assumes "is_reg t" "is_reg a" "is_reg b" and k: "BINOPS opn = Some k"
  shows "finishes [rw k t a b] V t (\<lambda>\<sigma> env. \<exists>x y. has_reg \<sigma> a x \<and> has_reg \<sigma> b y \<and>
      keval env (sim_mem \<sigma>) l = Some x \<and> keval env (sim_mem \<sigma>) r = Some y)
    (\<lambda>env mem. keval env mem (BinOp l opn r))"
  unfolding finishes_def
proof (intro allI impI, elim exE conjE)
  fix ws \<sigma> env w x y
  assume h: "sim_ok \<sigma>" "seg ws (sim_pc \<sigma>) [rw k t a b]" "keval env (sim_mem \<sigma>) (BinOp l opn r) = Some w"
    "has_reg \<sigma> a x" "has_reg \<sigma> b y" "keval env (sim_mem \<sigma>) l = Some x" "keval env (sim_mem \<sigma>) r = Some y"
  have "w = word_alu k x y" using h(3,6,7) BINOPS_word [OF k] by simp
  moreover have "alu_op k" using BINOPS_word [OF k] by blast
  from moved_alu_r [OF h(1) refl h(2) this assms(1-3) h(4,5)] obtain \<sigma>'
    where "moved ws \<sigma> \<sigma>' 1 {t}" "has_reg \<sigma>' t (word_alu k x y)" .
  ultimately show "\<exists>\<sigma>'. moved ws \<sigma> \<sigma>' (length [rw k t a b]) {t} \<and> has_reg \<sigma>' t w" by auto
qed

lemma finishes_mod:
  assumes t: "is_reg t" and a: "is_reg a" and b: "is_reg b" and ne: "t \<noteq> a" "t \<noteq> b"
  shows "finishes [rw I_DIV t a b, rw I_MUL t t b, rw I_SUB t a t] V t
    (\<lambda>\<sigma> env. \<exists>x y. has_reg \<sigma> a x \<and> has_reg \<sigma> b y \<and>
      keval env (sim_mem \<sigma>) l = Some x \<and> keval env (sim_mem \<sigma>) r = Some y)
    (\<lambda>env mem. keval env mem (BinOp l Mod r))"
  unfolding finishes_def
proof (intro allI impI, elim exE conjE)
  fix ws \<sigma> env w x y
  assume h: "sim_ok \<sigma>" "seg ws (sim_pc \<sigma>) [rw I_DIV t a b, rw I_MUL t t b, rw I_SUB t a t]"
    "keval env (sim_mem \<sigma>) (BinOp l Mod r) = Some w"
    "has_reg \<sigma> a x" "has_reg \<sigma> b y" "keval env (sim_mem \<sigma>) l = Some x" "keval env (sim_mem \<sigma>) r = Some y"
  have alu: "alu_op I_DIV" "alu_op I_MUL" "alu_op I_SUB" by (simp_all add: alu_op_def)
  have sgs: "seg ws (sim_pc \<sigma>) [rw I_DIV t a b]" "seg ws (sim_pc \<sigma> + 1) [rw I_MUL t t b]"
    "seg ws (sim_pc \<sigma> + 1 + 1) [rw I_SUB t a t]" using h(2) by simp_all
  from moved_alu_r [OF h(1) refl sgs(1) alu(1) t a b h(4,5)] obtain \<sigma>1
    where m1: "moved ws \<sigma> \<sigma>1 1 {t}" "has_reg \<sigma>1 t (word_alu I_DIV x y)" "sim_ok \<sigma>1" "sim_pc \<sigma>1 = sim_pc \<sigma> + 1" .
  have k1: "has_reg \<sigma>1 a x" "has_reg \<sigma>1 b y" using moved_keeps [OF m1(1)] a b ne h(4,5) by auto
  from moved_alu_r [OF m1(3,4) sgs(2) alu(2) t t b m1(2) k1(2)] obtain \<sigma>2
    where m2: "moved ws \<sigma>1 \<sigma>2 1 {t}" "has_reg \<sigma>2 t (word_alu I_MUL (word_alu I_DIV x y) y)"
      "sim_ok \<sigma>2" "sim_pc \<sigma>2 = sim_pc \<sigma> + 1 + 1" .
  have k2: "has_reg \<sigma>2 a x" using moved_keeps [OF m2(1)] a ne k1(1) by auto
  from moved_alu_r [OF m2(3,4) sgs(3) alu(3) t a t k2 m2(2)] obtain \<sigma>3
    where m3: "moved ws \<sigma>2 \<sigma>3 1 {t}" "has_reg \<sigma>3 t (word_alu I_SUB x (word_alu I_MUL (word_alu I_DIV x y) y))" .
  have "w = word_alu I_SUB x (word_alu I_MUL (word_alu I_DIV x y) y)" using h(3,6,7) by simp
  moreover have "moved ws \<sigma> \<sigma>3 (1 + 1 + 1) {t}"
    by (rule moved_trans_same [OF moved_trans_same [OF m1(1) m2(1)] m3(1)])
  ultimately show "\<exists>\<sigma>'. moved ws \<sigma> \<sigma>' (length [rw I_DIV t a b, rw I_MUL t t b, rw I_SUB t a t]) {t} \<and> has_reg \<sigma>' t w"
    using m3(2) by auto
qed

text \<open>The byte offset of a subscript.\<close>

definition koff :: "expr \<Rightarrow> env \<Rightarrow> int list \<Rightarrow> 32 word option" where
  "koff i env mem = map_option (push_bit 2) (keval env mem i)"

lemma finishes_off:
  assumes "is_reg t" "is_reg r"
  shows "finishes [iw I_SHL t r 2] V t (\<lambda>\<sigma> env. \<exists>v. has_reg \<sigma> r v \<and> keval env (sim_mem \<sigma>) i = Some v) (koff i)"
  unfolding finishes_def
proof (intro allI impI, elim exE conjE)
  fix ws \<sigma> env w v
  assume h: "sim_ok \<sigma>" "seg ws (sim_pc \<sigma>) [iw I_SHL t r 2]" "koff i env (sim_mem \<sigma>) = Some w"
    "has_reg \<sigma> r v" "keval env (sim_mem \<sigma>) i = Some v"
  have alu: "alu_op I_SHL" by (simp add: alu_op_def)
  have "w = word_alu I_SHL v (word_of_int 2)" using h(3,5) by (simp add: koff_def word_sh_def)
  with moved_alu_i [OF h(1) refl h(2) alu assms _ _ h(4)]
  show "\<exists>\<sigma>'. moved ws \<sigma> \<sigma>' (length [iw I_SHL t r 2]) {t} \<and> has_reg \<sigma>' t w" by auto
qed

lemma rd32_word:
  assumes "rd32 mem a = Inr w" "byte_mem mem"
  shows "uint (word_of_int w :: 32 word) = w"
proof -
  obtain n where n: "buf_off (length mem) 4 a = Some n" "w = mem ! n OR push_bit 8 (mem ! (n + 1)) OR
      push_bit 16 (mem ! (n + 2)) OR push_bit 24 (mem ! (n + 3))"
    using assms(1) by (auto simp: rd32_def split: option.splits)
  have "n + 3 < length mem" using n(1) by (auto simp: buf_off_def split: if_splits)
  then have b: "0 \<le> mem ! n \<and> mem ! n < 256" "0 \<le> mem ! (n + 1) \<and> mem ! (n + 1) < 256"
    "0 \<le> mem ! (n + 2) \<and> mem ! (n + 2) < 256" "0 \<le> mem ! (n + 3) \<and> mem ! (n + 3) < 256"
    using assms(2) unfolding byte_mem_def by simp_all
  have "take_bit 32 w = w"
    unfolding n(2) take_bit_or take_bit_push_bit using b by (simp add: take_bit_id)
  then show ?thesis by (simp add: uint_word_of_int take_bit_eq_mod)
qed

lemma finishes_load:
  assumes t: "is_reg t" and off: "is_reg off" and base: "is_reg base" and x: "map_of V x = Some base"
  shows "finishes [rw I_LOAD t base off] V t (\<lambda>\<sigma> env. \<exists>v. has_reg \<sigma> off v \<and> koff i env (sim_mem \<sigma>) = Some v)
    (\<lambda>env mem. keval env mem (Subscript (Name x) i))"
  unfolding finishes_def
proof (intro allI impI, elim exE conjE)
  fix ws \<sigma> env w v
  assume h: "sim_ok \<sigma>" "seg ws (sim_pc \<sigma>) [rw I_LOAD t base off]" "holds V env \<sigma>"
    "keval env (sim_mem \<sigma>) (Subscript (Name x) i) = Some w" "has_reg \<sigma> off v" "koff i env (sim_mem \<sigma>) = Some v"
  obtain b idx u where e: "env x = Some b" "keval env (sim_mem \<sigma>) i = Some idx"
    "rd32 (sim_mem \<sigma>) (kaddr b idx) = Inr u" "w = word_of_int u"
    using h(4) by (auto split: option.splits sum.splits)
  have "has_reg \<sigma> base b" using h(3) e(1) x by (force simp: holds_def)
  moreover have "byte_mem (sim_mem \<sigma>)" using h(1) by (simp add: sim_ok_def)
  then have "rd32 (sim_mem \<sigma>) (uint b + uint v) = Inr (uint w)"
    using e h(6) rd32_word by (simp add: koff_def kaddr_def)
  ultimately show "\<exists>\<sigma>'. moved ws \<sigma> \<sigma>' (length [rw I_LOAD t base off]) {t} \<and> has_reg \<sigma>' t w"
    using moved_load [OF h(1) refl h(2) t base off _ h(5)] by (metis One_nat_def list.size(3,4) add_0)
qed

section \<open>Every expression is lowered correctly\<close>

lemma gen_subscript_lowered:
  assumes IH: "\<And>s s' r tmp. gen_expr i s = Inr ((r, tmp), s') \<Longrightarrow> cg_ok s \<Longrightarrow>
      lowered s s' r tmp (\<lambda>env mem. keval env mem i)"
    and g: "gen_subscript v i s = Inr ((base, off, off_tmp), s')" and ok: "cg_ok s"
  obtains x where "v = Name x" "map_of (vars s) x = Some base" "off_tmp" "lowered s s' off True (koff i)"
proof -
  obtain x where v: "v = Name x" using g by (cases v) auto
  then obtain r tmp s1 s2 where s: "map_of (vars s) x \<noteq> None" "gen_expr i s = Inr ((r, tmp), s1)"
    "alloc s1 = Inr (off, s2)" "off_tmp" "s' = release_if tmp r (s2\<lparr>asm := asm_append [iw I_SHL off r 2] (asm s2)\<rparr>)"
    "map_of (vars s') x = Some base"
    using g by (auto split: option.splits simp: Let_def)
  note low = IH [OF s(2) ok]
  have "is_reg off" using free_is_reg alloc_ok(1) [OF s(3)] low by (auto simp: lowered_def)
  then have "lowered s s' off True (koff i)"
    unfolding s(5) using lowered_reg [OF low ok]
    by (intro lowered_unary [OF low ok s(3) finishes_off]) (auto simp: koff_def)
  moreover from this have "vars s' = vars s" by (simp add: lowered_def)
  ultimately show thesis using that v s by simp
qed

lemma gen_expr_lowered:
  "gen_expr e s = Inr ((r, tmp), s') \<Longrightarrow> cg_ok s \<Longrightarrow> lowered s s' r tmp (\<lambda>env mem. keval env mem e)"
proof (induction e arbitrary: s s' r tmp)
  case (Constant c)
  then obtain v s1 where "const_int c = Some v" "alloc s = Inr (r, s1)" "tmp"
    "s' = s1\<lparr>asm := asm_append (li_words r v) (asm s1)\<rparr>"
    by (auto split: option.splits)
  then show ?case using lowered_const Constant.prems(2) by simp
next
  case (Name x)
  then have s: "map_of (vars s) x = Some r" "\<not> tmp" "s' = s" by (auto split: option.splits)
  have "computes [] (set (free_regs s)) (vars s) (\<lambda>env mem. keval env mem (Name x)) r"
    unfolding computes_def using s(1) by (force simp: holds_def intro: moved_refl)
  then show ?case
    using s Name.prems(2) var_in_regs [OF s(1)] by (auto simp: lowered_def intro!: exI [of _ "[]"])
next
  case (USub e)
  then obtain src t1 s1 s2 where s: "gen_expr e s = Inr ((src, t1), s1)" "alloc s1 = Inr (r, s2)" "tmp"
    "s' = release_if t1 src (s2\<lparr>asm := asm_append [rw I_SUB r R_ZERO src] (asm s2)\<rparr>)"
    by auto
  note low = USub.IH [OF s(1) USub.prems(2)]
  have "is_reg r" using free_is_reg alloc_ok(1) [OF s(2)] low by (auto simp: lowered_def)
  then have "lowered s s' r True (\<lambda>env mem. keval env mem (USub e))"
    unfolding s(4) using lowered_reg [OF low USub.prems(2)]
    by (intro lowered_unary [OF low USub.prems(2) s(2) finishes_neg]) auto
  then show ?case using s(3) by simp
next
  case (BinOp l opn e)
  obtain a ta s1 where s1: "gen_expr l s = Inr ((a, ta), s1)" and bop: "BINOPS opn \<noteq> None \<or> opn = Mod"
    using BinOp.prems(1) by (auto split: if_splits)
  note low1 = BinOp.IH(1) [OF s1 BinOp.prems(2)]
  have ok1: "cg_ok s1" and v1: "vars s1 = vars s" using low1 by (simp_all add: lowered_def)
  note ra = lowered_reg [OF low1 BinOp.prems(2)]
  show ?case
  proof (cases "if opn = Mod then None else imm_const e")
    case (Some i)
    then have c: "imm_const e = Some i" "opn \<noteq> Mod" by (auto split: if_splits)
    obtain k where k: "BINOPS opn = Some k" using bop c by auto
    have i: "0 \<le> i" "i \<le> 0xFFF" using c(1) by (auto elim!: imm_const.elims split: option.splits if_splits)
    obtain s2 where s2: "alloc s1 = Inr (r, s2)" "tmp"
      "s' = release_if ta a (s2\<lparr>asm := asm_append [iw k r a i] (asm s2)\<rparr>)"
      using BinOp.prems(1) s1 c k i by auto
    have "is_reg r" using free_is_reg alloc_ok(1) [OF s2(1)] ok1 by blast
    then have "lowered s s' r True (\<lambda>env mem. keval env mem (BinOp l opn e))"
      unfolding s2(3) using ra
      by (intro lowered_unary [OF low1 BinOp.prems(2) s2(1) finishes_imm [OF _ _ k c(1)]]) (auto split: option.splits)
    then show ?thesis using s2(2) by simp
  next
    case None
    obtain b tb s2 s3 where s2: "gen_expr e s1 = Inr ((b, tb), s2)" "alloc s2 = Inr (r, s3)" "tmp"
      and s': "s' = release_if tb b (release_if ta a (if opn = Mod
         then s3\<lparr>asm := asm_append [rw I_DIV r a b, rw I_MUL r r b, rw I_SUB r a r] (asm s3)\<rparr>
         else s3\<lparr>asm := asm_append [rw (the (BINOPS opn)) r a b] (asm s3)\<rparr>))"
      using BinOp.prems(1) s1 None by (auto simp: Let_def split: if_splits)
    note low2 = BinOp.IH(2) [OF s2(1) ok1]
    have ok2: "cg_ok s2" and v2: "vars s2 = vars s1" using low2 by (simp_all add: lowered_def)
    note rb = lowered_reg [OF low2 ok1]
    note t = alloc_ok [OF s2(2) ok2]
    have r: "is_reg r" using free_is_reg [OF ok2 t(1)] by blast
    have ne: "r \<noteq> a" "r \<noteq> b" using t(1) ra rb low2 by (auto simp: lowered_def split: if_splits)
    have val: "\<And>env mem w. keval env mem (BinOp l opn e) = Some w \<Longrightarrow>
      \<exists>x y. keval env mem l = Some x \<and> keval env mem e = Some y" by (auto split: option.splits)
    have "lowered s s' r True (\<lambda>env mem. keval env mem (BinOp l opn e))"
    proof (cases "opn = Mod")
      case True
      have "lowered s (release_if tb b (release_if ta a
          (s3\<lparr>asm := asm_append [rw I_DIV r a b, rw I_MUL r r b, rw I_SUB r a r] (asm s3)\<rparr>))) r True
          (\<lambda>env mem. keval env mem (BinOp l Mod e))"
        using r ra rb ne val True by (intro lowered_binary [OF low1 low2 BinOp.prems(2) s2(2) finishes_mod]) auto
      then show ?thesis using True s' by simp
    next
      case False
      then obtain k where k: "BINOPS opn = Some k" using bop by auto
      have "lowered s (release_if tb b (release_if ta a (s3\<lparr>asm := asm_append [rw k r a b] (asm s3)\<rparr>))) r True
          (\<lambda>env mem. keval env mem (BinOp l opn e))"
        using r ra rb val by (intro lowered_binary [OF low1 low2 BinOp.prems(2) s2(2) finishes_binop [OF _ _ _ k]]) auto
      then show ?thesis using False k s' by simp
    qed
    then show ?thesis using s2(3) by simp
  qed
next
  case (Subscript v i)
  then obtain base off ot s1 s2 where s: "gen_subscript v i s = Inr ((base, off, ot), s1)" "alloc s1 = Inr (r, s2)"
    "tmp" "s' = release_if ot off (s2\<lparr>asm := asm_append [rw I_LOAD r base off] (asm s2)\<rparr>)"
    by auto
  from gen_subscript_lowered [OF Subscript.IH(2) s(1) Subscript.prems(2)] obtain x
    where x: "v = Name x" "map_of (vars s) x = Some base" "ot" "lowered s s1 off True (koff i)" by metis
  have "is_reg r" using free_is_reg alloc_ok(1) [OF s(2)] x(4) by (auto simp: lowered_def)
  moreover have "is_reg base" using var_is_reg [OF Subscript.prems(2) var_in_regs [OF x(2)]] by simp
  ultimately have "lowered s (release_if True off (s2\<lparr>asm := asm_append [rw I_LOAD r base off] (asm s2)\<rparr>)) r True
      (\<lambda>env mem. keval env mem (Subscript (Name x) i))"
    using lowered_reg [OF x(4) Subscript.prems(2)]
    by (intro lowered_unary [OF x(4) Subscript.prems(2) s(2) finishes_load [OF _ _ _ x(2)]])
      (auto simp: koff_def split: option.splits)
  then show ?case using s(3,4) x(1,3) by simp
qed auto

end
