(* ===== verification/CodegenStmt.thy ===== *)
theory CodegenStmt
  imports CodegenExpr
begin

text \<open>
  The structure of the code a statement generates. \<open>aext\<close> says that an assembler state
  extends another one, \<open>resolved\<close> that a program is the patched form of a state's words.
  Every statement extends the assembler, keeps the register invariant, and returns every
  register it takes: the free registers and those of variables together stay the same set.
\<close>

section \<open>Extending and resolving code\<close>

definition aext :: "assembler \<Rightarrow> assembler \<Rightarrow> bool" where
  "aext a a' \<longleftrightarrow> (\<exists>w. words a' = words a @ w) \<and>
     (\<exists>f. fixups a' = fixups a @ f \<and> (\<forall>(i, l) \<in> set f. length (words a) \<le> i)) \<and>
     length (labels a) \<le> length (labels a') \<and>
     (\<forall>l pc. label_pc (labels a) l = Some pc \<longrightarrow> label_pc (labels a') l = Some pc)"

definition astable :: "assembler \<Rightarrow> assembler \<Rightarrow> bool" where
  "astable a a' \<longleftrightarrow> aext a a' \<and> (\<forall>l < length (labels a). label_pc (labels a') l = label_pc (labels a) l)"

lemma aext_refl [simp]: "aext a a"
  by (auto simp: aext_def)

lemma aext_trans: "aext a b \<Longrightarrow> aext b c \<Longrightarrow> aext a c"
  unfolding aext_def by fastforce

lemma astable_refl [simp]: "astable a a"
  by (simp add: astable_def)

lemma astable_trans: "astable a b \<Longrightarrow> astable b c \<Longrightarrow> astable a c"
  unfolding astable_def using aext_trans by (metis aext_def order_less_le_trans)

lemma aext_append [simp]: "aext a (asm_append code a)" "astable a (asm_append code a)"
  by (auto simp: aext_def astable_def)

lemma asm_wf_append: "asm_wf a \<Longrightarrow> asm_wf (asm_append code a)"
proof (induction code arbitrary: a)
  case (Cons w ws)
  have "asm_wf (asm_append [w] a)" using asm_wf_emit [OF Cons.prems, of w] by simp
  from Cons.IH [OF this] show ?case by simp
qed simp

definition resolved :: "int list \<Rightarrow> assembler \<Rightarrow> bool" where
  "resolved ws a \<longleftrightarrow> length (words a) \<le> length ws \<and>
     (\<forall>i < length (words a). i \<notin> fst ` set (fixups a) \<longrightarrow> ws ! i = words a ! i) \<and>
     (\<forall>(i, l) \<in> set (fixups a). \<forall>pc. label_pc (labels a) l = Some pc \<longrightarrow> pc \<le> 0xFFF \<and> ws ! i = patch (words a ! i) pc)"

lemma asm_wf_fixup: "asm_wf a \<Longrightarrow> (i, l) \<in> set (fixups a) \<Longrightarrow> i < length (words a)"
  by (auto simp: asm_wf_def)

lemma resolved_ext:
  assumes e: "aext a a'" and r: "resolved ws a'" and wf: "asm_wf a"
  shows "resolved ws a"
proof -
  obtain w f where w: "words a' = words a @ w" and f: "fixups a' = fixups a @ f"
    "\<forall>(i, l) \<in> set f. length (words a) \<le> i" using e by (auto simp: aext_def)
  have lab: "label_pc (labels a') l = Some pc" if "label_pc (labels a) l = Some pc" for l pc
    using e that by (simp add: aext_def)
  have "ws ! i = words a ! i" if "i < length (words a)" "i \<notin> fst ` set (fixups a)" for i
  proof -
    have "i \<notin> fst ` set f" using that(1) f(2) by force
    then have "ws ! i = words a' ! i" using r that w f(1) by (auto simp: resolved_def image_Un)
    then show ?thesis using that(1) w by (simp add: nth_append)
  qed
  moreover have "pc \<le> 0xFFF \<and> ws ! i = patch (words a ! i) pc"
    if "(i, l) \<in> set (fixups a)" "label_pc (labels a) l = Some pc" for i l pc
  proof -
    have "(i, l) \<in> set (fixups a')" using that(1) f(1) by simp
    with r lab [OF that(2)] have "pc \<le> 0xFFF \<and> ws ! i = patch (words a' ! i) pc" unfolding resolved_def by blast
    then show ?thesis using asm_wf_fixup [OF wf that(1)] w by (simp add: nth_append)
  qed
  moreover have "length (words a) \<le> length ws" using r w by (simp add: resolved_def)
  ultimately show ?thesis unfolding resolved_def by blast
qed

lemma resolved_word:
  assumes "resolved ws a" "i < length (words a)" "i \<notin> fst ` set (fixups a)"
  shows "i < length ws" "ws ! i = words a ! i"
  using assms by (auto simp: resolved_def)

lemma resolved_fixup:
  assumes "resolved ws a" "(i, l) \<in> set (fixups a)" "label_pc (labels a) l = Some pc"
  shows "pc \<le> 0xFFF \<and> ws ! i = patch (words a ! i) pc"
  using assms unfolding resolved_def by blast

lemma resolved_seg:
  assumes "resolved ws a'" "asm_wf a" "words a' = words a @ code @ rest" "fixups a' = fixups a @ f"
    "\<forall>(i, l) \<in> set f. length (words a) + length code \<le> i"
  shows "seg ws (length (words a)) code"
  unfolding seg_def
proof (intro conjI allI impI)
  show "length (words a) + length code \<le> length ws" using assms(1,3) by (simp add: resolved_def)
  fix i
  assume i: "i < length code"
  have "length (words a) + i \<notin> fst ` set (fixups a')"
    using assms(4,5) i asm_wf_fixup [OF assms(2)] by fastforce
  then show "ws ! (length (words a) + i) = code ! i"
    using resolved_word(2) [OF assms(1), of "length (words a) + i"] assms(3) i by (simp add: nth_append)
qed

lemma resolved_append_seg:
  "resolved ws (asm_append code a) \<Longrightarrow> asm_wf a \<Longrightarrow> seg ws (length (words a)) code"
  using resolved_seg [of ws "asm_append code a" a code "[]" "[]"] by simp

lemma finalize_resolved:
  assumes f: "asm_finalize a = Inr (ws, a')" and wf: "asm_wf a"
  shows "resolved ws a" "length ws = length (words a)"
proof -
  have p: "patch_all (labels a) (fixups a) (words a) = Inr ws" using f by (auto simp: asm_finalize_def)
  show len: "length ws = length (words a)" by (rule patch_all_length [OF p])
  have "distinct (map fst (fixups a))" using wf by (simp add: asm_wf_def)
  then have "pc \<le> 0xFFF \<and> ws ! i = patch (words a ! i) pc"
    if "(i, l) \<in> set (fixups a)" "label_pc (labels a) l = Some pc" for i l pc
    using patch_all_fixup [OF p _ that(1)] that(2) by auto
  then show "resolved ws a" using patch_all_other [OF p] len by (auto simp: resolved_def)
qed

section \<open>Variables\<close>

definition vext :: "cg \<Rightarrow> cg \<Rightarrow> bool" where
  "vext s s' \<longleftrightarrow> (\<forall>x r. map_of (vars s) x = Some r \<longrightarrow> map_of (vars s') x = Some r)"

lemma vext_refl [simp]: "vext s s"
  by (simp add: vext_def)

lemma vext_trans: "vext s t \<Longrightarrow> vext t u \<Longrightarrow> vext s u"
  by (simp add: vext_def)

lemma vext_eq: "vars s' = vars s \<Longrightarrow> vext s s'"
  by (simp add: vext_def)

text \<open>The registers the code generator manages.\<close>

definition managed :: "cg \<Rightarrow> int set" where
  "managed s = set (free_regs s) \<union> regs_of s"

lemma var_reg_ok:
  assumes "var_reg x s = Inr (r, s')" "cg_ok s"
  shows "cg_ok s'" "asm s' = asm s" "map_of (vars s') x = Some r" "vext s s'" "managed s' = managed s"
    "set (free_regs s') \<subseteq> set (free_regs s)" "regs_of s' = insert r (regs_of s)"
    "set (free_regs s') = set (free_regs s) - {r}"
proof -
  have *: "cg_ok s' \<and> asm s' = asm s \<and> map_of (vars s') x = Some r \<and> vext s s' \<and> managed s' = managed s \<and>
    set (free_regs s') \<subseteq> set (free_regs s) \<and> regs_of s' = insert r (regs_of s) \<and>
    set (free_regs s') = set (free_regs s) - {r}"
  proof (cases "map_of (vars s) x")
    case None
    then obtain s1 where s1: "alloc s = Inr (r, s1)" "s' = s1\<lparr>vars := (x, r) # vars s1\<rparr>"
      using assms(1) by (auto simp: var_reg_def)
    note a = alloc_ok [OF s1(1) assms(2)]
    have "regs_of s' = insert r (regs_of s)" using s1(2) a(4) by (simp add: regs_of_def)
    moreover from this have "cg_ok s'"
      using a s1(2) assms(2) free_is_reg [OF assms(2) a(1)] by (auto simp: cg_ok_def regs_of_def)
    ultimately show ?thesis using None a s1(2) by (auto simp: vext_def managed_def)
  next
    case (Some r')
    then have "s' = s" "map_of (vars s) x = Some r" using assms(1) by (auto simp: var_reg_def)
    moreover from this have "r \<in> regs_of s" by (auto dest: var_in_regs)
    moreover from this have "r \<notin> set (free_regs s)" using var_is_reg [OF assms(2)] by blast
    ultimately show ?thesis using assms(2) by (auto simp: insert_absorb)
  qed
  then show "cg_ok s'" "asm s' = asm s" "map_of (vars s') x = Some r" "vext s s'" "managed s' = managed s"
    "set (free_regs s') \<subseteq> set (free_regs s)" "regs_of s' = insert r (regs_of s)"
    "set (free_regs s') = set (free_regs s) - {r}" by blast+
qed

section \<open>What a statement does to the state\<close>

definition gstep :: "cg \<Rightarrow> cg \<Rightarrow> bool" where
  "gstep s s' \<longleftrightarrow> cg_ok s' \<and> asm_wf (asm s') \<and> astable (asm s) (asm s') \<and> vext s s' \<and> managed s' = managed s"

lemma gstep_refl: "cg_ok s \<Longrightarrow> asm_wf (asm s) \<Longrightarrow> gstep s s"
  by (simp add: gstep_def)

lemma gstep_trans: "gstep s t \<Longrightarrow> gstep t u \<Longrightarrow> gstep s u"
  by (auto simp: gstep_def intro: astable_trans vext_trans)

lemma lowered_release:
  assumes low: "lowered s s' r tmp val" and ok: "cg_ok s" and s'': "cg_ok s''"
    "vars s'' = vars s'" "free_regs s'' = free_regs s'"
  shows "cg_ok (release_if tmp r s'')" "vars (release_if tmp r s'') = vars s"
    "asm (release_if tmp r s'') = asm s''" "set (free_regs (release_if tmp r s'')) = set (free_regs s)"
proof -
  note r = lowered_reg [OF low ok]
  have "tmp \<Longrightarrow> r \<notin> set (free_regs s'') \<and> r \<in> set R_POOL \<and> r \<notin> regs_of s''"
    using r s'' by (auto simp: regs_of_def)
  note rel = release_if_ok [OF s''(1) this]
  show "cg_ok (release_if tmp r s'')" "vars (release_if tmp r s'') = vars s"
    "asm (release_if tmp r s'') = asm s''" "set (free_regs (release_if tmp r s'')) = set (free_regs s)"
    using rel low s'' by (auto simp: lowered_def split: if_splits)
qed

lemma lowered_asm: "lowered s s' r tmp val \<Longrightarrow> \<exists>code. asm s' = asm_append code (asm s)"
  by (auto simp: lowered_def)

end
