(* ===== verification/CodegenCorrect.thy ===== *)
theory CodegenCorrect
  imports CodegenStmt
begin

text \<open>
  The scalar backend is correct: whenever a kernel has a meaning (\<open>krun\<close>), the program
  \<open>compile\<close> makes of it halts on the simulator with the memory that meaning gives. The proof
  is a forward simulation. The machine \<open>arrives\<close> when it stands at the end of a statement's
  code holding the new environment, with every register the generator does not manage
  unchanged; a loop is handled by induction on the fuel.
\<close>

section \<open>The simulation relation\<close>

definition arrives :: "int list \<Rightarrow> int set \<Rightarrow> cg \<Rightarrow> sim \<Rightarrow> env \<Rightarrow> int list \<Rightarrow> bool" where
  "arrives ws U s' \<sigma> env mem \<longleftrightarrow>
     (\<exists>\<sigma>'. steps ws \<sigma> \<sigma>' \<and> sim_pc \<sigma>' = length (words (asm s')) \<and> sim_ok \<sigma>' \<and> holds (vars s') env \<sigma>' \<and>
        sim_mem \<sigma>' = mem \<and> (\<forall>i. is_reg i \<longrightarrow> i \<notin> U \<longrightarrow> get_reg i \<sigma>' = get_reg i \<sigma>))"

definition halts :: "int list \<Rightarrow> sim \<Rightarrow> int list \<Rightarrow> bool" where
  "halts ws \<sigma> mem \<longleftrightarrow> (\<exists>\<sigma>' \<sigma>''. steps ws \<sigma> \<sigma>' \<and> sim_step ws \<sigma>' = Inr (Exited \<sigma>'') \<and> sim_mem \<sigma>'' = mem)"

fun outcome :: "int list \<Rightarrow> int set \<Rightarrow> cg \<Rightarrow> sim \<Rightarrow> kres \<Rightarrow> bool" where
  "outcome ws U s' \<sigma> (KNormal env mem) = arrives ws U s' \<sigma> env mem"
| "outcome ws U s' \<sigma> (KReturn mem) = halts ws \<sigma> mem"

definition at_code :: "cg \<Rightarrow> sim \<Rightarrow> env \<Rightarrow> bool" where
  "at_code s \<sigma> env \<longleftrightarrow> sim_pc \<sigma> = length (words (asm s)) \<and> sim_ok \<sigma> \<and> holds (vars s) env \<sigma>"

lemma arrivesE:
  assumes "arrives ws U s' \<sigma> env mem"
  obtains \<sigma>' where "steps ws \<sigma> \<sigma>'" "at_code s' \<sigma>' env" "sim_mem \<sigma>' = mem"
    "\<forall>i. is_reg i \<longrightarrow> i \<notin> U \<longrightarrow> get_reg i \<sigma>' = get_reg i \<sigma>"
  using assms unfolding arrives_def at_code_def by (elim exE conjE) simp

lemma arrivesI:
  assumes "steps ws \<sigma> \<sigma>'" "at_code s' \<sigma>' env" "sim_mem \<sigma>' = mem"
    "\<forall>i. is_reg i \<longrightarrow> i \<notin> U \<longrightarrow> get_reg i \<sigma>' = get_reg i \<sigma>"
  shows "arrives ws U s' \<sigma> env mem"
  using assms unfolding arrives_def at_code_def by (intro exI [of _ \<sigma>']) simp

lemma steps_halts: "steps ws \<sigma> \<sigma>1 \<Longrightarrow> halts ws \<sigma>1 m \<Longrightarrow> halts ws \<sigma> m"
  unfolding halts_def by (blast intro: steps_trans)

lemma arrives_then:
  assumes "arrives ws U s1 \<sigma> env mem" "U' \<subseteq> U"
    and "\<And>\<sigma>1. at_code s1 \<sigma>1 env \<Longrightarrow> sim_mem \<sigma>1 = mem \<Longrightarrow> outcome ws U' s2 \<sigma>1 res"
  shows "outcome ws U s2 \<sigma> res"
proof -
  obtain \<sigma>1 where s1: "steps ws \<sigma> \<sigma>1" "at_code s1 \<sigma>1 env" "sim_mem \<sigma>1 = mem"
    "\<forall>i. is_reg i \<longrightarrow> i \<notin> U \<longrightarrow> get_reg i \<sigma>1 = get_reg i \<sigma>"
    using assms(1) by (rule arrivesE)
  from assms(3) [OF s1(2,3)] show ?thesis
  proof (cases res)
    case (KNormal env2 mem2)
    with assms(3) [OF s1(2,3)] have "arrives ws U' s2 \<sigma>1 env2 mem2" by simp
    then obtain \<sigma>2 where s2: "steps ws \<sigma>1 \<sigma>2" "at_code s2 \<sigma>2 env2" "sim_mem \<sigma>2 = mem2"
      "\<forall>i. is_reg i \<longrightarrow> i \<notin> U' \<longrightarrow> get_reg i \<sigma>2 = get_reg i \<sigma>1"
      by (rule arrivesE)
    have "\<forall>i. is_reg i \<longrightarrow> i \<notin> U \<longrightarrow> get_reg i \<sigma>2 = get_reg i \<sigma>"
      using s1(4) s2(4) assms(2) by (metis subsetD)
    with steps_trans [OF s1(1) s2(1)] s2(2,3) show ?thesis
      unfolding KNormal outcome.simps by (rule arrivesI)
  next
    case (KReturn m)
    then show ?thesis using assms(3) [OF s1(2,3)] steps_halts [OF s1(1)] by simp
  qed
qed

lemma holds_reg: "holds V env \<sigma> \<Longrightarrow> env x = Some v \<Longrightarrow> map_of V x = Some r \<Longrightarrow> has_reg \<sigma> r v"
  unfolding holds_def by force

lemma holds_vext: "holds (vars s) env \<sigma> \<Longrightarrow> vext s s' \<Longrightarrow> holds (vars s') env \<sigma>"
  unfolding holds_def vext_def by blast

lemma distinct_snd_inj:
  assumes "distinct (map snd V)" "map_of V x = Some r" "map_of V y = Some r"
  shows "x = y"
proof -
  have "(x, r) \<in> set V" "(y, r) \<in> set V" using assms(2,3) by (auto dest: map_of_SomeD)
  then show ?thesis using assms(1) by (metis distinct_map inj_onD prod.inject snd_conv)
qed

lemma holds_update:
  assumes h: "holds (vars s) env \<sigma>" and ok: "cg_ok s" and x: "map_of (vars s) x = Some r"
    and m: "moved ws \<sigma> \<sigma>' n {r}" and v: "has_reg \<sigma>' r v"
  shows "holds (vars s) (env(x \<mapsto> v)) \<sigma>'"
proof -
  have r: "is_reg r" "r \<noteq> 0" using var_is_reg [OF ok var_in_regs [OF x]] by auto
  have "zero_reg \<sigma>'" using h r(2) moved_keeps [OF m, of R_ZERO 0] by (simp add: holds_def zero_reg_def R_ZERO_def)
  moreover have "\<exists>reg. map_of (vars s) y = Some reg \<and> has_reg \<sigma>' reg w" if y: "y \<noteq> x" "env y = Some w" for y w
  proof -
    obtain reg where reg: "map_of (vars s) y = Some reg" "has_reg \<sigma> reg w" using h y(2) by (auto simp: holds_def)
    have "reg \<noteq> r" using distinct_snd_inj [of "vars s" y r x] reg(1) x y(1) ok by (auto simp: cg_ok_def)
    then show ?thesis using reg moved_keeps [OF m] var_is_reg [OF ok var_in_regs [OF reg(1)]] by auto
  qed
  ultimately show ?thesis using x v unfolding holds_def by auto
qed

lemma moved_mov:
  assumes "sim_ok \<sigma>" "seg ws (sim_pc \<sigma>) (if rd \<noteq> rs then [iw I_ADD rd rs 0] else [])" "is_reg rd" "is_reg rs"
    "has_reg \<sigma> rs v"
  obtains \<sigma>' where "moved ws \<sigma> \<sigma>' (length (if rd \<noteq> rs then [iw I_ADD rd rs 0] else [])) {rd}" "has_reg \<sigma>' rd v"
proof (cases "rd = rs")
  case True
  then show thesis using that moved_refl [OF assms(1)] assms(5) by auto
next
  case False
  have "alu_op I_ADD" by (simp add: alu_op_def)
  from moved_alu_i [OF assms(1) refl _ this assms(3,4) _ _ assms(5), of ws 0] assms(2) False
  obtain \<sigma>' where "moved ws \<sigma> \<sigma>' 1 {rd}" "has_reg \<sigma>' rd (word_alu I_ADD v (word_of_int 0))" by auto
  then show thesis using that False by auto
qed

lemma lowered_run:
  assumes low: "lowered s s1 r tmp val" and ok: "cg_ok s" and wf: "asm_wf (asm s)"
    and res: "resolved ws (asm s1)" and at: "at_code s \<sigma> env" and v: "val env (sim_mem \<sigma>) = Some v"
  obtains \<sigma>' n where "moved ws \<sigma> \<sigma>' n (set (free_regs s))" "has_reg \<sigma>' r v" "at_code s1 \<sigma>' env"
proof -
  obtain code where c: "asm s1 = asm_append code (asm s)" "computes code (set (free_regs s)) (vars s) val r"
    using low by (auto simp: lowered_def)
  have "seg ws (sim_pc \<sigma>) code"
    using resolved_append_seg [OF res [unfolded c(1)] wf] at by (simp add: at_code_def)
  with c(2) at v obtain \<sigma>' where m: "moved ws \<sigma> \<sigma>' (length code) (set (free_regs s))" "has_reg \<sigma>' r v"
    unfolding computes_def at_code_def by blast
  have "at_code s1 \<sigma>' env"
    using holds_moved_free [OF _ m(1) order_refl ok, of env] at low c(1) moved_ok [OF m(1)]
    by (simp add: at_code_def lowered_def)
  then show thesis using that m by blast
qed

text \<open>A move into a variable's register after an expression.\<close>

lemma mov_run:
  assumes ok: "cg_ok s" and wf: "asm_wf (asm s)" and x: "map_of (vars s) x = Some dst" and src: "is_reg src"
    and res: "resolved ws (asm_append (if dst \<noteq> src then [iw I_ADD dst src 0] else []) (asm s))"
    and at: "at_code s \<sigma> env" and v: "has_reg \<sigma> src v"
  obtains \<sigma>' n where "moved ws \<sigma> \<sigma>' n {dst}"
    "at_code (s\<lparr>asm := asm_append (if dst \<noteq> src then [iw I_ADD dst src 0] else []) (asm s)\<rparr>) \<sigma>' (env(x \<mapsto> v))"
proof -
  have d: "is_reg dst" using var_is_reg [OF ok var_in_regs [OF x]] by simp
  have "seg ws (sim_pc \<sigma>) (if dst \<noteq> src then [iw I_ADD dst src 0] else [])"
    using resolved_append_seg [OF res wf] at by (simp add: at_code_def)
  then obtain \<sigma>' where m: "moved ws \<sigma> \<sigma>' (length (if dst \<noteq> src then [iw I_ADD dst src 0] else [])) {dst}" "has_reg \<sigma>' dst v"
    using moved_mov [OF _ _ d src v] at by (auto simp: at_code_def)
  then show thesis
    using that holds_update [OF _ ok x m, of env] at moved_ok [OF m(1)] by (simp add: at_code_def)
qed

section \<open>Assignments\<close>

lemma gen_name_assign:
  assumes g: "gen_assign [Name x] e s = Inr s'" and ok: "cg_ok s" and wf: "asm_wf (asm s)"
  shows "gstep s s'"
    "resolved ws (asm s') \<Longrightarrow> at_code s \<sigma> env \<Longrightarrow> kassign [Name x] e env (sim_mem \<sigma>) = Some res \<Longrightarrow>
      outcome ws (managed s) s' \<sigma> res"
proof -
  obtain src tmp s1 dst s2 where s1: "gen_expr e s = Inr ((src, tmp), s1)" and s2: "var_reg x s1 = Inr (dst, s2)"
    and s': "s' = release_if tmp src (s2\<lparr>asm := asm_append (if dst \<noteq> src then [iw I_ADD dst src 0] else []) (asm s2)\<rparr>)"
    using g by (auto simp: gen_assign_def)
  note low = gen_expr_lowered [OF s1 ok]
  have ok1: "cg_ok s1" "vars s1 = vars s" using low by (simp_all add: lowered_def)
  note v = var_reg_ok [OF s2 ok1(1)]
  note r = lowered_reg [OF low ok]
  obtain code where code: "asm s1 = asm_append code (asm s)" using lowered_asm [OF low] by blast
  define mv where "mv = (if dst \<noteq> src then [iw I_ADD dst src 0] else [])"
  define s3 where "s3 = s2\<lparr>asm := asm_append mv (asm s2)\<rparr>"
  have dst: "dst \<in> set (free_regs s1) \<or> dst \<in> regs_of s1"
    using v(5,7) by (auto simp: managed_def)
  have "tmp \<Longrightarrow> src \<notin> set (free_regs s3) \<and> src \<in> set R_POOL \<and> src \<notin> regs_of s3"
    using r dst v(6,7) by (auto simp: s3_def regs_of_def)
  note rel = release_if_ok [OF _ this]
  have ok3: "cg_ok s3" using v(1) by (simp add: s3_def)
  have r1: "regs_of s1 = regs_of s" using ok1(2) by (simp add: regs_of_def)
  have a': "asm s' = asm_append (code @ mv) (asm s)"
    using rel(3) [OF ok3] s' code v(2) by (simp add: s3_def mv_def)
  have vars': "vars s' = vars s2" using rel(2) [OF ok3] s' by (simp add: s3_def mv_def)
  have "set (free_regs s') = (if tmp then insert src (set (free_regs s2)) else set (free_regs s2))"
    using rel(4) [OF ok3] s' by (simp add: s3_def mv_def)
  moreover have "set (free_regs s2) = set (free_regs s1) - {dst}" by (rule v(8))
  moreover have "regs_of s' = insert dst (regs_of s)" using vars' v(7) r1 by (simp add: regs_of_def)
  ultimately have man: "managed s' = managed s"
    using low r dst r1 unfolding managed_def lowered_def by (cases tmp) auto
  have vx: "vext s s'" using v(4) ok1(2) vars' by (simp add: vext_def)
  show gs: "gstep s s'"
    unfolding gstep_def using rel(1) [OF ok3] s' man vx asm_wf_append [OF wf] a' by (simp add: s3_def mv_def)
  assume res: "resolved ws (asm s')" and at: "at_code s \<sigma> env" and k: "kassign [Name x] e env (sim_mem \<sigma>) = Some res"
  obtain w where w: "keval env (sim_mem \<sigma>) e = Some w" "res = KNormal (env(x \<mapsto> w)) (sim_mem \<sigma>)"
    using k by (auto simp: kassign_def split: option.splits)
  have wf1: "asm_wf (asm s1)" using asm_wf_append [OF wf] code by simp
  have res1: "resolved ws (asm s1)"
    by (rule resolved_ext [OF _ res wf1]) (simp add: a' code flip: asm_append_simps(5))
  from lowered_run [OF low ok wf res1 at w(1)] obtain \<sigma>1 n where m1: "moved ws \<sigma> \<sigma>1 n (set (free_regs s))"
    "has_reg \<sigma>1 src w" "at_code s1 \<sigma>1 env" .
  have at2: "at_code s2 \<sigma>1 env" using m1(3) v(2) holds_vext [OF _ v(4)] by (simp add: at_code_def)
  have res2: "resolved ws (asm_append (if dst \<noteq> src then [iw I_ADD dst src 0] else []) (asm s2))"
    using res a' code v(2) by (simp add: mv_def)
  have src: "is_reg src" using r by simp
  have wf2: "asm_wf (asm s2)" using wf1 v(2) by simp
  from mov_run [OF v(1) wf2 v(3) src res2 at2 m1(2)] obtain \<sigma>2 n2 where m2: "moved ws \<sigma>1 \<sigma>2 n2 {dst}"
    "at_code s3 \<sigma>2 (env(x \<mapsto> w))" unfolding s3_def mv_def .
  have "moved ws \<sigma> \<sigma>2 (n + n2) (managed s)"
    by (rule moved_trans [OF m1(1) m2(1)]) (use dst r1 low in \<open>auto simp: managed_def lowered_def split: if_splits\<close>)
  moreover have "at_code s' \<sigma>2 (env(x \<mapsto> w))"
    using m2(2) vars' a' code v(2) by (simp add: at_code_def s3_def)
  ultimately show "outcome ws (managed s) s' \<sigma> res"
    unfolding w(2) outcome.simps by (intro arrivesI [of ws \<sigma> \<sigma>2]) (auto simp: moved_def)
qed

lemma wr32_bytes:
  assumes "wr32 m a v = Inr m'" "byte_mem m"
  shows "byte_mem m'"
proof -
  have b: "0 \<le> x AND 0xFF \<and> x AND 0xFF < 256" for x :: int
    using take_bit_lt [of 8 x] by (simp add: mask_simps)
  obtain n where "m' = put32 n (v AND 0xFFFFFFFF) m" using assms(1) by (auto simp: wr32_def split: option.splits)
  then show ?thesis
    using assms(2) b unfolding byte_mem_def put32_def
    by (auto dest!: set_update_subset_insert [THEN subsetD])
qed

lemma step_store_run:
  assumes "sim_ok \<sigma>" "seg ws (sim_pc \<sigma>) [rw I_STORE rd rs1 rs2]" "is_reg rd" "is_reg rs1" "is_reg rs2"
    "has_reg \<sigma> rd v" "has_reg \<sigma> rs1 a" "has_reg \<sigma> rs2 b" "wr32 (sim_mem \<sigma>) (uint a + uint b) (uint v) = Inr m"
  defines "\<sigma>' \<equiv> \<sigma>\<lparr>sim_pc := sim_pc \<sigma> + 1, sim_mem := m\<rparr>"
  shows "steps ws \<sigma> \<sigma>'" "sim_ok \<sigma>'" "holds V env \<sigma>' = holds V env \<sigma>" "get_reg i \<sigma>' = get_reg i \<sigma>"
proof -
  have "sim_pc \<sigma> < length ws" "ws ! sim_pc \<sigma> = rw I_STORE rd rs1 rs2" using assms(2) by simp_all
  from step_store [OF assms(1) this assms(3-9)] show "steps ws \<sigma> \<sigma>'" unfolding \<sigma>'_def by (rule steps_one)
  show "sim_ok \<sigma>'" using assms(1) wr32_bytes [OF assms(9)] by (simp add: sim_ok_def \<sigma>'_def)
  show "holds V env \<sigma>' = holds V env \<sigma>" "get_reg i \<sigma>' = get_reg i \<sigma>"
    by (simp_all add: holds_def zero_reg_def has_reg_def \<sigma>'_def)
qed

lemma gen_store_assign:
  assumes g: "gen_assign [Subscript v i] e s = Inr s'" and ok: "cg_ok s" and wf: "asm_wf (asm s)"
  shows "gstep s s'"
    "resolved ws (asm s') \<Longrightarrow> at_code s \<sigma> env \<Longrightarrow> kassign [Subscript v i] e env (sim_mem \<sigma>) = Some res \<Longrightarrow>
      outcome ws (managed s) s' \<sigma> res"
proof -
  obtain src tmp s1 base off ot s2 where s1: "gen_expr e s = Inr ((src, tmp), s1)"
    and s2: "gen_subscript v i s1 = Inr ((base, off, ot), s2)"
    and s': "s' = release_if ot off (release_if tmp src (s2\<lparr>asm := asm_append [rw I_STORE src base off] (asm s2)\<rparr>))"
    using g by (auto simp: gen_assign_def)
  note low = gen_expr_lowered [OF s1 ok]
  have ok1: "cg_ok s1" "vars s1 = vars s" using low by (simp_all add: lowered_def)
  obtain x where x: "v = Name x" "map_of (vars s1) x = Some base" "ot" "lowered s1 s2 off True (koff i)"
    using gen_subscript_lowered [OF gen_expr_lowered s2 ok1(1)] by metis
  note r = lowered_reg [OF low ok]
  note ro = lowered_reg [OF x(4) ok1(1)]
  have ok2: "cg_ok s2" "vars s2 = vars s" using x(4) ok1(2) by (simp_all add: lowered_def)
  obtain c1 where c1: "asm s1 = asm_append c1 (asm s)" using lowered_asm [OF low] by blast
  obtain c2 where c2: "asm s2 = asm_append c2 (asm s1)" using lowered_asm [OF x(4)] by blast
  define st where "st = [rw I_STORE src base off]"
  define s3 where "s3 = s2\<lparr>asm := asm_append st (asm s2)\<rparr>"
  have f2: "set (free_regs s2) = set (free_regs s1) - {off}" "off \<in> set (free_regs s1)"
    using x(4) by (simp_all add: lowered_def)
  have rg: "regs_of s1 = regs_of s" "regs_of s3 = regs_of s" using ok1 ok2 by (simp_all add: regs_of_def s3_def)
  have p1: "tmp \<Longrightarrow> src \<notin> set (free_regs s3) \<and> src \<in> set R_POOL \<and> src \<notin> regs_of s3"
    using r f2 rg by (auto simp: s3_def)
  have ok3: "cg_ok s3" using ok2 by (simp add: s3_def)
  note r1 = release_if_ok [OF ok3 p1]
  have p2: "ot \<Longrightarrow> off \<notin> set (free_regs (release_if tmp src s3)) \<and> off \<in> set R_POOL \<and> off \<notin> regs_of (release_if tmp src s3)"
    using ro r r1(2,4) f2 rg by (auto simp: s3_def regs_of_def split: if_splits)
  note r2 = release_if_ok [OF r1(1) p2]
  have a': "asm s' = asm_append st (asm s2)" using r1(3) r2(3) s' by (simp add: s3_def st_def)
  have vars': "vars s' = vars s" using r1(2) r2(2) s' ok2 by (simp add: s3_def st_def)
  have fr: "set (free_regs s') = set (free_regs s)"
    using r1(4) r2(4) s' f2 x(3) low by (auto simp: s3_def st_def lowered_def split: if_splits)
  have wf1: "asm_wf (asm s1)" and wf2: "asm_wf (asm s2)" using asm_wf_append wf c1 c2 by simp_all
  have wf': "asm_wf (asm s')" using asm_wf_append [OF wf2] a' by simp
  have "astable (asm s) (asm s')" unfolding a' c2 c1 by simp
  then show "gstep s s'"
    using r2(1) s' wf' vars' fr by (simp add: gstep_def vext_def managed_def regs_of_def s3_def st_def)
  assume res: "resolved ws (asm s')" and at: "at_code s \<sigma> env"
    and k: "kassign [Subscript v i] e env (sim_mem \<sigma>) = Some res"
  obtain w b idx m where w: "keval env (sim_mem \<sigma>) e = Some w" "env x = Some b" "keval env (sim_mem \<sigma>) i = Some idx"
    "wr32 (sim_mem \<sigma>) (kaddr b idx) (uint w) = Inr m" "res = KNormal env m"
    using k x(1) by (auto simp: kassign_def split: option.splits sum.splits)
  have res2: "resolved ws (asm s2)" by (rule resolved_ext [OF _ res wf2]) (simp add: a')
  have res1: "resolved ws (asm s1)" by (rule resolved_ext [OF _ res2 wf1]) (simp add: c2)
  from lowered_run [OF low ok wf res1 at w(1)] obtain \<sigma>1 n1 where m1: "moved ws \<sigma> \<sigma>1 n1 (set (free_regs s))"
    "has_reg \<sigma>1 src w" "at_code s1 \<sigma>1 env" .
  have mem1: "sim_mem \<sigma>1 = sim_mem \<sigma>" using m1(1) by (simp add: moved_def)
  have "koff i env (sim_mem \<sigma>1) = Some (push_bit 2 idx)" using w(3) mem1 by (simp add: koff_def)
  from lowered_run [OF x(4) ok1(1) wf1 res2 m1(3) this] obtain \<sigma>2 n2
    where m2: "moved ws \<sigma>1 \<sigma>2 n2 (set (free_regs s1))" "has_reg \<sigma>2 off (push_bit 2 idx)" "at_code s2 \<sigma>2 env" .
  have "map_of (vars s2) x = Some base" using x(2) ok1 ok2 by simp
  then have base: "has_reg \<sigma>2 base b" "is_reg base"
    using m2(3) holds_reg [where env = env and x = x and v = b] w(2) var_is_reg [OF ok2(1) var_in_regs] by (auto simp: at_code_def)
  have src: "has_reg \<sigma>2 src w" using moved_keeps [OF m2(1)] r m1(2) by simp
  have mem2: "sim_mem \<sigma>2 = sim_mem \<sigma>" using m2(1) mem1 by (simp add: moved_def)
  have "seg ws (sim_pc \<sigma>2) st" using resolved_append_seg [OF res [unfolded a'] wf2] m2(3) by (simp add: at_code_def)
  note run = step_store_run [OF _ this [unfolded st_def] _ base(2) _ src base(1) m2(2)]
  have "sim_ok \<sigma>2" "is_reg src" "is_reg off" "wr32 (sim_mem \<sigma>2) (uint b + uint (push_bit 2 idx)) (uint w) = Inr m"
    using m2(3) r ro w(4) mem2 by (simp_all add: at_code_def kaddr_def)
  note run = run [OF this]
  have "moved ws \<sigma> \<sigma>2 (n1 + n2) (managed s)"
    by (rule moved_trans [OF m1(1) m2(1)]) (use low in \<open>auto simp: managed_def lowered_def split: if_splits\<close>)
  then have st2: "steps ws \<sigma> \<sigma>2" "\<forall>i. is_reg i \<longrightarrow> i \<notin> managed s \<longrightarrow> get_reg i \<sigma>2 = get_reg i \<sigma>"
    by (simp_all add: moved_def)
  have "at_code s' (\<sigma>2\<lparr>sim_pc := sim_pc \<sigma>2 + 1, sim_mem := m\<rparr>) env"
    using m2(3) run(2,3) vars' ok2 a' by (simp add: at_code_def st_def)
  then show "outcome ws (managed s) s' \<sigma> res"
    unfolding w(5) outcome.simps
    by (rule arrivesI [OF steps_trans [OF st2(1) run(1)]]) (use st2(2) run(4) in auto)
qed

lemma gen_assign_ok:
  assumes g: "gen_assign ts e s = Inr s'" and ok: "cg_ok s" and wf: "asm_wf (asm s)"
  shows "gstep s s'"
    "resolved ws (asm s') \<Longrightarrow> at_code s \<sigma> env \<Longrightarrow> kassign ts e env (sim_mem \<sigma>) = Some res \<Longrightarrow>
      outcome ws (managed s) s' \<sigma> res"
proof -
  have "(\<exists>x. ts = [Name x]) \<or> (\<exists>v i. ts = [Subscript v i])"
    using g by (auto simp: gen_assign_def split: list.splits expr.splits)
  then show "gstep s s'"
    "resolved ws (asm s') \<Longrightarrow> at_code s \<sigma> env \<Longrightarrow> kassign ts e env (sim_mem \<sigma>) = Some res \<Longrightarrow>
      outcome ws (managed s) s' \<sigma> res"
    using gen_name_assign [of _ e s s'] gen_store_assign [of _ _ e s s'] g ok wf by blast+
qed

section \<open>Loops\<close>

text \<open>What \<open>for_enter\<close> leaves behind: straight-line code, then the test and the exit branch.\<close>

definition entered :: "string \<Rightarrow> expr \<Rightarrow> expr \<Rightarrow> cg \<Rightarrow> cg \<Rightarrow> int \<Rightarrow> int \<Rightarrow> int list \<Rightarrow> bool" where
  "entered x start stop s s' ivar sreg code \<longleftrightarrow>
     cg_ok s' \<and> asm_wf (asm s') \<and> vext s s' \<and> map_of (vars s') x = Some ivar \<and>
     is_reg sreg \<and> sreg \<in> set R_POOL \<and> sreg \<notin> managed s' \<and> insert sreg (managed s') = managed s \<and>
     words (asm s') = words (asm s) @ code @ [setp_ge_word ivar sreg, branch_word 1] \<and>
     fixups (asm s') = fixups (asm s) @ [(length (words (asm s)) + length code + 1, length (labels (asm s)) + 1)] \<and>
     labels (asm s') = labels (asm s) @ [Some (length (words (asm s)) + length code), None] \<and>
     (\<forall>ws \<sigma> env v bnd. seg ws (length (words (asm s))) code \<longrightarrow> at_code s \<sigma> env \<longrightarrow>
        keval env (sim_mem \<sigma>) start = Some v \<longrightarrow> keval (env(x \<mapsto> v)) (sim_mem \<sigma>) stop = Some bnd \<longrightarrow>
        (\<exists>\<sigma>'. moved ws \<sigma> \<sigma>' (length code) (managed s) \<and> holds (vars s') (env(x \<mapsto> v)) \<sigma>' \<and> has_reg \<sigma>' sreg bnd))"

text \<open>The initialisation of the loop variable.\<close>

definition initialised :: "string \<Rightarrow> expr \<Rightarrow> cg \<Rightarrow> cg \<Rightarrow> int \<Rightarrow> int list \<Rightarrow> bool" where
  "initialised x start s s' ivar code \<longleftrightarrow>
     cg_ok s' \<and> vext s s' \<and> map_of (vars s') x = Some ivar \<and> managed s' = managed s \<and>
     asm s' = asm_append code (asm s) \<and>
     (\<forall>ws \<sigma> env v. seg ws (length (words (asm s))) code \<longrightarrow> at_code s \<sigma> env \<longrightarrow> keval env (sim_mem \<sigma>) start = Some v \<longrightarrow>
        (\<exists>\<sigma>'. moved ws \<sigma> \<sigma>' (length code) (managed s) \<and> at_code s' \<sigma>' (env(x \<mapsto> v))))"

lemma for_init:
  assumes v: "var_reg x s = Inr (ivar, s1)" and e: "gen_expr start s1 = Inr ((r, tmp), s2)" and ok: "cg_ok s"
  defines "s' \<equiv> release_if tmp r (s2\<lparr>asm := asm_append (if ivar \<noteq> r then [iw I_ADD ivar r 0] else []) (asm s2)\<rparr>)"
  shows "\<exists>code. initialised x start s s' ivar code"
proof -
  note v = var_reg_ok [OF v ok]
  note low = gen_expr_lowered [OF e v(1)]
  note lr = lowered_reg [OF low v(1)]
  define mv where "mv = (if ivar \<noteq> r then [iw I_ADD ivar r 0] else [])"
  have ok2: "cg_ok s2" "vars s2 = vars s1" using low by (simp_all add: lowered_def)
  obtain c where c: "asm s2 = asm_append c (asm s1)" "computes c (set (free_regs s1)) (vars s1) (\<lambda>env mem. keval env mem start) r"
    using low by (auto simp: lowered_def)
  note rel = lowered_release [OF low v(1), of "s2\<lparr>asm := asm_append mv (asm s2)\<rparr>"]
  have s': "cg_ok s'" "vars s' = vars s1" "asm s' = asm_append (c @ mv) (asm s)" "set (free_regs s') = set (free_regs s1)"
    using rel ok2 c(1) v(2) by (simp_all add: s'_def mv_def)
  have man: "managed s' = managed s" using s'(2,4) v(5) by (simp add: managed_def regs_of_def)
  have iv: "is_reg ivar" "ivar \<in> managed s"
    using var_is_reg [OF v(1) var_in_regs [OF v(3)]] var_in_regs [OF v(3)] v(5) by (auto simp: managed_def)
  have "\<exists>\<sigma>'. moved ws \<sigma> \<sigma>' (length (c @ mv)) (managed s) \<and> at_code s' \<sigma>' (env(x \<mapsto> w))"
    if h: "seg ws (length (words (asm s))) (c @ mv)" "at_code s \<sigma> env" "keval env (sim_mem \<sigma>) start = Some w" for ws \<sigma> env w
  proof -
    have at1: "at_code s1 \<sigma> env" using h(2) v(2) holds_vext [OF _ v(4)] by (simp add: at_code_def)
    have sg: "seg ws (sim_pc \<sigma>) c" "seg ws (sim_pc \<sigma> + length c) mv"
      using h(1,2) by (simp_all add: seg_append at_code_def)
    from c(2) sg(1) at1 h(3) obtain \<sigma>1 where m1: "moved ws \<sigma> \<sigma>1 (length c) (set (free_regs s1))" "has_reg \<sigma>1 r w"
      unfolding computes_def at_code_def by blast
    have h1: "holds (vars s1) env \<sigma>1"
      using holds_moved_free [OF _ m1(1) order_refl v(1)] at1 by (simp add: at_code_def)
    have "seg ws (sim_pc \<sigma>1) mv" using sg(2) moved_ok(2) [OF m1(1)] by simp
    from moved_mov [OF moved_ok(1) [OF m1(1)] this [unfolded mv_def] iv(1) _ m1(2)] lr
    obtain \<sigma>2 where m2: "moved ws \<sigma>1 \<sigma>2 (length mv) {ivar}" "has_reg \<sigma>2 ivar w" unfolding mv_def by blast
    have "moved ws \<sigma> \<sigma>2 (length c + length mv) (managed s)"
      by (rule moved_trans [OF m1(1) m2(1)]) (use v(5) iv(2) in \<open>auto simp: managed_def\<close>)
    moreover have "holds (vars s1) (env(x \<mapsto> w)) \<sigma>2" by (rule holds_update [OF h1 v(1,3) m2])
    ultimately show ?thesis
      using h(2) s'(2,3) moved_ok [OF \<open>moved ws \<sigma> \<sigma>2 (length c + length mv) (managed s)\<close>]
      by (auto simp: at_code_def)
  qed
  moreover have "vext s s'" using v(4) s'(2) by (simp add: vext_def)
  ultimately show ?thesis
    unfolding initialised_def using s' man v(3) by (intro exI [of _ "c @ mv"]) simp
qed

text \<open>The bound, in a register of its own.\<close>

definition bounded :: "expr \<Rightarrow> cg \<Rightarrow> cg \<Rightarrow> int \<Rightarrow> int list \<Rightarrow> bool" where
  "bounded stop s s' sreg code \<longleftrightarrow>
     cg_ok s' \<and> vars s' = vars s \<and> sreg \<in> set (free_regs s) \<and> set (free_regs s') = set (free_regs s) - {sreg} \<and>
     asm s' = asm_append code (asm s) \<and> computes code (set (free_regs s)) (vars s) (\<lambda>env mem. keval env mem stop) sreg"

lemma for_bound:
  assumes e: "gen_expr stop s = Inr ((r, tmp), s1)" and ok: "cg_ok s"
    and h: "(if tmp then Inr (r, s1)
            else ebind (alloc s1) (\<lambda>(held, s). ebind (cg_mov held r s) (\<lambda>s. Inr (held, s)))) = Inr (sreg, s')"
  shows "\<exists>code. bounded stop s s' sreg code"
proof -
  note low = gen_expr_lowered [OF e ok]
  obtain c where c: "asm s1 = asm_append c (asm s)" "computes c (set (free_regs s)) (vars s) (\<lambda>env mem. keval env mem stop) r"
    using low by (auto simp: lowered_def)
  show ?thesis
  proof (cases tmp)
    case True
    then show ?thesis using h low c unfolding bounded_def lowered_def by auto
  next
    case False
    have ok1: "cg_ok s1" "vars s1 = vars s" "set (free_regs s1) = set (free_regs s)"
      using low False by (simp_all add: lowered_def)
    obtain s2 where al: "alloc s1 = Inr (sreg, s2)"
      and s': "s' = s2\<lparr>asm := asm_append (if sreg \<noteq> r then [iw I_ADD sreg r 0] else []) (asm s2)\<rparr>"
      using h False by auto
    note a = alloc_ok [OF al ok1(1)]
    note lr = lowered_reg [OF low ok]
    have ne: "sreg \<noteq> r" using a(1) lr by auto
    have sr: "is_reg sreg" using free_is_reg [OF ok1(1) a(1)] by simp
    have "computes (c @ [iw I_ADD sreg r 0]) (set (free_regs s)) (vars s) (\<lambda>env mem. keval env mem stop) sreg"
      unfolding computes_def
    proof (intro allI impI)
      fix ws \<sigma> env v
      assume g: "seg ws (sim_pc \<sigma>) (c @ [iw I_ADD sreg r 0])" "sim_ok \<sigma>" "holds (vars s) env \<sigma>" "keval env (sim_mem \<sigma>) stop = Some v"
      have sg: "seg ws (sim_pc \<sigma>) c" "seg ws (sim_pc \<sigma> + length c) [iw I_ADD sreg r 0]"
        using g(1) by (simp_all only: seg_append)
      from c(2) sg(1) g(2-4) obtain \<sigma>1 where m1: "moved ws \<sigma> \<sigma>1 (length c) (set (free_regs s))" "has_reg \<sigma>1 r v"
        unfolding computes_def by blast
      have alu: "alu_op I_ADD" by (simp add: alu_op_def)
      from moved_alu_i [OF moved_ok(1,2) [OF m1(1)] sg(2) alu sr _ _ _ m1(2)] lr obtain \<sigma>2
        where "moved ws \<sigma>1 \<sigma>2 1 {sreg}" "has_reg \<sigma>2 sreg (word_alu I_ADD v (word_of_int 0))" by auto
      then show "\<exists>\<sigma>'. moved ws \<sigma> \<sigma>' (length (c @ [iw I_ADD sreg r 0])) (set (free_regs s)) \<and> has_reg \<sigma>' sreg v"
        using moved_trans [OF m1(1) _ order_refl, of \<sigma>2 1 "{sreg}"] a(1) ok1(3) by auto
    qed
    then show ?thesis
      unfolding bounded_def using s' ne a ok1 c(1) by (intro exI [of _ "c @ [iw I_ADD sreg r 0]"]) auto
  qed
qed

lemma for_enter_ok:
  assumes g: "for_enter x start stop s = Inr ((ivar, sreg, top_l, end_l), s')" and ok: "cg_ok s" and wf: "asm_wf (asm s)"
  shows "\<exists>code. entered x start stop s s' ivar sreg code" "top_l = length (labels (asm s))" "end_l = length (labels (asm s)) + 1"
proof -
  obtain s1 r tmp s2 pr pt s4 s5 where s1: "var_reg x s = Inr (ivar, s1)" and s2: "gen_expr start s1 = Inr ((r, tmp), s2)"
    and s4: "gen_expr stop (release_if tmp r (s2\<lparr>asm := asm_append (if ivar \<noteq> r then [iw I_ADD ivar r 0] else []) (asm s2)\<rparr>))
      = Inr ((pr, pt), s4)"
    and s5: "(if pt then Inr (pr, s4) else ebind (alloc s4) (\<lambda>(held, s). ebind (cg_mov held pr s) (\<lambda>s. Inr (held, s))))
      = Inr (sreg, s5)"
    and a: "asm_branch end_l 1 (asm_setp CMP_GE 1 ivar sreg (snd (asm_new_label (snd (asm_here (asm s5)))))) = Inr (asm s')"
    and s': "s' = s5\<lparr>asm := asm s'\<rparr>" "top_l = length (labels (asm s5))" "end_l = Suc (length (labels (asm s5)))"
    using g unfolding for_enter_def
    by (auto simp: Let_def asm_here_def asm_new_label_def)
  define s3 where "s3 = release_if tmp r (s2\<lparr>asm := asm_append (if ivar \<noteq> r then [iw I_ADD ivar r 0] else []) (asm s2)\<rparr>)"
  obtain c1 where c1: "initialised x start s s3 ivar c1" using for_init [OF s1 s2 ok] unfolding s3_def by blast
  have ok3: "cg_ok s3" using c1 by (simp add: initialised_def)
  obtain c2 where c2: "bounded stop s3 s5 sreg c2" using for_bound [OF s4 [folded s3_def] ok3 s5] by blast
  have as5: "asm s5 = asm_append (c1 @ c2) (asm s)" using c1 c2 by (simp add: initialised_def bounded_def)
  have as': "words (asm s') = words (asm s) @ (c1 @ c2) @ [setp_ge_word ivar sreg, branch_word 1]"
    "fixups (asm s') = fixups (asm s) @ [(length (words (asm s)) + length (c1 @ c2) + 1, length (labels (asm s)) + 1)]"
    "labels (asm s') = labels (asm s) @ [Some (length (words (asm s)) + length (c1 @ c2)), None]"
  proof -
    obtain b where b: "b = asm s'" by blast
    show "words (asm s') = words (asm s) @ (c1 @ c2) @ [setp_ge_word ivar sreg, branch_word 1]"
      "fixups (asm s') = fixups (asm s) @ [(length (words (asm s)) + length (c1 @ c2) + 1, length (labels (asm s)) + 1)]"
      "labels (asm s') = labels (asm s) @ [Some (length (words (asm s)) + length (c1 @ c2)), None]"
      using a [folded b] s'(3) as5 unfolding b [symmetric]
      by (auto simp: asm_branch_def asm_setp_def asm_r_eq asm_here_def asm_new_label_def setp_ge_word_def)
  qed
  have wf5: "asm_wf (asm s5)" using asm_wf_append [OF wf] as5 by simp
  have wf': "asm_wf (asm s')"
  proof (rule asm_wf_branch [OF _ _ a])
    show "asm_wf (asm_setp CMP_GE 1 ivar sreg (snd (asm_new_label (snd (asm_here (asm s5))))))"
      by (intro asm_wf_setp asm_wf_new_label asm_wf_here wf5)
    show "end_l < length (labels (asm_setp CMP_GE 1 ivar sreg (snd (asm_new_label (snd (asm_here (asm s5)))))))"
      using s'(3) by (simp add: asm_setp_def asm_r_def asm_new_label_def asm_here_def)
  qed
  have m3: "managed s3 = managed s" using c1 by (simp add: initialised_def)
  have v5: "vars s' = vars s3" "free_regs s' = free_regs s5" "regs_of s' = regs_of s3"
    using s'(1) c2 by (metis cg.simps cg.surjective bounded_def regs_of_def)+
  have fr: "sreg \<in> set (free_regs s3)" "set (free_regs s') = set (free_regs s3) - {sreg}"
    using c2 v5(2) by (simp_all add: bounded_def)
  have sr: "is_reg sreg" "sreg \<in> set R_POOL" "sreg \<notin> regs_of s3"
    using free_is_reg [OF ok3 fr(1)] ok3 fr(1) by (auto simp: cg_ok_def)
  have ok': "cg_ok s'" using c2 s'(1) by (metis bounded_def cg_ok_asm(1))
  have run: "\<exists>\<sigma>'. moved ws \<sigma> \<sigma>' (length (c1 @ c2)) (managed s) \<and> holds (vars s') (env(x \<mapsto> v)) \<sigma>' \<and> has_reg \<sigma>' sreg bnd"
    if h: "seg ws (length (words (asm s))) (c1 @ c2)" "at_code s \<sigma> env" "keval env (sim_mem \<sigma>) start = Some v"
      "keval (env(x \<mapsto> v)) (sim_mem \<sigma>) stop = Some bnd" for ws \<sigma> env v bnd
  proof -
    have sg: "seg ws (length (words (asm s))) c1" "seg ws (length (words (asm s)) + length c1) c2"
      using h(1) by (simp_all add: seg_append)
    obtain \<sigma>1 where m1: "moved ws \<sigma> \<sigma>1 (length c1) (managed s)" "at_code s3 \<sigma>1 (env(x \<mapsto> v))"
      using c1 sg(1) h(2,3) unfolding initialised_def by blast
    have "sim_pc \<sigma>1 = length (words (asm s)) + length c1"
      using m1(2) c1 by (simp add: at_code_def initialised_def)
    with c2 sg(2) m1 h(4) obtain \<sigma>2 where m2: "moved ws \<sigma>1 \<sigma>2 (length c2) (set (free_regs s3))" "has_reg \<sigma>2 sreg bnd"
      unfolding bounded_def computes_def at_code_def moved_def by metis
    have "moved ws \<sigma> \<sigma>2 (length c1 + length c2) (managed s)"
      by (rule moved_trans [OF m1(1) m2(1)]) (use m3 in \<open>auto simp: managed_def\<close>)
    moreover have "holds (vars s3) (env(x \<mapsto> v)) \<sigma>2"
      using holds_moved_free [OF _ m2(1) order_refl ok3] m1(2) by (simp add: at_code_def)
    ultimately show ?thesis using m2(2) v5(1) by auto
  qed
  have "vext s s'" "map_of (vars s') x = Some ivar" using c1 v5(1) by (simp_all add: initialised_def vext_def)
  moreover have "sreg \<notin> managed s'" "insert sreg (managed s') = managed s"
    using fr sr(3) m3 v5(3) by (auto simp: managed_def)
  ultimately show "\<exists>code. entered x start stop s s' ivar sreg code"
    unfolding entered_def using ok' wf' sr as' run by blast
  show "top_l = length (labels (asm s))" "end_l = length (labels (asm s)) + 1" using s'(2,3) as5 by simp_all
qed

definition left :: "cg \<Rightarrow> cg \<Rightarrow> int \<Rightarrow> int \<Rightarrow> int \<Rightarrow> nat \<Rightarrow> nat \<Rightarrow> bool" where
  "left s s' ivar sreg step top_l end_l \<longleftrightarrow> 0 \<le> step \<and> step \<le> 0xFFF \<and>
     cg_ok s' \<and> asm_wf (asm s') \<and> vars s' = vars s \<and> managed s' = insert sreg (managed s) \<and>
     words (asm s') = words (asm s) @ [iw I_ADD ivar ivar step, branch_word 0] \<and>
     fixups (asm s') = fixups (asm s) @ [(length (words (asm s)) + 1, top_l)] \<and>
     labels (asm s') = (labels (asm s))[end_l := Some (length (words (asm s)) + 2)]"

lemma for_leave_ok:
  assumes g: "for_leave ivar sreg step top_l end_l s = Inr s'" and ok: "cg_ok s" and wf: "asm_wf (asm s)"
    and t: "top_l < length (labels (asm s))" and sr: "sreg \<in> set R_POOL" "sreg \<notin> managed s"
  shows "left s s' ivar sreg step top_l end_l"
proof -
  have st: "0 \<le> step" "step \<le> 0xFFF"
    using g by (auto simp: for_leave_def cg_i_def asm_i_def enc_i_def split: if_splits)
  define a1 where "a1 = asm_append [iw I_ADD ivar ivar step] (asm s)"
  obtain a2 where a2: "asm_branch top_l 0 a1 = Inr a2" "s' = release sreg (s\<lparr>asm := asm_bind end_l a2\<rparr>)"
    using g st by (auto simp: for_leave_def a1_def)
  have wf': "asm_wf (asm_bind end_l a2)"
    by (intro asm_wf_bind asm_wf_branch [OF _ _ a2(1)]) (use asm_wf_append [OF wf] t in \<open>simp_all add: a1_def\<close>)
  have a2': "a2 = a1\<lparr>fixups := fixups a1 @ [(length (words a1), top_l)], words := words a1 @ [branch_word 0]\<rparr>"
    using a2(1) by (auto simp: asm_branch_def asm_append_def)
  have "sreg \<notin> set (free_regs (s\<lparr>asm := asm_bind end_l a2\<rparr>))" using sr(2) by (simp add: managed_def)
  note rel = release_ok [of "s\<lparr>asm := asm_bind end_l a2\<rparr>" sreg, OF _ this]
  show ?thesis
    unfolding left_def using rel ok st wf' sr a2' unfolding a2(2)
    by (auto simp: a1_def asm_bind_def managed_def regs_of_def)
qed

lemma label_pc_simps:
  "l < length ls \<Longrightarrow> label_pc (ls @ ms) l = label_pc ls l"
  "label_pc (ls @ [a, b]) (length ls) = a" "label_pc (ls @ [a, b]) (Suc (length ls)) = b"
  "l < length ls \<Longrightarrow> label_pc (ls[l := v]) l = v" "l \<noteq> k \<Longrightarrow> label_pc (ls[k := v]) l = label_pc ls l"
  by (auto simp: label_pc_def nth_append)

lemma aextE:
  assumes "aext a a'"
  obtains w f where "words a' = words a @ w" "fixups a' = fixups a @ f" "\<forall>(i, l) \<in> set f. length (words a) \<le> i"
  using assms by (auto simp: aext_def)

lemma loop_gstep:
  assumes en: "entered x start stop s s1 ivar sreg code" and wf: "asm_wf (asm s)" and gs: "gstep s1 s2"
    and lf: "left s2 s' ivar sreg step (length (labels (asm s))) (length (labels (asm s)) + 1)"
  shows "gstep s s'" "aext (asm s1) (asm s')" "aext (asm s2) (asm s')"
proof -
  define L where "L = length (labels (asm s))"
  have lab1: "labels (asm s1) = labels (asm s) @ [Some (length (words (asm s)) + length code), None]"
    using en by (simp add: entered_def)
  have st: "astable (asm s1) (asm s2)" using gs by (simp add: gstep_def)
  have len2: "Suc L < length (labels (asm s2))" using st lab1 by (auto simp: astable_def aext_def L_def)
  have un: "label_pc (labels (asm s2)) (Suc L) = None"
    using st lab1 by (auto simp: astable_def L_def label_pc_simps)
  have lab': "labels (asm s') = (labels (asm s2))[Suc L := Some (length (words (asm s2)) + 2)]"
    using lf by (simp add: left_def L_def)
  have mono: "label_pc (labels (asm s')) l = Some pc" if "label_pc (labels (asm s2)) l = Some pc" for l pc
    using that un unfolding lab' by (cases "l = Suc L") (auto simp: label_pc_simps)
  show e2: "aext (asm s2) (asm s')"
    unfolding aext_def using lf mono lab' by (auto simp: left_def)
  have "aext (asm s1) (asm s2)" using st by (simp add: astable_def)
  then show e1: "aext (asm s1) (asm s')" using e2 by (rule aext_trans)
  have "astable (asm s) (asm s1)"
    unfolding astable_def aext_def using en lab1 by (auto simp: entered_def label_pc_def nth_append)
  then have s02: "astable (asm s) (asm s2)" using st by (rule astable_trans)
  have "label_pc (labels (asm s')) l = label_pc (labels (asm s)) l" if "l < L" for l
    using s02 that unfolding lab' by (simp add: label_pc_simps astable_def L_def)
  then have "astable (asm s) (asm s')"
    using s02 e2 aext_trans unfolding astable_def L_def by blast
  moreover have "vext s s1" "vext s1 s2" "vars s' = vars s2" using en gs lf by (simp_all add: entered_def gstep_def left_def)
  ultimately show "gstep s s'"
    using en gs lf unfolding gstep_def by (auto simp: entered_def left_def vext_def)
qed

lemma loop_words:
  assumes en: "entered x start stop s s1 ivar sreg code" and wf: "asm_wf (asm s)" and gs: "gstep s1 s2"
    and lf: "left s2 s' ivar sreg step (length (labels (asm s))) (length (labels (asm s)) + 1)"
    and res: "resolved ws (asm s')"
  defines "p \<equiv> length (words (asm s)) + length code" and "q \<equiv> length (words (asm s2))"
  shows "length (words (asm s1)) = p + 2" "length (words (asm s')) = q + 2"
    "seg ws (length (words (asm s))) code"
    "p < length ws" "ws ! p = setp_ge_word ivar sreg"
    "p + 1 < length ws" "ws ! (p + 1) = patch (branch_word 1) (q + 2)" "q + 2 \<le> 0xFFF"
    "seg ws q [iw I_ADD ivar ivar step]"
    "q + 1 < length ws" "ws ! (q + 1) = patch (branch_word 0) p" "p \<le> 0xFFF"
proof -
  note g = loop_gstep [OF en wf gs lf]
  have wf1: "asm_wf (asm s1)" and wf2: "asm_wf (asm s2)" using en gs by (simp_all add: entered_def gstep_def)
  have r1: "resolved ws (asm s1)" by (rule resolved_ext [OF g(2) res wf1])
  have w1: "words (asm s1) = words (asm s) @ code @ [setp_ge_word ivar sreg, branch_word 1]"
    and f1: "fixups (asm s1) = fixups (asm s) @ [(p + 1, length (labels (asm s)) + 1)]"
    using en by (simp_all add: entered_def p_def)
  have w': "words (asm s') = words (asm s2) @ [iw I_ADD ivar ivar step, branch_word 0]"
    and f': "fixups (asm s') = fixups (asm s2) @ [(q + 1, length (labels (asm s)))]"
    using lf by (simp_all add: left_def q_def)
  show len1: "length (words (asm s1)) = p + 2" and len': "length (words (asm s')) = q + 2"
    by (simp_all add: w1 w' p_def q_def)
  show "seg ws (length (words (asm s))) code"
    by (rule resolved_seg [OF r1 wf w1 f1]) (simp add: p_def)
  have small: "i < length (words (asm s))" if "(i, l) \<in> set (fixups (asm s))" for i l
    using asm_wf_fixup [OF wf that] .
  have "p \<notin> fst ` set (fixups (asm s1))" using small by (force simp: f1 p_def)
  from resolved_word [OF r1 _ this] show "p < length ws" "ws ! p = setp_ge_word ivar sreg"
    by (simp_all add: w1 p_def nth_append)
  show "p + 1 < length ws" using r1 len1 by (simp add: resolved_def)
  obtain w f where e12: "words (asm s2) = words (asm s1) @ w" "fixups (asm s2) = fixups (asm s1) @ f"
    using gs by (auto simp: gstep_def astable_def aext_def)
  have lab2: "length (labels (asm s)) + 1 < length (labels (asm s2))"
    "label_pc (labels (asm s2)) (length (labels (asm s))) = Some p"
    using gs en by (auto simp: gstep_def astable_def aext_def entered_def label_pc_simps p_def)
  have lab': "labels (asm s') = (labels (asm s2))[length (labels (asm s)) + 1 := Some (q + 2)]"
    using lf by (simp add: left_def q_def)
  have "(p + 1, length (labels (asm s)) + 1) \<in> set (fixups (asm s'))" by (simp add: f' e12 f1)
  from resolved_fixup [OF res this] have "q + 2 \<le> 0xFFF \<and> ws ! (p + 1) = patch (words (asm s') ! (p + 1)) (q + 2)"
    using lab2(1) by (simp add: lab' label_pc_simps)
  moreover have "words (asm s') ! (p + 1) = branch_word 1"
    by (simp add: w' e12 w1 p_def nth_append)
  ultimately show "ws ! (p + 1) = patch (branch_word 1) (q + 2)" "q + 2 \<le> 0xFFF" by simp_all
  show "seg ws q [iw I_ADD ivar ivar step]"
    unfolding q_def by (rule resolved_seg [OF res wf2, of _ "[branch_word 0]" "[(q + 1, length (labels (asm s)))]"])
      (simp_all add: w' f' q_def)
  show "q + 1 < length ws" using res len' by (simp add: resolved_def)
  have "(q + 1, length (labels (asm s))) \<in> set (fixups (asm s'))" by (simp add: f')
  from resolved_fixup [OF res this] have "p \<le> 0xFFF \<and> ws ! (q + 1) = patch (words (asm s') ! (q + 1)) p"
    using lab2(2) by (simp add: lab' label_pc_simps)
  then show "ws ! (q + 1) = patch (branch_word 0) p" "p \<le> 0xFFF" by (simp_all add: w' q_def nth_append)
qed

lemma gen_stmts_gstep:
  "gen_stmt c s = Inr s' \<Longrightarrow> cg_ok s \<Longrightarrow> asm_wf (asm s) \<Longrightarrow> gstep s s'"
  "gen_stmts cs s = Inr s' \<Longrightarrow> cg_ok s \<Longrightarrow> asm_wf (asm s) \<Longrightarrow> gstep s s'"
proof (induction c s and cs s arbitrary: s' and s' rule: gen_stmt_gen_stmts.induct)
  case (1 target it body orelse s)
  then obtain x start stop step ivar sreg tl el s1 s2 where
    h: "for_head target it = Inr (x, start, stop, step)" "for_enter x start stop s = Inr ((ivar, sreg, tl, el), s1)"
    "gen_stmts body s1 = Inr s2" "for_leave ivar sreg step tl el s2 = Inr s'"
    by (auto split: if_splits)
  note en = for_enter_ok [OF h(2) "1.prems"(2,3)]
  obtain code where c: "entered x start stop s s1 ivar sreg code" using en(1) by blast
  have ok1: "cg_ok s1" "asm_wf (asm s1)" using c by (simp_all add: entered_def)
  have gs: "gstep s1 s2" using "1.IH" h ok1 by blast
  have "tl < length (labels (asm s2))"
    using gs c en(2) by (auto simp: gstep_def astable_def aext_def entered_def)
  moreover have "sreg \<in> set R_POOL" "sreg \<notin> managed s2" using c gs by (simp_all add: entered_def gstep_def)
  ultimately have "left s2 s' ivar sreg step tl el"
    using for_leave_ok [OF h(4)] gs by (simp add: gstep_def)
  then show ?case using loop_gstep(1) [OF c "1.prems"(3) gs] en(2,3) by simp
next
  case (2 targets e s)
  then show ?case using gen_assign_ok(1) by simp
next
  case (3 target opn e s)
  then show ?case using gen_assign_ok(1) by auto
next
  case (4 v s)
  then obtain a where "asm_exit (asm s) = Inr a" "s' = s\<lparr>asm := a\<rparr>" by (auto split: if_splits)
  then show ?case using "4.prems" asm_wf_append by (auto simp: asm_exit_Inr gstep_def vext_def managed_def regs_of_def)
next
  case (8 s)
  then show ?case by (simp add: gstep_refl)
next
  case (9 c cs s)
  then obtain s1 where "gen_stmt c s = Inr s1" "gen_stmts cs s1 = Inr s'" by auto
  then show ?case using "9.IH" "9.prems" gstep_trans by (meson gstep_def)
qed (auto simp: gstep_refl)

section \<open>Running a loop\<close>

lemma outcome_prefix:
  assumes "steps ws \<sigma> \<sigma>1" "\<forall>i. is_reg i \<longrightarrow> i \<notin> U \<longrightarrow> get_reg i \<sigma>1 = get_reg i \<sigma>" "outcome ws U s' \<sigma>1 r"
  shows "outcome ws U s' \<sigma> r"
proof (cases r)
  case (KNormal env mem)
  with assms(3) have "arrives ws U s' \<sigma>1 env mem" by simp
  then obtain \<sigma>2 where s2: "steps ws \<sigma>1 \<sigma>2" "at_code s' \<sigma>2 env" "sim_mem \<sigma>2 = mem"
    "\<forall>i. is_reg i \<longrightarrow> i \<notin> U \<longrightarrow> get_reg i \<sigma>2 = get_reg i \<sigma>1" by (rule arrivesE)
  have "\<forall>i. is_reg i \<longrightarrow> i \<notin> U \<longrightarrow> get_reg i \<sigma>2 = get_reg i \<sigma>" using s2(4) assms(2) by metis
  with steps_trans [OF assms(1) s2(1)] s2(2,3) show ?thesis unfolding KNormal outcome.simps by (rule arrivesI)
next
  case (KReturn m)
  then show ?thesis using assms(1,3) steps_halts by simp
qed

definition body_ok :: "int list \<Rightarrow> stmt list \<Rightarrow> nat \<Rightarrow> bool" where
  "body_ok ws cs m \<longleftrightarrow>
     (\<forall>s s' \<sigma> env r. gen_stmts cs s = Inr s' \<longrightarrow> cg_ok s \<longrightarrow> asm_wf (asm s) \<longrightarrow> resolved ws (asm s') \<longrightarrow> at_code s \<sigma> env \<longrightarrow>
        kstmts m cs env (sim_mem \<sigma>) = Some r \<longrightarrow> outcome ws (managed s) s' \<sigma> r)"

lemma set_p1_simps [simp]:
  "sim_pc (set_p1 c \<sigma>) = sim_pc \<sigma> + 1" "sim_mem (set_p1 c \<sigma>) = sim_mem \<sigma>" "get_reg i (set_p1 c \<sigma>) = get_reg i \<sigma>"
  "sim_ok \<sigma> \<Longrightarrow> sim_ok (set_p1 c \<sigma>)" "sim_ok \<sigma> \<Longrightarrow> sim_p (set_p1 c \<sigma>) ! Suc 0 = (if c then 1 else 0)"
  by (simp_all add: set_p1_def sim_ok_def get_reg_def)

lemma sim_ok_pc [simp]: "sim_ok (\<sigma>\<lparr>sim_pc := k\<rparr>) = sim_ok \<sigma>"
  by (simp add: sim_ok_def)

lemma holds_same_regs: "(\<And>i. get_reg i \<sigma>' = get_reg i \<sigma>) \<Longrightarrow> holds V env \<sigma>' = holds V env \<sigma>"
  by (simp add: holds_def zero_reg_def has_reg_def)

lemma holds_krestrict:
  assumes "holds (vars s2) env \<sigma>" "vext s1 s2" "\<And>x v. env0 x = Some v \<Longrightarrow> map_of (vars s1) x \<noteq> None"
  shows "holds (vars s1) (krestrict env0 env) \<sigma>"
  using assms unfolding holds_def vext_def krestrict_def by (fastforce split: if_splits)

text \<open>The test at the top of a loop: control goes to the body or to the end.\<close>

lemma loop_test:
  assumes "sim_ok \<sigma>" "sim_pc \<sigma> = p" "p < length ws" "ws ! p = setp_ge_word ivar sreg"
    "p + 1 < length ws" "ws ! (p + 1) = patch (branch_word 1) e" "e \<le> 0xFFF"
    "is_reg ivar" "is_reg sreg" "has_reg \<sigma> ivar i" "has_reg \<sigma> sreg bnd"
  obtains \<sigma>' where "steps ws \<sigma> \<sigma>'" "sim_ok \<sigma>'" "sim_pc \<sigma>' = (if sint i < sint bnd then p + 2 else e)"
    "sim_mem \<sigma>' = sim_mem \<sigma>" "\<And>j. get_reg j \<sigma>' = get_reg j \<sigma>"
proof -
  define c where "c = (sint bnd \<le> sint i)"
  have s1: "sim_step ws \<sigma> = Inr (Continue (set_p1 c \<sigma>))"
    unfolding c_def using assms by (intro step_setp_ge) auto
  have s2: "sim_step ws (set_p1 c \<sigma>) = Inr (Continue ((set_p1 c \<sigma>)\<lparr>sim_pc := (if c then e else p + 2)\<rparr>))"
    using step_branch [of "set_p1 c \<sigma>" ws 1 e] assms by (simp add: set_p1_simps)
  show thesis
    by (rule that [OF steps_step [OF s1 steps_one [OF s2]]]) (use assms(1) in \<open>auto simp: c_def\<close>)
qed

lemma loop_run:
  assumes en: "entered x start stop s s1 ivar sreg code" and wf: "asm_wf (asm s)"
    and gen: "gen_stmts body s1 = Inr s2"
    and lf: "left s2 s' ivar sreg step (length (labels (asm s))) (length (labels (asm s)) + 1)"
    and res: "resolved ws (asm s')" and IH: "\<And>m. m < N \<Longrightarrow> body_ok ws body m"
    and env0: "\<And>x v. env0 x = Some v \<Longrightarrow> map_of (vars s1) x \<noteq> None"
  shows "n \<le> N \<Longrightarrow> sim_pc \<sigma> = length (words (asm s)) + length code \<Longrightarrow> sim_ok \<sigma> \<Longrightarrow> holds (vars s2) env \<sigma> \<Longrightarrow>
    has_reg \<sigma> sreg bnd \<Longrightarrow> kloop n x bnd (word_of_int step) body env0 env (sim_mem \<sigma>) = Some r \<Longrightarrow>
    outcome ws (managed s) s' \<sigma> r"
proof (induction n arbitrary: \<sigma> env rule: less_induct)
  case (less n)
  have ok1: "cg_ok s1" "asm_wf (asm s1)" using en by (simp_all add: entered_def)
  have gs: "gstep s1 s2" using gen_stmts_gstep(2) [OF gen ok1] .
  have ok2: "cg_ok s2" and v12: "vext s1 s2" and man: "managed s2 = managed s1" using gs by (simp_all add: gstep_def)
  have ms: "managed s1 \<subseteq> managed s" "sreg \<notin> managed s1" using en by (auto simp: entered_def)
  have iv: "map_of (vars s2) x = Some ivar" using en v12 by (simp add: entered_def vext_def)
  have ivr: "is_reg ivar" "ivar \<in> managed s1" "is_reg sreg"
    using var_is_reg [OF ok2 var_in_regs [OF iv]] var_in_regs [OF iv] man en by (auto simp: managed_def entered_def)
  note w = loop_words [OF en wf gs lf res]
  obtain i where i: "env x = Some i" using less.prems(6) by (auto simp: kloop.simps [of n] split: option.splits)
  have hi: "has_reg \<sigma> ivar i" by (rule holds_reg [OF less.prems(4) i iv])
  from loop_test [OF less.prems(3,2) w(4-8) ivr(1,3) hi less.prems(5)]
  obtain \<sigma>1 where s1: "steps ws \<sigma> \<sigma>1" "sim_ok \<sigma>1"
    "sim_pc \<sigma>1 = (if sint i < sint bnd then length (words (asm s)) + length code + 2 else length (words (asm s2)) + 2)"
    "sim_mem \<sigma>1 = sim_mem \<sigma>" "\<And>j. get_reg j \<sigma>1 = get_reg j \<sigma>" by blast
  have h1: "holds V e \<sigma>1 = holds V e \<sigma>" for V e by (rule holds_same_regs [OF s1(5)])
  show ?case
  proof (cases "sint i < sint bnd")
    case False
    then have r: "r = KNormal env (sim_mem \<sigma>)" using less.prems(6) i by (simp add: kloop.simps [of n])
    have "vars s' = vars s2" using lf by (simp add: left_def)
    then have "at_code s' \<sigma>1 env" using s1(2,3) False w(2) less.prems(4) h1 by (simp add: at_code_def)
    then show ?thesis unfolding r outcome.simps by (rule arrivesI [OF s1(1)]) (simp_all add: s1)
  next
    case True
    then have n: "n \<noteq> 0" using less.prems(6) i by (auto simp: kloop.simps [of n] split: if_splits)
    define m where "m = n - 1"
    obtain r1 where r1: "kstmts m body (krestrict env0 env) (sim_mem \<sigma>) = Some r1"
      using less.prems(6) i True n by (auto simp: kloop.simps [of n] m_def split: option.splits)
    have at1: "at_code s1 \<sigma>1 (krestrict env0 env)"
      using s1(2,3) True w(1) holds_krestrict [OF less.prems(4) v12 env0] h1 by (simp add: at_code_def)
    have "resolved ws (asm s2)"
      by (rule resolved_ext [OF loop_gstep(3) [OF en wf gs lf] res]) (use gs in \<open>simp add: gstep_def\<close>)
    then have b: "outcome ws (managed s1) s2 \<sigma>1 r1"
      using IH [of m] n less.prems(1) gen ok1 at1 r1 s1(4) unfolding body_ok_def m_def by auto
    show ?thesis
    proof (cases r1)
      case (KReturn mem1)
      then have "r = KReturn mem1" using less.prems(6) i True n r1 by (auto simp: kloop.simps [of n] m_def)
      then show ?thesis using b KReturn steps_halts [OF s1(1)] by simp
    next
      case (KNormal env1 mem1)
      then obtain i1 where i1: "env1 x = Some i1"
        and k: "kloop m x bnd (word_of_int step) body env0 (env1(x \<mapsto> i1 + word_of_int step)) mem1 = Some r"
        using less.prems(6) i True n r1 by (auto simp: kloop.simps [of n] m_def split: option.splits)
      from b KNormal have "arrives ws (managed s1) s2 \<sigma>1 env1 mem1" by simp
      then obtain \<sigma>2 where s2: "steps ws \<sigma>1 \<sigma>2" "at_code s2 \<sigma>2 env1" "sim_mem \<sigma>2 = mem1"
        "\<forall>i. is_reg i \<longrightarrow> i \<notin> managed s1 \<longrightarrow> get_reg i \<sigma>2 = get_reg i \<sigma>1" by (rule arrivesE)
      have at2: "sim_ok \<sigma>2" "sim_pc \<sigma>2 = length (words (asm s2))" "holds (vars s2) env1 \<sigma>2"
        using s2(2) by (simp_all add: at_code_def)
      have st: "0 \<le> step" "step \<le> 0xFFF" and alu: "alu_op I_ADD" using lf by (simp_all add: left_def alu_op_def)
      from moved_alu_i [OF at2(1,2) w(9) alu ivr(1,1) st holds_reg [OF at2(3) i1 iv]] obtain \<sigma>3
        where s3: "moved ws \<sigma>2 \<sigma>3 1 {ivar}" "has_reg \<sigma>3 ivar (word_alu I_ADD i1 (word_of_int step))" "sim_ok \<sigma>3"
          "sim_pc \<sigma>3 = length (words (asm s2)) + 1" .
      have p0: "sim_p \<sigma>3 ! 0 = 1" using s3(3) by (simp add: sim_ok_def)
      define \<sigma>4 where "\<sigma>4 = \<sigma>3\<lparr>sim_pc := length (words (asm s)) + length code\<rparr>"
      have "sim_step ws \<sigma>3 = Inr (Continue \<sigma>4)"
        using step_branch [OF s3(3), of ws 0] s3(4) w(10-12) p0 by (simp add: \<sigma>4_def)
      then have st4: "steps ws \<sigma> \<sigma>4"
        using s1(1) s2(1) s3(1) steps_one steps_trans unfolding moved_def by metis
      have g4: "\<And>j. get_reg j \<sigma>4 = get_reg j \<sigma>3" by (simp add: \<sigma>4_def)
      have sr: "has_reg \<sigma>4 sreg bnd"
        using less.prems(5) s1(5) s2(4) moved_keeps [OF s3(1), of sreg] ms(2) ivr g4 by (auto simp: has_reg_def)
      have h4: "holds (vars s2) (env1(x \<mapsto> i1 + word_of_int step)) \<sigma>4"
        unfolding holds_same_regs [OF g4] using holds_update [OF at2(3) ok2 iv s3(1,2)] by simp
      have mem4: "sim_mem \<sigma>4 = mem1" using moved_ok(3) [OF s3(1)] s2(3) by (simp add: \<sigma>4_def)
      have mn: "m < n" "m \<le> N" using n less.prems(1) by (simp_all add: m_def)
      have at4: "sim_pc \<sigma>4 = length (words (asm s)) + length code" "sim_ok \<sigma>4" using s3(3) by (simp_all add: \<sigma>4_def)
      have "outcome ws (managed s) s' \<sigma>4 r" by (rule less.IH [OF mn at4 h4 sr k [folded mem4]])
      moreover have "\<forall>i. is_reg i \<longrightarrow> i \<notin> managed s \<longrightarrow> get_reg i \<sigma>4 = get_reg i \<sigma>"
        using s1(5) s2(4) s3(1) ms(1) ivr(2) g4 unfolding moved_def by (metis singletonD subsetD)
      ultimately show ?thesis using outcome_prefix [OF st4] by blast
    qed
  qed
qed

section \<open>Statements, kernels\<close>

lemma gen_exit_halts:
  assumes "asm_wf a" "resolved ws (asm_append [0xC8007FF9] a)" "sim_pc \<sigma> = length (words a)" "sim_ok \<sigma>"
  shows "halts ws \<sigma> (sim_mem \<sigma>)"
proof -
  have "seg ws (sim_pc \<sigma>) [0xC8007FF9]" using resolved_append_seg [OF assms(2,1)] assms(3) by simp
  then have "sim_pc \<sigma> < length ws" "ws ! sim_pc \<sigma> = 0xC8007FF9" by simp_all
  from step_exit [OF assms(4) this] show ?thesis unfolding halts_def by force
qed

lemma gen_stmt_run:
  assumes IH: "\<And>m cs. m < n \<Longrightarrow> body_ok ws cs m"
    and g: "gen_stmt c s = Inr s'" and ok: "cg_ok s" and wf: "asm_wf (asm s)" and res: "resolved ws (asm s')"
    and at: "at_code s \<sigma> env" and k: "kstmt n c env (sim_mem \<sigma>) = Some r"
  shows "outcome ws (managed s) s' \<sigma> r"
proof (cases c)
  case (For target it body orelse)
  obtain x start stop step ivar sreg tl el s1 s2 where
    h: "for_head target it = Inr (x, start, stop, step)" "for_enter x start stop s = Inr ((ivar, sreg, tl, el), s1)"
    "gen_stmts body s1 = Inr s2" "for_leave ivar sreg step tl el s2 = Inr s'"
    using g For by (auto split: if_splits)
  note en = for_enter_ok [OF h(2) ok wf]
  obtain code where c: "entered x start stop s s1 ivar sreg code" using en(1) by blast
  have ok1: "cg_ok s1" "asm_wf (asm s1)" using c by (simp_all add: entered_def)
  have gs: "gstep s1 s2" using gen_stmts_gstep(2) [OF h(3) ok1] .
  have "tl < length (labels (asm s2))"
    using gs c en(2) by (auto simp: gstep_def astable_def aext_def entered_def)
  moreover have "sreg \<in> set R_POOL" "sreg \<notin> managed s2" using c gs by (simp_all add: entered_def gstep_def)
  ultimately have lf: "left s2 s' ivar sreg step (length (labels (asm s))) (length (labels (asm s)) + 1)"
    using for_leave_ok [OF h(4)] gs en(2,3) by (simp add: gstep_def)
  obtain v bnd where e: "keval env (sim_mem \<sigma>) start = Some v" "keval (env(x \<mapsto> v)) (sim_mem \<sigma>) stop = Some bnd"
    "kloop n x bnd (word_of_int step) body (env(x \<mapsto> v)) (env(x \<mapsto> v)) (sim_mem \<sigma>) = Some r"
    using k For h(1) by (auto simp: kstmt.simps [of n] Let_def split: option.splits)
  have sg: "seg ws (length (words (asm s))) code" by (rule loop_words(3) [OF c wf gs lf res])
  obtain \<sigma>1 where m1: "moved ws \<sigma> \<sigma>1 (length code) (managed s)" "holds (vars s1) (env(x \<mapsto> v)) \<sigma>1" "has_reg \<sigma>1 sreg bnd"
    using c sg at e(1,2) unfolding entered_def by blast
  have dom: "\<And>y w. (env(x \<mapsto> v)) y = Some w \<Longrightarrow> map_of (vars s1) y \<noteq> None"
    using m1(2) unfolding holds_def by blast
  have v12: "vext s1 s2" using gs by (simp add: gstep_def)
  note m = moved_ok [OF m1(1)]
  have "outcome ws (managed s) s' \<sigma>1 r"
    by (rule loop_run [OF c wf h(3) lf res, where N = n and n = n and env0 = "env(x \<mapsto> v)" and env = "env(x \<mapsto> v)"])
      (use IH dom m at m1 e(3) holds_vext [OF m1(2) v12] in \<open>auto simp: at_code_def\<close>)
  then show ?thesis using outcome_prefix m1(1) unfolding moved_def by blast
next
  case (Assign ts e)
  then show ?thesis using gen_assign_ok(2) [of ts e s s' ws \<sigma> env r] g ok wf res at k by (simp add: kstmt.simps [of n])
next
  case (AugAssign t opn e)
  then obtain e' where e': "aug_expand t opn e = Inr e'" "gen_assign [t] e' s = Inr s'" using g by auto
  have "e' = BinOp t opn e" using e'(1) by (auto elim!: aug_expand.elims)
  then show ?thesis
    using gen_assign_ok(2) [OF e'(2) ok wf res at] k AugAssign by (simp add: kstmt.simps [of n])
next
  case (Return v)
  then have v: "v = None" "r = KReturn (sim_mem \<sigma>)" using k by (auto simp: kstmt.simps [of n] split: option.splits)
  then have "asm s' = asm_append [0xC8007FF9] (asm s)" using g Return by (auto simp: asm_exit_Inr)
  then show ?thesis using gen_exit_halts [OF wf] res at v(2) by (simp add: at_code_def)
next
  case (ExprStmt e)
  then have "s' = s" "r = KNormal env (sim_mem \<sigma>)" using g k by (cases e; auto simp: kstmt.simps [of n])+
  then show ?thesis using at by (auto intro!: arrivesI)
next
  case Pass
  then have "s' = s" "r = KNormal env (sim_mem \<sigma>)" using g k by (auto simp: kstmt.simps [of n])
  then show ?thesis using at by (auto intro!: arrivesI)
next
  case (OtherStmt a b c)
  then show ?thesis using g by simp
qed

lemma gen_stmts_run: "body_ok ws cs n"
proof (induction n arbitrary: cs rule: less_induct)
  case (less n)
  show ?case
  proof (induction cs)
    case Nil
    show ?case by (auto simp: body_ok_def kstmts.simps [of n] intro!: arrivesI)
  next
    case (Cons c cs)
    show ?case
      unfolding body_ok_def
    proof (intro allI impI)
      fix s s' \<sigma> env r
      assume h: "gen_stmts (c # cs) s = Inr s'" "cg_ok s" "asm_wf (asm s)" "resolved ws (asm s')" "at_code s \<sigma> env"
        "kstmts n (c # cs) env (sim_mem \<sigma>) = Some r"
      obtain s1 where s1: "gen_stmt c s = Inr s1" "gen_stmts cs s1 = Inr s'" using h(1) by auto
      have g1: "gstep s s1" by (rule gen_stmts_gstep(1) [OF s1(1) h(2,3)])
      have g2: "gstep s1 s'" using gen_stmts_gstep(2) [OF s1(2)] g1 by (simp add: gstep_def)
      have res1: "resolved ws (asm s1)"
        by (rule resolved_ext [OF _ h(4)]) (use g1 g2 in \<open>simp_all add: gstep_def astable_def\<close>)
      obtain r1 where r1: "kstmt n c env (sim_mem \<sigma>) = Some r1"
        using h(6) by (auto simp: kstmts.simps [of n "c # cs"] split: option.splits)
      have o1: "outcome ws (managed s) s1 \<sigma> r1"
        by (rule gen_stmt_run [OF _ s1(1) h(2,3) res1 h(5) r1]) (rule less.IH)
      show "outcome ws (managed s) s' \<sigma> r"
      proof (cases r1)
        case (KReturn m)
        then have "r = r1" using h(6) r1 by (simp add: kstmts.simps [of n "c # cs"])
        then show ?thesis using o1 KReturn by simp
      next
        case (KNormal env1 mem1)
        then have k: "kstmts n cs env1 mem1 = Some r" using h(6) r1 by (simp add: kstmts.simps [of n "c # cs"])
        have "arrives ws (managed s) s1 \<sigma> env1 mem1" using o1 KNormal by simp
        then show ?thesis
        proof (rule arrives_then)
          show "managed s1 \<subseteq> managed s" using g1 by (simp add: gstep_def)
          fix \<sigma>1
          assume "at_code s1 \<sigma>1 env1" "sim_mem \<sigma>1 = mem1"
          then show "outcome ws (managed s1) s' \<sigma>1 r"
            using Cons.IH s1(2) g1 h(4) k unfolding body_ok_def gstep_def by blast
        qed
      qed
    qed
  qed
qed

lemma gen_params_run:
  assumes "gen_params idx ns s = Inr s'" "cg_ok s" "asm_wf (asm s)"
  shows "gstep s s'"
    "resolved ws (asm s') \<Longrightarrow> at_code s \<sigma> env \<Longrightarrow> get_reg R_PARAM \<sigma> = addr \<Longrightarrow>
      kparams (sim_mem \<sigma>) addr idx ns env = Some env' \<Longrightarrow> arrives ws (managed s) s' \<sigma> env' (sim_mem \<sigma>)"
proof -
  have "gstep s s' \<and> (resolved ws (asm s') \<longrightarrow> at_code s \<sigma> env \<longrightarrow> get_reg R_PARAM \<sigma> = addr \<longrightarrow>
      kparams (sim_mem \<sigma>) addr idx ns env = Some env' \<longrightarrow> arrives ws (managed s) s' \<sigma> env' (sim_mem \<sigma>))"
    using assms
  proof (induction idx ns s arbitrary: \<sigma> env rule: gen_params.induct)
    case (1 idx s)
    then show ?case by (auto simp: gstep_refl intro!: arrivesI)
  next
    case (2 idx a as s)
    obtain reg s1 where s1: "var_reg a s = Inr (reg, s1)"
      and s2: "ebind (cg_i I_LOAD reg R_PARAM (4 * int idx) s1) (gen_params (Suc idx) as) = Inr s'"
      using "2.prems"(1) by auto
    have imm: "0 \<le> 4 * int idx" "4 * int idx \<le> 0xFFF"
      using s2 by (auto simp: cg_i_def asm_i_def enc_i_def split: if_splits)
    define s2 where "s2 = s1\<lparr>asm := asm_append [iw I_LOAD reg R_PARAM (4 * int idx)] (asm s1)\<rparr>"
    have cgi: "cg_i I_LOAD reg R_PARAM (4 * int idx) s1 = Inr s2" unfolding s2_def using imm by simp
    have gp: "gen_params (Suc idx) as s2 = Inr s'" using s2 cgi by simp
    note v = var_reg_ok [OF s1 "2.prems"(2)]
    have ok2: "cg_ok s2" "asm_wf (asm s2)" using v(1,2) asm_wf_append [OF "2.prems"(3)] by (simp_all add: s2_def)
    have g1: "gstep s s2" using v ok2 by (simp add: gstep_def s2_def vext_def managed_def regs_of_def)
    note IH = "2.IH" [OF s1 refl cgi gp ok2]
    have g2: "gstep s2 s'" using IH by blast
    have "arrives ws (managed s) s' \<sigma> env' (sim_mem \<sigma>)"
      if h: "resolved ws (asm s')" "at_code s \<sigma> env" "get_reg R_PARAM \<sigma> = addr"
        "kparams (sim_mem \<sigma>) addr idx (a # as) env = Some env'"
    proof -
      obtain w where w: "rd32 (sim_mem \<sigma>) (addr + 4 * int idx) = Inr w"
        "kparams (sim_mem \<sigma>) addr (Suc idx) as (env(a \<mapsto> word_of_int w)) = Some env'"
        using h(4) by (auto split: sum.splits)
      have reg: "is_reg reg" "reg \<noteq> 1" "reg \<in> managed s"
        using var_is_reg [OF v(1) var_in_regs [OF v(3)]] var_in_regs [OF v(3)] v(5) by (auto simp: managed_def)
      have ok: "sim_ok \<sigma>" using h(2) by (simp add: at_code_def)
      have "resolved ws (asm s2)"
        by (rule resolved_ext [OF _ h(1) ok2(2)]) (use g2 in \<open>simp add: gstep_def astable_def\<close>)
      then have sg: "seg ws (sim_pc \<sigma>) [iw I_LOAD reg R_PARAM (4 * int idx)]"
        using resolved_append_seg [of ws "[iw I_LOAD reg R_PARAM (4 * int idx)]" "asm s"] "2.prems"(3) v(2) h(2)
        by (simp add: s2_def at_code_def)
      have "rd32 (sim_mem \<sigma>) (get_reg R_PARAM \<sigma> + 4 * int idx) = Inr (uint (word_of_int w :: 32 word))"
        using w(1) h(3) rd32_word [OF w(1)] ok by (simp add: sim_ok_def)
      from step_load_param [OF ok _ _ reg(1) imm this, of ws] sg
      have "sim_step ws \<sigma> = Inr (Continue (put_reg reg (word_of_int w) \<sigma>))" by simp
      from moved_put [OF this ok reg(1)] obtain \<sigma>1 where m: "moved ws \<sigma> \<sigma>1 1 {reg}" "has_reg \<sigma>1 reg (word_of_int w)"
        by blast
      have hs: "holds (vars s1) env \<sigma>" using h(2) holds_vext [OF _ v(4)] by (simp add: at_code_def)
      have "at_code s2 \<sigma>1 (env(a \<mapsto> word_of_int w))"
        using holds_update [OF hs v(1,3) m] moved_ok [OF m(1)] h(2) v(2) by (simp add: at_code_def s2_def)
      moreover have "get_reg R_PARAM \<sigma>1 = addr" using m(1) reg(2) h(3) by (simp add: moved_def R_PARAM_def)
      moreover have mem: "sim_mem \<sigma>1 = sim_mem \<sigma>" using m(1) by (simp add: moved_def)
      ultimately have "arrives ws (managed s2) s' \<sigma>1 env' (sim_mem \<sigma>1)" using IH h(1) w(2) by metis
      then have "arrives ws (managed s2) s' \<sigma>1 env' (sim_mem \<sigma>)" using mem by simp
      then have o: "outcome ws (managed s) s' \<sigma>1 (KNormal env' (sim_mem \<sigma>))" using g1 by (simp add: gstep_def)
      have "outcome ws (managed s) s' \<sigma> (KNormal env' (sim_mem \<sigma>))"
        by (rule outcome_prefix [OF _ _ o]) (use m(1) reg(3) in \<open>auto simp: moved_def\<close>)
      then show ?thesis by simp
    qed
    then show ?case using gstep_trans [OF g1 g2] by blast
  qed
  then show "gstep s s'"
    "resolved ws (asm s') \<Longrightarrow> at_code s \<sigma> env \<Longrightarrow> get_reg R_PARAM \<sigma> = addr \<Longrightarrow>
      kparams (sim_mem \<sigma>) addr idx ns env = Some env' \<Longrightarrow> arrives ws (managed s) s' \<sigma> env' (sim_mem \<sigma>)" by blast+
qed

lemma sim_init_ok:
  assumes "byte_mem mem"
  shows "at_code cg_init (sim_init mem addr) (\<lambda>_. None)" "get_reg R_PARAM (sim_init mem addr) = addr"
  using assms by (simp_all add: at_code_def cg_init_def asm_init_def sim_init_def sim_ok_def holds_def zero_reg_def
      has_reg_def get_reg_def R_ZERO_def R_PARAM_def)

lemma compile_halts:
  assumes c: "compile fn = Inr ws" and k: "krun n fn mem addr = Some mem'" and mem: "byte_mem mem"
  shows "halts ws (sim_init mem addr) mem'"
proof -
  obtain s1 s2 a where s1: "gen_params 0 (fargs fn) cg_init = Inr s1" and s2: "gen_stmts (fbody fn) s1 = Inr s2"
    and f: "asm_finalize (asm_append [0xC8007FF9] (asm s2)) = Inr (ws, a)"
    using c by (auto simp: compile_def asm_exit_Inr)
  obtain env r where e: "kparams mem addr 0 (fargs fn) (\<lambda>_. None) = Some env" "kstmts n (fbody fn) env mem = Some r"
    and r: "mem' = (case r of KNormal _ m \<Rightarrow> m | KReturn m \<Rightarrow> m)"
    using k by (auto simp: krun_def split: option.splits kres.splits)
  have wf0: "asm_wf (asm cg_init)" by (simp add: cg_init_def asm_wf_init)
  note p = gen_params_run [OF s1 cg_ok_init wf0]
  have ok1: "cg_ok s1" "asm_wf (asm s1)" using p(1) by (simp_all add: gstep_def)
  have g2: "gstep s1 s2" by (rule gen_stmts_gstep(2) [OF s2 ok1])
  have wf2: "asm_wf (asm s2)" using g2 by (simp add: gstep_def)
  have resF: "resolved ws (asm_append [0xC8007FF9] (asm s2))"
    by (rule finalize_resolved(1) [OF f asm_wf_append [OF wf2]])
  have res2: "resolved ws (asm s2)" by (rule resolved_ext [OF _ resF wf2]) simp
  have res1: "resolved ws (asm s1)"
    by (rule resolved_ext [OF _ res2 ok1(2)]) (use g2 in \<open>simp add: gstep_def astable_def\<close>)
  have m0: "sim_mem (sim_init mem addr) = mem" by (simp add: sim_init_def)
  have "arrives ws (managed cg_init) s1 (sim_init mem addr) env mem"
    using p(2) [OF res1 sim_init_ok(1) [OF mem, of addr] sim_init_ok(2) [OF mem, of addr], unfolded m0] e(1) by blast
  then have o: "outcome ws (managed cg_init) s2 (sim_init mem addr) r"
  proof (rule arrives_then)
    show "managed s1 \<subseteq> managed cg_init" using p(1) by (simp add: gstep_def)
    fix \<sigma>
    assume "at_code s1 \<sigma> env" "sim_mem \<sigma> = mem"
    then show "outcome ws (managed s1) s2 \<sigma> r"
      using gen_stmts_run [of ws "fbody fn" n] s2 ok1 res2 e(2) unfolding body_ok_def by blast
  qed
  show ?thesis
  proof (cases r)
    case (KReturn m)
    then show ?thesis using o r by simp
  next
    case (KNormal env' m)
    with o have "arrives ws (managed cg_init) s2 (sim_init mem addr) env' m" by simp
    then obtain \<sigma> where "steps ws (sim_init mem addr) \<sigma>" "at_code s2 \<sigma> env'" "sim_mem \<sigma> = m" by (rule arrivesE)
    then show ?thesis
      using steps_halts gen_exit_halts [OF wf2 resF] r KNormal by (simp add: at_code_def) blast
  qed
qed

lemma halts_simulate:
  assumes "halts ws (sim_init mem addr) mem'"
  shows "\<exists>k. \<forall>max_steps > k. simulate ws mem addr max_steps = Inr (k + 1, mem')"
proof -
  obtain \<sigma>' \<sigma>'' where "steps ws (sim_init mem addr) \<sigma>'" "sim_step ws \<sigma>' = Inr (Exited \<sigma>'')" "sim_mem \<sigma>'' = mem'"
    using assms by (auto simp: halts_def)
  from sim_run_steps [OF this(1,2)] obtain n
    where "\<forall>left > n. \<forall>k. sim_run left ws (sim_init mem addr) k = Inr (k + n + 1, \<sigma>'')" by blast
  then have "\<forall>max_steps > n. simulate ws mem addr max_steps = Inr (n + 1, mem')"
    using \<open>sim_mem \<sigma>'' = mem'\<close> by (simp add: simulate_def)
  then show ?thesis by blast
qed

end
