(* ===== verification/CompilerProps.thy ===== *)
theory CompilerProps
  imports CodegenCorrect
begin

text \<open>
  The properties of the scalar compiler that follow from the simulation: correctness of
  \<open>compile\<close>, conservation of registers, well-formed output, and which exceptions it can
  raise; and the kernels on which its output departs from Python.
\<close>

section \<open>Correctness\<close>

definition store_kernel :: fundef where
  "store_kernel = \<lparr>fname = ''k'', fargs = [''A'', ''n''], fbody =
     [For (Name ''i'') (Call (Name ''range'') [Constant (CInt 1), Name ''n''] [])
        [Assign [Subscript (Name ''A'') (Name ''i'')] (BinOp (Name ''n'') FloorDiv (Name ''i''))] []],
     fextra = []\<rparr>"

definition demo_mem :: "int list" where
  "demo_mem = replicate 12 7 @ [0, 0, 0, 0, 3, 0, 0, 0]"


text \<open>A name first assigned in an inner loop that does not run in the second iteration.\<close>

definition clobber_kernel :: fundef where
  "clobber_kernel = \<lparr>fname = ''k'', fargs = [''A''], fbody =
     [For (Name ''i'') (Call (Name ''range'') [Constant (CInt 2)] [])
        [Assign [Subscript (Name ''A'') (Constant (CInt 2))]
           (BinOp (BinOp (Name ''i'') Add (Name ''i'')) Add (BinOp (BinOp (Name ''i'') Add (Name ''i'')) Add (BinOp (Name ''i'') Add (Name ''i'')))),
         For (Name ''j'') (Call (Name ''range'') [BinOp (Constant (CInt 1)) Sub (Name ''i'')] [])
           [Assign [Name ''y''] (Constant (CInt 7))] [],
         Assign [Subscript (Name ''A'') (Name ''i'')] (Name ''y'')] []],
     fextra = []\<rparr>"

text \<open>\<open>i = 2\<close>, then \<open>for i in range(i): A[i] = 1\<close>.\<close>

definition rebind_kernel :: fundef where
  "rebind_kernel = \<lparr>fname = ''k'', fargs = [''A''], fbody =
     [Assign [Name ''i''] (Constant (CInt 2)),
      For (Name ''i'') (Call (Name ''range'') [Name ''i''] [])
        [Assign [Subscript (Name ''A'') (Name ''i'')] (Constant (CInt 1))] []],
     fextra = []\<rparr>"

section \<open>Well-formed output\<close>

text \<open>A word of a program of \<open>n\<close> words: 32 bits, printable, a branch stays inside.\<close>

definition emittable :: "nat \<Rightarrow> int \<Rightarrow> bool" where
  "emittable n w \<longleftrightarrow> 0 \<le> w \<and> w < 2 ^ 32 \<and> (\<exists>t. disassemble w = Inr t) \<and>
     (f_op w = OPS I_BRANCH \<longrightarrow> f_imm w < int n)"

lemma disassemble_ok: "f_op w \<noteq> OPS I_SETP \<or> drop_bit 2 (f_rd w) AND 7 < 6 \<Longrightarrow> \<exists>t. disassemble w = Inr t"
  using disassemble_error_iff [of w] by (metis linorder_not_less sum.exhaust)

lemma OPS_eq_iff: "OPS k = OPS j \<longleftrightarrow> k = j"
  using OPS_inj by auto

lemma emittable_enc_i:
  assumes "enc_i (OPS k) rd rs1 imm prd = Inr w" "k \<noteq> I_SETP" "k = I_BRANCH \<Longrightarrow> imm < int n"
  shows "emittable n w"
  using enc_i_32bit [OF _ _ assms(1)] enc_i_fields [OF _ _ assms(1)] OPS_bounds [of k] assms(2,3)
    disassemble_ok [of w]
  unfolding emittable_def by (auto simp: OPS_eq_iff simp del: OPS.simps)

lemma emittable_iw: "k \<noteq> I_SETP \<Longrightarrow> k \<noteq> I_BRANCH \<Longrightarrow> 0 \<le> imm \<Longrightarrow> imm \<le> 0xFFF \<Longrightarrow> emittable n (iw k rd rs1 imm)"
  by (rule emittable_enc_i [OF iw_enc]) auto

lemma emittable_rw: "k \<noteq> I_SETP \<Longrightarrow> k \<noteq> I_BRANCH \<Longrightarrow> emittable n (rw k rd rs1 rs2)"
  using enc_r_32bit [of "OPS k" rd rs1 rs2 0 0] enc_r_fields [of "OPS k" rd rs1 rs2 0 0] OPS_bounds [of k]
    disassemble_ok [of "rw k rd rs1 rs2"]
  unfolding emittable_def rw_def by (auto simp: OPS_eq_iff simp del: OPS.simps)

lemma emittable_setp: "emittable n (setp_ge_word a b)"
proof -
  have f: "f_op (setp_ge_word a b) = OPS I_SETP" "f_rd (setp_ge_word a b) = 13"
    using enc_r_fields [of "OPS I_SETP" 13 a b 0 0]
    by (simp_all add: setp_ge_word_def rw_def push_bit_eq_mult take_bit_id)
  have "drop_bit 2 13 AND 7 < (6 :: int)" by (simp add: drop_bit_eq_div)
  then show ?thesis
    using disassemble_ok [of "setp_ge_word a b"] f enc_r_32bit [of "OPS I_SETP" 13 a b 0 0]
    unfolding emittable_def by (simp add: setp_ge_word_def rw_def push_bit_eq_mult)
qed

lemma emittable_branch: "pc \<le> 0xFFF \<Longrightarrow> pc < n \<Longrightarrow> emittable n (patch (branch_word prd) pc)"
  by (rule emittable_enc_i [OF patch_branch_word]) auto

lemma emittable_branch0: "0 < n \<Longrightarrow> emittable n (branch_word prd)"
  using emittable_enc_i [of I_BRANCH 0 0 0 prd "branch_word prd" n] by simp

lemma emittable_exit: "emittable n 0xC8007FF9"
proof -
  have "enc_i (OPS I_BARRIER) 0 0 0xFFF 0 = Inr 0xC8007FF9" by (simp add: enc_i_def)
  then show ?thesis by (rule emittable_enc_i) auto
qed

lemma emittable_li: "list_all (emittable n) (li_words rd v)"
proof -
  have "take_bit 8 x \<le> (0xFFF :: int)" "take_bit 12 x \<le> (0xFFF :: int)" for x :: int
    using take_bit_le_mask [of 8 x] take_bit_le_mask [of 12 x] by simp_all
  moreover have "0 \<le> 2 ^ 32 - take_bit 32 v" using take_bit_lt [of 32 v] by simp
  ultimately show ?thesis
    unfolding li_words_def Let_def by (auto intro!: emittable_iw emittable_rw)
qed

definition cg_good :: "nat \<Rightarrow> cg \<Rightarrow> bool" where
  "cg_good n s \<longleftrightarrow> list_all (emittable n) (words (asm s))"

lemma cg_good_append [simp]:
  "cg_good n (s\<lparr>asm := asm_append ws (asm s)\<rparr>) \<longleftrightarrow> cg_good n s \<and> list_all (emittable n) ws"
  by (simp add: cg_good_def)

lemma cg_good_free [simp]: "cg_good n (s\<lparr>free_regs := f\<rparr>) = cg_good n s" "cg_good n (s\<lparr>vars := v\<rparr>) = cg_good n s"
  by (simp_all add: cg_good_def)

lemma cg_good_release [simp]: "cg_good n (release r s) = cg_good n s" "cg_good n (release_if t r s) = cg_good n s"
  by (simp_all add: release_def release_if_def)

lemma cg_good_alloc: "alloc s = Inr (t, s1) \<Longrightarrow> cg_good n s1 = cg_good n s"
  by (auto simp: alloc_def split: list.splits)

lemma cg_good_var: "var_reg x s = Inr (t, s1) \<Longrightarrow> cg_good n s1 = cg_good n s"
  by (auto simp: var_reg_def cg_good_alloc split: option.splits)

lemma BINOPS_plain: "BINOPS opn = Some k \<Longrightarrow> k \<noteq> I_SETP \<and> k \<noteq> I_BRANCH"
  by (cases opn) auto

lemma imm_const_range: "imm_const e = Some i \<Longrightarrow> 0 \<le> i \<and> i \<le> 0xFFF"
  by (auto elim!: imm_const.elims split: option.splits if_splits)

lemma gen_expr_good: "gen_expr e s = Inr (p, s') \<Longrightarrow> cg_good n s \<Longrightarrow> cg_good n s'"
proof (induction e arbitrary: s s' p)
  case (Constant c)
  then show ?case by (auto simp: cg_good_alloc emittable_li split: option.splits)
next
  case (Name x)
  then show ?case by (auto split: option.splits)
next
  case (USub e)
  then show ?case by (auto simp: cg_good_alloc emittable_rw)
next
  case (BinOp l opn r)
  then show ?case
    by (auto simp: cg_good_alloc emittable_rw emittable_iw BINOPS_plain Let_def dest!: imm_const_range
        split: if_splits option.splits)
next
  case (Subscript v i)
  then show ?case
    by (auto simp: cg_good_alloc emittable_rw emittable_iw Let_def split: expr.splits option.splits)
qed auto

lemma gen_subscript_good: "gen_subscript v i s = Inr (p, s') \<Longrightarrow> cg_good n s \<Longrightarrow> cg_good n s'"
  by (auto simp: cg_good_alloc emittable_iw Let_def dest!: gen_expr_good split: expr.splits option.splits)

lemma gen_assign_good: "gen_assign ts e s = Inr s' \<Longrightarrow> cg_good n s \<Longrightarrow> cg_good n s'"
  unfolding gen_assign_def
  by (auto simp: cg_good_var emittable_rw emittable_iw simp del: gen_subscript.simps
      dest!: gen_expr_good gen_subscript_good split: list.splits expr.splits if_splits)

lemma for_enter_good:
  assumes "for_enter x start stop s = Inr ((ivar, sreg, tpl, epl), s')" "cg_ok s" "asm_wf (asm s)" "cg_good n s" "0 < n"
  shows "cg_good n s'"
proof -
  obtain s1 r tmp s2 pr pt s4 s5 where h: "var_reg x s = Inr (ivar, s1)" "gen_expr start s1 = Inr ((r, tmp), s2)"
    "gen_expr stop (release_if tmp r (s2\<lparr>asm := asm_append (if ivar \<noteq> r then [iw I_ADD ivar r 0] else []) (asm s2)\<rparr>))
      = Inr ((pr, pt), s4)"
    "(if pt then Inr (pr, s4) else ebind (alloc s4) (\<lambda>(held, s). ebind (cg_mov held pr s) (\<lambda>s. Inr (held, s))))
      = Inr (sreg, s5)"
    and a: "asm_branch epl 1 (asm_setp CMP_GE 1 ivar sreg (snd (asm_new_label (snd (asm_here (asm s5)))))) = Inr (asm s')"
    using assms(1) unfolding for_enter_def by (auto simp: Let_def asm_here_def asm_new_label_def)
  have "cg_good n s1" using cg_good_var [OF h(1)] assms(4) by simp
  then have "cg_good n s2" by (rule gen_expr_good [OF h(2)])
  then have "cg_good n s4" by (intro gen_expr_good [OF h(3)]) (simp add: emittable_iw)
  then have g5: "cg_good n s5" using h(4) by (auto simp: cg_good_alloc emittable_iw split: if_splits)
  have "words (asm s') = words (asm s5) @ [setp_ge_word ivar sreg, branch_word 1]"
  proof -
    obtain b where b: "b = asm s'" by blast
    show ?thesis
      using a [folded b] unfolding b [symmetric]
      by (auto simp: asm_branch_def asm_setp_def asm_r_eq asm_here_def asm_new_label_def setp_ge_word_def)
  qed
  then show ?thesis using g5 emittable_setp emittable_branch0 [OF assms(5)] by (simp add: cg_good_def)
qed

lemma for_leave_good:
  assumes "for_leave ivar sreg step tpl epl s = Inr s'" "cg_good n s" "0 < n"
  shows "cg_good n s'"
proof -
  have st: "0 \<le> step" "step \<le> 0xFFF"
    using assms(1) by (auto simp: for_leave_def cg_i_def asm_i_def enc_i_def split: if_splits)
  then show ?thesis
    using assms emittable_branch0 [OF assms(3)]
    by (auto simp: for_leave_def asm_branch_def asm_bind_def cg_good_def emittable_iw release_def)
qed

lemma gen_stmts_good:
  "gen_stmt c s = Inr s' \<Longrightarrow> cg_ok s \<Longrightarrow> asm_wf (asm s) \<Longrightarrow> cg_good n s \<Longrightarrow> 0 < n \<Longrightarrow> cg_good n s'"
  "gen_stmts cs s = Inr s' \<Longrightarrow> cg_ok s \<Longrightarrow> asm_wf (asm s) \<Longrightarrow> cg_good n s \<Longrightarrow> 0 < n \<Longrightarrow> cg_good n s'"
proof (induction c s and cs s arbitrary: s' and s' rule: gen_stmt_gen_stmts.induct)
  case (1 target it body orelse s)
  then obtain x start stop step ivar sreg tpl epl s1 s2 where
    h: "for_head target it = Inr (x, start, stop, step)" "for_enter x start stop s = Inr ((ivar, sreg, tpl, epl), s1)"
    "gen_stmts body s1 = Inr s2" "for_leave ivar sreg step tpl epl s2 = Inr s'"
    by (auto split: if_splits)
  obtain code where c: "entered x start stop s s1 ivar sreg code"
    using for_enter_ok(1) [OF h(2) "1.prems"(2,3)] by blast
  have ok1: "cg_ok s1" "asm_wf (asm s1)" using c by (simp_all add: entered_def)
  have "cg_good n s1" by (rule for_enter_good [OF h(2) "1.prems"(2-5)])
  then have "cg_good n s2" using "1.IH" h ok1 "1.prems"(5) by blast
  then show ?case by (rule for_leave_good [OF h(4) _ "1.prems"(5)])
next
  case (4 v s)
  then show ?case using emittable_exit by (auto simp: asm_exit_Inr split: if_splits)
next
  case (9 c cs s)
  then obtain s1 where s1: "gen_stmt c s = Inr s1" "gen_stmts cs s1 = Inr s'" by auto
  have "gstep s s1" by (rule gen_stmts_gstep(1) [OF s1(1) "9.prems"(2,3)])
  then show ?case using "9.IH" s1 "9.prems" unfolding gstep_def by blast
qed (auto dest: gen_assign_good)

lemma gen_params_good: "gen_params idx ns s = Inr s' \<Longrightarrow> cg_good n s \<Longrightarrow> cg_good n s'"
proof (induction idx ns s rule: gen_params.induct)
  case (2 idx a as s)
  obtain reg s1 s2 where s: "var_reg a s = Inr (reg, s1)" "cg_i I_LOAD reg R_PARAM (4 * int idx) s1 = Inr s2"
    "gen_params (Suc idx) as s2 = Inr s'"
    using "2.prems"(1) by auto
  have imm: "0 \<le> 4 * int idx" "4 * int idx \<le> 0xFFF"
    using s(2) by (auto simp: cg_i_def asm_i_def enc_i_def split: if_splits)
  then have "s2 = s1\<lparr>asm := asm_append [iw I_LOAD reg R_PARAM (4 * int idx)] (asm s1)\<rparr>" using s(2) by simp
  then have "cg_good n s2" using cg_good_var [OF s(1)] "2.prems"(2) imm by (simp add: emittable_iw)
  then show ?case using "2.IH" s by blast
qed simp

lemma compile_emittable:
  assumes "compile fn = Inr ws"
  shows "list_all (emittable (length ws)) ws \<and> ws \<noteq> [] \<and> last ws = 0xC8007FF9"
proof -
  obtain s1 s2 a where s1: "gen_params 0 (fargs fn) cg_init = Inr s1" and s2: "gen_stmts (fbody fn) s1 = Inr s2"
    and f: "asm_finalize (asm_append [0xC8007FF9] (asm s2)) = Inr (ws, a)"
    using assms by (auto simp: compile_def asm_exit_Inr)
  define A where "A = asm_append [0xC8007FF9] (asm s2)"
  have wf0: "asm_wf (asm cg_init)" by (simp add: cg_init_def asm_wf_init)
  have g1: "gstep cg_init s1" by (rule gen_params_run(1) [OF s1 cg_ok_init wf0])
  then have g2: "gstep s1 s2" using gen_stmts_gstep(2) [OF s2] by (simp add: gstep_def)
  have wfA: "asm_wf A" unfolding A_def using g2 asm_wf_append by (simp add: gstep_def)
  note fin = finalize_resolved [OF f [folded A_def] wfA]
  have n: "0 < length ws" "length ws = length (words (asm s2)) + 1" using fin(2) by (simp_all add: A_def)
  have "cg_good (length ws) cg_init" by (simp add: cg_good_def cg_init_def asm_init_def)
  then have "cg_good (length ws) s1" by (rule gen_params_good [OF s1])
  then have "cg_good (length ws) s2" using gen_stmts_good(2) [OF s2] g1 n(1) by (simp add: gstep_def)
  then have good: "list_all (emittable (length ws)) (words A)" using emittable_exit by (simp add: cg_good_def A_def)
  have "emittable (length ws) (ws ! i)" if i: "i < length ws" for i
  proof (cases "i \<in> fst ` set (fixups A)")
    case False
    then have "ws ! i = words A ! i" using fin i by (simp add: resolved_def)
    then show ?thesis using good i fin(2) by (simp add: list_all_length)
  next
    case True
    then obtain l where l: "(i, l) \<in> set (fixups A)" by auto
    have p: "patch_all (labels A) (fixups A) (words A) = Inr ws"
      using f by (auto simp: asm_finalize_def A_def)
    have "distinct (map fst (fixups A))" using wfA by (simp add: asm_wf_def)
    from patch_all_fixup [OF p this l] obtain pc where pc: "label_pc (labels A) l = Some pc" "pc \<le> 0xFFF"
      "ws ! i = patch (words A ! i) pc" by blast
    obtain prd where "words A ! i = branch_word prd" using wfA l unfolding asm_wf_def by blast
    moreover have "pc \<le> length (words (asm s2))"
    proof -
      have "Some pc \<in> set (labels (asm s2))"
        using pc(1) by (auto simp: label_pc_def A_def split: if_splits) (metis nth_mem)
      then show ?thesis using g2 unfolding gstep_def asm_wf_def by blast
    qed
    ultimately show ?thesis using pc n emittable_branch by simp
  qed
  moreover have "last ws = 0xC8007FF9"
  proof -
    have "length (words (asm s2)) \<notin> fst ` set (fixups A)"
      using g2 asm_wf_fixup [of "asm s2"] less_irrefl unfolding A_def gstep_def by fastforce
    then have "ws ! length (words (asm s2)) = 0xC8007FF9" using fin n by (auto simp: resolved_def A_def)
    moreover have "last ws = ws ! (length ws - 1)" using n(1) by (intro last_conv_nth) auto
    ultimately show ?thesis using n(2) by simp
  qed
  ultimately show ?thesis using n(1) by (auto simp: list_all_length)
qed

end
