(* ===== verification/CompilerErrors.thy ===== *)
theory CompilerErrors
  imports CompilerProps
begin

text \<open>
  Which exceptions \<open>compile\<close> can raise. The command line catches only \<open>CompileError\<close>; the
  lemmas show that the other exceptions of the code generator need one of three causes: a
  \<open>range\<close> step beyond the immediate field, an augmented assignment to a target that is not a
  name or a subscript, or a parameter list with a repeated name.
\<close>

fun is_compile_error :: "py_error \<Rightarrow> bool" where
  "is_compile_error (CompileError _) = True"
| "is_compile_error _ = False"

fun aug_ok :: "expr \<Rightarrow> bool" where
  "aug_ok (Name _) = True"
| "aug_ok (Subscript _ _) = True"
| "aug_ok _ = False"

fun stmt_ok :: "stmt \<Rightarrow> bool" where
  "stmt_ok (For target it body orelse) \<longleftrightarrow>
     list_all stmt_ok body \<and>
     (case for_head target it of Inr (_, _, _, step) \<Rightarrow> step \<le> 0xFFF | Inl _ \<Rightarrow> True)"
| "stmt_ok (AugAssign target opn value) \<longleftrightarrow> aug_ok target"
| "stmt_ok _ = True"

definition kernel_ok :: "fundef \<Rightarrow> bool" where
  "kernel_ok fn \<longleftrightarrow> distinct (fargs fn) \<and> list_all stmt_ok (fbody fn)"

lemma ebind_eq_Inl_iff: "ebind m f = Inl e \<longleftrightarrow> m = Inl e \<or> (\<exists>x. m = Inr x \<and> f x = Inl e)"
  by (cases m) auto

lemma alloc_err: "alloc s = Inl e \<Longrightarrow> is_compile_error e"
  by (auto simp: alloc_def split: list.splits)

lemma var_reg_err: "var_reg x s = Inl e \<Longrightarrow> is_compile_error e"
  by (auto simp: var_reg_def ebind_eq_Inl_iff alloc_err split: option.splits)

lemma alloc_vars: "alloc s = Inr (t, s1) \<Longrightarrow> vars s1 = vars s"
  by (auto simp: alloc_def split: list.splits)

lemma release_vars [simp]: "vars (release r s) = vars s" "vars (release_if t r s) = vars s"
  by (simp_all add: release_def release_if_def)

lemma cg_emit_vars [simp]: "vars (cg_r k a b c s) = vars s" "cg_i k a b i s = Inr s' \<Longrightarrow> vars s' = vars s"
  by (auto simp: cg_r_def cg_i_def)

lemma gen_expr_vars: "gen_expr e s = Inr (p, s') \<Longrightarrow> vars s' = vars s"
proof (induction e arbitrary: s s' p)
  case (BinOp l opn r)
  then obtain a tmpa s1 where s1: "gen_expr l s = Inr ((a, tmpa), s1)" "vars s1 = vars s"
    by (fastforce split: if_splits)
  show ?case
  proof (cases "if opn = Mod then None else imm_const r")
    case None
    then obtain b bt s2 where "gen_expr r s1 = Inr ((b, bt), s2)" "vars s2 = vars s1"
      using BinOp s1(1) by (fastforce split: if_splits)
    then show ?thesis using BinOp.prems None s1 by (auto simp: Let_def dest!: alloc_vars split: if_splits)
  next
    case (Some v)
    then show ?thesis using BinOp.prems s1 by (auto simp del: cg_emit_simps dest!: alloc_vars split: if_splits)
  qed
next
  case (Subscript v i)
  obtain x b where v: "v = Name x" "map_of (vars s) x = Some b"
    using Subscript.prems by (cases v) (auto split: option.splits)
  then obtain a tmpa s1 where g: "gen_expr i s = Inr ((a, tmpa), s1)"
    using Subscript.prems by auto
  moreover have "vars s1 = vars s" by (rule Subscript.IH(2) [OF g])
  ultimately show ?case
    using Subscript.prems v by (auto simp del: cg_emit_simps simp: Let_def dest!: alloc_vars split: option.splits)
qed (fastforce simp: alloc_vars split: option.splits)+

lemma cg_i_err: "0 \<le> i \<Longrightarrow> i \<le> 0xFFF \<Longrightarrow> cg_i k a b i s \<noteq> Inl e"
  by simp

lemma gen_expr_err: "gen_expr e s = Inl x \<Longrightarrow> is_compile_error x"
proof (induction e arbitrary: s x)
  case (Constant c)
  then show ?case by (auto simp: ebind_eq_Inl_iff alloc_err split: option.splits)
next
  case (Name y)
  then show ?case by (auto split: option.splits)
next
  case (USub e)
  then show ?case by (auto simp: ebind_eq_Inl_iff alloc_err)
next
  case (BinOp l opn r)
  show ?case
  proof (cases "if opn = Mod then None else imm_const r")
    case None
    then show ?thesis using BinOp by (auto simp: ebind_eq_Inl_iff alloc_err Let_def split: if_splits)
  next
    case (Some v)
    then have "0 \<le> v" "v \<le> 0xFFF" by (auto dest: imm_const_range split: if_splits)
    then show ?thesis using BinOp Some by (auto simp: ebind_eq_Inl_iff alloc_err split: if_splits)
  qed
next
  case (Subscript v i)
  show ?case
  proof (cases "\<exists>x b. v = Name x \<and> map_of (vars s) x = Some b")
    case True
    then show ?thesis
      using Subscript by (auto simp: ebind_eq_Inl_iff alloc_err Let_def dest!: alloc_vars gen_expr_vars)
  next
    case False
    then show ?thesis using Subscript.prems by (auto simp: ebind_eq_Inl_iff split: expr.splits option.splits)
  qed
qed auto

lemma gen_subscript_err: "gen_subscript v i s = Inl x \<Longrightarrow> is_compile_error x"
  using gen_expr_err [of "Subscript v i" s x] by (simp add: ebind_eq_Inl_iff del: gen_subscript.simps)

lemma gen_assign_err: "gen_assign ts e s = Inl x \<Longrightarrow> is_compile_error x"
  unfolding gen_assign_def
  by (auto simp: ebind_eq_Inl_iff var_reg_err simp del: gen_subscript.simps
      dest!: gen_expr_err gen_subscript_err split: list.splits expr.splits if_splits)

lemma range_args_err: "range_args args = Inl x \<Longrightarrow> is_compile_error x"
  by (auto simp: range_args_def split: list.splits expr.splits option.splits if_splits)

lemma for_head_err: "for_head t it = Inl x \<Longrightarrow> is_compile_error x"
  by (auto simp: for_head_def ebind_eq_Inl_iff range_args_err split: expr.splits if_splits)

lemma gen_params_err:
  "gen_params idx ns s = Inl e \<Longrightarrow> cg_ok s \<Longrightarrow> length (vars s) = idx \<Longrightarrow> distinct ns \<Longrightarrow>
   set ns \<inter> fst ` set (vars s) = {} \<Longrightarrow> is_compile_error e"
proof (induction idx ns s rule: gen_params.induct)
  case (2 idx a as s)
  have new: "map_of (vars s) a = None" using "2.prems"(5) by (simp add: map_of_eq_None_iff)
  show ?case
  proof (cases "var_reg a s")
    case (Inl y)
    then show ?thesis using "2.prems"(1) var_reg_err by simp
  next
    case (Inr y)
    obtain reg s1 where s1: "var_reg a s = Inr (reg, s1)" using Inr by (cases y) auto
    then have v: "vars s1 = (a, reg) # vars s"
      using new by (auto simp: var_reg_def dest!: alloc_vars)
    have ok: "cg_ok s1" by (rule var_reg_ok(1) [OF s1 "2.prems"(2)])
    have "length (vars s1) = card (set (map snd (vars s1)))"
      using ok by (simp add: cg_ok_def distinct_card del: set_map)
    also have "\<dots> \<le> card (set R_POOL)"
      using ok by (intro card_mono) (auto simp: cg_ok_def regs_of_def)
    also have "\<dots> = 56" by (subst distinct_card) (simp_all add: R_POOL_def)
    finally have "length (vars s1) \<le> 56" .
    then have imm: "0 \<le> 4 * int idx" "4 * int idx \<le> 0xFFF" using v "2.prems"(3) by simp_all
    define s2 where "s2 = s1\<lparr>asm := asm_append [iw I_LOAD reg R_PARAM (4 * int idx)] (asm s1)\<rparr>"
    have s2: "cg_i I_LOAD reg R_PARAM (4 * int idx) s1 = Inr s2" using imm by (simp add: s2_def)
    show ?thesis
    proof (rule "2.IH")
      show "var_reg a s = Inr (reg, s1)" "(reg, s1) = (reg, s1)" by (simp_all add: s1)
      show "cg_i I_LOAD reg R_PARAM (4 * int idx) s1 = Inr s2" by (rule s2)
      show "gen_params (Suc idx) as s2 = Inl e" using "2.prems"(1) s1 s2 by simp
    qed (use ok v "2.prems" in \<open>auto simp: s2_def\<close>)
  qed
qed simp

lemma asm_branch_Inr: "\<exists>a'. asm_branch l prd a = Inr a'"
  by (simp add: asm_branch_def)

lemma for_enter_err: "for_enter x start stop s = Inl e \<Longrightarrow> is_compile_error e"
proof -
  assume e: "for_enter x start stop s = Inl e"
  have "asm_branch l prd a \<noteq> Inl e" for l prd a
    using asm_branch_Inr [of l prd a] by auto
  then show ?thesis
    using e unfolding for_enter_def
    by (auto simp: ebind_eq_Inl_iff Let_def split: prod.splits if_splits dest!: var_reg_err alloc_err gen_expr_err)
qed

lemma for_leave_err: "for_leave i n step tpl epl s = Inl e \<Longrightarrow> step < 0 \<or> 0xFFF < step"
proof (rule ccontr)
  assume e: "for_leave i n step tpl epl s = Inl e" and "\<not> (step < 0 \<or> 0xFFF < step)"
  then have "0 \<le> step" "step \<le> 0xFFF" by auto
  moreover have "asm_branch l prd a \<noteq> Inl e" for l prd a
    using asm_branch_Inr [of l prd a] by auto
  ultimately show False using e unfolding for_leave_def by (auto simp: ebind_eq_Inl_iff)
qed

lemma for_head_step: "for_head t it = Inr (x, start, stop, step) \<Longrightarrow> 0 < step"
  by (auto simp: for_head_def range_args_def ebind_eq_Inr_iff split: expr.splits if_splits list.splits option.splits)

lemma gen_stmts_err:
  "gen_stmt c s = Inl e \<Longrightarrow> stmt_ok c \<Longrightarrow> is_compile_error e"
  "gen_stmts cs s = Inl e \<Longrightarrow> list_all stmt_ok cs \<Longrightarrow> is_compile_error e"
proof (induction c s and cs s arbitrary: e and e rule: gen_stmt_gen_stmts.induct)
  case (1 target it body orelse s)
  show ?case
  proof (cases "for_head target it")
    case (Inl x)
    then show ?thesis using "1.prems"(1) for_head_err by auto
  next
    case (Inr h)
    obtain x start stop step where h: "h = (x, start, stop, step)" by (cases h) auto
    have step: "0 < step" "step \<le> 0xFFF" using for_head_step Inr "1.prems"(2) h by auto
    show ?thesis
    proof (cases "for_enter x start stop s")
      case Inl': (Inl y)
      then show ?thesis using "1.prems"(1) Inr h for_enter_err by auto
    next
      case Inr': (Inr y)
      obtain iv sr tpl epl s1 where y: "y = ((iv, sr, tpl, epl), s1)" by (cases y) auto
      have "gen_stmts body s1 = Inl z \<Longrightarrow> is_compile_error z" for z
        using "1.IH" Inr h Inr' y "1.prems"(2) by auto
      then show ?thesis using "1.prems"(1) Inr h Inr' y step for_leave_err [of iv sr step tpl epl]
        by (auto simp: ebind_eq_Inl_iff split: if_splits)
    qed
  qed
next
  case (3 target opn v s)
  then show ?case using gen_assign_err by (cases target) auto
next
  case (4 v s)
  then show ?case by (auto simp: asm_exit_Inr split: if_splits)
next
  case (9 c cs s)
  then show ?case by (auto simp: ebind_eq_Inl_iff)
qed (auto simp: gen_assign_err)

lemma patch_all_err:
  "patch_all lbls fs ws = Inl e \<Longrightarrow> \<forall>(i, l) \<in> set fs. i < length ws \<Longrightarrow> is_compile_error e"
  by (induction lbls fs ws rule: patch_all.induct) (auto split: option.splits if_splits)

lemma compile_err:
  assumes e: "compile fn = Inl e" and ok: "kernel_ok fn"
  shows "is_compile_error e"
proof -
  have wf0: "asm_wf (asm cg_init)" by (simp add: cg_init_def asm_wf_init)
  consider (P) "gen_params 0 (fargs fn) cg_init = Inl e"
    | (B) s1 where "gen_params 0 (fargs fn) cg_init = Inr s1" "gen_stmts (fbody fn) s1 = Inl e"
    | (F) s1 s2 where "gen_params 0 (fargs fn) cg_init = Inr s1" "gen_stmts (fbody fn) s1 = Inr s2"
        "asm_finalize (asm_append [0xC8007FF9] (asm s2)) = Inl e"
    using e by (auto simp: compile_def ebind_eq_Inl_iff asm_exit_Inr)
  then show ?thesis
  proof cases
    case P
    then show ?thesis
      using gen_params_err [of 0 "fargs fn" cg_init e] cg_ok_init ok by (simp add: kernel_ok_def cg_init_def)
  next
    case B
    then show ?thesis using gen_stmts_err(2) ok by (simp add: kernel_ok_def)
  next
    case F
    have g1: "gstep cg_init s1" by (rule gen_params_run(1) [OF F(1) cg_ok_init wf0])
    then have "gstep s1 s2" using gen_stmts_gstep(2) [OF F(2)] by (simp add: gstep_def)
    then have "asm_wf (asm_append [0xC8007FF9] (asm s2))" using asm_wf_append by (simp add: gstep_def)
    then show ?thesis using F(3) patch_all_err unfolding asm_wf_def
      by (fastforce simp: asm_finalize_def ebind_eq_Inl_iff)
  qed
qed

end
