(* ===== verification/CompilerResults.thy ===== *)
theory CompilerResults
  imports CompilerErrors
begin

text \<open>
  What the scalar backend promises, stated on the functions of
  \<^verbatim>\<open>compiler/titan_compiler.py\<close>: correctness of \<open>compile\<close> with respect to the kernel
  semantics, shape of its output, exceptions, conservation of registers; the assembler's
  fixup pass; the instruction encoding; the arithmetic of the reference simulator. Each
  statement rests on the lemmas of the component theories. The last section holds the two
  kernels whose compiled code departs from Python.
\<close>

section \<open>The compiler\<close>

text \<open>C1: a kernel that compiles and whose meaning is defined on a memory image runs to the exit
  instruction in the reference simulator, under every watchdog limit above its step count, and
  leaves exactly the memory the kernel semantics gives.\<close>

theorem scalar_compile_correct:
  assumes "compile fn = Inr ws" "krun n fn mem addr = Some mem'" "byte_mem mem"
  shows "\<exists>k. \<forall>extra. simulate ws mem addr (k + 1 + extra) = Inr (k + 1, mem')"
proof -
  obtain k where "\<forall>max_steps > k. simulate ws mem addr max_steps = Inr (k + 1, mem')"
    using halts_simulate [OF compile_halts [OF assms]] by blast
  then have "simulate ws mem addr (k + 1 + extra) = Inr (k + 1, mem')" for extra by simp
  then show ?thesis by blast
qed

theorem scalar_compile_correct_witness:
  "\<exists>k. \<forall>extra. simulate
      [2957017089, 2959114273, 10485769, 8552449, 10584065, 2845968896, 3221225571, 549554176,
       1088552977, 3099659776, 8519689, 3221225513, 3355475961] demo_mem 12 (k + 1 + extra)
    = Inr (k + 1, [7, 7, 7, 7, 3, 0, 0, 0, 1, 0, 0, 0, 0, 0, 0, 0, 3, 0, 0, 0])"
proof (rule scalar_compile_correct [of store_kernel _ 5])
  show "compile store_kernel = Inr [2957017089, 2959114273, 10485769, 8552449, 10584065, 2845968896,
    3221225571, 549554176, 1088552977, 3099659776, 8519689, 3221225513, 3355475961]"
    by code_simp
  show "krun 5 store_kernel demo_mem 12 = Some [7, 7, 7, 7, 3, 0, 0, 0, 1, 0, 0, 0, 0, 0, 0, 0, 3, 0, 0, 0]"
    by code_simp
  show "byte_mem demo_mem" by (simp add: byte_mem_def demo_mem_def)
qed

text \<open>C12: every word of a compiled program is a 32-bit word the disassembler accepts, every branch
  target lies inside the program, and the program ends with the exit instruction.\<close>

theorem compile_well_formed:
  assumes "compile fn = Inr ws"
  shows "list_all (emittable (length ws)) ws \<and> ws \<noteq> [] \<and> last ws = 0xC8007FF9"
  by (rule compile_emittable [OF assms])

theorem compile_well_formed_witness:
  "list_all (emittable (length [4196353, 6356993, 3355475961 :: int])) [4196353, 6356993, 3355475961] \<and>
   [4196353, 6356993, 3355475961] \<noteq> ([] :: int list) \<and> last [4196353, 6356993, 3355475961] = (0xC8007FF9 :: int)"
proof (rule compile_well_formed)
  show "compile \<lparr>fname = ''k'', fargs = [], fbody = [Assign [Name ''x''] (Constant (CInt 256))], fextra = []\<rparr>
    = Inr [4196353, 6356993, 3355475961]"
    by code_simp
qed

text \<open>C13: on a kernel with distinct parameters, loop steps of at most 4095 and augmented assignments
  to names or subscripts only, the compiler raises nothing but \<open>CompileError\<close>.\<close>

theorem compile_raises_compile_error:
  assumes "kernel_ok fn" "compile fn = Inl e"
  shows "\<exists>msg. e = CompileError msg"
  using compile_err [OF assms(2,1)] by (cases e) auto

theorem compile_raises_compile_error_witness:
  "\<exists>msg. CompileError (''undefined variable '' @ quoted ''x'') = CompileError msg"
proof (rule compile_raises_compile_error)
  show "kernel_ok \<lparr>fname = ''k'', fargs = [''y''], fbody = [Assign [Name ''y''] (Name ''x'')], fextra = []\<rparr>"
    by (simp add: kernel_ok_def)
  show "compile \<lparr>fname = ''k'', fargs = [''y''], fbody = [Assign [Name ''y''] (Name ''x'')], fextra = []\<rparr>
    = Inl (CompileError (''undefined variable '' @ quoted ''x''))"
    by code_simp
qed

text \<open>C14: register allocation neither leaks nor duplicates. After the parameters and any statements
  have been compiled, the free registers and those of the variables are disjoint, without
  repetition, and together exactly the pool.\<close>

theorem registers_conserved:
  assumes "gen_params 0 ps cg_init = Inr s1" "gen_stmts body s1 = Inr s2"
  shows "distinct (free_regs s2 @ map snd (vars s2)) \<and> set (free_regs s2 @ map snd (vars s2)) = set R_POOL"
proof -
  have "asm_wf (asm cg_init)" by (simp add: cg_init_def asm_wf_init)
  then have "gstep cg_init s1" by (rule gen_params_run(1) [OF assms(1) cg_ok_init])
  then have "gstep cg_init s2" using gen_stmts_gstep(2) [OF assms(2)] gstep_trans by (metis gstep_def)
  then show ?thesis by (auto simp: gstep_def cg_ok_def managed_def regs_of_def cg_init_def)
qed

theorem registers_conserved_witness:
  "let s1 = cg_init\<lparr>asm := asm_append [2957017089] asm_init, free_regs := tl R_POOL, vars := [(''x'', 2)]\<rparr>
   in distinct (free_regs s1 @ map snd (vars s1)) \<and> set (free_regs s1 @ map snd (vars s1)) = set R_POOL"
proof -
  define s1 where "s1 = cg_init\<lparr>asm := asm_append [2957017089] asm_init, free_regs := tl R_POOL, vars := [(''x'', 2)]\<rparr>"
  have "gen_params 0 [''x''] cg_init = Inr s1" unfolding s1_def by code_simp
  moreover have "gen_stmts [Pass] s1 = Inr s1" by simp
  ultimately have "distinct (free_regs s1 @ map snd (vars s1)) \<and> set (free_regs s1 @ map snd (vars s1)) = set R_POOL"
    by (rule registers_conserved)
  then show ?thesis unfolding s1_def by (simp add: Let_def)
qed

section \<open>The assembler\<close>

text \<open>C15: on a well-formed stream \<open>finalize\<close> raises exactly for a fixup whose label is unbound or
  beyond the immediate field; otherwise it patches every fixup to the branch instruction for
  its label, with the predicate it was emitted with, and changes no other word.\<close>

theorem finalize_patches:
  assumes "asm_wf s"
  shows "case asm_finalize s of
      Inr (ws, s') \<Rightarrow> length ws = length (words s) \<and> words s' = ws \<and> fixups s' = [] \<and>
        list_all (\<lambda>(i, l). \<exists>pc prd. label_pc (labels s) l = Some pc \<and> words s ! i = branch_word prd \<and>
          enc_i (OPS I_BRANCH) 0 0 (int pc) prd = Inr (ws ! i)) (fixups s) \<and>
        list_all (\<lambda>i. if i \<in> fst ` set (fixups s) then True else ws ! i = words s ! i) [0..<length ws]
    | Inl e \<Rightarrow> list_ex (\<lambda>(i, l). case label_pc (labels s) l of None \<Rightarrow> True | Some pc \<Rightarrow> 0xFFF < pc) (fixups s)"
proof (cases "patch_all (labels s) (fixups s) (words s)")
  case (Inl e)
  have "\<not> list_all (\<lambda>(i, l). \<exists>pc. label_pc (labels s) l = Some pc \<and> pc \<le> 0xFFF) (fixups s)"
  proof
    assume "list_all (\<lambda>(i, l). \<exists>pc. label_pc (labels s) l = Some pc \<and> pc \<le> 0xFFF) (fixups s)"
    then have "\<forall>(i, l) \<in> set (fixups s). i < length (words s) \<and> (\<exists>pc. label_pc (labels s) l = Some pc \<and> pc \<le> 0xFFF)"
      using assms unfolding asm_wf_def list_all_iff by fast
    then show False using patch_all_total Inl by fastforce
  qed
  then show ?thesis
    using Inl by (fastforce simp: asm_finalize_def list_all_iff list_ex_iff split: option.splits)
next
  case (Inr ws)
  have d: "distinct (map fst (fixups s))" using assms by (simp add: asm_wf_def)
  have "\<exists>pc prd. label_pc (labels s) l = Some pc \<and> words s ! i = branch_word prd \<and>
      enc_i (OPS I_BRANCH) 0 0 (int pc) prd = Inr (ws ! i)" if m: "(i, l) \<in> set (fixups s)" for i l
  proof -
    obtain pc where pc: "label_pc (labels s) l = Some pc" "pc \<le> 0xFFF" "ws ! i = patch (words s ! i) pc"
      using patch_all_fixup [OF Inr d m] by blast
    obtain prd where "words s ! i = branch_word prd" using assms m unfolding asm_wf_def by blast
    then show ?thesis using pc patch_branch_word [OF pc(2), of prd] by auto
  qed
  moreover have "list_all (\<lambda>i. if i \<in> fst ` set (fixups s) then True else ws ! i = words s ! i) [0..<length ws]"
    using patch_all_other [OF Inr] by (simp add: list_all_iff)
  ultimately show ?thesis
    using Inr patch_all_length [OF Inr] by (auto simp: asm_finalize_def list_all_iff simp del: OPS.simps)
qed

theorem finalize_patches_witness:
  "let s = \<lparr>words = [branch_word 1, 7], fixups = [(0, 0)], labels = [Some 2]\<rparr> in
   case asm_finalize s of
      Inr (ws, s') \<Rightarrow> length ws = length (words s) \<and> words s' = ws \<and> fixups s' = [] \<and>
        list_all (\<lambda>(i, l). \<exists>pc prd. label_pc (labels s) l = Some pc \<and> words s ! i = branch_word prd \<and>
          enc_i (OPS I_BRANCH) 0 0 (int pc) prd = Inr (ws ! i)) (fixups s) \<and>
        list_all (\<lambda>i. if i \<in> fst ` set (fixups s) then True else ws ! i = words s ! i) [0..<length ws]
    | Inl e \<Rightarrow> list_ex (\<lambda>(i, l). case label_pc (labels s) l of None \<Rightarrow> True | Some pc \<Rightarrow> 0xFFF < pc) (fixups s)"
  unfolding Let_def by (rule finalize_patches) (auto simp: asm_wf_def)

section \<open>The instruction encoding\<close>

text \<open>C16: an instruction whose fields fit is read back unchanged from its word, by the field
  extractions that the disassembler and the simulator share.\<close>

theorem instruction_roundtrip:
  assumes "instr_ok x"
  shows "ebind (encode x) decode_word = Inr x"
  by (rule isa.roundtrip [OF assms])

theorem instruction_roundtrip_witness:
  "ebind (encode (IInstr I_LOAD 5 1 12 0)) decode_word = Inr (IInstr I_LOAD 5 1 12 0)"
  by (rule instruction_roundtrip) (simp add: field_ok_def)

text \<open>The disassembler is total on all words but one family: it raises (an \<open>IndexError\<close>) exactly
  on a \<open>SETP\<close> whose condition field is 6 or 7.\<close>

theorem disassemble_raises:
  "(\<exists>e. disassemble w = Inl e) \<longleftrightarrow> f_op w = OPS I_SETP \<and> 6 \<le> drop_bit 2 (f_rd w) AND 7"
  by (rule disassemble_error_iff)

section \<open>The arithmetic of the simulator\<close>

text \<open>C17: on register values the simulator's arithmetic is that of 32-bit machine words. The
  quotient, computed in the source as a double and truncated, is the exact truncating quotient
  of the signed operands for every pair of operands, and all ones for a zero divisor.\<close>

theorem alu_is_machine_arithmetic:
  fixes a b :: "32 word"
  shows "alu I_ADD (uint a) (uint b) = Some (Inr (uint (a + b))) \<and>
    alu I_SUB (uint a) (uint b) = Some (Inr (uint (a - b))) \<and>
    alu I_MUL (uint a) (uint b) = Some (Inr (uint (a * b))) \<and>
    alu I_DIV (uint a) (uint b) =
      Some (Inr (uint (if b = 0 then - 1 else word_of_int (sint a sdiv sint b) :: 32 word))) \<and>
    alu I_AND (uint a) (uint b) = Some (Inr (uint (a AND b))) \<and>
    alu I_OR (uint a) (uint b) = Some (Inr (uint (a OR b))) \<and>
    alu I_XOR (uint a) (uint b) = Some (Inr (uint (a XOR b))) \<and>
    alu I_SHL (uint a) (uint b) = Some (Inr (uint (push_bit (unat b mod 32) a))) \<and>
    alu I_SHR (uint a) (uint b) = Some (Inr (uint (drop_bit (unat b mod 32) a))) \<and>
    alu I_SRA (uint a) (uint b) = Some (Inr (uint (signed_drop_bit (unat b mod 32) a)))"
  using alu_word [of _ a b] by (simp add: alu_op_def word_div_def word_sh_def del: alu.simps)

text \<open>A comparison of \<open>SETP\<close> holds of two registers when the signed or unsigned comparison
  its condition names holds of the machine words.\<close>

theorem setp_compares_words:
  fixes a b :: "32 word"
  shows "setp_res (cmp_code c) (uint a) (uint b) = Inr
    (case c of CMP_EQ \<Rightarrow> a = b | CMP_NE \<Rightarrow> a \<noteq> b | CMP_LT \<Rightarrow> a <s b | CMP_GE \<Rightarrow> b \<le>s a
     | CMP_LTU \<Rightarrow> a < b | CMP_GEU \<Rightarrow> b \<le> a)"
  by (cases c) (auto simp: setp_res_def s32_uint word_sless_alt word_sle_eq word_less_def word_le_def
      word_uint_eq_iff)

section \<open>Where compiled code departs from Python\<close>

text \<open>Three kernels. In \<open>clobber_kernel\<close> a name first assigned in an inner loop shares its
  register with a temporary of an earlier part of the enclosing body: Python leaves
  \<open>A[1] = 7\<close>, the compiled code stores 2. In \<open>rebind_kernel\<close> the loop variable is assigned before
  the bound of \<open>range\<close> is evaluated: Python runs the body twice, the compiled loop stores
  nothing. A step beyond the immediate field ends in an assertion, not in a \<open>CompileError\<close>.\<close>

theorem departures_from_python:
  "(case compile clobber_kernel of
      Inr ws \<Rightarrow> simulate ws (replicate 12 0 @ [0, 0, 0, 0]) 12 1000
    | Inl e \<Rightarrow> Inl e) = Inr (53, [7, 0, 0, 0, 2, 0, 0, 0, 6, 0, 0, 0, 0, 0, 0, 0]) \<and>
   (case compile rebind_kernel of
      Inr ws \<Rightarrow> simulate ws (replicate 8 0 @ [0, 0, 0, 0]) 8 1000
    | Inl e \<Rightarrow> Inl e) = Inr (9, replicate 12 0) \<and>
   compile \<lparr>fname = ''k'', fargs = [], fbody =
     [For (Name ''i'') (Call (Name ''range'')
        [Constant (CInt 0), Constant (CInt 9999), Constant (CInt 5000)] []) [Pass] []],
     fextra = []\<rparr> = Inl AssertionError"
proof (intro conjI)
  show "(case compile clobber_kernel of
      Inr ws \<Rightarrow> simulate ws (replicate 12 0 @ [0, 0, 0, 0]) 12 1000
    | Inl e \<Rightarrow> Inl e) = Inr (53, [7, 0, 0, 0, 2, 0, 0, 0, 6, 0, 0, 0, 0, 0, 0, 0])"
    by code_simp
  show "(case compile rebind_kernel of
      Inr ws \<Rightarrow> simulate ws (replicate 8 0 @ [0, 0, 0, 0]) 8 1000
    | Inl e \<Rightarrow> Inl e) = Inr (9, replicate 12 0)"
    by code_simp
qed code_simp

end
