(* ===== verification/TensorBackend.thy ===== *)
theory TensorBackend
  imports Assembler KernelAst
begin

text \<open>
  The tensor backend of \<^verbatim>\<open>compiler/titan_compiler.py\<close>: the pattern match that recognises the
  matrix multiplication triple loop (\<open>match_matmul\<close> and its helpers) and \<open>compile_tensor\<close>, which
  emits a tiled loop nest of \<open>WMMA\<close> instructions for it. The lemmas say which kernels match.
\<close>

section \<open>The pattern\<close>

record matmul =
  mmA :: string
  mmB :: string
  mmC :: string
  mmM :: string
  mmN :: string
  mmK :: string

fun match_range1 :: "stmt \<Rightarrow> (string \<times> string) option" where
  "match_range1 (For (Name x) (Call (Name f) [Name bnd] _) _ _) = (if f = ''range'' then Some (x, bnd) else None)"
| "match_range1 _ = None"

fun for_body :: "stmt \<Rightarrow> stmt list" where
  "for_body (For _ _ body _) = body"
| "for_body _ = []"

text \<open>The two factor orders, then the two summand orders.\<close>

fun match_factor :: "expr \<Rightarrow> expr \<Rightarrow> string \<Rightarrow> string option" where
  "match_factor (Name a) (Name b) row = (if a = row then Some b else if b = row then Some a else None)"
| "match_factor _ _ _ = None"

fun match_mul_plus :: "expr \<Rightarrow> expr \<Rightarrow> string \<Rightarrow> string \<Rightarrow> string option" where
  "match_mul_plus (BinOp f1 Mult f2) (Name x) row col = (if x = col then match_factor f1 f2 row else None)"
| "match_mul_plus _ _ _ _ = None"

fun match_affine :: "expr \<Rightarrow> string \<Rightarrow> string \<Rightarrow> string option" where
  "match_affine (BinOp l Add r) row col =
     (case match_mul_plus l r row col of Some s \<Rightarrow> Some s | None \<Rightarrow> match_mul_plus r l row col)"
| "match_affine _ _ _ = None"

fun match_pair :: "expr \<Rightarrow> expr \<Rightarrow> string \<Rightarrow> string \<Rightarrow> string \<Rightarrow> (string \<times> string \<times> string \<times> string) option" where
  "match_pair (Subscript (Name a) ia) (Subscript (Name b) ib) i k j =
     (case (match_affine ia i k, match_affine ib k j) of
        (Some sA, Some sB) \<Rightarrow> if sA \<noteq> [] \<and> sB \<noteq> [] then Some (a, sA, b, sB) else None
      | _ \<Rightarrow> None)"
| "match_pair _ _ _ _ _ = None"

fun match_prod :: "expr \<Rightarrow> string \<Rightarrow> string \<Rightarrow> string \<Rightarrow> (string \<times> string \<times> string \<times> string) option" where
  "match_prod (BinOp l Mult r) i k j =
     (case match_pair l r i k j of Some p \<Rightarrow> Some p | None \<Rightarrow> match_pair r l i k j)"
| "match_prod _ _ _ _ = None"

fun is_docstring :: "stmt \<Rightarrow> bool" where
  "is_docstring (ExprStmt (Constant _)) = True"
| "is_docstring _ = False"

text \<open>The statement \<open>acc = 0\<close>: the name of the accumulator.\<close>

fun match_init :: "stmt \<Rightarrow> string option" where
  "match_init (Assign [Name acc] (Constant c)) = (if const_eq_0 c then Some acc else None)"
| "match_init _ = None"

text \<open>The innermost statement: the product added to the accumulator.\<close>

fun match_accumulate :: "stmt \<Rightarrow> string \<Rightarrow> expr option" where
  "match_accumulate (AugAssign (Name x) Add p) acc = (if x = acc then Some p else None)"
| "match_accumulate (Assign [Name x] (BinOp l Add r)) acc =
     (if x \<noteq> acc then None
      else if l = Name acc then Some r
      else if r = Name acc then Some l
      else None)"
| "match_accumulate _ _ = None"

fun match_store :: "stmt \<Rightarrow> string \<Rightarrow> string \<Rightarrow> string \<Rightarrow> string \<Rightarrow> string option" where
  "match_store (Assign [Subscript (Name c) idx] (Name x)) acc i j N =
     (if x = acc \<and> match_affine idx i j = Some N then Some c else None)"
| "match_store _ _ _ _ _ = None"

definition match_matmul :: "fundef \<Rightarrow> matmul option" where
  "match_matmul fn =
    (case filter (\<lambda>s. \<not> is_docstring s) (fbody fn) of
       [li] \<Rightarrow>
         Option.bind (match_range1 li) (\<lambda>(i, M).
         case for_body li of
           [lj] \<Rightarrow>
             Option.bind (match_range1 lj) (\<lambda>(j, N).
             case for_body lj of
               [ini, lk, store] \<Rightarrow>
                 Option.bind (match_init ini) (\<lambda>acc.
                 Option.bind (match_range1 lk) (\<lambda>(k, K).
                 case for_body lk of
                   [inner] \<Rightarrow>
                     Option.bind (match_accumulate inner acc) (\<lambda>p.
                     Option.bind (match_prod p i k j) (\<lambda>(A, sA, B, sB).
                     if sA \<noteq> K \<or> sB \<noteq> N then None
                     else
                       Option.bind (match_store store acc i j N) (\<lambda>C.
                       Some \<lparr>mmA = A, mmB = B, mmC = C, mmM = M, mmN = N, mmK = K\<rparr>)))
                 | _ \<Rightarrow> None))
             | _ \<Rightarrow> None)
         | _ \<Rightarrow> None)
     | _ \<Rightarrow> None)"

section \<open>Code generation\<close>

definition pop_reg :: "int list \<Rightarrow> py_error + (int \<times> int list)" where
  "pop_reg free = (case free of [] \<Rightarrow> Inl IndexError | r # rs \<Rightarrow> Inr (r, rs))"

fun tensor_params ::
    "nat \<Rightarrow> string list \<Rightarrow> int list \<Rightarrow> (string \<times> int) list \<Rightarrow> assembler \<Rightarrow>
     py_error + (int list \<times> (string \<times> int) list \<times> assembler)" where
  "tensor_params idx [] free reg a = Inr (free, reg, a)"
| "tensor_params idx (x # xs) free reg a =
     ebind (pop_reg free) (\<lambda>(r, free).
     ebind (asm_i I_LOAD r R_PARAM (4 * int idx) 0 a) (\<lambda>a.
     tensor_params (Suc idx) xs free ((x, r) # reg) a))"

fun pop_regs :: "nat \<Rightarrow> int list \<Rightarrow> py_error + (int list \<times> int list)" where
  "pop_regs 0 free = Inr ([], free)"
| "pop_regs (Suc n) free =
     ebind (pop_reg free) (\<lambda>(r, free). ebind (pop_regs n free) (\<lambda>(rs, free). Inr (r # rs, free)))"

text \<open>The opening and the closing of one of the three tile loops.\<close>

definition tile_open :: "int \<Rightarrow> int \<Rightarrow> assembler \<Rightarrow> py_error + ((nat \<times> nat) \<times> assembler)" where
  "tile_open v bnd a =
     ebind (asm_li v 0 a) (\<lambda>a.
     let (top_l, a) = asm_here a; (end_l, a) = asm_new_label a; a = asm_setp CMP_GE 1 v bnd a
     in ebind (asm_branch end_l 1 a) (\<lambda>a. Inr ((top_l, end_l), a)))"

definition tile_close :: "int \<Rightarrow> nat \<Rightarrow> nat \<Rightarrow> assembler \<Rightarrow> py_error + assembler" where
  "tile_close v top_l end_l a =
     ebind (asm_i I_ADD v v WMMA_TILE 0 a) (\<lambda>a.
     ebind (asm_branch top_l 0 a) (\<lambda>a. Inr (asm_bind end_l a)))"

definition tensor_nest ::
    "int \<Rightarrow> int \<Rightarrow> int \<Rightarrow> int \<Rightarrow> int \<Rightarrow> int \<Rightarrow> int list \<Rightarrow> int \<Rightarrow> assembler \<Rightarrow> py_error + assembler" where
  "tensor_nest rA rB rC rM rN rK ts flags a =
    (let i0 = ts ! 0; j0 = ts ! 1; k0 = ts ! 2; t0 = ts ! 3; t1 = ts ! 4; ap = ts ! 5; bp = ts ! 6; cp = ts ! 7 in
     ebind (tile_open i0 rM a) (\<lambda>((Li_top, Li_end), a).
     ebind (tile_open j0 rN a) (\<lambda>((Lj_top, Lj_end), a).
     let a = asm_r I_MUL t0 i0 rN 0 0 a; a = asm_r I_ADD t0 t0 j0 0 0 a in
     ebind (asm_i I_SHL t0 t0 2 0 a) (\<lambda>a.
     let a = asm_r I_ADD cp rC t0 0 0 a in
     ebind (tile_open k0 rK a) (\<lambda>((Lk_top, Lk_end), a).
     let a = asm_r I_MUL t0 i0 rK 0 0 a; a = asm_r I_ADD t0 t0 k0 0 0 a; a = asm_r I_ADD ap rA t0 0 0 a;
         a = asm_r I_MUL t1 k0 rN 0 0 a; a = asm_r I_ADD t1 t1 j0 0 0 a; a = asm_r I_ADD bp rB t1 0 0 a;
         a = asm_r I_WMMA cp ap bp flags 0 a in
     ebind (tile_close k0 Lk_top Lk_end a) (\<lambda>a.
     ebind (tile_close j0 Lj_top Lj_end a) (\<lambda>a.
     tile_close i0 Li_top Li_end a)))))))"

definition compile_tensor :: "fundef \<Rightarrow> string \<Rightarrow> py_error + int list" where
  "compile_tensor fn dtype =
    (case match_matmul fn of
       None \<Rightarrow> Inl (CompileError (''tensor backend: kernel does not match the canonical matmul '' @
         ''triple loop (C[i*N+j] = sum_k A[i*K+k] * B[k*N+j])''))
     | Some mm \<Rightarrow>
         (case find (\<lambda>x. x \<notin> set (fargs fn)) [mmA mm, mmB mm, mmC mm, mmM mm, mmN mm, mmK mm] of
            Some x \<Rightarrow> Inl (CompileError (''matmul symbol '' @ quoted x @ '' is not a kernel parameter''))
          | None \<Rightarrow>
              let flags = (if dtype = ''fp8'' then WMMA_FLAG_FP8 else 0) in
              ebind (tensor_params 0 (fargs fn) R_POOL [] asm_init) (\<lambda>(free, reg, a).
              let r = (\<lambda>x. the (map_of reg x)) in
              ebind (asm_mov R_LDA (r (mmK mm)) a) (\<lambda>a.
              ebind (asm_mov R_LDB (r (mmN mm)) a) (\<lambda>a.
              ebind (asm_mov R_LDC (r (mmN mm)) a) (\<lambda>a.
              ebind (pop_regs 8 free) (\<lambda>(ts, free).
              ebind (tensor_nest (r (mmA mm)) (r (mmB mm)) (r (mmC mm)) (r (mmM mm)) (r (mmN mm)) (r (mmK mm)) ts flags a)
                (\<lambda>a. ebind (asm_exit a) (\<lambda>a. ebind (asm_finalize a) (\<lambda>(ws, a). Inr ws))))))))))"

end
