(* ===== verification/TensorCode.thy ===== *)
theory TensorCode
  imports TensorBackend CodegenCorrect
begin

text \<open>
  What \<open>compile_tensor\<close> emits: the parameter loads, the three stride moves, and 27 words of tile
  loops whose branch targets are absolute.
\<close>

definition tensor_words ::
    "nat \<Rightarrow> int \<Rightarrow> int \<Rightarrow> int \<Rightarrow> int \<Rightarrow> int \<Rightarrow> int \<Rightarrow> int list \<Rightarrow> int \<Rightarrow> int list" where
  "tensor_words p rA rB rC rM rN rK ts flags =
    (let i0 = ts ! 0; j0 = ts ! 1; k0 = ts ! 2; t0 = ts ! 3; t1 = ts ! 4; ap = ts ! 5; bp = ts ! 6; cp = ts ! 7 in
     [iw I_ADD i0 R_ZERO 0, setp_ge_word i0 rM, patch (branch_word 1) (p + 26),
      iw I_ADD j0 R_ZERO 0, setp_ge_word j0 rN, patch (branch_word 1) (p + 24),
      rw I_MUL t0 i0 rN, rw I_ADD t0 t0 j0, iw I_SHL t0 t0 2, rw I_ADD cp rC t0,
      iw I_ADD k0 R_ZERO 0, setp_ge_word k0 rK, patch (branch_word 1) (p + 22),
      rw I_MUL t0 i0 rK, rw I_ADD t0 t0 k0, rw I_ADD ap rA t0,
      rw I_MUL t1 k0 rN, rw I_ADD t1 t1 j0, rw I_ADD bp rB t1,
      enc_r (OPS I_WMMA) cp ap bp flags 0,
      iw I_ADD k0 k0 16, patch (branch_word 0) (p + 11),
      iw I_ADD j0 j0 16, patch (branch_word 0) (p + 4),
      iw I_ADD i0 i0 16, patch (branch_word 0) (p + 1), 0xC8007FF9])"

lemma li_words_0: "li_words v 0 = [iw I_ADD v R_ZERO 0]"
  by (simp add: li_words_def)

lemma asm_branch_eq:
  "asm_branch l prd a = Inr (asm_append [branch_word prd] (a\<lparr>fixups := fixups a @ [(length (words a), l)]\<rparr>))"
  by (simp add: asm_branch_def)

lemma asm_setp_ge_eq: "asm_setp CMP_GE 1 a b s = asm_append [setp_ge_word a b] s"
  by (simp add: asm_setp_def asm_r_eq setp_ge_word_def)

lemma tile_open_eq:
  "tile_open v bnd a = Inr ((length (labels a), length (labels a) + 1),
     a\<lparr>words := words a @ [iw I_ADD v R_ZERO 0, setp_ge_word v bnd, branch_word 1],
       fixups := fixups a @ [(length (words a) + 2, length (labels a) + 1)],
       labels := labels a @ [Some (length (words a) + 1), None]\<rparr>)"
  by (simp add: tile_open_def asm_li_eq li_words_0 asm_here_def asm_new_label_def asm_setp_ge_eq asm_branch_eq
      Let_def asm_append_def)

lemma tile_close_eq:
  "tile_close v t e a = Inr (
     a\<lparr>words := words a @ [iw I_ADD v v 16, branch_word 0],
       fixups := fixups a @ [(length (words a) + 1, t)],
       labels := (labels a)[e := Some (length (words a) + 2)]\<rparr>)"
  by (simp add: tile_close_def asm_i_eq asm_branch_eq asm_bind_def asm_append_def WMMA_TILE_def)

lemma asm_r_append: "asm_r k rd rs1 rs2 rs3 prd a = asm_append [enc_r (OPS k) rd rs1 rs2 rs3 prd] a"
  by (simp add: asm_r_def)

lemma tensor_nest_finalize:
  assumes "fixups a = []" "labels a = []" "length (words a) + 26 \<le> 0xFFF"
  shows "ebind (tensor_nest rA rB rC rM rN rK ts flags a) (\<lambda>a. ebind (asm_exit a) (\<lambda>a.
      ebind (asm_finalize a) (\<lambda>(ws, a). Inr ws)))
    = Inr (words a @ tensor_words (length (words a)) rA rB rC rM rN rK ts flags)"
proof -
  define p where "p = length (words a)"
  have p: "p + 26 \<le> 0xFFF" using assms(3) by (simp add: p_def)
  show ?thesis
    using p unfolding tensor_nest_def tensor_words_def Let_def tile_open_eq tile_close_eq
    by (simp add: assms(1,2) asm_r_append asm_i_eq asm_exit_Inr asm_finalize_def asm_append_def label_pc_def
        list_update_append nth_append rw_def [symmetric] p_def [symmetric] del: OPS.simps)
      (simp add: eval_nat_numeral)
qed


lemma pop_regs_Inr: "pop_regs n free = Inr (ts, free') \<Longrightarrow> free = ts @ free' \<and> length ts = n"
  by (induction n arbitrary: free ts) (auto simp: pop_reg_def split: list.splits)

fun load_words :: "nat \<Rightarrow> int list \<Rightarrow> int list" where
  "load_words idx [] = []"
| "load_words idx (r # rs) = iw I_LOAD r R_PARAM (4 * int idx) # load_words (Suc idx) rs"

lemma length_load_words [simp]: "length (load_words idx rs) = length rs"
  by (induction rs arbitrary: idx) simp_all

lemma tensor_params_Inr:
  "tensor_params idx xs free reg a = Inr (free', reg', a') \<Longrightarrow>
   \<exists>rs. free = rs @ free' \<and> length rs = length xs \<and> reg' = rev (zip xs rs) @ reg \<and>
     a' = asm_append (load_words idx rs) a"
proof (induction idx xs free reg a rule: tensor_params.induct)
  case (2 idx x xs free reg a)
  then obtain r rs' a1 where r: "free = r # rs'" "asm_i I_LOAD r R_PARAM (4 * int idx) 0 a = Inr a1"
    "tensor_params (Suc idx) xs rs' ((x, r) # reg) a1 = Inr (free', reg', a')"
    by (auto simp: pop_reg_def split: list.splits)
  have imm: "4 * int idx \<le> 0xFFF" using r(2) by (auto simp: asm_i_def enc_i_def split: if_splits)
  then have a1: "a1 = asm_append [iw I_LOAD r R_PARAM (4 * int idx)] a" using r(2) by (simp add: asm_i_eq)
  obtain rs where rs: "rs' = rs @ free'" "length rs = length xs" "reg' = rev (zip xs rs) @ (x, r) # reg"
    "a' = asm_append (load_words (Suc idx) rs) a1"
    using "2.IH" [of "(r, rs')" r rs' a1] r by (auto simp: pop_reg_def)
  show ?case
    by (rule exI [of _ "r # rs"]) (simp add: r(1) rs a1)
qed simp

lemma compile_tensor_words:
  assumes "compile_tensor fn dtype = Inr ws" "match_matmul fn = Some mm" "distinct (fargs fn)"
  obtains rs ts free where "R_POOL = rs @ ts @ free" "length rs = length (fargs fn)" "length ts = 8"
    "ws = load_words 0 rs @
       (let r = \<lambda>x. the (map_of (zip (fargs fn) rs) x) in
        [iw I_ADD R_LDA (r (mmK mm)) 0, iw I_ADD R_LDB (r (mmN mm)) 0, iw I_ADD R_LDC (r (mmN mm)) 0] @
        tensor_words (length rs + 3) (r (mmA mm)) (r (mmB mm)) (r (mmC mm)) (r (mmM mm)) (r (mmN mm)) (r (mmK mm))
          ts (if dtype = ''fp8'' then WMMA_FLAG_FP8 else 0))"
    "\<And>x. x \<in> set [mmA mm, mmB mm, mmC mm, mmM mm, mmN mm, mmK mm] \<Longrightarrow> x \<in> set (fargs fn)"
proof -
  define flags where "flags = (if dtype = ''fp8'' then WMMA_FLAG_FP8 else 0)"
  have fd: "find (\<lambda>x. x \<notin> set (fargs fn)) [mmA mm, mmB mm, mmC mm, mmM mm, mmN mm, mmK mm] = None"
    using assms(1,2) by (auto simp: compile_tensor_def simp del: find.simps split: option.splits)
  obtain free reg a where p: "tensor_params 0 (fargs fn) R_POOL [] asm_init = Inr (free, reg, a)"
    using assms(1,2) fd by (auto simp: compile_tensor_def Let_def simp del: find.simps)
  from tensor_params_Inr [OF p] obtain rs where rs: "R_POOL = rs @ free" "length rs = length (fargs fn)"
    "reg = rev (zip (fargs fn) rs)" "a = asm_append (load_words 0 rs) asm_init" by auto
  have n: "length rs \<le> 56"
  proof -
    have "length R_POOL = 56" by (simp add: R_POOL_def)
    then show ?thesis unfolding rs(1) by simp
  qed
  have reg: "map_of reg x = map_of (zip (fargs fn) rs) x" for x
    using map_of_inject_set [of reg "zip (fargs fn) rs"] assms(3) rs(2,3) by (simp flip: rev_map)
  define r where "r x = the (map_of (zip (fargs fn) rs) x)" for x
  have mem: "x \<in> set (fargs fn)" if "x \<in> set [mmA mm, mmB mm, mmC mm, mmM mm, mmN mm, mmK mm]" for x
    using fd [unfolded find_None_iff] that by blast
  have inr: "r x \<in> set rs" if "x \<in> set (fargs fn)" for x
  proof -
    have "map_of (zip (fargs fn) rs) x \<noteq> None" using that rs(2) by (simp add: map_of_zip_is_None)
    then obtain y where y: "map_of (zip (fargs fn) rs) x = Some y" by blast
    then have "(x, y) \<in> set (zip (fargs fn) rs)" by (rule map_of_SomeD)
    then show ?thesis using y set_zip_rightD by (simp add: r_def)
  qed
  have pool: "r x \<noteq> R_LDA" "r x \<noteq> R_LDB" "r x \<noteq> R_LDC" if "x \<in> set (fargs fn)" for x
  proof -
    have "r x \<in> set R_POOL" unfolding rs(1) using inr [OF that] by simp
    then show "r x \<noteq> R_LDA" "r x \<noteq> R_LDB" "r x \<noteq> R_LDC" by (auto simp: R_POOL_iff isa_consts)
  qed
  define a2 where "a2 = asm_append [iw I_ADD R_LDA (r (mmK mm)) 0, iw I_ADD R_LDB (r (mmN mm)) 0, iw I_ADD R_LDC (r (mmN mm)) 0] a"
  have mov: "ebind (asm_mov R_LDA (r (mmK mm)) a) (\<lambda>a. ebind (asm_mov R_LDB (r (mmN mm)) a) (\<lambda>a.
      ebind (asm_mov R_LDC (r (mmN mm)) a) g)) = g a2" for g :: "assembler \<Rightarrow> py_error + int list"
  proof -
    have "mmK mm \<in> set (fargs fn)" "mmN mm \<in> set (fargs fn)" by (simp_all add: mem)
    note pool(1) [OF this(1), symmetric] pool(2,3) [OF this(2), symmetric]
    then show ?thesis by (simp add: asm_mov_eq a2_def)
  qed
  have c: "compile_tensor fn dtype = ebind (pop_regs 8 free) (\<lambda>(ts, free).
      ebind (tensor_nest (r (mmA mm)) (r (mmB mm)) (r (mmC mm)) (r (mmM mm)) (r (mmN mm)) (r (mmK mm)) ts flags a2)
        (\<lambda>a. ebind (asm_exit a) (\<lambda>a. ebind (asm_finalize a) (\<lambda>(ws, a). Inr ws))))"
    unfolding compile_tensor_def assms(2) fd option.case Let_def p ebind_simps prod.case reg
    unfolding r_def [symmetric] flags_def [symmetric] mov ..
  obtain ts free' where ts: "pop_regs 8 free = Inr (ts, free')" using assms(1) unfolding c by auto
  have w: "words a2 = load_words 0 rs @ [iw I_ADD R_LDA (r (mmK mm)) 0, iw I_ADD R_LDB (r (mmN mm)) 0, iw I_ADD R_LDC (r (mmN mm)) 0]"
    "fixups a2 = []" "labels a2 = []"
    by (simp_all add: a2_def rs(4) asm_init_def)
  have "ws = words a2 @ tensor_words (length (words a2)) (r (mmA mm)) (r (mmB mm)) (r (mmC mm)) (r (mmM mm)) (r (mmN mm)) (r (mmK mm)) ts flags"
    using assms(1) unfolding c ts ebind_simps prod.case
    by (subst (asm) tensor_nest_finalize) (use w n in auto)
  then show thesis
    using that [of rs ts free'] rs pop_regs_Inr [OF ts] mem w by (simp add: Let_def r_def flags_def eval_nat_numeral)
qed

end
