(* ===== verification/TensorRun.thy ===== *)
theory TensorRun
  imports TensorCode
begin

text \<open>
  The run of a tensor program in the reference simulator. \<open>tensor_tiles\<close> is the tiled loop nest
  over the memory, one \<open>WMMA\<close> per tile triple; the program executes exactly these tile
  operations and then exits.
\<close>

section \<open>The tiled loop nest\<close>

definition tile_range :: "32 word \<Rightarrow> int list" where
  "tile_range n = map (\<lambda>i. 16 * int i) [0..<nat ((sint n + 15) div 16)]"

definition tile_at :: "32 word \<Rightarrow> 32 word \<Rightarrow> int \<Rightarrow> int \<Rightarrow> 32 word" where
  "tile_at base stride i j = base + (word_of_int i * stride + word_of_int j)"

definition tensor_tiles ::
    "bool \<Rightarrow> 32 word \<Rightarrow> 32 word \<Rightarrow> 32 word \<Rightarrow> 32 word \<Rightarrow> 32 word \<Rightarrow> 32 word \<Rightarrow> int list \<Rightarrow> py_error + int list" where
  "tensor_tiles fp8 A B C M N K =
     efold (\<lambda>i0. efold (\<lambda>j0. efold (\<lambda>k0.
       wmma fp8 (uint (C + push_bit 2 (word_of_int i0 * N + word_of_int j0)))
         (uint (tile_at A K i0 k0)) (uint (tile_at B N k0 j0)) (uint K) (uint N) (uint N))
       (tile_range K)) (tile_range N)) (tile_range M)"

section \<open>Runs under register facts\<close>

definition runs_to :: "int list \<Rightarrow> sim \<Rightarrow> nat \<Rightarrow> (int \<times> 32 word) list \<Rightarrow> int list \<Rightarrow> bool" where
  "runs_to ws \<sigma> pc L m \<longleftrightarrow> (\<exists>\<sigma>'. steps ws \<sigma> \<sigma>' \<and> sim_pc \<sigma>' = pc \<and> sim_ok \<sigma>' \<and> sim_mem \<sigma>' = m \<and>
     (\<forall>(r, w) \<in> set L. is_reg r \<and> has_reg \<sigma>' r w))"

definition stands :: "sim \<Rightarrow> nat \<Rightarrow> (int \<times> 32 word) list \<Rightarrow> int list \<Rightarrow> bool" where
  "stands \<sigma> pc L m \<longleftrightarrow> sim_pc \<sigma> = pc \<and> sim_ok \<sigma> \<and> sim_mem \<sigma> = m \<and> (\<forall>(r, w) \<in> set L. is_reg r \<and> has_reg \<sigma> r w)"

lemma runs_to_stands: "runs_to ws \<sigma> pc L m \<longleftrightarrow> (\<exists>\<sigma>'. steps ws \<sigma> \<sigma>' \<and> stands \<sigma>' pc L m)"
  by (auto simp: runs_to_def stands_def)

lemma runs_to_refl: "stands \<sigma> pc L m \<Longrightarrow> runs_to ws \<sigma> pc L m"
  by (auto simp: runs_to_stands)

lemma runs_to_trans:
  "runs_to ws \<sigma> pc L m \<Longrightarrow> (\<And>\<sigma>'. stands \<sigma>' pc L m \<Longrightarrow> runs_to ws \<sigma>' pc' L' m') \<Longrightarrow> runs_to ws \<sigma> pc' L' m'"
  unfolding runs_to_stands by (meson steps_trans)

lemma runs_to_mono: "runs_to ws \<sigma> pc L m \<Longrightarrow> set L' \<subseteq> set L \<Longrightarrow> runs_to ws \<sigma> pc L' m"
  unfolding runs_to_def by blast

definition put_fact :: "int \<Rightarrow> 32 word \<Rightarrow> (int \<times> 32 word) list \<Rightarrow> (int \<times> 32 word) list" where
  "put_fact r w L = (r, w) # filter (\<lambda>x. fst x \<noteq> r) L"

lemma stands_put:
  assumes "stands \<sigma> pc L m" "sim_step ws \<sigma> = Inr (Continue (put_reg rd v \<sigma>))" "is_reg rd"
  shows "runs_to ws \<sigma> (pc + 1) (put_fact rd v L) m"
proof -
  have "stands (put_reg rd v \<sigma>) (pc + 1) (put_fact rd v L) m"
    using assms(1,3) by (auto simp: stands_def put_fact_def)
  then show ?thesis using steps_one [OF assms(2)] by (auto simp: runs_to_stands)
qed

lemma runs_alu_r:
  assumes "runs_to ws \<sigma> pc L m" "pc < length ws" "ws ! pc = rw k rd rs1 rs2" "alu_op k"
    "(rs1, a) \<in> set L" "(rs2, b) \<in> set L" "is_reg rd"
  shows "runs_to ws \<sigma> (pc + 1) (put_fact rd (word_alu k a b) L) m"
proof (rule runs_to_trans [OF assms(1)])
  fix \<sigma>'
  assume at_: "stands \<sigma>' pc L m"
  show "runs_to ws \<sigma>' (pc + 1) (put_fact rd (word_alu k a b) L) m"
    by (rule stands_put [OF at_ step_alu_r [of \<sigma>' ws k rd rs1 rs2 a b] assms(7)]) (use assms at_ in \<open>auto simp: stands_def\<close>)
qed

lemma runs_alu_i:
  assumes "runs_to ws \<sigma> pc L m" "pc < length ws" "ws ! pc = iw k rd rs1 imm" "alu_op k"
    "(rs1, a) \<in> set L" "0 \<le> imm" "imm \<le> 0xFFF" "is_reg rd"
  shows "runs_to ws \<sigma> (pc + 1) (put_fact rd (word_alu k a (word_of_int imm)) L) m"
proof (rule runs_to_trans [OF assms(1)])
  fix \<sigma>'
  assume at_: "stands \<sigma>' pc L m"
  show "runs_to ws \<sigma>' (pc + 1) (put_fact rd (word_alu k a (word_of_int imm)) L) m"
    by (rule stands_put [OF at_ step_alu_i [of \<sigma>' ws k rd rs1 imm a] assms(8)]) (use assms at_ in \<open>auto simp: stands_def\<close>)
qed

lemma runs_branch:
  assumes "runs_to ws \<sigma> pc L m" "pc < length ws" "ws ! pc = patch (branch_word 0) t" "t \<le> 0xFFF"
  shows "runs_to ws \<sigma> t L m"
proof (rule runs_to_trans [OF assms(1)])
  fix \<sigma>'
  assume at_: "stands \<sigma>' pc L m"
  then have "sim_ok \<sigma>'" "sim_pc \<sigma>' = pc" "sim_p \<sigma>' ! 0 = 1" by (auto simp: stands_def sim_ok_def)
  then have "sim_step ws \<sigma>' = Inr (Continue (\<sigma>'\<lparr>sim_pc := t\<rparr>))"
    using step_branch [of \<sigma>' ws 0 t] assms(2-4) by simp
  moreover have "stands (\<sigma>'\<lparr>sim_pc := t\<rparr>) t L m" using at_ by (simp add: stands_def has_reg_def)
  ultimately show "runs_to ws \<sigma>' t L m" using steps_one by (auto simp: runs_to_stands)
qed

lemma runs_test:
  assumes "runs_to ws \<sigma> pc L m" "pc + 1 < length ws" "ws ! pc = setp_ge_word v b" "ws ! (pc + 1) = patch (branch_word 1) e"
    "e \<le> 0xFFF" "(v, i) \<in> set L" "(b, bnd) \<in> set L"
  shows "runs_to ws \<sigma> (if sint i < sint bnd then pc + 2 else e) L m"
proof (rule runs_to_trans [OF assms(1)])
  fix \<sigma>'
  assume at_: "stands \<sigma>' pc L m"
  have "is_reg v" "is_reg b" "has_reg \<sigma>' v i" "has_reg \<sigma>' b bnd" "sim_ok \<sigma>'" "sim_pc \<sigma>' = pc" "pc < length ws"
    using at_ assms(2,6,7) by (auto simp: stands_def)
  from loop_test [OF this(5-7) assms(3,2,4,5) this(1-4)] obtain \<sigma>2 where
    s: "steps ws \<sigma>' \<sigma>2" "sim_ok \<sigma>2" "sim_pc \<sigma>2 = (if sint i < sint bnd then pc + 2 else e)"
      "sim_mem \<sigma>2 = sim_mem \<sigma>'" "\<And>j. get_reg j \<sigma>2 = get_reg j \<sigma>'" by auto
  then have "stands \<sigma>2 (if sint i < sint bnd then pc + 2 else e) L m" using at_ by (simp add: stands_def has_reg_def)
  then show "runs_to ws \<sigma>' (if sint i < sint bnd then pc + 2 else e) L m" using s(1) by (auto simp: runs_to_stands)
qed

text \<open>The same steps with the new state stated independently.\<close>

lemma step_r:
  assumes "runs_to ws \<sigma> pc L m" "pc < length ws" "ws ! pc = rw k rd ra rb" "alu_op k"
    "(ra, a) \<in> set L" "(rb, b) \<in> set L" "is_reg rd" "pc' = pc + 1"
    "set L' \<subseteq> set (put_fact rd (word_alu k a b) L)"
  shows "runs_to ws \<sigma> pc' L' m"
  using runs_to_mono [OF runs_alu_r [OF assms(1-7)] assms(9)] assms(8) by simp

lemma step_i:
  assumes "runs_to ws \<sigma> pc L m" "pc < length ws" "ws ! pc = iw k rd ra imm" "alu_op k"
    "(ra, a) \<in> set L" "0 \<le> imm" "imm \<le> 0xFFF" "is_reg rd" "pc' = pc + 1"
    "set L' \<subseteq> set (put_fact rd (word_alu k a (word_of_int imm)) L)"
  shows "runs_to ws \<sigma> pc' L' m"
  using runs_to_mono [OF runs_alu_i [OF assms(1-8)] assms(10)] assms(9) by simp

section \<open>The tile instruction\<close>

lemma wmma_bytes:
  assumes "wmma fp8 ca aa ba lda ldb ldc mem = Inr mem'" "byte_mem mem"
  shows "byte_mem mem'"
proof -
  have i: "byte_mem m'" if "wmma_int8_cell ca aa ba lda ldb ldc rr cc m = Inr m'" "byte_mem m" for rr cc m m'
    using that wr32_bytes by (auto simp: wmma_int8_cell_def Let_def)
  have f: "byte_mem m'" if "wmma_fp8_cell ca aa ba lda ldb ldc rr cc m = Inr m'" "byte_mem m" for rr cc m m'
    using that wr32_bytes by (auto simp: wmma_fp8_cell_def Let_def)
  have row: "byte_mem m'"
    if "efold (\<lambda>cc. if fp8 then wmma_fp8_cell ca aa ba lda ldb ldc rr cc
       else wmma_int8_cell ca aa ba lda ldb ldc rr cc) [0..15] m = Inr m'" "byte_mem m" for rr m m'
    by (rule efold_invariant [where I = byte_mem, OF that]) (use i f in \<open>auto split: if_splits\<close>)
  show ?thesis
    using assms(1) unfolding wmma_def by (rule efold_invariant [where I = byte_mem]) (use row assms(2) in auto)
qed

lemma runs_wmma:
  assumes "runs_to ws \<sigma> pc L m" "pc < length ws" "ws ! pc = enc_r (OPS I_WMMA) cp ap bp flags 0"
    "flags = 0 \<or> flags = 1" "(cp, c) \<in> set L" "(ap, a) \<in> set L" "(bp, b) \<in> set L"
    "(R_LDA, lda) \<in> set L" "(R_LDB, ldb) \<in> set L" "(R_LDC, ldc) \<in> set L"
    "wmma (flags = 1) (uint c) (uint a) (uint b) (uint lda) (uint ldb) (uint ldc) m = Inr m'"
  shows "runs_to ws \<sigma> (pc + 1) L m'"
proof (rule runs_to_trans [OF assms(1)])
  fix \<sigma>'
  assume st: "stands \<sigma>' pc L m"
  have reg: "has_reg \<sigma>' r w \<and> is_reg r" if "(r, w) \<in> set L" for r w using st that by (auto simp: stands_def)
  define s1 where "s1 = \<sigma>'\<lparr>sim_pc := pc + 1, sim_mem := m'\<rparr>"
  note r = reg [OF assms(5)] reg [OF assms(6)] reg [OF assms(7)]
  note f = enc_r_fields [of "OPS I_WMMA" cp ap bp flags 0, OF OPS_bounds [THEN conjunct1] OPS_bounds [THEN conjunct2]]
  have fl: "take_bit 6 flags = flags" "flags AND WMMA_FLAG_FP8 \<noteq> 0 \<longleftrightarrow> flags = 1"
    using assms(4) by (auto simp: WMMA_FLAG_FP8_def)
  have "sim_step ws \<sigma>' = sim_exec I_WMMA (ws ! pc) (\<sigma>'\<lparr>sim_pc := pc + 1\<rparr>)"
    using sim_step_exec [of \<sigma>' ws "ws ! pc" I_WMMA] st assms(2,3) f(1,6) by (simp add: stands_def del: OPS.simps)
  also have "\<dots> = Inr (Continue s1)"
    using reg [OF assms(8)] reg [OF assms(9)] reg [OF assms(10)] r assms(11) st
    unfolding assms(3) sim_exec_def Let_def f
    by (simp add: take_bit_reg fl has_reg_def s1_def stands_def del: OPS.simps)
  finally have step: "sim_step ws \<sigma>' = Inr (Continue s1)" .
  have "stands s1 (pc + 1) L m'"
    using st wmma_bytes [OF assms(11)] by (auto simp: stands_def s1_def sim_ok_def has_reg_def)
  then show "runs_to ws \<sigma>' (pc + 1) L m'" using steps_one [OF step] by (auto simp: runs_to_stands)
qed

section \<open>Loops over tiles\<close>

lemma sint_word_of_int32: "- (2 ^ 31) \<le> x \<Longrightarrow> x < 2 ^ 31 \<Longrightarrow> sint (word_of_int x :: 32 word) = x"
  by (simp only: signed_of_int) (simp add: signed_take_bit_int_eq_self)

lemma tile_word_bounds:
  assumes "sint (n :: 32 word) \<le> 2 ^ 31 - 16" "t \<le> nat ((sint n + 15) div 16)"
  shows "sint (word_of_int (16 * int t) :: 32 word) = 16 * int t"
    "16 * int t < sint n \<longleftrightarrow> t < nat ((sint n + 15) div 16)"
proof -
  have t: "16 * int t \<le> max 0 (sint n + 15)"
    using assms(2) by (cases "0 \<le> sint n + 15") (auto simp: le_nat_iff div_neg_pos_less0)
  then have "16 * int t < 2 ^ 31" using assms(1) by auto
  then show "sint (word_of_int (16 * int t) :: 32 word) = 16 * int t"
    by (intro sint_word_of_int32) auto
  show "16 * int t < sint n \<longleftrightarrow> t < nat ((sint n + 15) div 16)"
    by linarith
qed

text \<open>
  A loop from \<open>p\<close> (test) to \<open>q\<close> (increment) over the tiles of the bound \<open>n\<close>: the facts \<open>L\<close> do not
  mention its variable.
\<close>

lemma tile_loop:
  assumes w: "q + 1 < length ws" "p + 1 < length ws" "ws ! p = setp_ge_word v b" "ws ! (p + 1) = patch (branch_word 1) (q + 2)"
      "ws ! q = iw I_ADD v v 16" "ws ! (q + 1) = patch (branch_word 0) p" "q + 2 \<le> 0xFFF" "p \<le> 0xFFF"
    and b: "(b, n) \<in> set L" "v \<notin> fst ` set L" "is_reg v" and n: "sint n \<le> 2 ^ 31 - 16"
    and body: "\<And>\<sigma> i m m'. runs_to ws \<sigma> (p + 2) ((v, word_of_int i) # L) m \<Longrightarrow> f i m = Inr m' \<Longrightarrow>
      runs_to ws \<sigma> q ((v, word_of_int i) # L) m'"
    and start: "runs_to ws \<sigma> p ((v, word_of_int (16 * int t)) # L) m"
    and f: "efold f (map (\<lambda>i. 16 * int i) [t..<nat ((sint n + 15) div 16)]) m = Inr m'"
    and t: "t \<le> nat ((sint n + 15) div 16)"
  shows "runs_to ws \<sigma> (q + 2) L m'"
  using start f t
proof (induction "nat ((sint n + 15) div 16) - t" arbitrary: t m)
  case 0
  then have "runs_to ws \<sigma> (if sint (word_of_int (16 * int t) :: 32 word) < sint n then p + 2 else q + 2)
      ((v, word_of_int (16 * int t)) # L) m"
    by (intro runs_test [where v = v and b = b]) (use w b in auto)
  moreover have "\<not> sint (word_of_int (16 * int t) :: 32 word) < sint n"
    using tile_word_bounds [OF n "0.prems"(3)] "0.hyps" by simp
  moreover have "m' = m" using "0.prems"(2) "0.hyps" by simp
  ultimately show ?case by (auto elim: runs_to_mono)
next
  case (Suc d)
  have lt: "t < nat ((sint n + 15) div 16)" using Suc.hyps(2) by simp
  have "runs_to ws \<sigma> (if sint (word_of_int (16 * int t) :: 32 word) < sint n then p + 2 else q + 2)
      ((v, word_of_int (16 * int t)) # L) m"
    by (intro runs_test [where v = v and b = b]) (use w b Suc.prems in auto)
  moreover have "sint (word_of_int (16 * int t) :: 32 word) < sint n"
    using tile_word_bounds [OF n Suc.prems(3)] lt by simp
  ultimately have r1: "runs_to ws \<sigma> (p + 2) ((v, word_of_int (16 * int t)) # L) m" by simp
  obtain m1 where m1: "f (16 * int t) m = Inr m1"
    "efold f (map (\<lambda>i. 16 * int i) [Suc t..<nat ((sint n + 15) div 16)]) m1 = Inr m'"
    using Suc.prems(2) lt by (auto simp: upt_rec [of t])
  have "runs_to ws \<sigma> (q + 1) (put_fact v (word_alu I_ADD (word_of_int (16 * int t)) (word_of_int 16))
      ((v, word_of_int (16 * int t)) # L)) m1"
    by (rule runs_alu_i [OF body [OF r1 m1(1)]]) (use w b in \<open>auto simp: alu_op_def\<close>)
  then have "runs_to ws \<sigma> p (put_fact v (word_alu I_ADD (word_of_int (16 * int t)) (word_of_int 16))
      ((v, word_of_int (16 * int t)) # L)) m1"
    by (rule runs_branch) (use w in auto)
  moreover have "word_alu I_ADD (word_of_int (16 * int t)) (word_of_int 16) = (word_of_int (16 * int (Suc t)) :: 32 word)"
    by simp
  moreover have "filter (\<lambda>x. fst x \<noteq> v) L = L" using b(2) by (force intro: filter_True)
  ultimately have "runs_to ws \<sigma> p ((v, word_of_int (16 * int (Suc t))) # L) m1"
    by (simp only: put_fact_def filter.simps fst_conv not_True_eq_False if_False simp_thms)
  then show ?case using Suc.hyps m1(2) lt by (intro Suc.hyps(1)) auto
qed

text \<open>The whole loop, from the clearing of its variable to its end.\<close>

lemma tile_loop_full:
  assumes w: "ws ! p0 = iw I_ADD v R_ZERO 0" "ws ! p = setp_ge_word v b" "ws ! p1 = patch (branch_word 1) e"
      "ws ! q = iw I_ADD v v 16" "ws ! q1 = patch (branch_word 0) p"
    and pc: "p = p0 + 1" "p1 = p0 + 2" "p2 = p0 + 3" "q1 = q + 1" "e = q + 2" "p2 \<le> q" "e \<le> 0xFFF" "q1 < length ws"
    and b: "(R_ZERO, 0) \<in> set L" "(b, n) \<in> set L" "v \<notin> fst ` set L" "is_reg v" and n: "sint n \<le> 2 ^ 31 - 16"
    and body: "\<And>\<sigma> i m m'. runs_to ws \<sigma> p2 ((v, word_of_int i) # L) m \<Longrightarrow> f i m = Inr m' \<Longrightarrow>
      runs_to ws \<sigma> q ((v, word_of_int i) # L) m'"
    and start: "runs_to ws \<sigma> p0 L m" and f: "efold f (tile_range n) m = Inr m'"
  shows "runs_to ws \<sigma> e L m'"
proof -
  have "filter (\<lambda>x. fst x \<noteq> v) L = L" using b(3) by (force intro: filter_True)
  moreover have "runs_to ws \<sigma> (p0 + 1) (put_fact v (word_alu I_ADD 0 (word_of_int 0)) L) m"
    by (rule runs_alu_i [OF start]) (use w pc b in \<open>auto simp: alu_op_def\<close>)
  ultimately have "runs_to ws \<sigma> p ((v, word_of_int (16 * int 0)) # L) m"
    by (simp add: put_fact_def pc(1))
  then have "runs_to ws \<sigma> (q + 2) L m'"
    using f [unfolded tile_range_def] pc w b n
    by (intro tile_loop [where t = 0 and p = p and f = f and v = v and b = b and n = n])
      (auto simp: numeral_3_eq_3 intro: body)
  then show ?thesis by (simp add: pc(5))
qed

section \<open>The nest\<close>

definition tensor_facts :: "int \<Rightarrow> int \<Rightarrow> int \<Rightarrow> int \<Rightarrow> int \<Rightarrow> int \<Rightarrow> 32 word \<Rightarrow> 32 word \<Rightarrow> 32 word \<Rightarrow> 32 word \<Rightarrow>
    32 word \<Rightarrow> 32 word \<Rightarrow> (int \<times> 32 word) list" where
  "tensor_facts rA rB rC rM rN rK A B C M N K =
    [(R_ZERO, 0), (rA, A), (rB, B), (rC, C), (rM, M), (rN, N), (rK, K), (R_LDA, K), (R_LDB, N), (R_LDC, N)]"

lemma tensor_nest_run:
  assumes sg: "seg ws p (tensor_words p rA rB rC rM rN rK [i0, j0, k0, t0, t1, ap, bp, cp] flags)"
    and p: "p + 26 \<le> 0xFFF" and fl: "flags = 0 \<or> flags = 1"
    and d: "distinct [i0, j0, k0, t0, t1, ap, bp, cp]" "\<forall>r \<in> {i0, j0, k0, t0, t1, ap, bp, cp}. is_reg r"
      "{i0, j0, k0, t0, t1, ap, bp, cp} \<inter> fst ` set L = {}"
    and L: "L = tensor_facts rA rB rC rM rN rK A B C M N K"
    and n: "sint M \<le> 2 ^ 31 - 16" "sint N \<le> 2 ^ 31 - 16" "sint K \<le> 2 ^ 31 - 16"
    and start: "runs_to ws \<sigma> p L mem" and f: "tensor_tiles (flags = 1) A B C M N K mem = Inr mem'"
  shows "runs_to ws \<sigma> (p + 26) L mem'"
proof -
  define tw where "tw = tensor_words p rA rB rC rM rN rK [i0, j0, k0, t0, t1, ap, bp, cp] flags"
  have lt: "length tw = 27" by (simp add: tw_def tensor_words_def Let_def)
  have W: "ws ! (p + k) = tw ! k" "p + k < length ws" if "k < 27" for k
    using sg that lt by (auto simp: seg_def tw_def)
  have W0: "ws ! p = tw ! 0" using W(1) [of 0] by simp
  note tws = tw_def tensor_words_def Let_def
  have LL: "(R_ZERO, 0) \<in> set L" "(rA, A) \<in> set L" "(rB, B) \<in> set L" "(rC, C) \<in> set L" "(rM, M) \<in> set L"
    "(rN, N) \<in> set L" "(rK, K) \<in> set L" "(R_LDA, K) \<in> set L" "(R_LDB, N) \<in> set L" "(R_LDC, N) \<in> set L"
    by (simp_all add: L tensor_facts_def)
  have nin: "x \<in> {i0, j0, k0, t0, t1, ap, bp, cp} \<Longrightarrow> x \<notin> fst ` set L" for x
    using d(3) unfolding disjoint_iff by blast
  have filt: "filter (\<lambda>y. fst y \<noteq> x) L = L" if "x \<in> {i0, j0, k0, t0, t1, ap, bp, cp}" for x
    using nin [OF that] by (intro filter_True) (metis image_eqI)
  have alu: "alu_op I_MUL" "alu_op I_ADD" "alu_op I_SHL" by (simp_all add: alu_op_def)
  have ne: "i0 \<noteq> j0" "i0 \<noteq> k0" "i0 \<noteq> t0" "i0 \<noteq> t1" "i0 \<noteq> ap" "i0 \<noteq> bp" "i0 \<noteq> cp" "j0 \<noteq> k0" "j0 \<noteq> t0" "j0 \<noteq> t1"
    "j0 \<noteq> ap" "j0 \<noteq> bp" "j0 \<noteq> cp" "k0 \<noteq> t0" "k0 \<noteq> t1" "k0 \<noteq> ap" "k0 \<noteq> bp" "k0 \<noteq> cp" "t0 \<noteq> t1" "t0 \<noteq> ap"
    "t0 \<noteq> bp" "t0 \<noteq> cp" "t1 \<noteq> ap" "t1 \<noteq> bp" "t1 \<noteq> cp" "ap \<noteq> bp" "ap \<noteq> cp" "bp \<noteq> cp"
    using d(1) by auto
  have is_reg: "is_reg i0" "is_reg j0" "is_reg k0" "is_reg t0" "is_reg t1" "is_reg ap" "is_reg bp" "is_reg cp"
    using d(2) by auto
  note flt = filt [of i0, simplified] filt [of j0, simplified] filt [of k0, simplified] filt [of t0, simplified]
    filt [of t1, simplified] filt [of ap, simplified] filt [of bp, simplified] filt [of cp, simplified]
  note put = put_fact_def ne ne [symmetric] flt
  have body_k: "runs_to ws \<sigma> (p + 20) ((k0, kk) # (cp, c) # (j0, j) # (i0, i) # L) m'"
    if r: "runs_to ws \<sigma> (p + 13) ((k0, kk) # (cp, c) # (j0, j) # (i0, i) # L) m"
      and w: "wmma (flags = 1) (uint c) (uint (A + (i * K + kk))) (uint (B + (kk * N + j))) (uint K) (uint N) (uint N) m = Inr m'"
    for \<sigma> i j kk c m m'
  proof -
    define F where "F = (k0, kk) # (cp, c) # (j0, j) # (i0, i) # L"
    have FF: "(k0, kk) \<in> set F" "(cp, c) \<in> set F" "(j0, j) \<in> set F" "(i0, i) \<in> set F" "\<And>x. x \<in> set L \<Longrightarrow> x \<in> set F"
      by (simp_all add: F_def)
    have putF: "put_fact t0 v F = (t0, v) # F" "put_fact t1 v F = (t1, v) # F" "put_fact ap v F = (ap, v) # F"
      "put_fact bp v F = (bp, v) # F" "put_fact t0 v ((t0, u) # F) = (t0, v) # F" "put_fact t1 v ((t1, u) # F) = (t1, v) # F"
      "put_fact ap v ((t0, u) # F) = (ap, v) # (t0, u) # F"
      "put_fact bp v ((t1, u) # (ap, x) # F) = (bp, v) # (t1, u) # (ap, x) # F" 
      "put_fact t1 v ((ap, u) # F) = (t1, v) # (ap, u) # F" 
      "put_fact t1 v ((t1, u) # G) = put_fact t1 v G" for u v x G
      by (simp_all add: F_def put)
    note side = W tws FF LL is_reg alu
    have r14: "runs_to ws \<sigma> (p + 14) ((t0, i * K) # F) m"
      by (rule step_r [OF r [folded F_def], where k = I_MUL and ra = i0 and a = i and rb = rK and b = K])
        (auto simp: side putF)
    have r15: "runs_to ws \<sigma> (p + 15) ((t0, i * K + kk) # F) m"
      by (rule step_r [OF r14, where k = I_ADD and ra = t0 and a = "i * K" and rb = k0 and b = kk])
        (auto simp: side putF)
    have r16: "runs_to ws \<sigma> (p + 16) ((ap, A + (i * K + kk)) # F) m"
      by (rule step_r [OF r15, where k = I_ADD and ra = rA and a = A and rb = t0 and b = "i * K + kk"])
        (auto simp: side putF)
    have r17: "runs_to ws \<sigma> (p + 17) ((t1, kk * N) # (ap, A + (i * K + kk)) # F) m"
      by (rule step_r [OF r16, where k = I_MUL and ra = k0 and a = kk and rb = rN and b = N])
        (auto simp: side putF)
    have r18: "runs_to ws \<sigma> (p + 18) ((t1, kk * N + j) # (ap, A + (i * K + kk)) # F) m"
      by (rule step_r [OF r17, where k = I_ADD and ra = t1 and a = "kk * N" and rb = j0 and b = j])
        (auto simp: side putF)
    have r19: "runs_to ws \<sigma> (p + 19) ((bp, B + (kk * N + j)) # (ap, A + (i * K + kk)) # F) m"
      by (rule step_r [OF r18, where k = I_ADD and ra = rB and a = B and rb = t1 and b = "kk * N + j"])
        (auto simp: side putF)
    have "runs_to ws \<sigma> (p + 19 + 1) ((bp, B + (kk * N + j)) # (ap, A + (i * K + kk)) # F) m'"
      by (rule runs_wmma [OF r19, where cp = cp and ap = ap and bp = bp and flags = flags and lda = K and ldb = N and ldc = N
            and c = c and a = "A + (i * K + kk)" and b = "B + (kk * N + j)"])
        (use w fl in \<open>auto simp: side simp del: OPS.simps\<close>)
    then have "runs_to ws \<sigma> (p + 20) ((bp, B + (kk * N + j)) # (ap, A + (i * K + kk)) # F) m'"
      by (simp add: add.commute)
    then show ?thesis unfolding F_def by (rule runs_to_mono) auto
  qed
  have body_j: "runs_to ws \<sigma> (p + 22) ((j0, j) # (i0, i) # L) m'"
    if r: "runs_to ws \<sigma> (p + 6) ((j0, j) # (i0, i) # L) m"
      and w: "efold (\<lambda>kk. wmma (flags = 1) (uint (C + push_bit 2 (i * N + j))) (uint (A + (i * K + word_of_int kk)))
          (uint (B + (word_of_int kk * N + j))) (uint K) (uint N) (uint N)) (tile_range K) m = Inr m'"
    for \<sigma> i j m m'
  proof -
    define F where "F = (j0, j) # (i0, i) # L"
    define c where "c = C + push_bit 2 (i * N + j)"
    have FF: "(j0, j) \<in> set F" "(i0, i) \<in> set F" "\<And>x. x \<in> set L \<Longrightarrow> x \<in> set F"
      by (simp_all add: F_def)
    have putF: "put_fact t0 v F = (t0, v) # F" "put_fact cp v F = (cp, v) # F"
      "put_fact t0 v ((t0, u) # F) = (t0, v) # F" "put_fact cp v ((t0, u) # F) = (cp, v) # (t0, u) # F" for u v
      by (simp_all add: F_def put)
    note side = W tws FF LL is_reg alu
    have "runs_to ws \<sigma> (p + 7) ((t0, i * N) # F) m"
      by (rule step_r [OF r [folded F_def], where k = I_MUL and ra = i0 and a = i and rb = rN and b = N])
        (auto simp: side putF)
    then have "runs_to ws \<sigma> (p + 8) ((t0, i * N + j) # F) m"
      by (rule step_r [where k = I_ADD and ra = t0 and a = "i * N" and rb = j0 and b = j]) (auto simp: side putF)
    then have "runs_to ws \<sigma> (p + 9) ((t0, push_bit 2 (i * N + j)) # F) m"
      by (rule step_i [where k = I_SHL and ra = t0 and a = "i * N + j" and imm = 2])
        (auto simp: side putF word_sh_def)
    then have r10: "runs_to ws \<sigma> (p + 10) ((cp, c) # F) m"
      by (rule step_r [where k = I_ADD and ra = rC and a = C and rb = t0 and b = "push_bit 2 (i * N + j)"])
        (auto simp: side putF c_def)
    have "k0 \<notin> fst ` set ((cp, c) # F)" using nin [of k0] ne ne [symmetric] by (simp add: F_def)
    then have "runs_to ws \<sigma> (p + 22) ((cp, c) # F) m'"
      by (intro tile_loop_full [OF _ _ _ _ _ _ _ _ _ _ _ _ _ _ _ _ _ n(3) _ r10 w [folded c_def],
            where v = k0 and b = rK and p = "p + 11" and ?p1.0 = "p + 12" and ?p2.0 = "p + 13" and q = "p + 20"
              and ?q1.0 = "p + 21"])
        (use p body_k in \<open>auto simp: side F_def\<close>)
    then show ?thesis unfolding F_def by (rule runs_to_mono) auto
  qed
  have body_i: "runs_to ws \<sigma> (p + 24) ((i0, i) # L) m'"
    if r: "runs_to ws \<sigma> (p + 3) ((i0, i) # L) m"
      and w: "efold (\<lambda>j. efold (\<lambda>kk. wmma (flags = 1) (uint (C + push_bit 2 (i * N + word_of_int j)))
          (uint (A + (i * K + word_of_int kk))) (uint (B + (word_of_int kk * N + word_of_int j))) (uint K) (uint N) (uint N))
          (tile_range K)) (tile_range N) m = Inr m'"
    for \<sigma> i m m'
  proof -
    have "j0 \<notin> fst ` set ((i0, i) # L)" using nin [of j0] ne ne [symmetric] by simp
    then show ?thesis
      by (intro tile_loop_full [OF _ _ _ _ _ _ _ _ _ _ _ _ _ _ _ _ _ n(2) _ r w,
            where v = j0 and b = rN and p = "p + 4" and ?p1.0 = "p + 5" and ?p2.0 = "p + 6" and q = "p + 22"
              and ?q1.0 = "p + 23"])
        (use p body_j in \<open>auto simp: W tws LL is_reg\<close>)
  qed
  show ?thesis
    using nin [of i0] start
    by (intro tile_loop_full [OF _ _ _ _ _ _ _ _ _ _ _ _ _ _ _ _ _ n(1) _ start f [unfolded tensor_tiles_def tile_at_def],
          where v = i0 and b = rM and p = "p + 1" and ?p1.0 = "p + 2" and ?p2.0 = "p + 3" and q = "p + 24"
            and ?q1.0 = "p + 25"])
      (use p body_i in \<open>auto simp: W W(1) [of 0, simplified] W(1) [of 1, simplified] W(1) [of "Suc (Suc 0)", simplified] tws LL is_reg\<close>)
qed


section \<open>The whole program\<close>

lemma seg_mid: "seg (xs @ ys @ zs) (length xs) ys"
  by (simp add: seg_def nth_append)

lemma kparams_other: "kparams m addr idx xs env = Some env' \<Longrightarrow> x \<notin> set xs \<Longrightarrow> env' x = env x"
  by (induction xs arbitrary: idx env) (auto split: sum.splits)

definition param_facts :: "string list \<Rightarrow> int list \<Rightarrow> env \<Rightarrow> (int \<times> 32 word) list" where
  "param_facts xs rs env = map (\<lambda>(x, r). (r, the (env x))) (zip xs rs)"

lemma load_params_run:
  assumes "kparams mem addr idx xs env = Some env'" "length rs = length xs" "distinct xs" "distinct rs"
    "set rs \<subseteq> set R_POOL" "seg ws (sim_pc \<sigma>) (load_words idx rs)" "4 * (idx + length rs) \<le> 0xFFF"
    "stands \<sigma> pc L mem" "get_reg R_PARAM \<sigma> = addr" "set rs \<inter> fst ` set L = {}"
  shows "runs_to ws \<sigma> (pc + length rs) (param_facts xs rs env' @ L) mem"
  using assms
proof (induction xs arbitrary: idx env rs \<sigma> pc L)
  case Nil
  then show ?case by (simp add: param_facts_def runs_to_refl)
next
  case (Cons x xs)
  obtain r rs' where rs: "rs = r # rs'" "length rs' = length xs" using Cons.prems(2) by (cases rs) auto
  obtain w where w: "rd32 mem (addr + 4 * int idx) = Inr w"
    "kparams mem addr (Suc idx) xs (env(x \<mapsto> word_of_int w)) = Some env'"
    using Cons.prems(1) by (auto split: sum.splits)
  define v where "v = (word_of_int w :: 32 word)"
  have st: "sim_ok \<sigma>" "sim_pc \<sigma> = pc" "sim_mem \<sigma> = mem" using Cons.prems(8) by (auto simp: stands_def)
  have "byte_mem mem" using st by (auto simp: sim_ok_def)
  then have uv: "rd32 (sim_mem \<sigma>) (get_reg R_PARAM \<sigma> + 4 * int idx) = Inr (uint v)"
    using rd32_word [OF w(1)] w(1) Cons.prems(9) st(3) by (auto simp: v_def)
  have r: "is_reg r" "r \<noteq> R_PARAM" "r \<notin> set rs'" "r \<notin> fst ` set L"
    using Cons.prems(4,5,10) rs(1) is_reg_pool [of r] by (auto simp: R_PARAM_def)
  have sg: "pc < length ws" "ws ! pc = iw I_LOAD r R_PARAM (4 * int idx)" "seg ws (pc + 1) (load_words (Suc idx) rs')"
    using Cons.prems(6) rs(1) st(2) by auto
  define \<sigma>1 where "\<sigma>1 = put_reg r v \<sigma>"
  have step: "sim_step ws \<sigma> = Inr (Continue \<sigma>1)"
    unfolding \<sigma>1_def by (rule step_load_param [OF st(1) _ _ r(1) _ _ uv]) (use sg st Cons.prems(7) rs in auto)
  have x: "env' x = Some v" using kparams_other [OF w(2)] Cons.prems(3) by (auto simp: v_def)
  have st1: "stands \<sigma>1 (pc + 1) ((r, v) # L) mem"
    using Cons.prems(8) r(1,4) by (force simp: \<sigma>1_def stands_def)
  have "runs_to ws \<sigma>1 (pc + 1 + length rs') (param_facts xs rs' env' @ (r, v) # L) mem"
  proof (rule Cons.IH [OF w(2) rs(2)])
    show "seg ws (sim_pc \<sigma>1) (load_words (Suc idx) rs')" using sg(3) st(2) by (simp add: \<sigma>1_def)
    show "get_reg R_PARAM \<sigma>1 = addr" using Cons.prems(9) st(1) r(1,2) by (simp add: \<sigma>1_def get_reg_put)
    show "set rs' \<inter> fst ` set ((r, v) # L) = {}" using r(3) Cons.prems(10) rs(1) by auto
  qed (use Cons.prems rs st1 in auto)
  then have "runs_to ws \<sigma> (pc + length rs) (param_facts xs rs' env' @ (r, v) # L) mem"
    using steps_step [OF step] rs(1) unfolding runs_to_def by auto
  then show ?case by (rule runs_to_mono) (auto simp: param_facts_def rs(1) x)
qed

lemma runs_exit:
  assumes "runs_to ws \<sigma> pc L m" "pc < length ws" "ws ! pc = 0xC8007FF9"
  shows "halts ws \<sigma> m"
proof -
  obtain \<sigma>' where s: "steps ws \<sigma> \<sigma>'" "stands \<sigma>' pc L m" using assms(1) by (auto simp: runs_to_stands)
  then have "sim_step ws \<sigma>' = Inr (Exited (\<sigma>'\<lparr>sim_pc := sim_pc \<sigma>' + 1\<rparr>))"
    using assms(2,3) by (intro step_exit) (auto simp: stands_def)
  then show ?thesis using s by (auto simp: halts_def stands_def)
qed

lemma compile_tensor_halts:
  assumes c: "compile_tensor fn dtype = Inr ws" and mm: "match_matmul fn = Some mm" and d: "distinct (fargs fn)"
    and mem: "byte_mem mem" and k: "kparams mem addr 0 (fargs fn) (\<lambda>_. None) = Some env"
    and v: "env (mmA mm) = Some A" "env (mmB mm) = Some B" "env (mmC mm) = Some C"
      "env (mmM mm) = Some M" "env (mmN mm) = Some N" "env (mmK mm) = Some K"
    and n: "sint M \<le> 2 ^ 31 - 16" "sint N \<le> 2 ^ 31 - 16" "sint K \<le> 2 ^ 31 - 16"
    and f: "tensor_tiles (dtype = ''fp8'') A B C M N K mem = Inr mem'"
  shows "halts ws (sim_init mem addr) mem'"
proof -
  from compile_tensor_words [OF c mm d] obtain rs ts free where
    pool: "R_POOL = rs @ ts @ free" and len: "length rs = length (fargs fn)" "length ts = 8" and
    ws0: "ws = load_words 0 rs @
       (let r = \<lambda>x. the (map_of (zip (fargs fn) rs) x) in
        [iw I_ADD R_LDA (r (mmK mm)) 0, iw I_ADD R_LDB (r (mmN mm)) 0, iw I_ADD R_LDC (r (mmN mm)) 0] @
        tensor_words (length rs + 3) (r (mmA mm)) (r (mmB mm)) (r (mmC mm)) (r (mmM mm)) (r (mmN mm)) (r (mmK mm))
          ts (if dtype = ''fp8'' then WMMA_FLAG_FP8 else 0))" and
    names: "\<And>x. x \<in> set [mmA mm, mmB mm, mmC mm, mmM mm, mmN mm, mmK mm] \<Longrightarrow> x \<in> set (fargs fn)" by blast
  define flags where "flags = (if dtype = ''fp8'' then 1 else 0 :: int)"
  have flags: "(if dtype = ''fp8'' then WMMA_FLAG_FP8 else 0) = flags" "flags = 0 \<or> flags = 1" "(flags = 1) = (dtype = ''fp8'')"
    by (simp_all add: flags_def WMMA_FLAG_FP8_def)
  define r where "r x = the (map_of (zip (fargs fn) rs) x)" for x
  define p where "p = length rs + 3"
  define nest where "nest = tensor_words p (r (mmA mm)) (r (mmB mm)) (r (mmC mm)) (r (mmM mm)) (r (mmN mm)) (r (mmK mm)) ts flags"
  have ws: "ws = load_words 0 rs @ [iw I_ADD R_LDA (r (mmK mm)) 0, iw I_ADD R_LDB (r (mmN mm)) 0, iw I_ADD R_LDC (r (mmN mm)) 0] @ nest"
    using ws0 unfolding Let_def r_def [symmetric] flags(1) p_def nest_def by simp
  have ndp: "distinct rs" "distinct ts" "set rs \<inter> set ts = {}" "set ts \<subseteq> set R_POOL" "set rs \<subseteq> set R_POOL"
    using distinct_R_POOL unfolding pool by auto
  have n56: "length rs \<le> 48"
  proof -
    have "length R_POOL = 56" by (simp add: R_POOL_def)
    then show ?thesis unfolding pool using len(2) by simp
  qed
  have rset: "(x, r x) \<in> set (zip (fargs fn) rs)" if "x \<in> set (fargs fn)" for x
  proof -
    have "map_of (zip (fargs fn) rs) x \<noteq> None" using that len(1) by (simp add: map_of_zip_is_None)
    then show ?thesis by (auto simp: r_def intro: map_of_SomeD)
  qed
  have r_in: "r x \<in> set rs" if "x \<in> set (fargs fn)" for x using rset [OF that] by (auto dest: set_zip_rightD)
  define L where "L = param_facts (fargs fn) rs env @ [(R_ZERO, 0)]"
  have fact: "(r x, w) \<in> set L" if "x \<in> set (fargs fn)" "env x = Some w" for x w
    using rset [OF that(1)] that(2) by (force simp: L_def param_facts_def)
  have init: "stands (sim_init mem addr) 0 [(R_ZERO, 0)] mem" "get_reg R_PARAM (sim_init mem addr) = addr" "sim_pc (sim_init mem addr) = 0"
    using mem by (simp_all add: stands_def sim_init_def sim_ok_def has_reg_def get_reg_def isa_consts is_reg_def)
  define mv where "mv = [iw I_ADD R_LDA (r (mmK mm)) 0, iw I_ADD R_LDB (r (mmN mm)) 0, iw I_ADD R_LDC (r (mmN mm)) 0]"
  have sg: "seg ws 0 (load_words 0 rs)" "seg ws (length rs) mv" "seg ws p nest"
  proof -
    have "ws = [] @ load_words 0 rs @ mv @ nest" "ws = load_words 0 rs @ mv @ nest" "ws = (load_words 0 rs @ mv) @ nest @ []"
      "length mv = 3" unfolding ws mv_def by simp_all
    then show "seg ws 0 (load_words 0 rs)" "seg ws (length rs) mv" "seg ws p nest"
      using seg_mid [of "[]" "load_words 0 rs" "mv @ nest"] seg_mid [of "load_words 0 rs" mv nest]
        seg_mid [of "load_words 0 rs @ mv" nest "[]"] by (simp_all add: p_def)
  qed
  have "runs_to ws (sim_init mem addr) (0 + length rs) L mem"
    unfolding L_def
    by (rule load_params_run [OF k len(1) d ndp(1,5) _ _ init(1,2)])
      (use sg n56 init(3) r_in ndp(5) in \<open>auto simp: R_POOL_iff R_ZERO_def\<close>)
  then have r0: "runs_to ws (sim_init mem addr) (length rs) L mem" by simp
  have keep: "(x, b) \<notin> set L" if "x \<in> {R_LDA, R_LDB, R_LDC}" for x b
    using that ndp(5) by (auto simp: L_def param_facts_def R_POOL_iff isa_consts dest!: set_zip_rightD)
  note in_fargs = names [of "mmA mm", simplified] names [of "mmB mm", simplified] names [of "mmC mm", simplified]
    names [of "mmM mm", simplified] names [of "mmN mm", simplified] names [of "mmK mm", simplified]
  note facts = fact [OF in_fargs(1) v(1)] fact [OF in_fargs(2) v(2)] fact [OF in_fargs(3) v(3)]
    fact [OF in_fargs(4) v(4)] fact [OF in_fargs(5) v(5)] fact [OF in_fargs(6) v(6)]
  have cst: "is_reg R_LDA" "is_reg R_LDB" "is_reg R_LDC" "R_LDA \<noteq> R_LDB" "R_LDA \<noteq> R_LDC" "R_LDB \<noteq> R_LDC"
    by (simp_all add: isa_consts is_reg_def)
  note side = keep put_fact_def alu_op_def cst facts mv_def
  have "runs_to ws (sim_init mem addr) (length rs + 1) ((R_LDA, K) # L) mem"
    by (rule step_i [OF r0, where k = I_ADD and ra = "r (mmK mm)" and a = K and imm = 0]) (use sg(2) in \<open>auto simp: side\<close>)
  then have "runs_to ws (sim_init mem addr) (length rs + 2) ((R_LDB, N) # (R_LDA, K) # L) mem"
    by (rule step_i [where k = I_ADD and ra = "r (mmN mm)" and a = N and imm = 0]) (use sg(2) in \<open>auto simp: side\<close>)
  then have r3: "runs_to ws (sim_init mem addr) p ((R_LDC, N) # (R_LDB, N) # (R_LDA, K) # L) mem"
    by (rule step_i [where k = I_ADD and ra = "r (mmN mm)" and a = N and imm = 0]) (use sg(2) in \<open>auto simp: side p_def\<close>)
  define T where "T = tensor_facts (r (mmA mm)) (r (mmB mm)) (r (mmC mm)) (r (mmM mm)) (r (mmN mm)) (r (mmK mm)) A B C M N K"
  have rT: "runs_to ws (sim_init mem addr) p T mem"
    by (rule runs_to_mono [OF r3]) (use facts in \<open>auto simp: T_def tensor_facts_def L_def\<close>)
  obtain i0 j0 k0 t0 t1 ap bp cp where ts: "ts = [i0, j0, k0, t0, t1, ap, bp, cp]"
    using len(2) by (auto simp: length_Suc_conv eval_nat_numeral)
  have disj: "set ts \<inter> fst ` set T = {}"
    using ndp(3,4) in_fargs r_in by (fastforce simp: T_def tensor_facts_def R_POOL_iff isa_consts)
  have rn: "runs_to ws (sim_init mem addr) (p + 26) T mem'"
  proof (rule tensor_nest_run [OF _ _ flags(2) _ _ _ T_def n rT])
    show "seg ws p (tensor_words p (r (mmA mm)) (r (mmB mm)) (r (mmC mm)) (r (mmM mm)) (r (mmN mm)) (r (mmK mm))
        [i0, j0, k0, t0, t1, ap, bp, cp] flags)"
      using sg(3) by (simp add: nest_def ts)
    show "\<forall>r \<in> {i0, j0, k0, t0, t1, ap, bp, cp}. is_reg r" using ndp(4) is_reg_pool by (auto simp: ts)
    show "{i0, j0, k0, t0, t1, ap, bp, cp} \<inter> fst ` set T = {}" using disj by (simp add: ts)
    show "tensor_tiles (flags = 1) A B C M N K mem = Inr mem'" using f flags(3) by simp
  qed (use ndp(2) n56 in \<open>auto simp: ts p_def\<close>)
  have "length nest = 27" "nest ! 26 = 0xC8007FF9" by (simp_all add: nest_def tensor_words_def Let_def)
  then have "p + 26 < length ws" "ws ! (p + 26) = 0xC8007FF9"
    using sg(3) by (auto simp: seg_def)
  then show ?thesis by (rule runs_exit [OF rn])
qed

end
