(* ===== verification/TensorSpec.thy ===== *)
theory TensorSpec
  imports TensorRun
begin

text \<open>
  What the tiled loop nest computes. The locale \<open>word_memory\<close> is the contract of a memory of
  32-bit cells, with the effect of a sequence of read-modify-write operations; \<open>rd32\<close> and \<open>wr32\<close>
  of the simulator satisfy it. For \<open>INT8\<close> operands the nest adds to every cell of \<open>C\<close>
  the dot product of a row of \<open>A\<close> and a column of \<open>B\<close>, modulo \<open>2 ^ 32\<close>.
\<close>

section \<open>Word memories\<close>

locale word_memory =
  fixes rd :: "'m \<Rightarrow> int \<Rightarrow> 'e + int" and wr :: "'m \<Rightarrow> int \<Rightarrow> int \<Rightarrow> 'e + 'm" and ok :: "'m \<Rightarrow> int \<Rightarrow> bool"
  assumes rd_total: "ok m a \<Longrightarrow> \<exists>w. rd m a = Inr w"
    and wr_total: "ok m a \<Longrightarrow> \<exists>m'. wr m a v = Inr m'"
    and rd_wr_same: "ok m a \<Longrightarrow> wr m a v = Inr m' \<Longrightarrow> rd m' a = Inr (v mod 2 ^ 32)"
    and rd_wr_other: "ok m a \<Longrightarrow> ok m b \<Longrightarrow> wr m a v = Inr m' \<Longrightarrow> 4 \<le> \<bar>a - b\<bar> \<Longrightarrow> rd m' b = rd m b"
    and ok_wr: "ok m a \<Longrightarrow> wr m a v = Inr m' \<Longrightarrow> ok m' b = ok m b"
begin

text \<open>The cells \<open>at x\<close> for \<open>x \<in> X\<close> hold \<open>g x\<close>, modulo \<open>2 ^ 32\<close>.\<close>

definition cells :: "'x set \<Rightarrow> ('x \<Rightarrow> int) \<Rightarrow> 'm \<Rightarrow> ('x \<Rightarrow> int) \<Rightarrow> bool" where
  "cells X ad m g \<longleftrightarrow> (\<forall>x \<in> X. ok m (ad x) \<and> (\<exists>w. rd m (ad x) = Inr w \<and> w mod 2 ^ 32 = g x mod 2 ^ 32)) \<and>
     (\<forall>x \<in> X. \<forall>y \<in> X. x \<noteq> y \<longrightarrow> 4 \<le> \<bar>ad x - ad y\<bar>)"

lemma cells_update:
  assumes "cells X ad m g" "x \<in> X" "wr m (ad x) v = Inr m'" "v mod 2 ^ 32 = u mod 2 ^ 32"
  shows "cells X ad m' (g(x := u))"
proof -
  have ok: "ok m (ad y)" if "y \<in> X" for y using assms(1) that by (simp add: cells_def)
  have "\<exists>w. rd m' (ad y) = Inr w \<and> w mod 2 ^ 32 = (g(x := u)) y mod 2 ^ 32" if y: "y \<in> X" for y
  proof (cases "y = x")
    case True
    then show ?thesis using rd_wr_same [OF ok [OF assms(2)] assms(3)] assms(4) by simp
  next
    case False
    then have "rd m' (ad y) = rd m (ad y)"
      using assms(1,2) y by (intro rd_wr_other [OF ok [OF assms(2)] ok [OF y] assms(3)]) (auto simp: cells_def)
    then show ?thesis using assms(1) y False by (simp add: cells_def)
  qed
  moreover have "ok m' (ad y)" if "y \<in> X" for y using ok_wr [OF ok [OF assms(2)] assms(3)] ok that by simp
  ultimately show ?thesis using assms(1) by (simp add: cells_def)
qed

end

text \<open>A loop each of whose iterations adds \<open>d x\<close> to what an invariant tracks.\<close>

lemma efold_accumulate:
  fixes g :: "'x \<Rightarrow> int"
  assumes "\<And>x m g. x \<in> set xs \<Longrightarrow> Inv m g \<Longrightarrow> \<exists>m'. f x m = Inr m' \<and> Inv m' (\<lambda>p. g p + d x p)" "Inv m g"
  shows "\<exists>m'. efold f xs m = Inr m' \<and> Inv m' (\<lambda>p. g p + (\<Sum>x\<leftarrow>xs. d x p))"
  using assms
proof (induction xs arbitrary: m g)
  case (Cons x xs)
  obtain m1 where m1: "f x m = Inr m1" "Inv m1 (\<lambda>p. g p + d x p)"
    using Cons.prems(1) [of x m g] Cons.prems(2) by auto
  have "\<exists>m'. efold f xs m1 = Inr m' \<and> Inv m' (\<lambda>p. (g p + d x p) + (\<Sum>x\<leftarrow>xs. d x p))"
    by (rule Cons.IH [OF _ m1(2)]) (use Cons.prems in auto)
  then show ?case using m1(1) by (auto simp: add.assoc)
qed simp

section \<open>The memory of the simulator\<close>

definition ok32 :: "int list \<Rightarrow> int \<Rightarrow> bool" where
  "ok32 m a \<longleftrightarrow> byte_mem m \<and> 0 \<le> a \<and> a + 4 \<le> int (length m)"

lemma bytes_of_word:
  fixes v :: int
  shows "(v AND 0xFF) OR push_bit 8 (drop_bit 8 v AND 0xFF) OR push_bit 16 (drop_bit 16 v AND 0xFF) OR
    push_bit 24 (drop_bit 24 v AND 0xFF) = take_bit 32 v"
  unfolding mask_simps
proof (rule bit_eqI)
  fix n
  show "bit (take_bit 8 v OR push_bit 8 (take_bit 8 (drop_bit 8 v)) OR push_bit 16 (take_bit 8 (drop_bit 16 v)) OR
      push_bit 24 (take_bit 8 (drop_bit 24 v))) n \<longleftrightarrow> bit (take_bit 32 v) n"
    by (cases "n < 8"; cases "n < 16"; cases "n < 24") (auto simp: bit_simps)
qed

lemma ok32_off: "ok32 m a \<Longrightarrow> buf_off (length m) 4 a = Some (nat a)"
  by (simp add: ok32_def buf_off_def)

lemma wr32_ok32: "ok32 m a \<Longrightarrow> wr32 m a v = Inr (put32 (nat a) (v AND 0xFFFFFFFF) m)"
  by (simp add: wr32_def ok32_off)

lemma rd32_ok32:
  "ok32 m a \<Longrightarrow> rd32 m a = Inr (m ! nat a OR push_bit 8 (m ! (nat a + 1)) OR push_bit 16 (m ! (nat a + 2)) OR
    push_bit 24 (m ! (nat a + 3)))"
  by (simp add: rd32_def ok32_off)

lemma length_put32 [simp]: "length (put32 n v m) = length m"
  by (simp add: put32_def)

lemma put32_other: "i < n \<or> n + 3 < i \<Longrightarrow> put32 n v m ! i = m ! i"
  by (auto simp: put32_def)

interpretation mem32: word_memory rd32 wr32 ok32
proof
  fix m a b v m'
  assume ok: "ok32 m a" 
  show "\<exists>w. rd32 m a = Inr w" using rd32_ok32 [OF ok] by simp
  show "\<exists>m'. wr32 m a v = Inr m'" using wr32_ok32 [OF ok] by simp
  assume wr: "wr32 m a v = Inr m'"
  then have m': "m' = put32 (nat a) (take_bit 32 v) m" using wr32_ok32 [OF ok] by (simp add: mask_simps)
  have okb: "ok32 m' b = ok32 m b" for b using wr32_bytes [OF wr] ok by (auto simp: ok32_def m')
  show "ok32 m' b = ok32 m b" by (rule okb)
  have "nat a + 3 < length m" using ok by (auto simp: ok32_def)
  then show "rd32 m' a = Inr (v mod 2 ^ 32)"
    using rd32_ok32 [of m' a] okb [of a] ok bytes_of_word [of "take_bit 32 v"]
    by (simp add: m' put32_def take_bit_eq_mod)
  assume okb': "ok32 m b" and d: "4 \<le> \<bar>a - b\<bar>"
  then have "nat b + 3 < nat a \<or> nat a + 3 < nat b" using ok by (auto simp: ok32_def)
  then have "m' ! (nat b + i) = m ! (nat b + i)" if "i \<le> 3" for i
    unfolding m' using that by (intro put32_other) linarith
  from this [of 0] this [of 1] this [of 2] this [of 3] show "rd32 m' b = rd32 m b"
    using rd32_ok32 [of m' b] rd32_ok32 [of m b] okb [of b] okb' by simp
qed

section \<open>One cell of a tile\<close>

definition matmul_layout :: "int \<Rightarrow> int \<Rightarrow> int \<Rightarrow> int \<Rightarrow> int \<Rightarrow> int \<Rightarrow> int list \<Rightarrow> bool" where
  "matmul_layout a b c M N K mem \<longleftrightarrow>
     byte_mem mem \<and> int (length mem) \<le> 2 ^ 32 \<and>
     0 \<le> a \<and> 0 \<le> b \<and> 0 \<le> c \<and> 0 \<le> M \<and> 0 \<le> N \<and> 0 \<le> K \<and> 16 dvd M \<and> 16 dvd N \<and> 16 dvd K \<and>
     a + M * K \<le> int (length mem) \<and> b + K * N \<le> int (length mem) \<and> c + 4 * (M * N) \<le> int (length mem) \<and>
     (a + M * K \<le> c \<or> c + 4 * (M * N) \<le> a) \<and> (b + K * N \<le> c \<or> c + 4 * (M * N) \<le> b)"

definition dot_part :: "int list \<Rightarrow> int \<Rightarrow> int \<Rightarrow> int \<Rightarrow> int \<Rightarrow> int \<Rightarrow> int \<Rightarrow> int \<Rightarrow> int" where
  "dot_part mem a b N K i j k = sb (mem ! nat (a + i * K + k)) * sb (mem ! nat (b + k * N + j))"

definition cell_inv :: "int \<Rightarrow> int \<Rightarrow> int \<Rightarrow> int list \<Rightarrow> int list \<Rightarrow> (int \<times> int \<Rightarrow> int) \<Rightarrow> bool" where
  "cell_inv c M N mem m g \<longleftrightarrow> length m = length mem \<and>
     mem32.cells ({0..<M} \<times> {0..<N}) (\<lambda>(i, j). c + 4 * (i * N + j)) m g \<and>
     (\<forall>x. 0 \<le> x \<and> x < int (length mem) \<and> (x < c \<or> c + 4 * (M * N) \<le> x) \<longrightarrow> m ! nat x = mem ! nat x)"

lemma efold_sum: "(\<And>x s. x \<in> set xs \<Longrightarrow> f x s = Inr (s + h x)) \<Longrightarrow> efold f xs s = Inr (s + (\<Sum>x\<leftarrow>xs. h x :: int))"
  by (induction xs arbitrary: s) (auto simp: add.assoc)

lemma s32_mod: "s32 w mod 2 ^ 32 = w mod 2 ^ 32"
  by (simp add: s32_def Let_def mask_simps take_bit_eq_mod mod_diff_left_eq [symmetric] mod_simps)

lemma rd8_in: "0 \<le> x \<Longrightarrow> x < int (length m) \<Longrightarrow> rd8 m x = Inr (m ! nat x)"
  by (simp add: rd8_def)

lemma index_bound: "0 \<le> i \<Longrightarrow> i < (M :: int) \<Longrightarrow> 0 \<le> j \<Longrightarrow> j < N \<Longrightarrow> 0 \<le> i * N + j \<and> i * N + j < M * N"
proof -
  assume a: "0 \<le> i" "i < M" "0 \<le> j" "j < N"
  then have "(i + 1) * N \<le> M * N" by (intro mult_right_mono) auto
  then show ?thesis using a by (simp add: distrib_right)
qed

lemma wmma_int8_cell_acc:
  assumes lay: "matmul_layout a b c M N K mem" and inv: "cell_inv c M N mem m g"
    and ij: "0 \<le> i" "i < M" "0 \<le> j" "j < N" "0 \<le> k0" "k0 + 15 < K"
    and ad: "ca + 4 * (rr * N + cc) = c + 4 * (i * N + j)" "aa + rr * K = a + i * K + k0" "ba + cc = b + k0 * N + j"
  shows "\<exists>m'. wmma_int8_cell ca aa ba K N N rr cc m = Inr m' \<and>
    cell_inv c M N mem m' (g((i, j) := g (i, j) + (\<Sum>kk\<leftarrow>[0..15]. dot_part mem a b N K i j (k0 + kk))))"
proof -
  define ea where "ea = c + 4 * (i * N + j)"
  define S where "S = (\<Sum>kk\<leftarrow>[0..15]. dot_part mem a b N K i j (k0 + kk))"
  note L = lay [unfolded matmul_layout_def]
  have cells: "mem32.cells ({0..<M} \<times> {0..<N}) (\<lambda>(i, j). c + 4 * (i * N + j)) m g" and len: "length m = length mem"
    and same: "\<And>x. 0 \<le> x \<Longrightarrow> x < int (length mem) \<Longrightarrow> x < c \<or> c + 4 * (M * N) \<le> x \<Longrightarrow> m ! nat x = mem ! nat x"
    using inv by (auto simp: cell_inv_def)
  have x: "(i, j) \<in> {0..<M} \<times> {0..<N}" using ij by auto
  obtain w where w: "rd32 m ea = Inr w" "w mod 2 ^ 32 = g (i, j) mod 2 ^ 32" and ok: "ok32 m ea"
    using cells x unfolding mem32.cells_def ea_def by force
  have reads: "rd8 m (aa + rr * K + kk) = Inr (mem ! nat (a + i * K + (k0 + kk)))"
      "rd8 m (ba + kk * N + cc) = Inr (mem ! nat (b + (k0 + kk) * N + j))" if "0 \<le> kk" "kk \<le> 15" for kk
  proof -
    have A: "0 \<le> i * K + (k0 + kk) \<and> i * K + (k0 + kk) < M * K" using ij that by (intro index_bound) auto
    have B: "0 \<le> (k0 + kk) * N + j \<and> (k0 + kk) * N + j < K * N" using ij that by (intro index_bound) auto
    have a1: "aa + rr * K + kk = a + (i * K + (k0 + kk))" and b1: "ba + kk * N + cc = b + ((k0 + kk) * N + j)"
      using ad(2,3) by (simp_all add: algebra_simps)
    show "rd8 m (aa + rr * K + kk) = Inr (mem ! nat (a + i * K + (k0 + kk)))"
      unfolding a1 using A L len by (subst rd8_in) (auto simp: add.assoc intro!: same)
    show "rd8 m (ba + kk * N + cc) = Inr (mem ! nat (b + (k0 + kk) * N + j))"
      unfolding b1 using B L len by (subst rd8_in) (auto simp: add.assoc intro!: same)
  qed
  have "efold (\<lambda>kk acc. ebind (rd8 m (aa + rr * K + kk)) (\<lambda>x. ebind (rd8 m (ba + kk * N + cc)) (\<lambda>y.
      Inr (acc + sb x * sb y)))) [0..15] (s32 w) = Inr (s32 w + S)"
    unfolding S_def by (rule efold_sum) (simp add: reads dot_part_def)
  then have cell: "wmma_int8_cell ca aa ba K N N rr cc m = wr32 m ea (s32 w + S)"
    using w(1) ad(1) by (simp add: wmma_int8_cell_def Let_def ea_def)
  obtain m' where m': "wr32 m ea (s32 w + S) = Inr m'" using mem32.wr_total [OF ok] by blast
  have "(s32 w + S) mod 2 ^ 32 = (g (i, j) + S) mod 2 ^ 32" using w(2) s32_mod [of w] by (metis mod_add_left_eq)
  then have cs: "mem32.cells ({0..<M} \<times> {0..<N}) (\<lambda>(i, j). c + 4 * (i * N + j)) m' (g((i, j) := g (i, j) + S))"
    using mem32.cells_update [OF cells x] m' by (simp add: ea_def)
  have put: "m' = put32 (nat ea) ((s32 w + S) AND 0xFFFFFFFF) m" using m' wr32_ok32 [OF ok] by simp
  have "m' ! nat x = mem ! nat x" if "0 \<le> x" "x < int (length mem)" "x < c \<or> c + 4 * (M * N) \<le> x" for x
  proof -
    have "0 \<le> i * N + j \<and> i * N + j < M * N" using ij by (intro index_bound) auto
    then have e: "c \<le> ea" "ea + 4 \<le> c + 4 * (M * N)" unfolding ea_def by auto
    have "0 \<le> c" using L by simp
    then have "nat x < nat ea \<or> nat ea + 3 < nat x" using e that by auto
    then show ?thesis unfolding put using same [OF that] by (simp only: put32_other)
  qed
  then have "cell_inv c M N mem m' (g((i, j) := g (i, j) + S))" using cs len put by (simp add: cell_inv_def)
  then show ?thesis using cell m' by (auto simp: S_def)
qed


section \<open>A tile, and the nest\<close>

definition tile_part :: "int list \<Rightarrow> int \<Rightarrow> int \<Rightarrow> int \<Rightarrow> int \<Rightarrow> int \<Rightarrow> int \<times> int \<Rightarrow> int" where
  "tile_part mem a b N K k0 p = (\<Sum>kk\<leftarrow>[0..15]. dot_part mem a b N K (fst p) (snd p) (k0 + kk))"

lemma wmma_int8_tile:
  assumes lay: "matmul_layout a b c M N K mem" and inv: "cell_inv c M N mem m g"
    and t: "0 \<le> i0" "i0 + 15 < M" "0 \<le> j0" "j0 + 15 < N" "0 \<le> k0" "k0 + 15 < K"
  shows "\<exists>m'. wmma False (c + 4 * (i0 * N + j0)) (a + i0 * K + k0) (b + k0 * N + j0) K N N m = Inr m' \<and>
    cell_inv c M N mem m' (\<lambda>p. g p + (\<Sum>rr\<leftarrow>[0..15]. \<Sum>cc\<leftarrow>[0..15].
      if p = (i0 + rr, j0 + cc) then tile_part mem a b N K k0 p else 0))"
proof -
  have cell: "\<exists>m'. wmma_int8_cell (c + 4 * (i0 * N + j0)) (a + i0 * K + k0) (b + k0 * N + j0) K N N rr cc m = Inr m' \<and>
      cell_inv c M N mem m' (\<lambda>p. g p + (if p = (i0 + rr, j0 + cc) then tile_part mem a b N K k0 p else 0))"
    if "rr \<in> set [0..15]" "cc \<in> set [0..15]" "cell_inv c M N mem m g" for rr cc m g
  proof -
    have "\<exists>m'. wmma_int8_cell (c + 4 * (i0 * N + j0)) (a + i0 * K + k0) (b + k0 * N + j0) K N N rr cc m = Inr m' \<and>
        cell_inv c M N mem m' (g((i0 + rr, j0 + cc) := g (i0 + rr, j0 + cc) +
          (\<Sum>kk\<leftarrow>[0..15]. dot_part mem a b N K (i0 + rr) (j0 + cc) (k0 + kk))))"
      by (rule wmma_int8_cell_acc [OF lay that(3)]) (use that t in \<open>auto simp: algebra_simps\<close>)
    moreover have "g((i0 + rr, j0 + cc) := g (i0 + rr, j0 + cc) +
          (\<Sum>kk\<leftarrow>[0..15]. dot_part mem a b N K (i0 + rr) (j0 + cc) (k0 + kk))) =
        (\<lambda>p. g p + (if p = (i0 + rr, j0 + cc) then tile_part mem a b N K k0 p else 0))"
      by (auto simp: fun_eq_iff tile_part_def)
    ultimately show ?thesis by simp
  qed
  show ?thesis
    unfolding wmma_def if_False
    by (rule efold_accumulate [where Inv = "cell_inv c M N mem", OF _ inv],
        rule efold_accumulate [where Inv = "cell_inv c M N mem"]) (assumption | rule cell)+
qed

text \<open>Sums over the tiles of a range.\<close>

definition tiles :: "int \<Rightarrow> int list" where
  "tiles n = map (\<lambda>i. 16 * int i) [0..<nat ((n + 15) div 16)]"

lemma tiles_dvd: "0 \<le> n \<Longrightarrow> 16 dvd n \<Longrightarrow> x \<in> set (tiles n) \<Longrightarrow> 0 \<le> x \<and> x + 15 < n"
  by (auto simp: tiles_def)

lemma sum_tiles:
  fixes h :: "int \<Rightarrow> int"
  assumes "0 \<le> n" "16 dvd n"
  shows "(\<Sum>x\<leftarrow>tiles n. \<Sum>y\<leftarrow>[0..15]. h (x + y)) = (\<Sum>z\<in>{0..<n}. h z)"
proof -
  obtain q where q: "n = 16 * int q" using assms by (metis dvdE zero_le_imp_eq_int zero_le_mult_iff zero_less_numeral less_le_not_le)
  have "(\<Sum>x\<leftarrow>map (\<lambda>i. 16 * int i) [0..<q]. \<Sum>y\<leftarrow>[0..15]. h (x + y)) = (\<Sum>z\<in>{0..<16 * int q}. h z)"
  proof (induction q)
    case (Suc q)
    have "(\<Sum>y\<leftarrow>[0..15]. h (16 * int q + y)) = (\<Sum>y\<in>{0..15}. h (16 * int q + y))"
      by (simp only: interv_sum_list_conv_sum_set_int set_upto)
    also have "\<dots> = (\<Sum>z\<in>{16 * int q..<16 * int (Suc q)}. h z)"
      by (rule sum.reindex_bij_witness [of _ "\<lambda>z. z - 16 * int q" "\<lambda>y. 16 * int q + y"]) auto
    finally have "(\<Sum>x\<leftarrow>map (\<lambda>i. 16 * int i) [0..<Suc q]. \<Sum>y\<leftarrow>[0..15]. h (x + y)) =
        (\<Sum>z\<in>{0..<16 * int q}. h z) + (\<Sum>z\<in>{16 * int q..<16 * int (Suc q)}. h z)"
      using Suc.IH by simp
    also have "\<dots> = (\<Sum>z\<in>{0..<16 * int q} \<union> {16 * int q..<16 * int (Suc q)}. h z)"
      by (rule sum.union_disjoint [symmetric]) auto
    also have "{0..<16 * int q} \<union> {16 * int q..<16 * int (Suc q)} = {0..<16 * int (Suc q)}" by auto
    finally show ?case .
  qed simp
  moreover have "nat ((n + 15) div 16) = q" by (simp add: q)
  ultimately show ?thesis by (simp add: tiles_def q)
qed

lemma sum_tile_hits:
  assumes "0 \<le> i" "i < n" "16 dvd n"
  shows "(\<Sum>x\<leftarrow>tiles n. \<Sum>y\<leftarrow>[0..15]. if i = x + y then 1 else (0 :: int)) = 1"
  using sum_tiles [of n "\<lambda>z. if i = z then 1 else 0"] assms by simp

lemma nest_sum:
  assumes ij: "0 \<le> i" "i < M" "0 \<le> j" "j < N" and d: "16 dvd M" "16 dvd N"
  shows "(\<Sum>i0\<leftarrow>tiles M. \<Sum>j0\<leftarrow>tiles N. \<Sum>k0\<leftarrow>ks. \<Sum>rr\<leftarrow>[0..15]. \<Sum>cc\<leftarrow>[0..15].
      if (i, j) = (i0 + rr, j0 + cc) then P k0 else 0) = (\<Sum>k0\<leftarrow>ks. P k0 :: int)"
proof -
  have split: "(if (i, j) = (i0 + rr, j0 + cc) then P k0 else 0) =
      (if i = i0 + rr then 1 else 0) * ((if j = j0 + cc then 1 else 0) * P k0)" for i0 j0 k0 rr cc
    by simp
  show ?thesis
    unfolding split sum_list_const_mult sum_list_mult_const
    using sum_tile_hits [OF ij(1,2) d(1)] sum_tile_hits [OF ij(3,4) d(2)] by simp
qed

text \<open>
  The result of the nest: every cell of \<open>C\<close> holds its old value plus the dot product, modulo
  \<open>2 ^ 32\<close>, and nothing else changes.
\<close>

definition accumulated :: "int \<Rightarrow> int \<Rightarrow> int \<Rightarrow> int \<Rightarrow> int \<Rightarrow> int \<Rightarrow> int list \<Rightarrow> int list \<Rightarrow> bool" where
  "accumulated a b c M N K mem mem' \<longleftrightarrow> length mem' = length mem \<and>
     (\<forall>i \<in> {0..<M}. \<forall>j \<in> {0..<N}. \<exists>w. rd32 mem (c + 4 * (i * N + j)) = Inr w \<and>
        rd32 mem' (c + 4 * (i * N + j)) = Inr ((w + (\<Sum>k\<in>{0..<K}. dot_part mem a b N K i j k)) mod 2 ^ 32)) \<and>
     (\<forall>x. 0 \<le> x \<and> x < int (length mem) \<and> (x < c \<or> c + 4 * (M * N) \<le> x) \<longrightarrow> mem' ! nat x = mem ! nat x)"

lemma layout_ok32:
  assumes "matmul_layout a b c M N K mem" "0 \<le> i" "i < M" "0 \<le> j" "j < N"
  shows "ok32 mem (c + 4 * (i * N + j))"
  using assms index_bound [OF assms(2-5)] by (auto simp: matmul_layout_def ok32_def)

lemma cell_inv_init:
  assumes "0 \<le> N" "\<And>i j. 0 \<le> i \<Longrightarrow> i < M \<Longrightarrow> 0 \<le> j \<Longrightarrow> j < N \<Longrightarrow> ok32 mem (c + 4 * (i * N + j))"
  shows "cell_inv c M N mem mem (\<lambda>(i, j). case rd32 mem (c + 4 * (i * N + j)) of Inr w \<Rightarrow> w | Inl _ \<Rightarrow> 0)"
proof -
  have d: "4 \<le> \<bar>(c + 4 * (i * N + j)) - (c + 4 * (i' * N + j'))\<bar>"
    if "0 \<le> i" "0 \<le> j" "j < N" "0 \<le> i'" "0 \<le> j'" "j' < N" "(i, j) \<noteq> (i', j')" for i j i' j'
  proof -
    have "i * N + j \<noteq> i' * N + j'"
    proof
      assume e: "i * N + j = i' * N + j'"
      have "(i * N + j) div N = i" "(i' * N + j') div N = i'" using that by simp_all
      then show False using e that(7) by simp
    qed
    then show ?thesis by auto
  qed
  have "\<exists>w. rd32 mem x = Inr w \<and> w mod 2 ^ 32 = (case rd32 mem x of Inr w \<Rightarrow> w | Inl _ \<Rightarrow> 0) mod 2 ^ 32" if "ok32 mem x" for x
    using rd32_ok32 [OF that] by simp
  then show ?thesis
    unfolding cell_inv_def mem32.cells_def using assms(2) d by auto
qed

lemma cell_inv_start:
  assumes "matmul_layout a b c M N K mem"
  shows "cell_inv c M N mem mem (\<lambda>(i, j). case rd32 mem (c + 4 * (i * N + j)) of Inr w \<Rightarrow> w | Inl _ \<Rightarrow> 0)"
  by (rule cell_inv_init [OF _ layout_ok32 [OF assms]]) (use assms in \<open>simp_all add: matmul_layout_def\<close>)

lemma word_addr:
  fixes B N :: "32 word"
  assumes "0 \<le> uint B + m * (i * sint N + j)" "uint B + m * (i * sint N + j) < 2 ^ 32"
  shows "uint (B + word_of_int m * (word_of_int i * N + word_of_int j)) = uint B + m * (i * sint N + j)"
proof -
  have "B + word_of_int m * (word_of_int i * N + word_of_int j) = word_of_int (uint B + m * (i * sint N + j))"
    by simp
  then show ?thesis using assms by (simp only: uint_word_of_int) (simp add: take_bit_eq_mod)
qed

lemma uint_of_sint: "0 \<le> sint (w :: 32 word) \<Longrightarrow> uint w = sint w"
  using uint_sint [of w] sint_range32 [of w] by (simp add: take_bit_id)

lemma rd32_range: "rd32 m a = Inr w \<Longrightarrow> byte_mem m \<Longrightarrow> w mod 2 ^ 32 = w"
  using rd32_word [of m a w] uint_lt2p [of "word_of_int w :: 32 word"] uint_ge_0 [of "word_of_int w :: 32 word"]
  by simp

lemma tensor_tiles_int8:
  fixes A B C M N K :: "32 word"
  assumes lay: "matmul_layout (uint A) (uint B) (uint C) (sint M) (sint N) (sint K) mem"
  shows "\<exists>mem'. tensor_tiles False A B C M N K mem = Inr mem' \<and>
    accumulated (uint A) (uint B) (uint C) (sint M) (sint N) (sint K) mem mem'"
proof -
  define a b c m n k where abc: "a = uint A" "b = uint B" "c = uint C" "m = sint M" "n = sint N" "k = sint K"
  note L = lay [folded abc]
  have nn: "0 \<le> m" "0 \<le> n" "0 \<le> k" "16 dvd m" "16 dvd n" "16 dvd k" "int (length mem) \<le> 2 ^ 32" "byte_mem mem"
    "0 \<le> a" "0 \<le> b" "0 \<le> c"
    "a + m * k \<le> int (length mem)" "b + k * n \<le> int (length mem)" "c + 4 * (m * n) \<le> int (length mem)"
    using L by (simp_all add: matmul_layout_def)
  have un: "uint N = n" "uint K = k"
    using nn abc by (simp_all add: uint_of_sint)
  define g0 where "g0 = (\<lambda>(i, j). case rd32 mem (c + 4 * (i * n + j)) of Inr w \<Rightarrow> w | Inl _ \<Rightarrow> 0)"
  define D where "D i0 j0 k0 p = (\<Sum>rr\<leftarrow>[0..15]. \<Sum>cc\<leftarrow>[0..15].
      if p = (i0 + rr, j0 + cc) then tile_part mem a b n k k0 p else 0)" for i0 j0 k0 p
  have tr: "tile_range M = tiles m" "tile_range N = tiles n" "tile_range K = tiles k"
    by (simp_all add: tile_range_def tiles_def abc)
  have step: "\<exists>mem2. wmma False (uint (C + push_bit 2 (word_of_int i0 * N + word_of_int j0)))
         (uint (tile_at A K i0 k0)) (uint (tile_at B N k0 j0)) (uint K) (uint N) (uint N) mem1 = Inr mem2 \<and>
       cell_inv c m n mem mem2 (\<lambda>p. g p + D i0 j0 k0 p)"
    if i: "i0 \<in> set (tiles m)" "j0 \<in> set (tiles n)" "k0 \<in> set (tiles k)" and inv: "cell_inv c m n mem mem1 g"
    for i0 j0 k0 mem1 g
  proof -
    have t: "0 \<le> i0" "i0 + 15 < m" "0 \<le> j0" "j0 + 15 < n" "0 \<le> k0" "k0 + 15 < k"
      using tiles_dvd [OF nn(1,4) i(1)] tiles_dvd [OF nn(2,5) i(2)] tiles_dvd [OF nn(3,6) i(3)] by auto
    have "0 \<le> i0 * n + j0 \<and> i0 * n + j0 < m * n" "0 \<le> i0 * k + k0 \<and> i0 * k + k0 < m * k"
      "0 \<le> k0 * n + j0 \<and> k0 * n + j0 < k * n"
      using t by (intro index_bound; simp)+
    then have "uint (C + word_of_int 4 * (word_of_int i0 * N + word_of_int j0)) = c + 4 * (i0 * n + j0)"
      "uint (A + word_of_int 1 * (word_of_int i0 * K + word_of_int k0)) = a + 1 * (i0 * k + k0)"
      "uint (B + word_of_int 1 * (word_of_int k0 * N + word_of_int j0)) = b + 1 * (k0 * n + j0)"
      using nn by (simp_all only: abc) (intro word_addr; simp)+
    then have "uint (C + push_bit 2 (word_of_int i0 * N + word_of_int j0)) = c + 4 * (i0 * n + j0)"
      "uint (tile_at A K i0 k0) = a + i0 * k + k0" "uint (tile_at B N k0 j0) = b + k0 * n + j0"
      by (simp_all add: tile_at_def push_bit_eq_mult mult.commute)
    then show ?thesis
      using wmma_int8_tile [OF L inv t] un by (simp add: D_def)
  qed
  have nest: "\<exists>mem'. tensor_tiles False A B C M N K mem = Inr mem' \<and>
      cell_inv c m n mem mem' (\<lambda>p. g0 p + (\<Sum>i0\<leftarrow>tiles m. \<Sum>j0\<leftarrow>tiles n. \<Sum>k0\<leftarrow>tiles k. D i0 j0 k0 p))"
    unfolding tensor_tiles_def tr
    by (rule efold_accumulate [where Inv = "cell_inv c m n mem", OF _ cell_inv_start [OF L, folded g0_def]],
        rule efold_accumulate [where Inv = "cell_inv c m n mem"],
        rule efold_accumulate [where Inv = "cell_inv c m n mem"]) (assumption | rule step)+
  then obtain mem' where m': "tensor_tiles False A B C M N K mem = Inr mem'"
    "cell_inv c m n mem mem' (\<lambda>p. g0 p + (\<Sum>i0\<leftarrow>tiles m. \<Sum>j0\<leftarrow>tiles n. \<Sum>k0\<leftarrow>tiles k. D i0 j0 k0 p))"
    by blast
  have cell: "\<exists>w. rd32 mem (c + 4 * (i * n + j)) = Inr w \<and>
      rd32 mem' (c + 4 * (i * n + j)) = Inr ((w + (\<Sum>x\<in>{0..<k}. dot_part mem a b n k i j x)) mod 2 ^ 32)"
    if ij: "i \<in> {0..<m}" "j \<in> {0..<n}" for i j
  proof -
    have r: "0 \<le> i" "i < m" "0 \<le> j" "j < n" using ij by auto
    have "(\<Sum>i0\<leftarrow>tiles m. \<Sum>j0\<leftarrow>tiles n. \<Sum>k0\<leftarrow>tiles k. D i0 j0 k0 (i, j)) = (\<Sum>k0\<leftarrow>tiles k. tile_part mem a b n k k0 (i, j))"
      unfolding D_def by (rule nest_sum [OF r nn(4,5)])
    also have "\<dots> = (\<Sum>x\<in>{0..<k}. dot_part mem a b n k i j x)"
      unfolding tile_part_def fst_conv snd_conv by (rule sum_tiles [OF nn(3,6)])
    finally have S: "(\<Sum>i0\<leftarrow>tiles m. \<Sum>j0\<leftarrow>tiles n. \<Sum>k0\<leftarrow>tiles k. D i0 j0 k0 (i, j)) =
      (\<Sum>x\<in>{0..<k}. dot_part mem a b n k i j x)" .
    obtain w where w: "rd32 mem (c + 4 * (i * n + j)) = Inr w" using rd32_ok32 [OF layout_ok32 [OF L r]] by simp
    obtain w' where w': "rd32 mem' (c + 4 * (i * n + j)) = Inr w'" "ok32 mem' (c + 4 * (i * n + j))"
      "w' mod 2 ^ 32 = (g0 (i, j) + (\<Sum>x\<in>{0..<k}. dot_part mem a b n k i j x)) mod 2 ^ 32"
      using m'(2) r S unfolding cell_inv_def mem32.cells_def by force
    have "w' mod 2 ^ 32 = w'" using rd32_range [OF w'(1)] w'(2) by (simp add: ok32_def)
    then show ?thesis using w w' by (simp add: g0_def)
  qed
  have "accumulated a b c m n k mem mem'"
    unfolding accumulated_def using m'(2) cell by (auto simp: cell_inv_def)
  then show ?thesis using m'(1) unfolding abc by blast
qed

end
