(* ===== verification/TensorProps.thy ===== *)
theory TensorProps
  imports TensorSpec CompilerErrors
begin

text \<open>
  The promises of the tensor backend: which kernels \<open>match_matmul\<close> accepts, when
  \<open>compile_tensor\<close> raises, that a tensor program performs the tiled loop nest, and that the
  \<open>INT8\<close> nest accumulates a matrix product.
\<close>

section \<open>The accepted kernels\<close>

definition affine_forms :: "string \<Rightarrow> string \<Rightarrow> string \<Rightarrow> expr list" where
  "affine_forms row s col =
    [BinOp (BinOp (Name row) Mult (Name s)) Add (Name col), BinOp (BinOp (Name s) Mult (Name row)) Add (Name col),
     BinOp (Name col) Add (BinOp (Name row) Mult (Name s)), BinOp (Name col) Add (BinOp (Name s) Mult (Name row))]"

lemma match_factor_iff: "match_factor f1 f2 row = Some s \<longleftrightarrow> f1 = Name row \<and> f2 = Name s \<or> f1 = Name s \<and> f2 = Name row"
  by (cases "(f1, f2, row)" rule: match_factor.cases) auto

lemma match_mul_plus_iff:
  "match_mul_plus m x row col = Some s \<longleftrightarrow> x = Name col \<and>
     (m = BinOp (Name row) Mult (Name s) \<or> m = BinOp (Name s) Mult (Name row))"
  by (cases "(m, x, row, col)" rule: match_mul_plus.cases) (auto simp: match_factor_iff)

lemma match_affine_iff: "match_affine e row col = Some s \<longleftrightarrow> e \<in> set (affine_forms row s col)"
proof (cases "\<exists>l r. e = BinOp l Add r")
  case True
  then obtain l r where e: "e = BinOp l Add r" by blast
  show ?thesis
  proof (cases "match_mul_plus l r row col")
    case None
    have n: "\<not> (r = Name col \<and> (l = BinOp (Name row) Mult (Name s) \<or> l = BinOp (Name s) Mult (Name row)))"
      using None match_mul_plus_iff [of l r row col s] by (simp del: match_mul_plus.simps)
    have "match_affine e row col = match_mul_plus r l row col"
      unfolding e by (simp add: None del: match_mul_plus.simps)
    then show ?thesis using n unfolding e by (auto simp: match_mul_plus_iff affine_forms_def simp del: match_mul_plus.simps)
  next
    case (Some t)
    then have "r = Name col" "l = BinOp (Name row) Mult (Name t) \<or> l = BinOp (Name t) Mult (Name row)"
      by (simp_all add: match_mul_plus_iff)
    then show ?thesis using Some unfolding e by (auto simp: affine_forms_def)
  qed
next
  case False
  then have "match_affine e row col = None" by (cases "(e, row, col)" rule: match_affine.cases) auto
  then show ?thesis using False by (auto simp: affine_forms_def)
qed

text \<open>The triple loop, up to the order of factors and summands and the form of the accumulation.\<close>

definition product_forms :: "string \<Rightarrow> string \<Rightarrow> string \<Rightarrow> matmul \<Rightarrow> expr \<Rightarrow> bool" where
  "product_forms i j k mm p \<longleftrightarrow> (\<exists>ia \<in> set (affine_forms i (mmK mm) k). \<exists>ib \<in> set (affine_forms k (mmN mm) j).
     p = BinOp (Subscript (Name (mmA mm)) ia) Mult (Subscript (Name (mmB mm)) ib) \<or>
     p = BinOp (Subscript (Name (mmB mm)) ib) Mult (Subscript (Name (mmA mm)) ia))"

definition matmul_loop :: "string \<Rightarrow> string \<Rightarrow> string \<Rightarrow> string \<Rightarrow> matmul \<Rightarrow> stmt \<Rightarrow> bool" where
  "matmul_loop i j k acc mm s \<longleftrightarrow> mmK mm \<noteq> [] \<and> mmN mm \<noteq> [] \<and>
     (\<exists>c p inner idx kw1 kw2 kw3 o1 o2 o3.
        s = For (Name i) (Call (Name ''range'') [Name (mmM mm)] kw1)
              [For (Name j) (Call (Name ''range'') [Name (mmN mm)] kw2)
                [Assign [Name acc] (Constant c),
                 For (Name k) (Call (Name ''range'') [Name (mmK mm)] kw3) [inner] o3,
                 Assign [Subscript (Name (mmC mm)) idx] (Name acc)] o2] o1 \<and>
        const_eq_0 c \<and> product_forms i j k mm p \<and> idx \<in> set (affine_forms i (mmN mm) j) \<and>
        inner \<in> {AugAssign (Name acc) Add p, Assign [Name acc] (BinOp (Name acc) Add p),
                 Assign [Name acc] (BinOp p Add (Name acc))})"

lemma match_range1_iff:
  "match_range1 s = Some (x, b) \<longleftrightarrow> (\<exists>kw body els. s = For (Name x) (Call (Name ''range'') [Name b] kw) body els)"
  by (cases s rule: match_range1.cases) auto

lemma match_pair_iff:
  "match_pair l r i k j = Some (a, sA, b, sB) \<longleftrightarrow> sA \<noteq> [] \<and> sB \<noteq> [] \<and>
     (\<exists>ia \<in> set (affine_forms i sA k). \<exists>ib \<in> set (affine_forms k sB j).
       l = Subscript (Name a) ia \<and> r = Subscript (Name b) ib)"
  by (cases "(l, r, i, k, j)" rule: match_pair.cases)
    (auto simp: match_affine_iff [symmetric] split: option.splits)

lemma match_prod_sound:
  assumes "match_prod p i k j = Some (A, K, B, N)"
  shows "K \<noteq> [] \<and> N \<noteq> [] \<and> product_forms i j k \<lparr>mmA = A, mmB = B, mmC = C, mmM = M, mmN = N, mmK = K\<rparr> p"
proof -
  obtain l r where p: "p = BinOp l Mult r" using assms by (cases "(p, i, k, j)" rule: match_prod.cases) auto
  then have "match_pair l r i k j = Some (A, K, B, N) \<or> match_pair r l i k j = Some (A, K, B, N)"
    using assms by (auto split: option.splits)
  then show ?thesis unfolding p product_forms_def by (auto simp: match_pair_iff)
qed

lemma match_prod_complete:
  assumes "product_forms i j k mm p" "distinct [i, j, k]" "mmK mm \<noteq> []" "mmN mm \<noteq> []"
  shows "match_prod p i k j = Some (mmA mm, mmK mm, mmB mm, mmN mm)"
proof -
  obtain ia ib where f: "ia \<in> set (affine_forms i (mmK mm) k)" "ib \<in> set (affine_forms k (mmN mm) j)"
    and p: "p = BinOp (Subscript (Name (mmA mm)) ia) Mult (Subscript (Name (mmB mm)) ib) \<or>
      p = BinOp (Subscript (Name (mmB mm)) ib) Mult (Subscript (Name (mmA mm)) ia)"
    using assms(1) by (auto simp: product_forms_def)
  have good: "match_pair (Subscript (Name (mmA mm)) ia) (Subscript (Name (mmB mm)) ib) i k j =
      Some (mmA mm, mmK mm, mmB mm, mmN mm)"
    unfolding match_pair_iff using f assms(3,4) by blast
  have "match_affine ib i k = None"
  proof (cases "match_affine ib i k")
    case (Some s)
    then have "ib \<in> set (affine_forms i s k)" by (simp add: match_affine_iff)
    then show ?thesis using f(2) assms(2) by (auto simp: affine_forms_def)
  qed simp
  then have "match_pair (Subscript (Name (mmB mm)) ib) (Subscript (Name (mmA mm)) ia) i k j = None" by simp
  then show ?thesis using good p by (auto simp del: match_pair.simps)
qed

lemma match_accumulate_iff:
  "match_accumulate s acc = Some p \<Longrightarrow> s \<in> {AugAssign (Name acc) Add p, Assign [Name acc] (BinOp (Name acc) Add p),
     Assign [Name acc] (BinOp p Add (Name acc))}"
  by (cases "(s, acc)" rule: match_accumulate.cases) (auto split: if_splits)

lemma match_store_iff:
  "match_store s acc i j N = Some c \<longleftrightarrow> (\<exists>idx \<in> set (affine_forms i N j). s = Assign [Subscript (Name c) idx] (Name acc))"
  by (cases "(s, acc, i, j, N)" rule: match_store.cases) (auto simp: match_affine_iff)

lemma match_init_iff: "match_init s = Some acc \<longleftrightarrow> (\<exists>c. const_eq_0 c \<and> s = Assign [Name acc] (Constant c))"
  by (cases s rule: match_init.cases) auto

lemma case_single: "(case xs of [x] \<Rightarrow> f x | _ \<Rightarrow> None) = Some y \<longleftrightarrow> (\<exists>x. xs = [x] \<and> f x = Some y)"
  by (auto split: list.splits)

lemma case_three: "(case xs of [x, y, z] \<Rightarrow> f x y z | _ \<Rightarrow> None) = Some w \<longleftrightarrow> (\<exists>x y z. xs = [x, y, z] \<and> f x y z = Some w)"
  by (auto split: list.splits)

lemma match_matmul_sound:
  assumes "match_matmul fn = Some mm"
  shows "\<exists>i j k acc s. filter (\<lambda>s. \<not> is_docstring s) (fbody fn) = [s] \<and> matmul_loop i j k acc mm s"
proof -
  obtain li i M lj j N ini lk store acc k K inner p A B C where
    f: "filter (\<lambda>s. \<not> is_docstring s) (fbody fn) = [li]" "match_range1 li = Some (i, M)" "for_body li = [lj]"
      "match_range1 lj = Some (j, N)" "for_body lj = [ini, lk, store]" "match_init ini = Some acc"
      "match_range1 lk = Some (k, K)" "for_body lk = [inner]" "match_accumulate inner acc = Some p"
      "match_prod p i k j = Some (A, K, B, N)" "match_store store acc i j N = Some C"
    and mm: "mm = \<lparr>mmA = A, mmB = B, mmC = C, mmM = M, mmN = N, mmK = K\<rparr>"
    using assms unfolding match_matmul_def
    by (auto simp: case_single case_three bind_eq_Some_conv split: if_splits)
  have "matmul_loop i j k acc mm li"
    using f match_prod_sound [OF f(10), of C M] match_accumulate_iff [OF f(9)]
    unfolding matmul_loop_def mm match_range1_iff match_init_iff match_store_iff by fastforce
  then show ?thesis using f(1) by blast
qed

lemma match_matmul_complete:
  assumes "filter (\<lambda>s. \<not> is_docstring s) (fbody fn) = [s]" "matmul_loop i j k acc mm s" "distinct [i, j, k]"
  shows "match_matmul fn = Some mm"
proof -
  obtain c p inner idx kw1 kw2 kw3 o1 o2 o3 where
    s: "s = For (Name i) (Call (Name ''range'') [Name (mmM mm)] kw1)
              [For (Name j) (Call (Name ''range'') [Name (mmN mm)] kw2)
                [Assign [Name acc] (Constant c),
                 For (Name k) (Call (Name ''range'') [Name (mmK mm)] kw3) [inner] o3,
                 Assign [Subscript (Name (mmC mm)) idx] (Name acc)] o2] o1"
    and f: "const_eq_0 c" "product_forms i j k mm p" "idx \<in> set (affine_forms i (mmN mm) j)"
      "inner \<in> {AugAssign (Name acc) Add p, Assign [Name acc] (BinOp (Name acc) Add p),
                 Assign [Name acc] (BinOp p Add (Name acc))}" "mmK mm \<noteq> []" "mmN mm \<noteq> []"
    using assms(2) unfolding matmul_loop_def by blast
  have "p \<noteq> Name acc" using f(2) by (auto simp: product_forms_def)
  then have "match_accumulate inner acc = Some p" using f(4) by auto
  moreover have "match_affine idx i j = Some (mmN mm)" using f(3) by (simp add: match_affine_iff)
  ultimately show ?thesis
    unfolding match_matmul_def assms(1) s using f(1) match_prod_complete [OF f(2) assms(3) f(5,6)] by simp
qed

text \<open>What the match does not look at: \<open>else\<close> bodies and keyword arguments of loops. Without them a matching kernel is the loop
  nest of the doc string.\<close>

fun plain_stmt :: "stmt \<Rightarrow> stmt" where
  "plain_stmt (For target it body els) =
     For target (case it of Call f xs kws \<Rightarrow> Call f xs [] | _ \<Rightarrow> it) (map plain_stmt body) []"
| "plain_stmt s = s"

definition canonical_loop :: "string \<Rightarrow> string \<Rightarrow> string \<Rightarrow> string \<Rightarrow> matmul \<Rightarrow> stmt \<Rightarrow> bool" where
  "canonical_loop i j k acc mm s \<longleftrightarrow> distinct [i, j, k, acc] \<and> mmK mm \<noteq> [] \<and> mmN mm \<noteq> [] \<and>
     (\<exists>c p inner idx.
        s = For (Name i) (Call (Name ''range'') [Name (mmM mm)] [])
              [For (Name j) (Call (Name ''range'') [Name (mmN mm)] [])
                [Assign [Name acc] (Constant c),
                 For (Name k) (Call (Name ''range'') [Name (mmK mm)] []) [inner] [],
                 Assign [Subscript (Name (mmC mm)) idx] (Name acc)] []] [] \<and>
        const_eq_0 c \<and> product_forms i j k mm p \<and> idx \<in> set (affine_forms i (mmN mm) j) \<and>
        inner \<in> {AugAssign (Name acc) Add p, Assign [Name acc] (BinOp (Name acc) Add p),
                 Assign [Name acc] (BinOp p Add (Name acc))})"

text \<open>The loop variables and the names that are assigned, from the outside in.\<close>

fun loop_vars :: "stmt \<Rightarrow> string list" where
  "loop_vars (For target it body els) = (case target of Name x \<Rightarrow> [x] | _ \<Rightarrow> []) @ concat (map loop_vars body)"
| "loop_vars _ = []"

fun assigned :: "stmt \<Rightarrow> string list" where
  "assigned (For target it body els) = concat (map assigned body)"
| "assigned (Assign ts v) = concat (map (\<lambda>t. case t of Name x \<Rightarrow> [x] | _ \<Rightarrow> []) ts)"
| "assigned _ = []"

definition names_apart :: "stmt \<Rightarrow> bool" where
  "names_apart s \<longleftrightarrow> distinct (loop_vars s) \<and> set (loop_vars s) \<inter> set (assigned s) = {}"

lemma plain_For:
  "plain_stmt s = For (Name x) (Call (Name ''range'') [Name b] []) body [] \<longleftrightarrow>
    (\<exists>kw els body'. s = For (Name x) (Call (Name ''range'') [Name b] kw) body' els \<and> map plain_stmt body' = body)"
  by (cases s) (auto split: expr.splits)

lemma plain_Assign: "plain_stmt s = Assign ts v \<longleftrightarrow> s = Assign ts v"
  by (cases s) auto

lemma plain_AugAssign: "plain_stmt s = AugAssign t opn v \<longleftrightarrow> s = AugAssign t opn v"
  by (cases s) auto

lemma canonical_iff_plain:
  assumes "names_apart s"
  shows "matmul_loop i j k acc mm s \<longleftrightarrow> canonical_loop i j k acc mm (plain_stmt s)"
proof
  assume "matmul_loop i j k acc mm s"
  then obtain c p inner idx kw1 kw2 kw3 o1 o2 o3 where
    s: "s = For (Name i) (Call (Name ''range'') [Name (mmM mm)] kw1)
              [For (Name j) (Call (Name ''range'') [Name (mmN mm)] kw2)
                [Assign [Name acc] (Constant c),
                 For (Name k) (Call (Name ''range'') [Name (mmK mm)] kw3) [inner] o3,
                 Assign [Subscript (Name (mmC mm)) idx] (Name acc)] o2] o1"
    and f: "const_eq_0 c" "product_forms i j k mm p" "idx \<in> set (affine_forms i (mmN mm) j)"
      "inner \<in> {AugAssign (Name acc) Add p, Assign [Name acc] (BinOp (Name acc) Add p),
                 Assign [Name acc] (BinOp p Add (Name acc))}" "mmK mm \<noteq> []" "mmN mm \<noteq> []"
    unfolding matmul_loop_def by blast
  have "plain_stmt inner = inner" using f(4) by auto
  moreover have "distinct [i, j, k, acc]" using assms f(4) by (auto simp: s names_apart_def)
  ultimately show "canonical_loop i j k acc mm (plain_stmt s)"
    using f unfolding canonical_loop_def s by auto
next
  assume "canonical_loop i j k acc mm (plain_stmt s)"
  then obtain c p inner idx where
    s: "plain_stmt s = For (Name i) (Call (Name ''range'') [Name (mmM mm)] [])
              [For (Name j) (Call (Name ''range'') [Name (mmN mm)] [])
                [Assign [Name acc] (Constant c),
                 For (Name k) (Call (Name ''range'') [Name (mmK mm)] []) [inner] [],
                 Assign [Subscript (Name (mmC mm)) idx] (Name acc)] []] []"
    and f: "const_eq_0 c" "product_forms i j k mm p" "idx \<in> set (affine_forms i (mmN mm) j)"
      "inner \<in> {AugAssign (Name acc) Add p, Assign [Name acc] (BinOp (Name acc) Add p),
                 Assign [Name acc] (BinOp p Add (Name acc))}" "mmK mm \<noteq> []" "mmN mm \<noteq> []"
    unfolding canonical_loop_def by blast
  have "plain_stmt t = inner \<longleftrightarrow> t = inner" for t using f(4) by (auto simp: plain_Assign plain_AugAssign)
  then show "matmul_loop i j k acc mm s"
    using s f unfolding matmul_loop_def by (auto simp: plain_For plain_Assign map_eq_Cons_conv)
qed

lemma canonical_distinct: "canonical_loop i j k acc mm s \<Longrightarrow> distinct [i, j, k]"
  by (simp add: canonical_loop_def)

section \<open>Exceptions\<close>

lemma pop_regs_Inl: "pop_regs n free = Inl e \<longleftrightarrow> length free < n \<and> e = IndexError"
  by (induction n arbitrary: free) (auto simp: pop_reg_def ebind_eq_Inl_iff split: list.splits)

lemma tensor_params_Inl:
  "4 * (idx + length free) \<le> 0xFFF \<Longrightarrow>
   tensor_params idx xs free reg a = Inl e \<longleftrightarrow> length free < length xs \<and> e = IndexError"
proof (induction idx xs free reg a rule: tensor_params.induct)
  case (2 idx x xs free reg a)
  show ?case
  proof (cases free)
    case (Cons r rs)
    then have "4 * int idx \<le> 0xFFF" using "2.prems" by simp
    then show ?thesis using 2 Cons by (simp add: pop_reg_def asm_i_eq)
  qed (auto simp: pop_reg_def)
qed simp


lemma compile_tensor_cases:
  "case match_matmul fn of
     None \<Rightarrow> \<exists>msg. compile_tensor fn dtype = Inl (CompileError msg)
   | Some mm \<Rightarrow>
       if set [mmA mm, mmB mm, mmC mm, mmM mm, mmN mm, mmK mm] \<subseteq> set (fargs fn)
       then (if length (fargs fn) \<le> 48 then \<exists>ws. compile_tensor fn dtype = Inr ws
             else compile_tensor fn dtype = Inl IndexError)
       else \<exists>msg. compile_tensor fn dtype = Inl (CompileError msg)"
proof (cases "match_matmul fn")
  case None
  then show ?thesis by (simp add: compile_tensor_def)
next
  case (Some mm)
  define ns where "ns = [mmA mm, mmB mm, mmC mm, mmM mm, mmN mm, mmK mm]"
  define flags where "flags = (if dtype = ''fp8'' then WMMA_FLAG_FP8 else 0)"
  have len: "length R_POOL = 56" by (simp add: R_POOL_def)
  show ?thesis
  proof (cases "find (\<lambda>x. x \<notin> set (fargs fn)) ns")
    case (Some x)
    then have "\<not> set ns \<subseteq> set (fargs fn)" by (metis find_Some_iff nth_mem subsetD)
    moreover have "\<exists>msg. compile_tensor fn dtype = Inl (CompileError msg)"
      using Some \<open>match_matmul fn = Some mm\<close> by (simp add: compile_tensor_def ns_def del: find.simps)
    ultimately show ?thesis using \<open>match_matmul fn = Some mm\<close> by (auto simp: ns_def)
  next
    case None
    then have sub: "set ns \<subseteq> set (fargs fn)" by (auto simp: find_None_iff)
    let ?r = "\<lambda>reg x. the (map_of reg x)"
    have c: "compile_tensor fn dtype = ebind (tensor_params 0 (fargs fn) R_POOL [] asm_init) (\<lambda>(free, reg, a).
        ebind (asm_mov R_LDA (?r reg (mmK mm)) a) (\<lambda>a. ebind (asm_mov R_LDB (?r reg (mmN mm)) a) (\<lambda>a.
        ebind (asm_mov R_LDC (?r reg (mmN mm)) a) (\<lambda>a. ebind (pop_regs 8 free) (\<lambda>(ts, free).
        ebind (tensor_nest (?r reg (mmA mm)) (?r reg (mmB mm)) (?r reg (mmC mm)) (?r reg (mmM mm)) (?r reg (mmN mm))
           (?r reg (mmK mm)) ts flags a)
         (\<lambda>a. ebind (asm_exit a) (\<lambda>a. ebind (asm_finalize a) (\<lambda>(ws, a). Inr ws))))))))"
      using None \<open>match_matmul fn = Some mm\<close> unfolding ns_def by (simp add: compile_tensor_def flags_def Let_def del: find.simps)
    have e0: "tensor_params 0 (fargs fn) R_POOL [] asm_init = Inl e \<longleftrightarrow> 56 < length (fargs fn) \<and> e = IndexError" for e
      using tensor_params_Inl [of 0 R_POOL] len by simp
    show ?thesis
    proof (cases "tensor_params 0 (fargs fn) R_POOL [] asm_init")
      case (Inl e)
      then show ?thesis using e0 [of e] c sub \<open>match_matmul fn = Some mm\<close> by (simp add: ns_def)
    next
      case (Inr t)
      obtain free reg a where t: "t = (free, reg, a)" by (cases t)
      obtain rs where rs: "R_POOL = rs @ free" "length rs = length (fargs fn)" "a = asm_append (load_words 0 rs) asm_init"
        using tensor_params_Inr [OF Inr [unfolded t]] by auto
      have fl: "length free = 56 - length (fargs fn)" "length (fargs fn) \<le> 56" using len unfolding rs(1) rs(2) [symmetric] by auto
      define mv where "mv x y z = (if R_LDA \<noteq> x then [iw I_ADD R_LDA x 0] else []) @
        (if R_LDB \<noteq> y then [iw I_ADD R_LDB y 0] else []) @ (if R_LDC \<noteq> z then [iw I_ADD R_LDC z 0] else [])" for x y z
      have mv: "ebind (asm_mov R_LDA x a) (\<lambda>a. ebind (asm_mov R_LDB y a) (\<lambda>a. ebind (asm_mov R_LDC z a) g)) =
          g (asm_append (mv x y z) a)" for x y z and g :: "assembler \<Rightarrow> py_error + int list"
        by (simp add: asm_mov_eq mv_def)
      have small: "length (words (asm_append (mv x y z) a)) + 26 \<le> 0xFFF" "fixups (asm_append (mv x y z) a) = []"
          "labels (asm_append (mv x y z) a) = []" for x y z
        using fl(2) by (simp_all add: rs(3) rs(2) mv_def asm_init_def)
      have c': "compile_tensor fn dtype = ebind (pop_regs 8 free) (\<lambda>(ts, free).
          Inr (words (asm_append (mv (?r reg (mmK mm)) (?r reg (mmN mm)) (?r reg (mmN mm))) a) @
            tensor_words (length (words (asm_append (mv (?r reg (mmK mm)) (?r reg (mmN mm)) (?r reg (mmN mm))) a)))
              (?r reg (mmA mm)) (?r reg (mmB mm)) (?r reg (mmC mm)) (?r reg (mmM mm)) (?r reg (mmN mm))
              (?r reg (mmK mm)) ts flags))"
        unfolding c Inr t ebind_simps prod.case mv tensor_nest_finalize [OF small(2,3,1)] ..
      show ?thesis
      proof (cases "pop_regs 8 free")
        case (Inl e)
        then show ?thesis
          using pop_regs_Inl [of 8 free e] fl c' sub \<open>match_matmul fn = Some mm\<close> by (auto simp: ns_def)
      next
        case (Inr u)
        then have "\<not> length free < 8" using pop_regs_Inl [of 8 free IndexError] by auto
        then show ?thesis using Inr fl c' sub \<open>match_matmul fn = Some mm\<close> by (auto simp: ns_def split: prod.splits)
      qed
    qed
  qed
qed

section \<open>The run of an \<open>INT8\<close> program\<close>

lemma tensor_int8_halts:
  assumes "compile_tensor fn dtype = Inr ws" "dtype \<noteq> ''fp8''" "match_matmul fn = Some mm" "distinct (fargs fn)"
    "kparams mem addr 0 (fargs fn) (\<lambda>_. None) = Some env"
    "map env [mmA mm, mmB mm, mmC mm, mmM mm, mmN mm, mmK mm] = map Some [A, B, C, M, N, K]"
    "matmul_layout (uint A) (uint B) (uint C) (sint M) (sint N) (sint K) mem"
  shows "\<exists>mem'. halts ws (sim_init mem addr) mem' \<and>
    accumulated (uint A) (uint B) (uint C) (sint M) (sint N) (sint K) mem mem'"
proof -
  obtain mem' where m: "tensor_tiles False A B C M N K mem = Inr mem'"
    "accumulated (uint A) (uint B) (uint C) (sint M) (sint N) (sint K) mem mem'"
    using tensor_tiles_int8 [OF assms(7)] by blast
  have d: "16 dvd sint x \<Longrightarrow> sint x \<le> 2 ^ 31 - 16" for x :: "32 word"
    using sint_range32 [of x] by auto
  have "halts ws (sim_init mem addr) mem'"
    by (rule compile_tensor_halts [OF assms(1,3,4) _ assms(5), of A B C M N K])
      (use assms(2,6,7) m(1) d in \<open>auto simp: matmul_layout_def\<close>)
  then show ?thesis using m(2) by blast
qed

section \<open>The kernel of the self-test\<close>

text \<open>\<open>MATMUL_SRC\<close>, parsed.\<close>

definition matmul_kernel :: fundef where
  "matmul_kernel = \<lparr>fname = ''matmul'', fargs = [''A'', ''B'', ''C'', ''M'', ''N'', ''K''], fbody =
     [ExprStmt (Constant (COther ''C[MxN] = A[MxK] @ B[KxN] (row-major, int32)'' False)),
      For (Name ''i'') (Call (Name ''range'') [Name ''M''] [])
        [For (Name ''j'') (Call (Name ''range'') [Name ''N''] [])
          [Assign [Name ''acc''] (Constant (CInt 0)),
           For (Name ''k'') (Call (Name ''range'') [Name ''K''] [])
             [Assign [Name ''acc''] (BinOp (Name ''acc'') Add
                (BinOp (Subscript (Name ''A'') (BinOp (BinOp (Name ''i'') Mult (Name ''K'')) Add (Name ''k''))) Mult
                       (Subscript (Name ''B'') (BinOp (BinOp (Name ''k'') Mult (Name ''N'')) Add (Name ''j'')))))] [],
           Assign [Subscript (Name ''C'') (BinOp (BinOp (Name ''i'') Mult (Name ''N'')) Add (Name ''j''))] (Name ''acc'')] []] []],
     fextra = []\<rparr>"

definition matmul_names :: matmul where
  "matmul_names = \<lparr>mmA = ''A'', mmB = ''B'', mmC = ''C'', mmM = ''M'', mmN = ''N'', mmK = ''K''\<rparr>"

lemma match_matmul_kernel: "match_matmul matmul_kernel = Some matmul_names"
  by code_simp

text \<open>A memory with the parameter block at 0, \<open>A\<close> at 24, \<open>B\<close> at 280 and \<open>C\<close> at 536, all 16 by 16.\<close>

definition tile_mem :: "int list" where
  "tile_mem = [24, 0, 0, 0, 24, 1, 0, 0, 24, 2, 0, 0, 16, 0, 0, 0, 16, 0, 0, 0, 16, 0, 0, 0] @
     replicate 256 3 @ replicate 256 255 @ replicate 1024 0"

definition tile_env :: env where
  "tile_env = [''A'' \<mapsto> 24, ''B'' \<mapsto> 280, ''C'' \<mapsto> 536, ''M'' \<mapsto> 16, ''N'' \<mapsto> 16, ''K'' \<mapsto> 16]"

lemma tile_mem_params: "kparams tile_mem 0 0 (fargs matmul_kernel) (\<lambda>_. None) = Some tile_env"
  by (simp add: matmul_kernel_def tile_env_def rd32_def buf_off_def tile_mem_def)

lemma tile_mem_layout: "matmul_layout 24 280 536 16 16 16 tile_mem"
  by (simp add: matmul_layout_def tile_mem_def byte_mem_def)

lemma matmul_kernel_compiles: "\<exists>ws. compile_tensor matmul_kernel dtype = Inr ws"
  using compile_tensor_cases [of matmul_kernel dtype]
  by (simp add: match_matmul_kernel matmul_names_def) (simp add: matmul_kernel_def)

section \<open>Promises\<close>

text \<open>C6: the kernels that match are exactly the canonical triple loops over the names that are returned, up to the order of
  factors and summands, the two forms of the accumulation and doc strings, once the \<open>else\<close> bodies and keyword arguments of the
  loops, which the match does not look at, are taken away; for kernels whose loop variables are distinct and not assigned.\<close>

theorem match_matmul_canonical:
  assumes "list_all names_apart (fbody fn)"
  shows "match_matmul fn = Some mm \<longleftrightarrow>
    (\<exists>i j k acc s. filter (\<lambda>s. \<not> is_docstring s) (fbody fn) = [s] \<and> canonical_loop i j k acc mm (plain_stmt s))"
proof -
  have apart: "names_apart s" if "filter (\<lambda>s. \<not> is_docstring s) (fbody fn) = [s]" for s
  proof -
    have "s \<in> set (filter (\<lambda>s. \<not> is_docstring s) (fbody fn))" using that by simp
    then show ?thesis using assms by (auto simp: list_all_iff)
  qed
  show ?thesis
    using match_matmul_sound [of fn mm] match_matmul_complete [of fn _ _ _ _ _ mm] apart canonical_iff_plain canonical_distinct by metis
qed

theorem match_matmul_canonical_witness:
  "match_matmul matmul_kernel = Some matmul_names \<longleftrightarrow>
    (\<exists>i j k acc s. filter (\<lambda>s. \<not> is_docstring s) (fbody matmul_kernel) = [s] \<and> canonical_loop i j k acc matmul_names (plain_stmt s))"
  by (rule match_matmul_canonical) (simp add: matmul_kernel_def names_apart_def)

text \<open>An \<open>else\<close> body, which Python runs after the loop, is dropped without an error, where the scalar backend raises one; and a
  nest whose two outer loops share their variable, which in Python only reaches the diagonal, compiles to the full product.\<close>

definition outer_loop :: "string \<Rightarrow> stmt list \<Rightarrow> stmt" where
  "outer_loop j els =
    For (Name ''i'') (Call (Name ''range'') [Name ''M''] [])
      [For (Name j) (Call (Name ''range'') [Name ''N''] [])
        [Assign [Name ''acc''] (Constant (CInt 0)),
         For (Name ''k'') (Call (Name ''range'') [Name ''K''] [])
           [AugAssign (Name ''acc'') Add
              (BinOp (Subscript (Name ''A'') (BinOp (BinOp (Name ''i'') Mult (Name ''K'')) Add (Name ''k''))) Mult
                     (Subscript (Name ''B'') (BinOp (BinOp (Name ''k'') Mult (Name ''N'')) Add (Name j))))] [],
         Assign [Subscript (Name ''C'') (BinOp (BinOp (Name ''i'') Mult (Name ''N'')) Add (Name j))] (Name ''acc'')] []] els"

lemma compile_tensor_by_match:
  "match_matmul f = match_matmul g \<Longrightarrow> fargs f = fargs g \<Longrightarrow> compile_tensor f dtype = compile_tensor g dtype"
  unfolding compile_tensor_def by (simp only:)

lemma else_body_dropped:
  fixes els
  defines "els \<equiv> [Assign [Subscript (Name ''C'') (Constant (CInt 0))] (Constant (CInt 7))]"
  shows "compile_tensor (matmul_kernel\<lparr>fbody := [outer_loop ''j'' els]\<rparr>) dtype = compile_tensor matmul_kernel dtype"
    "compile (matmul_kernel\<lparr>fbody := [outer_loop ''j'' els]\<rparr>) = Inl (CompileError ''for/else not supported'')"
proof -
  have "match_matmul (matmul_kernel\<lparr>fbody := [outer_loop ''j'' els]\<rparr>) = match_matmul matmul_kernel"
    unfolding els_def by code_simp
  then show "compile_tensor (matmul_kernel\<lparr>fbody := [outer_loop ''j'' els]\<rparr>) dtype = compile_tensor matmul_kernel dtype"
    by (rule compile_tensor_by_match) simp
  show "compile (matmul_kernel\<lparr>fbody := [outer_loop ''j'' els]\<rparr>) = Inl (CompileError ''for/else not supported'')"
    unfolding els_def by code_simp
qed

lemma shared_variable_accepted:
  "compile_tensor (matmul_kernel\<lparr>fbody := [outer_loop ''i'' []]\<rparr>) dtype = compile_tensor matmul_kernel dtype"
proof (rule compile_tensor_by_match)
  show "match_matmul (matmul_kernel\<lparr>fbody := [outer_loop ''i'' []]\<rparr>) = match_matmul matmul_kernel" by code_simp
qed simp

text \<open>Every spelling of the canonical triple loop with three distinct loop variables matches, and
  the names are read off it.\<close>

theorem match_matmul_accepts:
  assumes "filter (\<lambda>s. \<not> is_docstring s) (fbody fn) = [s]" "matmul_loop i j k acc mm s" "distinct [i, j, k]"
  shows "match_matmul fn = Some mm"
  by (rule match_matmul_complete [OF assms])

theorem match_matmul_accepts_witness:
  "match_matmul \<lparr>fname = ''f'', fargs = [], fbody =
     [For (Name ''i'') (Call (Name ''range'') [Name ''M''] [])
        [For (Name ''j'') (Call (Name ''range'') [Name ''N''] [])
          [Assign [Name ''s''] (Constant (CBool False)),
           For (Name ''k'') (Call (Name ''range'') [Name ''K''] [])
             [AugAssign (Name ''s'') Add
                (BinOp (Subscript (Name ''B'') (BinOp (Name ''j'') Add (BinOp (Name ''N'') Mult (Name ''k'')))) Mult
                       (Subscript (Name ''A'') (BinOp (BinOp (Name ''i'') Mult (Name ''K'')) Add (Name ''k''))))] [],
           Assign [Subscript (Name ''C'') (BinOp (Name ''j'') Add (BinOp (Name ''i'') Mult (Name ''N'')))] (Name ''s'')] []] []],
     fextra = []\<rparr> = Some matmul_names"
  by (rule match_matmul_accepts [where i = "''i''" and j = "''j''" and k = "''k''" and acc = "''s''"])
    (auto simp: matmul_loop_def matmul_names_def product_forms_def affine_forms_def)

text \<open>C7: \<open>compile_tensor\<close> raises \<open>CompileError\<close> for a kernel that does not match or whose names are
  not parameters, an \<open>IndexError\<close> with more than 48 parameters, and otherwise succeeds.\<close>

theorem compile_tensor_raises:
  "case match_matmul fn of
     None \<Rightarrow> \<exists>msg. compile_tensor fn dtype = Inl (CompileError msg)
   | Some mm \<Rightarrow>
       if set [mmA mm, mmB mm, mmC mm, mmM mm, mmN mm, mmK mm] \<subseteq> set (fargs fn)
       then (if length (fargs fn) \<le> 48 then \<exists>ws. compile_tensor fn dtype = Inr ws
             else compile_tensor fn dtype = Inl IndexError)
       else \<exists>msg. compile_tensor fn dtype = Inl (CompileError msg)"
  by (rule compile_tensor_cases)

text \<open>C5: the program performs exactly the tiled loop nest. When no bound exceeds \<open>2 ^ 31 - 16\<close> and no
  tile operation fails, the reference simulator runs it to the exit, under every large enough
  watchdog, and leaves the memory of the nest; for \<open>INT8\<close> and for \<open>FP8\<close> operands.\<close>

theorem tensor_program_runs_tiles:
  assumes "compile_tensor fn dtype = Inr ws" "match_matmul fn = Some mm" "distinct (fargs fn)" "byte_mem mem"
    "kparams mem addr 0 (fargs fn) (\<lambda>_. None) = Some env"
    "map env [mmA mm, mmB mm, mmC mm, mmM mm, mmN mm, mmK mm] = map Some [A, B, C, M, N, K]"
    "list_all (\<lambda>x. sint x \<le> 2 ^ 31 - 16) [M, N, K]"
    "tensor_tiles (dtype = ''fp8'') A B C M N K mem = Inr mem'"
  shows "\<exists>k. \<forall>extra. simulate ws mem addr (k + 1 + extra) = Inr (k + 1, mem')"
proof -
  have "halts ws (sim_init mem addr) mem'"
    by (rule compile_tensor_halts [OF assms(1-5) _ _ _ _ _ _ _ _ _ assms(8)]) (use assms(6,7) in auto)
  from halts_simulate [OF this] obtain k where "\<forall>max_steps > k. simulate ws mem addr max_steps = Inr (k + 1, mem')"
    by blast
  then have "simulate ws mem addr (k + 1 + extra) = Inr (k + 1, mem')" for extra by simp
  then show ?thesis by blast
qed

theorem tensor_program_runs_tiles_witness:
  "\<exists>ws mem'. tensor_tiles False 24 280 536 16 16 16 tile_mem = Inr mem' \<and>
     (\<exists>k. \<forall>extra. simulate ws tile_mem 0 (k + 1 + extra) = Inr (k + 1, mem'))"
proof -
  obtain ws where ws: "compile_tensor matmul_kernel ''int8'' = Inr ws" using matmul_kernel_compiles by blast
  obtain mem' where m: "tensor_tiles False 24 280 536 16 16 16 tile_mem = Inr mem'"
    using tensor_tiles_int8 [of 24 280 536 16 16 16 tile_mem] tile_mem_layout by auto
  have bm: "byte_mem tile_mem" using tile_mem_layout by (simp add: matmul_layout_def)
  have "\<exists>k. \<forall>extra. simulate ws tile_mem 0 (k + 1 + extra) = Inr (k + 1, mem')"
    by (rule tensor_program_runs_tiles [OF ws match_matmul_kernel _ bm tile_mem_params])
      (use m in \<open>simp_all add: matmul_names_def tile_env_def matmul_kernel_def\<close>)
  then show ?thesis using m by blast
qed

text \<open>C2: the \<open>INT8\<close> tensor program computes a matrix product. For bounds that are multiples of 16
  and arrays inside the memory, \<open>C\<close> apart from \<open>A\<close> and \<open>B\<close>, it halts and every \<open>C[i*N+j]\<close> ends as
  its old value plus the dot product of row \<open>i\<close> of \<open>A\<close> and column \<open>j\<close> of \<open>B\<close>, modulo \<open>2 ^ 32\<close>, all
  other memory unchanged. The old value of \<open>C\<close> is accumulated into, where the kernel that
  matched assigns.\<close>

theorem tensor_matmul_int8:
  assumes "compile_tensor fn dtype = Inr ws" "dtype \<noteq> ''fp8''" "match_matmul fn = Some mm" "distinct (fargs fn)"
    "kparams mem addr 0 (fargs fn) (\<lambda>_. None) = Some env"
    "map env [mmA mm, mmB mm, mmC mm, mmM mm, mmN mm, mmK mm] = map Some [A, B, C, M, N, K]"
    "matmul_layout (uint A) (uint B) (uint C) (sint M) (sint N) (sint K) mem"
  shows "\<exists>k mem'. (\<forall>extra. simulate ws mem addr (k + 1 + extra) = Inr (k + 1, mem')) \<and>
    accumulated (uint A) (uint B) (uint C) (sint M) (sint N) (sint K) mem mem'"
proof -
  obtain mem' where h: "halts ws (sim_init mem addr) mem'"
    and m: "accumulated (uint A) (uint B) (uint C) (sint M) (sint N) (sint K) mem mem'"
    using tensor_int8_halts [OF assms] by blast
  from halts_simulate [OF h] obtain k where "\<forall>max_steps > k. simulate ws mem addr max_steps = Inr (k + 1, mem')"
    by blast
  then have "simulate ws mem addr (k + 1 + extra) = Inr (k + 1, mem')" for extra by simp
  then show ?thesis using m by blast
qed

theorem tensor_matmul_int8_witness:
  "\<exists>ws k mem'. (\<forall>extra. simulate ws tile_mem 0 (k + 1 + extra) = Inr (k + 1, mem')) \<and>
     accumulated 24 280 536 16 16 16 tile_mem mem'"
proof -
  obtain ws where ws: "compile_tensor matmul_kernel ''int8'' = Inr ws" using matmul_kernel_compiles by blast
  have "\<exists>k mem'. (\<forall>extra. simulate ws tile_mem 0 (k + 1 + extra) = Inr (k + 1, mem')) \<and>
      accumulated (uint (24 :: 32 word)) (uint (280 :: 32 word)) (uint (536 :: 32 word)) (sint (16 :: 32 word))
        (sint (16 :: 32 word)) (sint (16 :: 32 word)) tile_mem mem'"
    by (rule tensor_matmul_int8 [OF ws _ match_matmul_kernel _ tile_mem_params])
      (use tile_mem_layout in \<open>simp_all add: matmul_names_def tile_env_def matmul_kernel_def\<close>)
  then show ?thesis by auto
qed

end
