(* ===== verification/TensorRef.thy ===== *)
theory TensorRef
  imports FpOps
begin

text \<open>
  The golden model of the tensor core array, \<^verbatim>\<open>tb/uvm/tensor_ref.py\<close>: the half-precision
  multiplier, the widening of its result, the \<open>FP8\<close> multiplier, the truncating accumulator adder,
  the dual \<open>INT8\<close> lanes and \<open>wmma_golden\<close>, which folds the products of each cell in order.
  Python's integers are \<open>int\<close>; a list subscript out of range is \<open>IndexError\<close>.
\<close>

section \<open>Rounding and the FP16 multiplier\<close>

definition rshift_rne :: "int \<Rightarrow> int \<Rightarrow> int" where
  "rshift_rne v s =
    (if s \<le> 0 then shl v (- s)
     else
       (let q = shr v s; rem = v AND (shl 1 s - 1); half = shl 1 (s - 1) in
        if rem > half \<or> (rem = half \<and> q AND 1 \<noteq> 0) then q + 1 else q))"

text \<open>The last part of \<open>fp16_mul\<close>, for a product of two non-zero significands.\<close>

definition fp16_pack :: "int \<Rightarrow> int \<Rightarrow> int \<Rightarrow> int" where
  "fp16_pack sr mp ep =
    (let pos = bit_length mp - 1 + ep;
         subnormal =
           (let n = rshift_rne mp (- (ep + 24)) in
            if n = 0 then push_bit 15 sr
            else if n \<ge> 0x400 then push_bit 15 sr OR push_bit 10 1 OR (n AND 0x3FF)
            else push_bit 15 sr OR n)
     in if pos \<ge> - 14 then
          (let mant = rshift_rne mp (bit_length mp - 11);
               carry = (drop_bit 11 mant \<noteq> 0);
               mant' = (if carry then drop_bit 1 mant else mant);
               e_unb = (if carry then pos + 1 else pos);
               e_field = e_unb + 15
           in if e_field \<ge> 31 then push_bit 15 sr OR 0x7C00
              else if e_field \<ge> 1 then push_bit 15 sr OR push_bit 10 e_field OR (mant' AND 0x3FF)
              else subnormal)
        else subnormal)"

definition fp16_mul :: "int \<Rightarrow> int \<Rightarrow> int" where
  "fp16_mul a b =
    (let sa = drop_bit 15 a AND 1; ea = drop_bit 10 a AND 0x1F; fa = a AND 0x3FF;
         sb = drop_bit 15 b AND 1; eb = drop_bit 10 b AND 0x1F; fb = b AND 0x3FF;
         sr = sa XOR sb;
         a_nan = (ea = 31 \<and> fa \<noteq> 0); b_nan = (eb = 31 \<and> fb \<noteq> 0);
         a_inf = (ea = 31 \<and> fa = 0); b_inf = (eb = 31 \<and> fb = 0);
         a_zero = (ea = 0 \<and> fa = 0); b_zero = (eb = 0 \<and> fb = 0)
     in if a_nan \<or> b_nan \<or> (a_inf \<and> b_zero) \<or> (a_zero \<and> b_inf) then 0x7E00
        else if a_inf \<or> b_inf then push_bit 15 sr OR 0x7C00
        else if a_zero \<or> b_zero then push_bit 15 sr
        else
          (let ma = fa OR (if ea \<noteq> 0 then 0x400 else 0); mb = fb OR (if eb \<noteq> 0 then 0x400 else 0);
               ea_eff = (if ea \<noteq> 0 then ea else 1); eb_eff = (if eb \<noteq> 0 then eb else 1)
           in fp16_pack sr (ma * mb) ((ea_eff - 15 - 10) + (eb_eff - 15 - 10))))"

definition fp16_to_fp32 :: "int \<Rightarrow> int" where
  "fp16_to_fp32 h =
    (let s = drop_bit 15 h AND 1 in
     if h AND 0x7FFF = 0 then push_bit 31 s
     else
       (let e = drop_bit 10 h AND 0x1F in
        if e = 0 then 0
        else push_bit 31 s OR push_bit 23 (e + 112) OR push_bit 13 (h AND 0x3FF)))"

section \<open>The FP8 multiplier\<close>

text \<open>Sign, exponent field, fraction in eighths, non-finite flag, and the bias: \<open>E5M2\<close> when \<open>fmt\<close>
  is not zero, \<open>E4M3\<close> otherwise.\<close>

definition fp8_fields :: "int \<Rightarrow> int \<Rightarrow> int \<times> int \<times> bool" where
  "fp8_fields fmt a =
    (if fmt \<noteq> 0 then
       (let e = drop_bit 2 a AND 0x1F; f = push_bit 1 (a AND 3) in (e, f, e = 31))
     else
       (let e = drop_bit 3 a AND 0xF; f = a AND 7 in (e, f, e = 15 \<and> f = 7)))"

definition fp8_bias :: "int \<Rightarrow> int" where
  "fp8_bias fmt = (if fmt \<noteq> 0 then 15 else 7)"

definition fp8_mul_to_fp32 :: "int \<Rightarrow> int \<Rightarrow> int \<Rightarrow> int" where
  "fp8_mul_to_fp32 a b fmt =
    (let sign = (drop_bit 7 a XOR drop_bit 7 b) AND 1;
         (ea, fa, a_nonfin) = fp8_fields fmt a; (eb, fb, b_nonfin) = fp8_fields fmt b;
         bias = fp8_bias fmt;
         a_den = (ea = 0); b_den = (eb = 0);
         a_zero = (a_den \<and> fa = 0); b_zero = (b_den \<and> fb = 0);
         ma = push_bit 3 (if a_den then 0 else 1) OR fa; mb = push_bit 3 (if b_den then 0 else 1) OR fb;
         prod = ma * mb
     in if a_zero \<or> b_zero \<or> a_nonfin \<or> b_nonfin \<or> prod = 0 then push_bit 31 sign
        else
          (let ea_eff = (if a_den then 1 else ea) - bias; eb_eff = (if b_den then 1 else eb) - bias;
               p = bit_length prod - 1;
               exp32 = ea_eff + eb_eff - 6 + p + 127;
               mant = shl prod (23 - p) AND 0x7FFFFF
           in push_bit 31 sign OR push_bit 23 (exp32 AND 0xFF) OR mant))"

section \<open>The accumulator\<close>

definition fp32_add :: "int \<Rightarrow> int \<Rightarrow> int" where
  "fp32_add a b =
    (if a = 0 then b
     else if b = 0 then a
     else
       (let sa = drop_bit 31 a AND 1; ea = drop_bit 23 a AND 0xFF; fa = a AND 0x7FFFFF;
            sb = drop_bit 31 b AND 1; eb = drop_bit 23 b AND 0xFF; fb = b AND 0x7FFFFF;
            ma = (if ea = 0 then 0 else push_bit 23 1 OR fa);
            mb = (if eb = 0 then 0 else push_bit 23 1 OR fb);
            (ma_al, mb_al, er, sr) =
              (if ea > eb then (ma, shr mb (min (ea - eb) 63), ea, sa)
               else (shr ma (min (eb - ea) 63), mb, eb, sb))
        in if sa = sb then
             (let s = ma_al + mb_al;
                  (s, er) = (if drop_bit 24 s \<noteq> 0 then (drop_bit 1 s, (er + 1) AND 0xFF) else (s, er))
              in push_bit 31 sr OR push_bit 23 er OR (s AND 0x7FFFFF))
           else if ma_al = mb_al then 0
           else
             (let (s, sr) = (if ma_al > mb_al then (ma_al - mb_al, sa) else (mb_al - ma_al, sb));
                  msb = bit_length s - 1;
                  shift = (if msb \<le> 23 then 23 - msb else 0);
                  shift = (if shift > 23 then 23 else shift);
                  s' = shl s shift AND (push_bit 25 1 - 1);
                  er = (er - shift) AND 0xFF
              in if s = 0 then 0 else push_bit 31 sr OR push_bit 23 er OR (s' AND 0x7FFFFF))))"

section \<open>Products and the array\<close>

definition se :: "int \<Rightarrow> nat \<Rightarrow> int" where
  "se v bits =
    (let v = v AND (push_bit bits 1 - 1) in
     if v AND push_bit (bits - 1) 1 \<noteq> 0 then v - push_bit bits 1 else v)"

definition pe_product :: "int \<Rightarrow> int \<Rightarrow> int \<Rightarrow> int \<Rightarrow> py_error + int" where
  "pe_product act wgt mode fmt =
    (if mode = 0 then Inr (fp16_to_fp32 (fp16_mul act wgt))
     else if mode = 1 then Inr (fp8_mul_to_fp32 (act AND 0xFF) (wgt AND 0xFF) fmt)
     else if mode = 3 then
       (let a0 = se (act AND 0xFF) 8; a1 = se (drop_bit 8 act AND 0xFF) 8;
            w0 = se (wgt AND 0xFF) 8; w1 = se (drop_bit 8 wgt AND 0xFF) 8
        in Inr ((a0 * w0 + a1 * w1) AND 0xFFFFFFFF))
     else Inl ValueError)"

definition list_get :: "'a list \<Rightarrow> nat \<Rightarrow> py_error + 'a" where
  "list_get xs i = (if i < length xs then Inr (xs ! i) else Inl IndexError)"

definition acc_step :: "int \<Rightarrow> int \<Rightarrow> int \<Rightarrow> int" where
  "acc_step mode acc p = (if mode = 3 then (acc + p) AND 0xFFFFFFFF else fp32_add acc p)"

definition wmma_cell :: "int list list \<Rightarrow> int list list \<Rightarrow> int \<Rightarrow> int \<Rightarrow> int \<Rightarrow> nat \<Rightarrow> nat \<Rightarrow> py_error + int" where
  "wmma_cell A B K mode fmt i j =
    efold (\<lambda>k acc.
      ebind (list_get A i) (\<lambda>arow. ebind (list_get arow k) (\<lambda>x.
      ebind (list_get B k) (\<lambda>brow. ebind (list_get brow j) (\<lambda>w.
      ebind (pe_product x w mode fmt) (\<lambda>p. Inr (acc_step mode acc p)))))))
      [0..<nat K] 0"

definition wmma_golden ::
    "int list list \<Rightarrow> int list list \<Rightarrow> int \<Rightarrow> int \<Rightarrow> int \<Rightarrow> int \<Rightarrow> int \<Rightarrow> py_error + int list list" where
  "wmma_golden A B M N K mode fmt =
    emap (\<lambda>i. emap (\<lambda>j. wmma_cell A B K mode fmt i j) [0..<nat N]) [0..<nat M]"

end
