(* ===== verification/TensorRefProps.thy ===== *)
theory TensorRefProps
  imports TensorRef
begin

text \<open>
  The golden model of the tensor core against the exact floating-point reference: the half-precision
  multiplier is \<open>fp_mul\<close> bit for bit, the \<open>FP8\<close> multiplier is exact, the accumulator adder stays
  within an ulp of the exact sum, and the \<open>INT8\<close> mode of \<open>wmma_golden\<close> is a matrix product.
\<close>

section \<open>The FP16 multiplier\<close>

lemma rshift_rne_align:
  assumes "rp_align mant scale fmt = (kept, rb, st, lsb)"
  shows "rshift_rne mant (lsb - scale) = kept + of_bool (rp_inc RM_RNE sign kept rb st)"
proof -
  define sh where "sh = lsb - scale"
  have lsb: "lsb = max (scale + bit_length mant - 1 - int (MANT fmt)) (MIN_SCALE fmt)"
    using assms by (auto simp: rp_align_def Let_def split: if_splits)
  show ?thesis
  proof (cases "0 < sh")
    case True
    define n where "n = nat (sh - 1)"
    have n: "nat sh = Suc n" "nat (sh - 1) = n" using True by (simp_all add: n_def)
    define rem where "rem = mant mod 2 ^ Suc n"
    have "rp_align mant scale fmt = (shr mant sh, shr (mant AND (shl 1 sh - 1)) (sh - 1) AND 1,
        ((mant AND (shl 1 sh - 1)) AND (shl 1 (sh - 1) - 1)) \<noteq> 0, lsb)"
      using True lsb by (simp add: rp_align_def Let_def sh_def)
    then have out: "kept = mant div 2 ^ Suc n" "rb = (rem div 2 ^ n) mod 2" "st \<longleftrightarrow> rem mod 2 ^ n \<noteq> 0"
      using assms unfolding and_shl_mask shr_eq n and_one_eq rem_def by (simp_all del: power_Suc)
    have rem: "0 \<le> rem" "rem < 2 * 2 ^ n" by (simp_all add: rem_def)
    have q: "rem div 2 ^ n = (if 2 ^ n \<le> rem then 1 else 0)"
      using rem by (auto simp: div_pos_pos_trivial intro!: int_div_pos_eq [where r = "rem - 2 ^ n"])
    have split: "rem = (rem div 2 ^ n) * 2 ^ n + rem mod 2 ^ n" by (simp only: div_mult_mod_eq)
    have m: "0 \<le> rem mod 2 ^ n" "rem mod 2 ^ n < 2 ^ n" by simp_all
    have "(rem > 2 ^ n \<or> rem = 2 ^ n \<and> kept AND 1 \<noteq> 0) \<longleftrightarrow> rp_inc RM_RNE sign kept rb st"
      using q split m unfolding rp_inc_def Let_def out(2,3) by (auto split: if_splits)
    moreover have "rshift_rne mant sh = (if rem > 2 ^ n \<or> rem = 2 ^ n \<and> kept AND 1 \<noteq> 0 then kept + 1 else kept)"
      using True unfolding rshift_rne_def Let_def and_shl_mask unfolding shr_eq shl_eq n
      by (simp add: rem_def out(1) del: power_Suc)
    ultimately show ?thesis by (simp add: sh_def)
  next
    case False
    then have "kept = shl mant (- sh)" "rb = 0" "\<not> st"
      using assms lsb by (auto simp: rp_align_def Let_def sh_def split: if_splits)
    then show ?thesis using False by (simp add: rshift_rne_def rp_inc_def sh_def [symmetric])
  qed
qed

lemma fp16_simps: "MANT FP16 = 10" "BIAS FP16 = 15" "EMAX_FIELD FP16 = 31" "WIDTH FP16 = 16" "MIN_SCALE FP16 = - 24"
    "QNAN FP16 = 0x7E00" "fp_inf FP16 s = push_bit 15 s OR 0x7C00" "fp_zero FP16 s = push_bit 15 s"
  by (simp_all add: FP16_eq fp_inf_def fp_zero_def) (simp add: FpFormat_def)

lemma drop_bit_nz: "0 \<le> x \<Longrightarrow> drop_bit n (x :: int) \<noteq> 0 \<longleftrightarrow> 2 ^ n \<le> x"
  by (simp add: drop_bit_eq_div) (metis div_pos_pos_trivial int_div_less_self linorder_not_less
    pos_imp_zdiv_pos_iff zero_less_numeral zero_less_power zless_add1_eq add_0 order_less_irrefl zdiv_eq_0_iff)

lemma div_pow_less: "mant < c * 2 ^ n \<Longrightarrow> mant div 2 ^ n < (c :: int)"
proof (rule ccontr)
  assume a: "mant < c * 2 ^ n" "\<not> mant div 2 ^ n < c"
  then have "c * 2 ^ n \<le> mant div 2 ^ n * 2 ^ n" by simp
  also have "\<dots> \<le> mant" using div_mult_mod_eq [of mant "2 ^ n"] pos_mod_sign [of "2 ^ n" mant]
    by (smt (verit) zero_less_power)
  finally show False using a(1) by simp
qed

lemma div_pow_ge: "c * 2 ^ n \<le> mant \<Longrightarrow> (c :: int) \<le> mant div 2 ^ n"
  using zdiv_mono1 [of "c * 2 ^ n" mant "2 ^ n"] by simp

lemma subnormal_kept:
  assumes "0 < mant" "rp_align mant scale FP16 = (kept, rb, st, lsb)" "scale + bit_length mant - 1 < - 14"
  shows "lsb = - 24" "kept < 2 ^ 10"
proof -
  show lsb: "lsb = - 24" using assms(2,3) by (auto simp: rp_align_def Let_def fp16_simps split: if_splits)
  have bl: "mant < 2 ^ nat (bit_length mant)" using bit_length_less assms(1) by simp
  show "kept < 2 ^ 10"
  proof (cases "- 24 - scale > 0")
    case True
    then have k: "kept = mant div 2 ^ nat (- 24 - scale)" using assms(2,3) by (auto simp: rp_align_def Let_def fp16_simps shr_eq)
    have "nat (bit_length mant) \<le> nat (- 24 - scale) + 10" using assms(3) True by simp
    then have "(2 :: int) ^ nat (bit_length mant) \<le> 2 ^ (nat (- 24 - scale) + 10)" by (intro power_increasing) simp_all
    then have "mant < 2 ^ 10 * 2 ^ nat (- 24 - scale)" using bl by (simp add: power_add)
    then show ?thesis unfolding k by (rule div_pow_less)
  next
    case False
    then have k: "kept = mant * 2 ^ nat (scale + 24)" using assms(2,3) by (auto simp: rp_align_def Let_def fp16_simps shl_eq)
    have "kept < 2 ^ nat (bit_length mant) * 2 ^ nat (scale + 24)" unfolding k using bl by simp
    also have "\<dots> = 2 ^ (nat (bit_length mant) + nat (scale + 24))" by (simp add: power_add)
    also have "nat (bit_length mant) + nat (scale + 24) = nat (bit_length mant + (scale + 24))"
      using False by (intro nat_add_distrib [symmetric]) simp_all
    also have "(2 :: int) ^ nat (bit_length mant + (scale + 24)) \<le> 2 ^ 10"
      using assms(3) by (intro power_increasing) simp_all
    finally show ?thesis .
  qed
qed

lemma fp16_pack_round:
  assumes "0 < mp"
  shows "fp16_pack sr mp ep = fst (round_pack sr mp ep RM_RNE FP16)"
proof -
  obtain kept rb st lsb where al: "rp_align mp ep FP16 = (kept, rb, st, lsb)" by (metis prod_cases4)
  note kp = fp16.rp_align_kept [OF assms al [unfolded FP16_eq]]
  have lsb: "lsb = max (ep + bit_length mp - 1 - 10) (- 24)"
    using al by (auto simp: rp_align_def Let_def fp16_simps split: if_splits)
  define inc where "inc = rp_inc RM_RNE sr kept rb st"
  define m where "m = kept + of_bool inc"
  have rne: "rshift_rne mp (lsb - ep) = m" using rshift_rne_align [OF al, of sr] by (simp add: m_def inc_def)
  have m: "0 \<le> m" "m \<le> 2 ^ 11" using kp(1,2) by (auto simp: m_def)
  have carry: "int 10 + 1 < bit_length (kept + 1) \<longleftrightarrow> kept + 1 = 2 ^ 11"
    using bit_length_gt_iff [of "kept + 1" 11] kp(1,2) by auto
  have ca: "rp_carry inc kept lsb FP16 = (if m = 2 ^ 11 then (2 ^ 10, lsb + 1) else (m, lsb))"
    using carry kp(2) by (auto simp: rp_carry_def Let_def m_def fp16_simps drop_bit_eq_div)
  have rp: "round_pack sr mp ep RM_RNE FP16 =
      (case if m = 2 ^ 11 then (2 ^ 10, lsb + 1) else (m, lsb) of
         (kept', lsb') \<Rightarrow> rp_encode sr kept' lsb' (rb \<noteq> 0 \<or> st) RM_RNE FP16)"
    unfolding round_pack_def Let_def al prod.case inc_def [symmetric] ca ..
  have enc: "fst (rp_encode sr k l ix RM_RNE FP16) =
      (if k = 0 then push_bit 15 sr
       else if 2 ^ 10 \<le> k then
         (if l + 25 \<ge> 31 then push_bit 15 sr OR 0x7C00 else push_bit 15 sr OR push_bit 10 (l + 25) OR (k AND 0x3FF))
       else push_bit 15 sr OR k)" if "0 \<le> k" for k l ix
    using drop_bit_nz [OF that, of 10] by (auto simp: rp_encode_def Let_def fp16_simps rp_overflow_def add.commute [of 25 l])
  define pos where "pos = bit_length mp - 1 + ep"
  show ?thesis
  proof (cases "pos \<ge> - 14")
    case True
    then have l: "lsb = pos - 10" "lsb - ep = bit_length mp - 11" using lsb by (simp_all add: pos_def)
    have "2 ^ 10 \<le> kept"
    proof (cases "pos = - 14")
      case True
      then have "rp_align mp ep FP16 = (kept, rb, st, lsb)" "lsb = ep + bit_length mp - 1 - 10" using al l by (simp_all add: pos_def)
      then show ?thesis
      proof (cases "0 < lsb - ep")
        case True
        then have "kept = mp div 2 ^ nat (lsb - ep)" using al lsb by (auto simp: rp_align_def Let_def fp16_simps shr_eq split: if_splits)
        moreover have "2 ^ nat (bit_length mp - 1) \<le> mp" by (rule bit_length_le [OF assms])
        moreover have "nat (bit_length mp - 1) = 10 + nat (lsb - ep)" using True l by simp
        ultimately show ?thesis
          using div_pow_ge [of 1024] by (simp add: power_add)
      next
        case False
        then have "kept = mp * 2 ^ nat (ep - lsb)" using al lsb by (auto simp: rp_align_def Let_def fp16_simps shl_eq split: if_splits)
        moreover have "2 ^ nat (bit_length mp - 1) * 2 ^ nat (ep - lsb) \<le> mp * 2 ^ nat (ep - lsb)"
          by (intro mult_right_mono bit_length_le [OF assms]) simp
        moreover have "nat (bit_length mp - 1) + nat (ep - lsb) = 10" using False l bit_length_pos [OF assms] by simp
        ultimately show ?thesis by (simp add: power_add [symmetric])
      qed
    next
      case False
      then show ?thesis using kp(4) l True by (simp add: pos_def)
    qed
    then have "2 ^ 10 \<le> m" by (simp add: m_def)
    moreover have "drop_bit 11 m \<noteq> 0 \<longleftrightarrow> m = 2 ^ 11" using drop_bit_nz [OF m(1), of 11] m(2) by auto
    moreover have rne': "rshift_rne mp (bit_length mp - 11) = m" using rne l(2) by simp
    ultimately show ?thesis
      using True m unfolding fp16_pack_def Let_def pos_def [symmetric] rp rne' l(1)
      by (cases "m = 2 ^ 11") (simp_all add: enc drop_bit_eq_div add.commute [of _ pos])
  next
    case False
    then have k: "lsb = - 24" "kept < 2 ^ 10" using subnormal_kept [OF assms al] by (simp_all add: pos_def)
    then have "m \<le> 2 ^ 10" by (auto simp: m_def)
    moreover have "- (ep + 24) = lsb - ep" using k(1) by simp
    then have rne': "rshift_rne mp (- (ep + 24)) = m" using rne by (simp only:)
    ultimately show ?thesis
      using False m unfolding fp16_pack_def Let_def pos_def [symmetric] rp rne' k(1) by (auto simp: enc)
  qed
qed

lemma decode_fp16:
  "decode x FP16 =
    (let s = drop_bit 15 x AND 1; e = drop_bit 10 x AND 0x1F; f = x AND 0x3FF in
     if e = 31 then (if f = 0 then (KInf, s, 0, 0) else (if drop_bit 9 f AND 1 = 0 then KSnan else KNan, s, 0, 0))
     else if e = 0 then (if f = 0 then (KZero, s, 0, - 24) else (KFin, s, f, - 24))
     else (KFin, s, f OR 0x400, e - 15 - 10))"
  by (simp add: decode_def fp16_simps Let_def push_bit_eq_mult)

lemma or_pos: "0 \<le> (x :: int) \<Longrightarrow> 0 < y \<Longrightarrow> 0 < x OR y"
  by (smt (verit) OR_lower or_eq_0_iff or_nonnegative_int_iff)

lemma fp16_mul_eq: "fp16_mul a b = fst (fp_mul a b RM_RNE FP16)"
proof -
  define sa ea fa sb eb fb where
    d: "sa = drop_bit 15 a AND 1" "ea = drop_bit 10 a AND 0x1F" "fa = a AND 0x3FF"
       "sb = drop_bit 15 b AND 1" "eb = drop_bit 10 b AND 0x1F" "fb = b AND 0x3FF"
  have nn: "0 \<le> fa" "0 \<le> fb" by (simp_all add: d)
  have p: "0 < (fa OR (if ea \<noteq> 0 then 0x400 else 0)) * (fb OR (if eb \<noteq> 0 then 0x400 else 0))"
    if "\<not> (ea = 0 \<and> fa = 0)" "\<not> (eb = 0 \<and> fb = 0)"
    using that nn or_pos [of fa 1024] or_pos [of fb 1024] by (auto intro!: mult_pos_pos)
  show ?thesis
    unfolding fp16_mul_def fp_mul_def decode_fp16 d [symmetric] Let_def
    using fp16_pack_round [OF p] by (auto simp: is_nan_kind_def fp16_simps)
qed

section \<open>The FP8 multiplier\<close>

lemma pack32_normal:
  assumes "0 \<le> s" "s \<le> 1" "1 \<le> E" "E \<le> 254" "0 \<le> f" "f < 2 ^ 23"
  defines "r \<equiv> push_bit 31 s OR push_bit 23 E OR f"
  shows "fp_finite FP32 r" "fp_val FP32 r = sgn_rat s * mag (f + 2 ^ 23) (E - 150)" "0 \<le> r" "r < 2 ^ 32"
proof -
  have r: "r = fp32.pk s E f" by (simp add: r_def fp32.pk_def)
  note k = fp32.pk_fields [of s E f, folded r]
  have "decode r FP32 = (KFin, s, f + 2 ^ 23, E - 150)"
    unfolding FP32_eq using fp32.decode_fields [of r, OF k(1-3)] assms by simp
  then show "fp_finite FP32 r" "fp_val FP32 r = sgn_rat s * mag (f + 2 ^ 23) (E - 150)"
    by (simp_all add: fp_finite_def fp_kind_of_def fp_val_def)
  show "0 \<le> r" "r < 2 ^ 32" using k(5) assms by simp_all
qed

text \<open>The exact value of an \<open>FP8\<close> code, and which codes are finite.\<close>

definition fp8_val :: "int \<Rightarrow> int \<Rightarrow> rat" where
  "fp8_val fmt a = (case fp8_fields fmt a of (e, f, _) \<Rightarrow>
     sgn_rat (drop_bit 7 a AND 1) * mag ((if e = 0 then 0 else 8) + f) ((if e = 0 then 1 else e) - fp8_bias fmt - 3))"

definition fp8_finite :: "int \<Rightarrow> int \<Rightarrow> bool" where
  "fp8_finite fmt a \<longleftrightarrow> \<not> snd (snd (fp8_fields fmt a))"

lemma fp8_fields_range:
  assumes "fp8_fields fmt a = (e, f, nf)" "\<not> nf"
  shows "0 \<le> e" "e \<le> 2 * fp8_bias fmt + 1" "0 \<le> f" "f \<le> 7"
proof -
  have "take_bit 5 (drop_bit 2 a) < 2 ^ 5" "take_bit 4 (drop_bit 3 a) < 2 ^ 4" "take_bit 2 a < 2 ^ 2" "take_bit 3 a < 2 ^ 3"
    by (rule take_bit_lt)+
  then show "0 \<le> e" "e \<le> 2 * fp8_bias fmt + 1" "0 \<le> f" "f \<le> 7"
    using assms by (auto simp: fp8_fields_def fp8_bias_def Let_def mask_simps push_bit_eq_mult split: if_splits)
qed

lemma or_eight: "0 \<le> f \<Longrightarrow> f \<le> 7 \<Longrightarrow> push_bit 3 (if d then 0 else 1) OR f = (if d then 0 else 8) + (f :: int)"
proof -
  assume "0 \<le> f" "f \<le> 7"
  then have "f \<in> {0, 1, 2, 3, 4, 5, 6, 7}" by auto
  then show ?thesis by (cases d) auto
qed

lemma fp8_mul_exact:
  assumes "fp8_finite fmt a" "fp8_finite fmt b"
  defines "r \<equiv> fp8_mul_to_fp32 a b fmt"
  shows "fp_finite FP32 r \<and> fp_val FP32 r = fp8_val fmt a * fp8_val fmt b \<and> 0 \<le> r \<and> r < 2 ^ 32"
proof -
  obtain ea fa where a: "fp8_fields fmt a = (ea, fa, False)" using assms(1) by (metis fp8_finite_def prod_cases3 snd_conv)
  obtain eb fb where b: "fp8_fields fmt b = (eb, fb, False)" using assms(2) by (metis fp8_finite_def prod_cases3 snd_conv)
  note ra = fp8_fields_range [OF a] and rb = fp8_fields_range [OF b]
  define s where "s = (drop_bit 7 a XOR drop_bit 7 b) AND 1"
  have s: "0 \<le> s" "s \<le> 1" by (simp_all add: s_def and_one_eq)
  have sg: "sgn_rat s = sgn_rat (drop_bit 7 a AND 1) * sgn_rat (drop_bit 7 b AND 1)"
  proof -
    have "s = (drop_bit 7 a AND 1) XOR (drop_bit 7 b AND 1)" unfolding s_def by (rule bit_eqI) (auto simp: bit_simps)
    moreover have "x AND 1 = 0 \<or> x AND 1 = 1" for x :: int unfolding and_one_eq by presburger
    ultimately show ?thesis using fp32.xor_bit by metis
  qed
  define ma mb where "ma = (if ea = 0 then 0 else 8) + fa" and "mb = (if eb = 0 then 0 else 8) + fb"
  have m: "push_bit 3 (if ea = 0 then 0 else 1) OR fa = ma" "push_bit 3 (if eb = 0 then 0 else 1) OR fb = mb"
    using ra rb by (simp_all add: ma_def mb_def or_eight)
  define xa xb where "xa = (if ea = 0 then 1 else ea) - fp8_bias fmt" and "xb = (if eb = 0 then 1 else eb) - fp8_bias fmt"
  have v: "fp8_val fmt a * fp8_val fmt b = sgn_rat s * mag (ma * mb) (xa + xb - 6)"
  proof -
    have "fp8_val fmt a = sgn_rat (drop_bit 7 a AND 1) * mag ma (xa - 3)"
      "fp8_val fmt b = sgn_rat (drop_bit 7 b AND 1) * mag mb (xb - 3)"
      by (simp_all add: fp8_val_def a b ma_def mb_def xa_def xb_def)
    moreover have "mag (ma * mb) (xa + xb - 6) = mag ma (xa - 3) * mag mb (xb - 3)"
      using fp32.mag_mult [of ma mb "xa - 3" "xb - 3"] by (simp add: algebra_simps)
    ultimately show ?thesis by (simp add: sg)
  qed
  have z: "ea = 0 \<and> fa = 0 \<longleftrightarrow> ma = 0" "eb = 0 \<and> fb = 0 \<longleftrightarrow> mb = 0" using ra rb by (auto simp: ma_def mb_def)
  show ?thesis
  proof (cases "ma * mb = 0")
    case True
    then have "r = push_bit 31 s"
      unfolding r_def fp8_mul_to_fp32_def a b prod.case Let_def s_def [symmetric] m using z by auto
    moreover have "fp_finite FP32 (push_bit 31 s) \<and> fp_val FP32 (push_bit 31 s) = 0 \<and>
        0 \<le> (push_bit 31 s :: int) \<and> push_bit 31 s < (2 ^ 32 :: int)"
      using s fp32.decode_special(2) [of s] by (auto simp: FP32_eq fp_zero_def fp_finite_def fp_kind_of_def fp_val_def push_bit_eq_mult)
    ultimately show ?thesis using v True by simp
  next
    case False
    have r15: "0 \<le> ma" "ma \<le> 15" "0 \<le> mb" "mb \<le> 15" using ra rb by (auto simp: ma_def mb_def)
    define P where "P = ma * mb"
    have "P \<le> 15 * 15" unfolding P_def using r15 by (intro mult_mono) auto
    moreover have "0 < P" using False r15 unfolding P_def by (simp add: less_le)
    ultimately have P: "0 < P" "P < 2 ^ 8" by simp_all
    define p where "p = nat (bit_length P - 1)"
    have bl: "bit_length P = int (Suc p)" using bit_length_pos [OF P(1)] by (simp add: p_def)
    have pb: "2 ^ p \<le> P" "P < 2 ^ Suc p" using bit_length_bounds [OF P(1) bl] .
    then have "(2 :: int) ^ p < 2 ^ 8" using P by linarith
    then have p8: "p < 8" using power_less_imp_less_exp [of "2 :: int" p 8] by simp
    define E where "E = xa + xb - 6 + int p + 127"
    have "fp8_bias fmt = 15 \<or> fp8_bias fmt = 7" by (simp add: fp8_bias_def)
    then have E: "1 \<le> E" "E \<le> 254" using ra rb p8 by (auto simp: E_def xa_def xb_def)
    have Em: "E AND 0xFF = E" using E by (simp add: mask_simps take_bit_id)
    define M where "M = P * 2 ^ (23 - p)"
    have pw: "(2 :: int) ^ p * 2 ^ (23 - p) = 2 ^ 23" "(2 :: int) ^ Suc p * 2 ^ (23 - p) = 2 ^ 24"
      using p8 unfolding power_add [symmetric] by simp_all
    have M: "2 ^ 23 \<le> M" "M < 2 ^ 24"
      unfolding M_def using pb pw by (metis mult_right_mono zero_le_numeral zero_le_power, metis mult_strict_right_mono zero_less_numeral zero_less_power)
    have Mf: "shl P (23 - (bit_length P - 1)) AND 0x7FFFFF = M - 2 ^ 23"
    proof -
      have "nat (23 - (bit_length P - 1)) = 23 - p" using bl p8 by simp
      then have "shl P (23 - (bit_length P - 1)) = M" by (simp add: shl_eq M_def)
      moreover have "M mod 2 ^ 23 = (M - 2 ^ 23) mod 2 ^ 23" by (simp add: minus_mod_self2)
      moreover have "(M - 2 ^ 23) mod 2 ^ 23 = M - 2 ^ 23" using M by (intro mod_pos_pos_trivial) simp_all
      ultimately show ?thesis by (simp add: mask_simps take_bit_eq_mod)
    qed
    have Ee: "xa + xb - 6 + (bit_length P - 1) + 127 = E" by (simp add: E_def bl)
    have "r = push_bit 31 s OR push_bit 23 E OR (M - 2 ^ 23)"
      unfolding r_def fp8_mul_to_fp32_def a b prod.case Let_def s_def [symmetric] m z P_def [symmetric]
        xa_def [symmetric] xb_def [symmetric] Mf Ee Em
      using False P by (auto simp: P_def)
    moreover have "mag M (E - 150) = mag (ma * mb) (xa + xb - 6)"
    proof -
      have "mag P (xa + xb - 6) = mag (P * 2 ^ nat (xa + xb - 6 - (E - 150))) (E - 150)"
        by (rule mag_shift) (use p8 in \<open>simp add: E_def\<close>)
      moreover have "nat (xa + xb - 6 - (E - 150)) = 23 - p" by (simp add: E_def)
      ultimately show ?thesis by (simp add: M_def P_def)
    qed
    ultimately show ?thesis using pack32_normal [OF s E, of "M - 2 ^ 23"] M v by simp
  qed
qed

section \<open>The accumulator adder\<close>

text \<open>Significand and exponent field of an operand, and its value with denormals flushed.\<close>

definition ftz_sig :: "int \<Rightarrow> int" where
  "ftz_sig x = (if drop_bit 23 x AND 0xFF = 0 then 0 else push_bit 23 1 OR (x AND 0x7FFFFF))"

definition exp_field :: "int \<Rightarrow> int" where
  "exp_field x = drop_bit 23 x AND 0xFF"

definition ftz_val :: "int \<Rightarrow> rat" where
  "ftz_val x = sgn_rat (drop_bit 31 x AND 1) * mag (ftz_sig x) (exp_field x - 150)"

definition add_align :: "int \<Rightarrow> int \<Rightarrow> int" where
  "add_align x E = shr (ftz_sig x) (min (E - exp_field x) 63)"

definition add_norm :: "int \<Rightarrow> int \<Rightarrow> int \<Rightarrow> int" where
  "add_norm sr E s =
    (let msb = bit_length s - 1; shift = min (if msb \<le> 23 then 23 - msb else 0) 23
     in push_bit 31 sr OR push_bit 23 ((E - shift) AND 0xFF) OR ((shl s shift AND (push_bit 25 1 - 1)) AND 0x7FFFFF))"

definition add_same :: "int \<Rightarrow> int \<Rightarrow> int \<Rightarrow> int" where
  "add_same sr E s =
    (if drop_bit 24 s \<noteq> 0 then push_bit 31 sr OR push_bit 23 ((E + 1) AND 0xFF) OR (drop_bit 1 s AND 0x7FFFFF)
     else push_bit 31 sr OR push_bit 23 E OR (s AND 0x7FFFFF))"

lemma fp32_add_symmetric:
  "fp32_add a b =
    (let E = max (exp_field a) (exp_field b); A = add_align a E; B = add_align b E;
         sa = drop_bit 31 a AND 1; sb = drop_bit 31 b AND 1
     in if a = 0 then b else if b = 0 then a
        else if sa = sb then add_same sa E (A + B)
        else if A = B then 0
        else if A > B then add_norm sa E (A - B) else add_norm sb E (B - A))"
proof -
  have s0: "shr x 0 = x" for x by (simp add: shr_def)
  define ea eb ma mb where "ea = drop_bit 23 a AND 0xFF" and "eb = drop_bit 23 b AND 0xFF"
    and "ma = ftz_sig a" and "mb = ftz_sig b"
  have mi: "(if (23 :: int) < t then 23 else t) = min t 23" for t by (simp add: min_def)
  note f = ftz_sig_def [of a, folded ea_def, folded ma_def, symmetric] ftz_sig_def [of b, folded eb_def, folded mb_def, symmetric]
  have d: "x - y = 0 \<longleftrightarrow> x = y" for x y :: int by simp
  define A B where "A = shr ma (min (max ea eb - ea) 63)" and "B = shr mb (min (max ea eb - eb) 63)"
  have al: "(if ea > eb then (ma, shr mb (min (ea - eb) 63), ea, sa) else (shr ma (min (eb - ea) 63), mb, eb, sb)) =
      (A, B, max ea eb, if ea > eb then sa else sb)" for sa sb :: int
    by (auto simp: A_def B_def s0 max_def)
  show ?thesis
    unfolding fp32_add_def Let_def exp_field_def add_align_def ma_def [symmetric] mb_def [symmetric] f
      ea_def [symmetric] eb_def [symmetric] al A_def [symmetric] B_def [symmetric] prod.case mi
    by (cases "a = 0"; cases "b = 0"; cases "drop_bit 31 a AND 1 = drop_bit 31 b AND 1"; cases "A = B"; cases "A > B";
        cases "drop_bit 24 (A + B) = 0")
      (simp_all only: add_same_def add_norm_def Let_def prod.case if_True if_False simp_thms if_cancel d eq_commute [of B A])
qed

lemma fp32_add_comm: "fp32_add a b = fp32_add b a"
  unfolding fp32_add_symmetric Let_def by (auto simp: max.commute add.commute)

lemma ftz_sig_range: "0 \<le> ftz_sig x" "ftz_sig x < 2 ^ 24" "exp_field x \<noteq> 0 \<Longrightarrow> 2 ^ 23 \<le> ftz_sig x"
    "exp_field x = 0 \<Longrightarrow> ftz_sig x = 0"
proof -
  have f: "x AND 0x7FFFFF = take_bit 23 x" by (simp add: mask_simps)
  then have "push_bit 23 1 OR (x AND 0x7FFFFF) = take_bit 23 x + 2 ^ 23"
    using fp32.or_hidden [of "take_bit 23 x"] take_bit_lt [of 23 x] by (simp add: or.commute)
  then have e: "ftz_sig x = (if exp_field x = 0 then 0 else take_bit 23 x + 2 ^ 23)"
    by (simp add: ftz_sig_def exp_field_def)
  have "take_bit 23 x < 2 ^ 23" "0 \<le> take_bit 23 x" by (rule take_bit_lt, simp)
  then show "0 \<le> ftz_sig x" "ftz_sig x < 2 ^ 24" "exp_field x \<noteq> 0 \<Longrightarrow> 2 ^ 23 \<le> ftz_sig x"
    "exp_field x = 0 \<Longrightarrow> ftz_sig x = 0"
    unfolding e by auto
qed

lemma exp_field_range: "0 \<le> exp_field x" "exp_field x < 256"
  using take_bit_lt [of 8 "drop_bit 23 x"] by (simp_all add: exp_field_def mask_simps)

lemma mag_floor:
  assumes "0 \<le> d"
  shows "\<exists>\<phi>. mag m (E - d) = (of_int (shr m d) + \<phi>) * 2 powi E \<and> 0 \<le> \<phi> \<and> \<phi> < 1 \<and> (d = 0 \<longrightarrow> \<phi> = 0)"
proof -
  define n where "n = nat d"
  define \<phi> :: rat where "\<phi> = of_int (m mod 2 ^ n) / 2 ^ n"
  have "m = shr m d * 2 ^ n + m mod 2 ^ n" by (simp only: shr_eq n_def div_mult_mod_eq)
  then have "(of_int m :: rat) = of_int (shr m d) * 2 ^ n + of_int (m mod 2 ^ n)"
    by (metis of_int_add of_int_mult of_int_numeral of_int_power)
  then have "of_int m = (of_int (shr m d) + \<phi>) * 2 ^ n" by (simp add: \<phi>_def field_simps)
  moreover have "(2 :: rat) powi E = 2 ^ n * 2 powi (E - d)" using powi2_diff [of "E - d" E] assms by (simp add: n_def)
  ultimately have "mag m (E - d) = (of_int (shr m d) + \<phi>) * 2 powi E" by (simp add: mag_def)
  moreover have "0 \<le> \<phi>" by (simp add: \<phi>_def)
  moreover have "(of_int (m mod 2 ^ n) :: rat) < of_int (2 ^ n)" by (simp only: of_int_less_iff) simp
  then have "\<phi> < 1" by (simp add: \<phi>_def)
  moreover have "d = 0 \<Longrightarrow> \<phi> = 0" by (simp add: \<phi>_def n_def)
  ultimately show ?thesis by blast
qed

lemma add_align_value:
  assumes "exp_field x \<le> E"
  shows "\<exists>\<phi>. mag (ftz_sig x) (exp_field x - 150) = (of_int (add_align x E) + \<phi>) * 2 powi (E - 150) \<and>
    0 \<le> \<phi> \<and> \<phi> < 1 \<and> (exp_field x = E \<longrightarrow> \<phi> = 0)"
proof -
  have "add_align x E = shr (ftz_sig x) (E - exp_field x)"
  proof (cases "E - exp_field x \<le> 63")
    case False
    have z: "y div 2 ^ n = 0" if "24 \<le> n" "0 \<le> y" "y < 2 ^ 24" for y :: int and n
      using that power_increasing [of 24 n "2 :: int"] by (intro div_pos_pos_trivial) simp_all
    show ?thesis
      using False z [of 63] z [of "nat (E - exp_field x)"] ftz_sig_range(1,2) [of x] by (simp add: add_align_def shr_eq)
  qed (simp add: add_align_def)
  then show ?thesis using mag_floor [of "E - exp_field x" "ftz_sig x" "E - 150"] assms
    by (simp add: eq_commute [of E "exp_field x"])
qed

lemma add_align_range:
  assumes "exp_field x \<le> E"
  shows "0 \<le> add_align x E" "add_align x E < 2 ^ 24" "exp_field x = E \<Longrightarrow> add_align x E = ftz_sig x"
proof -
  have d: "0 \<le> y div 2 ^ n" "y div 2 ^ n \<le> y" if "0 \<le> y" for y :: int and n
    using that by (simp_all add: pos_imp_zdiv_nonneg_iff zdiv_mono2 [of y 1 "2 ^ n", simplified])
  show "0 \<le> add_align x E" using d(1) ftz_sig_range(1) by (simp add: add_align_def shr_eq)
  have "add_align x E \<le> ftz_sig x" using d(2) ftz_sig_range(1) by (simp add: add_align_def shr_eq)
  then show "add_align x E < 2 ^ 24" using ftz_sig_range(2) [of x] by simp
  show "exp_field x = E \<Longrightarrow> add_align x E = ftz_sig x" by (simp add: add_align_def shr_eq)
qed

lemma ftz_val_normal:
  assumes "0 \<le> s" "s \<le> 1" "1 \<le> E" "E \<le> 254" "2 ^ 23 \<le> m" "m < 2 ^ 24"
  defines "r \<equiv> push_bit 31 s OR push_bit 23 E OR (m AND 0x7FFFFF)"
  shows "ftz_val r = sgn_rat s * mag m (E - 150)" "0 \<le> r" "r < 2 ^ 32"
proof -
  have "m mod 2 ^ 23 = (m - 2 ^ 23) mod 2 ^ 23" by (simp add: minus_mod_self2)
  moreover have "(m - 2 ^ 23) mod 2 ^ 23 = m - 2 ^ 23" using assms by (intro mod_pos_pos_trivial) simp_all
  ultimately have f: "m AND 0x7FFFFF = m - 2 ^ 23" by (simp add: mask_simps take_bit_eq_mod)
  have r: "r = fp32.pk s E (m - 2 ^ 23)" by (simp add: r_def f fp32.pk_def)
  have k: "drop_bit 31 r AND 1 = s" "drop_bit 23 r AND 255 = E" "r AND 0x7FFFFF = m - 2 ^ 23" "0 \<le> r \<and> r < 2 ^ 32"
    using fp32.pk_fields [of s E "m - 2 ^ 23", folded r] assms by (simp_all add: push_bit_eq_mult)
  have "ftz_sig r = m" using k(2,3) assms fp32.or_hidden [of "m - 2 ^ 23"] by (simp add: ftz_sig_def or.commute)
  then show "ftz_val r = sgn_rat s * mag m (E - 150)" using k(1,2) by (simp add: ftz_val_def exp_field_def)
  show "0 \<le> r" "r < 2 ^ 32" using k(4) by simp_all
qed

lemma add_same_spec:
  assumes "0 \<le> s" "s \<le> 1" "1 \<le> E" "E \<le> 253" "2 ^ 23 \<le> m" "m < 2 ^ 25"
  shows "\<exists>\<phi>. ftz_val (add_same s E m) = sgn_rat s * ((of_int m - \<phi>) * 2 powi (E - 150)) \<and> 0 \<le> \<phi> \<and> \<phi> \<le> 1 \<and>
    0 \<le> add_same s E m \<and> add_same s E m < 2 ^ 32"
proof (cases "m < 2 ^ 24")
  case True
  then have "add_same s E m = push_bit 31 s OR push_bit 23 E OR (m AND 0x7FFFFF)"
    using assms(5) by (simp add: add_same_def drop_bit_eq_div)
  then show ?thesis using ftz_val_normal [of s E m] assms True by (intro exI [of _ 0]) (simp add: mag_def)
next
  case False
  define h where "h = m div 2"
  have d: "drop_bit 24 m \<noteq> 0" using drop_bit_nz [of m 24] False assms(5) by simp
  have "(E + 1) AND 0xFF = E + 1" using assms by (simp add: mask_simps take_bit_id)
  then have a: "add_same s E m = push_bit 31 s OR push_bit 23 (E + 1) OR (h AND 0x7FFFFF)"
    using d by (simp add: add_same_def h_def drop_bit_eq_div)
  have h: "2 ^ 23 \<le> h" "h < 2 ^ 24" using False assms(6) by (simp_all add: h_def)
  have "m = 2 * h + m mod 2" by (simp add: h_def)
  then have "(of_int m :: rat) - of_int (m mod 2) = of_int (2 * h)" by linarith
  moreover have "mag h (E + 1 - 150) = of_int (2 * h) * 2 powi (E - 150)"
    using powi2_add [of "E - 150" 1] by (simp add: mag_def algebra_simps)
  ultimately have "mag h (E + 1 - 150) = (of_int m - of_int (m mod 2)) * 2 powi (E - 150)" by simp
  moreover have "0 \<le> (of_int (m mod 2) :: rat)" "(of_int (m mod 2) :: rat) \<le> 1" by simp_all
  ultimately show ?thesis
    using ftz_val_normal [of s "E + 1" h] a h assms by (intro exI [of _ "of_int (m mod 2)"]) simp
qed

lemma add_norm_spec:
  assumes "0 \<le> s" "s \<le> 1" "24 \<le> E" "E \<le> 253" "0 < m" "m < 2 ^ 24"
  shows "ftz_val (add_norm s E m) = sgn_rat s * mag m (E - 150)" "0 \<le> add_norm s E m" "add_norm s E m < 2 ^ 32"
proof -
  define p where "p = nat (bit_length m - 1)"
  have bl: "bit_length m = int (Suc p)" using bit_length_pos [OF assms(5)] by (simp add: p_def)
  have pb: "2 ^ p \<le> m" "m < 2 ^ Suc p" using bit_length_bounds [OF assms(5) bl] .
  then have "(2 :: int) ^ p < 2 ^ 24" using assms(6) by linarith
  then have p: "p < 24" using power_less_imp_less_exp [of "2 :: int" p 24] by simp
  have sh: "min (if bit_length m - 1 \<le> 23 then 23 - (bit_length m - 1) else 0) 23 = int (23 - p)" using bl p by simp
  define M where "M = m * 2 ^ (23 - p)"
  have pw: "(2 :: int) ^ p * 2 ^ (23 - p) = 2 ^ 23" "(2 :: int) ^ Suc p * 2 ^ (23 - p) = 2 ^ 24"
    using p unfolding power_add [symmetric] by simp_all
  have "2 ^ p * 2 ^ (23 - p) \<le> M" unfolding M_def by (rule mult_right_mono [OF pb(1)]) simp
  moreover have "M < 2 ^ Suc p * 2 ^ (23 - p)" unfolding M_def by (rule mult_strict_right_mono [OF pb(2)]) simp
  ultimately have M: "2 ^ 23 \<le> M" "M < 2 ^ 24" unfolding pw .
  have "M AND (push_bit 25 1 - 1) = M" unfolding and_mask_exp by (rule take_bit_id) (use M in simp_all)
  then have "shl m (int (23 - p)) AND (push_bit 25 1 - 1) = M" by (simp only: shl_eq M_def nat_int)
  moreover have "(E - int (23 - p)) AND 0xFF = E - int (23 - p)" using assms p by (simp add: mask_simps take_bit_id)
  ultimately have r: "add_norm s E m = push_bit 31 s OR push_bit 23 (E - int (23 - p)) OR (M AND 0x7FFFFF)"
    unfolding add_norm_def Let_def sh by simp
  have "mag m (E - 150) = mag M (E - int (23 - p) - 150)"
    using mag_shift [of "E - int (23 - p) - 150" "E - 150" m] by (simp add: M_def del: of_nat_diff)
  then show "ftz_val (add_norm s E m) = sgn_rat s * mag m (E - 150)" "0 \<le> add_norm s E m" "add_norm s E m < 2 ^ 32"
    unfolding r using ftz_val_normal [of s "E - int (23 - p)" M] assms M p by simp_all
qed

lemma fp32_add_close:
  assumes rng: "0 \<le> a" "a < 2 ^ 32" "0 \<le> b" "b < 2 ^ 32"
    and E: "E = max (exp_field a) (exp_field b)" "24 \<le> E" "E \<le> 253"
  shows "\<bar>ftz_val (fp32_add a b) - (ftz_val a + ftz_val b)\<bar> < 2 powi (E - 149) \<and>
    0 \<le> fp32_add a b \<and> fp32_add a b < 2 ^ 32"
proof (cases "a = 0 \<or> b = 0")
  case True
  have "ftz_val 0 = 0" by (simp add: ftz_val_def ftz_sig_def)
  then show ?thesis using True rng by (auto simp: fp32_add_def)
next
  case False
  define sa sb A B where "sa = drop_bit 31 a AND 1" and "sb = drop_bit 31 b AND 1" and "A = add_align a E" and "B = add_align b E"
  define u :: rat where "u = 2 powi (E - 150)"
  have u: "0 < u" "2 powi (E - 149) = 2 * u" using powi2_add [of "E - 150" 1] by (simp_all add: u_def)
  have le: "exp_field a \<le> E" "exp_field b \<le> E" "exp_field a = E \<or> exp_field b = E" using E(1) by auto
  obtain \<alpha> where \<alpha>: "ftz_val a = sgn_rat sa * ((of_int A + \<alpha>) * u)" "0 \<le> \<alpha>" "\<alpha> < 1" "exp_field a = E \<longrightarrow> \<alpha> = 0"
    using add_align_value [OF le(1)] by (auto simp: ftz_val_def u_def A_def sa_def)
  obtain \<beta> where \<beta>: "ftz_val b = sgn_rat sb * ((of_int B + \<beta>) * u)" "0 \<le> \<beta>" "\<beta> < 1" "exp_field b = E \<longrightarrow> \<beta> = 0"
    using add_align_value [OF le(2)] by (auto simp: ftz_val_def u_def B_def sb_def)
  have AB: "0 \<le> A" "A < 2 ^ 24" "0 \<le> B" "B < 2 ^ 24"
    using add_align_range(1,2) [OF le(1)] add_align_range(1,2) [OF le(2)] by (simp_all add: A_def B_def)
  have s01: "0 \<le> sa" "sa \<le> 1" "0 \<le> sb" "sb \<le> 1" by (simp_all add: sa_def sb_def and_one_eq)
  have close: "\<bar>sgn_rat s * (\<delta> * u)\<bar> < 2 * u" if "\<bar>\<delta>\<bar> < 2" for s \<delta>
    using that u(1) by (simp add: fp32.abs_sgn_rat) (simp add: abs_mult)
  have \<alpha>\<beta>: "\<alpha> + \<beta> < 1" "0 \<le> \<alpha> + \<beta>" "\<bar>\<alpha> - \<beta>\<bar> < 2" "\<bar>\<beta> - \<alpha>\<bar> < 2" using le(3) \<alpha>(2-4) \<beta>(2-4) by auto
  have r: "fp32_add a b = (if sa = sb then add_same sa E (A + B) else if A = B then 0
      else if A > B then add_norm sa E (A - B) else add_norm sb E (B - A))"
    unfolding fp32_add_symmetric Let_def E(1) [symmetric] using False by (simp add: A_def B_def sa_def sb_def)
  show ?thesis
  proof (cases "sa = sb")
    case True
    have "2 ^ 23 \<le> A \<or> 2 ^ 23 \<le> B"
      using le(3) E(2) add_align_range(3) [OF le(1)] add_align_range(3) [OF le(2)] ftz_sig_range(3) [of a] ftz_sig_range(3) [of b]
      by (auto simp: A_def B_def)
    then have AB': "2 ^ 23 \<le> A + B" "A + B < 2 ^ 25" using AB by auto
    have "1 \<le> E" using E(2) by simp
    from add_same_spec [OF s01(1,2) this E(3) AB']
    obtain \<phi> where \<phi>: "ftz_val (fp32_add a b) = sgn_rat sa * ((of_int (A + B) - \<phi>) * u)" "0 \<le> \<phi>" "\<phi> \<le> 1"
        "0 \<le> fp32_add a b \<and> fp32_add a b < 2 ^ 32"
      unfolding u_def using r True by auto
    have "ftz_val (fp32_add a b) - (ftz_val a + ftz_val b) = sgn_rat sa * ((- \<phi> - (\<alpha> + \<beta>)) * u)"
      unfolding \<phi>(1) \<alpha>(1) \<beta>(1) True [symmetric] by (simp add: algebra_simps)
    then show ?thesis using close [of "- \<phi> - (\<alpha> + \<beta>)" sa] \<phi> \<alpha>\<beta> u(2) by simp
  next
    case False
    then have sg: "sgn_rat sb = - sgn_rat sa" using s01 by (auto simp: sgn_rat_def)
    have "ftz_val (fp32_add a b) = sgn_rat sa * (of_int (A - B) * u) \<and> 0 \<le> fp32_add a b \<and> fp32_add a b < 2 ^ 32"
    proof (cases A B rule: linorder_cases)
      case less
      then show ?thesis using add_norm_spec [of sb E "B - A"] r False s01 E AB sg by (simp add: u_def mag_def algebra_simps)
    next
      case equal
      then show ?thesis using r False by (simp add: ftz_val_def ftz_sig_def)
    next
      case greater
      then show ?thesis using add_norm_spec [of sa E "A - B"] r False s01 E AB by (simp add: u_def mag_def)
    qed
    moreover have "sgn_rat sa * (of_int (A - B) * u) - (ftz_val a + ftz_val b) = sgn_rat sa * ((\<beta> - \<alpha>) * u)"
      unfolding \<alpha>(1) \<beta>(1) sg by (simp add: algebra_simps)
    ultimately show ?thesis using close [of "\<beta> - \<alpha>" sa] \<alpha>\<beta> u(2) by simp
  qed
qed

section \<open>Widths\<close>

lemma pack32_range:
  assumes "0 \<le> s" "s \<le> 1"
  shows "0 \<le> push_bit 31 s OR push_bit 23 (take_bit 8 E) OR take_bit 23 (f :: int)"
    "push_bit 31 s OR push_bit 23 (take_bit 8 E) OR take_bit 23 f < 2 ^ 32"
  using fp32.pk_fields(5) [of s "take_bit 8 E" "take_bit 23 f"] assms take_bit_lt [of 8 E] take_bit_lt [of 23 f]
  by (simp_all add: fp32.pk_def)

lemma sign_bit_range: "0 \<le> x AND 1" "x AND 1 \<le> (1 :: int)"
  by (simp_all add: and_one_eq)

lemma push31_range: "0 \<le> s \<Longrightarrow> s \<le> 1 \<Longrightarrow> 0 \<le> push_bit 31 s \<and> push_bit 31 s < (2 ^ 32 :: int)"
  by (simp add: push_bit_eq_mult)

lemma fp32_add_range:
  assumes "0 \<le> a" "a < 2 ^ 32" "0 \<le> b" "b < 2 ^ 32"
  shows "0 \<le> fp32_add a b \<and> fp32_add a b < 2 ^ 32"
proof -
  have E: "max (exp_field a) (exp_field b) = take_bit 8 (max (exp_field a) (exp_field b))"
    using exp_field_range [of a] exp_field_range [of b] by (intro take_bit_id [symmetric]) auto
  have same: "0 \<le> add_same s (max (exp_field a) (exp_field b)) m \<and> add_same s (max (exp_field a) (exp_field b)) m < 2 ^ 32"
    if "0 \<le> s" "s \<le> 1" for s m
    by (subst (1 2) E) (use pack32_range [OF that] in \<open>simp add: add_same_def mask_simps\<close>)
  have norm: "0 \<le> add_norm s e m \<and> add_norm s e m < 2 ^ 32" if "0 \<le> s" "s \<le> 1" for s e m
    using pack32_range [OF that] by (simp add: add_norm_def Let_def mask_simps del: push_bit_take_bit)
  show ?thesis
    unfolding fp32_add_symmetric Let_def using assms same norm sign_bit_range by simp
qed

lemma fp16_to_fp32_range: "0 \<le> fp16_to_fp32 h \<and> fp16_to_fp32 h < 2 ^ 32"
proof -
  have e: "take_bit 5 x + 112 = take_bit 8 (take_bit 5 x + 112)" for x :: int
    using take_bit_lt [of 5 x] by (intro take_bit_id [symmetric]) simp_all
  have f: "push_bit 13 (take_bit 10 x) = take_bit 23 (push_bit 13 x)" for x :: int
    by (rule bit_eqI) (auto simp: bit_simps)
  show ?thesis
    using pack32_range [OF sign_bit_range, of "drop_bit 15 h" "take_bit 5 (drop_bit 10 h) + 112" "push_bit 13 h"]
      push31_range [OF sign_bit_range, of "drop_bit 15 h"] e [of "drop_bit 10 h"]
    unfolding fp16_to_fp32_def Let_def mask_simps f by (simp add: mask_simps)
qed

lemma fp8_mul_range: "0 \<le> fp8_mul_to_fp32 a b fmt \<and> fp8_mul_to_fp32 a b fmt < 2 ^ 32"
proof -
  define s where "s = (drop_bit 7 a XOR drop_bit 7 b) AND 1"
  have s: "0 \<le> s" "s \<le> 1" by (simp_all add: s_def and_one_eq)
  obtain ea fa na eb fb nb where f: "fp8_fields fmt a = (ea, fa, na)" "fp8_fields fmt b = (eb, fb, nb)" by (metis prod_cases3)
  have "fp8_mul_to_fp32 a b fmt = push_bit 31 s \<or>
      (\<exists>E f. fp8_mul_to_fp32 a b fmt = push_bit 31 s OR push_bit 23 (take_bit 8 E) OR take_bit 23 f)"
    unfolding fp8_mul_to_fp32_def f Let_def prod.case s_def [symmetric] mask_simps(7,11) by (auto split: if_split)
  then show ?thesis using pack32_range [OF s] push31_range [OF s] by auto
qed

section \<open>The array\<close>

definition lanes :: "int \<Rightarrow> int \<times> int" where
  "lanes x = (se (x AND 0xFF) 8, se (drop_bit 8 x AND 0xFF) 8)"

definition lane_dot :: "int \<Rightarrow> int \<Rightarrow> int" where
  "lane_dot x w = fst (lanes x) * fst (lanes w) + snd (lanes x) * snd (lanes w)"

lemma pe_product_int8: "pe_product x w 3 fmt = Inr (lane_dot x w mod 2 ^ 32)"
  by (simp add: pe_product_def lane_dot_def lanes_def Let_def mask_simps take_bit_eq_mod)

text \<open>The operands cover the loops: \<open>M\<close> rows of at least \<open>K\<close> lanes, \<open>K\<close> rows of at least \<open>N\<close>.\<close>

definition covers :: "'a list list \<Rightarrow> nat \<Rightarrow> nat \<Rightarrow> bool" where
  "covers A m n \<longleftrightarrow> m \<le> length A \<and> list_all (\<lambda>row. n \<le> length row) (take m A)"

lemma covers_row: "covers A m n \<Longrightarrow> i < m \<Longrightarrow> i < length A \<and> n \<le> length (A ! i)"
  by (auto simp: covers_def list_all_length)

lemma efold_total:
  assumes "\<And>x s. x \<in> set xs \<Longrightarrow> P s \<Longrightarrow> \<exists>s'. f x s = Inr s' \<and> P s'" "P s"
  shows "\<exists>s'. efold f xs s = Inr s' \<and> P s'"
  using assms by (induction xs arbitrary: s) (simp, fastforce)

lemma efold_map: "(\<And>x s. x \<in> set xs \<Longrightarrow> f x s = Inr (g x s)) \<Longrightarrow> efold f xs s = Inr (fold g xs s)"
  by (induction xs arbitrary: s) auto

lemma emap_map: "(\<And>x. x \<in> set xs \<Longrightarrow> f x = Inr (g x)) \<Longrightarrow> emap f xs = Inr (map g xs)"
  by (induction xs) auto

lemma fold_mod_sum:
  "fold (\<lambda>k acc. (acc + f k mod m) mod m) [0..<n] (0 :: int) = (\<Sum>k<n. f k) mod m" if "0 < m"
  using that by (induction n) (simp_all add: mod_simps)

lemma wmma_cell_step:
  assumes "i < length A" "k < length (A ! i)" "k < length B" "j < length (B ! k)"
  shows "(ebind (list_get A i) (\<lambda>arow. ebind (list_get arow k) (\<lambda>x. ebind (list_get B k) (\<lambda>brow. ebind (list_get brow j) (\<lambda>w.
      ebind (pe_product x w mode fmt) (\<lambda>p. Inr (acc_step mode acc p))))))) =
    ebind (pe_product (A ! i ! k) (B ! k ! j) mode fmt) (\<lambda>p. Inr (acc_step mode acc p))"
  using assms by (simp add: list_get_def)

lemma wmma_cell_int8:
  assumes "covers A m (nat K)" "covers B (nat K) n" "i < m" "j < n"
  shows "wmma_cell A B K 3 fmt i j = Inr ((\<Sum>k<nat K. lane_dot (A ! i ! k) (B ! k ! j)) mod 2 ^ 32)"
proof -
  have "wmma_cell A B K 3 fmt i j =
      Inr (fold (\<lambda>k acc. (acc + lane_dot (A ! i ! k) (B ! k ! j) mod 2 ^ 32) mod 2 ^ 32) [0..<nat K] 0)"
    unfolding wmma_cell_def
  proof (rule efold_map)
    fix k acc
    assume "k \<in> set [0..<nat K]"
    then have k: "i < length A" "k < length (A ! i)" "k < length B" "j < length (B ! k)"
      using covers_row [OF assms(1,3)] covers_row [OF assms(2), of k] assms(4) by auto
    show "ebind (list_get A i) (\<lambda>arow. ebind (list_get arow k) (\<lambda>x. ebind (list_get B k) (\<lambda>brow. ebind (list_get brow j) (\<lambda>w.
        ebind (pe_product x w 3 fmt) (\<lambda>p. Inr (acc_step 3 acc p)))))) =
      Inr ((acc + lane_dot (A ! i ! k) (B ! k ! j) mod 2 ^ 32) mod 2 ^ 32)"
      unfolding wmma_cell_step [OF k] unfolding pe_product_int8 by (simp add: acc_step_def mask_simps take_bit_eq_mod)
  qed
  then show ?thesis by (simp only: fold_mod_sum zero_less_power zero_less_numeral)
qed

lemma pe_product_range:
  "mode \<in> {0, 1, 3} \<Longrightarrow> \<exists>p. pe_product x w mode fmt = Inr p \<and> 0 \<le> p \<and> p < 2 ^ 32"
  "mode \<notin> {0, 1, 3} \<Longrightarrow> pe_product x w mode fmt = Inl ValueError"
  using fp16_to_fp32_range fp8_mul_range [of "x AND 0xFF" "w AND 0xFF" fmt] take_bit_lt [of 32]
  by (auto simp: pe_product_def Let_def mask_simps)

lemma acc_step_range:
  "0 \<le> acc \<Longrightarrow> acc < 2 ^ 32 \<Longrightarrow> 0 \<le> p \<Longrightarrow> p < 2 ^ 32 \<Longrightarrow> 0 \<le> acc_step mode acc p \<and> acc_step mode acc p < 2 ^ 32"
  using fp32_add_range take_bit_lt [of 32 "acc + p"] by (simp add: acc_step_def mask_simps)

lemma wmma_cell_word:
  assumes "covers A m (nat K)" "covers B (nat K) n" "i < m" "j < n" "mode \<in> {0, 1, 3}"
  shows "\<exists>r. wmma_cell A B K mode fmt i j = Inr r \<and> 0 \<le> r \<and> r < 2 ^ 32"
  unfolding wmma_cell_def
proof (rule efold_total [where P = "\<lambda>r. 0 \<le> r \<and> r < 2 ^ 32"])
  fix k :: nat and acc :: int
  assume "k \<in> set [0..<nat K]" and acc: "0 \<le> acc \<and> acc < 2 ^ 32"
  then have k: "i < length A" "k < length (A ! i)" "k < length B" "j < length (B ! k)"
    using covers_row [OF assms(1,3)] covers_row [OF assms(2), of k] assms(4) by auto
  show "\<exists>s'. ebind (list_get A i) (\<lambda>arow. ebind (list_get arow k) (\<lambda>x. ebind (list_get B k) (\<lambda>brow. ebind (list_get brow j) (\<lambda>w.
        ebind (pe_product x w mode fmt) (\<lambda>p. Inr (acc_step mode acc p)))))) = Inr s' \<and> 0 \<le> s' \<and> s' < 2 ^ 32"
    unfolding wmma_cell_step [OF k] using pe_product_range(1) [OF assms(5), of "A ! i ! k" "B ! k ! j" fmt] acc_step_range acc
    by fastforce
qed simp

lemma wmma_cell_unmodelled:
  assumes "covers A m (nat K)" "covers B (nat K) n" "i < m" "j < n" "mode \<notin> {0, 1, 3}" "0 < K"
  shows "wmma_cell A B K mode fmt i j = Inl ValueError"
proof -
  have up: "[0..<nat K] = 0 # [1..<nat K]" using assms(6) by (simp add: upt_conv_Cons)
  have k: "i < length A" "0 < length (A ! i)" "0 < length B" "j < length (B ! 0)"
    using covers_row [OF assms(1,3)] covers_row [OF assms(2), of 0] assms(4,6) by auto
  show ?thesis
    unfolding wmma_cell_def up efold.simps wmma_cell_step [OF k] unfolding pe_product_range(2) [OF assms(5)] by simp
qed

lemma wmma_golden_map:
  assumes "\<And>i j. i < nat M \<Longrightarrow> j < nat N \<Longrightarrow> wmma_cell A B K mode fmt i j = Inr (c i j)"
  shows "wmma_golden A B M N K mode fmt = Inr (map (\<lambda>i. map (c i) [0..<nat N]) [0..<nat M])"
  unfolding wmma_golden_def by (intro emap_map) (simp add: assms)

lemma widening_cases:
  "fp_finite FP32 (fp16_to_fp32 h) \<and>
   (case decode h FP16 of (k, s, m, c) \<Rightarrow>
      if finite_kind k then fp_val FP32 (fp16_to_fp32 h) = (if m < 2 ^ 10 then 0 else fp_val FP16 h)
      else 2 ^ 16 \<le> \<bar>fp_val FP32 (fp16_to_fp32 h)\<bar> \<and> \<bar>fp_val FP32 (fp16_to_fp32 h)\<bar> < 2 ^ 17)"
proof -
  define s e f where "s = drop_bit 15 h AND 1" and "e = drop_bit 10 h AND 0x1F" and "f = h AND 0x3FF"
  have s: "0 \<le> s" "s \<le> 1" by (simp_all add: s_def and_one_eq)
  have e: "0 \<le> e" "e < 2 ^ 5" and f: "0 \<le> f" "f < 2 ^ 10" using take_bit_lt [of 5] take_bit_lt [of 10] by (simp_all add: e_def f_def mask_simps)
  have or: "f OR 0x400 = f + 1024" using fp16.or_hidden [of f] f by (simp add: push_bit_eq_mult)
  note d = decode_fp16 [of h, folded s_def e_def f_def, unfolded Let_def or]
  have hz: "h AND 0x7FFF = 0 \<longleftrightarrow> e = 0 \<and> f = 0"
  proof -
    have "take_bit 15 h = push_bit 10 (take_bit 5 (drop_bit 10 h)) + take_bit 10 h"
      using bits_ident [of 10 "take_bit 15 h"] by (simp add: drop_bit_take_bit)
    then have "h AND 0x7FFF = e * 2 ^ 10 + f" by (simp add: mask_simps e_def f_def push_bit_eq_mult)
    then show ?thesis using e(1) f(1) by auto
  qed
  note w = fp16_to_fp32_def [of h, folded s_def e_def f_def, unfolded Let_def hz]
  have z: "fp_finite FP32 (push_bit 31 t) \<and> fp_val FP32 (push_bit 31 t) = 0" if "t = 0 \<or> t = 1" for t
    using that fp32.decode_special(2) [of t] by (auto simp: FP32_eq fp_zero_def fp_finite_def fp_kind_of_def fp_val_def)
  show ?thesis
  proof (cases "e = 0")
    case True
    then have "fp16_to_fp32 h = push_bit 31 (if f = 0 then s else 0)" using w by simp
    moreover have "(if f = 0 then s else 0) = 0 \<or> (if f = 0 then s else 0) = 1" using s by auto
    moreover have "decode h FP16 = (if f = 0 then KZero else KFin, s, f, - 24)" using d True by simp
    ultimately show ?thesis using z f by (simp add: finite_kind_def)
  next
    case False
    have "push_bit 13 f < 2 ^ 23" "0 \<le> push_bit 13 f" using f by (simp_all add: push_bit_eq_mult)
    then have r: "fp_finite FP32 (fp16_to_fp32 h)"
        "fp_val FP32 (fp16_to_fp32 h) = sgn_rat s * mag (push_bit 13 f + 2 ^ 23) (e + 112 - 150)"
      using pack32_normal [of s "e + 112" "push_bit 13 f"] s e False w by simp_all
    have "mag (f + 1024) (e - 25) = mag (push_bit 13 f + 2 ^ 23) (e + 112 - 150)"
      using mag_shift [of "e + 112 - 150" "e - 25" "f + 1024"] by (simp add: push_bit_eq_mult algebra_simps)
    then have v: "fp_val FP32 (fp16_to_fp32 h) = sgn_rat s * mag (f + 1024) (e - 25)" using r(2) by simp
    show ?thesis
    proof (cases "e = 31")
      case True
      have "mag (f + 1024) 6 = of_int ((f + 1024) * 64)" by (simp add: mag_def power_int_def)
      moreover have "(of_int (2 ^ 16) :: rat) \<le> of_int ((f + 1024) * 64)" "(of_int ((f + 1024) * 64) :: rat) < of_int (2 ^ 17)"
        unfolding of_int_le_iff of_int_less_iff using f by simp_all
      ultimately have "2 ^ 16 \<le> mag (f + 1024) 6" "mag (f + 1024) 6 < 2 ^ 17" by simp_all
      moreover have "\<bar>sgn_rat s * mag (f + 1024) 6\<bar> = mag (f + 1024) 6"
        using mag_nonneg [of "f + 1024" 6] f by (simp add: fp32.abs_sgn_rat)
      ultimately have "2 ^ 16 \<le> \<bar>fp_val FP32 (fp16_to_fp32 h)\<bar> \<and> \<bar>fp_val FP32 (fp16_to_fp32 h)\<bar> < 2 ^ 17"
        using v True by simp
      moreover have "decode h FP16 = (if f = 0 then KInf else if drop_bit 9 f AND 1 = 0 then KSnan else KNan, s, 0, 0)"
        using d True by simp
      then obtain k where "decode h FP16 = (k, s, 0, 0)" "\<not> finite_kind k" by (simp add: finite_kind_def)
      ultimately show ?thesis using r(1) by simp
    next
      case F: False
      then have dd: "decode h FP16 = (KFin, s, f + 1024, e - 25)" using d False by simp
      then have "fp_val FP16 h = sgn_rat s * mag (f + 1024) (e - 25)" by (simp add: fp_val_def)
      then show ?thesis using v r(1) f unfolding dd by (simp add: finite_kind_def)
    qed
  qed
qed

section \<open>Properties\<close>

text \<open>C23: the half-precision multiplier of the tensor core model is the IEEE-754 product rounded to
  nearest even, for every pair of operands, NaNs, infinities, subnormals and signed zeros included.\<close>

theorem fp16_mul_is_ieee: "fp16_mul a b = fst (fp_mul a b RM_RNE FP16)"
  by (rule fp16_mul_eq)

text \<open>The \<open>FP8\<close> multiplier is exact: the single-precision result of two finite codes has exactly
  the product of their values, in \<open>E4M3\<close> and in \<open>E5M2\<close>; a NaN or infinity gives a signed zero.\<close>

theorem fp8_product_exact:
  "if fp8_finite fmt a \<and> fp8_finite fmt b
   then fp_finite FP32 (fp8_mul_to_fp32 a b fmt) \<and>
     fp_val FP32 (fp8_mul_to_fp32 a b fmt) = fp8_val fmt a * fp8_val fmt b
   else fp8_mul_to_fp32 a b fmt = push_bit 31 ((drop_bit 7 a XOR drop_bit 7 b) AND 1)"
proof (cases "fp8_finite fmt a \<and> fp8_finite fmt b")
  case False
  obtain ea fa na eb fb nb where f: "fp8_fields fmt a = (ea, fa, na)" "fp8_fields fmt b = (eb, fb, nb)" by (metis prod_cases3)
  then have n: "na \<or> nb" using False by (simp add: fp8_finite_def)
  have "fp8_mul_to_fp32 a b fmt = push_bit 31 ((drop_bit 7 a XOR drop_bit 7 b) AND 1)"
    unfolding fp8_mul_to_fp32_def f Let_def prod.case by (rule if_P) (use n in blast)
  then show ?thesis using False by (simp only: if_False)
qed (simp add: fp8_mul_exact)

text \<open>C24: the accumulator adder is commutative, and away from the ends of the exponent range its
  result differs from the exact sum of its operands (subnormals counted as zero) by less than two
  units in the last place of the larger one.\<close>

theorem fp32_add_error:
  assumes "0 \<le> a" "a < 2 ^ 32" "0 \<le> b" "b < 2 ^ 32" "E = max (exp_field a) (exp_field b)" "24 \<le> E" "E \<le> 253"
  shows "\<bar>ftz_val (fp32_add a b) - (ftz_val a + ftz_val b)\<bar> < 2 powi (E - 149) \<and> fp32_add a b = fp32_add b a"
  using fp32_add_close [OF assms] fp32_add_comm [of a b] by blast

lemma fp32_add_error_witness:
  "\<bar>ftz_val (fp32_add 0x3F800001 0xB3800001) - (ftz_val 0x3F800001 + ftz_val 0xB3800001)\<bar> < 2 powi (127 - 149) \<and>
    fp32_add 0x3F800001 0xB3800001 = fp32_add 0xB3800001 0x3F800001"
  by (rule fp32_add_error) (simp_all add: exp_field_def)

text \<open>At the lower end the adder does not flush: cancelling the two smallest normal numbers wraps
  the exponent field and gives a number above \<open>2 ^ 100\<close>.\<close>

theorem fp32_add_underflow_wraps:
  "ftz_val 0x00800001 + ftz_val 0x80800000 = 2 powi (- 149) \<and> ftz_val (fp32_add 0x00800001 0x80800000) = 2 ^ 107"
  by code_simp

text \<open>The widening keeps the value of every normal half-precision number, flushes subnormals to
  zero, and makes infinities and NaNs finite numbers of magnitude from \<open>2 ^ 16\<close> up to \<open>2 ^ 17\<close>.\<close>

theorem fp16_widening:
  "fp_finite FP32 (fp16_to_fp32 h) \<and>
   (case decode h FP16 of (k, s, m, c) \<Rightarrow>
      if finite_kind k then fp_val FP32 (fp16_to_fp32 h) = (if m < 2 ^ 10 then 0 else fp_val FP16 h)
      else 2 ^ 16 \<le> \<bar>fp_val FP32 (fp16_to_fp32 h)\<bar> \<and> \<bar>fp_val FP32 (fp16_to_fp32 h)\<bar> < 2 ^ 17)"
  by (rule widening_cases)

text \<open>C25: in \<open>INT8\<close> mode the golden model is the matrix product of the signed lanes modulo \<open>2 ^ 32\<close>.\<close>

theorem wmma_int8_product:
  assumes "covers A (nat M) (nat K)" "covers B (nat K) (nat N)"
  shows "wmma_golden A B M N K 3 fmt =
    Inr (map (\<lambda>i. map (\<lambda>j. (\<Sum>k<nat K. lane_dot (A ! i ! k) (B ! k ! j)) mod 2 ^ 32) [0..<nat N]) [0..<nat M])"
  by (rule wmma_golden_map) (rule wmma_cell_int8 [OF assms])

lemma wmma_int8_product_witness:
  "wmma_golden [[0x01FF, 0x7F80]] [[0x0203], [0x8080]] 1 1 2 3 0 = Inr [[16384 - 16256 - 1]]"
proof -
  have "covers [[0x01FF, 0x7F80 :: int]] (nat 1) (nat 2)" "covers [[0x0203], [0x8080 :: int]] (nat 2) (nat 1)" by code_simp+
  from wmma_int8_product [OF this, of 0] show ?thesis
    by (simp add: lane_dot_def lanes_def se_def mask_simps take_bit_eq_mod drop_bit_eq_div numeral_2_eq_2)
qed

text \<open>\<open>wmma_golden\<close> on operands that cover the loops returns an \<open>M\<close> by \<open>N\<close> matrix of 32-bit words in
  every supported mode, and raises \<open>ValueError\<close> in any other.\<close>

theorem wmma_golden_words:
  assumes "covers A (nat M) (nat K)" "covers B (nat K) (nat N)" "0 < M" "0 < N" "0 < K"
  shows "if mode \<in> {0, 1, 3}
    then \<exists>C. wmma_golden A B M N K mode fmt = Inr C \<and> length C = nat M \<and>
      list_all (\<lambda>row. length row = nat N \<and> list_all (\<lambda>x. 0 \<le> x \<and> x < 2 ^ 32) row) C
    else wmma_golden A B M N K mode fmt = Inl ValueError"
proof (cases "mode \<in> {0, 1, 3}")
  case True
  define c where "c i j = projr (wmma_cell A B K mode fmt i j)" for i j
  have c: "wmma_cell A B K mode fmt i j = Inr (c i j)" "0 \<le> c i j" "c i j < 2 ^ 32" if "i < nat M" "j < nat N" for i j
    using wmma_cell_word [OF assms(1,2) that True, of fmt] by (auto simp: c_def)
  show ?thesis using wmma_golden_map [of M N A B K mode fmt c, OF c(1)] c(2,3) True by (auto simp: list_all_iff)
next
  case False
  have up: "[0..<nat M] = 0 # [1..<nat M]" "[0..<nat N] = 0 # [1..<nat N]" using assms by (simp_all add: upt_conv_Cons)
  have "wmma_cell A B K mode fmt 0 0 = Inl ValueError"
    by (rule wmma_cell_unmodelled [OF assms(1,2) _ _ False assms(5)]) (use assms in simp_all)
  then show ?thesis using False unfolding wmma_golden_def up by simp
qed

lemma wmma_golden_words_witness:
  "\<exists>C. wmma_golden [[0x3C00]] [[0x4000]] 1 1 1 0 0 = Inr C \<and> length C = nat 1 \<and>
     list_all (\<lambda>row. length row = nat 1 \<and> list_all (\<lambda>x. 0 \<le> x \<and> x < 2 ^ 32) row) C"
proof -
  have "covers [[0x3C00 :: int]] (nat 1) (nat 1)" "covers [[0x4000 :: int]] (nat 1) (nat 1)" by code_simp+
  from wmma_golden_words [OF this, of 0 0] show ?thesis by simp
qed

end
