(* ===== verification/RtRef.thy ===== *)
theory RtRef
  imports Prelude
begin

text \<open>
  The golden model of the ray tracing hardware, \<^verbatim>\<open>tb/uvm/rt_ref.py\<close>: Q16.16 fixed-point
  arithmetic with its 32-bit wrap-around, the ray-triangle intersection with its Newton-Raphson
  reciprocal, the slab test of a ray against a box, the median-split BVH builder, the 384-bit encoding of its
  nodes and the stack traversal. A vector is a triple of integers, \<open>nodes\<close> a map from addresses,
  the loop of \<open>traverse\<close> runs on fuel and gives \<open>None\<close> when that runs out.
\<close>

section \<open>Fixed point\<close>

definition MASK32 :: int where "MASK32 = 0xFFFFFFFF"
definition FX_ONE :: int where "FX_ONE = push_bit 16 1"
definition NR_C1 :: int where "NR_C1 = 1515870810"
definition NR_C2 :: int where "NR_C2 = 505290270"
definition STACK_DEPTH :: nat where "STACK_DEPTH = 32"

definition se32 :: "int \<Rightarrow> int" where
  "se32 x = (let x = x AND MASK32 in if x AND 0x80000000 \<noteq> 0 then x - push_bit 32 1 else x)"

definition fx_mul :: "int \<Rightarrow> int \<Rightarrow> int" where
  "fx_mul a b = se32 (drop_bit 16 (a * b))"

definition fx_inv_dir :: "int \<Rightarrow> int" where
  "fx_inv_dir d =
    (if d = 0 then 0x7FFFFFFF
     else if d > 0 then (let r = push_bit 32 1 div d in min r 0x7FFFFFFF)
     else (let r = push_bit 32 1 div (- d) in - min r 0x7FFFFFFF))"

definition clz32 :: "int \<Rightarrow> int" where
  "clz32 x =
    (let x = x AND MASK32 in
     if x = 0 then 32
     else
       (case find (\<lambda>i. x AND push_bit i 1 \<noteq> 0) (rev [0..<32]) of
          Some i \<Rightarrow> 31 - int i
        | None \<Rightarrow> 32))"

section \<open>Ray against triangle\<close>

type_synonym vec = "int \<times> int \<times> int"

fun vsub :: "vec \<Rightarrow> vec \<Rightarrow> vec" where
  "vsub (a0, a1, a2) (b0, b1, b2) = (se32 (a0 - b0), se32 (a1 - b1), se32 (a2 - b2))"

fun fx_cross :: "vec \<Rightarrow> vec \<Rightarrow> vec" where
  "fx_cross (a0, a1, a2) (b0, b1, b2) =
    (se32 (fx_mul a1 b2 - fx_mul a2 b1), se32 (fx_mul a2 b0 - fx_mul a0 b2), se32 (fx_mul a0 b1 - fx_mul a1 b0))"

fun fx_dot :: "vec \<Rightarrow> vec \<Rightarrow> int" where
  "fx_dot (a0, a1, a2) (b0, b1, b2) = se32 (fx_mul a0 b0 + fx_mul a1 b1 + fx_mul a2 b2)"

text \<open>Determinant and the numerators of \<open>u\<close>, \<open>v\<close> and \<open>t\<close>, then their sign normalisation.\<close>

definition tri_numerators :: "vec \<Rightarrow> vec \<Rightarrow> vec \<Rightarrow> vec \<Rightarrow> vec \<Rightarrow> int \<times> int \<times> int \<times> int" where
  "tri_numerators ro d v0 v1 v2 =
    (let e1 = vsub v1 v0; e2 = vsub v2 v0; s = vsub ro v0;
         h = fx_cross d e2;
         det = fx_dot e1 h; unum = fx_dot s h;
         q = fx_cross s e1;
         vnum = fx_dot d q; tnum = fx_dot e2 q
     in (det, unum, vnum, tnum))"

definition tri_normalise :: "int \<times> int \<times> int \<times> int \<Rightarrow> int \<times> int \<times> int \<times> int" where
  "tri_normalise x = (case x of (det, unum, vnum, tnum) \<Rightarrow>
     if det < 0 then (se32 (- det), se32 (- unum), se32 (- vnum), se32 (- tnum)) else (det, unum, vnum, tnum))"

text \<open>One Newton-Raphson step for the reciprocal of \<open>m\<close>, and the reciprocal itself.\<close>

definition nr_step :: "int \<Rightarrow> int \<Rightarrow> int" where
  "nr_step m r =
    (let p = drop_bit 31 (m * r) AND MASK32
     in drop_bit 30 (r * ((0x80000000 - p) AND MASK32)) AND MASK32)"

definition nr_seed :: "int \<Rightarrow> int" where
  "nr_seed m = (NR_C1 - drop_bit 31 (NR_C2 * m)) AND MASK32"

definition recip32 :: "int \<Rightarrow> int" where
  "recip32 n_det_u =
    (let k = clz32 n_det_u;
         m = (if n_det_u \<noteq> 0 then shl n_det_u k AND MASK32 else 0x80000000);
         k = (if n_det_u = 0 then 0 else k);
         r = nr_step m (nr_step m (nr_step m (nr_seed m)));
         recip_wide = drop_bit 29 (shl r k)
     in if recip_wide > MASK32 then MASK32 else recip_wide)"

definition tri_out :: "int \<Rightarrow> int \<Rightarrow> int" where
  "tri_out recip num_u =
    (let w = drop_bit 16 (num_u * recip) in if w \<ge> push_bit 31 1 then 0x7FFFFFFF else w)"

definition tri_isect :: "vec \<Rightarrow> vec \<Rightarrow> vec \<Rightarrow> vec \<Rightarrow> vec \<Rightarrow> bool \<times> int \<times> int \<times> int" where
  "tri_isect ro d v0 v1 v2 =
    (let (det, unum, vnum, tnum) = tri_numerators ro d v0 v1 v2;
         (n_det, n_unum, n_vnum, n_tnum) = tri_normalise (det, unum, vnum, tnum);
         n_det_u = n_det AND MASK32;
         hit = (det \<noteq> 0 \<and> n_unum \<ge> 0 \<and> n_vnum \<ge> 0 \<and> n_unum + n_vnum \<le> n_det_u \<and> n_tnum > 0)
     in if \<not> hit then (False, 0, 0, 0)
        else
          (let recip = recip32 n_det_u
           in (True, tri_out recip (n_tnum AND MASK32), tri_out recip (n_unum AND MASK32),
               tri_out recip (n_vnum AND MASK32))))"

section \<open>Ray against box\<close>

definition slab :: "int \<Rightarrow> int \<Rightarrow> int \<Rightarrow> int \<Rightarrow> int \<times> int" where
  "slab o1 inv1 bmin1 bmax1 =
    (let t1 = fx_mul (se32 (bmin1 - o1)) inv1; t2 = fx_mul (se32 (bmax1 - o1)) inv1
     in (min t1 t2, max t1 t2))"

fun box_isect :: "vec \<Rightarrow> vec \<Rightarrow> int \<Rightarrow> vec \<Rightarrow> vec \<Rightarrow> bool \<times> int" where
  "box_isect (o0, o1, o2) (i0, i1, i2) t_max (l0, l1, l2) (h0, h1, h2) =
    (let (a0, b0) = slab o0 i0 l0 h0; (a1, b1) = slab o1 i1 l1 h1; (a2, b2) = slab o2 i2 l2 h2;
         lo = max (max a0 a1) a2; hi = min (min b0 b1) b2;
         hit = (lo \<le> hi \<and> hi \<ge> 0 \<and> lo \<le> t_max)
     in (hit, lo))"

section \<open>The bounding volume hierarchy\<close>

record bvh_node =
  n_leaf :: bool
  n_left :: int
  n_right :: int
  n_bmin :: vec
  n_bmax :: vec
  n_tri_id :: int
  n_verts :: "(vec \<times> vec \<times> vec) option"

definition new_node :: bvh_node where
  "new_node = \<lparr>n_leaf = False, n_left = 0, n_right = 0, n_bmin = (0, 0, 0), n_bmax = (0, 0, 0),
     n_tri_id = 0, n_verts = None\<rparr>"

type_synonym tri = "int \<times> vec \<times> vec \<times> vec"

fun vmin :: "vec \<Rightarrow> vec \<Rightarrow> vec" where
  "vmin (a0, a1, a2) (b0, b1, b2) = (min a0 b0, min a1 b1, min a2 b2)"

fun vmax :: "vec \<Rightarrow> vec \<Rightarrow> vec" where
  "vmax (a0, a1, a2) (b0, b1, b2) = (max a0 b0, max a1 b1, max a2 b2)"

fun tri_bounds :: "tri \<Rightarrow> vec \<times> vec" where
  "tri_bounds (_, v0, v1, v2) = (vmin (vmin v0 v1) v2, vmax (vmax v0 v1) v2)"

definition list_bounds :: "tri list \<Rightarrow> vec \<times> vec" where
  "list_bounds items =
    (let bounds = map tri_bounds items
     in (fold (\<lambda>b a. vmin a (fst b)) (drop 1 bounds) (fst (bounds ! 0)),
         fold (\<lambda>b a. vmax a (snd b)) (drop 1 bounds) (snd (bounds ! 0))))"

text \<open>The widest axis, the first one when several are, and a triangle's centroid along it.\<close>

fun widest_axis :: "vec \<Rightarrow> vec \<Rightarrow> nat" where
  "widest_axis (l0, l1, l2) (h0, h1, h2) =
    (let e0 = h0 - l0; e1 = h1 - l1; e2 = h2 - l2; m = max (max e0 e1) e2
     in if e0 = m then 0 else if e1 = m then 1 else 2)"

fun vnth :: "vec \<Rightarrow> nat \<Rightarrow> int" where
  "vnth (a0, a1, a2) i = (if i = 0 then a0 else if i = 1 then a1 else a2)"

fun centroid :: "nat \<Rightarrow> tri \<Rightarrow> int" where
  "centroid ax (_, v0, v1, v2) = vnth v0 ax + vnth v1 ax + vnth v2 ax"

function bvh_rec ::
    "tri list \<Rightarrow> int \<Rightarrow> (int \<rightharpoonup> bvh_node) \<Rightarrow> py_error + (int \<times> int \<times> (int \<rightharpoonup> bvh_node))" where
  "bvh_rec items fresh nodes =
    (let addr = fresh; fresh = fresh + 1 in
     case items of
       [] \<Rightarrow> Inl ValueError
     | [(tid, v0, v1, v2)] \<Rightarrow>
         Inr (addr, fresh, nodes(addr \<mapsto> new_node\<lparr>n_leaf := True, n_tri_id := tid, n_verts := Some (v0, v1, v2)\<rparr>))
     | _ # _ # _ \<Rightarrow>
         (let (bmin, bmax) = list_bounds items;
              items' = sort_key (centroid (widest_axis bmin bmax)) items;
              mid = length items' div 2
          in ebind (bvh_rec (take mid items') fresh nodes) (\<lambda>(l, fresh, nodes).
             ebind (bvh_rec (drop mid items') fresh nodes) (\<lambda>(r, fresh, nodes).
             Inr (addr, fresh, nodes(addr \<mapsto> new_node\<lparr>n_bmin := bmin, n_bmax := bmax, n_left := l, n_right := r\<rparr>))))))"
  by pat_completeness auto
termination
  by (relation "measure (\<lambda>(items, _, _). length items)") auto

declare bvh_rec.simps [simp del]

definition build_bvh :: "tri list \<Rightarrow> py_error + ((int \<rightharpoonup> bvh_node) \<times> int)" where
  "build_bvh tris = ebind (bvh_rec tris 1 (\<lambda>_. None)) (\<lambda>(root, fresh, nodes). Inr (nodes, root))"

section \<open>The node word\<close>

definition u32 :: "int \<Rightarrow> int" where
  "u32 x = x AND MASK32"

text \<open>A field is shifted in at the low end of the word.\<close>

definition push32 :: "int \<Rightarrow> int \<Rightarrow> int" where
  "push32 c w = push_bit 32 w OR u32 c"

fun vcomps :: "vec \<Rightarrow> int list" where
  "vcomps (a0, a1, a2) = [a0, a1, a2]"

definition node_to_bits :: "bvh_node \<Rightarrow> py_error + int" where
  "node_to_bits n =
    (if n_leaf n then
       (case n_verts n of
          None \<Rightarrow> Inl TypeError
        | Some (v0, v1, v2) \<Rightarrow>
            (let w = push32 (n_tri_id n) 1; w = push_bit 32 w
             in Inr (fold push32 (vcomps v0 @ vcomps v1 @ vcomps v2) w)))
     else
       (let w = push32 (n_right n) (push32 (n_left n) 0);
            w = fold push32 (vcomps (n_bmin n) @ vcomps (n_bmax n)) w
        in Inr (push_bit 96 w)))"

section \<open>Traversal\<close>

type_synonym best = "bool \<times> int \<times> int \<times> int"

text \<open>The leaf test: the closest distance and the best hit are updated.\<close>

definition leaf_test :: "bvh_node \<Rightarrow> vec \<Rightarrow> vec \<Rightarrow> int \<Rightarrow> best \<Rightarrow> py_error + (int \<times> best)" where
  "leaf_test n ro d ct best =
    (case n_verts n of
       None \<Rightarrow> Inl TypeError
     | Some (v0, v1, v2) \<Rightarrow>
         (case tri_isect ro d v0 v1 v2 of (h, t, u, v) \<Rightarrow>
            if h \<and> t < ct then Inr (t, (True, n_tri_id n, u, v)) else Inr (ct, best)))"

fun trav_loop ::
    "nat \<Rightarrow> (int \<rightharpoonup> bvh_node) \<Rightarrow> vec \<Rightarrow> vec \<Rightarrow> vec \<Rightarrow> int list \<Rightarrow> int \<Rightarrow> int \<Rightarrow> best \<Rightarrow>
     (py_error + (int \<times> best)) option" where
  "trav_loop 0 nodes ro d rinv stack node ct best = None"
| "trav_loop (Suc fuel) nodes ro d rinv stack node ct best =
    (case nodes node of
       None \<Rightarrow> Some (Inl KeyError)
     | Some n \<Rightarrow>
         if n_leaf n then
           (case leaf_test n ro d ct best of
              Inl e \<Rightarrow> Some (Inl e)
            | Inr (ct, best) \<Rightarrow>
                (case stack of
                   node # stack \<Rightarrow> trav_loop fuel nodes ro d rinv stack node ct best
                 | [] \<Rightarrow> Some (Inr (ct, best))))
         else
           (let (near, far) = (if fst d \<ge> 0 then (n_left n, n_right n) else (n_right n, n_left n));
                (h, _) = box_isect ro rinv ct (n_bmin n) (n_bmax n)
            in if h then
                 trav_loop fuel nodes ro d rinv (if length stack < STACK_DEPTH then far # stack else stack) near ct best
               else
                 (case stack of
                    node # stack \<Rightarrow> trav_loop fuel nodes ro d rinv stack node ct best
                  | [] \<Rightarrow> Some (Inr (ct, best)))))"

definition traverse ::
    "nat \<Rightarrow> (int \<rightharpoonup> bvh_node) \<Rightarrow> int \<Rightarrow> vec \<Rightarrow> vec \<Rightarrow> vec \<Rightarrow> (py_error + (bool \<times> int \<times> int \<times> int \<times> int)) option" where
  "traverse fuel nodes root ro d rinv =
    map_option (\<lambda>r. ebind r (\<lambda>(ct, bhit, tid, u, v). Inr (bhit, (if bhit then tid else 0), ct, u, v)))
      (trav_loop fuel nodes ro d rinv [] root 0x7FFFFFFF (False, 0, 0, 0))"

end
