(* ===== verification/RtFixed.thy ===== *)
theory RtFixed
  imports RtRef
begin

text \<open>
  The arithmetic of the ray tracing model: what \<open>se32\<close>, \<open>clz32\<close> and \<open>fx_mul\<close> compute, the error
  of the Newton-Raphson reciprocal and what it means for the outputs of \<open>tri_isect\<close>, and the order
  properties of the slab test.
\<close>

section \<open>Wrap-around\<close>

lemma MASK32_and: "x AND MASK32 = x mod 2 ^ 32"
  by (simp add: MASK32_def mask_simps take_bit_eq_mod)

lemma and_exp_bit: "x AND push_bit i 1 = (if bit x i then push_bit i 1 else (0 :: int))"
  by (rule bit_eqI) (auto simp: bit_simps)

lemma sign_bit_iff: "0 \<le> y \<Longrightarrow> y < 2 ^ 32 \<Longrightarrow> y AND 0x80000000 \<noteq> 0 \<longleftrightarrow> 2 ^ 31 \<le> (y :: int)"
proof -
  assume y: "0 \<le> y" "y < 2 ^ 32"
  note and_exp_bit [of y 31]
  moreover have "bit y 31 \<longleftrightarrow> 2 ^ 31 \<le> y"
  proof -
    have "bit y 31 \<longleftrightarrow> odd (y div 2 ^ 31)" by (simp add: bit_iff_odd)
    moreover have "y div 2 ^ 31 = (if 2 ^ 31 \<le> y then 1 else 0)"
      using y by (auto simp: div_pos_pos_trivial intro!: int_div_pos_eq [where r = "y - 2 ^ 31"])
    ultimately show ?thesis by auto
  qed
  ultimately show ?thesis by (simp add: push_bit_eq_mult)
qed

lemma se32_eq: "se32 x = (if x mod 2 ^ 32 < 2 ^ 31 then x mod 2 ^ 32 else x mod 2 ^ 32 - 2 ^ 32)"
  using sign_bit_iff [of "x mod 2 ^ 32"] unfolding se32_def Let_def MASK32_and by (simp add: push_bit_eq_mult)

lemma se32_range: "- (2 ^ 31) \<le> se32 x" "se32 x < 2 ^ 31"
  using pos_mod_sign [of "2 ^ 32" x] pos_mod_bound [of "2 ^ 32" x] by (auto simp: se32_eq)

lemma se32_id: "- (2 ^ 31) \<le> x \<Longrightarrow> x < 2 ^ 31 \<Longrightarrow> se32 x = x"
proof (cases "0 \<le> x")
  case False
  assume x: "- (2 ^ 31) \<le> x" "x < 2 ^ 31"
  have "x mod 2 ^ 32 = (x + 2 ^ 32) mod 2 ^ 32" by simp
  also have "\<dots> = x + 2 ^ 32" by (rule mod_pos_pos_trivial) (use x False in simp_all)
  finally show ?thesis using False x by (simp add: se32_eq)
qed (simp add: se32_eq)

lemma se32_mod: "se32 x mod 2 ^ 32 = x mod 2 ^ 32"
  unfolding se32_eq by (simp add: minus_mod_self2)

lemma se32_iff_id: "se32 x = x \<longleftrightarrow> - (2 ^ 31) \<le> x \<and> x < 2 ^ 31"
  using se32_range [of x] se32_id [of x] by auto

section \<open>Leading zeros\<close>

lemma find_first: "P y \<Longrightarrow> (\<And>x. x \<in> set xs \<Longrightarrow> \<not> P x) \<Longrightarrow> find P (xs @ y # ys) = Some y"
  by (induction xs) auto

lemma clz32_eq:
  assumes "0 \<le> x" "x < 2 ^ 32"
  shows "clz32 x = 32 - bit_length x"
proof (cases "x = 0")
  case True
  then show ?thesis by (simp add: clz32_def)
next
  case False
  then have x: "0 < x" using assms by simp
  obtain m where m: "bit_length x = int (Suc m)"
    using bit_length_pos [OF x] by (metis gr0_conv_Suc of_nat_0_less_iff zero_less_imp_eq_int)
  note b = bit_length_bounds [OF x m]
  have bit: "x AND push_bit i 1 \<noteq> 0 \<longleftrightarrow> bit x i" for i
    using and_exp_bit [of x i] by (simp add: push_bit_eq_mult)
  have "(2 :: int) ^ m < 2 ^ 32" using b(1) assms(2) by linarith
  then have m32: "m < 32" using power_less_imp_less_exp [of "2 :: int" m 32] by simp
  have "bit x m"
  proof -
    have "x div 2 ^ m = 1" using b by (intro int_div_pos_eq [where r = "x - 2 ^ m"]) simp_all
    then show ?thesis by (simp add: bit_iff_odd)
  qed
  moreover have "\<not> bit x i" if "m < i" for i using not_bit_above [of x "Suc m" i] b(2) x that by simp
  moreover have up: "rev [0..<32] = rev [Suc m..<32] @ m # rev [0..<m]"
    using m32 upt_add_eq_append [of 0 m "32 - m"] by (simp add: upt_conv_Cons)
  have "find (\<lambda>i. x AND push_bit i 1 \<noteq> 0) (rev [0..<32]) = Some m"
    unfolding up bit using calculation by (intro find_first) auto
  moreover have "x AND MASK32 = x" using assms by (simp add: MASK32_and)
  ultimately show ?thesis using False m by (simp add: clz32_def)
qed

section \<open>The reciprocal\<close>

lemma nr_seed_error:
  assumes "2 ^ 31 \<le> m" "m < 2 ^ 32"
  shows "\<bar>2 ^ 61 - m * nr_seed m\<bar> \<le> 2 ^ 57" "0 \<le> nr_seed m"
proof -
  define c where "c = (NR_C2 * m) div 2 ^ 31"
  define \<delta> where "\<delta> = (NR_C2 * m) mod 2 ^ 31"
  have c: "NR_C2 * m = 2 ^ 31 * c + \<delta>" "0 \<le> \<delta>" "\<delta> < 2 ^ 31" by (simp_all add: c_def \<delta>_def)
  have C: "NR_C1 = 1515870810" "NR_C2 = 505290270" by (simp_all add: NR_C1_def NR_C2_def)
  have cb: "505290270 \<le> c" "c < 1010580540" using c assms unfolding C by simp_all
  then have r: "nr_seed m = NR_C1 - c" unfolding nr_seed_def MASK32_and C by (simp add: drop_bit_eq_div c_def C)
  then show "0 \<le> nr_seed m" using cb by (simp add: C)
  have e: "2 ^ 31 * (m * nr_seed m) = m * (2 ^ 31 * NR_C1 - NR_C2 * m) + m * \<delta>"
    unfolding r using c(1) by (simp add: algebra_simps)
  have md: "0 \<le> m * \<delta>" "m * \<delta> \<le> 2 ^ 32 * 2 ^ 31" using assms c by (simp, intro mult_mono) simp_all
  have lo: "0 \<le> (m - 2 ^ 31) * (2 ^ 32 - m)" using assms by simp
  define sq where "sq = (m - 3 * 2 ^ 30) * (m - 3 * 2 ^ 30)"
  have hi: "0 \<le> sq" unfolding sq_def by (rule zero_le_square)
  have "m * (2 ^ 31 * NR_C1 - NR_C2 * m) = NR_C2 * ((m - 2 ^ 31) * (2 ^ 32 - m)) + (2 ^ 31 * NR_C1 - NR_C2 * (2 ^ 31 + 2 ^ 32)) * m + NR_C2 * 2 ^ 63"
    by (simp add: algebra_simps)
  then have l: "m * (2 ^ 31 * NR_C1 - NR_C2 * m) \<ge> 2 ^ 92 - 2 ^ 88" using lo assms unfolding C by simp
  have "m * (2 ^ 31 * NR_C1 - NR_C2 * m) = (2 ^ 31 * NR_C1 - NR_C2 * (3 * 2 ^ 31)) * m + NR_C2 * (9 * 2 ^ 60) - NR_C2 * sq"
    by (simp add: sq_def algebra_simps)
  then have h: "m * (2 ^ 31 * NR_C1 - NR_C2 * m) + 2 ^ 63 \<le> 2 ^ 92 + 2 ^ 88" using hi assms unfolding C by simp
  show "\<bar>2 ^ 61 - m * nr_seed m\<bar> \<le> 2 ^ 57" using e md l h by simp
qed

lemma nr_step_error:
  assumes m: "2 ^ 31 \<le> m" "m < 2 ^ 32" and r: "0 \<le> r" and e: "\<bar>2 ^ 61 - m * r\<bar> \<le> 2 ^ 57"
  shows "2 ^ 61 * (2 ^ 61 - m * nr_step m r) \<le> (2 ^ 61 - m * r) * (2 ^ 61 - m * r) + 2 ^ 93"
    "- (2 ^ 31 + 2 ^ 27) \<le> 2 ^ 61 - m * nr_step m r" "0 \<le> nr_step m r"
proof -
  define p s where "p = (m * r) div 2 ^ 31" and "s = (m * r) mod 2 ^ 31"
  have ps: "m * r = 2 ^ 31 * p + s" "0 \<le> s" "s < 2 ^ 31" by (simp_all add: p_def s_def)
  have mr: "2 ^ 61 - 2 ^ 57 \<le> m * r" "m * r \<le> 2 ^ 61 + 2 ^ 57" using e by linarith+
  have p: "0 \<le> p" "p < 2 ^ 31" using ps mr by simp_all
  define q where "q = 2 ^ 31 - p"
  have q: "0 < q" "q \<le> 2 ^ 31" "2 ^ 31 * q = 2 ^ 62 - m * r + s" using p ps by (simp_all add: q_def algebra_simps)
  have "2 ^ 31 * r \<le> m * r" using m r by (intro mult_right_mono) simp_all
  then have rb: "r \<le> 2 ^ 30 + 2 ^ 26" using mr by simp
  define r' w where "r' = (r * q) div 2 ^ 30" and "w = (r * q) mod 2 ^ 30"
  have rw: "r * q = 2 ^ 30 * r' + w" "0 \<le> w" "w < 2 ^ 30" by (simp_all add: r'_def w_def)
  have "0 \<le> r * q" "r * q \<le> (2 ^ 30 + 2 ^ 26) * 2 ^ 31" using r q rb by (simp, intro mult_mono) simp_all
  then have r': "0 \<le> r'" "r' < 2 ^ 32" using rw by simp_all
  have md: "p mod 2 ^ 32 = p" "q mod 2 ^ 32 = q" "r' mod 2 ^ 32 = r'" using p q r' by simp_all
  have dr: "drop_bit 31 (m * r) = p" "drop_bit 30 (r * q) = r'" "0x80000000 - p = q"
    by (simp_all add: drop_bit_eq_div p_def r'_def q_def)
  have st: "nr_step m r = r'" unfolding nr_step_def Let_def MASK32_and dr(1) md(1) dr(3) md(2) dr(2) md(3) ..
  then show "0 \<le> nr_step m r" using r' by simp
  define e where "e = 2 ^ 61 - m * r"
  have key: "2 ^ 61 * (2 ^ 61 - m * r') = e * e - s * (m * r) + 2 ^ 31 * (m * w)"
  proof -
    have "2 ^ 61 * (m * r') = 2 ^ 31 * (m * (r * q)) - 2 ^ 31 * (m * w)" using rw(1) by (simp add: algebra_simps)
    also have "2 ^ 31 * (m * (r * q)) = (m * r) * (2 ^ 31 * q)" by (simp add: algebra_simps)
    also have "\<dots> = (2 ^ 61 - e) * (2 ^ 61 + e + s)" unfolding q(3) by (simp add: e_def)
    finally have "2 ^ 61 * (m * r') = (2 ^ 61 - e) * (2 ^ 61 + e + s) - 2 ^ 31 * (m * w)" .
    moreover have "s * (m * r) = s * (2 ^ 61 - e)" by (simp add: e_def)
    ultimately show ?thesis by (simp add: algebra_simps)
  qed
  have mw: "0 \<le> m * w" "m * w \<le> 2 ^ 32 * 2 ^ 30" using m rw by (simp, intro mult_mono) simp_all
  have sm: "0 \<le> s * (m * r)" "s * (m * r) \<le> 2 ^ 31 * (2 ^ 61 + 2 ^ 57)" using m r ps mr by (simp, intro mult_mono) simp_all
  show "2 ^ 61 * (2 ^ 61 - m * nr_step m r) \<le> (2 ^ 61 - m * r) * (2 ^ 61 - m * r) + 2 ^ 93"
    unfolding st using key mw sm by (simp add: e_def)
  define ee where "ee = e * e"
  have "0 \<le> ee" by (simp add: ee_def)
  then have "2 ^ 61 * (2 ^ 61 - m * r') \<ge> - (2 ^ 31 * (2 ^ 61 + 2 ^ 57))"
    using key [folded ee_def] mw sm by simp
  then show "- (2 ^ 31 + 2 ^ 27) \<le> 2 ^ 61 - m * nr_step m r" unfolding st by simp
qed

lemma square_le: "\<bar>x\<bar> \<le> b \<Longrightarrow> x * x \<le> b * (b :: int)"
  by (metis abs_ge_zero abs_mult_self_eq mult_mono' )

lemma nr_result:
  assumes m: "2 ^ 31 \<le> m" "m < 2 ^ 32"
  defines "r \<equiv> nr_step m (nr_step m (nr_step m (nr_seed m)))"
  shows "2 ^ 61 - m * r < 2 ^ 33" "- (2 ^ 31 + 2 ^ 27) \<le> 2 ^ 61 - m * r" "0 \<le> r"
proof -
  note s0 = nr_seed_error [OF m]
  note s1 = nr_step_error [OF m s0(2,1)]
  have "(2 ^ 61 - m * nr_seed m) * (2 ^ 61 - m * nr_seed m) \<le> 2 ^ 57 * 2 ^ 57" by (rule square_le [OF s0(1)])
  then have e1: "\<bar>2 ^ 61 - m * nr_step m (nr_seed m)\<bar> \<le> 2 ^ 53 + 2 ^ 32" using s1(1,2) by simp
  then have "\<bar>2 ^ 61 - m * nr_step m (nr_seed m)\<bar> \<le> 2 ^ 57" by simp
  note s2 = nr_step_error [OF m s1(3) this]
  have "(2 ^ 61 - m * nr_step m (nr_seed m)) * (2 ^ 61 - m * nr_step m (nr_seed m)) \<le> (2 ^ 53 + 2 ^ 32) * (2 ^ 53 + 2 ^ 32)"
    by (rule square_le [OF e1])
  then have e2: "\<bar>2 ^ 61 - m * nr_step m (nr_step m (nr_seed m))\<bar> \<le> 2 ^ 46" using s2(1,2) by simp
  then have "\<bar>2 ^ 61 - m * nr_step m (nr_step m (nr_seed m))\<bar> \<le> 2 ^ 57" by simp
  note s3 = nr_step_error [OF m s2(3) this]
  have "(2 ^ 61 - m * nr_step m (nr_step m (nr_seed m))) * (2 ^ 61 - m * nr_step m (nr_step m (nr_seed m))) \<le> 2 ^ 46 * 2 ^ 46"
    by (rule square_le [OF e2])
  then show "2 ^ 61 - m * r < 2 ^ 33" "- (2 ^ 31 + 2 ^ 27) \<le> 2 ^ 61 - m * r" "0 \<le> r"
    using s3 by (simp_all add: r_def)
qed

lemma recip32_bounds:
  assumes n: "0 < n" "n < 2 ^ 32"
  shows "2 ^ 32 - 16 - n < recip32 n * n" "recip32 n * n \<le> 2 ^ 32 + 4" "0 \<le> recip32 n" "recip32 n < 2 ^ 32"
proof -
  define k where "k = nat (clz32 n)"
  obtain b where b: "bit_length n = int (Suc b)"
    using bit_length_pos [OF n(1)] by (metis gr0_conv_Suc of_nat_0_less_iff zero_less_imp_eq_int)
  note bl = bit_length_bounds [OF n(1) b]
  have "(2 :: int) ^ b < 2 ^ 32" using bl(1) n(2) by linarith
  then have b32: "b < 32" using power_less_imp_less_exp [of "2 :: int" b 32] by simp
  have k: "clz32 n = int k" "k = 31 - b" using clz32_eq [of n] n b b32 by (simp_all add: k_def)
  define m where "m = n * 2 ^ k"
  have m: "2 ^ 31 \<le> m" "m < 2 ^ 32"
  proof -
    have pw: "(2 :: int) ^ b * 2 ^ k = 2 ^ 31" "(2 :: int) ^ Suc b * 2 ^ k = 2 ^ 32"
      using b32 unfolding power_add [symmetric] k(2) by simp_all
    show "2 ^ 31 \<le> m" unfolding m_def pw(1) [symmetric] by (rule mult_right_mono [OF bl(1)]) simp
    show "m < 2 ^ 32" unfolding m_def pw(2) [symmetric] by (rule mult_strict_right_mono [OF bl(2)]) simp
  qed
  define r where "r = nr_step m (nr_step m (nr_step m (nr_seed m)))"
  note e = nr_result [OF m, folded r_def]
  define w z where "w = (r * 2 ^ k) div 2 ^ 29" and "z = (r * 2 ^ k) mod 2 ^ 29"
  have wz: "r * 2 ^ k = 2 ^ 29 * w + z" "0 \<le> z" "z < 2 ^ 29" by (simp_all add: w_def z_def)
  have sm: "shl n (clz32 n) AND MASK32 = m" using m by (simp add: shl_eq k MASK32_and m_def)
  have ifs: "(if n \<noteq> 0 then shl n (clz32 n) AND MASK32 else 0x80000000) = m" "(if n = 0 then 0 else clz32 n) = int k"
    "drop_bit 29 (shl r (int k)) = w"
    using sm n(1) k(1) by (simp_all add: w_def shl_eq drop_bit_eq_div)
  have rc: "recip32 n = (if w > MASK32 then MASK32 else w)"
    unfolding recip32_def Let_def ifs(1,2) r_def [symmetric] ifs(3) ..
  have w0: "0 \<le> w" using e(3) by (simp add: w_def pos_imp_zdiv_nonneg_iff)
  define nz wn mr where "nz = n * z" and "wn = w * n" and "mr = m * r"
  have f: "2 ^ 29 * wn = mr - nz" using wz(1) by (simp add: nz_def wn_def mr_def m_def algebra_simps)
  have nz: "0 \<le> nz" "nz \<le> n * 536870911" unfolding nz_def using n wz by (simp, intro mult_left_mono) simp_all
  have "2 ^ 32 - 16 - n < wn" "wn \<le> 2 ^ 32 + 4" using e(1,2) [folded mr_def] f nz by simp_all
  then have wn: "2 ^ 32 - 16 - n < w * n" "w * n \<le> 2 ^ 32 + 4" by (simp_all only: wn_def)
  show "0 \<le> recip32 n" "recip32 n < 2 ^ 32" using w0 rc by (simp_all add: MASK32_def)
  show "2 ^ 32 - 16 - n < recip32 n * n" "recip32 n * n \<le> 2 ^ 32 + 4"
  proof -
    have "n = 1" if "w > MASK32"
    proof (rule ccontr)
      assume "n \<noteq> 1"
      then have "2 \<le> n" using n by simp
      then have "2 ^ 32 * 2 \<le> w * n" using that by (intro mult_mono) (simp_all add: MASK32_def)
      then show False using wn(2) by simp
    qed
    then show "2 ^ 32 - 16 - n < recip32 n * n" "recip32 n * n \<le> 2 ^ 32 + 4"
      using wn rc by (auto simp: MASK32_def)
  qed
qed

section \<open>The outputs of a hit\<close>

text \<open>\<open>w\<close> is \<open>2 ^ 16 * num / n\<close> up to the error of the reciprocal and one truncation.\<close>

definition quotient_near :: "int \<Rightarrow> int \<Rightarrow> int \<Rightarrow> bool" where
  "quotient_near num n w \<longleftrightarrow>
    num * (2 ^ 32 - 16 - n) < (w + 1) * n * 2 ^ 16 \<and> w * n * 2 ^ 16 \<le> num * (2 ^ 32 + 4)"

lemma quotient_near_recip:
  assumes n: "0 < n" "n < 2 ^ 32" and num: "0 \<le> num"
  shows "quotient_near num n (num * recip32 n div 2 ^ 16)" "0 \<le> num * recip32 n div 2 ^ 16"
proof -
  define w where "w = num * recip32 n div 2 ^ 16"
  note b = recip32_bounds [OF n]
  show "0 \<le> num * recip32 n div 2 ^ 16" using b(3) num by (simp add: pos_imp_zdiv_nonneg_iff)
  have w: "w * 2 ^ 16 \<le> num * recip32 n" "num * recip32 n < (w + 1) * 2 ^ 16"
    using div_mult_mod_eq [of "num * recip32 n" "2 ^ 16"] pos_mod_sign [of "2 ^ 16" "num * recip32 n"]
      pos_mod_bound [of "2 ^ 16" "num * recip32 n"] by (simp_all add: w_def)
  have "w * 2 ^ 16 * n \<le> num * recip32 n * n" using w(1) n by (intro mult_right_mono) simp_all
  also have "\<dots> \<le> num * (2 ^ 32 + 4)" unfolding mult.assoc by (rule mult_left_mono [OF b(2) num])
  finally have up: "w * n * 2 ^ 16 \<le> num * (2 ^ 32 + 4)" by (simp add: algebra_simps)
  have "num * (2 ^ 32 - 16 - n) \<le> num * (recip32 n * n)" using b(1) num by (intro mult_left_mono) simp_all
  also have "\<dots> < (w + 1) * 2 ^ 16 * n" unfolding mult.assoc [symmetric] using w(2) n by (intro mult_strict_right_mono) simp_all
  finally show "quotient_near num n (num * recip32 n div 2 ^ 16)"
    unfolding quotient_near_def w_def [symmetric] using up by (simp add: algebra_simps)
qed

lemma fx_dot_range: "- (2 ^ 31) \<le> fx_dot a b" "fx_dot a b < 2 ^ 31"
  using se32_range by (cases a; cases b; simp)+

lemma tri_normalise_range:
  assumes "tri_normalise (tri_numerators ro d v0 v1 v2) = (n_det, nu, nv, nt)"
    "tri_numerators ro d v0 v1 v2 = (det, unum, vnum, tnum)" "det \<noteq> 0"
  shows "0 < n_det mod 2 ^ 32" "nu < 2 ^ 31" "nv < 2 ^ 31" "nt < 2 ^ 31"
proof -
  have r: "- (2 ^ 31) \<le> x \<and> x < 2 ^ 31" if "x \<in> {det, unum, vnum, tnum}" for x
  proof -
    have "\<exists>a b. x = fx_dot a b" using assms(2) that unfolding tri_numerators_def Let_def by (auto simp del: split_paired_Ex)
    then obtain a b where "x = fx_dot a b" by blast
    then show ?thesis using fx_dot_range [of a b] by simp
  qed
  have "n_det mod 2 ^ 32 \<noteq> 0"
  proof
    assume z: "n_det mod 2 ^ 32 = 0"
    have "n_det = (if det < 0 then se32 (- det) else det)" using assms(1,2) by (auto simp: tri_normalise_def split: if_splits)
    then have "det mod 2 ^ 32 = 0" using z se32_mod [of "- det"] by (auto simp: mod_minus_eq zmod_zminus1_eq_if split: if_splits)
    then have "2 ^ 32 dvd det" by (rule mod_0_imp_dvd)
    then have "2 ^ 32 \<le> \<bar>det\<bar>" using assms(3) by (meson dvd_imp_le_int zdvd_imp_le abs_ge_zero dvd_abs_iff zero_less_abs_iff)
    then show False using r [of det] by auto
  qed
  then show "0 < n_det mod 2 ^ 32" using pos_mod_sign [of "2 ^ 32" n_det] by simp
  show "nu < 2 ^ 31" "nv < 2 ^ 31" "nt < 2 ^ 31"
    using assms(1,2) r [of unum] r [of vnum] r [of tnum] se32_range(2) by (auto simp: tri_normalise_def split: if_splits)
qed

lemma tri_out_eq: "tri_out recip x = min (x * recip div 2 ^ 16) 0x7FFFFFFF"
  by (simp add: tri_out_def Let_def drop_bit_eq_div min_def push_bit_eq_mult)

lemma tri_hit_outputs:
  assumes hit: "tri_isect ro d v0 v1 v2 = (True, t, u, v)"
    and n: "tri_normalise (tri_numerators ro d v0 v1 v2) = (n_det, nu, nv, nt)" "n = n_det mod 2 ^ 32"
  shows "0 < n \<and> 0 \<le> nu \<and> 0 \<le> nv \<and> nu + nv \<le> n \<and> 0 < nt" "0 \<le> u \<and> 0 \<le> v \<and> u + v \<le> FX_ONE" "0 \<le> t \<and> t < 2 ^ 31"
    "quotient_near nu n u \<and> quotient_near nv n v" "t = 0x7FFFFFFF \<or> quotient_near nt n t"
proof -
  obtain det unum vnum tnum where k: "tri_numerators ro d v0 v1 v2 = (det, unum, vnum, tnum)" by (metis prod_cases4)
  have h: "det \<noteq> 0" "0 \<le> nu" "0 \<le> nv" "nu + nv \<le> n" "0 < nt"
    and o: "t = tri_out (recip32 n) (nt AND MASK32)" "u = tri_out (recip32 n) (nu AND MASK32)" "v = tri_out (recip32 n) (nv AND MASK32)"
    using hit n(1) unfolding tri_isect_def k n(2) MASK32_and Let_def by (auto split: if_splits)
  note r = tri_normalise_range [OF n(1) k h(1)]
  have n': "0 < n" "n < 2 ^ 32" using r(1) by (simp_all add: n(2))
  show a: "0 < n \<and> 0 \<le> nu \<and> 0 \<le> nv \<and> nu + nv \<le> n \<and> 0 < nt" using h n' by simp
  have m: "nt AND MASK32 = nt" "nu AND MASK32 = nu" "nv AND MASK32 = nv" using r h unfolding MASK32_and by simp_all
  define wu wv wt where "wu = nu * recip32 n div 2 ^ 16" and "wv = nv * recip32 n div 2 ^ 16" and "wt = nt * recip32 n div 2 ^ 16"
  note q = quotient_near_recip [OF n']
  have nn: "0 \<le> wu" "0 \<le> wv" "0 \<le> wt" using q(2) h by (simp_all add: wu_def wv_def wt_def)
  have "(wu + wv) * 2 ^ 16 \<le> (nu + nv) * recip32 n"
    using div_mult_mod_eq [of "nu * recip32 n" "2 ^ 16"] pos_mod_sign [of "2 ^ 16" "nu * recip32 n"]
      div_mult_mod_eq [of "nv * recip32 n" "2 ^ 16"] pos_mod_sign [of "2 ^ 16" "nv * recip32 n"]
    by (simp add: wu_def wv_def algebra_simps)
  also have "\<dots> \<le> n * recip32 n" using h(4) recip32_bounds(3) [OF n'] by (intro mult_right_mono)
  also have "\<dots> \<le> 2 ^ 32 + 4" using recip32_bounds(2) [OF n'] by (simp add: mult.commute)
  finally have s: "wu + wv \<le> 2 ^ 16" by simp
  have uv: "u = wu" "v = wv" using s nn unfolding o m tri_out_eq wu_def [symmetric] wv_def [symmetric] by simp_all
  have t: "t = min wt 0x7FFFFFFF" unfolding o m tri_out_eq wt_def [symmetric] ..
  show "0 \<le> u \<and> 0 \<le> v \<and> u + v \<le> FX_ONE" using uv s nn by (simp add: FX_ONE_def push_bit_eq_mult)
  show "0 \<le> t \<and> t < 2 ^ 31" using t nn by simp
  show "quotient_near nu n u \<and> quotient_near nv n v" using uv q(1) h by (simp add: wu_def wv_def)
  show "t = 0x7FFFFFFF \<or> quotient_near nt n t"
  proof (cases "wt \<le> 0x7FFFFFFF")
    case True
    then have "t = wt" using t by simp
    then show ?thesis using q(1) [of nt] h by (simp add: wt_def)
  qed (use t in simp)
qed

section \<open>The slab test\<close>

text \<open>No 32-bit wrap-around in the products of one axis.\<close>

definition slab_exact :: "int \<Rightarrow> int \<Rightarrow> int \<Rightarrow> bool" where
  "slab_exact o1 i1 x \<longleftrightarrow> - (2 ^ 31) \<le> x - o1 \<and> x - o1 < 2 ^ 31 \<and>
     - (2 ^ 31) \<le> (x - o1) * i1 div 2 ^ 16 \<and> (x - o1) * i1 div 2 ^ 16 < 2 ^ 31"

lemma fx_mul_exact: "slab_exact o1 i1 x \<Longrightarrow> fx_mul (se32 (x - o1)) i1 = (x - o1) * i1 div 2 ^ 16"
  by (simp add: slab_exact_def fx_mul_def se32_id drop_bit_eq_div)

lemma slab_div_mono: "0 \<le> i \<Longrightarrow> x \<le> y \<Longrightarrow> (x - p) * i div 2 ^ 16 \<le> (y - p) * i div (2 ^ 16 :: int)"
  "i \<le> 0 \<Longrightarrow> x \<le> y \<Longrightarrow> (y - p) * i div 2 ^ 16 \<le> (x - p) * i div (2 ^ 16 :: int)"
  by (rule zdiv_mono1; simp add: mult_right_mono mult_right_mono_neg)+

lemma slab_grows:
  assumes "l' \<le> l" "l \<le> h" "h \<le> h'" "slab_exact p i l" "slab_exact p i h" "slab_exact p i l'" "slab_exact p i h'"
  shows "fst (slab p i l' h') \<le> fst (slab p i l h)" "snd (slab p i l h) \<le> snd (slab p i l' h')"
proof -
  define f where "f x = (x - p) * i div 2 ^ 16" for x
  have s: "slab p i l h = (min (f l) (f h), max (f l) (f h))" "slab p i l' h' = (min (f l') (f h'), max (f l') (f h'))"
    using assms by (simp_all add: slab_def fx_mul_exact f_def Let_def)
  have "f l' \<le> f l \<and> f l \<le> f h \<and> f h \<le> f h' \<or> f h' \<le> f h \<and> f h \<le> f l \<and> f l \<le> f l'"
    using slab_div_mono assms(1-3) unfolding f_def by (cases "0 \<le> i") auto
  then show "fst (slab p i l' h') \<le> fst (slab p i l h)" "snd (slab p i l h) \<le> snd (slab p i l' h')"
    unfolding s by auto
qed

lemma slab_inside:
  assumes "l \<le> p" "p \<le> h" "slab_exact p i l" "slab_exact p i h"
  shows "fst (slab p i l h) \<le> 0" "0 \<le> snd (slab p i l h)"
proof -
  define f where "f x = (x - p) * i div 2 ^ 16" for x
  have s: "slab p i l h = (min (f l) (f h), max (f l) (f h))" using assms by (simp add: slab_def fx_mul_exact f_def Let_def)
  have z: "f p = 0" by (simp add: f_def)
  have "0 \<le> i \<Longrightarrow> x \<le> y \<Longrightarrow> f x \<le> f y" "i \<le> 0 \<Longrightarrow> x \<le> y \<Longrightarrow> f y \<le> f x" for x y
    unfolding f_def by (rule slab_div_mono; assumption)+
  then have "f l \<le> f p \<and> f p \<le> f h \<or> f h \<le> f p \<and> f p \<le> f l"
    using assms(1-2) by (cases "0 \<le> i") (simp_all only: linorder_not_le less_imp_le simp_thms)
  then show "fst (slab p i l h) \<le> 0" "0 \<le> snd (slab p i l h)" unfolding s z by auto
qed

fun vle :: "vec \<Rightarrow> vec \<Rightarrow> bool" where
  "vle (a0, a1, a2) (b0, b1, b2) \<longleftrightarrow> a0 \<le> b0 \<and> a1 \<le> b1 \<and> a2 \<le> b2"

fun box_exact :: "vec \<Rightarrow> vec \<Rightarrow> vec \<Rightarrow> bool" where
  "box_exact (o0, o1, o2) (i0, i1, i2) (x0, x1, x2) \<longleftrightarrow> slab_exact o0 i0 x0 \<and> slab_exact o1 i1 x1 \<and> slab_exact o2 i2 x2"

lemma box_grows:
  assumes "vle l' l" "vle l h" "vle h h'" "box_exact p i l" "box_exact p i h" "box_exact p i l'" "box_exact p i h'"
    and "fst (box_isect p i t l h)" "t \<le> t'"
  shows "fst (box_isect p i t' l' h')"
proof -
  obtain l0 l1 l2 h0 h1 h2 m0 m1 m2 n0 n1 n2 p0 p1 p2 i0 i1 i2 where
    e: "l = (l0, l1, l2)" "h = (h0, h1, h2)" "l' = (m0, m1, m2)" "h' = (n0, n1, n2)" "p = (p0, p1, p2)" "i = (i0, i1, i2)"
    by (metis prod_cases3)
  note g = slab_grows [of m0 l0 h0 n0 p0 i0] slab_grows [of m1 l1 h1 n1 p1 i1] slab_grows [of m2 l2 h2 n2 p2 i2]
  show ?thesis using assms g unfolding e by (auto simp: Let_def split: prod.splits)
qed

lemma box_contains_origin:
  assumes "vle l p" "vle p h" "box_exact p i l" "box_exact p i h" "0 \<le> t"
  shows "fst (box_isect p i t l h)"
proof -
  obtain l0 l1 l2 h0 h1 h2 p0 p1 p2 i0 i1 i2 where
    e: "l = (l0, l1, l2)" "h = (h0, h1, h2)" "p = (p0, p1, p2)" "i = (i0, i1, i2)"
    by (metis prod_cases3)
  note g = slab_inside [of l0 p0 h0 i0] slab_inside [of l1 p1 h1 i1] slab_inside [of l2 p2 h2 i2]
  show ?thesis using assms g unfolding e by (auto simp: Let_def split: prod.splits)
qed

lemma box_isect_mono: "fst (box_isect p i t l h) \<Longrightarrow> t \<le> t' \<Longrightarrow> fst (box_isect p i t' l h)"
  by (cases "(p, i, t, l, h)" rule: box_isect.cases) (auto simp: Let_def split: prod.splits)

lemma tri_miss_outputs: "\<not> fst (tri_isect ro d v0 v1 v2) \<Longrightarrow> tri_isect ro d v0 v1 v2 = (False, 0, 0, 0)"
  unfolding tri_isect_def by (auto simp: Let_def split: prod.splits if_splits)

end
