(* ===== verification/RtBvh.thy ===== *)
theory RtBvh
  imports RtFixed "HOL-Library.Multiset"
begin

text \<open>
  The BVH builder against its contract: the address map it returns stores a binary tree whose
  leaves are the triangles, each once, whose boxes contain what is below them and whose height is
  logarithmic. \<open>stored\<close> relates the map to a tree that occupies an interval of addresses.
\<close>

section \<open>Trees\<close>

datatype bvh = BLeaf tri | BNode vec vec bvh bvh

fun leaves :: "bvh \<Rightarrow> tri list" where
  "leaves (BLeaf x) = [x]"
| "leaves (BNode _ _ l r) = leaves l @ leaves r"

fun bvh_height :: "bvh \<Rightarrow> nat" where
  "bvh_height (BLeaf _) = 0"
| "bvh_height (BNode _ _ l r) = Suc (max (bvh_height l) (bvh_height r))"

fun bvh_nodes :: "bvh \<Rightarrow> nat" where
  "bvh_nodes (BLeaf _) = 1"
| "bvh_nodes (BNode _ _ l r) = Suc (bvh_nodes l + bvh_nodes r)"

lemma bvh_nodes_leaves: "Suc (bvh_nodes t) = 2 * length (leaves t)"
  by (induction t) auto

fun leaf_node :: "tri \<Rightarrow> bvh_node" where
  "leaf_node (tid, v0, v1, v2) = new_node\<lparr>n_leaf := True, n_tri_id := tid, n_verts := Some (v0, v1, v2)\<rparr>"

definition inner_node :: "vec \<Rightarrow> vec \<Rightarrow> int \<Rightarrow> int \<Rightarrow> bvh_node" where
  "inner_node lo hi l r = new_node\<lparr>n_bmin := lo, n_bmax := hi, n_left := l, n_right := r\<rparr>"

text \<open>The tree occupies exactly the addresses from \<open>a\<close> to below \<open>b\<close>, its root at \<open>a\<close>.\<close>

fun stored :: "(int \<rightharpoonup> bvh_node) \<Rightarrow> int \<Rightarrow> int \<Rightarrow> bvh \<Rightarrow> bool" where
  "stored nodes a b (BLeaf x) \<longleftrightarrow> b = a + 1 \<and> nodes a = Some (leaf_node x)"
| "stored nodes a b (BNode lo hi l r) \<longleftrightarrow>
     (\<exists>m. nodes a = Some (inner_node lo hi (a + 1) m) \<and> stored nodes (a + 1) m l \<and> stored nodes m b r)"

lemma stored_size: "stored nodes a b t \<Longrightarrow> b = a + int (bvh_nodes t)"
  by (induction t arbitrary: a b) fastforce+

lemma stored_frame:
  "stored nodes a b t \<Longrightarrow> (\<And>i. a \<le> i \<Longrightarrow> i < b \<Longrightarrow> nodes' i = nodes i) \<Longrightarrow> stored nodes' a b t"
proof (induction t arbitrary: a b)
  case (BNode lo hi l r)
  then obtain m where m: "nodes a = Some (inner_node lo hi (a + 1) m)" "stored nodes (a + 1) m l" "stored nodes m b r"
    by auto
  have "m = a + 1 + int (bvh_nodes l)" "b = m + int (bvh_nodes r)" using stored_size m by blast+
  then have "stored nodes' (a + 1) m l" "stored nodes' m b r" "nodes' a = nodes a"
    using BNode m by (auto intro!: BNode.IH)
  then show ?case using m by auto
qed auto

section \<open>Boxes\<close>

text \<open>All vertices of a triangle lie in the box; all triangles below a node lie in its box.\<close>

fun in_box :: "vec \<Rightarrow> vec \<Rightarrow> tri \<Rightarrow> bool" where
  "in_box lo hi (_, v0, v1, v2) \<longleftrightarrow> list_all (\<lambda>v. vle lo v \<and> vle v hi) [v0, v1, v2]"

fun boxed :: "bvh \<Rightarrow> bool" where
  "boxed (BLeaf _) = True"
| "boxed (BNode lo hi l r) \<longleftrightarrow> list_all (in_box lo hi) (leaves l @ leaves r) \<and> boxed l \<and> boxed r"

lemma vle_refl [simp]: "vle a a"
  by (cases a) simp

lemma vle_trans: "vle a b \<Longrightarrow> vle b c \<Longrightarrow> vle a c"
  by (cases a; cases b; cases c) simp

lemma vmin_le: "vle (vmin a b) a" "vle (vmin a b) b"
  by (cases a; cases b; simp)+

lemma vmax_ge: "vle a (vmax a b)" "vle b (vmax a b)"
  by (cases a; cases b; simp)+

lemma tri_bounds_in_box: "in_box (fst (tri_bounds x)) (snd (tri_bounds x)) x"
proof -
  obtain tid v0 v1 v2 where x: "x = (tid, v0, v1, v2)" by (metis prod_cases4)
  have "vle (vmin (vmin v0 v1) v2) v0" "vle (vmin (vmin v0 v1) v2) v1" "vle (vmin (vmin v0 v1) v2) v2"
    "vle v0 (vmax (vmax v0 v1) v2)" "vle v1 (vmax (vmax v0 v1) v2)" "vle v2 (vmax (vmax v0 v1) v2)"
    using vmin_le vmax_ge vle_trans by metis+
  then show ?thesis by (simp add: x)
qed

lemma in_box_mono: "in_box lo hi x \<Longrightarrow> vle lo' lo \<Longrightarrow> vle hi hi' \<Longrightarrow> in_box lo' hi' x"
  by (cases x) (auto intro: vle_trans)

lemma fold_vmin: "vle (fold (\<lambda>b a. vmin a (fst b)) bs a) a"
  "b \<in> set bs \<Longrightarrow> vle (fold (\<lambda>b a. vmin a (fst b)) bs a) (fst b)"
proof -
  have 1: "vle (fold (\<lambda>b a. vmin a (fst b)) bs a) a" for bs :: "(vec \<times> 'b) list" and a
  proof (induction bs arbitrary: a)
    case (Cons b bs)
    show ?case using vle_trans [OF Cons [of "vmin a (fst b)"] vmin_le(1)] by simp
  qed simp
  then show "vle (fold (\<lambda>b a. vmin a (fst b)) bs a) a" .
  show "vle (fold (\<lambda>b a. vmin a (fst b)) bs a) (fst b)" if "b \<in> set bs"
    using that
  proof (induction bs arbitrary: a)
    case (Cons c bs)
    show ?case
    proof (cases "b = c")
      case True
      then show ?thesis using vle_trans [OF 1 [of bs "vmin a (fst c)"] vmin_le(2)] by simp
    next
      case False
      then show ?thesis using Cons.prems Cons.IH [of "vmin a (fst c)"] by simp
    qed
  qed simp
qed

lemma fold_vmax: "vle a (fold (\<lambda>b a. vmax a (snd b)) bs a)"
  "b \<in> set bs \<Longrightarrow> vle (snd b) (fold (\<lambda>b a. vmax a (snd b)) bs a)"
proof -
  have 1: "vle a (fold (\<lambda>b a. vmax a (snd b)) bs a)" for bs :: "('b \<times> vec) list" and a
  proof (induction bs arbitrary: a)
    case (Cons b bs)
    show ?case using vle_trans [OF vmax_ge(1) Cons [of "vmax a (snd b)"]] by simp
  qed simp
  then show "vle a (fold (\<lambda>b a. vmax a (snd b)) bs a)" .
  show "vle (snd b) (fold (\<lambda>b a. vmax a (snd b)) bs a)" if "b \<in> set bs"
    using that
  proof (induction bs arbitrary: a)
    case (Cons c bs)
    show ?case
    proof (cases "b = c")
      case True
      then show ?thesis using vle_trans [OF vmax_ge(2) 1 [of "vmax a (snd c)" bs]] by simp
    next
      case False
      then show ?thesis using Cons.prems Cons.IH [of "vmax a (snd c)"] by simp
    qed
  qed simp
qed

lemma list_bounds_in_box:
  assumes "list_bounds items = (lo, hi)" "x \<in> set items"
  shows "in_box lo hi x"
proof -
  obtain y ys where items: "items = y # ys" using assms(2) by (cases items) auto
  have lo: "lo = fold (\<lambda>b a. vmin a (fst b)) (map tri_bounds ys) (fst (tri_bounds y))"
    and hi: "hi = fold (\<lambda>b a. vmax a (snd b)) (map tri_bounds ys) (snd (tri_bounds y))"
    using assms(1) by (auto simp: list_bounds_def items Let_def)
  have "x = y \<or> tri_bounds x \<in> set (map tri_bounds ys)" using assms(2) items by auto
  then have "vle lo (fst (tri_bounds x)) \<and> vle (snd (tri_bounds x)) hi"
    unfolding lo hi using fold_vmin fold_vmax by blast
  then show ?thesis using in_box_mono [OF tri_bounds_in_box] by blast
qed

section \<open>The builder\<close>

lemma bvh_rec_single: "bvh_rec [x] fresh nodes = Inr (fresh, fresh + 1, nodes(fresh \<mapsto> leaf_node x))"
  by (cases x) (simp add: bvh_rec.simps)

lemma bvh_rec_split:
  assumes "2 \<le> length items" "list_bounds items = (lo, hi)"
  defines "items' \<equiv> sort_key (centroid (widest_axis lo hi)) items"
  shows "bvh_rec items fresh nodes =
    ebind (bvh_rec (take (length items div 2) items') (fresh + 1) nodes) (\<lambda>(l, fresh', nodes').
    ebind (bvh_rec (drop (length items div 2) items') fresh' nodes') (\<lambda>(r, fresh'', nodes'').
    Inr (fresh, fresh'', nodes''(fresh \<mapsto> inner_node lo hi l r))))"
proof -
  obtain x y zs where "items = x # y # zs" using assms(1) by (cases items; cases "tl items") auto
  then show ?thesis using assms(2)
    by (subst bvh_rec.simps) (simp add: items'_def inner_node_def Let_def)
qed

lemma half_bound: "n \<le> 2 ^ Suc h \<Longrightarrow> n div 2 \<le> 2 ^ h \<and> n - n div 2 \<le> (2 :: nat) ^ h"
  by auto

lemma bvh_rec_stores:
  assumes "items \<noteq> []"
  shows "\<exists>nodes' t. bvh_rec items fresh nodes = Inr (fresh, fresh + 2 * int (length items) - 1, nodes') \<and>
    stored nodes' fresh (fresh + 2 * int (length items) - 1) t \<and>
    (\<forall>i. i < fresh \<or> fresh + 2 * int (length items) - 1 \<le> i \<longrightarrow> nodes' i = nodes i) \<and>
    mset (leaves t) = mset items \<and> boxed t \<and> (\<forall>h. length items \<le> 2 ^ h \<longrightarrow> bvh_height t \<le> h)"
  using assms
proof (induction items arbitrary: fresh nodes rule: length_induct)
  case (1 items)
  show ?case
  proof (cases "length items = 1")
    case True
    then obtain x where x: "items = [x]" by (auto simp: length_Suc_conv)
    show ?thesis unfolding x
      by (intro exI [of _ "nodes(fresh \<mapsto> leaf_node x)"] exI [of _ "BLeaf x"]) (auto simp: bvh_rec_single)
  next
    case False
    with 1 have n: "2 \<le> length items" by (cases items; cases "tl items") auto
    obtain lo hi where lh: "list_bounds items = (lo, hi)" using prod.exhaust by blast
    define items' k where "items' = sort_key (centroid (widest_axis lo hi)) items" and "k = length items div 2"
    define L R where "L = take k items'" and "R = drop k items'"
    have len: "length L = k" "length R = length items - k" "0 < k" "k < length items"
      using n by (simp_all add: L_def R_def items'_def k_def)
    then have ne: "L \<noteq> []" "R \<noteq> []" "length L < length items" "length R < length items" by auto
    have ms: "mset L + mset R = mset items"
      by (simp add: L_def R_def items'_def mset_append [symmetric] del: mset_append)
    obtain n1 t1 where s1: "bvh_rec L (fresh + 1) nodes = Inr (fresh + 1, fresh + 2 * int k, n1)"
      "stored n1 (fresh + 1) (fresh + 2 * int k) t1" "\<And>i. i < fresh + 1 \<or> fresh + 2 * int k \<le> i \<Longrightarrow> n1 i = nodes i"
      "mset (leaves t1) = mset L" "boxed t1" "\<And>h. k \<le> 2 ^ h \<Longrightarrow> bvh_height t1 \<le> h"
      using 1(1) [rule_format, OF ne(3,1), of "fresh + 1" nodes] by (auto simp: len)
    define b where "b = fresh + 2 * int (length items) - 1"
    have b: "fresh + 2 * int k + 2 * int (length items - k) - 1 = b" using len by (simp add: b_def)
    obtain n2 t2 where s2: "bvh_rec R (fresh + 2 * int k) n1 = Inr (fresh + 2 * int k, b, n2)"
      "stored n2 (fresh + 2 * int k) b t2" "\<And>i. i < fresh + 2 * int k \<or> b \<le> i \<Longrightarrow> n2 i = n1 i"
      "mset (leaves t2) = mset R" "boxed t2" "\<And>h. length items - k \<le> 2 ^ h \<Longrightarrow> bvh_height t2 \<le> h"
      using 1(1) [rule_format, OF ne(4,2), of "fresh + 2 * int k" n1] unfolding len(2) b by auto
    define n3 where "n3 = n2(fresh \<mapsto> inner_node lo hi (fresh + 1) (fresh + 2 * int k))"
    have rec: "bvh_rec items fresh nodes = Inr (fresh, b, n3)"
      unfolding bvh_rec_split [OF n lh] items'_def [symmetric] k_def [symmetric] L_def [symmetric] R_def [symmetric]
      by (simp add: s1(1) s2(1) n3_def)
    have "stored n3 (fresh + 1) (fresh + 2 * int k) t1"
      by (rule stored_frame [OF s1(2)]) (use s2(3) in \<open>auto simp: n3_def\<close>)
    moreover have "stored n3 (fresh + 2 * int k) b t2"
      by (rule stored_frame [OF s2(2)]) (use len in \<open>auto simp: n3_def\<close>)
    ultimately have st: "stored n3 fresh b (BNode lo hi t1 t2)" by (auto simp: n3_def)
    have fr: "\<And>i. i < fresh \<or> b \<le> i \<Longrightarrow> n3 i = nodes i" using s1(3) s2(3) len by (auto simp: n3_def b_def)
    have lv: "mset (leaves (BNode lo hi t1 t2)) = mset items" using s1(4) s2(4) ms by simp
    then have "set (leaves (BNode lo hi t1 t2)) = set items" by (rule mset_eq_setD)
    then have bx: "boxed (BNode lo hi t1 t2)" using s1(5) s2(5) list_bounds_in_box [OF lh] by (auto simp: list_all_iff)
    have ht: "bvh_height (BNode lo hi t1 t2) \<le> h" if "length items \<le> 2 ^ h" for h
    proof (cases h)
      case (Suc j)
      then have "k \<le> 2 ^ j" "length items - k \<le> 2 ^ j" using half_bound [of "length items" j] that by (simp_all add: k_def)
      then show ?thesis using s1(6) s2(6) Suc by simp
    qed (use that n in simp)
    show ?thesis
      unfolding b_def [symmetric] using rec st fr lv bx ht by blast
  qed
qed

end
