(* ===== verification/RtTraverse.thy ===== *)
theory RtTraverse
  imports RtBvh
begin

text \<open>
  The stack traversal against a recursive search of the tree: as long as the tree is not higher
  than the stack is deep, \<open>traverse\<close> visits what the recursion visits, drops nothing and stops. The
  search finds the nearest of the triangles whose boxes the ray meets.
\<close>

section \<open>The recursive search\<close>

definition test_leaf :: "vec \<Rightarrow> vec \<Rightarrow> tri \<Rightarrow> int \<times> best \<Rightarrow> int \<times> best" where
  "test_leaf ro d x s = (case x of (tid, v0, v1, v2) \<Rightarrow> case tri_isect ro d v0 v1 v2 of (h, t, u, v) \<Rightarrow>
     if h \<and> t < fst s then (t, (True, tid, u, v)) else s)"

fun search :: "vec \<Rightarrow> vec \<Rightarrow> vec \<Rightarrow> bvh \<Rightarrow> int \<times> best \<Rightarrow> int \<times> best" where
  "search ro d ri (BLeaf x) s = test_leaf ro d x s"
| "search ro d ri (BNode lo hi l r) s =
    (if fst (box_isect ro ri (fst s) lo hi) then
       (if fst d \<ge> 0 then search ro d ri r (search ro d ri l s) else search ro d ri l (search ro d ri r s))
     else s)"

text \<open>What happens when the subtree at hand is done: pop the stack or stop.\<close>

fun resume ::
    "nat \<Rightarrow> (int \<rightharpoonup> bvh_node) \<Rightarrow> vec \<Rightarrow> vec \<Rightarrow> vec \<Rightarrow> int list \<Rightarrow> int \<times> best \<Rightarrow> (py_error + (int \<times> best)) option" where
  "resume fuel nodes ro d ri [] s = Some (Inr s)"
| "resume fuel nodes ro d ri (a # stack) s = trav_loop fuel nodes ro d ri stack a (fst s) (snd s)"

lemma leaf_test_eq: "leaf_test (leaf_node x) ro d ct best = Inr (test_leaf ro d x (ct, best))"
  by (cases x) (auto simp: leaf_test_def test_leaf_def split: prod.splits)

lemma leaf_node_sel: "n_leaf (leaf_node x)" "\<not> n_leaf (inner_node lo hi l r)"
  "n_left (inner_node lo hi l r) = l" "n_right (inner_node lo hi l r) = r"
  "n_bmin (inner_node lo hi l r) = lo" "n_bmax (inner_node lo hi l r) = hi"
  by (cases x, simp) (simp_all add: inner_node_def new_node_def)

lemma trav_step_leaf:
  assumes "nodes a = Some (leaf_node x)"
  shows "trav_loop (Suc fuel) nodes ro d ri stack a (fst s) (snd s) =
    resume fuel nodes ro d ri stack (test_leaf ro d x s)"
  using assms by (cases stack) (simp_all add: leaf_node_sel leaf_test_eq split: prod.split)

lemma trav_step_inner:
  assumes "nodes a = Some (inner_node lo hi l r)" "length stack < 32"
  shows "trav_loop (Suc fuel) nodes ro d ri stack a (fst s) (snd s) =
    (if fst (box_isect ro ri (fst s) lo hi) then
       trav_loop fuel nodes ro d ri ((if fst d \<ge> 0 then r else l) # stack) (if fst d \<ge> 0 then l else r) (fst s) (snd s)
     else resume fuel nodes ro d ri stack s)"
  using assms by (cases stack) (auto simp: leaf_node_sel STACK_DEPTH_def split: prod.split)

declare trav_loop.simps [simp del]

lemma trav_search:
  assumes "stored nodes a b t" "length stack + bvh_height t \<le> 32"
  shows "\<exists>k \<le> bvh_nodes t. \<forall>fuel. trav_loop (k + fuel) nodes ro d ri stack a (fst s) (snd s) =
    resume fuel nodes ro d ri stack (search ro d ri t s)"
  using assms
proof (induction t arbitrary: a b stack s)
  case (BLeaf x)
  then have "trav_loop (1 + fuel) nodes ro d ri stack a (fst s) (snd s) = resume fuel nodes ro d ri stack (test_leaf ro d x s)" for fuel
    by (simp add: trav_step_leaf)
  then show ?case by (intro exI [of _ 1]) (simp del: One_nat_def)
next
  case (BNode lo hi l r)
  then obtain m where n: "nodes a = Some (inner_node lo hi (a + 1) m)" "stored nodes (a + 1) m l" "stored nodes m b r"
    by auto
  have len: "length stack < 32" using BNode.prems by simp
  note st = trav_step_inner [where nodes = nodes and a = a and s = s and stack = stack and ro = ro and d = d and ri = ri, OF n(1) len]
  show ?case
  proof (cases "fst (box_isect ro ri (fst s) lo hi)")
    case False
    then have "trav_loop (1 + fuel) nodes ro d ri stack a (fst s) (snd s) = resume fuel nodes ro d ri stack s" for fuel
      by (simp add: st)
    then show ?thesis using False by (intro exI [of _ 1]) (simp del: One_nat_def)
  next
    case True
    define near far na fa where "near = (if fst d \<ge> 0 then l else r)" and "far = (if fst d \<ge> 0 then r else l)"
      and "na = (if fst d \<ge> 0 then a + 1 else m)" and "fa = (if fst d \<ge> 0 then m else a + 1)"
    have IH: "\<exists>k \<le> bvh_nodes near. \<forall>fuel. trav_loop (k + fuel) nodes ro d ri stack' na (fst s') (snd s') =
        resume fuel nodes ro d ri stack' (search ro d ri near s')"
      "\<exists>k \<le> bvh_nodes far. \<forall>fuel. trav_loop (k + fuel) nodes ro d ri stack' fa (fst s') (snd s') =
        resume fuel nodes ro d ri stack' (search ro d ri far s')"
      if "length stack' + max (bvh_height l) (bvh_height r) \<le> 32" for stack' s'
      using that n(2,3) BNode.IH by (auto simp: near_def far_def na_def fa_def)
    have h: "length (fa # stack) + max (bvh_height l) (bvh_height r) \<le> 32" "length stack + max (bvh_height l) (bvh_height r) \<le> 32"
      using BNode.prems(2) by simp_all
    obtain k1 where k1: "k1 \<le> bvh_nodes near" "\<And>fuel. trav_loop (k1 + fuel) nodes ro d ri (fa # stack) na (fst s) (snd s) =
        resume fuel nodes ro d ri (fa # stack) (search ro d ri near s)"
      using IH(1) [OF h(1)] by blast
    define s1 where "s1 = search ro d ri near s"
    obtain k2 where k2: "k2 \<le> bvh_nodes far" "\<And>fuel. trav_loop (k2 + fuel) nodes ro d ri stack fa (fst s1) (snd s1) =
        resume fuel nodes ro d ri stack (search ro d ri far s1)"
      using IH(2) [OF h(2)] by blast
    have "trav_loop (Suc (k1 + k2) + fuel) nodes ro d ri stack a (fst s) (snd s) =
        resume fuel nodes ro d ri stack (search ro d ri (BNode lo hi l r) s)" for fuel
    proof -
      have "trav_loop (Suc (k1 + k2) + fuel) nodes ro d ri stack a (fst s) (snd s) =
          trav_loop (k1 + (k2 + fuel)) nodes ro d ri (fa # stack) na (fst s) (snd s)"
        using st [of "k1 + k2 + fuel"] True by (simp add: na_def fa_def add.assoc)
      also have "\<dots> = trav_loop (k2 + fuel) nodes ro d ri stack fa (fst s1) (snd s1)" by (simp add: k1(2) s1_def)
      also have "\<dots> = resume fuel nodes ro d ri stack (search ro d ri far s1)" by (rule k2(2))
      also have "search ro d ri far s1 = search ro d ri (BNode lo hi l r) s" using True by (simp add: s1_def near_def far_def)
      finally show ?thesis .
    qed
    moreover have "Suc (k1 + k2) \<le> bvh_nodes (BNode lo hi l r)"
      using k1(1) k2(1) by (simp add: near_def far_def split: if_splits)
    ultimately show ?thesis by blast
  qed
qed

section \<open>What the search finds\<close>

lemma test_leaf_le: "fst (test_leaf ro d x s) \<le> fst s"
  by (auto simp: test_leaf_def split: prod.split)

lemma search_le: "fst (search ro d ri t s) \<le> fst s"
proof (induction t arbitrary: s)
  case (BNode lo hi l r)
  have "fst (search ro d ri r (search ro d ri l s)) \<le> fst s" "fst (search ro d ri l (search ro d ri r s)) \<le> fst s"
    using BNode.IH order_trans by blast+
  then show ?case by (simp del: split_paired_All)
qed (simp add: test_leaf_le)

text \<open>The result is the initial one or a genuine intersection with a triangle of the tree.\<close>

definition genuine :: "vec \<Rightarrow> vec \<Rightarrow> tri list \<Rightarrow> int \<times> best \<Rightarrow> bool" where
  "genuine ro d xs s \<longleftrightarrow> (\<exists>tid v0 v1 v2 u v. (tid, v0, v1, v2) \<in> set xs \<and>
     tri_isect ro d v0 v1 v2 = (True, fst s, u, v) \<and> snd s = (True, tid, u, v))"

lemma genuine_mono: "genuine ro d xs s \<Longrightarrow> set xs \<subseteq> set ys \<Longrightarrow> genuine ro d ys s"
  unfolding genuine_def by blast

lemma search_genuine: "search ro d ri t s = s \<or> genuine ro d (leaves t) (search ro d ri t s)"
proof (induction t arbitrary: s)
  case (BLeaf x)
  then show ?case by (cases x) (auto simp: test_leaf_def genuine_def split: prod.split)
next
  case (BNode lo hi l r)
  have l: "search ro d ri l s = s \<or> genuine ro d (leaves l @ leaves r) (search ro d ri l s)" for s
    using BNode.IH(1) [of s] genuine_mono by (metis set_append sup_ge1)
  have r: "search ro d ri r s = s \<or> genuine ro d (leaves l @ leaves r) (search ro d ri r s)" for s
    using BNode.IH(2) [of s] genuine_mono by (metis set_append sup_ge2)
  show ?case
    using l [of s] r [of s] l [of "search ro d ri r s"] r [of "search ro d ri l s"] by auto
qed

text \<open>A triangle below boxes that the ray meets no farther than \<open>\<tau>\<close>.\<close>

fun visible :: "vec \<Rightarrow> vec \<Rightarrow> int \<Rightarrow> bvh \<Rightarrow> tri \<Rightarrow> bool" where
  "visible ro ri \<tau> (BLeaf x) y \<longleftrightarrow> y = x"
| "visible ro ri \<tau> (BNode lo hi l r) y \<longleftrightarrow>
     fst (box_isect ro ri \<tau> lo hi) \<and> (visible ro ri \<tau> l y \<or> visible ro ri \<tau> r y)"

lemma search_nearest:
  assumes "visible ro ri \<tau> t (tid, v0, v1, v2)" "tri_isect ro d v0 v1 v2 = (True, \<tau>, u, v)"
  shows "fst (search ro d ri t s) \<le> \<tau>"
  using assms(1)
proof (induction t arbitrary: s)
  case (BLeaf x)
  then show ?case using assms(2) by (auto simp: test_leaf_def)
next
  case (BNode lo hi l r)
  show ?case
  proof (cases "fst s \<le> \<tau>")
    case True
    then show ?thesis using search_le [of ro d ri "BNode lo hi l r" s] by linarith
  next
    case False
    then have "fst (box_isect ro ri (fst s) lo hi)" using box_isect_mono [of ro ri \<tau> lo hi "fst s"] BNode.prems by simp
    moreover have "fst (search ro d ri r (search ro d ri l s)) \<le> \<tau>" "fst (search ro d ri l (search ro d ri r s)) \<le> \<tau>"
    proof -
      have v: "visible ro ri \<tau> l (tid, v0, v1, v2) \<or> visible ro ri \<tau> r (tid, v0, v1, v2)" using BNode.prems by simp
      have le: "fst (search ro d ri r (search ro d ri l s)) \<le> fst (search ro d ri l s)"
        "fst (search ro d ri l (search ro d ri r s)) \<le> fst (search ro d ri r s)" by (rule search_le)+
      show "fst (search ro d ri r (search ro d ri l s)) \<le> \<tau>" "fst (search ro d ri l (search ro d ri r s)) \<le> \<tau>"
        using v le BNode.IH(1) [of s] BNode.IH(2) [of s] BNode.IH(1) [of "search ro d ri r s"]
          BNode.IH(2) [of "search ro d ri l s"] by linarith+
    qed
    ultimately show ?thesis by simp
  qed
qed

end
