(* ===== verification/RtProps.thy ===== *)
theory RtProps
  imports RtTraverse
begin

text \<open>
  The promises of the ray tracing model: the reciprocal, the outputs of an intersection, the slab
  test as a conservative filter, the tree the builder makes, the encoding of its nodes and the
  traversal.
\<close>

section \<open>The node word\<close>

text \<open>Lane \<open>k\<close> of a word, from the low end; the decoder the layout comments describe.\<close>

definition lane :: "int \<Rightarrow> nat \<Rightarrow> int" where
  "lane w k = take_bit 32 (drop_bit (32 * k) w)"

definition bits_to_node :: "int \<Rightarrow> py_error + bvh_node" where
  "bits_to_node w =
    (let s = (\<lambda>k. se32 (lane w k)) in
     Inr (if odd (lane w 11) then leaf_node (lane w 10, (s 8, s 7, s 6), (s 5, s 4, s 3), (s 2, s 1, s 0))
      else inner_node (s 8, s 7, s 6) (s 5, s 4, s 3) (lane w 10) (lane w 9)))"

definition is_u32 :: "int \<Rightarrow> bool" where
  "is_u32 x \<longleftrightarrow> 0 \<le> x \<and> x < 2 ^ 32"

fun vec32 :: "vec \<Rightarrow> bool" where
  "vec32 (a0, a1, a2) \<longleftrightarrow> list_all (\<lambda>x. - (2 ^ 31) \<le> x \<and> x < 2 ^ 31) [a0, a1, a2]"

definition node_ok :: "bvh_node \<Rightarrow> bool" where
  "node_ok n \<longleftrightarrow>
    (case n_verts n of
       Some (v0, v1, v2) \<Rightarrow> n = leaf_node (n_tri_id n, v0, v1, v2) \<and> is_u32 (n_tri_id n) \<and> vec32 v0 \<and> vec32 v1 \<and> vec32 v2
     | None \<Rightarrow> n = inner_node (n_bmin n) (n_bmax n) (n_left n) (n_right n) \<and> is_u32 (n_left n) \<and> is_u32 (n_right n) \<and>
         vec32 (n_bmin n) \<and> vec32 (n_bmax n))"

lemma u32_eq: "u32 x = take_bit 32 x"
  by (simp add: u32_def MASK32_def mask_simps)

lemma lane_push32 [simp]: "lane (push32 c w) k = (if k = 0 then u32 c else lane w (k - 1))"
proof -
  have 0: "take_bit 32 (push32 c w) = u32 c"
    by (rule bit_eqI) (auto simp: push32_def u32_eq bit_simps)
  have 1: "drop_bit 32 (push32 c w) = w"
    by (rule bit_eqI) (auto simp: push32_def u32_eq bit_simps)
  show ?thesis
  proof (cases k)
    case (Suc j)
    have "drop_bit (32 * k) (push32 c w) = drop_bit (32 * j) (drop_bit 32 (push32 c w))" by (simp add: Suc add.commute)
    then show ?thesis by (simp add: lane_def 1 Suc)
  qed (simp add: lane_def 0)
qed

lemma lane_shift [simp]: "lane (push_bit 32 w) k = (if k = 0 then 0 else lane w (k - 1))"
proof -
  have "push32 0 w = push_bit 32 w" by (simp add: push32_def u32_def)
  then show ?thesis using lane_push32 [of 0 w k] by (simp add: u32_def)
qed

lemma lane_push96: "lane (push_bit 96 w) k = (if k < 3 then 0 else lane w (k - 3))"
proof -
  have "push_bit 96 w = push_bit 32 (push_bit 32 (push_bit 32 w))" by simp
  then show ?thesis by (simp del: push_bit_push_bit) (simp add: numeral_3_eq_3 less_Suc_eq_le diff_le_mono)
qed

lemma se32_u32: "- (2 ^ 31) \<le> x \<Longrightarrow> x < 2 ^ 31 \<Longrightarrow> se32 (u32 x) = x"
proof -
  have "se32 (u32 x) = se32 x" unfolding se32_eq u32_def MASK32_and by simp
  then show "- (2 ^ 31) \<le> x \<Longrightarrow> x < 2 ^ 31 \<Longrightarrow> se32 (u32 x) = x" by (simp add: se32_id)
qed

lemma u32_id: "is_u32 x \<Longrightarrow> u32 x = x"
  by (simp add: u32_eq is_u32_def take_bit_id)

lemma node_codec: "node_ok n \<Longrightarrow> \<exists>w. node_to_bits n = Inr w \<and> bits_to_node w = Inr n \<and> 0 \<le> w \<and> w < 2 ^ 384"
proof -
  assume ok: "node_ok n"
  have pr: "0 \<le> push32 c w \<and> push32 c w < 2 ^ (32 + k)" if "0 \<le> w \<and> w < 2 ^ k" for c w k
  proof -
    have "push32 c w = w * 2 ^ 32 + u32 c"
    proof -
      have "push_bit 32 w + u32 c = push_bit 32 w OR u32 c" by (rule disjunctive_add) (auto simp: u32_eq bit_simps)
      then show ?thesis by (simp only: push32_def push_bit_eq_mult)
    qed
    moreover have "0 \<le> u32 c" "u32 c < 2 ^ 32" using take_bit_lt [of 32 c] by (simp_all add: u32_eq)
    moreover have "(w + 1) * 2 ^ 32 \<le> 2 ^ k * 2 ^ 32" using that by (intro mult_right_mono) simp_all
    ultimately show ?thesis using that by (simp add: power_add)
  qed
  have sh: "0 \<le> push_bit j w \<and> push_bit j w < 2 ^ (j + k)" if "0 \<le> w \<and> w < 2 ^ k" for w :: int and j k
    using that by (simp add: push_bit_eq_mult power_add)
  have fr: "0 \<le> fold push32 cs w \<and> fold push32 cs w < 2 ^ (32 * length cs + k)" if "0 \<le> w \<and> w < 2 ^ k" for cs w k
    using that
  proof (induction cs arbitrary: w k)
    case (Cons c cs)
    show ?case using Cons.IH [OF pr [OF Cons.prems], of c] by (simp add: algebra_simps)
  qed simp
  have l0: "lane 0 k = 0" "lane 1 0 = 1" for k by (simp_all add: lane_def)
  show ?thesis
  proof (cases "n_verts n")
    case (Some v)
    obtain a0 a1 a2 b0 b1 b2 c0 c1 c2 where v: "v = ((a0, a1, a2), (b0, b1, b2), (c0, c1, c2))" by (metis prod_cases3)
    define tid where "tid = n_tri_id n"
    have n: "n = leaf_node (tid, (a0, a1, a2), (b0, b1, b2), (c0, c1, c2))" and r: "is_u32 tid"
        "vec32 (a0, a1, a2)" "vec32 (b0, b1, b2)" "vec32 (c0, c1, c2)"
      using ok by (simp_all add: node_ok_def Some v tid_def del: vec32.simps)
    define w where "w = fold push32 [a0, a1, a2, b0, b1, b2, c0, c1, c2] (push_bit 32 (push32 tid 1))"
    have w: "node_to_bits n = Inr w" by (simp add: node_to_bits_def n w_def new_node_def)
    have "bits_to_node w = Inr n"
      using r by (simp add: bits_to_node_def w_def l0 n u32_id se32_u32 Let_def)
    moreover have "0 \<le> w \<and> w < 2 ^ (32 * 9 + (32 + (32 + 32)))"
      unfolding w_def using fr [OF sh [OF pr [of 1 32 tid], of 32], of "[a0, a1, a2, b0, b1, b2, c0, c1, c2]"] by simp
    ultimately show ?thesis using w by simp
  next
    case None
    obtain a0 a1 a2 b0 b1 b2 where v: "n_bmin n = (a0, a1, a2)" "n_bmax n = (b0, b1, b2)" by (metis prod_cases3)
    define l r where "l = n_left n" and "r = n_right n"
    have n: "n = inner_node (a0, a1, a2) (b0, b1, b2) l r" and k: "is_u32 l" "is_u32 r"
        "vec32 (a0, a1, a2)" "vec32 (b0, b1, b2)"
      using ok by (simp_all add: node_ok_def None v l_def r_def del: vec32.simps)
    define w where "w = push_bit 96 (fold push32 [a0, a1, a2, b0, b1, b2] (push32 r (push32 l 0)))"
    have w: "node_to_bits n = Inr w" by (simp add: node_to_bits_def n w_def new_node_def inner_node_def)
    have "bits_to_node w = Inr n"
      unfolding bits_to_node_def w_def using k by (simp add: lane_push96 l0 n u32_id se32_u32 Let_def)
    moreover have "0 \<le> w \<and> w < 2 ^ (96 + (32 * length [a0, a1, a2, b0, b1, b2] + (32 + (32 + 0))))"
      unfolding w_def by (rule sh, rule fr, rule pr, rule pr) simp
    moreover have "(2 :: int) ^ (96 + (32 * length [a0, a1, a2, b0, b1, b2] + (32 + (32 + 0)))) \<le> 2 ^ 384" by simp
    ultimately show ?thesis using w order_less_le_trans by blast
  qed
qed

interpretation node_word: codec node_to_bits bits_to_node node_ok
proof
  show "\<exists>w. node_to_bits n = Inr w" if "node_ok n" for n using node_codec [OF that] by blast
  show "bits_to_node w = Inr n" if "node_ok n" "node_to_bits n = Inr w" for n w using node_codec [OF that(1)] that(2) by auto
qed

section \<open>Building and traversing\<close>

lemma build_bvh_stores:
  assumes "tris \<noteq> []"
  shows "\<exists>nodes t. build_bvh tris = Inr (nodes, 1) \<and> stored nodes 1 (2 * int (length tris)) t \<and>
    dom nodes = {1..<2 * int (length tris)} \<and> mset (leaves t) = mset tris \<and> boxed t \<and>
    (\<forall>h. length tris \<le> 2 ^ h \<longrightarrow> bvh_height t \<le> h)"
proof -
  obtain nodes t where n: "bvh_rec tris 1 (\<lambda>_. None) = Inr (1, 2 * int (length tris), nodes)"
    "stored nodes 1 (2 * int (length tris)) t"
    "\<And>i. i < 1 \<or> 2 * int (length tris) \<le> i \<Longrightarrow> nodes i = None"
    "mset (leaves t) = mset tris" "boxed t" "\<And>h. length tris \<le> 2 ^ h \<Longrightarrow> bvh_height t \<le> h"
    using bvh_rec_stores [OF assms, of 1 "\<lambda>_. None"] by auto
  have in_dom: "a \<le> i \<Longrightarrow> i < b \<Longrightarrow> i \<in> dom nodes" if "stored nodes a b s" for s a b i
    using that
  proof (induction s arbitrary: a b)
    case (BNode lo hi l r)
    then obtain m where m: "nodes a = Some (inner_node lo hi (a + 1) m)" "stored nodes (a + 1) m l" "stored nodes m b r"
      by auto
    then show ?case using BNode.IH(1) [OF _ _ m(2)] BNode.IH(2) [OF _ _ m(3)] BNode.prems
      by (cases "i = a"; cases "i < m") auto
  qed auto
  have "dom nodes = {1..<2 * int (length tris)}"
  proof (rule set_eqI)
    fix i
    show "i \<in> dom nodes \<longleftrightarrow> i \<in> {1..<2 * int (length tris)}"
      using n(3) [of i] in_dom [OF n(2), of i] by (cases "1 \<le> i \<and> i < 2 * int (length tris)") (auto simp: domIff)
  qed
  then show ?thesis using n by (auto simp: build_bvh_def)
qed

lemma traverse_search:
  assumes "stored nodes root b t" "bvh_height t \<le> 32" "search ro d ri t (0x7FFFFFFF, (False, 0, 0, 0)) = (ct, (bhit, tid, u, v))"
  shows "traverse (bvh_nodes t + extra) nodes root ro d ri = Some (Inr (bhit, (if bhit then tid else 0), ct, u, v))"
proof -
  obtain k where k: "k \<le> bvh_nodes t" "\<And>fuel. trav_loop (k + fuel) nodes ro d ri [] root 0x7FFFFFFF (False, 0, 0, 0) =
      resume fuel nodes ro d ri [] (search ro d ri t (0x7FFFFFFF, (False, 0, 0, 0)))"
    using trav_search [OF assms(1), of "[]" ro d ri "(0x7FFFFFFF, (False, 0, 0, 0))"] assms(2) by auto
  have "bvh_nodes t + extra = k + (bvh_nodes t - k + extra)" using k(1) by simp
  then have "trav_loop (bvh_nodes t + extra) nodes ro d ri [] root 0x7FFFFFFF (False, 0, 0, 0) = Some (Inr (ct, (bhit, tid, u, v)))"
    using k(2) [of "bvh_nodes t - k + extra"] assms(3) by simp
  then show ?thesis by (simp add: traverse_def)
qed

lemma traverse_finds:
  assumes "tris \<noteq> []" "length tris \<le> 2 ^ 32"
  shows "\<exists>nodes t bhit tid ct u v. build_bvh tris = Inr (nodes, 1) \<and> stored nodes 1 (2 * int (length tris)) t \<and>
    (\<forall>extra. traverse (2 * length tris + extra) nodes 1 ro d ri = Some (Inr (bhit, tid, ct, u, v))) \<and>
    (if bhit then \<exists>v0 v1 v2. (tid, v0, v1, v2) \<in> set tris \<and> tri_isect ro d v0 v1 v2 = (True, ct, u, v)
     else (tid, ct, u, v) = (0, 0x7FFFFFFF, 0, 0)) \<and>
    list_all (\<lambda>(xid, v0, v1, v2). case tri_isect ro d v0 v1 v2 of (h, \<tau>, _, _) \<Rightarrow>
      if h \<and> visible ro ri \<tau> t (xid, v0, v1, v2) then ct \<le> \<tau> else True) tris"
proof -
  obtain nodes t where b: "build_bvh tris = Inr (nodes, 1)" "stored nodes 1 (2 * int (length tris)) t"
    "mset (leaves t) = mset tris" "bvh_height t \<le> 32"
    using build_bvh_stores [OF assms(1)] assms(2) by blast
  define s0 :: "int \<times> best" where "s0 = (0x7FFFFFFF, (False, 0, 0, 0))"
  obtain ct bhit tid u v where s: "search ro d ri t s0 = (ct, (bhit, tid, u, v))" by (metis prod_cases5)
  have "set (leaves t) = set tris" by (rule mset_eq_setD [OF b(3)])
  then have g: "search ro d ri t s0 = s0 \<or> genuine ro d tris (search ro d ri t s0)"
    using search_genuine [of ro d ri t s0] by (auto simp: genuine_def)
  have n: "2 * length tris = bvh_nodes t + 1"
    using bvh_nodes_leaves [of t] b(3) by (metis Suc_eq_plus1 mset_eq_length)
  have tr: "traverse (2 * length tris + extra) nodes 1 ro d ri = Some (Inr (bhit, (if bhit then tid else 0), ct, u, v))" for extra
    using traverse_search [OF b(2,4), of ro d ri ct bhit tid u v "1 + extra"] s by (simp add: n s0_def)
  have near: "ct \<le> \<tau>" if "visible ro ri \<tau> t (xid, v0, v1, v2)" "tri_isect ro d v0 v1 v2 = (True, \<tau>, u', v')" for xid v0 v1 v2 \<tau> u' v'
    using search_nearest [OF that, of s0] s by simp
  have hit: "if bhit then \<exists>v0 v1 v2. (tid, v0, v1, v2) \<in> set tris \<and> tri_isect ro d v0 v1 v2 = (True, ct, u, v)
     else ((if bhit then tid else 0), ct, u, v) = (0, 0x7FFFFFFF, 0, 0)"
  proof (cases bhit)
    case True
    then have "genuine ro d tris (ct, (bhit, tid, u, v))" using g s by (auto simp: s0_def)
    then have "\<exists>v0 v1 v2. (tid, v0, v1, v2) \<in> set tris \<and> tri_isect ro d v0 v1 v2 = (True, ct, u, v)"
      unfolding genuine_def fst_conv snd_conv prod.inject by blast
    then show ?thesis using True by (simp only: if_True)
  next
    case False
    then have "\<not> genuine ro d tris (ct, (bhit, tid, u, v))" by (simp add: genuine_def)
    then show ?thesis using g s False by (auto simp: s0_def)
  qed
  show ?thesis
    using b(1,2) tr near hit
    by (intro exI [of _ nodes] exI [of _ t] exI [of _ bhit] exI [of _ "if bhit then tid else 0"] exI [of _ ct] exI [of _ u] exI [of _ v])
      (auto simp: list_all_iff split: prod.split)
qed

section \<open>Properties\<close>

text \<open>C19: \<open>traverse\<close> on the tree \<open>build_bvh\<close> makes of up to \<open>2 ^ 32\<close> triangles: it stops within \<open>2 n\<close>
  rounds without a \<open>KeyError\<close>, a reported hit is an intersection with one of the triangles, at the reported
  distance and coordinates, and no triangle whose enclosing boxes the ray meets no farther than the triangle is
  nearer.\<close>

theorem traverse_nearest:
  assumes "tris \<noteq> []" "length tris \<le> 2 ^ 32"
  shows "\<exists>nodes t bhit tid ct u v. build_bvh tris = Inr (nodes, 1) \<and> stored nodes 1 (2 * int (length tris)) t \<and>
    (\<forall>extra. traverse (2 * length tris + extra) nodes 1 ro d ri = Some (Inr (bhit, tid, ct, u, v))) \<and>
    (if bhit then \<exists>v0 v1 v2. (tid, v0, v1, v2) \<in> set tris \<and> tri_isect ro d v0 v1 v2 = (True, ct, u, v)
     else (tid, ct, u, v) = (0, 0x7FFFFFFF, 0, 0)) \<and>
    list_all (\<lambda>(xid, v0, v1, v2). case tri_isect ro d v0 v1 v2 of (h, \<tau>, _, _) \<Rightarrow>
      if h \<and> visible ro ri \<tau> t (xid, v0, v1, v2) then ct \<le> \<tau> else True) tris"
  by (rule traverse_finds [OF assms])

lemma traverse_nearest_witness:
  "\<exists>nodes t bhit tid ct u v.
    build_bvh [(7, (0, 0, 0), (65536, 0, 0), (0, 65536, 0)), (9, (0, 0, 65536), (65536, 0, 65536), (0, 65536, 65536))] =
      Inr (nodes, 1) \<and> stored nodes 1 (2 * int 2) t \<and>
    (\<forall>extra. traverse (2 * 2 + extra) nodes 1 (16384, 16384, - 65536) (0, 0, 65536) (0x7FFFFFFF, 0x7FFFFFFF, 65536) =
      Some (Inr (bhit, tid, ct, u, v)))"
  using traverse_nearest [of "[(7, (0, 0, 0), (65536, 0, 0), (0, 65536, 0)), (9, (0, 0, 65536), (65536, 0, 65536), (0, 65536, 65536))]"
      "(16384, 16384, - 65536)" "(0, 0, 65536)" "(0x7FFFFFFF, 0x7FFFFFFF, 65536)"]
  by (auto simp: numeral_2_eq_2 [symmetric])

text \<open>C20: \<open>build_bvh\<close> raises \<open>ValueError\<close> on no triangles; otherwise its map stores, at the addresses from 1 to
  \<open>2 n - 1\<close>, a binary tree with every triangle in exactly one leaf, whose boxes contain all vertices below them,
  and whose height \<open>k\<close> is logarithmic: \<open>2 ^ (k - 1) < n\<close>, or 0 for one triangle.\<close>

theorem build_bvh_tree:
  "if tris = [] then build_bvh tris = Inl ValueError
   else \<exists>nodes t. build_bvh tris = Inr (nodes, 1) \<and> stored nodes 1 (2 * int (length tris)) t \<and>
     dom nodes = {1..<2 * int (length tris)} \<and> mset (leaves t) = mset tris \<and> boxed t \<and>
     2 ^ (bvh_height t - 1) < length tris + of_bool (bvh_height t = 0)"
proof (cases "tris = []")
  case True
  then show ?thesis by (simp add: build_bvh_def bvh_rec.simps)
next
  case False
  have "2 ^ (bvh_height t - 1) < length tris + of_bool (bvh_height t = 0)"
    if "\<forall>h. length tris \<le> 2 ^ h \<longrightarrow> bvh_height t \<le> h" for t
    using that [rule_format, of "bvh_height t - 1"] False by (cases "bvh_height t") (auto simp: not_le [symmetric])
  then show ?thesis using build_bvh_stores [OF False] False by (simp only: if_False) blast
qed

text \<open>C18: the node word is a faithful encoding: every node with 32-bit fields, in the form the builder
  makes, is encoded without error, decodes to itself by the documented lanes and fits in 384 bits; no two such
  nodes share a word.\<close>

theorem node_word_roundtrip:
  assumes "node_ok n" "node_ok n'"
  shows "\<exists>w. node_to_bits n = Inr w \<and> bits_to_node w = Inr n \<and> 0 \<le> w \<and> w < 2 ^ 384 \<and>
    (if node_to_bits n' = Inr w then n' = n else True)"
  using node_codec [OF assms(1)] node_word.enc_inj [OF assms(2,1)] by fastforce

lemma node_word_roundtrip_witness:
  "\<exists>w. node_to_bits (leaf_node (5, (1, - 1, 0), (2, 3, - 2147483648), (0, 0, 65536))) = Inr w \<and>
    bits_to_node w = Inr (leaf_node (5, (1, - 1, 0), (2, 3, - 2147483648), (0, 0, 65536))) \<and> 0 \<le> w \<and> w < 2 ^ 384 \<and>
    (if node_to_bits (inner_node (0, 0, 0) (1, 1, 1) 2 3) = Inr w
     then inner_node (0, 0, 0) (1, 1, 1) 2 3 = leaf_node (5, (1, - 1, 0), (2, 3, - 2147483648), (0, 0, 65536)) else True)"
  by (rule node_word_roundtrip) (simp_all add: node_ok_def inner_node_def new_node_def is_u32_def)

text \<open>C21: the Newton-Raphson reciprocal of every non-zero 32-bit determinant is \<open>2 ^ 32 / n\<close> up to less than
  \<open>1 + 16 / n\<close>, within 32 bits; no intermediate wrap-around spoils it.\<close>

theorem reciprocal_accurate:
  assumes "0 < n" "n < 2 ^ 32"
  shows "\<bar>recip32 n * n - 2 ^ 32\<bar> < 16 + n \<and> 0 \<le> recip32 n \<and> recip32 n < 2 ^ 32"
  using recip32_bounds [OF assms] assms by auto

lemma reciprocal_accurate_witness:
  "\<bar>recip32 3 * 3 - 2 ^ 32\<bar> < 16 + 3 \<and> 0 \<le> recip32 3 \<and> recip32 3 < 2 ^ 32"
  by (rule reciprocal_accurate) simp_all

text \<open>C22: a ray-triangle hit is inside the triangle: the barycentric outputs are non-negative with a sum of at
  most 1.0, the distance is a non-negative 31-bit number, and all three are the quotients of the numerators by the determinant
  up to the error of the reciprocal, the distance unless it saturates; a miss outputs zeros.\<close>

theorem tri_isect_outputs:
  assumes "tri_isect ro d v0 v1 v2 = (h, t, u, v)"
    and "tri_normalise (tri_numerators ro d v0 v1 v2) = (n_det, nu, nv, nt)" "n = n_det mod 2 ^ 32"
  shows "if h then 0 \<le> u \<and> 0 \<le> v \<and> u + v \<le> FX_ONE \<and> 0 \<le> t \<and> t < 2 ^ 31 \<and>
      0 < n \<and> 0 \<le> nu \<and> 0 \<le> nv \<and> nu + nv \<le> n \<and> 0 < nt \<and>
      quotient_near nu n u \<and> quotient_near nv n v \<and> (t = 0x7FFFFFFF \<or> quotient_near nt n t)
    else (t, u, v) = (0, 0, 0)"
proof (cases h)
  case True
  then show ?thesis using tri_hit_outputs [OF assms(1) [unfolded True [THEN eqTrueI]] assms(2,3)] by simp
next
  case False
  then show ?thesis using tri_miss_outputs [of ro d v0 v1 v2] assms(1) by simp
qed

lemma tri_isect_outputs_witness:
  "if True then 0 \<le> (16383 :: int) \<and> 0 \<le> (16383 :: int) \<and> 16383 + 16383 \<le> FX_ONE \<and> 0 \<le> (65535 :: int) \<and> (65535 :: int) < 2 ^ 31 \<and>
      0 < (65536 :: int) \<and> 0 \<le> (16384 :: int) \<and> 0 \<le> (16384 :: int) \<and> 16384 + 16384 \<le> (65536 :: int) \<and> 0 < (65536 :: int) \<and>
      quotient_near 16384 65536 16383 \<and> quotient_near 16384 65536 16383 \<and>
      (65535 = (0x7FFFFFFF :: int) \<or> quotient_near 65536 65536 65535)
    else (65535 :: int, 16383 :: int, 16383 :: int) = (0, 0, 0)"
  by (rule tri_isect_outputs [where ro = "(16384, 16384, - 65536)" and d = "(0, 0, 65536)" and ?v0.0 = "(0, 0, 0)" and
        ?v1.0 = "(65536, 0, 0)" and ?v2.0 = "(0, 65536, 0)" and n_det = 65536]) code_simp+

text \<open>The slab test is a conservative filter where its products do not wrap: a box that contains the
  origin of the ray is hit, and a box around one that is hit is hit, at any greater distance.\<close>

theorem box_isect_conservative:
  assumes "vle l h" "box_exact p i l" "box_exact p i h" "0 \<le> t"
    and "vle l' l" "vle h h'" "box_exact p i l'" "box_exact p i h'" "t \<le> t'"
  shows "(if vle l p \<and> vle p h then fst (box_isect p i t l h) else True) \<and>
    (if fst (box_isect p i t l h) then fst (box_isect p i t' l' h') else True)"
  using box_contains_origin [of l p h i t] box_grows [of l' l h h' p i t t'] assms by simp

lemma box_isect_conservative_witness:
  "(if vle (0, 0, 0) (5, 5, 5) \<and> vle (5, 5, 5) (10, 10, 10)
    then fst (box_isect (5, 5, 5) (65536, - 65536, 131072) 100 (0, 0, 0) (10, 10, 10)) else True) \<and>
   (if fst (box_isect (5, 5, 5) (65536, - 65536, 131072) 100 (0, 0, 0) (10, 10, 10))
    then fst (box_isect (5, 5, 5) (65536, - 65536, 131072) 200 (- 1, 0, - 7) (10, 12, 10)) else True)"
  by (rule box_isect_conservative) (simp_all add: slab_exact_def)

end
