(* ===== verification/PyText.thy ===== *)
theory PyText
  imports Prelude
begin

text \<open>
  Numbers as the format strings of the source print them: upper- and lower-case hexadecimal with zero
  padding, and the reading of hexadecimal text, \<open>int(s, 16)\<close>.
\<close>

section \<open>Printing\<close>

definition hex_digit :: "int \<Rightarrow> char" where
  "hex_digit d = ''0123456789ABCDEF'' ! nat d"

text \<open>Upper-case hexadecimal, zero-padded to a width; decimal, padded with blanks.\<close>

fun hex_digits :: "nat \<Rightarrow> int \<Rightarrow> string" where
  "hex_digits 0 v = []"
| "hex_digits (Suc n) v = (if v = 0 then [] else hex_digits n (drop_bit 4 v) @ [hex_digit (v AND 0xF)])"

definition pad_left :: "char \<Rightarrow> nat \<Rightarrow> string \<Rightarrow> string" where
  "pad_left c n s = replicate (n - length s) c @ s"

definition hex_str :: "nat \<Rightarrow> int \<Rightarrow> string" where
  "hex_str n v =
    (let ds = (if v = 0 then ''0'' else hex_digits (nat (bit_length v)) \<bar>v\<bar>) in
     if v < 0 then ''-'' @ pad_left (CHR ''0'') (n - 1) ds else pad_left (CHR ''0'') n ds)"

section \<open>Reading\<close>

definition hex_val :: "char \<Rightarrow> int option" where
  "hex_val c =
    (let n = (of_char c :: nat) in
     if 48 \<le> n \<and> n \<le> 57 then Some (int n - 48)
     else if 65 \<le> n \<and> n \<le> 70 then Some (int n - 55)
     else if 97 \<le> n \<and> n \<le> 102 then Some (int n - 87)
     else None)"

text \<open>Digits with single underscores between them; the flag says that the last character was a digit.\<close>

fun read_digits :: "int \<Rightarrow> bool \<Rightarrow> string \<Rightarrow> py_error + int" where
  "read_digits acc ok [] = (if ok then Inr acc else Inl ValueError)"
| "read_digits acc ok (c # cs) =
    (if c = CHR ''_'' then (if ok then read_digits acc False cs else Inl ValueError)
     else (case hex_val c of
             None \<Rightarrow> Inl ValueError
           | Some d \<Rightarrow> read_digits (16 * acc + d) True cs))"

text \<open>\<open>int(s, 16)\<close> of a text without surrounding blanks: a sign, a prefix, digits.\<close>

fun read_unsigned :: "string \<Rightarrow> py_error + int" where
  "read_unsigned (c # d # cs) =
    (if c = CHR ''0'' \<and> (d = CHR ''x'' \<or> d = CHR ''X'')
     then read_digits 0 False (if cs \<noteq> [] \<and> hd cs = CHR ''_'' then List.tl cs else cs)
     else read_digits 0 False (c # d # cs))"
| "read_unsigned cs = read_digits 0 False cs"

definition read_hex :: "string \<Rightarrow> py_error + int" where
  "read_hex s =
    (if s \<noteq> [] \<and> hd s = CHR ''-'' then ebind (read_unsigned (List.tl s)) (\<lambda>v. Inr (- v))
     else if s \<noteq> [] \<and> hd s = CHR ''+'' then read_unsigned (List.tl s)
     else read_unsigned s)"

section \<open>Reading what was printed\<close>

lemma hex_val_digit: "0 \<le> d \<Longrightarrow> d < 16 \<Longrightarrow> hex_val (hex_digit d) = Some d \<and> hex_digit d \<noteq> CHR ''_'' \<and>
    hex_digit d \<noteq> CHR ''x'' \<and> hex_digit d \<noteq> CHR ''X'' \<and> hex_digit d \<noteq> CHR ''-'' \<and> hex_digit d \<noteq> CHR ''+''"
proof -
  assume "0 \<le> d" "d < 16"
  then have "d \<in> set [0, 1, 2, 3, 4, 5, 6, 7, 8, 9, 10, 11, 12, 13, 14, 15]"
    unfolding list.set insert_iff empty_iff by arith
  moreover have "list_all (\<lambda>d. hex_val (hex_digit d) = Some d \<and> hex_digit d \<noteq> CHR ''_'' \<and>
      hex_digit d \<noteq> CHR ''x'' \<and> hex_digit d \<noteq> CHR ''X'' \<and> hex_digit d \<noteq> CHR ''-'' \<and> hex_digit d \<noteq> CHR ''+'')
      [0, 1, 2, 3, 4, 5, 6, 7, 8, 9, 10, 11, 12, 13, 14, 15]"
    by (simp add: hex_digit_def hex_val_def)
  ultimately show ?thesis unfolding list_all_iff by blast
qed

definition plain_hex :: "char \<Rightarrow> bool" where
  "plain_hex c \<longleftrightarrow> (\<exists>d. 0 \<le> d \<and> d < 16 \<and> c = hex_digit d)"

lemma hex_digits_plain: "list_all plain_hex (hex_digits n v)"
  by (induction n arbitrary: v)
    (auto simp: plain_hex_def mask_simps intro: exI [of _ "take_bit 4 v" for v] take_bit_lt [of 4, simplified])

lemma read_hex_digits:
  "0 \<le> v \<Longrightarrow> v < 16 ^ n \<Longrightarrow>
    read_digits acc ok (hex_digits n v @ cs) = read_digits (acc * 16 ^ length (hex_digits n v) + v) (ok \<or> v \<noteq> 0) cs"
proof (induction n arbitrary: v cs)
  case (Suc n)
  have d: "hex_val (hex_digit (v AND 15)) = Some (v mod 16)" "hex_digit (v AND 15) \<noteq> CHR ''_''"
    using hex_val_digit [of "v mod 16"] by (simp_all add: mask_simps take_bit_eq_mod)
  have q: "0 \<le> drop_bit 4 v" "drop_bit 4 v < 16 ^ n" "drop_bit 4 v = v div 16"
    using Suc.prems by (simp_all add: drop_bit_eq_div)
  show ?case
  proof (cases "v = 0")
    case False
    have e: "16 * (acc * 16 ^ length (hex_digits n (v div 16)) + v div 16) + v mod 16 =
        acc * 16 ^ length (hex_digits (Suc n) v) + v"
      using div_mult_mod_eq [of v 16] False by (simp add: algebra_simps q(3))
    have "read_digits acc ok (hex_digits (Suc n) v @ cs) =
        read_digits (acc * 16 ^ length (hex_digits n (v div 16)) + v div 16) (ok \<or> v div 16 \<noteq> 0) (hex_digit (v AND 15) # cs)"
      using Suc.IH [OF q(1,2), of "hex_digit (v AND 15) # cs"] False q(3) by simp
    also have "\<dots> = read_digits (16 * (acc * 16 ^ length (hex_digits n (v div 16)) + v div 16) + v mod 16) True cs"
      by (simp only: read_digits.simps d option.case if_False)
    finally show ?thesis unfolding e using False by simp
  qed simp
next
  case 0
  then have "v = 0" by simp
  then show ?case by simp
qed

lemma hex_digits_length: "0 \<le> v \<Longrightarrow> v < 16 ^ k \<Longrightarrow> length (hex_digits n v) \<le> k"
proof (induction n arbitrary: v k)
  case (Suc n)
  show ?case
  proof (cases "v = 0")
    case False
    then obtain j where k: "k = Suc j" using Suc.prems by (cases k) auto
    have "drop_bit 4 v < 16 ^ j" "0 \<le> drop_bit 4 v" using Suc.prems k by (simp_all add: drop_bit_eq_div)
    then show ?thesis using Suc.IH [of "drop_bit 4 v" j] k False by simp
  qed simp
qed simp

lemma read_zeros: "read_digits 0 ok (replicate m (CHR ''0'') @ cs) = read_digits 0 (ok \<or> m \<noteq> 0) cs"
  by (induction m arbitrary: ok) (auto simp: hex_val_def)

lemma pow2_le_pow16: "(2::int) ^ n \<le> 16 ^ n"
  by (rule power_mono) simp_all

definition hex_body :: "int \<Rightarrow> string" where
  "hex_body v = (if v = 0 then ''0'' else hex_digits (nat (bit_length v)) v)"

lemma hex_str_nonneg: "0 \<le> v \<Longrightarrow> hex_str n v = replicate (n - length (hex_body v)) (CHR ''0'') @ hex_body v"
  by (simp add: hex_str_def hex_body_def pad_left_def Let_def)

lemma bit_length_fits: "0 < v \<Longrightarrow> v < 16 ^ nat (bit_length v)"
proof -
  assume v: "0 < v"
  then obtain n where "bit_length v = int (Suc n)"
    using bit_length_pos [OF v] by (metis gr0_conv_Suc of_nat_0_less_iff zero_less_imp_eq_int)
  then show ?thesis using bit_length_bounds [OF v] pow2_le_pow16 [of "Suc n"] by (metis nat_int order_less_le_trans)
qed

lemma read_hex_str_digits:
  assumes "0 \<le> v" shows "read_digits 0 False (hex_str n v) = Inr v"
proof (cases "v = 0")
  case True
  then show ?thesis using read_zeros [of False "n - 1" "''0''"] by (simp add: hex_str_nonneg hex_body_def hex_val_def)
next
  case False
  then have "read_digits 0 (n - length (hex_body v) \<noteq> 0) (hex_body v) = Inr v"
    using read_hex_digits [of v "nat (bit_length v)" 0 _ "[]"] bit_length_fits [of v] assms by (simp add: hex_body_def)
  then show ?thesis using assms read_zeros [of False "n - length (hex_body v)" "hex_body v"] by (simp add: hex_str_nonneg)
qed

lemma plain_zero [simp]: "plain_hex (CHR ''0'')"
  unfolding plain_hex_def by (rule exI [of _ 0]) (simp add: hex_digit_def)

lemma hex_str_plain: "0 \<le> v \<Longrightarrow> list_all plain_hex (hex_str n v)"
  using hex_digits_plain [of "nat (bit_length v)" v] by (auto simp: hex_str_nonneg hex_body_def list_all_iff)

lemma plain_no_prefix: "plain_hex c \<Longrightarrow> c \<noteq> CHR ''x'' \<and> c \<noteq> CHR ''X'' \<and> c \<noteq> CHR ''-'' \<and> c \<noteq> CHR ''+''\<and> c \<noteq> CHR ''_''"
  unfolding plain_hex_def using hex_val_digit by auto

theorem read_hex_str: "0 \<le> v \<Longrightarrow> read_hex (hex_str n v) = Inr v"
  using read_hex_str_digits [of v n] hex_str_plain [of v n]
  by (cases "hex_str n v" rule: read_unsigned.cases) (auto simp: read_hex_def dest: plain_no_prefix)

theorem read_hex_prefixed: "0 \<le> v \<Longrightarrow> read_hex (''0x'' @ hex_str n v) = Inr v"
  using read_hex_str_digits [of v n] hex_str_plain [of v n]
  by (cases "hex_str n v") (auto simp: read_hex_def dest: plain_no_prefix)

lemma hex_body_length: "0 \<le> v \<Longrightarrow> v < 16 ^ n \<Longrightarrow> 0 < n \<Longrightarrow> length (hex_body v) \<le> n"
  using hex_digits_length [of v n] by (simp add: hex_body_def)

lemma hex_str_length: "0 \<le> v \<Longrightarrow> v < 16 ^ n \<Longrightarrow> 0 < n \<Longrightarrow> length (hex_str n v) = n"
  using hex_body_length [of v n] by (simp add: hex_str_nonneg)

end
