(* ===== verification/PyString.thy ===== *)
theory PyString
  imports PyText Isa "HOL-Library.List_Lexorder" "HOL-Library.Char_ord"
begin

text \<open>
  The string methods of Python the scripts use, on texts of one-byte characters: \<open>strip\<close>, \<open>split\<close>,
  \<open>splitlines\<close>, \<open>startswith\<close>, \<open>join\<close>, and decimal numbers and their reading.
\<close>

section \<open>Blanks and lines\<close>

definition char_code :: "char \<Rightarrow> nat" where
  "char_code c = of_char c"

definition is_space :: "char \<Rightarrow> bool" where
  "is_space c \<longleftrightarrow> char_code c \<in> set [9, 10, 11, 12, 13, 28, 29, 30, 31, 32, 133, 160]"

definition py_lstrip :: "string \<Rightarrow> string" where
  "py_lstrip s = dropWhile is_space s"

definition py_rstrip :: "string \<Rightarrow> string" where
  "py_rstrip s = rev (dropWhile is_space (rev s))"

definition py_strip :: "string \<Rightarrow> string" where
  "py_strip s = py_rstrip (py_lstrip s)"

lemma py_lstrip_hd: "py_lstrip s \<noteq> [] \<Longrightarrow> \<not> is_space (hd (py_lstrip s))"
  by (simp add: py_lstrip_def hd_dropWhile)

lemma py_lstrip_length: "length (py_lstrip s) \<le> length s"
  by (simp add: py_lstrip_def length_dropWhile_le)

text \<open>\<open>s.split()\<close>.\<close>

function py_split :: "string \<Rightarrow> string list" where
  "py_split s =
    (let t = py_lstrip s in
     if t = [] then [] else takeWhile (\<lambda>c. \<not> is_space c) t # py_split (dropWhile (\<lambda>c. \<not> is_space c) t))"
  by pat_completeness auto

termination
proof (relation "measure length")
  fix s t assume t: "t = py_lstrip s" "t \<noteq> []"
  then obtain c cs where c: "t = c # cs" "\<not> is_space c" using py_lstrip_hd [of s] by (metis list.collapse)
  then have "length (dropWhile (\<lambda>c. \<not> is_space c) t) \<le> length cs" by (simp add: length_dropWhile_le)
  then show "(dropWhile (\<lambda>c. \<not> is_space c) t, s) \<in> measure length"
    using c py_lstrip_length [of s] t by simp
qed simp

declare py_split.simps [simp del]

text \<open>\<open>s.splitlines()\<close>: a carriage return with a line feed after it ends one line.\<close>

definition is_linebreak :: "char \<Rightarrow> bool" where
  "is_linebreak c \<longleftrightarrow> char_code c \<in> set [10, 11, 12, 13, 28, 29, 30, 133]"

fun split_lines :: "string \<Rightarrow> string \<Rightarrow> string list" where
  "split_lines cur [] = (if cur = [] then [] else [rev cur])"
| "split_lines cur (c # cs) =
    (if is_linebreak c
     then rev cur # (case cs of
            d # ds \<Rightarrow> if char_code c = 13 \<and> char_code d = 10 then split_lines [] ds else split_lines [] cs
          | [] \<Rightarrow> [])
     else split_lines (c # cur) cs)"

definition py_splitlines :: "string \<Rightarrow> string list" where
  "py_splitlines s = split_lines [] s"

text \<open>The lines of a text file, without their line feeds.\<close>

fun file_lines :: "string \<Rightarrow> string \<Rightarrow> string list" where
  "file_lines cur [] = (if cur = [] then [] else [rev cur])"
| "file_lines cur (c # cs) = (if c = CHR 0x0A then rev cur # file_lines [] cs else file_lines (c # cur) cs)"

definition NL :: string where "NL = [CHR 0x0A]"

fun prefix_of :: "string \<Rightarrow> string \<Rightarrow> bool" where
  "prefix_of [] s = True"
| "prefix_of (c # cs) [] = False"
| "prefix_of (c # cs) (d # ds) = (c = d \<and> prefix_of cs ds)"

definition suffix_of :: "string \<Rightarrow> string \<Rightarrow> bool" where
  "suffix_of t s = prefix_of (rev t) (rev s)"

text \<open>\<open>t in s\<close>.\<close>

fun infix_of :: "string \<Rightarrow> string \<Rightarrow> bool" where
  "infix_of t [] = (t = [])"
| "infix_of t (c # cs) = (prefix_of t (c # cs) \<or> infix_of t cs)"

fun py_join :: "string \<Rightarrow> string list \<Rightarrow> string" where
  "py_join sep [] = []"
| "py_join sep [x] = x"
| "py_join sep (x # y # zs) = x @ sep @ py_join sep (y # zs)"

section \<open>Decimal numbers\<close>

definition is_digit :: "char \<Rightarrow> bool" where
  "is_digit c \<longleftrightarrow> 48 \<le> char_code c \<and> char_code c \<le> 57"

fun read_dec_digits :: "int \<Rightarrow> bool \<Rightarrow> string \<Rightarrow> py_error + int" where
  "read_dec_digits acc ok [] = (if ok then Inr acc else Inl ValueError)"
| "read_dec_digits acc ok (c # cs) =
    (if c = CHR ''_'' then (if ok then read_dec_digits acc False cs else Inl ValueError)
     else if is_digit c then read_dec_digits (10 * acc + (int (char_code c) - 48)) True cs
     else Inl ValueError)"

text \<open>\<open>int(s)\<close> of a text without surrounding blanks.\<close>

definition read_dec :: "string \<Rightarrow> py_error + int" where
  "read_dec s =
    (if s \<noteq> [] \<and> hd s = CHR ''-'' then ebind (read_dec_digits 0 False (List.tl s)) (\<lambda>v. Inr (- v))
     else if s \<noteq> [] \<and> hd s = CHR ''+'' then read_dec_digits 0 False (List.tl s)
     else read_dec_digits 0 False s)"

text \<open>\<open>str(n)\<close>.\<close>

definition int_str :: "int \<Rightarrow> string" where
  "int_str n = (if n < 0 then ''-'' @ dec_str (nat (- n)) else dec_str (nat n))"

lemma digit_char: "d < 10 \<Longrightarrow> char_code (char_of (48 + d)) = 48 + d"
  by (simp add: char_code_def)

lemma digit_props: "d < 10 \<Longrightarrow> is_digit (char_of (48 + d :: nat)) \<and> \<not> is_space (char_of (48 + d)) \<and> \<not> is_linebreak (char_of (48 + d)) \<and>
    char_of (48 + d) \<noteq> CHR ''_'' \<and> char_of (48 + d) \<noteq> CHR ''-'' \<and> char_of (48 + d) \<noteq> CHR ''+'' \<and> char_of (48 + d) \<noteq> CHR 0x0A"
proof -
  assume d: "d < 10"
  have ne: "char_of (48 + d) \<noteq> c" if "char_code c < 48 \<or> 57 < char_code c" for c
  proof
    assume "char_of (48 + d) = c"
    then show False using that digit_char [OF d] d by auto
  qed
  show ?thesis
    using d ne [of "CHR ''_''"] ne [of "CHR ''-''"] ne [of "CHR ''+''"] ne [of "CHR 0x0A"]
    by (simp add: is_digit_def digit_char is_space_def is_linebreak_def char_code_def)
qed

lemma read_dec_str:
  "read_dec_digits acc ok (dec_str n @ cs) = read_dec_digits (acc * 10 ^ length (dec_str n) + int n) True cs"
proof (induction n arbitrary: acc ok cs rule: dec_str.induct)
  case (1 n)
  show ?case
  proof (cases "n < 10")
    case True
    then show ?thesis using digit_props [of n] by (simp add: dec_str.simps [of n] digit_char mult.commute)
  next
    case False
    have d: "n mod 10 < 10" by simp
    have e: "int n = int (n div 10) * 10 + int (n mod 10)" by (metis div_mult_mod_eq of_nat_add of_nat_mult of_nat_numeral)
    have "read_dec_digits acc ok (dec_str n @ cs) =
        read_dec_digits (acc * 10 ^ length (dec_str (n div 10)) + int (n div 10)) True (char_of (48 + n mod 10) # cs)"
      using "1.IH" [OF False] False by (simp add: dec_str.simps [of n])
    also have "\<dots> = read_dec_digits (10 * (acc * 10 ^ length (dec_str (n div 10)) + int (n div 10)) + int (n mod 10)) True cs"
      using digit_props [OF d] by (simp add: digit_char [OF d])
    also have "10 * (acc * 10 ^ length (dec_str (n div 10)) + int (n div 10)) + int (n mod 10) =
        acc * 10 ^ length (dec_str n) + int n"
      using e False by (simp add: dec_str.simps [of n] algebra_simps)
    finally show ?thesis .
  qed
qed

lemma dec_str_chars: "list_all (\<lambda>c. is_digit c \<and> \<not> is_space c \<and> \<not> is_linebreak c \<and> c \<noteq> CHR ''-'' \<and> c \<noteq> CHR ''+'' \<and> c \<noteq> CHR 0x0A) (dec_str n)"
proof (induction n rule: dec_str.induct)
  case (1 n)
  then show ?case using digit_props [of n] digit_props [of "n mod 10"] by (cases "n < 10") (simp_all add: dec_str.simps [of n])
qed

lemma dec_str_nonempty [simp]: "dec_str n \<noteq> []"
  by (simp add: dec_str.simps)

theorem read_dec_dec_str: "read_dec (dec_str n) = Inr (int n)"
proof -
  have "hd (dec_str n) \<noteq> CHR ''-'' \<and> hd (dec_str n) \<noteq> CHR ''+''"
    using dec_str_chars [of n] by (cases "dec_str n") auto
  then show ?thesis using read_dec_str [of 0 False n "[]"] by (simp add: read_dec_def)
qed

section \<open>Quoting\<close>

text \<open>\<open>repr(s)\<close>: single quotes unless the text has some and no double ones; the quote and the backslash escaped, characters that are
  not printable by their code.\<close>

definition repr_char :: "char \<Rightarrow> char \<Rightarrow> string" where
  "repr_char q c =
    (let n = char_code c; hex = (\<lambda>d. ''0123456789abcdef'' ! d) in
     if c = q \<or> n = 92 then [CHR 0x5C, c]
     else if n = 9 then [CHR 0x5C, CHR ''t''] else if n = 10 then [CHR 0x5C, CHR ''n''] else if n = 13 then [CHR 0x5C, CHR ''r'']
     else if n < 32 \<or> 127 \<le> n \<and> n \<le> 160 \<or> n = 173 then [CHR 0x5C, CHR ''x'', hex (n div 16), hex (n mod 16)]
     else [c])"

definition py_repr :: "string \<Rightarrow> string" where
  "py_repr s =
    (let q = (if CHR 0x27 \<in> set s \<and> CHR 0x22 \<notin> set s then CHR 0x22 else CHR 0x27)
     in q # concat (map (repr_char q) s) @ [q])"

section \<open>Texts without blanks\<close>

lemma strip_plain: "list_all (\<lambda>c. \<not> is_space c) s \<Longrightarrow> py_strip s = s"
proof -
  have d: "list_all (\<lambda>c. \<not> is_space c) t \<Longrightarrow> dropWhile is_space t = t" for t by (cases t) auto
  assume "list_all (\<lambda>c. \<not> is_space c) s"
  then show ?thesis using d [of s] d [of "rev s"] by (simp add: py_strip_def py_lstrip_def py_rstrip_def list_all_iff)
qed

lemma split_word:
  assumes "list_all (\<lambda>c. \<not> is_space c) w" "w \<noteq> []"
  shows "py_split (w @ CHR 0x20 # s) = w # py_split s" "py_split w = [w]"
proof -
  obtain c cs where c: "w = c # cs" "\<not> is_space c" using assms by (cases w) auto
  have sp: "is_space (CHR 0x20)" by (simp add: is_space_def char_code_def)
  have l: "py_lstrip (w @ t) = w @ t" for t using c by (simp add: py_lstrip_def)
  have t: "takeWhile (\<lambda>c. \<not> is_space c) (w @ CHR 0x20 # s) = w" "dropWhile (\<lambda>c. \<not> is_space c) (w @ CHR 0x20 # s) = CHR 0x20 # s"
    "takeWhile (\<lambda>c. \<not> is_space c) w = w" "dropWhile (\<lambda>c. \<not> is_space c) w = []"
    using assms(1) sp by (auto simp: list_all_iff)
  have e: "py_split [] = []" by (simp add: py_split.simps py_lstrip_def)
  have r: "py_split (CHR 0x20 # s) = py_split s"
    by (subst (1 2) py_split.simps) (simp add: py_lstrip_def sp)
  show "py_split (w @ CHR 0x20 # s) = w # py_split s"
    by (subst py_split.simps) (simp add: l t assms(2) r)
  show "py_split w = [w]"
    using l [of "[]"] by (subst py_split.simps) (simp add: t assms(2) e)
qed

lemma file_lines_append:
  "list_all (\<lambda>c. c \<noteq> CHR 0x0A) l \<Longrightarrow> file_lines cur (l @ CHR 0x0A # s) = (rev cur @ l) # file_lines [] s"
  by (induction l arbitrary: cur) auto

lemma file_lines_concat:
  "list_all (list_all (\<lambda>c. c \<noteq> CHR 0x0A)) ls \<Longrightarrow> file_lines [] (concat (map (\<lambda>l. l @ NL) ls)) = ls"
  by (induction ls) (auto simp: NL_def file_lines_append)

end
