(* ===== verification/Regression.thy ===== *)
theory Regression
  imports PyString
begin

text \<open>
  The regression runner \<^verbatim>\<open>tb/run_regression.py\<close>: the table of suites, the gate on the results file, the
  run of one suite and of the wanted ones, and the exit code. The simulator front end (\<open>cocotb_tools\<close>), the
  file system, pytest and the XML reader are not part of the repository: they are the fields of a \<open>host\<close>
  record over an abstract world, which every operation that changes files returns anew. What the runner
  prints is the list of verdicts it returns.
\<close>

section \<open>Paths and the suite table\<close>

definition path_join :: "string \<Rightarrow> string \<Rightarrow> string" where
  "path_join d r = d @ ''/'' @ r"

definition joins :: "string \<Rightarrow> string list \<Rightarrow> string" where
  "joins d rs = fold (\<lambda>r d. path_join d r) rs d"

definition rtl_files :: "string \<Rightarrow> string list \<Rightarrow> string list" where
  "rtl_files rtl rels = map (path_join rtl) rels"

datatype suite_cfg =
    CocotbCfg (sources: "string list") (toplevel: string) (test_module: string) (parameters: "(string \<times> int) list")
  | PytestCfg

definition unit_suites :: "string \<Rightarrow> string \<Rightarrow> (string \<times> suite_cfg) list" where
  "unit_suites tb rtl =
    [(''lsu'', CocotbCfg
       (rtl_files rtl
         [''memory/titan_x5_lsu.v''])
       ''titan_x5_lsu'' ''test_lsu'' []),
     (''fpu'', CocotbCfg
       ([joins tb [''tb_fpu_top.v'']] @
        rtl_files rtl
         [''fpu/titan_x5_fp32_add.v'', ''fpu/titan_x5_fp32_mul.v'', ''fpu/titan_x5_fp32_fma.v'',
          ''tensor/titan_x5_fp16_mul.v'', ''tensor/titan_x6_tensor_core_array.v'',
          ''core/titan_x5_alu.v''])
       ''tb_fpu_top'' ''test_fpu'' []),
     (''mesi'', CocotbCfg
       ([joins tb [''tb_mesi_top.v'']] @
        rtl_files rtl
         [''memory/titan_x5_l1_cache.v'', ''interconnect/titan_x5_crossbar.v''])
       ''tb_mesi_top'' ''test_mesi'' []),
     (''tmu'', CocotbCfg
       (rtl_files rtl
         [''graphics/titan_x5_tmu.v'', ''memory/titan_x5_l1_cache.v''])
       ''titan_x5_tmu'' ''test_tmu'' []),
     (''rt_isect'', CocotbCfg
       (rtl_files rtl
         [''raytracing/titan_x5_ray_triangle_isect.v''])
       ''titan_x5_ray_triangle_isect'' ''test_rt_isect'' []),
     (''rt_box'', CocotbCfg
       (rtl_files rtl
         [''raytracing/titan_x5_ray_box_isect.v''])
       ''titan_x5_ray_box_isect'' ''test_rt_box'' []),
     (''rt_core'', CocotbCfg
       (rtl_files rtl
         [''raytracing/titan_x5_ray_triangle_isect.v'', ''raytracing/titan_x5_ray_box_isect.v'',
          ''raytracing/titan_x5_rt_core.v''])
       ''titan_x5_rt_core'' ''test_rt_core'' []),
     (''tensor'', CocotbCfg
       (rtl_files rtl
         [''tensor/titan_x5_fp16_mul.v'', ''tensor/titan_x6_tensor_core_array.v'',
          ''tensor/titan_x6_wmma_dispatch.v''])
       ''titan_x6_wmma_dispatch'' ''test_tensor'' []),
     (''noc'', CocotbCfg
       (rtl_files rtl
         [''interconnect/titan_x6_noc_router.v'', ''interconnect/titan_x6_noc_mesh.v''])
       ''titan_x6_noc_mesh'' ''test_noc'' []),
     (''vram'', CocotbCfg
       ([joins tb [''tb_vram_top.v'']] @
        rtl_files rtl
         [''titan_x6_vram_ctrl.v''])
       ''tb_vram_top'' ''test_vram'' []),
     (''l2'', CocotbCfg
       ([joins tb [''tb_l2_top.v'']] @
        rtl_files rtl
         [''titan_x6_banked_l2.v'', ''memory/titan_x5_l2_cache.v'', ''common/titan_x5_skid_buffer.v''])
       ''tb_l2_top'' ''test_l2'' []),
     (''alu_isa'', CocotbCfg
       ([joins tb [''tb_fpu_top.v'']] @
        rtl_files rtl
         [''core/titan_x5_alu.v'', ''fpu/titan_x5_fp32_add.v'', ''fpu/titan_x5_fp32_mul.v'',
          ''fpu/titan_x5_fp32_fma.v'', ''tensor/titan_x5_fp16_mul.v'',
          ''tensor/titan_x6_tensor_core_array.v''])
       ''tb_fpu_top'' ''test_alu_isa'' []),
     (''pc_unit'', CocotbCfg
       ([joins tb [''tb_pc_unit_top.v'']] @
        rtl_files rtl
         [''core/titan_x5_pc_unit.v''])
       ''tb_pc_unit_top'' ''test_pc_unit'' [])]"

definition memory_suites :: "string \<Rightarrow> string \<Rightarrow> (string \<times> suite_cfg) list" where
  "memory_suites tb rtl =
    [(''regfile'', CocotbCfg
       (rtl_files rtl
         [''core/titan_x5_register_file.v''])
       ''titan_x5_register_file'' ''test_regfile_warps'' [(''DATA_WIDTH'', 1024), (''NUM_REGS'', 64), (''NUM_BANKS'', 4), (''NUM_WARPS'', 8)]),
     (''l2adapt32'', CocotbCfg
       ([joins tb [''tb_l2_adapter_top.v'']] @
        rtl_files rtl
         [''memory/titan_x5_l2_mem_adapter.v''])
       ''tb_l2_adapter_top'' ''test_l2_adapter'' [(''DW'', 32)]),
     (''l2adapt512'', CocotbCfg
       ([joins tb [''tb_l2_adapter_top.v'']] @
        rtl_files rtl
         [''memory/titan_x5_l2_mem_adapter.v''])
       ''tb_l2_adapter_top'' ''test_l2_adapter'' [(''DW'', 512)]),
     (''l2adapt1024'', CocotbCfg
       ([joins tb [''tb_l2_adapter_top.v'']] @
        rtl_files rtl
         [''memory/titan_x5_l2_mem_adapter.v''])
       ''tb_l2_adapter_top'' ''test_l2_adapter'' [(''DW'', 1024)]),
     (''l2adapt2048'', CocotbCfg
       ([joins tb [''tb_l2_adapter_top.v'']] @
        rtl_files rtl
         [''memory/titan_x5_l2_mem_adapter.v''])
       ''tb_l2_adapter_top'' ''test_l2_adapter'' [(''DW'', 2048), (''LINE_BYTES'', 256)]),
     (''icache'', CocotbCfg
       (rtl_files rtl
         [''memory/titan_x5_icache.v''])
       ''titan_x5_icache'' ''test_icache'' []),
     (''flush'', CocotbCfg
       ([joins tb [''tb_mesi_top.v'']] @
        rtl_files rtl
         [''memory/titan_x5_l1_cache.v'', ''interconnect/titan_x5_crossbar.v''])
       ''tb_mesi_top'' ''test_mesi_flush'' []),
     (''l2flush'', CocotbCfg
       ([joins tb [''tb_l2_flush_top.v'']] @
        rtl_files rtl
         [''memory/titan_x5_l2_cache.v''])
       ''tb_l2_flush_top'' ''test_l2_flush'' []),
     (''flushctl'', CocotbCfg
       ([joins tb [''tb_flush_ctrl_top.v'']] @
        rtl_files rtl
         [''control/titan_x5_flush_ctrl.v''])
       ''tb_flush_ctrl_top'' ''test_flush_ctrl'' [])]"

definition x7_suites :: "string \<Rightarrow> string \<Rightarrow> (string \<times> suite_cfg) list" where
  "x7_suites tb rtl =
    [(''fma8'', CocotbCfg
       ([joins tb [''tb_fma_x7.v'']] @
        rtl_files rtl
         [''fpu/titan_x5_fp32_fma.v'', ''common/titan_x7_prefix_add.v'', ''common/titan_x7_lzc.v'',
          ''fpu/titan_x7_fp32_fma_pipe.v''])
       ''tb_fma_x7'' ''test_fma_x7'' []),
     (''tensor7'', CocotbCfg
       (rtl_files rtl
         [''common/titan_x7_prefix_add.v'', ''common/titan_x7_lzc.v'', ''tensor/titan_x7_tensor_pe.v'',
          ''tensor/titan_x7_tensor_array.v''])
       ''titan_x7_tensor_array'' ''test_tensor_x7'' []),
     (''rfbank'', CocotbCfg
       (rtl_files rtl
         [''memory/titan_x7_sram_1r1w.v'', ''core/titan_x7_regfile_banked.v''])
       ''titan_x7_regfile_banked'' ''test_regfile_banked'' []),
     (''sm7'', CocotbCfg
       (rtl_files rtl
         [''core/titan_x5_decoder.v'', ''core/titan_x7_scoreboard.v'',
          ''core/titan_x7_branch_predictor.v'', ''core/titan_x7_warp_scheduler.v'',
          ''common/titan_x7_prefix_add.v'', ''common/titan_x7_lzc.v'', ''fpu/titan_x7_fp32_fma_pipe.v'',
          ''core/titan_x7_sm.v''])
       ''titan_x7_sm'' ''test_sm_x7'' [(''LANES'', 4)]),
     (''sm7warp'', CocotbCfg
       (rtl_files rtl
         [''core/titan_x5_decoder.v'', ''core/titan_x7_scoreboard.v'',
          ''core/titan_x7_branch_predictor.v'', ''core/titan_x7_warp_scheduler.v'',
          ''common/titan_x7_prefix_add.v'', ''common/titan_x7_lzc.v'', ''fpu/titan_x7_fp32_fma_pipe.v'',
          ''core/titan_x7_sm.v''])
       ''titan_x7_sm'' ''test_sm_x7_warps'' [(''LANES'', 4)])]"

definition apex_suites :: "string \<Rightarrow> string \<Rightarrow> (string \<times> suite_cfg) list" where
  "apex_suites tb rtl =
    [(''apexlane'', CocotbCfg
       ([joins tb [''..'', ''syn'', ''gt2n'', ''iso_miter.v'']] @
        rtl_files rtl
         [''common/titan_x7_prefix_add.v'', ''common/titan_x7_lzc.v'', ''fpu/titan_x7_fp32_fma_pipe.v'',
          ''fpu/titan_apex_fma_lane.v''])
       ''iso_miter'' ''test_apex_lane'' []),
     (''multseg'', CocotbCfg
       (rtl_files rtl
         [''tensor/titan_apex_mult_seg.v''])
       ''titan_apex_mult_seg'' ''test_mult_seg'' []),
     (''dpmac'', CocotbCfg
       (rtl_files rtl
         [''tensor/titan_apex_mult_seg.v'', ''tensor/titan_apex_dp_mac.v''])
       ''titan_apex_dp_mac'' ''test_dp_mac'' []),
     (''hbm4'', CocotbCfg
       (rtl_files rtl
         [''memory/titan_apex_hbm4_ctrl.v''])
       ''titan_apex_hbm4_ctrl'' ''test_hbm4'' []),
     (''x7shim'', CocotbCfg
       ([joins tb [''tb_x7_shim.v'']] @
        rtl_files rtl
         [''core/titan_x5_decoder.v'', ''core/titan_x7_scoreboard.v'',
          ''core/titan_x7_branch_predictor.v'', ''core/titan_x7_warp_scheduler.v'',
          ''common/titan_x7_prefix_add.v'', ''common/titan_x7_lzc.v'', ''fpu/titan_x7_fp32_fma_pipe.v'',
          ''core/titan_x7_sm.v'', ''memory/titan_x5_lsu.v'', ''memory/titan_x5_l1_cache.v'',
          ''core/titan_x7_sm_shim.v''])
       ''tb_x7_shim'' ''test_x7_shim'' []),
     (''compute'', PytestCfg)]"

definition SUITES :: "string \<Rightarrow> string \<Rightarrow> (string \<times> suite_cfg) list" where
  "SUITES tb rtl = unit_suites tb rtl @ memory_suites tb rtl @ x7_suites tb rtl @ apex_suites tb rtl"

section \<open>The host\<close>

text \<open>What may be raised: no verdict, any other \<open>Exception\<close>, or an exit that \<open>except Exception\<close> does not catch.\<close>

datatype reg_exn =
    SuiteInfraError string
  | OtherError string
  | SystemExit int

datatype xml = Elem (tag: string) (children: "xml list")

record 'w host =
  tb_dir :: string
  rtl_dir :: string
  path_exists :: "'w \<Rightarrow> string \<Rightarrow> bool"
  remove_file :: "string \<Rightarrow> 'w \<Rightarrow> (reg_exn + unit) \<times> 'w"
  x7_trace :: bool
  get_runner :: "'w \<Rightarrow> reg_exn + unit"
  build :: "string list \<Rightarrow> string \<Rightarrow> string list \<Rightarrow> string \<Rightarrow> (string \<times> int) list \<Rightarrow> 'w \<Rightarrow> (reg_exn + unit) \<times> 'w"
  test :: "string \<Rightarrow> string \<Rightarrow> string \<Rightarrow> string \<Rightarrow> string \<Rightarrow> 'w \<Rightarrow> (reg_exn + unit) \<times> 'w"
  parse_xml :: "'w \<Rightarrow> string \<Rightarrow> reg_exn + xml"
  pytest :: "string list \<Rightarrow> string \<Rightarrow> 'w \<Rightarrow> int \<times> 'w"

section \<open>The results gate\<close>

text \<open>\<open>root.iter(name)\<close> in document order, \<open>tc.find(name) is not None\<close>.\<close>

function xml_iter :: "string \<Rightarrow> xml \<Rightarrow> xml list" where
  "xml_iter name (Elem tg cs) =
    (if tg = name then [Elem tg cs] else []) @ concat (map (xml_iter name) cs)"
  by pat_completeness auto
termination
  by (relation "measure (\<lambda>(_, x). size x)") (auto simp: less_Suc_eq_le size_list_estimation')

definition has_child :: "string \<Rightarrow> xml \<Rightarrow> bool" where
  "has_child name tc \<longleftrightarrow> list_ex (\<lambda>c. tag c = name) (children tc)"

definition bad_case :: "xml \<Rightarrow> bool" where
  "bad_case tc \<longleftrightarrow> has_child ''failure'' tc \<or> has_child ''error'' tc"

definition check_results :: "'w host \<Rightarrow> string \<Rightarrow> 'w \<Rightarrow> reg_exn + unit" where
  "check_results h xml_path w =
    (if \<not> path_exists h w xml_path then Inl (SuiteInfraError (''no results file produced ('' @ xml_path @ '')''))
     else
       ebind (parse_xml h w xml_path) (\<lambda>root.
         let cases = xml_iter ''testcase'' root; n = length cases; bad = length (filter bad_case cases)
         in if n = 0 then Inl (SuiteInfraError ''results file contains no testcases'')
            else if bad \<noteq> 0 then Inl (OtherError (dec_str bad @ ''/'' @ dec_str n @ '' testcases failed''))
            else Inr ()))"

section \<open>Running suites\<close>

definition run_compute_suite :: "'w host \<Rightarrow> 'w \<Rightarrow> (reg_exn + unit) \<times> 'w" where
  "run_compute_suite h w =
    (let (returncode, w) =
       pytest h [path_join (tb_dir h) ''test_compute_kernels.py'', ''-q'', ''-m'', ''not slow'', ''-p'', ''no:cacheprovider'']
         (tb_dir h) w
     in if returncode \<noteq> 0 then (Inl (OtherError (''pytest exited '' @ int_str returncode)), w) else (Inr (), w))"

definition results_path :: "'w host \<Rightarrow> string \<Rightarrow> string" where
  "results_path h name = path_join (path_join (tb_dir h) ''uvm'') (name @ ''_results.xml'')"

definition build_args :: "'w host \<Rightarrow> string list" where
  "build_args h = [''-g2012'', ''-DTITAN_FAST_SIM''] @ (if x7_trace h then [''-DX7_TRACE''] else [])"

definition run_suite :: "'w host \<Rightarrow> string \<Rightarrow> suite_cfg \<Rightarrow> 'w \<Rightarrow> (reg_exn + unit) \<times> 'w" where
  "run_suite h name cfg w =
    (if name = ''compute'' then run_compute_suite h w
     else
       (case get_runner h w of
          Inl e \<Rightarrow> (Inl e, w)
        | Inr _ \<Rightarrow>
            let build_dir = joins (tb_dir h) [''sim_build'', name];
                test_dir = path_join (tb_dir h) ''uvm'';
                res = results_path h name
            in (case (if path_exists h w res then remove_file h res w else (Inr (), w)) of
                  (Inl e, w) \<Rightarrow> (Inl e, w)
                | (Inr _, w) \<Rightarrow>
                    (case cfg of
                       PytestCfg \<Rightarrow> (Inl (OtherError (quoted ''sources'')), w)
                     | CocotbCfg srcs top_l md params \<Rightarrow>
                         (case build h srcs top_l (build_args h) build_dir params w of
                            (Inl e, w) \<Rightarrow> (Inl e, w)
                          | (Inr _, w) \<Rightarrow>
                              (case test h top_l md build_dir test_dir (name @ ''_results.xml'') w of
                                 (Inl e, w) \<Rightarrow> (Inl e, w)
                               | (Inr _, w) \<Rightarrow> (check_results h res w, w)))))))"

section \<open>The command line\<close>

text \<open>\<open>str.lower\<close> on the ASCII letters.\<close>

definition lower_char :: "char \<Rightarrow> char" where
  "lower_char c = (if 65 \<le> (of_char c :: nat) \<and> (of_char c :: nat) \<le> 90 then char_of (of_char c + 32 :: nat) else c)"

definition wanted :: "'w host \<Rightarrow> string list \<Rightarrow> string list" where
  "wanted h argv =
    (let ws = map (map lower_char) argv
     in if ws = [] then map fst (SUITES (tb_dir h) (rtl_dir h)) else ws)"

text \<open>The loop of \<open>main\<close>: the failures and the infrastructure errors collected, an uncaught exit ends it.\<close>

fun run_all ::
    "'w host \<Rightarrow> string list \<Rightarrow> 'w \<Rightarrow> string list \<Rightarrow> string list \<Rightarrow> (reg_exn + (string list \<times> string list)) \<times> 'w" where
  "run_all h [] w failures infra = (Inr (failures, infra), w)"
| "run_all h (name # names) w failures infra =
    (case run_suite h name (the (map_of (SUITES (tb_dir h) (rtl_dir h)) name)) w of
       (Inr _, w) \<Rightarrow> run_all h names w failures infra
     | (Inl (SuiteInfraError _), w) \<Rightarrow> run_all h names w failures (infra @ [name])
     | (Inl (OtherError _), w) \<Rightarrow> run_all h names w (failures @ [name]) infra
     | (Inl (SystemExit c), w) \<Rightarrow> (Inl (SystemExit c), w))"

datatype verdict = PASS | FAIL | ERROR

definition verdict_of :: "string list \<Rightarrow> string list \<Rightarrow> string \<Rightarrow> verdict" where
  "verdict_of failures infra name =
    (if name \<in> set infra then ERROR else if name \<in> set failures then FAIL else PASS)"

text \<open>The exit code and the printed summary.\<close>

definition regression_main :: "'w host \<Rightarrow> string list \<Rightarrow> 'w \<Rightarrow> (reg_exn + (int \<times> (string \<times> verdict) list)) \<times> 'w" where
  "regression_main h argv w =
    (let names = wanted h argv; unknown = filter (\<lambda>x. x \<notin> fst ` set (SUITES (tb_dir h) (rtl_dir h))) names in
     if unknown \<noteq> [] then (Inr (2, []), w)
     else
       (case run_all h names w [] [] of
          (Inl e, w) \<Rightarrow> (Inl e, w)
        | (Inr (failures, infra), w) \<Rightarrow>
            (Inr (if failures \<noteq> [] \<or> infra \<noteq> [] then 1 else 0, map (\<lambda>x. (x, verdict_of failures infra x)) names), w)))"

end
