(* ===== verification/RegressionProps.thy ===== *)
theory RegressionProps
  imports Regression
begin

text \<open>
  The promises of the regression runner: what its exit code and verdicts mean, that a green run
  rests on results this run produced, and which failures count as environment problems.
\<close>

section \<open>The table\<close>

definition SUITE_NAMES :: "string list" where
  "SUITE_NAMES =
    [''lsu'', ''fpu'', ''mesi'', ''tmu'', ''rt_isect'', ''rt_box'', ''rt_core'', ''tensor'', ''noc'', ''vram'', ''l2'',
     ''alu_isa'', ''pc_unit'', ''regfile'', ''l2adapt32'', ''l2adapt512'', ''l2adapt1024'', ''l2adapt2048'', ''icache'',
     ''flush'', ''l2flush'', ''flushctl'', ''fma8'', ''tensor7'', ''rfbank'', ''sm7'', ''sm7warp'', ''apexlane'', ''multseg'',
     ''dpmac'', ''hbm4'', ''x7shim'', ''compute'']"

lemma SUITES_names: "map fst (SUITES tb rtl) = SUITE_NAMES"
  by (simp add: SUITES_def unit_suites_def memory_suites_def x7_suites_def apex_suites_def SUITE_NAMES_def)

lemma SUITES_fst: "fst ` set (SUITES tb rtl) = set SUITE_NAMES"
  by (simp add: SUITES_names [of tb rtl, symmetric])

fun cfg_ok :: "string \<times> suite_cfg \<Rightarrow> bool" where
  "cfg_ok (n, CocotbCfg s t m p) \<longleftrightarrow> s \<noteq> [] \<and> t \<noteq> [] \<and> m \<noteq> [] \<and> n \<noteq> ''compute''"
| "cfg_ok (n, PytestCfg) \<longleftrightarrow> n = ''compute''"

lemma SUITES_cfg_ok: "list_all cfg_ok (SUITES tb rtl)"
  by (simp add: SUITES_def unit_suites_def memory_suites_def x7_suites_def apex_suites_def rtl_files_def)

lemma map_of_SUITES: "name \<in> set SUITE_NAMES \<Longrightarrow> \<exists>cfg. map_of (SUITES tb rtl) name = Some cfg \<and> cfg_ok (name, cfg)"
proof -
  assume "name \<in> set SUITE_NAMES"
  then have "name \<in> fst ` set (SUITES tb rtl)" by (simp add: SUITES_fst)
  then obtain cfg where "map_of (SUITES tb rtl) name = Some cfg" by (metis map_of_eq_None_iff not_None_eq)
  moreover from map_of_SomeD [OF this] have "cfg_ok (name, cfg)" using SUITES_cfg_ok by (auto simp: list_all_iff)
  ultimately show ?thesis by blast
qed

section \<open>The loop\<close>

abbreviation suite_of :: "'w host \<Rightarrow> string \<Rightarrow> suite_cfg" where
  "suite_of h name \<equiv> the (map_of (SUITES (tb_dir h) (rtl_dir h)) name)"

lemma run_all_grows:
  "run_all h names w fs es = (Inr (fs', es'), w') \<Longrightarrow> \<exists>f e. fs' = fs @ f \<and> es' = es @ e \<and> set (f @ e) \<subseteq> set names"
proof (induction h names w fs es rule: run_all.induct)
  case (2 h name names w fs es)
  obtain r w1 where r: "run_suite h name (suite_of h name) w = (r, w1)" by fastforce
  show ?case
  proof (cases r)
    case (Inr u)
    then show ?thesis using 2 r by fastforce
  next
    case (Inl x)
    show ?thesis using 2 r Inl by (cases x) fastforce+
  qed
qed auto

lemma run_all_green:
  "run_all h names w fs es = (Inr (fs, es), w') \<Longrightarrow> name \<in> set names \<Longrightarrow>
    \<exists>w1 w2. run_suite h name (suite_of h name) w1 = (Inr (), w2)"
proof (induction h names w fs es rule: run_all.induct)
  case (2 h nm names w fs es)
  obtain r w1 where r: "run_suite h nm (suite_of h nm) w = (r, w1)" by fastforce
  show ?case
  proof (cases r)
    case (Inr u)
    then have "run_all h names w1 fs es = (Inr (fs, es), w')" using 2 r by simp
    then show ?thesis using 2 r Inr by (cases "name = nm") auto
  next
    case (Inl x)
    have False using "2.prems"(1) r Inl run_all_grows [of h names w1 "fs @ [nm]" es fs es w']
        run_all_grows [of h names w1 fs "es @ [nm]" fs es w'] by (cases x) auto
    then show ?thesis ..
  qed
qed simp

lemma run_all_exit: "run_all h names w fs es = (Inl e, w') \<Longrightarrow> \<exists>c. e = SystemExit c"
proof (induction h names w fs es rule: run_all.induct)
  case (2 h nm names w fs es)
  obtain r w1 where r: "run_suite h nm (suite_of h nm) w = (r, w1)" by fastforce
  show ?case
  proof (cases r)
    case (Inl x)
    then show ?thesis using 2 r by (cases x) auto
  qed (use 2 r in auto)
qed simp

lemma run_suite_earned:
  assumes "run_suite h name (CocotbCfg srcs top_l md params) w = (Inr (), w2)" "name \<noteq> ''compute''"
    and rm: "\<And>p x y. remove_file h p x = (Inr (), y) \<Longrightarrow> \<not> path_exists h y p"
  shows "\<exists>w0 w1 root. \<not> path_exists h w0 (results_path h name) \<and>
    build h srcs top_l (build_args h) (joins (tb_dir h) [''sim_build'', name]) params w0 = (Inr (), w1) \<and>
    test h top_l md (joins (tb_dir h) [''sim_build'', name]) (path_join (tb_dir h) ''uvm'') (name @ ''_results.xml'') w1 = (Inr (), w2) \<and>
    path_exists h w2 (results_path h name) \<and> parse_xml h w2 (results_path h name) = Inr root \<and>
    xml_iter ''testcase'' root \<noteq> [] \<and> list_all (\<lambda>tc. \<not> bad_case tc) (xml_iter ''testcase'' root)"
proof -
  let ?res = "results_path h name"
  obtain r0 w0 where w0: "(if path_exists h w ?res then remove_file h ?res w else (Inr (), w)) = (r0, w0)" by fastforce
  obtain rb w1 where b: "build h srcs top_l (build_args h) (joins (tb_dir h) [''sim_build'', name]) params w0 = (rb, w1)" by fastforce
  obtain rt w3 where t: "test h top_l md (joins (tb_dir h) [''sim_build'', name]) (path_join (tb_dir h) ''uvm'') (name @ ''_results.xml'') w1 = (rt, w3)" by fastforce
  have r: "r0 = Inr ()" "rb = Inr ()" "rt = Inr ()" "w3 = w2" "check_results h ?res w2 = Inr ()"
    using assms(1,2) b t w0 by (auto simp: run_suite_def Let_def split: sum.splits)
  have fresh: "\<not> path_exists h w0 ?res" using rm [of ?res w w0] w0 r(1) by (auto split: if_splits)
  from r(5) obtain root where "path_exists h w2 ?res" "parse_xml h w2 ?res = Inr root"
    "xml_iter ''testcase'' root \<noteq> []" "filter bad_case (xml_iter ''testcase'' root) = []"
    by (auto simp: check_results_def Let_def split: if_splits)
  then show ?thesis using fresh b t r by (auto simp: list_all_iff filter_empty_conv)
qed

section \<open>A small host for the witnesses\<close>

text \<open>The world is the list of files; a test run writes its results file with one passing case.\<close>

definition demo_host :: "string list host" where
  "demo_host = \<lparr>tb_dir = ''tb'', rtl_dir = ''rtl'', path_exists = (\<lambda>w p. p \<in> set w), remove_file = (\<lambda>p w. (Inr (), removeAll p w)),
     x7_trace = False, get_runner = (\<lambda>_. Inr ()), build = (\<lambda>_ _ _ _ _ w. (Inr (), w)),
     test = (\<lambda>_ _ _ d r w. (Inr (), path_join d r # w)),
     parse_xml = (\<lambda>_ _. Inr (Elem ''testsuites'' [Elem ''testsuite'' [Elem ''testcase'' []]])),
     pytest = (\<lambda>_ _ w. (0, w))\<rparr>"

section \<open>Properties\<close>

text \<open>The exit code: 2 with nothing run when an unknown suite is asked for, else 0 exactly when every verdict of the
  summary is \<open>PASS\<close> and 1 otherwise; the summary has one verdict per wanted suite in order, and only an uncaught exit of the
  simulator front end escapes.\<close>

theorem regression_exit_code:
  "case regression_main h argv w of
     (Inl e, _) \<Rightarrow> \<exists>c. e = SystemExit c
   | (Inr (code, report), w') \<Rightarrow>
       if list_all (\<lambda>x. x \<in> set SUITE_NAMES) (wanted h argv)
       then map fst report = wanted h argv \<and> code = (if list_all (\<lambda>(_, v). v = PASS) report then 0 else 1)
       else code = 2 \<and> report = [] \<and> w' = w"
proof (cases "filter (\<lambda>x. x \<notin> set SUITE_NAMES) (wanted h argv) = []")
  case False
  then have "\<not> list_all (\<lambda>x. x \<in> set SUITE_NAMES) (wanted h argv)" by (auto simp: filter_empty_conv list_all_iff)
  then show ?thesis using False by (simp add: regression_main_def SUITES_fst)
next
  case True
  then have all: "list_all (\<lambda>x. x \<in> set SUITE_NAMES) (wanted h argv)" by (auto simp: filter_empty_conv list_all_iff)
  obtain r w' where r: "run_all h (wanted h argv) w [] [] = (r, w')" by fastforce
  show ?thesis
  proof (cases r)
    case (Inl e)
    then show ?thesis using True r run_all_exit [of h "wanted h argv" w "[]" "[]" e w']
      by (simp add: regression_main_def SUITES_fst)
  next
    case (Inr x)
    obtain fs es where x: "x = (fs, es)" by fastforce
    have sub: "set fs \<subseteq> set (wanted h argv)" "set es \<subseteq> set (wanted h argv)"
      using run_all_grows [of h "wanted h argv" w "[]" "[]" fs es w'] r Inr x by auto
    have "list_all (\<lambda>(_, v). v = PASS) (map (\<lambda>x. (x, verdict_of fs es x)) (wanted h argv)) \<longleftrightarrow> fs = [] \<and> es = []"
      using sub by (cases fs; cases es) (auto simp: list_all_iff verdict_of_def)
    then show ?thesis using True all r Inr x by (simp add: regression_main_def SUITES_fst comp_def) 
  qed
qed

text \<open>C26: a green run is earned: when \<open>main\<close> returns 0, every simulated suite of the summary (all but \<open>compute\<close>) was built in a world without
  its old results file, its test run returned, and left a results file with at least one test case, none of them failing.\<close>

theorem green_run_is_earned:
  assumes "regression_main h argv w = (Inr (0, report), w')" "(name, v) \<in> set report" "name \<noteq> ''compute''"
    and "\<And>p x y. remove_file h p x = (Inr (), y) \<Longrightarrow> \<not> path_exists h y p"
  shows "\<exists>srcs top_l md params w0 w1 w2 root. (name, CocotbCfg srcs top_l md params) \<in> set (SUITES (tb_dir h) (rtl_dir h)) \<and>
    \<not> path_exists h w0 (results_path h name) \<and>
    build h srcs top_l (build_args h) (joins (tb_dir h) [''sim_build'', name]) params w0 = (Inr (), w1) \<and>
    test h top_l md (joins (tb_dir h) [''sim_build'', name]) (path_join (tb_dir h) ''uvm'') (name @ ''_results.xml'') w1 = (Inr (), w2) \<and>
    path_exists h w2 (results_path h name) \<and> parse_xml h w2 (results_path h name) = Inr root \<and>
    xml_iter ''testcase'' root \<noteq> [] \<and> list_all (\<lambda>tc. \<not> bad_case tc) (xml_iter ''testcase'' root)"
proof -
  have k: "filter (\<lambda>x. x \<notin> set SUITE_NAMES) (wanted h argv) = []"
    using assms(1) by (auto simp: regression_main_def SUITES_fst Let_def split: if_splits)
  obtain r w2 where r: "run_all h (wanted h argv) w [] [] = (r, w2)" by fastforce
  have g: "r = Inr ([], [])" "name \<in> set (wanted h argv)"
    using assms(1,2) k r by (auto simp: regression_main_def SUITES_fst Let_def split: sum.splits if_splits)
  obtain a b where run: "run_suite h name (suite_of h name) a = (Inr (), b)"
    using run_all_green [of h "wanted h argv" w "[]" "[]" w2 name] r g by auto
  have "name \<in> set SUITE_NAMES" using k g(2) by (auto simp: filter_empty_conv)
  then obtain cfg where cfg: "map_of (SUITES (tb_dir h) (rtl_dir h)) name = Some cfg" "cfg_ok (name, cfg)"
    using map_of_SUITES by blast
  then obtain srcs top_l md params where c: "cfg = CocotbCfg srcs top_l md params" using assms(3) by (cases cfg) auto
  show ?thesis
    using run_suite_earned [of h name srcs top_l md params a b, OF _ assms(3,4)] run cfg(1) map_of_SomeD [OF cfg(1)] c by fastforce
qed

lemma green_run_is_earned_witness:
  "\<exists>srcs top_l md params w0 w1 w2 root. (''l2'', CocotbCfg srcs top_l md params) \<in> set (SUITES ''tb'' ''rtl'') \<and>
    \<not> path_exists demo_host w0 ''tb/uvm/l2_results.xml'' \<and>
    build demo_host srcs top_l [''-g2012'', ''-DTITAN_FAST_SIM''] ''tb/sim_build/l2'' params w0 = (Inr (), w1) \<and>
    test demo_host top_l md ''tb/sim_build/l2'' ''tb/uvm'' ''l2_results.xml'' w1 = (Inr (), w2) \<and>
    path_exists demo_host w2 ''tb/uvm/l2_results.xml'' \<and> parse_xml demo_host w2 ''tb/uvm/l2_results.xml'' = Inr root \<and>
    xml_iter ''testcase'' root \<noteq> [] \<and> list_all (\<lambda>tc. \<not> bad_case tc) (xml_iter ''testcase'' root)"
proof -
  have "fst (regression_main demo_host [''L2''] [''tb/uvm/l2_results.xml'']) = Inr (0, [(''l2'', PASS)])" by code_simp
  then obtain w' where m: "regression_main demo_host [''L2''] [''tb/uvm/l2_results.xml''] = (Inr (0, [(''l2'', PASS)]), w')"
    by (metis prod.collapse)
  show ?thesis
    using green_run_is_earned [OF m, of "''l2''" PASS]
    by (simp add: demo_host_def results_path_def path_join_def joins_def build_args_def)
qed

text \<open>Only a missing or empty results file is reported as an environment \<open>ERROR\<close>: a simulator front end that cannot even
  build, because a tool is missing, gives \<open>FAIL\<close> for every suite.\<close>

theorem missing_tool_reported_as_fail:
  assumes "\<And>x. get_runner h x = Inr ()" "\<And>s t a b p x. build h s t a b p x = (Inl (OtherError m), x)"
    and rm: "\<And>p x. fst (remove_file h p x) = Inr ()"
  shows "fst (regression_main h [''lsu''] w) = Inr (1, [(''lsu'', FAIL)])"
proof -
  have "remove_file h p x = (Inr (), snd (remove_file h p x))" for p x using rm [of p x] by (metis prod.collapse)
  then obtain y where "(if path_exists h w (results_path h ''lsu'') then remove_file h (results_path h ''lsu'') w else (Inr (), w)) = (Inr (), y)"
    by metis
  then show ?thesis using assms(1,2) by (simp add: regression_main_def wanted_def SUITES_fst SUITE_NAMES_def lower_char_def run_suite_def
      SUITES_def unit_suites_def Let_def verdict_of_def)
qed

lemma missing_tool_reported_as_fail_witness:
  "fst (regression_main (demo_host\<lparr>build := \<lambda>_ _ _ _ _ w. (Inl (OtherError ''iverilog not found''), w)\<rparr>) [''lsu''] []) =
    Inr (1, [(''lsu'', FAIL)])"
  by (rule missing_tool_reported_as_fail) (simp_all add: demo_host_def)

text \<open>The suite table: its names are distinct and in lower case, so the command line can select each; every suite but
  \<open>compute\<close> names its sources, its top level and its test module, and \<open>compute\<close> alone runs under pytest.\<close>

theorem suite_table_ok:
  "distinct (map fst (SUITES tb rtl)) \<and> list_all (\<lambda>x. wanted h [fst x] = [fst x]) (SUITES tb rtl) \<and> list_all cfg_ok (SUITES tb rtl)"
proof (intro conjI)
  show "distinct (map fst (SUITES tb rtl))" unfolding SUITES_names by code_simp
  have "list_all (\<lambda>x. map lower_char x = x) SUITE_NAMES" by code_simp
  then have "list_all (\<lambda>x. map lower_char (fst x) = fst x) (SUITES tb rtl)"
    unfolding SUITES_names [of tb rtl, symmetric] by (simp add: list_all_iff)
  then show "list_all (\<lambda>x. wanted h [fst x] = [fst x]) (SUITES tb rtl)" by (simp add: wanted_def list_all_iff)
qed (rule SUITES_cfg_ok)

end
