(* ===== verification/Tbin.thy ===== *)
theory Tbin
  imports PyText Isa KernelAst ScalarCodegen TensorBackend PyFloat TensorRef
begin

text \<open>
  The back end of \<^verbatim>\<open>compiler/titan_compiler.py\<close>: the TBIN container, the listing, the conversion of
  floats to \<open>FP8\<close> and the command line. Files are byte lists, what is printed is a list of lines. The
  parser \<open>ast.parse\<close>, \<open>math.log2\<close>, reading the input and writing the output are arguments; \<open>argparse\<close> has already
  parsed the command line into a record.
\<close>

section \<open>The container\<close>

definition TBIN_MAGIC :: int where "TBIN_MAGIC = 0x4E494254"
definition TBIN_VERSION :: int where "TBIN_VERSION = 1"
definition TBIN_FLAG_TENSOR :: int where "TBIN_FLAG_TENSOR = 1"

text \<open>\<open>struct.pack("<I", v)\<close> and a sequence of them.\<close>

definition pack_u32 :: "int \<Rightarrow> py_error + int list" where
  "pack_u32 v =
    (if 0 \<le> v \<and> v < 2 ^ 32
     then Inr [v AND 0xFF, drop_bit 8 v AND 0xFF, drop_bit 16 v AND 0xFF, drop_bit 24 v AND 0xFF]
     else Inl StructError)"

definition pack_u32s :: "int list \<Rightarrow> py_error + int list" where
  "pack_u32s vs = ebind (emap pack_u32 vs) (\<lambda>bs. Inr (concat bs))"

text \<open>Writing is an argument \<open>io\<close>: opening the file, writing the bytes and closing it may raise, and the file then holds what
  \<open>io\<close> says, \<open>None\<close> when it was not opened. An exception of \<open>pack\<close> closes the file with what was written before.\<close>

type_synonym out_file = "int list \<Rightarrow> (py_error + unit) \<times> int list option"

definition close_raising :: "py_error \<Rightarrow> (py_error + unit) \<times> int list option \<Rightarrow> (py_error + unit) \<times> int list option" where
  "close_raising e r = (case r of (Inl e', bytes) \<Rightarrow> (Inl e', bytes) | (Inr _, bytes) \<Rightarrow> (Inl e, bytes))"

definition write_tbin :: "out_file \<Rightarrow> int list \<Rightarrow> bool \<Rightarrow> (py_error + unit) \<times> int list option" where
  "write_tbin io ws tensor =
    (let flags = (if tensor then TBIN_FLAG_TENSOR else 0) in
     case pack_u32s [TBIN_MAGIC, TBIN_VERSION, flags, int (length ws)] of
       Inl e \<Rightarrow> close_raising e (io [])
     | Inr hdr \<Rightarrow>
         (case pack_u32s ws of
            Inl e \<Rightarrow> close_raising e (io hdr)
          | Inr body \<Rightarrow> io (hdr @ body)))"

section \<open>The listing\<close>

text \<open>The lines printed before the end or the exception.\<close>

fun dump_from :: "nat \<Rightarrow> int list \<Rightarrow> string list \<times> (py_error + unit)" where
  "dump_from pc [] = ([], Inr ())"
| "dump_from pc (w # ws) =
    (case disassemble w of
       Inl e \<Rightarrow> ([], Inl e)
     | Inr txt \<Rightarrow>
         (let line = ''  '' @ pad_left (CHR '' '') 4 (dec_str pc) @ '': '' @ hex_str 8 w @ ''  '' @ txt;
              (ls, r) = dump_from (Suc pc) ws
          in (line # ls, r)))"

definition dump_listing :: "int list \<Rightarrow> string list \<times> (py_error + unit)" where
  "dump_listing ws = dump_from 0 ws"

section \<open>Floats to FP8\<close>

text \<open>\<open>round(f)\<close>: to the nearest integer, ties to even; exact comparison of two finite floats.\<close>

definition py_round :: "int \<Rightarrow> py_error + int" where
  "py_round f =
    (case decode f FP64 of (k, s, m, c) \<Rightarrow>
       if is_nan_kind k then Inl ValueError
       else if k = KInf then Inl OverflowError
       else Inr ((if s \<noteq> 0 then - 1 else 1) * rshift_rne m (- c)))"

definition py_abs :: "int \<Rightarrow> int" where
  "py_abs f = f AND (push_bit 63 1 - 1)"

definition py_fsub :: "int \<Rightarrow> int \<Rightarrow> int" where
  "py_fsub a b = py_fadd a (b XOR push_bit 63 1)"

definition py_min :: "int \<Rightarrow> int \<Rightarrow> int" where
  "py_min a b = (if py_flt b a then b else a)"

text \<open>Dividing by a power of two, \<open>a / 2.0 ** e\<close>, is the exact scaling \<open>a * 2.0 ** -e\<close>.\<close>

definition float_to_fp8 :: "(int \<Rightarrow> int) \<Rightarrow> int \<Rightarrow> py_error + int" where
  "float_to_fp8 floor_log2 f =
    (let s = (if f AND push_bit 63 1 \<noteq> 0 \<and> \<not> is_nan f FP64 then 0x80 else 0); a = py_abs f in
     if is_nan f FP64 then Inr (s OR 0x7F)
     else
       (let a = py_min a (py_float 448 0) in
        if py_flt a (py_float 1 (- 9)) then Inr s
        else
          (let e = floor_log2 a in
           if e < - 6 then
             ebind (py_round (py_fmul a (py_float 512 0))) (\<lambda>m.
             if m > 7 then Inr (s OR push_bit 3 1) else Inr (s OR m))
           else
             ebind (py_round (py_fmul (py_fsub (py_fmul a (py_float 1 (- e))) (py_float 1 0)) (py_float 8 0))) (\<lambda>m.
             let (m, e) = (if m = 8 then (0, e + 1) else (m, e));
                 (e, m) = (if e > 8 \<or> (e = 8 \<and> m = 7) then (8, 6) else (e, m))
             in Inr (s OR push_bit 3 (e + 7) OR m)))))"

section \<open>The command line\<close>

record cli =
  cli_input :: "string option"
  cli_output :: "string option"
  cli_function :: "string option"
  cli_tensor :: bool
  cli_dtype :: string
  cli_dump :: bool
  cli_selftest :: bool

text \<open>How the process ends: a normal return, \<open>sys.exit(n)\<close>, or a traceback.\<close>

datatype outcome = Returned | SysExit int | Traceback py_error

text \<open>
  \<open>main\<close> after \<open>parse_args\<close>: the outcome, the bytes of the output file when it was opened, and the listing.
  \<open>parsed\<close> is the module body of the input (reading or parsing it may raise), \<open>out_io\<close> writes an output file,
  \<open>selftest\<close> is the number of failures.
\<close>

definition cli_main ::
    "(string \<Rightarrow> py_error + toplevel list) \<Rightarrow> (string \<Rightarrow> out_file) \<Rightarrow> (py_error + int) \<Rightarrow> cli \<Rightarrow>
     outcome \<times> int list option \<times> string list" where
  "cli_main parsed out_io selftest args =
    (if cli_selftest args then
       (case selftest of
          Inl e \<Rightarrow> (Traceback e, None, [])
        | Inr failures \<Rightarrow> (SysExit (if failures \<noteq> 0 then 1 else 0), None, []))
     else if cli_input args \<in> {None, Some []} \<or> cli_output args \<in> {None, Some []} then (SysExit 2, None, [])
     else
       (case parsed (the (cli_input args)) of
          Inl e \<Rightarrow> (Traceback e, None, [])
        | Inr tree \<Rightarrow>
            (case ebind (parse_kernel tree (cli_function args)) (\<lambda>fn.
                if cli_tensor args then compile_tensor fn (cli_dtype args) else compile fn) of
               Inl (CompileError msg) \<Rightarrow> (SysExit 1, None, [])
             | Inl e \<Rightarrow> (Traceback e, None, [])
             | Inr ws \<Rightarrow>
                 (case write_tbin (out_io (the (cli_output args))) ws (cli_tensor args) of
                    (Inl e, bytes) \<Rightarrow> (Traceback e, bytes, [])
                  | (Inr _, bytes) \<Rightarrow>
                      if cli_dump args then
                        (case dump_listing ws of
                           (lines, Inl e) \<Rightarrow> (Traceback e, bytes, lines)
                         | (lines, Inr _) \<Rightarrow> (Returned, bytes, lines))
                      else (Returned, bytes, [])))))"

end
