(* ===== verification/TbinProps.thy ===== *)
theory TbinProps
  imports Tbin CompilerProps
begin

text \<open>
  The TBIN container round trip and what the command line leaves behind. \<open>read_tbin\<close> is the layout of
  the header, read back.
\<close>

section \<open>Little-endian words\<close>

fun unpack_u32 :: "int list \<Rightarrow> py_error + int" where
  "unpack_u32 [a, b, c, d] = Inr (a + push_bit 8 b + push_bit 16 c + push_bit 24 d)"
| "unpack_u32 _ = Inl StructError"

definition u32_ok :: "int \<Rightarrow> bool" where
  "u32_ok v \<longleftrightarrow> 0 \<le> v \<and> v < 2 ^ 32"

lemma le_bytes_sum:
  assumes "u32_ok v"
  shows "take_bit 8 v + push_bit 8 (take_bit 8 (drop_bit 8 v)) + push_bit 16 (take_bit 8 (drop_bit 16 v)) +
    push_bit 24 (take_bit 8 (drop_bit 24 v)) = v"
proof -
  have s: "take_bit (n + 8) v = take_bit n v + push_bit n (take_bit 8 (drop_bit n v))" for n
    using bits_ident [of n "take_bit (n + 8) v"] by (simp add: drop_bit_take_bit)
  have "take_bit 32 v = v" using assms by (simp add: u32_ok_def take_bit_id)
  then show ?thesis using s [of 8] s [of 16] s [of 24] by simp
qed

interpretation le32: codec pack_u32 unpack_u32 u32_ok
proof
  show "\<exists>b. pack_u32 v = Inr b" if "u32_ok v" for v using that by (simp add: pack_u32_def u32_ok_def)
  show "unpack_u32 b = Inr v" if "u32_ok v" "pack_u32 v = Inr b" for v b
    using that le_bytes_sum [OF that(1)] by (auto simp: pack_u32_def u32_ok_def mask_simps)
qed

definition is_byte :: "int \<Rightarrow> bool" where
  "is_byte b \<longleftrightarrow> 0 \<le> b \<and> b < 256"

lemma pack_u32_bytes: "pack_u32 v = Inr b \<Longrightarrow> length b = 4 \<and> list_all is_byte b"
  using take_bit_lt [of 8] by (auto simp: pack_u32_def is_byte_def mask_simps split: if_splits)

text \<open>Four bytes at a time.\<close>

fun unpack_u32s :: "nat \<Rightarrow> int list \<Rightarrow> py_error + int list" where
  "unpack_u32s 0 bs = (if bs = [] then Inr [] else Inl StructError)"
| "unpack_u32s (Suc n) bs =
    ebind (unpack_u32 (take 4 bs)) (\<lambda>v. ebind (unpack_u32s n (drop 4 bs)) (\<lambda>vs. Inr (v # vs)))"

lemma pack_u32s_spec:
  "list_all u32_ok vs \<Longrightarrow> \<exists>bs. pack_u32s vs = Inr bs \<and> length bs = 4 * length vs \<and> list_all is_byte bs \<and>
     unpack_u32s (length vs) bs = Inr vs"
proof (induction vs)
  case (Cons v vs)
  then obtain bs where bs: "pack_u32s vs = Inr bs" "length bs = 4 * length vs" "list_all is_byte bs" "unpack_u32s (length vs) bs = Inr vs"
    by auto
  obtain b where b: "pack_u32 v = Inr b" using le32.enc_total [of v] Cons.prems by auto
  have l: "length b = 4" "list_all is_byte b" using pack_u32_bytes [OF b] by simp_all
  have "unpack_u32 b = Inr v" using le32.dec_enc [OF _ b] Cons.prems by simp
  moreover obtain bss where "emap pack_u32 vs = Inr bss" "bs = concat bss" using bs(1) by (auto simp: pack_u32s_def)
  ultimately show ?case using b bs l by (simp add: pack_u32s_def)
qed (simp add: pack_u32s_def)

section \<open>Reading a container\<close>

definition read_tbin :: "int list \<Rightarrow> py_error + (int \<times> int list)" where
  "read_tbin bs =
    ebind (unpack_u32s 4 (take 16 bs)) (\<lambda>hdr.
      if hdr ! 0 = TBIN_MAGIC \<and> hdr ! 1 = TBIN_VERSION
      then ebind (unpack_u32s (nat (hdr ! 3)) (drop 16 bs)) (\<lambda>ws. Inr (hdr ! 2, ws))
      else Inl ValueError)"

lemma write_tbin_bytes:
  assumes "list_all u32_ok ws" "length ws < 2 ^ 32"
  shows "\<exists>bs. (\<forall>io. write_tbin io ws tensor = io bs) \<and> length bs = 16 + 4 * length ws \<and> list_all is_byte bs \<and>
    read_tbin bs = Inr (if tensor then 1 else 0, ws)"
proof -
  define hdr where "hdr = [TBIN_MAGIC, TBIN_VERSION, if tensor then TBIN_FLAG_TENSOR else 0, int (length ws)]"
  have "int (length ws) < 2 ^ 32" using assms(2) by (metis of_nat_less_iff of_nat_numeral of_nat_power)
  then have ok: "list_all u32_ok hdr" by (simp add: hdr_def u32_ok_def TBIN_MAGIC_def TBIN_VERSION_def TBIN_FLAG_TENSOR_def)
  obtain h where h: "pack_u32s hdr = Inr h" "length h = 4 * length hdr" "list_all is_byte h" "unpack_u32s (length hdr) h = Inr hdr"
    using pack_u32s_spec [OF ok] by blast
  obtain b where b: "pack_u32s ws = Inr b" "length b = 4 * length ws" "list_all is_byte b" "unpack_u32s (length ws) b = Inr ws"
    using pack_u32s_spec [OF assms(1)] by blast
  have l: "length h = 16" "length hdr = 4" using h(2) by (simp_all add: hdr_def)
  have "read_tbin (h @ b) = Inr (if tensor then 1 else 0, ws)"
    using h(4) b(4) unfolding read_tbin_def by (simp add: l) (simp add: hdr_def TBIN_FLAG_TENSOR_def)
  moreover have "write_tbin io ws tensor = io (h @ b)" for io
    using h(1) b(1) by (simp add: write_tbin_def hdr_def Let_def)
  ultimately show ?thesis using h b l by (intro exI [of _ "h @ b"]) simp
qed

text \<open>A word count that does not fit its field raises before anything is written.\<close>

lemma write_tbin_long:
  assumes "2 ^ 32 \<le> length ws"
  shows "write_tbin io ws tensor = close_raising StructError (io [])"
proof -
  have "\<not> int (length ws) < 2 ^ 32" using assms by (metis of_nat_less_iff of_nat_numeral of_nat_power not_less)
  then show ?thesis by (simp add: write_tbin_def Let_def pack_u32s_def pack_u32_def TBIN_MAGIC_def TBIN_VERSION_def TBIN_FLAG_TENSOR_def)
qed

lemma dump_from_ok: "list_all (\<lambda>w. \<exists>t. disassemble w = Inr t) ws \<Longrightarrow>
    \<exists>ls. dump_from pc ws = (ls, Inr ()) \<and> length ls = length ws"
proof (induction ws arbitrary: pc)
  case (Cons w ws)
  then obtain t ls where "disassemble w = Inr t" "dump_from (Suc pc) ws = (ls, Inr ())" "length ls = length ws"
    by fastforce
  then show ?case by simp
qed simp

lemma compile_packs: "compile fn = Inr ws \<Longrightarrow> list_all u32_ok ws \<and> list_all (\<lambda>w. \<exists>t. disassemble w = Inr t) ws"
  using compile_emittable [of fn ws] by (auto simp: list_all_iff emittable_def u32_ok_def)

section \<open>Properties\<close>

text \<open>C27: a container of at most \<open>2 ^ 32 - 1\<close> words of 32 bits is 16 bytes of header and four bytes a word, and is read back
  with its tensor flag and its words, whatever writing the bytes does.\<close>

theorem tbin_roundtrip:
  assumes "list_all u32_ok ws" "length ws < 2 ^ 32"
  shows "\<exists>bs. (\<forall>io. write_tbin io ws tensor = io bs) \<and> length bs = 16 + 4 * length ws \<and> list_all is_byte bs \<and>
    read_tbin bs = Inr (if tensor then 1 else 0, ws)"
  by (rule write_tbin_bytes [OF assms])

lemma tbin_roundtrip_witness:
  "\<exists>bs. (\<forall>io. write_tbin io [0xC8007FF9, 0, 0xFFFFFFFF] True = io bs) \<and>
    length bs = 16 + 4 * length [0xC8007FF9, 0, 0xFFFFFFFF :: int] \<and> list_all is_byte bs \<and>
    read_tbin bs = Inr (if True then 1 else 0, [0xC8007FF9, 0, 0xFFFFFFFF])"
  by (rule tbin_roundtrip) (simp_all add: u32_ok_def)

text \<open>C28: the command line with the scalar backend, in every case: a \<open>CompileError\<close> exits with 1 and any other exception of the
  compiler ends in a traceback, both without touching the output file; for a compiled program the bytes that read back as its words are
  given to the output file, and if that raises the exception ends in a traceback, else \<open>main\<close> returns with one line of listing per
  instruction when the listing was asked for; a program of \<open>2 ^ 32\<close> words or more ends in a traceback with nothing written.\<close>

theorem cli_scalar_outcome:
  assumes "\<not> cli_selftest args" "\<not> cli_tensor args" "cli_input args = Some inp" "inp \<noteq> []" "cli_output args = Some outp" "outp \<noteq> []"
    and "parsed inp = Inr tree"
  shows "case ebind (parse_kernel tree (cli_function args)) compile of
      Inl (CompileError msg) \<Rightarrow> cli_main parsed out_io selft args = (SysExit 1, None, [])
    | Inl e \<Rightarrow> cli_main parsed out_io selft args = (Traceback e, None, [])
    | Inr ws \<Rightarrow>
        if length ws < 2 ^ 32
        then \<exists>bs lines. read_tbin bs = Inr (0, ws) \<and> length lines = (if cli_dump args then length ws else 0) \<and>
          cli_main parsed out_io selft args =
            (case out_io outp bs of (Inl e, file) \<Rightarrow> (Traceback e, file, []) | (Inr _, file) \<Rightarrow> (Returned, file, lines))
        else cli_main parsed out_io selft args =
            (case out_io outp [] of (Inl e, file) \<Rightarrow> (Traceback e, file, []) | (Inr _, file) \<Rightarrow> (Traceback StructError, file, []))"
proof (cases "ebind (parse_kernel tree (cli_function args)) compile")
  case (Inl e)
  then have k: "ebind (parse_kernel tree (cli_function args)) (\<lambda>fn. compile fn) = Inl e" by simp
  show ?thesis using assms k by (cases e) (auto simp: cli_main_def)
next
  case (Inr ws)
  then have k: "ebind (parse_kernel tree (cli_function args)) (\<lambda>fn. compile fn) = Inr ws" by simp
  obtain fn where "compile fn = Inr ws" using Inr by auto
  from compile_packs [OF this] have p: "list_all u32_ok ws" "list_all (\<lambda>w. \<exists>t. disassemble w = Inr t) ws" by simp_all
  obtain ls where ls: "dump_listing ws = (ls, Inr ())" "length ls = length ws" using dump_from_ok [OF p(2)] by (auto simp: dump_listing_def)
  have m: "cli_main parsed out_io selft args =
      (case write_tbin (out_io outp) ws False of
         (Inl e, file) \<Rightarrow> (Traceback e, file, [])
       | (Inr _, file) \<Rightarrow> (Returned, file, if cli_dump args then ls else []))"
    using assms k ls by (auto simp: cli_main_def split: sum.splits prod.splits)
  show ?thesis
  proof (cases "length ws < 2 ^ 32")
    case True
    from write_tbin_bytes [OF p(1) this, of False] obtain bs where "write_tbin io ws False = io bs" "read_tbin bs = Inr (0, ws)" for io
      by auto
    then show ?thesis using Inr m ls True
      by (auto intro!: exI [of _ bs] exI [of _ "if cli_dump args then ls else []"])
  next
    case False
    then show ?thesis using Inr m write_tbin_long [of ws "out_io outp" False]
      by (auto simp: close_raising_def split: sum.splits prod.splits)
  qed
qed

definition demo_disk :: "string \<Rightarrow> out_file" where
  "demo_disk path bs = (if path = ''full'' then (Inl OSError, Some (take 8 bs)) else (Inr (), Some bs))"

lemma cli_scalar_outcome_witness:
  "\<exists>bs lines. read_tbin bs = Inr (0, [4196353, 6356993, 3355475961]) \<and> length lines = (if True then 3 else 0) \<and>
    cli_main (\<lambda>_. Inr [OtherTop, FunctionDef \<lparr>fname = ''k'', fargs = [], fbody = [Assign [Name ''x''] (Constant (CInt 256))],
       fextra = []\<rparr>]) demo_disk (Inr 0)
     \<lparr>cli_input = Some ''k.py'', cli_output = Some ''k.tbin'', cli_function = None, cli_tensor = False, cli_dtype = ''int8'',
      cli_dump = True, cli_selftest = False\<rparr> = (Returned, Some bs, lines)"
proof -
  define f where "f = \<lparr>fname = ''k'', fargs = [], fbody = [Assign [Name ''x''] (Constant (CInt 256))], fextra = []\<rparr>"
  have c: "compile f = Inr [4196353, 6356993, 3355475961]" unfolding f_def by code_simp
  define args where "args = \<lparr>cli_input = Some ''k.py'', cli_output = Some ''k.tbin'', cli_function = None, cli_tensor = False,
    cli_dtype = ''int8'', cli_dump = True, cli_selftest = False\<rparr>"
  show ?thesis
    using cli_scalar_outcome [of args "''k.py''" "''k.tbin''" "\<lambda>_. Inr [OtherTop, FunctionDef f]" "[OtherTop, FunctionDef f]" demo_disk "Inr 0"] c
    unfolding f_def [symmetric] args_def [symmetric] by (simp add: args_def parse_kernel_def numeral_3_eq_3 demo_disk_def)
qed

end
