(* ===== verification/CoverageUtil.thy ===== *)
theory CoverageUtil
  imports PyString
begin

text \<open>
  The functional coverage layer \<^verbatim>\<open>tb/uvm/coverage_util.py\<close>. The decorators \<open>CoverPoint\<close> and \<open>CoverCross\<close>
  belong to an optional package; what the file gives them is modelled: the tables of points and
  crosses, and for every sampling function the list of points with the value its \<open>xf\<close> extracts. The
  tracker of MESI states is a map that is passed along.
\<close>

datatype cov_val = CS string | CN int

abbreviation CSs :: "string list \<Rightarrow> cov_val list" where
  "CSs \<equiv> map CS"

definition FP_CLASSES :: "string list" where
  "FP_CLASSES = [''zero'', ''sub'', ''norm'', ''inf'', ''nan'']"

definition MESI_NAMES :: "string list" where
  "MESI_NAMES = [''I'', ''S'', ''E'', ''M'']"

definition MESI_LEGAL_TRANS :: "string list" where
  "MESI_LEGAL_TRANS =
    [''I->S'', ''I->E'', ''I->M'', ''S->M'', ''S->I'', ''E->M'', ''E->S'', ''E->I'', ''M->S'', ''M->I'']"

text \<open>The bins of the points of each sampling function, and the crosses with their ignored bins.\<close>

definition FPU_POINTS :: "(string \<times> cov_val list) list" where
  "FPU_POINTS =
    [(''fpu.op'', CSs [''add'', ''mul'', ''fma'', ''mul16'']), (''fpu.rm'', map CN [0, 1, 2, 3]),
     (''fpu.cls_a'', CSs FP_CLASSES), (''fpu.cls_b'', CSs FP_CLASSES)]"

definition FPU_CROSSES :: "(string \<times> string list \<times> cov_val list list) list" where
  "FPU_CROSSES =
    [(''fpu.op_x_rm'', [''fpu.op'', ''fpu.rm''], [[CS ''mul16'', CN 1], [CS ''mul16'', CN 2], [CS ''mul16'', CN 3]]),
     (''fpu.cls_a_x_b'', [''fpu.cls_a'', ''fpu.cls_b''], [])]"

definition FLAG_POINTS :: "(string \<times> cov_val list) list" where
  "FLAG_POINTS = [(''fpu.flag'', CSs [''invalid'', ''overflow'', ''underflow'', ''inexact'', ''none''])]"

definition MESI_POINTS :: "(string \<times> cov_val list) list" where
  "MESI_POINTS = [(''mesi.state'', CSs MESI_NAMES), (''mesi.transition'', CSs MESI_LEGAL_TRANS)]"

definition LSU_POINTS :: "(string \<times> cov_val list) list" where
  "LSU_POINTS =
    [(''lsu.mask'', CSs [''empty'', ''single'', ''sparse'', ''full'']),
     (''lsu.xactions'', CSs [''0'', ''1'', ''2'', ''3-8'', ''9-31'', ''32'']),
     (''lsu.write'', map CN [0, 1]), (''lsu.backpressure'', CSs [''0'', ''1-3'', ''4+''])]"

definition LSU_CROSSES :: "(string \<times> string list \<times> cov_val list list) list" where
  "LSU_CROSSES = [(''lsu.mask_x_write'', [''lsu.mask'', ''lsu.write''], [])]"

definition TMU_POINTS :: "(string \<times> cov_val list) list" where
  "TMU_POINTS =
    [(''tmu.fmt'', map CN [0, 1, 2]), (''tmu.mode'', CSs [''wrap'', ''clamp'']),
     (''tmu.ufrac'', CSs [''min'', ''mid'', ''max'']), (''tmu.vfrac'', CSs [''min'', ''mid'', ''max''])]"

definition TMU_CROSSES :: "(string \<times> string list \<times> cov_val list list) list" where
  "TMU_CROSSES = [(''tmu.fmt_x_mode'', [''tmu.fmt'', ''tmu.mode''], [])]"

type_synonym samples = "(string \<times> cov_val) list"

text \<open>Without the package the decorators leave the functions alone, and nothing is sampled.\<close>

definition decorated :: "bool \<Rightarrow> samples \<Rightarrow> samples" where
  "decorated COVERAGE_ENABLED s = (if COVERAGE_ENABLED then s else [])"

section \<open>Floating point\<close>

definition fp_class :: "int \<Rightarrow> int \<Rightarrow> string" where
  "fp_class bits width =
    (let (e, f, emax) =
       (if width = 32 then (drop_bit 23 bits AND 0xFF, bits AND 0x7FFFFF, 0xFF)
        else (drop_bit 10 bits AND 0x1F, bits AND 0x3FF, 0x1F)) in
     if e = emax then (if f \<noteq> 0 then ''nan'' else ''inf'')
     else if e = 0 then (if f \<noteq> 0 then ''sub'' else ''zero'')
     else ''norm'')"

definition sample_fpu :: "string \<Rightarrow> int \<Rightarrow> string \<Rightarrow> string \<Rightarrow> samples" where
  "sample_fpu opn rm ca cb = [(''fpu.op'', CS opn), (''fpu.rm'', CN rm), (''fpu.cls_a'', CS ca), (''fpu.cls_b'', CS cb)]"

definition sample_fpu_flag :: "string \<Rightarrow> samples" where
  "sample_fpu_flag fl = [(''fpu.flag'', CS fl)]"

text \<open>\<open>flags.get(name)\<close> is false for a missing name.\<close>

definition sample_fpu_op ::
    "bool \<Rightarrow> string \<Rightarrow> int \<Rightarrow> int \<Rightarrow> int \<Rightarrow> (string \<Rightarrow> bool option) option \<Rightarrow> int \<Rightarrow> samples" where
  "sample_fpu_op en opn rm a_bits b_bits flags width =
    decorated en (sample_fpu opn rm (fp_class a_bits width) (fp_class b_bits width)) @
    (case flags of
       None \<Rightarrow> []
     | Some fl \<Rightarrow>
         (let hit = filter (\<lambda>name. fl name = Some True) [''invalid'', ''overflow'', ''underflow'', ''inexact''] in
          decorated en (concat (map sample_fpu_flag hit)) @
          (if hit = [] then decorated en (sample_fpu_flag ''none'') else [])))"

section \<open>MESI\<close>

definition trans_name :: "string \<Rightarrow> string \<Rightarrow> string" where
  "trans_name p n = p @ ''->'' @ n"

type_synonym ('m, 'a) tracker = "'m \<times> 'a \<Rightarrow> string option"

definition sample_mesi_state ::
    "bool \<Rightarrow> 'm \<Rightarrow> 'a \<Rightarrow> int \<Rightarrow> ('m, 'a) tracker \<Rightarrow> samples \<times> ('m, 'a) tracker" where
  "sample_mesi_state en master addr state_num mesi_last =
    (let nw = MESI_NAMES ! nat (state_num AND 3); key = (master, addr); prev = mesi_last key in
     (decorated en [(''mesi.state'', CS nw)] @
      (case prev of
         None \<Rightarrow> []
       | Some p \<Rightarrow> if p \<noteq> nw then decorated en [(''mesi.transition'', CS (trans_name p nw))] else []),
      mesi_last(key \<mapsto> nw)))"

text \<open>The calls a bench makes, in order.\<close>

fun sample_mesi_states :: "bool \<Rightarrow> ('m \<times> 'a \<times> int) list \<Rightarrow> ('m, 'a) tracker \<Rightarrow> samples \<times> ('m, 'a) tracker" where
  "sample_mesi_states en [] t = ([], t)"
| "sample_mesi_states en ((m, a, n) # calls) t =
    (let (s, t) = sample_mesi_state en m a n t; (s', t) = sample_mesi_states en calls t in (s @ s', t))"

section \<open>Load/store unit\<close>

fun popcount :: "nat \<Rightarrow> int \<Rightarrow> nat" where
  "popcount 0 v = 0"
| "popcount (Suc n) v = (if v AND 1 = 0 then 0 else 1) + popcount n (drop_bit 1 v)"

definition mask_kind :: "int \<Rightarrow> string" where
  "mask_kind msk =
    (let n = popcount 32 (msk AND 0xFFFFFFFF) in
     if n = 0 then ''empty'' else if n = 1 then ''single'' else if n = 32 then ''full'' else ''sparse'')"

definition xact_bin :: "int \<Rightarrow> string" where
  "xact_bin n = (if n \<le> 2 then int_str n else if n \<le> 8 then ''3-8'' else if n \<le> 31 then ''9-31'' else ''32'')"

definition stall_bin :: "int \<Rightarrow> string" where
  "stall_bin n = (if n = 0 then ''0'' else if n \<le> 3 then ''1-3'' else ''4+'')"

definition sample_lsu :: "string \<Rightarrow> string \<Rightarrow> int \<Rightarrow> string \<Rightarrow> samples" where
  "sample_lsu mk x w s = [(''lsu.mask'', CS mk), (''lsu.xactions'', CS x), (''lsu.write'', CN w), (''lsu.backpressure'', CS s)]"

definition sample_lsu_warp :: "bool \<Rightarrow> int \<Rightarrow> int \<Rightarrow> bool \<Rightarrow> int \<Rightarrow> samples" where
  "sample_lsu_warp en msk xactions wr stall_cycles =
    decorated en (sample_lsu (mask_kind msk) (xact_bin xactions) (if wr then 1 else 0) (stall_bin stall_cycles))"

section \<open>Texture unit\<close>

definition frac_bin :: "int \<Rightarrow> string" where
  "frac_bin f = (if f = 0 then ''min'' else if f = 255 then ''max'' else ''mid'')"

definition sample_tmu0 :: "int \<Rightarrow> string \<Rightarrow> string \<Rightarrow> string \<Rightarrow> samples" where
  "sample_tmu0 fmt m u v = [(''tmu.fmt'', CN fmt), (''tmu.mode'', CS m), (''tmu.ufrac'', CS u), (''tmu.vfrac'', CS v)]"

definition sample_tmu :: "bool \<Rightarrow> int \<Rightarrow> bool \<Rightarrow> int \<Rightarrow> int \<Rightarrow> samples" where
  "sample_tmu en fmt clamp uf vf =
    decorated en (sample_tmu0 fmt (if clamp then ''clamp'' else ''wrap'') (frac_bin (uf AND 0xFF)) (frac_bin (vf AND 0xFF)))"

section \<open>Export\<close>

text \<open>An item of the database of the package: its size, its coverage and its percentage.\<close>

record cov_item =
  item_size :: int
  item_coverage :: int
  item_percentage :: int

text \<open>The list of registered suites and the callbacks pending at exit.\<close>

definition export_on_exit :: "bool \<Rightarrow> string \<Rightarrow> string list \<times> string list \<Rightarrow> string list \<times> string list" where
  "export_on_exit en suite st =
    (let (registered, callbacks) = st in
     if suite \<in> set registered then (registered, callbacks)
     else if \<not> en then (registered @ [suite], callbacks)
     else (registered @ [suite], callbacks @ [suite]))"

fun starts_with :: "string \<Rightarrow> string \<Rightarrow> bool" where
  "starts_with [] s = True"
| "starts_with (c # cs) [] = False"
| "starts_with (c # cs) (d # ds) = (c = d \<and> starts_with cs ds)"

text \<open>
  What a callback reports: the file it wrote and the items of its suite with a size, in the order of
  their names; nothing when the export raised.
\<close>

definition export_report ::
    "bool \<Rightarrow> (string \<times> cov_item) list \<Rightarrow> string \<Rightarrow> (string \<times> (string \<times> int \<times> int \<times> int) list) option" where
  "export_report raised db suite =
    (if raised then None
     else Some (suite @ ''_coverage.yml'',
       map (\<lambda>n. let it = the (map_of db n) in (n, item_coverage it, item_size it, item_percentage it))
         (filter (\<lambda>n. item_size (the (map_of db n)) \<noteq> 0 \<and> starts_with (suite @ ''.'') n) (sort (map fst db)))))"

end
