(* ===== verification/CoverageProps.thy ===== *)
theory CoverageProps
  imports CoverageUtil FpRef "HOL-Library.Multiset"
begin

text \<open>
  What the coverage layer promises: its operand classes are those of the floating-point model, the
  MESI tracker counts the transitions of every line on its own, and every value it samples is a bin.
\<close>

section \<open>Operand classes\<close>

definition class_of :: "fp_format \<Rightarrow> int \<Rightarrow> string" where
  "class_of fmt bits =
    (case decode bits fmt of (k, s, m, c) \<Rightarrow>
       case k of KNan \<Rightarrow> ''nan'' | KSnan \<Rightarrow> ''nan'' | KInf \<Rightarrow> ''inf'' | KZero \<Rightarrow> ''zero''
         | KFin \<Rightarrow> if drop_bit (MANT fmt) m = 0 then ''sub'' else ''norm'')"

lemma drop_mask_or: "drop_bit n (x AND (2 ^ n - 1) :: int) = 0 \<and> drop_bit n ((x AND (2 ^ n - 1)) OR push_bit n 1) = (1 :: int)"
  by (auto intro!: bit_eqI simp: bit_simps mask_eq_exp_minus_1 [symmetric])

section \<open>Transitions\<close>

fun changes :: "'a list \<Rightarrow> ('a \<times> 'a) list" where
  "changes (x # y # zs) = (if x = y then changes (y # zs) else (x, y) # changes (y # zs))"
| "changes _ = []"

definition states_of :: "('m \<times> 'a \<times> int) list \<Rightarrow> 'm \<times> 'a \<Rightarrow> string list" where
  "states_of calls key = map (\<lambda>(_, _, n). MESI_NAMES ! nat (n AND 3)) (filter (\<lambda>(m, a, _). (m, a) = key) calls)"

definition key_of :: "'m \<times> 'a \<times> int \<Rightarrow> 'm \<times> 'a" where
  "key_of c = (case c of (m, a, _) \<Rightarrow> (m, a))"

definition trans_samples :: "samples \<Rightarrow> samples" where
  "trans_samples s = filter (\<lambda>x. fst x = ''mesi.transition'') s"

definition trans_sample :: "string \<times> string \<Rightarrow> string \<times> cov_val" where
  "trans_sample p = (''mesi.transition'', CS (trans_name (fst p) (snd p)))"

definition from_last :: "string option \<Rightarrow> string list \<Rightarrow> string list" where
  "from_last p xs = (case p of None \<Rightarrow> xs | Some x \<Rightarrow> x # xs)"

lemma trans_samples_append [simp]: "trans_samples (s @ s') = trans_samples s @ trans_samples s'"
  by (simp add: trans_samples_def)

lemma states_of_Cons:
  "states_of ((m, a, n) # calls) k = (if (m, a) = k then MESI_NAMES ! nat (n AND 3) # states_of calls k else states_of calls k)"
  by (auto simp: states_of_def)

lemma tracker_transitions:
  fixes calls :: "('m \<times> 'a \<times> int) list"
  assumes "finite K" "key_of ` set calls \<subseteq> K" "sample_mesi_states True calls t = (s, t')"
  shows "mset (trans_samples s) = (\<Sum>k\<in>K. mset (map trans_sample (changes (from_last (t k) (states_of calls k)))))"
  using assms
proof (induction calls arbitrary: t s t')
  case Nil
  have "changes (from_last p []) = []" for p by (cases p) (simp_all add: from_last_def)
  then show ?case using Nil by (simp add: trans_samples_def states_of_def)
next
  case (Cons c calls)
  obtain m a n where c: "c = (m, a, n)" by (cases c)
  define nw where "nw = MESI_NAMES ! nat (n AND 3)"
  define t1 where "t1 = t((m, a) \<mapsto> nw)"
  obtain s' where s': "sample_mesi_states True calls t1 = (s', t')"
    using Cons.prems(3) by (auto simp: c sample_mesi_state_def nw_def t1_def Let_def split: prod.splits)
  define ev where "ev = (case t (m, a) of None \<Rightarrow> [] | Some p \<Rightarrow> if p \<noteq> nw then [(p, nw)] else [])"
  have s: "trans_samples s = map trans_sample ev @ trans_samples s'"
    using Cons.prems(3) s'
    by (auto simp: c sample_mesi_state_def nw_def t1_def ev_def Let_def decorated_def trans_samples_def trans_sample_def
        split: prod.splits option.splits)
  have k: "(m, a) \<in> K" using Cons.prems(2) by (simp add: c key_of_def)
  have ch: "changes (from_last (t (m, a)) (states_of (c # calls) (m, a))) = ev @ changes (from_last (t1 (m, a)) (states_of calls (m, a)))"
    by (cases "t (m, a)") (simp_all add: c states_of_Cons from_last_def ev_def t1_def nw_def [symmetric])
  have ne: "changes (from_last (t k) (states_of (c # calls) k)) = changes (from_last (t1 k) (states_of calls k))" if "k \<noteq> (m, a)" for k
    using that by (simp add: c states_of_Cons t1_def)
  have "mset (trans_samples s') = (\<Sum>k\<in>K. mset (map trans_sample (changes (from_last (t1 k) (states_of calls k)))))"
    using Cons.IH [OF assms(1) _ s'] Cons.prems(2) by simp
  then show ?case
    unfolding s sum.remove [OF assms(1) k] using ch ne by simp
qed

section \<open>Bins\<close>

definition in_bins :: "(string \<times> cov_val list) list \<Rightarrow> samples \<Rightarrow> bool" where
  "in_bins pts s = list_all (\<lambda>(n, v). case map_of pts n of None \<Rightarrow> False | Some bs \<Rightarrow> v \<in> set bs) s"

text \<open>All bins of all points are sampled.\<close>

definition all_bins :: "(string \<times> cov_val list) list \<Rightarrow> samples \<Rightarrow> bool" where
  "all_bins pts s = list_all (\<lambda>(n, bs). list_all (\<lambda>b. (n, b) \<in> set s) bs) pts"

lemma xact_bin_cases: "0 \<le> n \<Longrightarrow> xact_bin n \<in> {''0'', ''1'', ''2'', ''3-8'', ''9-31'', ''32''}"
proof -
  assume n: "0 \<le> n"
  have d: "dec_str 0 = ''0''" "dec_str 1 = ''1''" "dec_str 2 = ''2''"
    by code_simp+
  then have "xact_bin 0 = ''0''" "xact_bin 1 = ''1''" "xact_bin 2 = ''2''" by (simp_all add: xact_bin_def int_str_def)
  moreover have "n = 0 \<or> n = 1 \<or> n = 2 \<or> n > 2" using n by arith
  ultimately show ?thesis by (elim disjE) (simp_all add: xact_bin_def)
qed

section \<open>Properties\<close>

text \<open>The operand classes the bench crosses are the kinds of the reference model, in single and in half precision, for
  every bit pattern.\<close>

theorem fp_class_is_decode: "fp_class bits 32 = class_of FP32 bits \<and> fp_class bits 16 = class_of FP16 bits"
  using drop_mask_or [of 23 bits] drop_mask_or [of 10 bits]
  by (auto simp: fp_class_def class_of_def decode_def FP32_def FP16_def FpFormat_def Let_def)

text \<open>C31: the transitions that are sampled are, with their multiplicities, the changes of state of each line of each master on
  its own, in whatever order the calls of different lines and masters come.\<close>

theorem mesi_transitions_per_line:
  "mset (trans_samples (fst (sample_mesi_states True calls Map.empty))) =
    (\<Sum>k\<in>set (map key_of calls). mset (map trans_sample (changes (states_of calls k))))"
proof -
  obtain s t' where "sample_mesi_states True calls Map.empty = (s, t')" by fastforce
  from tracker_transitions [OF _ _ this, of "set (map key_of calls)"] this show ?thesis by (simp add: from_last_def)
qed

text \<open>Whatever the load/store bench samples with a transaction count that is not negative is a bin of the declared points,
  and six calls reach every bin of them; the same for the texture bench with its three formats.\<close>

theorem sampled_values_are_bins:
  assumes "0 \<le> xactions" "fmt \<in> {0, 1, 2}"
  shows "in_bins LSU_POINTS (sample_lsu_warp en msk xactions wr stall_cycles) \<and>
    in_bins TMU_POINTS (sample_tmu en fmt clamp uf vf) \<and>
    all_bins LSU_POINTS (concat (map (\<lambda>(m, x, w, s). sample_lsu_warp True m x w s)
      [(0, 0, False, 0), (4, 1, True, 2), (0xFF, 2, False, 9), (0xFFFFFFFF, 5, True, 0), (1, 12, True, 3), (3, 32, True, 4)])) \<and>
    all_bins TMU_POINTS (concat (map (\<lambda>(f, c, u, v). sample_tmu True f c u v)
      [(0, False, 0, 255), (1, True, 255, 128), (2, True, 77, 0)]))"
proof (intro conjI)
  show "in_bins LSU_POINTS (sample_lsu_warp en msk xactions wr stall_cycles)"
    using xact_bin_cases [OF assms(1)]
    by (auto simp: in_bins_def sample_lsu_warp_def decorated_def sample_lsu_def LSU_POINTS_def mask_kind_def stall_bin_def Let_def)
  show "in_bins TMU_POINTS (sample_tmu en fmt clamp uf vf)"
    using assms(2) by (auto simp: in_bins_def sample_tmu_def decorated_def sample_tmu0_def TMU_POINTS_def frac_bin_def)
qed (code_simp)+

lemma sampled_values_are_bins_witness:
  "in_bins LSU_POINTS (sample_lsu_warp True 0x55555555 17 True 3) \<and> in_bins TMU_POINTS (sample_tmu True 2 True 0 255)"
  using sampled_values_are_bins [where xactions = 17 and fmt = 2 and en = True and msk = "0x55555555" and wr = True and
      stall_cycles = 3 and clamp = True and uf = 0 and vf = 255]
  by simp

end
