(* ===== verification/GenVectors.thy ===== *)
theory GenVectors
  imports PyText PyFloat
begin

text \<open>
  The stimulus generator \<^verbatim>\<open>tb/vectors/gen_vectors.py\<close>: the operand pairs of the floating-point
  benches, section by section, and the memory access patterns of the load/store bench. The random
  source is an argument: a record of the two primitives the library class \<open>Random\<close> is built on and
  of \<open>random()\<close>, on a state of any type. A generator passes that state along and may raise.
\<close>

section \<open>Random sources and generators\<close>

record 'g rng =
  rng_bits :: "nat \<Rightarrow> 'g \<Rightarrow> int \<times> 'g"
  rng_below :: "int \<Rightarrow> 'g \<Rightarrow> int \<times> 'g"
  rng_random :: "'g \<Rightarrow> int \<times> 'g"

type_synonym ('g, 'a) gen = "'g \<Rightarrow> (py_error + 'a) \<times> 'g"

definition gret :: "'a \<Rightarrow> ('g, 'a) gen" where
  "gret x = (\<lambda>g. (Inr x, g))"

definition graise :: "py_error \<Rightarrow> ('g, 'a) gen" where
  "graise e = (\<lambda>g. (Inl e, g))"

definition gbind :: "('g, 'a) gen \<Rightarrow> ('a \<Rightarrow> ('g, 'b) gen) \<Rightarrow> ('g, 'b) gen" where
  "gbind m f = (\<lambda>g. case m g of (Inl e, g) \<Rightarrow> (Inl e, g) | (Inr x, g) \<Rightarrow> f x g)"

lemma gbind_cong [fundef_cong]:
  "m = m' \<Longrightarrow> (\<And>x. f x = f' x) \<Longrightarrow> gbind m f = gbind m' f'"
  by (subgoal_tac "f = f'") (auto simp: gbind_def)

definition glift :: "('g \<Rightarrow> 'a \<times> 'g) \<Rightarrow> ('g, 'a) gen" where
  "glift m = (\<lambda>g. case m g of (x, g) \<Rightarrow> (Inr x, g))"

text \<open>The methods of \<open>Random\<close> the script calls, as the library defines them.\<close>

definition getrandbits :: "'g rng \<Rightarrow> nat \<Rightarrow> ('g, int) gen" where
  "getrandbits r k = glift (rng_bits r k)"

definition randrange :: "'g rng \<Rightarrow> int \<Rightarrow> int \<Rightarrow> int \<Rightarrow> ('g, int) gen" where
  "randrange r start stop step =
    (let n = (stop - start + step - 1) div step in
     if n \<le> 0 then graise ValueError
     else gbind (glift (rng_below r n)) (\<lambda>k. gret (start + step * k)))"

definition randint :: "'g rng \<Rightarrow> int \<Rightarrow> int \<Rightarrow> ('g, int) gen" where
  "randint r a b = randrange r a (b + 1) 1"

text \<open>Appending in a loop: the concatenation of what the rounds append.\<close>

fun gtimes :: "nat \<Rightarrow> ('g, 'a list) gen \<Rightarrow> ('g, 'a list) gen" where
  "gtimes 0 m = gret []"
| "gtimes (Suc n) m = gbind m (\<lambda>xs. gbind (gtimes n m) (\<lambda>ys. gret (xs @ ys)))"

fun gfor :: "'b list \<Rightarrow> ('b \<Rightarrow> ('g, 'a list) gen) \<Rightarrow> ('g, 'a list) gen" where
  "gfor [] f = gret []"
| "gfor (b # bs) f = gbind (f b) (\<lambda>xs. gbind (gfor bs f) (\<lambda>ys. gret (xs @ ys)))"

section \<open>Formats\<close>

record vfmt =
  vE :: nat
  vM :: nat
  vW :: nat
  vBIAS :: int
  vEMAX :: int
  vMMASK :: int

definition F :: "nat \<Rightarrow> nat \<Rightarrow> vfmt" where
  "F exp_bits mant_bits =
    \<lparr>vE = exp_bits, vM = mant_bits, vW = 1 + exp_bits + mant_bits, vBIAS = push_bit (exp_bits - 1) 1 - 1,
     vEMAX = push_bit exp_bits 1 - 1, vMMASK = push_bit mant_bits 1 - 1\<rparr>"

definition V32 :: vfmt where "V32 = F 8 23"
definition V16 :: vfmt where "V16 = F 5 10"

definition v_enc :: "vfmt \<Rightarrow> int \<Rightarrow> int \<Rightarrow> int \<Rightarrow> int" where
  "v_enc fmt s e f = push_bit (vW fmt - 1) (s AND 1) OR push_bit (vM fmt) (e AND vEMAX fmt) OR (f AND vMMASK fmt)"

definition v_hx :: "vfmt \<Rightarrow> int \<Rightarrow> string" where
  "v_hx fmt v = ''0x'' @ hex_str (vW fmt div 4) v"

definition v_inf :: "vfmt \<Rightarrow> int" where "v_inf fmt = v_enc fmt 0 (vEMAX fmt) 0"
definition v_qnan :: "vfmt \<Rightarrow> int" where "v_qnan fmt = v_enc fmt 0 (vEMAX fmt) (push_bit (vM fmt - 1) 1)"
definition v_snan :: "vfmt \<Rightarrow> int" where "v_snan fmt = v_enc fmt 0 (vEMAX fmt) 1"
definition v_min_sub :: "vfmt \<Rightarrow> int" where "v_min_sub fmt = v_enc fmt 0 0 1"
definition v_max_sub :: "vfmt \<Rightarrow> int" where "v_max_sub fmt = v_enc fmt 0 0 (vMMASK fmt)"
definition v_min_norm :: "vfmt \<Rightarrow> int" where "v_min_norm fmt = v_enc fmt 0 1 0"
definition v_max_fin :: "vfmt \<Rightarrow> int" where "v_max_fin fmt = v_enc fmt 0 (vEMAX fmt - 1) (vMMASK fmt)"
definition v_one :: "vfmt \<Rightarrow> int" where "v_one fmt = v_enc fmt 0 (vBIAS fmt) 0"

definition v_neg :: "vfmt \<Rightarrow> int \<Rightarrow> int" where
  "v_neg fmt v = v XOR push_bit (vW fmt - 1) 1"

text \<open>The optional upper bound of the exponent is \<open>EMAX - 1\<close> when it is left out.\<close>

definition rand_norm :: "vfmt \<Rightarrow> 'g rng \<Rightarrow> int \<Rightarrow> int option \<Rightarrow> ('g, int) gen" where
  "rand_norm fmt r emin emax =
    (let emax = (case emax of None \<Rightarrow> vEMAX fmt - 1 | Some x \<Rightarrow> x) in
     gbind (getrandbits r 1) (\<lambda>s. gbind (randint r emin emax) (\<lambda>e. gbind (getrandbits r (vM fmt)) (\<lambda>f.
       gret (v_enc fmt s e f)))))"

definition rand_sub :: "vfmt \<Rightarrow> 'g rng \<Rightarrow> ('g, int) gen" where
  "rand_sub fmt r =
    gbind (getrandbits r 1) (\<lambda>s. gbind (randint r 1 (vMMASK fmt)) (\<lambda>f. gret (v_enc fmt s 0 f)))"

section \<open>Operand pairs\<close>

text \<open>What a section appends: the list of additions or of multiplications it extends is the tag.\<close>

datatype op = Add | Mul

type_synonym pair = "op \<times> int \<times> int"

definition both :: "op \<Rightarrow> int \<Rightarrow> int \<Rightarrow> pair list" where
  "both l a b = [(l, a, b), (l, b, a)]"

definition both2 :: "int \<Rightarrow> int \<Rightarrow> pair list" where
  "both2 a b = both Add a b @ both Mul a b"

definition nan_payloads :: "vfmt \<Rightarrow> int list" where
  "nan_payloads fmt =
    [v_qnan fmt, v_qnan fmt OR (0x123 AND vMMASK fmt), v_neg fmt (v_qnan fmt), v_enc fmt 0 (vEMAX fmt) (vMMASK fmt),
     v_snan fmt, v_snan fmt OR push_bit (vM fmt - 2) 1, v_neg fmt (v_snan fmt)]"

definition nan_others :: "vfmt \<Rightarrow> int list" where
  "nan_others fmt =
    [v_one fmt, 0, v_neg fmt 0, v_inf fmt, v_neg fmt (v_inf fmt), v_min_sub fmt, v_max_fin fmt, v_qnan fmt, v_snan fmt]"

definition sec_nan :: "vfmt \<Rightarrow> pair list" where
  "sec_nan fmt = concat (map (\<lambda>nn. concat (map (\<lambda>o'. both2 nn o') (nan_others fmt))) (nan_payloads fmt))"

definition sec_inf :: "vfmt \<Rightarrow> pair list" where
  "sec_inf fmt =
    (let pinf = v_inf fmt; ninf = v_neg fmt (v_inf fmt) in
     concat (map (\<lambda>(a, b). [(Add, a, b), (Mul, a, b)]) [(pinf, pinf), (pinf, ninf), (ninf, pinf), (ninf, ninf)]) @
     concat (map (\<lambda>z. both Mul pinf z @ both Mul ninf z) [0, v_neg fmt 0]) @
     concat (map (\<lambda>fin. concat (map (\<lambda>i. both Add i fin @ both Add i (v_neg fmt fin) @ both Mul i fin @ both Mul i (v_neg fmt fin))
       [pinf, ninf])) [v_one fmt, v_max_fin fmt, v_min_norm fmt, v_min_sub fmt]))"

definition sec_zero :: "vfmt \<Rightarrow> pair list" where
  "sec_zero fmt =
    concat (map (\<lambda>sa. concat (map (\<lambda>sb. [(Add, sa, sb), (Mul, sa, sb)]) [0, v_neg fmt 0])) [0, v_neg fmt 0]) @
    concat (map (\<lambda>v. concat (map (\<lambda>z. both Add z v @ both Mul z v) [0, v_neg fmt 0]))
      [v_one fmt, v_neg fmt (v_one fmt), v_min_sub fmt, v_max_fin fmt])"

definition sec_sub :: "vfmt \<Rightarrow> 'g rng \<Rightarrow> ('g, pair list) gen" where
  "sec_sub fmt r =
    (let subs = [v_min_sub fmt, v_enc fmt 0 0 3, v_enc fmt 0 0 (drop_bit 1 (vMMASK fmt)), v_max_sub fmt,
                 v_neg fmt (v_min_sub fmt), v_neg fmt (v_max_sub fmt)] in
     gbind (gtimes 20
        (gbind (rand_sub fmt r) (\<lambda>a. gbind (rand_sub fmt r) (\<lambda>b.
         gbind (rand_sub fmt r) (\<lambda>c. gbind (rand_sub fmt r) (\<lambda>d. gret [(Add, a, b), (Mul, c, d)]))))))
       (\<lambda>rs. gret (concat (map (\<lambda>a. concat (map (\<lambda>b. [(Add, a, b), (Mul, a, b)]) subs)) subs) @ rs @
          concat (map (\<lambda>o'. both2 (v_min_sub fmt) o') [v_one fmt, v_max_fin fmt, v_min_norm fmt, v_inf fmt]))))"

definition sec_cross :: "vfmt \<Rightarrow> 'g rng \<Rightarrow> ('g, pair list) gen" where
  "sec_cross fmt r =
    gtimes 24
      (gbind (rand_sub fmt r) (\<lambda>s. gbind (getrandbits r 1) (\<lambda>sn.
       gbind (randint r (vBIAS fmt + 2) (vBIAS fmt + int (vM fmt) + 2)) (\<lambda>e. gbind (getrandbits r (vM fmt)) (\<lambda>f.
       gret (both Mul s (v_enc fmt sn e f)))))))"

definition sec_cancel :: "vfmt \<Rightarrow> 'g rng \<Rightarrow> ('g, pair list) gen" where
  "sec_cancel fmt r =
    gbind (gtimes 30
      (gbind (rand_norm fmt r 2 None) (\<lambda>a.
       gret (map (\<lambda>k.
         let b = (if a AND push_bit (vW fmt - 1) 1 = 0 then v_neg fmt a + k else v_neg fmt a - k)
         in (Add, a, b AND (push_bit (vW fmt) 1 - 1))) [0, 1, 2])))) (\<lambda>xs.
    gbind (gtimes 10
      (gbind (randint r 2 (vEMAX fmt - 2)) (\<lambda>e. gret [(Add, v_enc fmt 0 e 0, v_enc fmt 1 (e - 1) (vMMASK fmt))]))) (\<lambda>ys.
    gret (xs @ ys)))"

definition sec_ties :: "vfmt \<Rightarrow> 'g rng \<Rightarrow> ('g, pair list) gen" where
  "sec_ties fmt r =
    (let m_tie_a = v_enc fmt 0 (vBIAS fmt) 1; m_tie_b = v_enc fmt 0 (vBIAS fmt) (push_bit (vM fmt - 1) 1) in
     gbind (gtimes 20
       (gbind (randint r (int (vM fmt) + 2) (vEMAX fmt - 2)) (\<lambda>e. gbind (getrandbits r (vM fmt)) (\<lambda>f.
        let f_even = f AND NOT 1 in
        gret (concat (map (\<lambda>lsb. both Add (v_enc fmt 0 e (f_even OR lsb)) (v_enc fmt 0 (e - int (vM fmt) - 1) 0)) [0, 1])))))) (\<lambda>xs.
     gbind (gtimes 10
       (gbind (randint r 2 (vEMAX fmt - 2)) (\<lambda>e. gret (both Mul (v_enc fmt 0 e 1) m_tie_b)))) (\<lambda>ys.
     gret (xs @ both Mul m_tie_a m_tie_b @ both Mul (v_enc fmt 0 (vBIAS fmt) 2) m_tie_b @ ys))))"

definition sec_overflow :: "vfmt \<Rightarrow> pair list" where
  "sec_overflow fmt =
    (let ulp_e = vEMAX fmt - 1 - int (vM fmt); half = drop_bit 1 (vEMAX fmt);
         mf = v_max_fin fmt; h = v_enc fmt 0 (half + vBIAS fmt div 2) 0 in
     [(Add, mf, mf), (Add, mf, v_enc fmt 0 ulp_e 0), (Add, mf, v_enc fmt 0 (ulp_e - 1) 0), (Add, mf, v_enc fmt 0 (ulp_e - 2) 0),
      (Add, v_neg fmt mf, v_neg fmt mf),
      (Mul, mf, v_enc fmt 0 (vBIAS fmt) 1), (Mul, mf, v_one fmt), (Mul, mf, v_enc fmt 0 (vBIAS fmt - 1) (vMMASK fmt)),
      (Mul, h, h), (Mul, v_enc fmt 0 (vEMAX fmt - 2) 0, v_enc fmt 0 (vBIAS fmt + 1) 0)])"

definition sec_underflow :: "vfmt \<Rightarrow> 'g rng \<Rightarrow> ('g, pair list) gen" where
  "sec_underflow fmt r =
    gbind (gtimes 16
      (gbind (getrandbits r 1) (\<lambda>s1. gbind (randint r 0 3) (\<lambda>d.
       gbind (getrandbits r 1) (\<lambda>s2. gbind (randint r 0 3) (\<lambda>f.
       gret (both Mul (v_enc fmt s1 (vBIAS fmt - 1) (vMMASK fmt - d)) (v_enc fmt s2 1 f))))))))
     (\<lambda>xs. gret (both Mul (v_enc fmt 0 (vBIAS fmt - 1) (vMMASK fmt)) (v_min_norm fmt) @
        both Mul (v_enc fmt 0 (vBIAS fmt - 1) (vMMASK fmt - 1)) (v_min_norm fmt) @ xs))"

definition sec_align :: "vfmt \<Rightarrow> 'g rng \<Rightarrow> ('g, pair list) gen" where
  "sec_align fmt r =
    gfor [0, 1, int (vM fmt), int (vM fmt) + 1, int (vM fmt) + 2, int (vM fmt) + 3, 60] (\<lambda>d. gtimes 6
      (gbind (randint r (min (d + 1) (vEMAX fmt - 2)) (vEMAX fmt - 2)) (\<lambda>e1.
       gbind (getrandbits r 1) (\<lambda>s. gbind (getrandbits r (vM fmt)) (\<lambda>f.
       let a = v_enc fmt s e1 f; e2 = e1 - d in
       gbind (if e2 \<ge> 1 then gbind (getrandbits r 1) (\<lambda>s. gbind (getrandbits r (vM fmt)) (\<lambda>f. gret (v_enc fmt s e2 f)))
              else rand_sub fmt r)
         (\<lambda>b. gret (both Add a b)))))))"

definition biased :: "vfmt \<Rightarrow> 'g rng \<Rightarrow> ('g, int) gen" where
  "biased fmt r =
    gbind (randrange r 0 5 1) (\<lambda>style.
    if style = 0 then getrandbits r (vW fmt)
    else if style = 1 then rand_sub fmt r
    else if style = 2 then rand_norm fmt r 1 (Some 4)
    else if style = 3 then rand_norm fmt r (vEMAX fmt - 4) None
    else rand_norm fmt r 1 None)"

definition biased_pair :: "vfmt \<Rightarrow> 'g rng \<Rightarrow> ('g, int \<times> int) gen" where
  "biased_pair fmt r = gbind (biased fmt r) (\<lambda>a. gbind (biased fmt r) (\<lambda>b. gret (a, b)))"

text \<open>\<open>while len(lst) < n_random\<close>.\<close>

function fill :: "nat \<Rightarrow> ('g, 'a) gen \<Rightarrow> 'a list \<Rightarrow> ('g, 'a list) gen" where
  "fill n m xs = (if length xs < n then gbind m (\<lambda>x. fill n m (xs @ [x])) else gret xs)"
  by pat_completeness auto

termination
  by (relation "measure (\<lambda>(n, m, xs). n - length xs)") auto

declare fill.simps [simp del]

text \<open>The pairs appended to one of the two lists.\<close>

definition pairs_of :: "op \<Rightarrow> pair list \<Rightarrow> (int \<times> int) list" where
  "pairs_of l ps = map snd (filter (\<lambda>p. fst p = l) ps)"

definition to_hex :: "vfmt \<Rightarrow> (int \<times> int) list \<Rightarrow> (string \<times> string) list" where
  "to_hex fmt lst = map (\<lambda>(a, b). (v_hx fmt a, v_hx fmt b)) lst"

text \<open>Everything before the fill, in the order of the source.\<close>

definition directed :: "vfmt \<Rightarrow> 'g rng \<Rightarrow> ('g, pair list) gen" where
  "directed fmt r =
    gbind (sec_sub fmt r) (\<lambda>s4.
    gbind (sec_cross fmt r) (\<lambda>s5.
    gbind (sec_cancel fmt r) (\<lambda>s6.
    gbind (sec_ties fmt r) (\<lambda>s7.
    gbind (sec_underflow fmt r) (\<lambda>s9.
    gbind (sec_align fmt r) (\<lambda>s10.
    gret (sec_nan fmt @ sec_inf fmt @ sec_zero fmt @ s4 @ s5 @ s6 @ s7 @ sec_overflow fmt @ s9 @ s10)))))))"

definition fp_operands :: "vfmt \<Rightarrow> 'g rng \<Rightarrow> nat \<Rightarrow> ('g, (int \<times> int) list \<times> (int \<times> int) list) gen" where
  "fp_operands fmt r n_random =
    gbind (directed fmt r) (\<lambda>ps.
    gbind (fill n_random (biased_pair fmt r) (pairs_of Add ps)) (\<lambda>adds.
    gbind (fill n_random (biased_pair fmt r) (pairs_of Mul ps)) (\<lambda>muls.
    gret (adds, muls))))"

definition fp_pairs :: "vfmt \<Rightarrow> 'g rng \<Rightarrow> nat \<Rightarrow> ('g, (string \<times> string) list \<times> (string \<times> string) list) gen" where
  "fp_pairs fmt r n_random = gbind (fp_operands fmt r n_random) (\<lambda>(adds, muls). gret (to_hex fmt adds, to_hex fmt muls))"

section \<open>Access patterns\<close>

record lsu_pattern =
  p_mask :: string
  p_addrs :: "string list"
  p_write :: int

definition LINE :: int where "LINE = 128"
definition LIMIT :: int where "LIMIT = 0x40000"
definition full_mask :: int where "full_mask = 0xFFFFFFFF"

text \<open>\<open>f"0x{a:X}"\<close> has no minimal width.\<close>

definition lsu_entry :: "int \<Rightarrow> int list \<Rightarrow> int \<Rightarrow> ('g, lsu_pattern list) gen" where
  "lsu_entry msk addrs wr =
    (if length addrs \<noteq> 32 then graise AssertionError
     else if \<not> list_all (\<lambda>a. a mod 4 = 0 \<and> 0 \<le> a \<and> a < LIMIT) addrs then graise AssertionError
     else gret [\<lparr>p_mask = ''0x'' @ hex_str 8 (msk AND 0xFFFFFFFF), p_addrs = map (\<lambda>a. ''0x'' @ hex_str 0 a) addrs,
                 p_write = wr\<rparr>])"

definition lanes :: "(int \<Rightarrow> int) \<Rightarrow> int list" where
  "lanes f = map f [0..31]"

definition lsu_directed :: "'g rng \<Rightarrow> int \<Rightarrow> ('g, lsu_pattern list) gen" where
  "lsu_directed r wr =
    (let sq = lanes (\<lambda>i. 0x1000 + 4 * i) in
     gbind (gfor
        [(full_mask, sq), (full_mask, lanes (\<lambda>i. 0x2000 + 4 * i)), (full_mask, lanes (\<lambda>i. 0x3000 + 8 * i)),
         (full_mask, lanes (\<lambda>i. 0x4000 + 16 * i)), (full_mask, lanes (\<lambda>i. 0x5000 + 32 * i)),
         (full_mask, replicate 32 0x6040), (full_mask, lanes (\<lambda>i. 0x7000 + 64 + 4 * i)),
         (full_mask, lanes (\<lambda>i. 0x8000 + LINE * i)), (push_bit 13 1, sq), (0x55555555, sq)]
        (\<lambda>(m, addrs). lsu_entry m addrs wr)) (\<lambda>xs.
     gbind (gbind (getrandbits r 32) (\<lambda>b. lsu_entry (b OR 1) sq wr)) (\<lambda>ys.
     gbind (gfor
        [(full_mask, (replicate 32 0x9000)[7 := 0x9000 + 0x2000]), (full_mask, lanes (\<lambda>i. 0xA000 + 4 * (31 - i)))]
        (\<lambda>(m, addrs). lsu_entry m addrs wr)) (\<lambda>zs.
     gret (xs @ ys @ zs)))))"

text \<open>The literal \<open>0.6\<close>.\<close>

definition ZERO_SIX :: int where "ZERO_SIX = 0x3FE3333333333333"

definition lsu_random :: "'g rng \<Rightarrow> ('g, lsu_pattern list) gen" where
  "lsu_random r =
    gbind (randrange r 0 4 1) (\<lambda>style.
    gbind (if style = 0 then
             gbind (randrange r 0 (LIMIT - 256) 4) (\<lambda>a0.
               gtimes 32 (gbind (randrange r 0 64 1) (\<lambda>k. gret [a0 + 4 * k])))
           else if style = 1 then gtimes 32 (gbind (randrange r 0 LIMIT 4) (\<lambda>a. gret [a]))
           else if style = 2 then
             gbind (randrange r 0 (LIMIT - LINE * 40) 4) (\<lambda>a0.
               gtimes 32 (gbind (randrange r 0 8 1) (\<lambda>j. gbind (randrange r 0 32 1) (\<lambda>k. gret [a0 + LINE * j + 4 * k]))))
           else gbind (randrange r 0 (LIMIT - 4 * 40) 4) (\<lambda>a0. gret (lanes (\<lambda>i. a0 + 4 * i)))) (\<lambda>addrs.
    gbind (glift (rng_random r)) (\<lambda>x.
    gbind (if py_flt x ZERO_SIX then getrandbits r 32 else gret full_mask) (\<lambda>msk.
    gbind (getrandbits r 1) (\<lambda>wr. lsu_entry msk addrs wr)))))"

definition lsu_patterns :: "'g rng \<Rightarrow> ('g, lsu_pattern list) gen" where
  "lsu_patterns r =
    gbind (gfor [0, 1] (lsu_directed r)) (\<lambda>xs. gbind (gtimes 30 (lsu_random r)) (\<lambda>ys. gret (xs @ ys)))"

section \<open>The three files\<close>

datatype corpus =
    FpCorpus "(string \<times> (string \<times> string) list) list"
  | LsuCorpus "lsu_pattern list"

text \<open>The dictionary \<open>main\<close> dumps file by file; the state of the source is the seeded one.\<close>

definition gen_main :: "'g rng \<Rightarrow> ('g, (string \<times> corpus) list) gen" where
  "gen_main r =
    gbind (fp_pairs V32 r 520) (\<lambda>(add32, mul32).
    gbind (fp_pairs V16 r 420) (\<lambda>(_, mul16).
    gbind (lsu_patterns r) (\<lambda>lsu.
    gret [(''fp32_vectors.json'', FpCorpus [(''add'', add32), (''mul'', mul32)]),
          (''fp16_vectors.json'', FpCorpus [(''mul'', mul16)]),
          (''lsu_patterns.json'', LsuCorpus lsu)])))"

end
