(* ===== verification/GenVectorsProps.thy ===== *)
theory GenVectorsProps
  imports GenVectors CoverageProps FpOps
begin

text \<open>
  What the stimulus generator promises: it never raises, every operand fits its format and is read back
  from the text it is written as, the operand classes are closed before the random fill, every access
  pattern is aligned and in range, and the directed corners are what their comments say, with two
  exceptions. \<open>gsat P m\<close> says that the generator \<open>m\<close> does not raise and that what it returns
  satisfies \<open>P\<close>, from every state of the random source.
\<close>

section \<open>A logic for generators\<close>

definition gsat :: "('a \<Rightarrow> bool) \<Rightarrow> ('g, 'a) gen \<Rightarrow> bool" where
  "gsat P m \<longleftrightarrow> (\<forall>g. \<exists>x g'. m g = (Inr x, g') \<and> P x)"

definition rng_ok :: "'g rng \<Rightarrow> bool" where
  "rng_ok r \<longleftrightarrow>
    (\<forall>k g. 0 \<le> fst (rng_bits r k g) \<and> fst (rng_bits r k g) < 2 ^ k) \<and>
    (\<forall>n g. 0 < n \<longrightarrow> 0 \<le> fst (rng_below r n g) \<and> fst (rng_below r n g) < n)"

lemma gsat_ret: "P x \<Longrightarrow> gsat P (gret x)"
  by (simp add: gsat_def gret_def)

lemma gsat_bind: "gsat P m \<Longrightarrow> (\<And>x. P x \<Longrightarrow> gsat Q (f x)) \<Longrightarrow> gsat Q (gbind m f)"
  unfolding gsat_def gbind_def
proof (intro allI)
  fix g
  assume m: "\<forall>g. \<exists>x g'. m g = (Inr x, g') \<and> P x" and f: "\<And>x. P x \<Longrightarrow> \<forall>g. \<exists>y g'. f x g = (Inr y, g') \<and> Q y"
  from m obtain x g1 where x: "m g = (Inr x, g1)" "P x" by blast
  from f [OF x(2)] obtain y g2 where "f x g1 = (Inr y, g2)" "Q y" by blast
  then show "\<exists>y g'. (case m g of (Inl e, g) \<Rightarrow> (Inl e, g) | (Inr x, g) \<Rightarrow> f x g) = (Inr y, g') \<and> Q y"
    using x(1) by simp
qed

lemma gsat_mono: "gsat P m \<Longrightarrow> (\<And>x. P x \<Longrightarrow> Q x) \<Longrightarrow> gsat Q m"
  unfolding gsat_def by blast

lemma gsat_if: "(b \<Longrightarrow> gsat P m) \<Longrightarrow> (\<not> b \<Longrightarrow> gsat P m') \<Longrightarrow> gsat P (if b then m else m')"
  by simp

lemma gsat_lift: "(\<And>g. P (fst (m g))) \<Longrightarrow> gsat P (glift m)"
  by (auto simp: gsat_def glift_def split: prod.splits) (metis fst_conv)

lemma gsat_bits: "rng_ok r \<Longrightarrow> gsat (\<lambda>x. 0 \<le> x \<and> x < 2 ^ k) (getrandbits r k)"
  unfolding getrandbits_def by (rule gsat_lift) (simp add: rng_ok_def)

lemma gsat_range:
  assumes "rng_ok r" "0 < step" "start < stop"
  shows "gsat (\<lambda>x. start \<le> x \<and> x < stop \<and> (x - start) mod step = 0) (randrange r start stop step)"
proof -
  let ?n = "(stop - start + step - 1) div step"
  have pos: "0 < ?n" using assms by (simp add: pos_imp_zdiv_pos_iff)
  have "start + step * k < stop" if "k < ?n" for k
  proof -
    have "step * (k + 1) \<le> step * ?n" using that assms(2) by simp
    also have "\<dots> \<le> stop - start + step - 1"
      using pos_mod_sign [OF assms(2), of "stop - start + step - 1"] div_mult_mod_eq [of "stop - start + step - 1" step]
      unfolding mult.commute [of step] by linarith
    finally show ?thesis by (simp add: algebra_simps)
  qed
  then show ?thesis
    using assms pos unfolding randrange_def Let_def
    by (intro gsat_if gsat_bind [OF gsat_lift [of "\<lambda>k. 0 \<le> k \<and> k < ?n"]] gsat_ret) (auto simp: rng_ok_def)
qed

lemma gsat_randint: "rng_ok r \<Longrightarrow> a \<le> b \<Longrightarrow> gsat (\<lambda>x. a \<le> x \<and> x \<le> b) (randint r a b)"
  unfolding randint_def by (rule gsat_mono [OF gsat_range]) auto

lemma gsat_times:
  "gsat (\<lambda>xs. list_all P xs \<and> length xs = k) m \<Longrightarrow> gsat (\<lambda>xs. list_all P xs \<and> length xs = n * k) (gtimes n m)"
proof (induction n)
  case (Suc n)
  then show ?case unfolding gtimes.simps by (intro gsat_bind [OF Suc.prems] gsat_bind [OF Suc.IH] gsat_ret) auto
qed (simp add: gsat_ret)

lemma gsat_times_all: "gsat (list_all P) m \<Longrightarrow> gsat (list_all P) (gtimes n m)"
proof (induction n)
  case (Suc n)
  then show ?case unfolding gtimes.simps by (intro gsat_bind [OF Suc.prems] gsat_bind [OF Suc.IH] gsat_ret) auto
qed (simp add: gsat_ret)

lemma gsat_for_all: "(\<And>b. b \<in> set bs \<Longrightarrow> gsat (list_all P) (f b)) \<Longrightarrow> gsat (list_all P) (gfor bs f)"
proof (induction bs)
  case (Cons b bs)
  then show ?case unfolding gfor.simps by (intro gsat_bind [where P = "list_all P"] gsat_ret) auto
qed (simp add: gsat_ret)

lemma gsat_for:
  "(\<And>b. b \<in> set bs \<Longrightarrow> gsat (\<lambda>xs. list_all P xs \<and> length xs = k) (f b)) \<Longrightarrow>
    gsat (\<lambda>xs. list_all P xs \<and> length xs = length bs * k) (gfor bs f)"
proof (induction bs)
  case (Cons b bs)
  show ?case unfolding gfor.simps
    by (rule gsat_bind [OF Cons.prems [of b]], simp, rule gsat_bind [OF Cons.IH [OF Cons.prems]], simp, rule gsat_ret) simp
qed (simp add: gsat_ret)

lemma gsat_fill:
  "gsat P m \<Longrightarrow> list_all P xs \<Longrightarrow> gsat (\<lambda>ys. list_all P ys \<and> n \<le> length ys \<and> set xs \<subseteq> set ys) (fill n m xs)"
proof (induction n m xs rule: fill.induct)
  case (1 n m xs)
  show ?case
  proof (cases "length xs < n")
    case True
    have "gsat (\<lambda>ys. list_all P ys \<and> n \<le> length ys \<and> set xs \<subseteq> set ys) (fill n m (xs @ [x]))" if "P x" for x
      using "1.IH" [OF True, of x] "1.prems" that by (auto intro: gsat_mono)
    then show ?thesis
      unfolding fill.simps [of n m xs] using True "1.prems"(1) by (auto intro: gsat_bind)
  next
    case False
    then show ?thesis unfolding fill.simps [of n m xs] using "1.prems"(2) by (auto intro: gsat_ret)
  qed
qed

section \<open>Operands fit their format\<close>

lemma and_exp_mask: "x AND (2 ^ n - 1) = take_bit n x" "x AND (push_bit n 1 - 1) = take_bit n (x :: int)"
  by (simp_all add: take_bit_eq_mask mask_eq_exp_minus_1)

named_theorems fits_intros

definition fits :: "vfmt \<Rightarrow> int \<Rightarrow> bool" where
  "fits fmt x \<longleftrightarrow> 0 \<le> x \<and> x < 2 ^ vW fmt"

definition pair_fits :: "vfmt \<Rightarrow> pair \<Rightarrow> bool" where
  "pair_fits fmt p \<longleftrightarrow> (case p of (_, a, b) \<Rightarrow> fits fmt a \<and> fits fmt b)"

lemma F_sel [simp]: "vE (F e m) = e" "vM (F e m) = m" "vW (F e m) = 1 + e + m" "vEMAX (F e m) = 2 ^ e - 1" "vMMASK (F e m) = 2 ^ m - 1"
  by (simp_all add: F_def)

lemma fits_iff: "fits fmt x \<longleftrightarrow> take_bit (vW fmt) x = x"
  by (auto simp: fits_def take_bit_int_eq_self_iff)

lemma fits_or [fits_intros]: "fits fmt x \<Longrightarrow> fits fmt y \<Longrightarrow> fits fmt (x OR y)"
  by (simp add: fits_iff)

lemma fits_xor: "fits fmt x \<Longrightarrow> fits fmt y \<Longrightarrow> fits fmt (x XOR y)"
  by (simp add: fits_iff)

lemma fits_and_mask [fits_intros]: "fits fmt (x AND (push_bit (vW fmt) 1 - 1))"
  by (simp add: fits_iff take_bit_eq_mask [symmetric] and_exp_mask)

lemma fits_and_exp [fits_intros]: "fits fmt (x AND (2 ^ vW fmt - 1))"
  by (simp add: fits_iff and_exp_mask)

lemma fits_zero [fits_intros]: "fits fmt 0"
  by (simp add: fits_def)

lemma push_bit_fits: "0 \<le> x \<Longrightarrow> x < 2 ^ k \<Longrightarrow> n + k \<le> vW fmt \<Longrightarrow> fits fmt (push_bit n x)"
proof -
  assume x: "0 \<le> x" "x < 2 ^ k" and "n + k \<le> vW fmt"
  then have "(2::int) ^ (n + k) \<le> 2 ^ vW fmt" by (simp add: power_increasing)
  moreover have "push_bit n x < 2 ^ (n + k)" using x by (simp add: push_bit_eq_mult power_add mult.commute)
  ultimately have "push_bit n x < 2 ^ vW fmt" by (metis order_less_le_trans)
  then show ?thesis using x by (simp add: fits_def)
qed

text \<open>The pairs of subnormals that do not depend on the random source.\<close>

definition sub_pairs :: "vfmt \<Rightarrow> pair list" where
  "sub_pairs fmt = [(Add, v_min_sub fmt, v_min_sub fmt), (Mul, v_min_sub fmt, v_min_sub fmt)] @
     concat (map (both2 (v_min_sub fmt)) [v_one fmt, v_inf fmt])"

text \<open>What every run starts with.\<close>

definition fixed_pairs :: "vfmt \<Rightarrow> pair list" where
  "fixed_pairs fmt = sec_nan fmt @ sec_inf fmt @ sec_zero fmt @ sub_pairs fmt @ sec_overflow fmt"

locale vformat =
  fixes fmt :: vfmt and e m :: nat
  assumes F_eq: "fmt = F e m" and e_pos: "2 \<le> e" and m_pos: "3 \<le> m" and m_small: "int m + 4 \<le> 2 ^ e - 1"
begin

lemma fits_enc: "fits fmt (v_enc fmt s ex f)"
proof -
  have "fits fmt (push_bit (vW fmt - 1) (s AND 1))"
    by (rule push_bit_fits [of _ 1]) (auto simp: F_eq and_one_eq)
  moreover have "fits fmt (push_bit (vM fmt) (ex AND vEMAX fmt))"
    using take_bit_int_less_exp [of e ex] by (intro push_bit_fits [of _ e]) (auto simp: F_eq and_exp_mask)
  moreover have "fits fmt (f AND vMMASK fmt)"
    using take_bit_int_less_exp [of m f] push_bit_fits [of "take_bit m f" m 0 fmt] by (auto simp: F_eq and_exp_mask)
  ultimately show ?thesis unfolding v_enc_def by (intro fits_or)
qed

lemma fits_neg: "fits fmt v \<Longrightarrow> fits fmt (v_neg fmt v)"
  unfolding v_neg_def by (rule fits_xor, assumption, rule push_bit_fits [of _ 1]) (simp_all add: F_eq)

lemma fits_consts:
  "fits fmt (v_inf fmt)" "fits fmt (v_qnan fmt)" "fits fmt (v_snan fmt)" "fits fmt (v_min_sub fmt)" "fits fmt (v_max_sub fmt)"
  "fits fmt (v_min_norm fmt)" "fits fmt (v_max_fin fmt)" "fits fmt (v_one fmt)"
  by (simp_all add: v_inf_def v_qnan_def v_snan_def v_min_sub_def v_max_sub_def v_min_norm_def v_max_fin_def v_one_def fits_enc)

lemma fits_mant: "fits fmt (x AND vMMASK fmt)" "k < vM fmt \<Longrightarrow> fits fmt (push_bit k 1)"
  using take_bit_int_less_exp [of m x] push_bit_fits [of "take_bit m x" m 0 fmt] push_bit_fits [of 1 1 k fmt]
  by (auto simp: F_eq and_exp_mask)

lemmas fits_all = fits_enc fits_neg fits_consts fits_zero fits_or fits_and_mask fits_mant

lemma EMAX_ge: "7 \<le> vEMAX fmt" "int (vM fmt) + 4 \<le> vEMAX fmt" "1 \<le> vMMASK fmt"
proof -
  show "7 \<le> vEMAX fmt" "int (vM fmt) + 4 \<le> vEMAX fmt" using m_pos m_small by (simp_all add: F_eq)
  have "(2::int) ^ 1 \<le> 2 ^ m" using m_pos by (intro power_increasing) simp_all
  then show "1 \<le> vMMASK fmt" by (simp add: F_eq)
qed

lemma both_fits: "list_all (pair_fits fmt) (both l a b) \<longleftrightarrow> fits fmt a \<and> fits fmt b"
  by (auto simp: both_def pair_fits_def)

lemma rand_sub_fits: "rng_ok r \<Longrightarrow> gsat (fits fmt) (rand_sub fmt r)"
  unfolding rand_sub_def using EMAX_ge by (intro gsat_bind [OF gsat_bits] gsat_bind [OF gsat_randint] gsat_ret fits_enc)

lemma rand_norm_fits: "rng_ok r \<Longrightarrow> emin \<le> (case emax of None \<Rightarrow> vEMAX fmt - 1 | Some x \<Rightarrow> x) \<Longrightarrow> gsat (fits fmt) (rand_norm fmt r emin emax)"
  unfolding rand_norm_def Let_def by (intro gsat_bind [OF gsat_bits] gsat_bind [OF gsat_randint] gsat_ret fits_enc)

lemma biased_fits: "rng_ok r \<Longrightarrow> gsat (fits fmt) (biased fmt r)"
  unfolding biased_def using EMAX_ge
  by (intro gsat_bind [OF gsat_range] gsat_if rand_sub_fits rand_norm_fits gsat_mono [OF gsat_bits]) (simp_all add: fits_def)

lemma biased_pair_fits: "rng_ok r \<Longrightarrow> gsat (\<lambda>(a, b). fits fmt a \<and> fits fmt b) (biased_pair fmt r)"
  unfolding biased_pair_def by (intro gsat_bind [OF biased_fits] gsat_ret) simp_all

lemma fixed_sections_fit:
  "list_all (pair_fits fmt) (sec_nan fmt)" "list_all (pair_fits fmt) (sec_inf fmt)" "list_all (pair_fits fmt) (sec_zero fmt)"
  "list_all (pair_fits fmt) (sec_overflow fmt)"
proof -
  have n: "list_all (fits fmt) (nan_payloads fmt)" "list_all (fits fmt) (nan_others fmt)"
    using m_pos fits_all by (simp_all add: nan_payloads_def nan_others_def F_eq)
  then show "list_all (pair_fits fmt) (sec_nan fmt)"
    by (auto simp: sec_nan_def both2_def list_all_iff both_def pair_fits_def)
  show "list_all (pair_fits fmt) (sec_inf fmt)" using fits_all by (simp add: sec_inf_def Let_def both_fits pair_fits_def)
  show "list_all (pair_fits fmt) (sec_zero fmt)" using fits_all by (simp add: sec_zero_def Let_def both_fits pair_fits_def)
  show "list_all (pair_fits fmt) (sec_overflow fmt)" using fits_all by (simp add: sec_overflow_def Let_def pair_fits_def)
qed

lemma random_sections_fit:
  assumes r: "rng_ok r"
  shows "gsat (list_all (pair_fits fmt)) (sec_cross fmt r)" "gsat (list_all (pair_fits fmt)) (sec_cancel fmt r)"
    "gsat (list_all (pair_fits fmt)) (sec_ties fmt r)" "gsat (list_all (pair_fits fmt)) (sec_underflow fmt r)"
    "gsat (list_all (pair_fits fmt)) (sec_align fmt r)"
proof -
  show "gsat (list_all (pair_fits fmt)) (sec_cross fmt r)"
    unfolding sec_cross_def
    by (intro gsat_times_all gsat_bind [OF rand_sub_fits [OF r]] gsat_bind [OF gsat_bits [OF r]]
        gsat_bind [OF gsat_randint [OF r]] gsat_ret) (simp_all add: both_fits fits_enc)
  show "gsat (list_all (pair_fits fmt)) (sec_cancel fmt r)"
    unfolding sec_cancel_def
    using EMAX_ge
    by (intro gsat_bind [OF gsat_times_all] gsat_bind [OF rand_norm_fits [OF r]] gsat_bind [OF gsat_randint [OF r]] gsat_ret)
      (simp_all add: pair_fits_def fits_and_exp fits_enc Let_def)
  show "gsat (list_all (pair_fits fmt)) (sec_ties fmt r)"
    unfolding sec_ties_def Let_def
    using EMAX_ge
    by (intro gsat_bind [OF gsat_times_all] gsat_bind [OF gsat_bits [OF r]] gsat_bind [OF gsat_randint [OF r]] gsat_ret)
      (simp_all add: both_fits fits_enc)
  show "gsat (list_all (pair_fits fmt)) (sec_underflow fmt r)"
    unfolding sec_underflow_def
    by (intro gsat_bind [OF gsat_times_all] gsat_bind [OF gsat_bits [OF r]] gsat_bind [OF gsat_randint [OF r]] gsat_ret)
      (simp_all add: both_fits fits_enc fits_consts)
  show "gsat (list_all (pair_fits fmt)) (sec_align fmt r)"
    unfolding sec_align_def Let_def
    by (intro gsat_for_all gsat_times_all gsat_bind [where P = "fits fmt"] gsat_if gsat_bind [OF gsat_bits [OF r]]
        gsat_bind [OF gsat_randint [OF r]] rand_sub_fits [OF r] gsat_ret) (simp_all add: both_fits fits_enc)
qed

lemma sec_sub_fits:
  assumes r: "rng_ok r"
  shows "gsat (\<lambda>ps. list_all (pair_fits fmt) ps \<and> set (sub_pairs fmt) \<subseteq> set ps) (sec_sub fmt r)"
  unfolding sec_sub_def Let_def
  by (intro gsat_bind [OF gsat_times_all] gsat_bind [OF rand_sub_fits [OF r]] gsat_ret)
    (auto simp: pair_fits_def fits_all both2_def both_def sub_pairs_def)

lemma directed_fits:
  assumes r: "rng_ok r"
  shows "gsat (\<lambda>ps. list_all (pair_fits fmt) ps \<and> set (fixed_pairs fmt) \<subseteq> set ps) (directed fmt r)"
  unfolding directed_def
  by (intro gsat_bind [OF sec_sub_fits [OF r]] gsat_bind [OF random_sections_fit(1) [OF r]]
      gsat_bind [OF random_sections_fit(2) [OF r]] gsat_bind [OF random_sections_fit(3) [OF r]]
      gsat_bind [OF random_sections_fit(4) [OF r]] gsat_bind [OF random_sections_fit(5) [OF r]] gsat_ret)
    (auto simp: fixed_sections_fit fixed_pairs_def)

lemma pairs_of_fit: "list_all (pair_fits fmt) ps \<Longrightarrow> list_all (\<lambda>(a, b). fits fmt a \<and> fits fmt b) (pairs_of l ps)"
  by (auto simp: pairs_of_def list_all_iff pair_fits_def)

lemma pairs_of_mono: "set ps \<subseteq> set qs \<Longrightarrow> set (pairs_of l ps) \<subseteq> set (pairs_of l qs)"
  by (auto simp: pairs_of_def)

lemma operands_fit:
  assumes r: "rng_ok r"
  shows "gsat (\<lambda>(adds, muls). list_all (\<lambda>(a, b). fits fmt a \<and> fits fmt b) adds \<and> list_all (\<lambda>(a, b). fits fmt a \<and> fits fmt b) muls \<and>
    n \<le> length adds \<and> n \<le> length muls \<and> set (pairs_of Add (fixed_pairs fmt)) \<subseteq> set adds \<and>
    set (pairs_of Mul (fixed_pairs fmt)) \<subseteq> set muls) (fp_operands fmt r n)"
  unfolding fp_operands_def
  by (intro gsat_bind [OF directed_fits [OF r]] gsat_bind [OF gsat_fill [OF biased_pair_fits [OF r]]] gsat_ret)
    (auto intro: pairs_of_fit dest: pairs_of_mono)

end

interpretation v32: vformat V32 8 23
  by unfold_locales (simp_all add: V32_def)

interpretation v16: vformat V16 5 10
  by unfold_locales (simp_all add: V16_def)


section \<open>Operand classes\<close>

definition closes :: "int \<Rightarrow> (string \<times> string) list \<Rightarrow> (int \<times> int) list \<Rightarrow> bool" where
  "closes width classes ps =
    list_all (\<lambda>(ca, cb). list_ex (\<lambda>(a, b). fp_class a width = ca \<and> fp_class b width = cb) ps) classes"

definition class_pairs :: "(string \<times> string) list" where
  "class_pairs = List.product FP_CLASSES FP_CLASSES"

definition INF_ZERO :: "(string \<times> string) list" where
  "INF_ZERO = [(''inf'', ''zero''), (''zero'', ''inf'')]"

lemma closes_mono: "closes w cs ps \<Longrightarrow> set ps \<subseteq> set qs \<Longrightarrow> closes w cs qs"
  unfolding closes_def list_all_iff list_ex_iff by fastforce

text \<open>One fixed pair for each pair of classes.\<close>

definition rep_pairs :: "vfmt \<Rightarrow> (int \<times> int) list" where
  "rep_pairs fmt =
    (let n = v_qnan fmt; i = v_inf fmt; s = v_min_sub fmt; u = v_one fmt in
     [(n, n), (n, i), (n, s), (n, u), (n, 0), (i, n), (s, n), (u, n), (0, n), (i, i), (i, s), (i, u), (s, i), (u, i),
      (0, 0), (0, s), (0, u), (s, 0), (u, 0), (s, s), (s, u), (u, s), (v_max_fin fmt, u)])"

lemma rep_pairs_fixed:
  "set (rep_pairs fmt) \<union> {(v_inf fmt, 0), (0, v_inf fmt)} \<subseteq> set (pairs_of Mul (fixed_pairs fmt))"
  "set (butlast (rep_pairs fmt)) \<union> {(v_max_fin fmt, v_max_fin fmt)} \<subseteq> set (pairs_of Add (fixed_pairs fmt))"
  by (simp_all add: rep_pairs_def pairs_of_def fixed_pairs_def sec_nan_def nan_payloads_def nan_others_def both2_def both_def
      sec_inf_def sec_zero_def sub_pairs_def sec_overflow_def Let_def)

lemma classes_32:
  "fp_class (v_qnan V32) 32 = ''nan''" "fp_class (v_inf V32) 32 = ''inf''" "fp_class (v_min_sub V32) 32 = ''sub''"
  "fp_class (v_one V32) 32 = ''norm''" "fp_class (v_max_fin V32) 32 = ''norm''" "fp_class 0 32 = ''zero''"
  by code_simp+

lemma reps_close:
  "closes 32 class_pairs (rep_pairs V32 @ [(v_inf V32, 0), (0, v_inf V32)])"
  "closes 32 (filter (\<lambda>c. c \<notin> set INF_ZERO) class_pairs) (butlast (rep_pairs V32) @ [(v_max_fin V32, v_max_fin V32)])"
  by (simp_all add: closes_def class_pairs_def FP_CLASSES_def INF_ZERO_def rep_pairs_def Let_def classes_32)

lemma fixed_close_32:
  "closes 32 class_pairs (pairs_of Mul (fixed_pairs V32))"
  "closes 32 (filter (\<lambda>c. c \<notin> set INF_ZERO) class_pairs) (pairs_of Add (fixed_pairs V32))"
  by (rule closes_mono [OF reps_close(1)], use rep_pairs_fixed(1) [of V32] in auto)
    (rule closes_mono [OF reps_close(2)], use rep_pairs_fixed(2) [of V32] in auto)

section \<open>Access patterns\<close>

definition addr_ok :: "int \<Rightarrow> bool" where
  "addr_ok a \<longleftrightarrow> a mod 4 = 0 \<and> 0 \<le> a \<and> a < LIMIT"

text \<open>A pattern is read back as a mask of 32 lanes and 32 aligned addresses below the limit.\<close>

definition pattern_ok :: "lsu_pattern \<Rightarrow> bool" where
  "pattern_ok p =
    (case (read_hex (p_mask p), emap read_hex (p_addrs p)) of
       (Inr m, Inr addrs) \<Rightarrow> 0 \<le> m \<and> m < 2 ^ 32 \<and> length addrs = 32 \<and> list_all addr_ok addrs \<and> (p_write p = 0 \<or> p_write p = 1)
     | _ \<Rightarrow> False)"

lemma read_addrs: "list_all addr_ok addrs \<Longrightarrow> emap read_hex (map (\<lambda>a. ''0x'' @ hex_str 0 a) addrs) = Inr addrs"
  by (induction addrs) (use read_hex_prefixed [of _ 0] in \<open>auto simp: addr_ok_def\<close>)

lemma entry_ok:
  assumes "length addrs = 32" "list_all addr_ok addrs" "wr = 0 \<or> wr = 1"
  shows "gsat (\<lambda>ps. list_all pattern_ok ps \<and> length ps = 1) (lsu_entry msk addrs wr)"
proof -
  have "0 \<le> msk AND 0xFFFFFFFF" "msk AND 0xFFFFFFFF < 2 ^ 32" using take_bit_lt [of 32 msk] by (simp_all add: mask_simps)
  moreover have "read_hex (''0x'' @ hex_str 8 (msk AND 0xFFFFFFFF)) = Inr (msk AND 0xFFFFFFFF)"
    by (rule read_hex_prefixed) simp
  moreover have "list_all (\<lambda>a. a mod 4 = 0 \<and> 0 \<le> a \<and> a < LIMIT) addrs" using assms(2) by (simp add: addr_ok_def [abs_def])
  ultimately show ?thesis
    unfolding lsu_entry_def using assms read_addrs [OF assms(2)]
    by (intro gsat_if gsat_ret) (auto simp: pattern_ok_def)
qed

lemma lanes_length [simp]: "length (lanes f) = 32"
  by (simp add: lanes_def)

lemma lanes_ok: "(\<And>i. 0 \<le> i \<Longrightarrow> i \<le> 31 \<Longrightarrow> addr_ok (f i)) \<Longrightarrow> list_all addr_ok (lanes f)"
  by (auto simp: lanes_def list_all_iff)

lemma addr_ok_lin: "a mod 4 = 0 \<Longrightarrow> 0 \<le> a \<Longrightarrow> a + 4 * k < LIMIT \<Longrightarrow> 0 \<le> k \<Longrightarrow> addr_ok (a + 4 * k)"
  by (simp add: addr_ok_def mod_add_eq [symmetric])

lemma entries_ok:
  assumes "list_all (\<lambda>(m, addrs). length addrs = 32 \<and> list_all addr_ok addrs) cs" and wr: "wr = 0 \<or> wr = 1" and n: "length cs = n"
  shows "gsat (\<lambda>ps. list_all pattern_ok ps \<and> length ps = n) (gfor cs (\<lambda>(m, addrs). lsu_entry m addrs wr))"
proof -
  have "gsat (\<lambda>ps. list_all pattern_ok ps \<and> length ps = 1) (case c of (m, addrs) \<Rightarrow> lsu_entry m addrs wr)" if "c \<in> set cs" for c
    using that assms(1) entry_ok [OF _ _ wr] by (cases c) (auto simp: list_all_iff)
  from gsat_for [of cs pattern_ok 1 "\<lambda>(m, addrs). lsu_entry m addrs wr", OF this] show ?thesis by (simp add: n)
qed

lemma lsu_directed_ok:
  assumes r: "rng_ok r" and wr: "wr = 0 \<or> wr = 1"
  shows "gsat (\<lambda>ps. list_all pattern_ok ps \<and> length ps = 13) (lsu_directed r wr)"
proof -
  have l: "list_all addr_ok (lanes (\<lambda>i. 0x1000 + 4 * i))" "list_all addr_ok (lanes (\<lambda>i. 0x2000 + 4 * i))"
    "list_all addr_ok (lanes (\<lambda>i. 0x3000 + 8 * i))" "list_all addr_ok (lanes (\<lambda>i. 0x4000 + 16 * i))"
    "list_all addr_ok (lanes (\<lambda>i. 0x5000 + 32 * i))" "list_all addr_ok (lanes (\<lambda>i. 0x7000 + 64 + 4 * i))"
    "list_all addr_ok (lanes (\<lambda>i. 0x8000 + LINE * i))" "list_all addr_ok (lanes (\<lambda>i. 0xA000 + 4 * (31 - i)))"
    "list_all addr_ok (replicate 32 0x6040)" "list_all addr_ok ((replicate 32 0x9000)[7 := 0x9000 + 0x2000])"
    by (rule lanes_ok, simp add: addr_ok_def LIMIT_def LINE_def, presburger?)+
      (simp_all add: addr_ok_def LIMIT_def list_all_length nth_list_update)
  note sq = l(1)
  show ?thesis
    unfolding lsu_directed_def Let_def
  proof (rule gsat_bind)
    let ?cs = "[(full_mask, lanes (\<lambda>i. 0x1000 + 4 * i)), (full_mask, lanes (\<lambda>i. 0x2000 + 4 * i)),
      (full_mask, lanes (\<lambda>i. 0x3000 + 8 * i)), (full_mask, lanes (\<lambda>i. 0x4000 + 16 * i)), (full_mask, lanes (\<lambda>i. 0x5000 + 32 * i)),
      (full_mask, replicate 32 0x6040), (full_mask, lanes (\<lambda>i. 0x7000 + 64 + 4 * i)),
      (full_mask, lanes (\<lambda>i. 0x8000 + LINE * i)), (push_bit 13 1, lanes (\<lambda>i. 0x1000 + 4 * i)), (0x55555555, lanes (\<lambda>i. 0x1000 + 4 * i))]"
    have "list_all (\<lambda>(m, addrs). length addrs = 32 \<and> list_all addr_ok addrs) ?cs"
      by (simp only: list.pred_inject prod.case lanes_length length_replicate l simp_thms)
    then show "gsat (\<lambda>ps. list_all pattern_ok ps \<and> length ps = 10) (gfor ?cs (\<lambda>(m, addrs). lsu_entry m addrs wr))"
      by (rule entries_ok [OF _ wr]) simp
  next
    fix xs assume xs: "list_all pattern_ok xs \<and> length xs = 10"
    let ?cs = "[(full_mask, (replicate 32 0x9000)[7 := 0x9000 + 0x2000]), (full_mask, lanes (\<lambda>i. 0xA000 + 4 * (31 - i)))]"
    have "list_all (\<lambda>(m, addrs). length addrs = 32 \<and> list_all addr_ok addrs) ?cs"
      by (simp only: list.pred_inject prod.case lanes_length length_replicate length_list_update l simp_thms)
    note two = entries_ok [OF this wr, of 2]
    show "gsat (\<lambda>ps. list_all pattern_ok ps \<and> length ps = 13)
      (gbind (gbind (getrandbits r 32) (\<lambda>b. lsu_entry (b OR 1) (lanes (\<lambda>i. 0x1000 + 4 * i)) wr))
        (\<lambda>ys. gbind (gfor ?cs (\<lambda>(m, addrs). lsu_entry m addrs wr)) (\<lambda>zs. gret (xs @ ys @ zs))))"
      by (rule gsat_bind [OF gsat_bind [OF gsat_bits [OF r] entry_ok [OF lanes_length sq wr]]],
          rule gsat_bind [OF two], simp, rule gsat_ret) (use xs in simp)
  qed
qed

lemma lsu_random_ok:
  assumes r: "rng_ok r"
  shows "gsat (\<lambda>ps. list_all pattern_ok ps \<and> length ps = 1) (lsu_random r)"
proof -
  note rg = gsat_range [OF r]
  have t: "gsat (\<lambda>xs. list_all addr_ok xs \<and> length xs = 32) (gtimes 32 m)"
    if "gsat (\<lambda>xs. list_all addr_ok xs \<and> length xs = 1) m" for m :: "('a, int list) gen"
    using gsat_times [OF that, of 32] by simp
  show ?thesis
    unfolding lsu_random_def
  proof (rule gsat_bind [OF rg])
    fix style :: int
    show "gsat (\<lambda>ps. list_all pattern_ok ps \<and> length ps = 1)
      (gbind (if style = 0 then gbind (randrange r 0 (LIMIT - 256) 4) (\<lambda>a0. gtimes 32 (gbind (randrange r 0 64 1) (\<lambda>k. gret [a0 + 4 * k])))
        else if style = 1 then gtimes 32 (gbind (randrange r 0 LIMIT 4) (\<lambda>a. gret [a]))
        else if style = 2 then gbind (randrange r 0 (LIMIT - LINE * 40) 4)
          (\<lambda>a0. gtimes 32 (gbind (randrange r 0 8 1) (\<lambda>j. gbind (randrange r 0 32 1) (\<lambda>k. gret [a0 + LINE * j + 4 * k]))))
        else gbind (randrange r 0 (LIMIT - 4 * 40) 4) (\<lambda>a0. gret (lanes (\<lambda>i. a0 + 4 * i))))
        (\<lambda>addrs. gbind (glift (rng_random r)) (\<lambda>x. gbind (if py_flt x ZERO_SIX then getrandbits r 32 else gret full_mask)
          (\<lambda>msk. gbind (getrandbits r 1) (\<lambda>wr. lsu_entry msk addrs wr)))))"
    proof (rule gsat_bind)
      show "gsat (\<lambda>xs. list_all addr_ok xs \<and> length xs = 32)
        (if style = 0 then gbind (randrange r 0 (LIMIT - 256) 4) (\<lambda>a0. gtimes 32 (gbind (randrange r 0 64 1) (\<lambda>k. gret [a0 + 4 * k])))
        else if style = 1 then gtimes 32 (gbind (randrange r 0 LIMIT 4) (\<lambda>a. gret [a]))
        else if style = 2 then gbind (randrange r 0 (LIMIT - LINE * 40) 4)
          (\<lambda>a0. gtimes 32 (gbind (randrange r 0 8 1) (\<lambda>j. gbind (randrange r 0 32 1) (\<lambda>k. gret [a0 + LINE * j + 4 * k]))))
        else gbind (randrange r 0 (LIMIT - 4 * 40) 4) (\<lambda>a0. gret (lanes (\<lambda>i. a0 + 4 * i))))"
        by (intro gsat_if gsat_bind [OF rg] t gsat_ret)
          (auto simp: addr_ok_def LIMIT_def LINE_def intro!: lanes_ok)
    next
      fix addrs assume a: "list_all addr_ok addrs \<and> length addrs = 32"
      show "gsat (\<lambda>ps. list_all pattern_ok ps \<and> length ps = 1) (gbind (glift (rng_random r)) (\<lambda>x.
          gbind (if py_flt x ZERO_SIX then getrandbits r 32 else gret full_mask)
          (\<lambda>msk. gbind (getrandbits r 1) (\<lambda>wr. lsu_entry msk addrs wr))))"
        by (rule gsat_bind [OF gsat_lift [of "\<lambda>_. True"]], simp, rule gsat_bind [where P = "\<lambda>_. True"])
          (use a in \<open>auto intro!: gsat_if gsat_ret gsat_mono [OF gsat_bits [OF r]] gsat_bind [OF gsat_bits [OF r]] entry_ok
             simp del: One_nat_def\<close>)
    qed
  qed simp_all
qed

lemma lsu_patterns_ok:
  assumes r: "rng_ok r"
  shows "gsat (\<lambda>ps. list_all pattern_ok ps \<and> length ps = 56) (lsu_patterns r)"
proof -
  have "gsat (\<lambda>ps. list_all pattern_ok ps \<and> length ps = length [0, 1 :: int] * 13) (gfor [0, 1] (lsu_directed r))"
    by (rule gsat_for) (use lsu_directed_ok [OF r] in auto)
  then show ?thesis
    unfolding lsu_patterns_def
    by (rule gsat_bind) (rule gsat_bind [OF gsat_times [OF lsu_random_ok [OF r]]], rule gsat_ret, simp)
qed

section \<open>Ties\<close>

text \<open>A normal number plus half its unit in the last place rounds to the neighbour with an even significand.\<close>

context ieee_format
begin

lemma pk_pos_arith: "0 \<le> f \<Longrightarrow> f < 2 ^ mb \<Longrightarrow> 0 \<le> E \<Longrightarrow> pk 0 E f = E * 2 ^ mb + f"
proof -
  assume f: "0 \<le> f" "f < 2 ^ mb" and "0 \<le> E"
  have "\<not> bit (push_bit mb E) n \<or> \<not> bit f n" for n
    using not_bit_above [OF f, of n] by (auto simp: bit_simps)
  then have "push_bit mb E + f = push_bit mb E OR f" by (intro disjunctive_add) auto
  then show ?thesis by (simp add: pk_def push_bit_eq_mult)
qed

lemma decode_normal:
  assumes "1 \<le> E" "E < 2 ^ ex - 1" "0 \<le> f" "f < 2 ^ mb"
  shows "decode (pk 0 E f) fmt = (KFin, 0, f + 2 ^ mb, E - BIAS fmt - int mb)"
proof -
  have "0 \<le> E" "E < 2 ^ ex" using assms(1,2) by simp_all
  note pf = pk_fields [of 0 E f, OF _ _ this assms(3,4)]
  show ?thesis using decode_fields [OF pf(1,2), of f] pf(3) assms by simp
qed

lemma half_bits: "((f::int) + 2 ^ mb) AND 1 = f mod 2"
proof -
  obtain j where "mb = Suc j" using mb1 by (cases mb) simp_all
  then have "f + 2 ^ mb = f + 2 * 2 ^ j" by simp
  then show ?thesis by (simp add: and_one_eq)
qed

lemma align_tie:
  assumes "2 ^ mb \<le> K" "K < 2 ^ (mb + 1)" "MIN_SCALE fmt \<le> c + int mb + 1"
  shows "rp_align (K * 2 ^ (mb + 1) + 2 ^ mb) c fmt = (K, 1, False, c + int mb + 1)"
proof -
  let ?s = "K * 2 ^ (mb + 1) + 2 ^ mb"
  have "(2::int) ^ (2 * mb + 1) = 2 ^ mb * 2 ^ (mb + 1)" "(2::int) ^ Suc (2 * mb + 1) = 2 ^ (mb + 1) * 2 ^ (mb + 1)"
    by (simp_all only: power_add [symmetric] mult_2 add_Suc_right add_Suc plus_1_eq_Suc add.assoc add.commute [of 1])
  moreover have "2 ^ mb * 2 ^ (mb + 1) \<le> K * (2::int) ^ (mb + 1)" using assms(1) by (rule mult_right_mono) simp
  moreover have "(K + 1) * 2 ^ (mb + 1) \<le> 2 ^ (mb + 1) * (2::int) ^ (mb + 1)" using assms(2) by (intro mult_right_mono) simp_all
  moreover have "(K + 1) * 2 ^ (mb + 1) = K * 2 ^ (mb + 1) + 2 * (2::int) ^ mb" by (simp add: algebra_simps)
  moreover have "(0::int) < 2 ^ mb" by simp
  ultimately have "2 ^ (2 * mb + 1) \<le> ?s" "?s < 2 ^ Suc (2 * mb + 1)" by linarith+
  then have bl: "bit_length ?s = int (Suc (2 * mb + 1))" by (rule bit_length_unique)
  have lsb: "max (c + bit_length ?s - 1 - int (MANT fmt)) (MIN_SCALE fmt) = c + int mb + 1"
    using assms(3) bl by simp
  have sh: "nat (int mb + 1) = Suc mb" "nat (int mb + 1 - 1) = mb" by simp_all
  have m: "?s mod 2 ^ Suc mb = 2 ^ mb" "?s div 2 ^ Suc mb = K" by simp_all
  show ?thesis
    unfolding rp_align_def Let_def lsb
    using sh m by (simp add: and_shl_mask shr_eq and_one_eq del: power_Suc)
qed

lemma tie_rounds_to_even:
  assumes E: "int mb + 2 \<le> E" "E < 2 ^ ex - 2" and f: "0 \<le> f" "f < 2 ^ mb"
  shows "fp_add (pk 0 E f) (pk 0 (E - int mb - 1) 0) RM_RNE fmt = (pk 0 E f + f mod 2, no_flags\<lparr>inexact := True\<rparr>)"
proof -
  define c where "c = E - int mb - 1 - BIAS fmt - int mb"
  define K where "K = f + 2 ^ mb"
  have K: "2 ^ mb \<le> K" "K < 2 ^ (mb + 1)" using f by (simp_all add: K_def)
  have pos: "(0::int) < 2 ^ mb" by simp
  have d: "decode (pk 0 E f) fmt = (KFin, 0, K, c + int mb + 1)" "decode (pk 0 (E - int mb - 1) 0) fmt = (KFin, 0, 2 ^ mb, c)"
    using decode_normal [of E f] decode_normal [of "E - int mb - 1" 0] E f by (simp_all add: K_def c_def)
  have s: "fp_add (pk 0 E f) (pk 0 (E - int mb - 1) 0) RM_RNE fmt = round_pack 0 (K * 2 ^ (mb + 1) + 2 ^ mb) c RM_RNE fmt"
  proof -
    have "min (c + int mb + 1) c = c" "nat (c + int mb + 1 - c) = mb + 1" by simp_all
    moreover have "0 < K * 2 ^ (mb + 1) + 2 ^ mb" using K pos by (simp add: add_pos_pos)
    ultimately show ?thesis
      unfolding fp_add_def d Let_def prod.case by (simp add: is_nan_kind_def shl_eq)
  qed
  have al: "rp_align (K * 2 ^ (mb + 1) + 2 ^ mb) c fmt = (K, 1, False, c + int mb + 1)"
    using E by (intro align_tie K) (simp add: c_def)
  have inc: "rp_inc RM_RNE 0 K 1 False = odd f"
    using half_bits [of f] by (auto simp: rp_inc_def K_def odd_iff_mod_2_eq_one)
  have enc: "rp_encode 0 k l True RM_RNE fmt = (pk 0 (l + int mb + BIAS fmt) (k - 2 ^ mb), no_flags\<lparr>inexact := True\<rparr>)"
    if "2 ^ mb \<le> k" "k < 2 ^ (mb + 1)" "l + int mb + BIAS fmt < 2 ^ ex - 1" for k l
  proof -
    have "drop_bit mb k = 1" using that pos by (simp add: drop_bit_eq_div int_div_pos_eq [of _ _ 1 "k - 2 ^ mb"])
    moreover have "k AND (2 ^ mb - 1) = k - 2 ^ mb"
      using that pos and_mask_exp [of k mb] by (simp add: push_bit_eq_mult take_bit_eq_mod int_mod_pos_eq [of _ _ 1 "k - 2 ^ mb"])
    ultimately show ?thesis using that pos unfolding rp_encode_def by (auto simp: pk_def)
  qed
  have E': "c + int mb + 1 + int mb + BIAS fmt = E" by (simp add: c_def)
  show ?thesis
  proof (cases "odd f \<and> K + 1 = 2 ^ (mb + 1)")
    case True
    then have "rp_carry (odd f) K (c + int mb + 1) fmt = (2 ^ mb, c + int mb + 2)"
      using bit_length_gt_iff [of "K + 1" "mb + 1"] by (simp add: rp_carry_def drop_bit_eq_div)
    moreover have "pk 0 E f + f mod 2 = pk 0 (E + 1) 0"
      using True E f pos pk_pos_arith [OF f, of E] pk_pos_arith [of 0 "E + 1"] by (simp add: K_def algebra_simps odd_iff_mod_2_eq_one)
    ultimately show ?thesis
      using E E' pos unfolding s round_pack_def al Let_def prod.case inc by (simp add: enc) (simp add: c_def add.commute)
  next
    case False
    then have "rp_carry (odd f) K (c + int mb + 1) fmt = (K + f mod 2, c + int mb + 1)"
      using bit_length_gt_iff [of "K + 1" "mb + 1"] K
      by (auto simp: rp_carry_def odd_iff_mod_2_eq_one)
    moreover have k: "2 ^ mb \<le> K + f mod 2" "K + f mod 2 < 2 ^ (mb + 1)"
      using K False by (auto simp: odd_iff_mod_2_eq_one)
    moreover have "pk 0 E f + f mod 2 = pk 0 E (f + f mod 2)"
      using E f k pk_pos_arith [of f E] pk_pos_arith [of "f + f mod 2" E] by (simp add: K_def)
    ultimately show ?thesis
      using E E' unfolding s round_pack_def al Let_def prod.case inc by (simp add: enc [OF k]) (simp add: K_def)
  qed
qed

lemma decode_normal_succ:
  assumes "1 \<le> E" "E + 1 < 2 ^ ex - 1" "0 \<le> f" "f < 2 ^ mb"
  shows "fp_finite fmt (pk 0 E f + 1) \<and> fp_val fmt (pk 0 E f + 1) = mag (f + 2 ^ mb + 1) (E - BIAS fmt - int mb)"
proof (cases "f + 1 = 2 ^ mb")
  case True
  then have "pk 0 E f + 1 = pk 0 (E + 1) 0"
    using assms pk_pos_arith [of f E] pk_pos_arith [of 0 "E + 1"] by (simp add: algebra_simps)
  then have d: "decode (pk 0 E f + 1) fmt = (KFin, 0, 2 ^ mb, E + 1 - BIAS fmt - int mb)"
    using decode_normal [of "E + 1" 0] assms by simp
  have "mag (2 ^ mb) (E + 1 - BIAS fmt - int mb) =
      mag (2 ^ mb * 2 ^ nat (E + 1 - BIAS fmt - int mb - (E - BIAS fmt - int mb))) (E - BIAS fmt - int mb)"
    by (rule mag_shift) simp
  also have "2 ^ mb * 2 ^ nat (E + 1 - BIAS fmt - int mb - (E - BIAS fmt - int mb)) = f + 2 ^ mb + 1" using True by simp
  finally have "mag (2 ^ mb) (E + 1 - BIAS fmt - int mb) = mag (f + 2 ^ mb + 1) (E - BIAS fmt - int mb)" .
  then show ?thesis using fp_val_decode [OF d] finite_kind_finite [OF d] by (simp add: sgn_rat_def finite_kind_def)
next
  case False
  then have "pk 0 E f + 1 = pk 0 E (f + 1)" using assms pk_pos_arith [of f E] pk_pos_arith [of "f + 1" E] by simp
  then have d: "decode (pk 0 E f + 1) fmt = (KFin, 0, f + 1 + 2 ^ mb, E - BIAS fmt - int mb)"
    using decode_normal [of E "f + 1"] assms False by simp
  then show ?thesis using fp_val_decode [OF d] finite_kind_finite [OF d]
    by (simp add: sgn_rat_def finite_kind_def algebra_simps)
qed

lemma tie_halfway:
  assumes E: "int mb + 2 \<le> E" "E < 2 ^ ex - 2" and f: "0 \<le> f" "f < 2 ^ mb"
  shows "0 \<le> pk 0 (E - int mb - 1) 0 \<and> pk 0 (E - int mb - 1) 0 < pk 0 E f \<and> fp_finite fmt (pk 0 E f) \<and> fp_finite fmt (pk 0 E f + 1) \<and>
    2 * (fp_val fmt (pk 0 E f) + fp_val fmt (pk 0 (E - int mb - 1) 0)) = fp_val fmt (pk 0 E f) + fp_val fmt (pk 0 E f + 1)"
proof -
  let ?c = "E - BIAS fmt - int mb"
  have d: "decode (pk 0 E f) fmt = (KFin, 0, f + 2 ^ mb, ?c)"
    "decode (pk 0 (E - int mb - 1) 0) fmt = (KFin, 0, 2 ^ mb, E - int mb - 1 - BIAS fmt - int mb)"
    using decode_normal [of E f] decode_normal [of "E - int mb - 1" 0] E f by simp_all
  have "nat (?c - (E - int mb - 1 - BIAS fmt - int mb)) = mb + 1" by simp
  then have "mag 1 ?c = mag (2 ^ (mb + 1)) (E - int mb - 1 - BIAS fmt - int mb)"
    using mag_shift [of "E - int mb - 1 - BIAS fmt - int mb" ?c 1] by simp
  then have half: "2 * mag (2 ^ mb) (E - int mb - 1 - BIAS fmt - int mb) = mag 1 ?c" by (simp add: mag_def)
  have "(E - int mb - 1) * 2 ^ mb < E * 2 ^ mb" by (rule mult_strict_right_mono) simp_all
  moreover have "pk 0 E f = E * 2 ^ mb + f" "pk 0 (E - int mb - 1) 0 = (E - int mb - 1) * 2 ^ mb" "0 \<le> (E - int mb - 1) * 2 ^ mb"
    using E f pk_pos_arith [of f E] pk_pos_arith [of 0 "E - int mb - 1"] by simp_all
  ultimately have "pk 0 (E - int mb - 1) 0 < pk 0 E f" "0 \<le> pk 0 (E - int mb - 1) 0" using f(1) by linarith+
  then show ?thesis
    using decode_normal_succ [of E f] E f d fp_val_decode [OF d(1)] fp_val_decode [OF d(2)] finite_kind_finite [OF d(1)] half
    by (simp add: sgn_rat_def finite_kind_def mag_add distrib_left)
qed

end

lemma enc_pk_32: "v_enc V32 0 e f = fp32.pk 0 (e mod 256) (f mod 8388608)"
  by (simp add: v_enc_def V32_def fp32.pk_def and_exp_mask [of _ 8, simplified] and_exp_mask [of _ 23, simplified] take_bit_eq_mod)

lemma enc_pk_16: "v_enc V16 0 e f = fp16.pk 0 (e mod 32) (f mod 1024)"
  by (simp add: v_enc_def V16_def fp16.pk_def and_exp_mask [of _ 5, simplified] and_exp_mask [of _ 10, simplified] take_bit_eq_mod)

lemma even_or_lsb: "(f AND NOT 1) OR (lsb :: int) = 2 * (f div 2) + lsb" if "lsb = 0 \<or> lsb = 1"
proof -
  have "f AND NOT 1 = 2 * (f div 2)"
    by (auto intro!: bit_eqI simp: bit_simps bit_double_iff bit_0 bit_Suc [symmetric] simp flip: bit_Suc)
  then show ?thesis using that by (auto simp: or_one_eq)
qed

text \<open>A pair whose exact sum is the mean of two neighbouring finite numbers, the larger operand and its successor.\<close>

definition is_tie :: "fp_format \<Rightarrow> int \<Rightarrow> int \<Rightarrow> bool" where
  "is_tie ff a b \<longleftrightarrow> 0 \<le> min a b \<and> fp_finite ff (max a b) \<and> fp_finite ff (max a b + 1) \<and>
     2 * (fp_val ff a + fp_val ff b) = fp_val ff (max a b) + fp_val ff (max a b + 1)"

lemma is_tie_comm: "is_tie ff a b \<longleftrightarrow> is_tie ff b a"
  by (simp add: is_tie_def max.commute [of a b] min.commute [of a b] add.commute [of "fp_val ff a"])

text \<open>What one round of the section appends.\<close>

definition tie_quad :: "fp_format \<Rightarrow> pair list \<Rightarrow> bool" where
  "tie_quad ff ps \<longleftrightarrow> (\<exists>a b. ps = both Add a b @ both Add (a + 1) b \<and> even a \<and> b < a \<and> is_tie ff a b \<and> is_tie ff (a + 1) b \<and>
     fp_add a b RM_RNE ff = (a, no_flags\<lparr>inexact := True\<rparr>) \<and> fp_add (a + 1) b RM_RNE ff = (a + 1 + 1, no_flags\<lparr>inexact := True\<rparr>))"

lemma pairs_of_append: "pairs_of l (xs @ ys) = pairs_of l xs @ pairs_of l ys"
  by (simp add: pairs_of_def)

lemma quads_add:
  assumes "list_all (tie_quad ff) xss"
  shows "length (pairs_of Add (concat xss)) = 4 * length xss \<and> pairs_of Mul (concat xss) = [] \<and>
    list_all (\<lambda>(a, b). is_tie ff a b) (pairs_of Add (concat xss)) \<and>
    list_all (\<lambda>(a, b). fp_add a b RM_RNE ff = (if even (max a b) then max a b else max a b + 1, no_flags\<lparr>inexact := True\<rparr>)) (pairs_of Add (concat xss)) \<and>
    length (filter (\<lambda>(a, b). even (max a b)) (pairs_of Add (concat xss))) = 2 * length xss \<and>
    mset (map prod.swap (pairs_of Add (concat xss))) = mset (pairs_of Add (concat xss))"
  using assms
proof (induction xss)
  case (Cons xs xss)
  then obtain a b where q: "xs = both Add a b @ both Add (a + 1) b" "even a" "b < a" "is_tie ff a b" "is_tie ff (a + 1) b"
     "fp_add a b RM_RNE ff = (a, no_flags\<lparr>inexact := True\<rparr>)" "fp_add (a + 1) b RM_RNE ff = (a + 1 + 1, no_flags\<lparr>inexact := True\<rparr>)"
    by (auto simp: tie_quad_def)
  have m: "max a b = a" "max b a = a" "max (a + 1) b = a + 1" "max b (a + 1) = a + 1" using q(3) by simp_all
  have x: "pairs_of Add xs = [(a, b), (b, a), (a + 1, b), (b, a + 1)]" "pairs_of Mul xs = []"
    by (simp_all add: q(1) both_def pairs_of_def)
  have s: "is_tie ff b a" "is_tie ff b (a + 1)" "fp_add b a RM_RNE ff = (a, no_flags\<lparr>inexact := True\<rparr>)"
     "fp_add b (a + 1) RM_RNE ff = (a + 1 + 1, no_flags\<lparr>inexact := True\<rparr>)"
    using q is_tie_comm fp_add_comm by metis+
  show ?case using Cons.IH Cons.prems q(2,4-7) s by (simp add: pairs_of_append x m)
qed (simp add: pairs_of_def)

lemma gsat_times_list:
  "gsat P m \<Longrightarrow> gsat (\<lambda>xs. \<exists>xss. xs = concat xss \<and> length xss = n \<and> list_all P xss) (gtimes n m)"
proof (induction n)
  case (Suc n)
  show ?case unfolding gtimes.simps
  proof (rule gsat_bind [OF Suc.prems], rule gsat_bind [OF Suc.IH [OF Suc.prems]], rule gsat_ret)
    fix x y assume "P x" "\<exists>xss. y = concat xss \<and> length xss = n \<and> list_all P xss"
    then obtain xss where "y = concat xss" "length xss = n" "list_all P xss" by blast
    then show "\<exists>xss. x @ y = concat xss \<and> length xss = Suc n \<and> list_all P xss" using \<open>P x\<close> by (intro exI [of _ "x # xss"]) simp
  qed
qed (simp add: gsat_ret)

lemma one_quad:
  assumes "(vf, ff) = (V32, FP32) \<or> (vf, ff) = (V16, FP16)" "int (vM vf) + 2 \<le> e" "e \<le> vEMAX vf - 2" "0 \<le> f" "f < 2 ^ vM vf"
  shows "tie_quad ff (concat (map (\<lambda>lsb. both Add (v_enc vf 0 e ((f AND NOT 1) OR lsb)) (v_enc vf 0 (e - int (vM vf) - 1) 0)) [0, 1]))"
proof -
  define g where "g = 2 * (f div 2)"
  have ev: "(f AND NOT 1) OR 0 = g" "(f AND NOT 1) OR 1 = g + 1" using even_or_lsb [of 0 f] even_or_lsb [of 1 f] by (simp_all add: g_def)
  have m: "even g" "(g + 1) mod 2 = 1" "g mod 2 = 0" by (auto simp: g_def)
  have g: "0 \<le> g" "g + 1 < 2 ^ vM vf"
  proof -
    obtain k where k: "(2::int) ^ vM vf = 2 * k" using assms(1) by (auto simp: V32_def V16_def)
    then have "2 * (f div 2) + 2 \<le> 2 * k" using assms(5) by presburger
    then show "0 \<le> g" "g + 1 < 2 ^ vM vf" using k assms(4) by (auto simp: g_def)
  qed
  have l: "concat (map (\<lambda>lsb. both Add (v_enc vf 0 e ((f AND NOT 1) OR lsb)) (v_enc vf 0 (e - int (vM vf) - 1) 0)) [0, 1]) =
      both Add (v_enc vf 0 e g) (v_enc vf 0 (e - int (vM vf) - 1) 0) @ both Add (v_enc vf 0 e (g + 1)) (v_enc vf 0 (e - int (vM vf) - 1) 0)"
    by (simp only: list.map concat.simps ev append_Nil2)
  show ?thesis
    using assms(1)
  proof
    assume v: "(vf, ff) = (V32, FP32)"
    have e: "v_enc V32 0 e g = fp32.pk 0 e g" "v_enc V32 0 e (g + 1) = fp32.pk 0 e g + 1" "fp32.pk 0 e (g + 1) = fp32.pk 0 e g + 1"
        "v_enc V32 0 (e - int (vM V32) - 1) 0 = fp32.pk 0 (e - 23 - 1) 0" "even (fp32.pk 0 e g)"
    proof -
      have r: "23 + 2 \<le> e" "e mod 256 = e" "(e - 23 - 1) mod 256 = e - 23 - 1" "g mod 8388608 = g" "(g + 1) mod 8388608 = g + 1" "int (vM V32) = 23"
          "0 \<le> e" "g < 2 ^ 23"
        using v assms(2,3) g by (simp_all add: V32_def)
      show 1: "v_enc V32 0 e g = fp32.pk 0 e g" "v_enc V32 0 (e - int (vM V32) - 1) 0 = fp32.pk 0 (e - 23 - 1) 0"
        unfolding enc_pk_32 r by simp_all
      show 2: "fp32.pk 0 e (g + 1) = fp32.pk 0 e g + 1" "even (fp32.pk 0 e g)"
        using fp32.pk_pos_arith [of g e] fp32.pk_pos_arith [of "g + 1" e] r g v m(1) by (simp_all add: V32_def)
      show "v_enc V32 0 e (g + 1) = fp32.pk 0 e g + 1" unfolding enc_pk_32 r 2 ..
    qed
    show ?thesis
      unfolding l tie_quad_def
      by (rule exI [of _ "fp32.pk 0 e g"], rule exI [of _ "fp32.pk 0 (e - 23 - 1) 0"])
        (use v assms(2,3) g m e fp32.tie_halfway [of e g] fp32.tie_halfway [of e "g + 1"] fp32.tie_rounds_to_even [of e g]
          fp32.tie_rounds_to_even [of e "g + 1"] in \<open>simp add: V32_def FP32_def is_tie_def\<close>)
  next
    assume v: "(vf, ff) = (V16, FP16)"
    have e: "v_enc V16 0 e g = fp16.pk 0 e g" "v_enc V16 0 e (g + 1) = fp16.pk 0 e g + 1" "fp16.pk 0 e (g + 1) = fp16.pk 0 e g + 1"
        "v_enc V16 0 (e - int (vM V16) - 1) 0 = fp16.pk 0 (e - 10 - 1) 0" "even (fp16.pk 0 e g)"
    proof -
      have r: "10 + 2 \<le> e" "e mod 32 = e" "(e - 10 - 1) mod 32 = e - 10 - 1" "g mod 1024 = g" "(g + 1) mod 1024 = g + 1" "int (vM V16) = 10"
          "0 \<le> e" "g < 2 ^ 10"
        using v assms(2,3) g by (simp_all add: V16_def)
      show 1: "v_enc V16 0 e g = fp16.pk 0 e g" "v_enc V16 0 (e - int (vM V16) - 1) 0 = fp16.pk 0 (e - 10 - 1) 0"
        unfolding enc_pk_16 r by simp_all
      show 2: "fp16.pk 0 e (g + 1) = fp16.pk 0 e g + 1" "even (fp16.pk 0 e g)"
        using fp16.pk_pos_arith [of g e] fp16.pk_pos_arith [of "g + 1" e] r g v m(1) by (simp_all add: V16_def)
      show "v_enc V16 0 e (g + 1) = fp16.pk 0 e g + 1" unfolding enc_pk_16 r 2 ..
    qed
    show ?thesis
      unfolding l tie_quad_def
      by (rule exI [of _ "fp16.pk 0 e g"], rule exI [of _ "fp16.pk 0 (e - 10 - 1) 0"])
        (use v assms(2,3) g m e fp16.tie_halfway [of e g] fp16.tie_halfway [of e "g + 1"] fp16.tie_rounds_to_even [of e g]
          fp16.tie_rounds_to_even [of e "g + 1"] in \<open>simp add: V16_def FP16_def is_tie_def\<close>)
  qed
qed

lemma sec_ties_quads:
  assumes r: "rng_ok r" and fmt: "(vf, ff) = (V32, FP32) \<or> (vf, ff) = (V16, FP16)"
  shows "gsat (\<lambda>ps. \<exists>xss ms. ps = concat xss @ ms \<and> length xss = 20 \<and> list_all (tie_quad ff) xss \<and> length ms = 24 \<and> list_all (\<lambda>p. fst p = Mul) ms)
    (sec_ties vf r)"
proof -
  have ord: "int (vM vf) + 2 \<le> vEMAX vf - 2" "2 \<le> vEMAX vf - 2" using fmt by (auto simp: V32_def V16_def)
  have q: "gsat (tie_quad ff) (gbind (randint r (int (vM vf) + 2) (vEMAX vf - 2)) (\<lambda>e. gbind (getrandbits r (vM vf)) (\<lambda>f.
      gret (concat (map (\<lambda>lsb. both Add (v_enc vf 0 e ((f AND NOT 1) OR lsb)) (v_enc vf 0 (e - int (vM vf) - 1) 0)) [0, 1])))))"
    by (rule gsat_bind [OF gsat_randint [OF r ord(1)]], rule gsat_bind [OF gsat_bits [OF r]], rule gsat_ret, rule one_quad [OF fmt]) auto
  have m: "gsat (\<lambda>xs. list_all (\<lambda>p. fst p = Mul) xs \<and> length xs = 10 * 2) (gtimes 10 (gbind (randint r 2 (vEMAX vf - 2))
      (\<lambda>e. gret (both Mul (v_enc vf 0 e 1) (v_enc vf 0 (vBIAS vf) (push_bit (vM vf - 1) 1))))))"
    by (rule gsat_times, rule gsat_bind [OF gsat_randint [OF r ord(2)]], rule gsat_ret) (simp add: both_def)
  show ?thesis
    unfolding sec_ties_def Let_def
  proof (rule gsat_bind [OF gsat_times_list [OF q]], rule gsat_bind [OF m], rule gsat_ret)
    fix x y :: "pair list" assume "\<exists>xss. x = concat xss \<and> length xss = 20 \<and> list_all (tie_quad ff) xss"
      and y: "list_all (\<lambda>p. fst p = Mul) y \<and> length y = 10 * 2"
    then obtain xss where "x = concat xss" "length xss = 20" "list_all (tie_quad ff) xss" by blast
    then show "\<exists>xss ms. x @ both Mul (v_enc vf 0 (vBIAS vf) 1) (v_enc vf 0 (vBIAS vf) (push_bit (vM vf - 1) 1)) @
          both Mul (v_enc vf 0 (vBIAS vf) 2) (v_enc vf 0 (vBIAS vf) (push_bit (vM vf - 1) 1)) @ y = concat xss @ ms \<and>
        length xss = 20 \<and> list_all (tie_quad ff) xss \<and> length ms = 24 \<and> list_all (\<lambda>p. fst p = Mul) ms"
      using y by (intro exI [of _ xss]) (simp add: both_def)
  qed
qed

section \<open>Texts\<close>

fun hx_pair :: "vfmt \<Rightarrow> int \<times> int \<Rightarrow> string \<times> string" where
  "hx_pair fmt (a, b) = (v_hx fmt a, v_hx fmt b)"

fun read_pair :: "string \<times> string \<Rightarrow> py_error + (int \<times> int)" where
  "read_pair (s, t) = ebind (read_hex s) (\<lambda>a. ebind (read_hex t) (\<lambda>b. Inr (a, b)))"

definition pair_nonneg :: "int \<times> int \<Rightarrow> bool" where
  "pair_nonneg p \<longleftrightarrow> 0 \<le> fst p \<and> 0 \<le> snd p"

interpretation hx: codec "\<lambda>p. Inr (hx_pair fmt p)" read_pair pair_nonneg for fmt
  by unfold_locales (auto simp: v_hx_def pair_nonneg_def read_hex_prefixed [simplified])

lemma to_hex_hx: "emap (\<lambda>p. Inr (hx_pair fmt p)) ps = Inr (to_hex fmt ps)"
  by (induction ps) (auto simp: to_hex_def)

lemma read_to_hex: "list_all (\<lambda>(a, b). fits fmt a \<and> fits fmt b) ps \<Longrightarrow> emap read_pair (to_hex fmt ps) = Inr ps"
  by (rule hx.emap_roundtrip [OF _ to_hex_hx]) (auto simp: list_all_iff pair_nonneg_def fits_def)

lemma hx_length: "0 < k \<Longrightarrow> vW fmt = 4 * k \<Longrightarrow> fits fmt v \<Longrightarrow> length (v_hx fmt v) = vW fmt div 4 + 2"
  using hex_str_length [of v k] by (simp add: v_hx_def fits_def power_mult)

text \<open>A random source for the examples: a counter reduced to the range asked for.\<close>

definition counter_rng :: "nat rng" where
  "counter_rng = \<lparr>rng_bits = \<lambda>k g. (int g mod 2 ^ k, g + 1), rng_below = \<lambda>n g. (int g mod n, g + 1), rng_random = \<lambda>g. (0, g + 1)\<rparr>"

lemma counter_rng_ok: "rng_ok counter_rng"
  by (simp add: rng_ok_def counter_rng_def)

section \<open>Properties\<close>

text \<open>C29: for both formats and every random source whose draws stay in their ranges, the generator does not raise, gives at least
  the asked number of pairs for each operation, every operand fits the format, and the texts of the corpus have the width of the
  format and are read back as the operands.\<close>

theorem fp_corpus_ok:
  assumes r: "rng_ok r" and fmt: "fmt = V32 \<or> fmt = V16"
  shows "\<exists>adds muls g'. fp_operands fmt r n g = (Inr (adds, muls), g') \<and>
    fp_pairs fmt r n g = (Inr (to_hex fmt adds, to_hex fmt muls), g') \<and> n \<le> length adds \<and> n \<le> length muls \<and>
    list_all (\<lambda>(a, b). fits fmt a \<and> fits fmt b) (adds @ muls) \<and> emap read_pair (to_hex fmt (adds @ muls)) = Inr (adds @ muls) \<and>
    list_all (\<lambda>(s, t). length s = vW fmt div 4 + 2 \<and> length t = vW fmt div 4 + 2) (to_hex fmt (adds @ muls))"
proof -
  have "gsat (\<lambda>x. list_all (\<lambda>(a, b). fits fmt a \<and> fits fmt b) (fst x @ snd x) \<and> n \<le> length (fst x) \<and> n \<le> length (snd x))
      (fp_operands fmt r n)"
    using fmt
  proof
    assume "fmt = V32" then show ?thesis by (simp only:) (rule gsat_mono [OF v32.operands_fit [OF r]], auto)
  next
    assume "fmt = V16" then show ?thesis by (simp only:) (rule gsat_mono [OF v16.operands_fit [OF r]], auto)
  qed
  then obtain x g' where x: "fp_operands fmt r n g = (Inr x, g')"
    "list_all (\<lambda>(a, b). fits fmt a \<and> fits fmt b) (fst x @ snd x)" "n \<le> length (fst x)" "n \<le> length (snd x)"
    unfolding gsat_def by blast
  obtain adds muls where xs: "x = (adds, muls)" by (cases x)
  have o: "fp_operands fmt r n g = (Inr (adds, muls), g')" and
    f: "list_all (\<lambda>(a, b). fits fmt a \<and> fits fmt b) (adds @ muls)" "n \<le> length adds" "n \<le> length muls"
    using x by (simp_all add: xs)
  have "vW fmt = 4 * (vW fmt div 4)" "0 < vW fmt div 4" using fmt by (auto simp: V32_def V16_def)
  then have "list_all (\<lambda>(s, t). length s = vW fmt div 4 + 2 \<and> length t = vW fmt div 4 + 2) (to_hex fmt (adds @ muls))"
    using f(1) hx_length [of "vW fmt div 4" fmt] by (fastforce simp: to_hex_def list_all_iff)
  then show ?thesis using o f read_to_hex [OF f(1)] by (simp add: fp_pairs_def gbind_def gret_def)
qed

lemma fp_corpus_ok_witness:
  "\<exists>adds muls g'. fp_operands V16 counter_rng 420 7 = (Inr (adds, muls), g') \<and>
    fp_pairs V16 counter_rng 420 7 = (Inr (to_hex V16 adds, to_hex V16 muls), g') \<and> 420 \<le> length adds \<and> 420 \<le> length muls \<and>
    list_all (\<lambda>(a, b). fits V16 a \<and> fits V16 b) (adds @ muls) \<and> emap read_pair (to_hex V16 (adds @ muls)) = Inr (adds @ muls) \<and>
    list_all (\<lambda>(s, t). length s = vW V16 div 4 + 2 \<and> length t = vW V16 div 4 + 2) (to_hex V16 (adds @ muls))"
  by (rule fp_corpus_ok [OF counter_rng_ok]) simp

text \<open>C32: whatever the random source draws, the single precision corpus closes the cross of the operand classes of the coverage
  layer: the multiplications hit all 25 pairs of classes, the additions all but an infinity with a zero.\<close>

theorem corpus_closes_classes:
  assumes r: "rng_ok r"
  shows "case fst (fp_operands V32 r n g) of
      Inl e \<Rightarrow> False
    | Inr (adds, muls) \<Rightarrow> closes 32 class_pairs muls \<and> closes 32 (filter (\<lambda>c. c \<notin> set INF_ZERO) class_pairs) adds"
proof -
  obtain adds muls g' where "fp_operands V32 r n g = (Inr (adds, muls), g')"
    "set (pairs_of Add (fixed_pairs V32)) \<subseteq> set adds" "set (pairs_of Mul (fixed_pairs V32)) \<subseteq> set muls"
    using v32.operands_fit [OF r, of n] by (fastforce simp: gsat_def)
  then show ?thesis using closes_mono [OF fixed_close_32(1)] closes_mono [OF fixed_close_32(2)] by simp
qed

lemma corpus_closes_classes_witness:
  "case fst (fp_operands V32 counter_rng 520 0) of
      Inl e \<Rightarrow> False
    | Inr (adds, muls) \<Rightarrow> closes 32 class_pairs muls \<and> closes 32 (filter (\<lambda>c. c \<notin> set INF_ZERO) class_pairs) adds"
  by (rule corpus_closes_classes [OF counter_rng_ok])

text \<open>The access patterns never fail their assertion: there are 56, each with a mask of 32 lanes and 32 word-aligned addresses
  below the limit, as read back from their texts.\<close>

theorem lsu_corpus_ok:
  assumes "rng_ok r"
  shows "\<exists>ps g'. lsu_patterns r g = (Inr ps, g') \<and> length ps = 56 \<and> list_all pattern_ok ps"
  using lsu_patterns_ok [OF assms] by (fastforce simp: gsat_def)

lemma lsu_corpus_ok_witness:
  "\<exists>ps g'. lsu_patterns counter_rng 3 = (Inr ps, g') \<and> length ps = 56 \<and> list_all pattern_ok ps"
  by (rule lsu_corpus_ok [OF counter_rng_ok])

text \<open>C30: the section of ties, for both formats and whatever the random source draws: it does not raise, gives 80 additions and 24
  multiplications, and every addition is a tie for the reference model: the exact sum of the two numbers is the mean of two neighbouring
  finite numbers, the larger operand and its successor, and the model returns the one with an even significand, with the inexact
  flag. Half of the ties go down, half up, and each pair is there in both orders.\<close>

theorem sec_ties_are_ties:
  assumes "rng_ok r" "(vf, ff) = (V32, FP32) \<or> (vf, ff) = (V16, FP16)"
  shows "\<exists>ps g'. sec_ties vf r g = (Inr ps, g') \<and> length (pairs_of Add ps) = 80 \<and> length (pairs_of Mul ps) = 24 \<and>
    list_all (\<lambda>(a, b). is_tie ff a b) (pairs_of Add ps) \<and>
    list_all (\<lambda>(a, b). fp_add a b RM_RNE ff = (if even (max a b) then max a b else max a b + 1, no_flags\<lparr>inexact := True\<rparr>)) (pairs_of Add ps) \<and>
    length (filter (\<lambda>(a, b). even (max a b)) (pairs_of Add ps)) = 40 \<and>
    mset (map prod.swap (pairs_of Add ps)) = mset (pairs_of Add ps)"
proof -
  have "gsat (\<lambda>ps. \<exists>xss ms. ps = concat xss @ ms \<and> length xss = 20 \<and> list_all (tie_quad ff) xss \<and> length ms = 24 \<and> list_all (\<lambda>p. fst p = Mul) ms)
      (sec_ties vf r)"
    by (rule sec_ties_quads [OF assms])
  then obtain ps g' xss ms where ps: "sec_ties vf r g = (Inr ps, g')" "ps = concat xss @ ms" "length xss = 20" "list_all (tie_quad ff) xss"
      "length ms = 24" "list_all (\<lambda>p. fst p = Mul) ms"
    unfolding gsat_def by blast
  have "pairs_of Add ms = []" "pairs_of Mul ms = map snd ms"
    using ps(6) by (induction ms) (auto simp: pairs_of_def)
  then show ?thesis using ps quads_add [OF ps(4)] by (simp add: pairs_of_append)
qed

lemma sec_ties_are_ties_witness:
  "\<exists>ps g'. sec_ties V16 counter_rng 5 = (Inr ps, g') \<and> length (pairs_of Add ps) = 80 \<and> length (pairs_of Mul ps) = 24 \<and>
    list_all (\<lambda>(a, b). is_tie FP16 a b) (pairs_of Add ps) \<and>
    list_all (\<lambda>(a, b). fp_add a b RM_RNE FP16 = (if even (max a b) then max a b else max a b + 1, no_flags\<lparr>inexact := True\<rparr>)) (pairs_of Add ps) \<and>
    length (filter (\<lambda>(a, b). even (max a b)) (pairs_of Add ps)) = 40 \<and>
    mset (map prod.swap (pairs_of Add ps)) = mset (pairs_of Add ps)"
  by (rule sec_ties_are_ties [OF counter_rng_ok]) simp

text \<open>The fixed corners in single precision: the four additions at the overflow boundary give infinity three times and then
  the largest number; the first multiplication tie is inexact but the second is exact, so not a tie; the product just below the
  smallest normal number rounds up to it but its neighbour is an exact subnormal.\<close>

theorem fixed_corners:
  "map (\<lambda>(_, a, b). fst (fp_add a b RM_RNE FP32)) (take 4 (sec_overflow V32)) = [v_inf V32, v_inf V32, v_inf V32, v_max_fin V32] \<and>
   inexact (snd (fp_mul (v_enc V32 0 127 1) (v_enc V32 0 127 (push_bit 22 1)) RM_RNE FP32)) \<and>
   snd (fp_mul (v_enc V32 0 127 2) (v_enc V32 0 127 (push_bit 22 1)) RM_RNE FP32) = no_flags \<and>
   fst (fp_mul (v_enc V32 0 126 (vMMASK V32)) (v_min_norm V32) RM_RNE FP32) = v_min_norm V32 \<and>
   fp_mul (v_enc V32 0 126 (vMMASK V32 - 1)) (v_min_norm V32) RM_RNE FP32 = (v_max_sub V32, no_flags)"
  by (intro conjI; code_simp)

end
