(* ===== verification/ComputeRunner.thy ===== *)
theory ComputeRunner
  imports PyString Regression
begin

text \<open>
  The host side of the compute bench, \<^verbatim>\<open>tb/compute_runner.py\<close>: which simulation image a configuration
  uses, when an image is elaborated again, what is handed to the simulator and how its result file is
  read. The environment, the file system and the two tools are the fields of a record over an abstract
  world; every operation on files may raise, apart from the tests whether a path exists, and \<open>rmtree\<close>,
  which is told to ignore errors. Running a command has the time limit as an argument.
\<close>

record 'w cr_host =
  cr_tb :: string
  cr_rtl :: string
  cr_env :: "string \<Rightarrow> string option"
  cr_which :: "string \<Rightarrow> string option"
  cr_exists :: "'w \<Rightarrow> string \<Rightarrow> bool"
  cr_listdir :: "'w \<Rightarrow> string \<Rightarrow> py_error + string list"
  cr_isdir :: "'w \<Rightarrow> string \<Rightarrow> bool"
  cr_mtime :: "'w \<Rightarrow> string \<Rightarrow> py_error + int"
  cr_makedirs :: "string \<Rightarrow> 'w \<Rightarrow> (py_error + unit) \<times> 'w"
  cr_exec :: "string list \<Rightarrow> int option \<Rightarrow> 'w \<Rightarrow> (py_error + (int \<times> string \<times> string)) \<times> 'w"
  cr_mkdtemp :: "'w \<Rightarrow> (py_error + string) \<times> 'w"
  cr_rmtree :: "string \<Rightarrow> 'w \<Rightarrow> 'w"
  cr_write :: "string \<Rightarrow> string \<Rightarrow> 'w \<Rightarrow> (py_error + unit) \<times> 'w"
  cr_read :: "'w \<Rightarrow> string \<Rightarrow> py_error + string"

definition CODE_BASE :: int where "CODE_BASE = 0x200000"
definition DATA_BASE :: int where "DATA_BASE = 0x400000"
definition PARAM_BASE :: int where "PARAM_BASE = 0x600000"

definition BUILD_DIR :: "'w cr_host \<Rightarrow> string" where
  "BUILD_DIR h = joins (cr_tb h) [''sim_build'', ''compute'']"

section \<open>The configuration\<close>

definition env_get :: "'w cr_host \<Rightarrow> string \<Rightarrow> string \<Rightarrow> string" where
  "env_get h name dflt = (case cr_env h name of None \<Rightarrow> dflt | Some v \<Rightarrow> v)"

definition sm_flavour :: "'w cr_host \<Rightarrow> py_error + string" where
  "sm_flavour h =
    (let v = map lower_char (py_strip (env_get h ''TITAN_SM'' ''x5'')) in
     if v \<notin> {''x5'', ''x7''} then Inl (RuntimeError (''TITAN_SM must be x5 or x7, got '' @ py_repr v)) else Inr v)"

definition icache_on :: "'w cr_host \<Rightarrow> bool" where
  "icache_on h \<longleftrightarrow> py_strip (env_get h ''TITAN_ICACHE'' ''0'') \<in> {''1'', ''on'', ''yes''}"

text \<open>Lower-case hexadecimal, zero-padded.\<close>

definition hex_low :: "nat \<Rightarrow> int \<Rightarrow> string" where
  "hex_low n v = map lower_char (hex_str n v)"

definition image_name :: "string \<Rightarrow> bool \<Rightarrow> int \<Rightarrow> string" where
  "image_name fl ic warp_mask =
    ''compute_'' @ fl @ ''_'' @ (if ic then ''ic'' else ''noic'') @ ''_w'' @ hex_low 2 warp_mask @ ''.vvp''"

definition sim_path :: "'w cr_host \<Rightarrow> int \<Rightarrow> py_error + string" where
  "sim_path h warp_mask =
    ebind (sm_flavour h) (\<lambda>fl. Inr (path_join (BUILD_DIR h) (image_name fl (icache_on h) warp_mask)))"

definition tool :: "'w cr_host \<Rightarrow> 'w \<Rightarrow> string \<Rightarrow> py_error + string" where
  "tool h w name =
    (let found = cr_which h name in
     if found \<notin> {None, Some []} then Inr (the found)
     else
       (case find (cr_exists h w) [''C:'' @ [CHR 0x5C] @ ''iverilog'' @ [CHR 0x5C] @ ''bin'' @ [CHR 0x5C] @ name @ ''.exe'', ''/usr/bin/'' @ name] of
          Some cand \<Rightarrow> Inr cand
        | None \<Rightarrow> Inl (RuntimeError (name @ '' not found on PATH''))))"

section \<open>Building an image\<close>

text \<open>The directory is listed twice: for its subdirectories, then for its own files.\<close>

definition verilog_in :: "'w cr_host \<Rightarrow> 'w \<Rightarrow> string \<Rightarrow> py_error + string list" where
  "verilog_in h w d =
    ebind (cr_listdir h w d) (\<lambda>fs. Inr (map (path_join d) (filter (suffix_of ''.v'') (sort fs))))"

definition cr_sources :: "'w cr_host \<Rightarrow> 'w \<Rightarrow> py_error + string list" where
  "cr_sources h w =
    ebind (cr_listdir h w (cr_rtl h)) (\<lambda>subs.
    ebind (emap (verilog_in h w) (filter (cr_isdir h w) (map (path_join (cr_rtl h)) (sort subs)))) (\<lambda>fss.
    ebind (verilog_in h w (cr_rtl h)) (\<lambda>fs.
    Inr ([path_join (cr_tb h) ''tb_compute_top.v''] @ concat fss @ fs))))"

definition list_insert :: "nat \<Rightarrow> 'a \<Rightarrow> 'a list \<Rightarrow> 'a list" where
  "list_insert i x xs = take i xs @ x # drop i xs"

text \<open>An image is reused when no source has a later time of modification; the time of a missing source raises.\<close>

definition image_fresh :: "'w cr_host \<Rightarrow> 'w \<Rightarrow> string \<Rightarrow> string list \<Rightarrow> py_error + bool" where
  "image_fresh h w sim srcs =
    ebind (emap (cr_mtime h w) srcs) (\<lambda>ts. ebind (cr_mtime h w sim) (\<lambda>t. Inr (t \<ge> Max (set ts))))"

definition build_cmd :: "string \<Rightarrow> string \<Rightarrow> string \<Rightarrow> bool \<Rightarrow> int \<Rightarrow> string \<Rightarrow> string list \<Rightarrow> string list" where
  "build_cmd iverilog rtl fl ic warp_mask sim srcs =
    (let cmd = [iverilog, ''-g2012'', ''-s'', ''tb_compute_top'', ''-DTITAN_FAST_SIM'', ''-P'',
                ''tb_compute_top.LAUNCH_MASK='' @ int_str warp_mask,
                ''-I'', rtl, ''-o'', sim];
         cmd = (if fl = ''x7'' then list_insert 4 ''-DTITAN_USE_X7_SM'' cmd else cmd);
         cmd = (if ic then list_insert 4 ''-DTITAN_USE_ICACHE'' cmd else cmd)
     in cmd @ srcs)"

definition elaborate :: "'w cr_host \<Rightarrow> int \<Rightarrow> string \<Rightarrow> string list \<Rightarrow> 'w \<Rightarrow> (py_error + string) \<times> 'w" where
  "elaborate h warp_mask sim srcs w =
    (case cr_makedirs h (BUILD_DIR h) w of
       (Inl e, w) \<Rightarrow> (Inl e, w)
     | (Inr _, w) \<Rightarrow>
         (case ebind (tool h w ''iverilog'') (\<lambda>iv. ebind (sm_flavour h) (\<lambda>fl. Inr (build_cmd iv (cr_rtl h) fl (icache_on h) warp_mask sim srcs))) of
            Inl e \<Rightarrow> (Inl e, w)
          | Inr cmd \<Rightarrow>
              (case cr_exec h cmd None w of
                 (Inl e, w) \<Rightarrow> (Inl e, w)
               | (Inr (returncode, out, err), w) \<Rightarrow>
                   let errs = filter (\<lambda>l. infix_of ''error'' (map lower_char l)) (py_splitlines err) in
                   if returncode \<noteq> 0 \<or> errs \<noteq> [] then (Inl (RuntimeError (''elaboration failed:'' @ NL @ py_join NL (take 20 errs))), w)
                   else (Inr sim, w))))"

definition cr_build :: "'w cr_host \<Rightarrow> int \<Rightarrow> bool \<Rightarrow> 'w \<Rightarrow> (py_error + string) \<times> 'w" where
  "cr_build h warp_mask force w =
    (case ebind (sim_path h warp_mask) (\<lambda>sim. ebind (cr_sources h w) (\<lambda>srcs.
         ebind (if cr_exists h w sim \<and> \<not> force then image_fresh h w sim srcs else Inr False) (\<lambda>reuse.
         Inr (sim, srcs, reuse)))) of
       Inl e \<Rightarrow> (Inl e, w)
     | Inr (sim, srcs, reuse) \<Rightarrow> if reuse then (Inr sim, w) else elaborate h warp_mask sim srcs w)"

section \<open>Running a program\<close>

record cr_result =
  r_words :: "int list"
  r_cycles :: int
  r_timed_out :: bool
  r_pred_divergent :: bool
  r_log :: string

definition hex_file :: "int list \<Rightarrow> string" where
  "hex_file vs = concat (map (\<lambda>v. hex_low 8 (v AND 0xFFFFFFFF) @ NL) vs)"

text \<open>The lines of the result file: three decimal numbers, then a word in hexadecimal on each.\<close>

definition parse_out :: "string \<Rightarrow> py_error + (int \<times> int \<times> int \<times> int list)" where
  "parse_out txt =
    (let ls = filter (\<lambda>l. l \<noteq> []) (map py_strip (file_lines [] txt)) in
     case ls of
       [] \<Rightarrow> Inl IndexError
     | l # rest \<Rightarrow>
         ebind (emap read_dec (py_split l)) (\<lambda>xs.
           case xs of
             [timed_out, cycles, divergent] \<Rightarrow>
               ebind (emap read_hex rest) (\<lambda>ws. Inr (timed_out, cycles, divergent, ws))
           | _ \<Rightarrow> Inl ValueError))"

text \<open>An optional input file: its option, its path and its length are appended when it is not empty.\<close>

definition opt_file ::
    "'w cr_host \<Rightarrow> string \<Rightarrow> string \<Rightarrow> string \<Rightarrow> string \<Rightarrow> int list \<Rightarrow> string list \<Rightarrow> 'w \<Rightarrow> (py_error + string list) \<times> 'w" where
  "opt_file h tmp name opt len_opt vs args w =
    (if vs = [] then (Inr args, w)
     else
       (case cr_write h (path_join tmp name) (hex_file vs) w of
          (Inl e, w) \<Rightarrow> (Inl e, w)
        | (Inr _, w) \<Rightarrow> (Inr (args @ [opt @ path_join tmp name, len_opt @ dec_str (length vs)]), w)))"

definition flat_regs :: "(int \<times> int \<times> int) list \<Rightarrow> int list" where
  "flat_regs rs = concat (map (\<lambda>(wp, reg, v). [wp, reg, v]) rs)"

text \<open>Writing the input files: the command line of the simulator.\<close>

definition run_args ::
    "'w cr_host \<Rightarrow> string \<Rightarrow> string \<Rightarrow> int list \<Rightarrow> nat \<Rightarrow> int list \<Rightarrow> int list \<Rightarrow> (int \<times> int \<times> int) list \<Rightarrow> int \<Rightarrow> nat \<Rightarrow>
     'w \<Rightarrow> (py_error + string list) \<times> 'w" where
  "run_args h sim tmp program n_res data params warp_regs res_base max_cycles w =
    (case cr_write h (path_join tmp ''prog.hex'') (hex_file program) w of
       (Inl e, w) \<Rightarrow> (Inl e, w)
     | (Inr _, w) \<Rightarrow>
    (case tool h w ''vvp'' of
       Inl e \<Rightarrow> (Inl e, w)
     | Inr vvp \<Rightarrow>
    (case opt_file h tmp ''data.hex'' ''+DATA='' ''+NDATA='' data
            [vvp, sim, ''+PROG='' @ path_join tmp ''prog.hex'', ''+OUT='' @ path_join tmp ''out.txt'', ''+NPROG='' @ dec_str (length program),
             ''+NRES='' @ dec_str n_res, ''+RESBASE='' @ hex_low 8 res_base, ''+MAXCYC='' @ dec_str max_cycles] w of
       (Inl e, w) \<Rightarrow> (Inl e, w)
     | (Inr args, w) \<Rightarrow>
    (case opt_file h tmp ''param.hex'' ''+PARAM='' ''+NPARAM='' params args w of
       (Inl e, w) \<Rightarrow> (Inl e, w)
     | (Inr args, w) \<Rightarrow> opt_file h tmp ''wregs.hex'' ''+WREGS='' ''+NWREG='' (flat_regs warp_regs) args w))))"

text \<open>What happens between \<open>mkdtemp\<close> and the \<open>finally\<close>.\<close>

definition run_in ::
    "'w cr_host \<Rightarrow> string \<Rightarrow> string \<Rightarrow> int list \<Rightarrow> nat \<Rightarrow> int list \<Rightarrow> int list \<Rightarrow> (int \<times> int \<times> int) list \<Rightarrow> int \<Rightarrow> nat \<Rightarrow> int \<Rightarrow>
     'w \<Rightarrow> (py_error + cr_result) \<times> 'w" where
  "run_in h sim tmp program n_res data params warp_regs res_base max_cycles timeout_s w =
    (case run_args h sim tmp program n_res data params warp_regs res_base max_cycles w of
       (Inl e, w) \<Rightarrow> (Inl e, w)
     | (Inr args, w) \<Rightarrow>
         (case cr_exec h args (Some timeout_s) w of
            (Inl e, w) \<Rightarrow> (Inl e, w)
          | (Inr (returncode, out, err), w) \<Rightarrow>
              let lg = out @ err; out_path = path_join tmp ''out.txt'' in
              if \<not> cr_exists h w out_path then (Inl (RuntimeError (''simulation produced no result file:'' @ NL @ lg)), w)
              else
                (ebind (cr_read h w out_path) (\<lambda>txt.
                   ebind (parse_out txt) (\<lambda>(timed_out, cycles, divergent, ws).
                   ebind (sm_flavour h) (\<lambda>_.
                   Inr \<lparr>r_words = ws, r_cycles = cycles, r_timed_out = (timed_out \<noteq> 0),
                        r_pred_divergent = (divergent \<noteq> 0), r_log = lg\<rparr>))), w)))"

definition cr_run ::
    "'w cr_host \<Rightarrow> int list \<Rightarrow> nat \<Rightarrow> int list \<Rightarrow> int list \<Rightarrow> (int \<times> int \<times> int) list \<Rightarrow> int \<Rightarrow> nat \<Rightarrow> int \<Rightarrow> int \<Rightarrow>
     'w \<Rightarrow> (py_error + cr_result) \<times> 'w" where
  "cr_run h program n_res data params warp_regs res_base max_cycles timeout_s warp_mask w =
    (case cr_build h warp_mask False w of
       (Inl e, w) \<Rightarrow> (Inl e, w)
     | (Inr sim, w) \<Rightarrow>
         (case cr_mkdtemp h w of
            (Inl e, w) \<Rightarrow> (Inl e, w)
          | (Inr tmp, w) \<Rightarrow>
              let (r, w) = run_in h sim tmp program n_res data params warp_regs res_base max_cycles timeout_s w
              in (r, cr_rmtree h tmp w)))"

end
