(* ===== verification/ComputeRunnerProps.thy ===== *)
theory ComputeRunnerProps
  imports ComputeRunner
begin

text \<open>
  What the compute runner promises: an image is used only for the configuration it was built for and
  only while no source is newer, the simulator is handed the words of the program, and the words the
  bench writes are the words a run returns.
\<close>

section \<open>Lower-case hexadecimal\<close>

lemma plain_lower:
  "plain_hex c \<Longrightarrow> hex_val (lower_char c) = hex_val c \<and> lower_char c \<noteq> CHR ''_'' \<and> lower_char c \<noteq> CHR ''x'' \<and>
    lower_char c \<noteq> CHR ''X'' \<and> lower_char c \<noteq> CHR ''-'' \<and> lower_char c \<noteq> CHR ''+'' \<and> lower_char c \<noteq> CHR 0x0A \<and>
    \<not> is_space (lower_char c)"
proof -
  assume "plain_hex c"
  then obtain d where d: "0 \<le> d" "d < 16" "c = hex_digit d" by (auto simp: plain_hex_def)
  then have "d \<in> set [0, 1, 2, 3, 4, 5, 6, 7, 8, 9, 10, 11, 12, 13, 14, 15]"
    unfolding list.set insert_iff empty_iff by arith
  moreover have "list_all (\<lambda>d. lower_char (hex_digit d) = ''0123456789abcdef'' ! nat d)
      [0, 1, 2, 3, 4, 5, 6, 7, 8, 9, 10, 11, 12, 13, 14, 15]"
    by (simp add: hex_digit_def lower_char_def char_of_def bit_Suc_0_iff)
  moreover have "list_all (\<lambda>d. hex_val (''0123456789abcdef'' ! nat d) = hex_val (hex_digit d) \<and> ''0123456789abcdef'' ! nat d \<noteq> CHR ''_'' \<and>
      ''0123456789abcdef'' ! nat d \<noteq> CHR ''x'' \<and> ''0123456789abcdef'' ! nat d \<noteq> CHR ''X'' \<and>
      ''0123456789abcdef'' ! nat d \<noteq> CHR ''-'' \<and> ''0123456789abcdef'' ! nat d \<noteq> CHR ''+'' \<and>
      ''0123456789abcdef'' ! nat d \<noteq> CHR 0x0A \<and> \<not> is_space (''0123456789abcdef'' ! nat d))
      [0, 1, 2, 3, 4, 5, 6, 7, 8, 9, 10, 11, 12, 13, 14, 15]"
    by (simp add: hex_digit_def hex_val_def is_space_def char_code_def)
  ultimately show ?thesis unfolding list_all_iff d(3) by metis
qed

lemma read_digits_lower:
  "list_all plain_hex s \<Longrightarrow> read_digits acc ok (map lower_char s) = read_digits acc ok s"
proof (induction s arbitrary: acc ok)
  case (Cons c s)
  then show ?case using plain_lower [of c] plain_no_prefix [of c] by (auto split: option.split)
qed simp

lemma hex_low_chars: "0 \<le> v \<Longrightarrow> list_all (\<lambda>c. c \<noteq> CHR 0x0A \<and> \<not> is_space c) (hex_low n v)"
  using hex_str_plain [of v n] plain_lower by (auto simp: hex_low_def list_all_iff)

lemma hex_low_nonempty [simp]: "0 \<le> v \<Longrightarrow> hex_low n v \<noteq> []"
  using read_hex_str_digits [of v n] by (auto simp: hex_low_def)

theorem read_hex_low: "0 \<le> v \<Longrightarrow> read_hex (hex_low n v) = Inr v"
proof -
  assume v: "0 \<le> v"
  note p = hex_str_plain [OF v, of n]
  have "read_digits 0 False (hex_low n v) = Inr v"
    using read_digits_lower [OF p] read_hex_str_digits [OF v, of n] by (simp add: hex_low_def)
  moreover have "list_all (\<lambda>c. c \<noteq> CHR ''x'' \<and> c \<noteq> CHR ''X'' \<and> c \<noteq> CHR ''-'' \<and> c \<noteq> CHR ''+'') (hex_low n v)"
    using p plain_lower by (auto simp: hex_low_def list_all_iff)
  ultimately show ?thesis by (cases "hex_low n v" rule: read_unsigned.cases) (auto simp: read_hex_def)
qed

interpretation hex8: codec "\<lambda>v. Inr (hex_low 8 v)" read_hex "\<lambda>v. 0 \<le> v"
  by unfold_locales (auto simp: read_hex_low)

lemma hex_low_inj: "0 \<le> v \<Longrightarrow> 0 \<le> v' \<Longrightarrow> hex_low n v = hex_low n v' \<Longrightarrow> v = v'"
  by (metis read_hex_low sum.inject(2))

section \<open>Building\<close>

lemma build_cmd_eq:
  "build_cmd iv rtl fl ic m sim srcs = [iv, ''-g2012'', ''-s'', ''tb_compute_top''] @ (if ic then [''-DTITAN_USE_ICACHE''] else []) @
     (if fl = ''x7'' then [''-DTITAN_USE_X7_SM''] else []) @
     [''-DTITAN_FAST_SIM'', ''-P'', ''tb_compute_top.LAUNCH_MASK='' @ int_str m, ''-I'', rtl, ''-o'', sim] @ srcs"
  by (simp add: build_cmd_def list_insert_def Let_def eval_nat_numeral)

text \<open>No source has a later time than the image.\<close>

definition none_newer :: "'w cr_host \<Rightarrow> 'w \<Rightarrow> string \<Rightarrow> string list \<Rightarrow> bool" where
  "none_newer h w sim srcs \<longleftrightarrow>
    (\<exists>t. cr_mtime h w sim = Inr t \<and> list_all (\<lambda>s. \<exists>u. cr_mtime h w s = Inr u \<and> u \<le> t) srcs)"

lemma emap_mtimes: "emap f xs = Inr ys \<Longrightarrow> list_all (\<lambda>x. \<exists>u. f x = Inr u \<and> u \<le> t) xs \<longleftrightarrow> (\<forall>y \<in> set ys. y \<le> (t :: int))"
  by (induction xs arbitrary: ys) (auto simp: ebind_eq_Inr_iff)

lemma image_fresh_iff:
  assumes "image_fresh h w sim srcs = Inr b" "srcs \<noteq> []"
  shows "b \<longleftrightarrow> none_newer h w sim srcs"
proof -
  obtain ts t where t: "emap (cr_mtime h w) srcs = Inr ts" "cr_mtime h w sim = Inr t" "b \<longleftrightarrow> Max (set ts) \<le> t"
    using assms(1) by (auto simp: image_fresh_def ebind_eq_Inr_iff)
  have "ts \<noteq> []" using t(1) assms(2) by (cases srcs) (auto simp: ebind_eq_Inr_iff)
  then show ?thesis using t emap_mtimes [OF t(1), of t] by (simp add: none_newer_def)
qed

lemma sources_nonempty: "cr_sources h w = Inr srcs \<Longrightarrow> srcs \<noteq> []"
  by (auto simp: cr_sources_def ebind_eq_Inr_iff)

lemma elaborate_ok:
  assumes "elaborate h m sim srcs w = (Inr sim', w')"
  obtains iv fl w1 out err where "sim' = sim" "cr_makedirs h (BUILD_DIR h) w = (Inr (), w1)" "tool h w1 ''iverilog'' = Inr iv"
    "sm_flavour h = Inr fl" "cr_exec h (build_cmd iv (cr_rtl h) fl (icache_on h) m sim srcs) None w1 = (Inr (0, out, err), w')"
    "list_all (\<lambda>l. \<not> infix_of ''error'' (map lower_char l)) (py_splitlines err)"
proof -
  obtain w1 where w1: "cr_makedirs h (BUILD_DIR h) w = (Inr (), w1)" using assms by (auto simp: elaborate_def split: sum.splits prod.splits)
  obtain iv where iv: "tool h w1 ''iverilog'' = Inr iv" using assms w1 by (cases "tool h w1 ''iverilog''") (auto simp: elaborate_def)
  obtain fl where fl: "sm_flavour h = Inr fl" using assms w1 iv by (cases "sm_flavour h") (auto simp: elaborate_def)
  obtain r w2 where r: "cr_exec h (build_cmd iv (cr_rtl h) fl (icache_on h) m sim srcs) None w1 = (r, w2)" by fastforce
  show thesis
  proof (cases r)
    case (Inl e)
    then show ?thesis using assms w1 iv fl r by (simp add: elaborate_def)
  next
    case (Inr x)
    obtain rc out err where x: "x = (rc, out, err)" by (cases x)
    have "rc = 0" "filter (\<lambda>l. infix_of ''error'' (map lower_char l)) (py_splitlines err) = []" "sim' = sim" "w' = w2"
      using assms w1 iv fl r Inr x by (auto simp: elaborate_def Let_def split: if_splits)
    then show ?thesis using that [of w1 iv fl out err] w1 iv fl r Inr x by (auto simp: filter_empty_conv list_all_iff)
  qed
qed

lemma cr_build_cases:
  assumes "cr_build h m force w = (Inr sim, w')"
  obtains srcs where "sim_path h m = Inr sim" "cr_sources h w = Inr srcs"
    "cr_exists h w sim \<and> \<not> force \<and> none_newer h w sim srcs" "w' = w"
  | srcs where "sim_path h m = Inr sim" "cr_sources h w = Inr srcs"
    "\<not> (cr_exists h w sim \<and> \<not> force \<and> none_newer h w sim srcs)" "elaborate h m sim srcs w = (Inr sim, w')"
proof -
  obtain s srcs reuse where s: "sim_path h m = Inr s" "cr_sources h w = Inr srcs"
    and r: "(if cr_exists h w s \<and> \<not> force then image_fresh h w s srcs else Inr False) = Inr reuse"
    and c: "(if reuse then (Inr s, w) else elaborate h m s srcs w) = (Inr sim, w')"
    using assms unfolding cr_build_def by (auto simp: ebind_eq_Inr_iff split: sum.splits)
  have reuse: "reuse \<longleftrightarrow> cr_exists h w s \<and> \<not> force \<and> none_newer h w s srcs"
    using r image_fresh_iff [of h w s srcs reuse] sources_nonempty [OF s(2)] by (auto split: if_splits)
  show thesis
  proof (cases reuse)
    case True
    then have "cr_exists h w s \<and> \<not> force \<and> none_newer h w s srcs" using reuse by blast
    moreover have "s = sim" "w' = w" using c True by simp_all
    ultimately show ?thesis using that(1) [of srcs] s by blast
  next
    case False
    then have e: "elaborate h m s srcs w = (Inr sim, w')" using c by simp
    then have "sim = s" by (rule elaborate_ok)
    moreover have "\<not> (cr_exists h w s \<and> \<not> force \<and> none_newer h w s srcs)" using reuse False by blast
    ultimately show ?thesis using that(2) [of srcs] s e by blast
  qed
qed

section \<open>The files of a run\<close>

definition bench_text :: "nat \<Rightarrow> nat \<Rightarrow> nat \<Rightarrow> int list \<Rightarrow> string" where
  "bench_text t c d ws =
    (dec_str t @ '' '' @ dec_str c @ '' '' @ dec_str d) @ NL @ concat (map (\<lambda>v. hex_low 8 v @ NL) ws)"

lemma dec_plain: "list_all (\<lambda>c. \<not> is_space c) (dec_str n)" "list_all (\<lambda>c. c \<noteq> CHR 0x0A) (dec_str n)"
  using dec_str_chars [of n] by (auto simp: list_all_iff)

lemma hex_plain: "0 \<le> v \<Longrightarrow> list_all (\<lambda>c. \<not> is_space c) (hex_low n v)" "0 \<le> v \<Longrightarrow> list_all (\<lambda>c. c \<noteq> CHR 0x0A) (hex_low n v)"
  using hex_low_chars [of v n] by (auto simp: list_all_iff)

lemma strip_line: "py_strip (dec_str a @ '' '' @ dec_str b @ '' '' @ dec_str c) = dec_str a @ '' '' @ dec_str b @ '' '' @ dec_str c"
proof -
  obtain x xs where x: "dec_str a = x # xs" by (metis dec_str_nonempty list.exhaust)
  obtain y ys where y: "dec_str c = ys @ [y]" by (metis dec_str_nonempty rev_exhaust)
  have "\<not> is_space x" "\<not> is_space y" using dec_plain(1) [of a] dec_plain(1) [of c] by (simp_all add: x y)
  then have "py_lstrip (dec_str a @ t) = dec_str a @ t" "py_rstrip (t @ dec_str c) = t @ dec_str c" for t
    by (simp_all add: x y py_lstrip_def py_rstrip_def)
  then show ?thesis unfolding py_strip_def by (metis append.assoc)
qed

lemma split_line: "py_split (dec_str a @ '' '' @ dec_str b @ '' '' @ dec_str c) = [dec_str a, dec_str b, dec_str c]"
  using split_word [OF dec_plain(1)] by simp

lemma parse_bench_text:
  assumes "list_all (\<lambda>v. 0 \<le> v) ws"
  shows "parse_out (bench_text t c d ws) = Inr (int t, int c, int d, ws)"
proof -
  let ?l = "dec_str t @ '' '' @ dec_str c @ '' '' @ dec_str d"
  have nl: "list_all (\<lambda>c. c \<noteq> CHR 0x0A) ?l" using dec_plain(2) by simp
  have "list_all (list_all (\<lambda>c. c \<noteq> CHR 0x0A)) (map (hex_low 8) ws)"
    using assms hex_plain(2) by (auto simp: list_all_iff)
  from file_lines_concat [OF this] have fl: "file_lines [] (concat (map (\<lambda>v. hex_low 8 v @ NL) ws)) = map (hex_low 8) ws"
    by (simp add: comp_def)
  have "bench_text t c d ws = ?l @ CHR 0x0A # concat (map (\<lambda>v. hex_low 8 v @ NL) ws)" by (simp add: bench_text_def NL_def)
  then have "file_lines [] (bench_text t c d ws) = ?l # map (hex_low 8) ws"
    using file_lines_append [OF nl, of "[]"] fl by simp
  moreover have "map py_strip (map (hex_low 8) ws) = map (hex_low 8) ws"
    using assms strip_plain [OF hex_plain(1)] by (auto simp: list_all_iff)
  ultimately have "map py_strip (file_lines [] (bench_text t c d ws)) = ?l # map (hex_low 8) ws"
    using strip_line [of t c d] by (simp only: list.map)
  moreover have "filter (\<lambda>l. l \<noteq> []) (?l # map (hex_low 8) ws) = ?l # map (hex_low 8) ws"
    using assms by (auto simp: filter_id_conv list_all_iff)
  ultimately have "filter (\<lambda>l. l \<noteq> []) (map py_strip (file_lines [] (bench_text t c d ws))) = ?l # map (hex_low 8) ws"
    by (simp only:)
  moreover have "emap read_hex (map (hex_low 8) ws) = Inr ws"
    using assms by (induction ws) (auto simp: read_hex_low)
  ultimately show ?thesis
    unfolding parse_out_def Let_def using split_line [of t c d] by (simp only: list.case) (simp add: read_dec_dec_str)
qed

lemma hex_file_reads: "emap read_hex (file_lines [] (hex_file vs)) = Inr (map (\<lambda>v. v mod 2 ^ 32) vs)"
proof -
  have m: "v AND 0xFFFFFFFF = v mod 2 ^ 32" for v :: int by (simp add: mask_simps take_bit_eq_mod)
  have "list_all (\<lambda>c. c \<noteq> CHR 0x0A) (hex_low 8 (v AND 0xFFFFFFFF))" for v
    using hex_plain(2) [of "v mod 2 ^ 32" 8] by (simp add: m)
  then have "list_all (list_all (\<lambda>c. c \<noteq> CHR 0x0A)) (map (\<lambda>v. hex_low 8 (v AND 0xFFFFFFFF)) vs)"
    by (simp add: list_all_iff)
  from file_lines_concat [OF this] have "file_lines [] (hex_file vs) = map (\<lambda>v. hex_low 8 (v AND 0xFFFFFFFF)) vs"
    by (simp add: hex_file_def comp_def)
  moreover have "emap read_hex (map (\<lambda>v. hex_low 8 (v AND 0xFFFFFFFF)) vs) = Inr (map (\<lambda>v. v mod 2 ^ 32) vs)"
    unfolding m by (induction vs) (auto simp: read_hex_low)
  ultimately show ?thesis by simp
qed

section \<open>The command line of a run\<close>

definition words_file :: "'w cr_host \<Rightarrow> 'w \<Rightarrow> string \<Rightarrow> int list \<Rightarrow> bool" where
  "words_file h w path vs \<longleftrightarrow>
    (\<exists>txt. cr_read h w path = Inr txt \<and> emap read_hex (file_lines [] txt) = Inr (map (\<lambda>v. v mod 2 ^ 32) vs))"

definition run_names :: "string list" where
  "run_names = [''prog.hex'', ''data.hex'', ''param.hex'', ''wregs.hex'']"

text \<open>A directory that can be written: in every world where \<open>P\<close> holds, writing one of the input files succeeds, the file
  holds what was written, every other path what it held, and \<open>P\<close> holds again.\<close>

definition writable_dir :: "'w cr_host \<Rightarrow> ('w \<Rightarrow> bool) \<Rightarrow> string \<Rightarrow> bool" where
  "writable_dir h P tmp \<longleftrightarrow> (\<forall>name \<in> set run_names. \<forall>txt x. P x \<longrightarrow>
    (\<exists>y. cr_write h (path_join tmp name) txt x = (Inr (), y) \<and> P y \<and>
      (\<forall>q. cr_read h y q = (if q = path_join tmp name then Inr txt else cr_read h x q))))"

definition opt_args :: "string \<Rightarrow> string \<Rightarrow> string \<Rightarrow> string \<Rightarrow> int list \<Rightarrow> string list" where
  "opt_args tmp name opt len_opt vs = (if vs = [] then [] else [opt @ path_join tmp name, len_opt @ dec_str (length vs)])"

lemma opt_file_ok:
  assumes "writable_dir h P tmp" "P x" "name \<in> set run_names"
  shows "\<exists>y. opt_file h tmp name opt len_opt vs args x = (Inr (args @ opt_args tmp name opt len_opt vs), y) \<and> P y \<and>
    (vs \<noteq> [] \<longrightarrow> words_file h y (path_join tmp name) vs) \<and> (\<forall>q. q \<noteq> path_join tmp name \<longrightarrow> cr_read h y q = cr_read h x q)"
proof (cases "vs = []")
  case True
  then show ?thesis using assms(2) by (simp add: opt_file_def opt_args_def)
next
  case False
  obtain y where y: "cr_write h (path_join tmp name) (hex_file vs) x = (Inr (), y)" "P y"
    "\<And>q. cr_read h y q = (if q = path_join tmp name then Inr (hex_file vs) else cr_read h x q)"
    using assms unfolding writable_dir_def by meson
  show ?thesis by (rule exI [of _ y]) (use False y hex_file_reads [of vs] in \<open>simp add: opt_file_def opt_args_def words_file_def\<close>)
qed

lemma run_args_ok:
  assumes wd: "writable_dir h P tmp" and tl: "\<And>x. P x \<Longrightarrow> tool h x ''vvp'' = Inr vvp" and "P w"
  shows "\<exists>x. run_args h sim tmp program n_res data params warp_regs res_base max_cycles w =
      (Inr ([vvp, sim, ''+PROG='' @ path_join tmp ''prog.hex'', ''+OUT='' @ path_join tmp ''out.txt'', ''+NPROG='' @ dec_str (length program),
         ''+NRES='' @ dec_str n_res, ''+RESBASE='' @ hex_low 8 res_base, ''+MAXCYC='' @ dec_str max_cycles] @
        opt_args tmp ''data.hex'' ''+DATA='' ''+NDATA='' data @ opt_args tmp ''param.hex'' ''+PARAM='' ''+NPARAM='' params @
        opt_args tmp ''wregs.hex'' ''+WREGS='' ''+NWREG='' (flat_regs warp_regs)), x) \<and> P x \<and>
    words_file h x (path_join tmp ''prog.hex'') program \<and>
    (data \<noteq> [] \<longrightarrow> words_file h x (path_join tmp ''data.hex'') data) \<and>
    (params \<noteq> [] \<longrightarrow> words_file h x (path_join tmp ''param.hex'') params) \<and>
    (warp_regs \<noteq> [] \<longrightarrow> words_file h x (path_join tmp ''wregs.hex'') (flat_regs warp_regs))"
proof -
  let ?f = "path_join tmp"
  have ne: "?f ''prog.hex'' \<noteq> ?f ''data.hex''" "?f ''prog.hex'' \<noteq> ?f ''param.hex''" "?f ''prog.hex'' \<noteq> ?f ''wregs.hex''"
    "?f ''data.hex'' \<noteq> ?f ''param.hex''" "?f ''data.hex'' \<noteq> ?f ''wregs.hex''" "?f ''param.hex'' \<noteq> ?f ''wregs.hex''"
    by (simp_all add: path_join_def)
  have nm: "''prog.hex'' \<in> set run_names" "''data.hex'' \<in> set run_names" "''param.hex'' \<in> set run_names" "''wregs.hex'' \<in> set run_names"
    by (simp_all add: run_names_def)
  define args where "args = [vvp, sim, ''+PROG='' @ ?f ''prog.hex'', ''+OUT='' @ ?f ''out.txt'', ''+NPROG='' @ dec_str (length program),
         ''+NRES='' @ dec_str n_res, ''+RESBASE='' @ hex_low 8 res_base, ''+MAXCYC='' @ dec_str max_cycles]"
  obtain x0 where 0: "cr_write h (?f ''prog.hex'') (hex_file program) w = (Inr (), x0)" "P x0"
    "\<And>q. cr_read h x0 q = (if q = ?f ''prog.hex'' then Inr (hex_file program) else cr_read h w q)"
    using wd nm(1) \<open>P w\<close> unfolding writable_dir_def by meson
  obtain x1 where 1: "opt_file h tmp ''data.hex'' ''+DATA='' ''+NDATA='' data args x0 =
      (Inr (args @ opt_args tmp ''data.hex'' ''+DATA='' ''+NDATA='' data), x1)" "P x1"
    "data \<noteq> [] \<longrightarrow> words_file h x1 (?f ''data.hex'') data" "\<forall>q. q \<noteq> ?f ''data.hex'' \<longrightarrow> cr_read h x1 q = cr_read h x0 q"
    using opt_file_ok [OF wd 0(2) nm(2), of "''+DATA=''" "''+NDATA=''" data args] by blast
  obtain x2 where 2: "opt_file h tmp ''param.hex'' ''+PARAM='' ''+NPARAM='' params (args @ opt_args tmp ''data.hex'' ''+DATA='' ''+NDATA='' data) x1 =
      (Inr ((args @ opt_args tmp ''data.hex'' ''+DATA='' ''+NDATA='' data) @ opt_args tmp ''param.hex'' ''+PARAM='' ''+NPARAM='' params), x2)" "P x2"
    "params \<noteq> [] \<longrightarrow> words_file h x2 (?f ''param.hex'') params" "\<forall>q. q \<noteq> ?f ''param.hex'' \<longrightarrow> cr_read h x2 q = cr_read h x1 q"
    using opt_file_ok [OF wd 1(2) nm(3), of "''+PARAM=''" "''+NPARAM=''" params "args @ opt_args tmp ''data.hex'' ''+DATA='' ''+NDATA='' data"] by blast
  let ?a2 = "(args @ opt_args tmp ''data.hex'' ''+DATA='' ''+NDATA='' data) @ opt_args tmp ''param.hex'' ''+PARAM='' ''+NPARAM='' params"
  obtain x3 where 3: "opt_file h tmp ''wregs.hex'' ''+WREGS='' ''+NWREG='' (flat_regs warp_regs) ?a2 x2 =
      (Inr (?a2 @ opt_args tmp ''wregs.hex'' ''+WREGS='' ''+NWREG='' (flat_regs warp_regs)), x3)" "P x3"
    "flat_regs warp_regs \<noteq> [] \<longrightarrow> words_file h x3 (?f ''wregs.hex'') (flat_regs warp_regs)"
    "\<forall>q. q \<noteq> ?f ''wregs.hex'' \<longrightarrow> cr_read h x3 q = cr_read h x2 q"
    using opt_file_ok [OF wd 2(2) nm(4), of "''+WREGS=''" "''+NWREG=''" "flat_regs warp_regs" ?a2] by blast
  note keep = 1(4) [rule_format] 2(4) [rule_format] 3(4) [rule_format]
  have "words_file h x0 (?f ''prog.hex'') program" using 0(3) hex_file_reads [of program] by (simp add: words_file_def)
  then have p: "words_file h x3 (?f ''prog.hex'') program"
    by (simp add: words_file_def keep ne)
  have d: "data \<noteq> [] \<Longrightarrow> words_file h x3 (?f ''data.hex'') data"
    using 1(3) by (simp add: words_file_def keep ne)
  have q: "params \<noteq> [] \<Longrightarrow> words_file h x3 (?f ''param.hex'') params"
    using 2(3) by (simp add: words_file_def keep ne)
  have r: "warp_regs \<noteq> [] \<Longrightarrow> words_file h x3 (?f ''wregs.hex'') (flat_regs warp_regs)"
    using 3(3) by (cases warp_regs) (auto simp: flat_regs_def)
  have "run_args h sim tmp program n_res data params warp_regs res_base max_cycles w =
      (Inr (?a2 @ opt_args tmp ''wregs.hex'' ''+WREGS='' ''+NWREG='' (flat_regs warp_regs)), x3)"
    using 0(1) tl [OF 0(2)] 1(1) 2(1) 3(1) unfolding run_args_def args_def by simp
  then show ?thesis using 3(2) p d q r unfolding args_def by (intro exI [of _ x3]) simp
qed

section \<open>A small host for the examples\<close>

text \<open>The world is the list of files. The elaborator writes an image; the simulator reads the program file and writes its words
  back as the result, with 77 cycles.\<close>

definition demo_exec ::
    "string list \<Rightarrow> int option \<Rightarrow> (string \<times> string) list \<Rightarrow> (py_error + (int \<times> string \<times> string)) \<times> (string \<times> string) list" where
  "demo_exec args limit w =
    (if hd args = ''vvp''
     then (case ebind (Inr (the (map_of w (drop 6 (args ! 2))))) (\<lambda>txt. emap read_hex (file_lines [] txt)) of
             Inl e \<Rightarrow> (Inl e, w)
           | Inr ws \<Rightarrow> (Inr (0, [], []), (drop 5 (args ! 3), bench_text 0 77 0 ws) # w))
     else (Inr (0, [], []), (''tb/sim_build/compute/compute_x5_noic_w01.vvp'', ''image'') # w))"

definition demo_cr :: "(string \<times> string) list cr_host" where
  "demo_cr = \<lparr>cr_tb = ''tb'', cr_rtl = ''rtl'', cr_env = (\<lambda>_. None), cr_which = (\<lambda>n. Some n),
     cr_exists = (\<lambda>w p. list_ex (\<lambda>f. fst f = p) w), cr_listdir = (\<lambda>_ d. if d = ''rtl'' then Inr [''top.v''] else Inl OSError),
     cr_isdir = (\<lambda>_ _. False), cr_mtime = (\<lambda>_ _. Inr 0), cr_makedirs = (\<lambda>_ w. (Inr (), w)), cr_exec = demo_exec,
     cr_mkdtemp = (\<lambda>w. (Inr ''tmp'', w)), cr_rmtree = (\<lambda>_ w. w), cr_write = (\<lambda>p t w. (Inr (), (p, t) # w)),
     cr_read = (\<lambda>w p. case map_of w p of None \<Rightarrow> Inl OSError | Some t \<Rightarrow> Inr t)\<rparr>"

lemma demo_build:
  "cr_build demo_cr 1 False [] =
    (Inr ''tb/sim_build/compute/compute_x5_noic_w01.vvp'', [(''tb/sim_build/compute/compute_x5_noic_w01.vvp'', ''image'')])"
  by code_simp

lemma demo_writable: "writable_dir demo_cr (\<lambda>_. True) ''tmp''"
  by (simp add: writable_dir_def demo_cr_def)

section \<open>Properties\<close>

text \<open>The image of a configuration is its own: two configurations with the same image name have the same core, the same
  instruction cache switch and the same launch mask.\<close>

theorem image_name_identifies:
  assumes "fl \<in> {''x5'', ''x7''}" "fl' \<in> {''x5'', ''x7''}" "0 \<le> m" "0 \<le> m'" "image_name fl ic m = image_name fl' ic' m'"
  shows "fl = fl' \<and> ic = ic' \<and> m = m'"
proof -
  have "fl = fl' \<and> ic = ic' \<and> hex_low 2 m @ ''.vvp'' = hex_low 2 m' @ ''.vvp''"
    using assms(1,2,5) by (cases ic; cases ic') (auto simp: image_name_def)
  then show ?thesis using hex_low_inj [OF assms(3,4), of 2] by simp
qed

lemma image_name_identifies_witness:
  "''x7'' = ''x7'' \<and> True = True \<and> (255 :: int) = 255"
  by (rule image_name_identifies [of "''x7''" "''x7''" 255 255 True True]) simp_all

lemma sm_flavour_range: "sm_flavour h = Inr fl \<Longrightarrow> fl \<in> {''x5'', ''x7''}"
  by (auto simp: sm_flavour_def Let_def split: if_splits)

text \<open>C33: a build that succeeds returns an image that belongs to the configuration: any other core, instruction cache switch or
  launch mask has another image. Either that image was there, was not forced and no source has a later time of modification (an
  equal time is enough), and nothing happened; or the directory was made and the elaborator ran to success without reporting an
  error, with the switches of that core and cache, that launch mask, and all the sources.\<close>

theorem build_is_fresh:
  assumes "cr_build h m force w = (Inr sim, w')" "0 \<le> m"
  shows "\<exists>fl srcs. sm_flavour h = Inr fl \<and> cr_sources h w = Inr srcs \<and>
    (\<forall>h' m' fl'. cr_tb h' = cr_tb h \<and> 0 \<le> m' \<and> sm_flavour h' = Inr fl' \<and> sim_path h' m' = Inr sim \<longrightarrow>
       fl' = fl \<and> icache_on h' = icache_on h \<and> m' = m) \<and>
    (if cr_exists h w sim \<and> \<not> force \<and> none_newer h w sim srcs then w' = w
     else \<exists>iv w1 out err. cr_makedirs h (BUILD_DIR h) w = (Inr (), w1) \<and> tool h w1 ''iverilog'' = Inr iv \<and>
       cr_exec h ([iv, ''-g2012'', ''-s'', ''tb_compute_top''] @ (if icache_on h then [''-DTITAN_USE_ICACHE''] else []) @
           (if fl = ''x7'' then [''-DTITAN_USE_X7_SM''] else []) @
           [''-DTITAN_FAST_SIM'', ''-P'', ''tb_compute_top.LAUNCH_MASK='' @ dec_str (nat m), ''-I'', cr_rtl h, ''-o'', sim] @ srcs)
         None w1 = (Inr (0, out, err), w') \<and>
       list_all (\<lambda>l. \<not> infix_of ''error'' (map lower_char l)) (py_splitlines err))"
proof -
  have dec: "int_str m = dec_str (nat m)" using assms(2) by (simp add: int_str_def)
  have sim: "sim_path h m = Inr sim" by (rule cr_build_cases [OF assms(1)])
  then obtain fl where fl: "sm_flavour h = Inr fl" "sim_path h m = Inr sim" by (auto simp: sim_path_def)
  have own: "fl' = fl \<and> icache_on h' = icache_on h \<and> m' = m"
    if "cr_tb h' = cr_tb h" "0 \<le> m'" "sm_flavour h' = Inr fl'" "sim_path h' m' = Inr sim" for h' :: "'b cr_host" and m' fl'
  proof (rule image_name_identifies [OF sm_flavour_range [OF that(3)] sm_flavour_range [OF fl(1)] that(2) assms(2)])
    show "image_name fl' (icache_on h') m' = image_name fl (icache_on h) m"
      using that fl by (auto simp: sim_path_def BUILD_DIR_def path_join_def)
  qed
  show ?thesis
  proof (rule cr_build_cases [OF assms(1)])
    fix srcs assume "cr_sources h w = Inr srcs" "cr_exists h w sim \<and> \<not> force \<and> none_newer h w sim srcs" "w' = w"
    then show ?thesis using fl(1) own by auto
  next
    fix srcs assume a: "cr_sources h w = Inr srcs" "\<not> (cr_exists h w sim \<and> \<not> force \<and> none_newer h w sim srcs)"
      and e: "elaborate h m sim srcs w = (Inr sim, w')"
    obtain iv fl' w1 out err where "cr_makedirs h (BUILD_DIR h) w = (Inr (), w1)" "tool h w1 ''iverilog'' = Inr iv"
      "sm_flavour h = Inr fl'" "cr_exec h (build_cmd iv (cr_rtl h) fl' (icache_on h) m sim srcs) None w1 = (Inr (0, out, err), w')"
      "list_all (\<lambda>l. \<not> infix_of ''error'' (map lower_char l)) (py_splitlines err)"
      by (rule elaborate_ok [OF e])
    then show ?thesis using fl(1) own a unfolding build_cmd_eq dec by auto
  qed
qed

lemma build_is_fresh_witness:
  "sm_flavour demo_cr = Inr ''x5'' \<and> (\<exists>out err.
    cr_exec demo_cr [''iverilog'', ''-g2012'', ''-s'', ''tb_compute_top'', ''-DTITAN_FAST_SIM'', ''-P'',
      ''tb_compute_top.LAUNCH_MASK=1'', ''-I'', ''rtl'', ''-o'', ''tb/sim_build/compute/compute_x5_noic_w01.vvp'',
      ''tb/tb_compute_top.v'', ''rtl/top.v''] None [] =
    (Inr (0, out, err), [(''tb/sim_build/compute/compute_x5_noic_w01.vvp'', ''image'')]) \<and>
    list_all (\<lambda>l. \<not> infix_of ''error'' (map lower_char l)) (py_splitlines err))"
proof -
  have sm: "sm_flavour demo_cr = Inr ''x5''" "cr_sources demo_cr [] = Inr [''tb/tb_compute_top.v'', ''rtl/top.v'']"
    "icache_on demo_cr = False" "cr_rtl demo_cr = ''rtl''" "cr_exists demo_cr [] p = False"
    "cr_makedirs demo_cr d [] = (Inr (), [])" "tool demo_cr [] ''iverilog'' = Inr ''iverilog''" "dec_str (Suc 0) = ''1''" for p d
    by (simp add: demo_cr_def | code_simp)+
  show ?thesis using build_is_fresh [OF demo_build] by (auto simp: sm)
qed

text \<open>C34: a run hands the simulator the program and reads back what it wrote. When the directory it makes can be written, the
  simulator is started with the time limit, on the image of the build, with the path of a program file that holds the words of
  the program modulo \<open>2 ^ 32\<close>, the path of the result file, the counts and bounds, and for each input that is not empty the path
  of a file with its words and its length. Whatever happens then, the directory is removed: an exception of the process, such as
  the time limit, is raised; without a result file there is an error with the log; and a result file with the three counters and
  some words in hexadecimal gives exactly those words, the cycle count and the two flags.\<close>

theorem run_returns_bench_words:
  assumes "cr_build h m False w = (Inr sim, w1)" "cr_mkdtemp h w1 = (Inr tmp, w2)"
    and "writable_dir h P tmp" "P w2" "\<And>x. P x \<Longrightarrow> tool h x ''vvp'' = Inr vvp"
  shows "\<exists>x args. args = [vvp, sim, ''+PROG='' @ path_join tmp ''prog.hex'', ''+OUT='' @ path_join tmp ''out.txt'',
         ''+NPROG='' @ dec_str (length program), ''+NRES='' @ dec_str n_res, ''+RESBASE='' @ hex_low 8 res_base, ''+MAXCYC='' @ dec_str max_cycles] @
        opt_args tmp ''data.hex'' ''+DATA='' ''+NDATA='' data @ opt_args tmp ''param.hex'' ''+PARAM='' ''+NPARAM='' params @
        opt_args tmp ''wregs.hex'' ''+WREGS='' ''+NWREG='' (flat_regs warp_regs) \<and>
    words_file h x (path_join tmp ''prog.hex'') program \<and>
    (data \<noteq> [] \<longrightarrow> words_file h x (path_join tmp ''data.hex'') data) \<and>
    (params \<noteq> [] \<longrightarrow> words_file h x (path_join tmp ''param.hex'') params) \<and>
    (warp_regs \<noteq> [] \<longrightarrow> words_file h x (path_join tmp ''wregs.hex'') (flat_regs warp_regs)) \<and>
    (\<exists>r y. cr_exec h args (Some timeout_s) x = (r, y) \<and>
      (\<exists>res. cr_run h program n_res data params warp_regs res_base max_cycles timeout_s m w = (res, cr_rmtree h tmp y) \<and>
        (case r of
           Inl e \<Rightarrow> res = Inl e
         | Inr (rc, out, err) \<Rightarrow>
             if \<not> cr_exists h y (path_join tmp ''out.txt'') then
               res = Inl (RuntimeError (''simulation produced no result file:'' @ NL @ out @ err))
             else (\<forall>t c d ws. cr_read h y (path_join tmp ''out.txt'') = Inr (bench_text t c d ws) \<and> list_all (\<lambda>v. 0 \<le> v) ws \<longrightarrow>
               res = Inr \<lparr>r_words = ws, r_cycles = int c, r_timed_out = (t \<noteq> 0), r_pred_divergent = (d \<noteq> 0), r_log = out @ err\<rparr>))))"
proof -
  have "sim_path h m = Inr sim" by (rule cr_build_cases [OF assms(1)])
  then obtain fl where fl: "sm_flavour h = Inr fl" by (auto simp: sim_path_def)
  obtain x where x: "run_args h sim tmp program n_res data params warp_regs res_base max_cycles w2 =
      (Inr ([vvp, sim, ''+PROG='' @ path_join tmp ''prog.hex'', ''+OUT='' @ path_join tmp ''out.txt'', ''+NPROG='' @ dec_str (length program),
         ''+NRES='' @ dec_str n_res, ''+RESBASE='' @ hex_low 8 res_base, ''+MAXCYC='' @ dec_str max_cycles] @
        opt_args tmp ''data.hex'' ''+DATA='' ''+NDATA='' data @ opt_args tmp ''param.hex'' ''+PARAM='' ''+NPARAM='' params @
        opt_args tmp ''wregs.hex'' ''+WREGS='' ''+NWREG='' (flat_regs warp_regs)), x)"
    and files: "words_file h x (path_join tmp ''prog.hex'') program" "data \<noteq> [] \<longrightarrow> words_file h x (path_join tmp ''data.hex'') data"
      "params \<noteq> [] \<longrightarrow> words_file h x (path_join tmp ''param.hex'') params"
      "warp_regs \<noteq> [] \<longrightarrow> words_file h x (path_join tmp ''wregs.hex'') (flat_regs warp_regs)"
    using run_args_ok [OF assms(3,5,4)] by blast
  define args where "args = [vvp, sim, ''+PROG='' @ path_join tmp ''prog.hex'', ''+OUT='' @ path_join tmp ''out.txt'', ''+NPROG='' @ dec_str (length program),
         ''+NRES='' @ dec_str n_res, ''+RESBASE='' @ hex_low 8 res_base, ''+MAXCYC='' @ dec_str max_cycles] @
        opt_args tmp ''data.hex'' ''+DATA='' ''+NDATA='' data @ opt_args tmp ''param.hex'' ''+PARAM='' ''+NPARAM='' params @
        opt_args tmp ''wregs.hex'' ''+WREGS='' ''+NWREG='' (flat_regs warp_regs)"
  obtain r y where r: "cr_exec h args (Some timeout_s) x = (r, y)" by fastforce
  have run: "cr_run h program n_res data params warp_regs res_base max_cycles timeout_s m w =
      (fst (run_in h sim tmp program n_res data params warp_regs res_base max_cycles timeout_s w2),
       cr_rmtree h tmp (snd (run_in h sim tmp program n_res data params warp_regs res_base max_cycles timeout_s w2)))"
    using assms(1,2) by (simp add: cr_run_def case_prod_beta)
  note ri = run_in_def [of h sim tmp program n_res data params warp_regs res_base max_cycles timeout_s w2,
      unfolded x [folded args_def] r prod.case sum.case]
  have "\<exists>res. cr_run h program n_res data params warp_regs res_base max_cycles timeout_s m w = (res, cr_rmtree h tmp y) \<and>
        (case r of
           Inl e \<Rightarrow> res = Inl e
         | Inr (rc, out, err) \<Rightarrow>
             if \<not> cr_exists h y (path_join tmp ''out.txt'') then
               res = Inl (RuntimeError (''simulation produced no result file:'' @ NL @ out @ err))
             else (\<forall>t c d ws. cr_read h y (path_join tmp ''out.txt'') = Inr (bench_text t c d ws) \<and> list_all (\<lambda>v. 0 \<le> v) ws \<longrightarrow>
               res = Inr \<lparr>r_words = ws, r_cycles = int c, r_timed_out = (t \<noteq> 0), r_pred_divergent = (d \<noteq> 0), r_log = out @ err\<rparr>))"
  proof (cases r)
    case (Inl e)
    then show ?thesis unfolding run using ri r by simp
  next
    case (Inr z)
    obtain rc out err where z: "z = (rc, out, err)" by (cases z)
    show ?thesis
    proof (cases "cr_exists h y (path_join tmp ''out.txt'')")
      case True
      then show ?thesis unfolding run using ri r Inr z fl by (auto simp: Let_def parse_bench_text)
    next
      case False
      then show ?thesis unfolding run using ri r Inr z by (simp add: Let_def)
    qed
  qed
  then show ?thesis using files r unfolding args_def by blast
qed

lemma run_returns_bench_words_witness:
  "fst (cr_run demo_cr [0xC8007FF9, - 1] 2 [] [3] [(0, 5, 9)] 0x400000 2000000 1800 1 []) =
    Inr \<lparr>r_words = [0xC8007FF9, 0xFFFFFFFF], r_cycles = int 77, r_timed_out = False, r_pred_divergent = False, r_log = []\<rparr>"
proof -
  have tl: "tool demo_cr x ''vvp'' = Inr ''vvp''" for x by (simp add: demo_cr_def tool_def)
  have mk: "cr_mkdtemp demo_cr w = (Inr ''tmp'', w)" for w by (simp add: demo_cr_def)
  obtain x args r y res where a0: "\<exists>more. args = [''vvp'', ''tb/sim_build/compute/compute_x5_noic_w01.vvp'', ''+PROG='' @ path_join ''tmp'' ''prog.hex'',
        ''+OUT='' @ path_join ''tmp'' ''out.txt''] @ more"
    and f: "words_file demo_cr x (path_join ''tmp'' ''prog.hex'') [0xC8007FF9, - 1]"
    and r: "cr_exec demo_cr args (Some 1800) x = (r, y)"
    and res: "cr_run demo_cr [0xC8007FF9, - 1] 2 [] [3] [(0, 5, 9)] 0x400000 2000000 1800 1 [] = (res, cr_rmtree demo_cr ''tmp'' y)"
      "case r of
           Inl e \<Rightarrow> res = Inl e
         | Inr (rc, out, err) \<Rightarrow>
             if \<not> cr_exists demo_cr y (path_join ''tmp'' ''out.txt'') then
               res = Inl (RuntimeError (''simulation produced no result file:'' @ NL @ out @ err))
             else (\<forall>t c d ws. cr_read demo_cr y (path_join ''tmp'' ''out.txt'') = Inr (bench_text t c d ws) \<and> list_all (\<lambda>v. 0 \<le> v) ws \<longrightarrow>
               res = Inr \<lparr>r_words = ws, r_cycles = int c, r_timed_out = (t \<noteq> 0), r_pred_divergent = (d \<noteq> 0), r_log = out @ err\<rparr>)"
    using run_returns_bench_words [OF demo_build mk demo_writable TrueI tl,
      where program = "[0xC8007FF9, - 1]" and n_res = 2 and data = "[]" and params = "[3]" and warp_regs = "[(0, 5, 9)]"
        and res_base = "0x400000" and max_cycles = 2000000 and timeout_s = 1800]
    by (simp only: append.simps) blast
  then obtain more where a: "args = [''vvp'', ''tb/sim_build/compute/compute_x5_noic_w01.vvp'', ''+PROG=tmp/prog.hex'', ''+OUT=tmp/out.txt''] @ more"
    by (auto simp: path_join_def)
  have "hd args = ''vvp''" "args ! 2 = ''+PROG=tmp/prog.hex''" "args ! 3 = ''+OUT=tmp/out.txt''"
    by (simp_all add: a eval_nat_numeral)
  moreover obtain s where "map_of x ''tmp/prog.hex'' = Some s" "emap read_hex (file_lines [] s) = Inr [0xC8007FF9, 0xFFFFFFFF]"
    using f by (auto simp: path_join_def words_file_def demo_cr_def split: option.splits)
  ultimately have "r = Inr (0, [], [])" "y = (''tmp/out.txt'', bench_text 0 77 0 [0xC8007FF9, 0xFFFFFFFF]) # x"
    using r by (simp_all add: demo_cr_def demo_exec_def)
  then show ?thesis using res by (fastforce simp: demo_cr_def path_join_def)
qed

end
