(* ===== verification/PyRegex.thy ===== *)
theory PyRegex
  imports PyString
begin

text \<open>
  The part of Python's \<^verbatim>\<open>re\<close> module the scripts use: a backtracking matcher that tries alternatives
  from left to right and repetitions greedily or lazily, with capture groups, and on top of it
  \<open>match\<close>, \<open>search\<close>, \<open>finditer\<close> and \<open>sub\<close>. A declarative matching relation says what the matcher finds:
  it returns a match that exists, and nothing only when there is none.
\<close>

section \<open>Patterns\<close>

datatype rx =
    RSet "char \<Rightarrow> bool"
  | REps
  | RSeq rx rx
  | RAlt rx rx
  | RStar bool rx
  | RGroup nat rx
  | RBound
  | RBegin
  | RLine
  | REnd
  | RAhead rx

text \<open>A position: the characters before it (the last one first), those after it, and the groups.\<close>

type_synonym rpos = "string \<times> string \<times> (nat \<Rightarrow> string option)"

abbreviation behind :: "rpos \<Rightarrow> string" where "behind \<equiv> fst"
abbreviation ahead :: "rpos \<Rightarrow> string" where "ahead s \<equiv> fst (snd s)"
abbreviation caps :: "rpos \<Rightarrow> nat \<Rightarrow> string option" where "caps s \<equiv> snd (snd s)"

definition is_word :: "char \<Rightarrow> bool" where
  "is_word c \<longleftrightarrow> (let n = char_code c in
     48 \<le> n \<and> n \<le> 57 \<or> 65 \<le> n \<and> n \<le> 90 \<or> 97 \<le> n \<and> n \<le> 122 \<or> n = 95 \<or>
     n \<in> set [170, 178, 179, 181, 185, 186, 188, 189, 190] \<or> 192 \<le> n \<and> n \<noteq> 215 \<and> n \<noteq> 247)"

definition first_is :: "(char \<Rightarrow> bool) \<Rightarrow> string \<Rightarrow> bool" where
  "first_is P s = (case s of [] \<Rightarrow> False | c # _ \<Rightarrow> P c)"

lemma first_is_simps [simp]: "first_is P [] = False" "first_is P (c # cs) = P c"
  by (simp_all add: first_is_def)

text \<open>The text consumed between two positions.\<close>

definition consumed :: "rpos \<Rightarrow> rpos \<Rightarrow> string" where
  "consumed s t = take (length (ahead s) - length (ahead t)) (ahead s)"

definition or_else :: "'a option \<Rightarrow> 'a option \<Rightarrow> 'a option" where
  "or_else a b = (case a of None \<Rightarrow> b | Some x \<Rightarrow> Some x)"

lemma or_else_simps [simp]: "or_else None b = b" "or_else (Some x) b = Some x" "or_else a None = a"
  by (simp_all add: or_else_def split: option.splits)

lemma or_else_None: "or_else a b = None \<longleftrightarrow> a = None \<and> b = None"
  by (simp add: or_else_def split: option.splits)

section \<open>The matcher\<close>

text \<open>An iteration that consumes nothing is not repeated.\<close>

fun rep :: "nat \<Rightarrow> bool \<Rightarrow> ((rpos \<Rightarrow> rpos option) \<Rightarrow> rpos \<Rightarrow> rpos option) \<Rightarrow> (rpos \<Rightarrow> rpos option) \<Rightarrow> rpos \<Rightarrow> rpos option" where
  "rep 0 g f k s = k s"
| "rep (Suc n) g f k s =
    (let more = f (\<lambda>t. if length (ahead t) < length (ahead s) then rep n g f k t else None) in
     if g then or_else (more s) (k s) else or_else (k s) (more s))"

primrec mt :: "rx \<Rightarrow> (rpos \<Rightarrow> rpos option) \<Rightarrow> rpos \<Rightarrow> rpos option" where
  "mt (RSet P) k s = (case ahead s of [] \<Rightarrow> None | c # cs \<Rightarrow> if P c then k (c # behind s, cs, caps s) else None)"
| "mt REps k s = k s"
| "mt (RSeq a b) k s = mt a (mt b k) s"
| "mt (RAlt a b) k s = or_else (mt a k s) (mt b k s)"
| "mt (RStar g a) k s = rep (length (ahead s)) g (mt a) k s"
| "mt (RGroup n a) k s = mt a (\<lambda>t. k (behind t, ahead t, (caps t)(n \<mapsto> consumed s t))) s"
| "mt RBound k s = (if first_is is_word (behind s) \<noteq> first_is is_word (ahead s) then k s else None)"
| "mt RBegin k s = (if behind s = [] then k s else None)"
| "mt RLine k s = (if behind s = [] \<or> first_is (\<lambda>c. c = CHR 0x0A) (behind s) then k s else None)"
| "mt REnd k s = (if ahead s = [] \<or> ahead s = NL then k s else None)"
| "mt (RAhead a) k s = (case mt a Some s of None \<Rightarrow> None | Some t \<Rightarrow> k s)"

lemma mt_seq [simp]: "mt (RSeq a b) k = mt a (mt b k)"
  by (rule ext) simp

definition rx_at :: "rx \<Rightarrow> string \<Rightarrow> string \<Rightarrow> rpos option" where
  "rx_at r pre rest = mt r Some (pre, rest, \<lambda>_. None)"

definition re_match :: "rx \<Rightarrow> string \<Rightarrow> rpos option" where
  "re_match r s = rx_at r [] s"

fun search_from :: "rx \<Rightarrow> string \<Rightarrow> string \<Rightarrow> rpos option" where
  "search_from r pre [] = rx_at r pre []"
| "search_from r pre (c # cs) = (case rx_at r pre (c # cs) of Some t \<Rightarrow> Some t | None \<Rightarrow> search_from r (c # pre) cs)"

definition re_search :: "rx \<Rightarrow> string \<Rightarrow> rpos option" where
  "re_search r s = search_from r [] s"

text \<open>\<open>finditer\<close>: matches that consume something, from left to right.\<close>

function find_from :: "rx \<Rightarrow> string \<Rightarrow> string \<Rightarrow> rpos list" where
  "find_from r pre [] = []"
| "find_from r pre (c # cs) =
    (case rx_at r pre (c # cs) of
       Some t \<Rightarrow> if length (ahead t) \<le> length cs then t # find_from r (behind t) (ahead t)
                 else find_from r (c # pre) cs
     | None \<Rightarrow> find_from r (c # pre) cs)"
  by pat_completeness auto
termination by (relation "measure (\<lambda>(r, pre, rest). length rest)") auto

definition re_finditer :: "rx \<Rightarrow> string \<Rightarrow> rpos list" where
  "re_finditer r s = find_from r [] s"

text \<open>\<open>sub\<close> with the empty text.\<close>

function del_from :: "rx \<Rightarrow> string \<Rightarrow> string \<Rightarrow> string" where
  "del_from r pre [] = []"
| "del_from r pre (c # cs) =
    (case rx_at r pre (c # cs) of
       Some t \<Rightarrow> if length (ahead t) \<le> length cs then del_from r (behind t) (ahead t)
                 else c # del_from r (c # pre) cs
     | None \<Rightarrow> c # del_from r (c # pre) cs)"
  by pat_completeness auto
termination by (relation "measure (\<lambda>(r, pre, rest). length rest)") auto

definition re_delete :: "rx \<Rightarrow> string \<Rightarrow> string" where
  "re_delete r s = del_from r [] s"

definition mgroup :: "rpos \<Rightarrow> nat \<Rightarrow> string" where
  "mgroup t n = (case caps t n of None \<Rightarrow> [] | Some s \<Rightarrow> s)"

section \<open>Shorthands\<close>

definition rx_lit :: "string \<Rightarrow> rx" where
  "rx_lit s = foldr (\<lambda>c r. RSeq (RSet (\<lambda>d. d = c)) r) s REps"

fun rx_seq :: "rx list \<Rightarrow> rx" where
  "rx_seq [] = REps"
| "rx_seq [r] = r"
| "rx_seq (r # q # rs) = RSeq r (rx_seq (q # rs))"

fun rx_alts :: "rx list \<Rightarrow> rx" where
  "rx_alts [] = RSet (\<lambda>_. False)"
| "rx_alts [r] = r"
| "rx_alts (r # q # rs) = RAlt r (rx_alts (q # rs))"

definition rx_opt :: "rx \<Rightarrow> rx" where "rx_opt r = RAlt r REps"
definition rx_many :: "(char \<Rightarrow> bool) \<Rightarrow> rx" where "rx_many P = RStar True (RSet P)"
definition rx_some :: "(char \<Rightarrow> bool) \<Rightarrow> rx" where "rx_some P = RSeq (RSet P) (RStar True (RSet P))"
definition rx_many_lazy :: "(char \<Rightarrow> bool) \<Rightarrow> rx" where "rx_many_lazy P = RStar False (RSet P)"
definition rx_some_lazy :: "(char \<Rightarrow> bool) \<Rightarrow> rx" where "rx_some_lazy P = RSeq (RSet P) (RStar False (RSet P))"
definition non_space :: "char \<Rightarrow> bool" where "non_space c \<longleftrightarrow> \<not> is_space c"

lemmas rx_short = rx_opt_def rx_many_def rx_some_def rx_many_lazy_def rx_some_lazy_def

section \<open>What the matcher finds\<close>

inductive rxm :: "rx \<Rightarrow> rpos \<Rightarrow> rpos \<Rightarrow> bool" where
  rxm_set: "P c \<Longrightarrow> rxm (RSet P) (p, c # cs, g) (c # p, cs, g)"
| rxm_eps: "rxm REps s s"
| rxm_seq: "rxm a s t \<Longrightarrow> rxm b t u \<Longrightarrow> rxm (RSeq a b) s u"
| rxm_left: "rxm a s t \<Longrightarrow> rxm (RAlt a b) s t"
| rxm_right: "rxm b s t \<Longrightarrow> rxm (RAlt a b) s t"
| rxm_done: "rxm (RStar g a) s s"
| rxm_more: "rxm a s t \<Longrightarrow> length (ahead t) < length (ahead s) \<Longrightarrow> rxm (RStar g a) t u \<Longrightarrow> rxm (RStar g a) s u"
| rxm_group: "rxm a s t \<Longrightarrow> rxm (RGroup n a) s (behind t, ahead t, (caps t)(n \<mapsto> consumed s t))"
| rxm_bound: "first_is is_word (behind s) \<noteq> first_is is_word (ahead s) \<Longrightarrow> rxm RBound s s"
| rxm_begin: "behind s = [] \<Longrightarrow> rxm RBegin s s"
| rxm_line: "behind s = [] \<or> first_is (\<lambda>c. c = CHR 0x0A) (behind s) \<Longrightarrow> rxm RLine s s"
| rxm_end: "ahead s = [] \<or> ahead s = NL \<Longrightarrow> rxm REnd s s"
| rxm_ahead: "rxm a s t \<Longrightarrow> rxm (RAhead a) s s"

inductive_cases rxm_setE: "rxm (RSet P) s t"
inductive_cases rxm_epsE: "rxm REps s t"
inductive_cases rxm_seqE: "rxm (RSeq a b) s t"
inductive_cases rxm_altE: "rxm (RAlt a b) s t"
inductive_cases rxm_starE: "rxm (RStar g a) s t"
inductive_cases rxm_groupE: "rxm (RGroup n a) s t"
inductive_cases rxm_boundE: "rxm RBound s t"
inductive_cases rxm_beginE: "rxm RBegin s t"
inductive_cases rxm_lineE: "rxm RLine s t"
inductive_cases rxm_endE: "rxm REnd s t"
inductive_cases rxm_aheadE: "rxm (RAhead a) s t"

lemma rep_sound:
  assumes "\<And>k s x. f k s = Some x \<Longrightarrow> \<exists>t. rxm a s t \<and> k t = Some x"
  shows "rep n g f k s = Some x \<Longrightarrow> \<exists>t. rxm (RStar g a) s t \<and> k t = Some x"
proof (induction n arbitrary: s)
  case 0
  then show ?case using rxm_done by (metis rep.simps(1))
next
  case (Suc n)
  have "\<exists>t. rxm (RStar g a) s t \<and> k t = Some x"
    if m: "f (\<lambda>t. if length (ahead t) < length (ahead s) then rep n g f k t else None) s = Some x"
  proof -
    obtain t where t: "rxm a s t" "length (ahead t) < length (ahead s)" "rep n g f k t = Some x"
      using assms [OF m] by (auto split: if_splits)
    then show ?thesis using Suc.IH by (meson rxm_more)
  qed
  moreover have "\<exists>t. rxm (RStar g a) s t \<and> k t = Some x" if "k s = Some x" using that rxm_done by blast
  moreover have "f (\<lambda>t. if length (ahead t) < length (ahead s) then rep n g f k t else None) s = Some x \<or> k s = Some x"
    using Suc.prems by (simp add: Let_def or_else_def split: if_splits option.splits)
  ultimately show ?case by blast
qed

theorem mt_sound: "mt r k s = Some x \<Longrightarrow> \<exists>t. rxm r s t \<and> k t = Some x"
proof (induction r arbitrary: k s x)
  case (RSet P)
  obtain p q g where s: "s = (p, q, g)" by (metis prod.collapse)
  show ?case using RSet by (auto simp: s split: list.splits if_splits intro!: exI rxm_set)
next
  case (RSeq a b)
  then show ?case by (metis mt.simps(3) rxm_seq)
next
  case (RAlt a b)
  then show ?case by (metis mt.simps(4) or_else_simps(1,2) not_Some_eq rxm_left rxm_right)
next
  case (RStar g a)
  then show ?case using rep_sound [of "mt a" a] by (metis mt.simps(5))
next
  case (RGroup n a)
  obtain t where "rxm a s t" "k (behind t, ahead t, (caps t)(n \<mapsto> consumed s t)) = Some x"
    using RGroup.IH RGroup.prems by (metis (no_types, lifting) mt.simps(6))
  then show ?case using rxm_group by blast
next
  case (RAhead a)
  then show ?case by (metis (no_types, lifting) mt.simps(11) option.case_eq_if option.collapse option.simps(3) rxm_ahead)
next
  case REps
  then show ?case using rxm_eps by (metis mt.simps(2))
next
  case RBound
  then show ?case using rxm_bound by (metis mt.simps(7) option.simps(3))
next
  case RBegin
  then show ?case using rxm_begin by (metis mt.simps(8) option.simps(3))
next
  case RLine
  then show ?case using rxm_line by (metis mt.simps(9) option.simps(3))
next
  case REnd
  then show ?case using rxm_end by (metis mt.simps(10) option.simps(3))
qed

lemma rxm_shorter: "rxm r s t \<Longrightarrow> length (ahead t) \<le> length (ahead s)"
  by (induction rule: rxm.induct) auto

lemma rep_complete:
  assumes f: "\<And>k s t. f k s = None \<Longrightarrow> rxm a s t \<Longrightarrow> k t = None"
    and m: "rxm (RStar g a) s t" "rep n g f k s = None" "length (ahead s) \<le> n"
  shows "k t = None"
  using m
proof (induction "RStar g a" s t arbitrary: n rule: rxm.induct)
  case (rxm_done s)
  then show ?case by (cases n) (auto simp: Let_def or_else_None split: if_splits)
next
  case (rxm_more s t u)
  obtain n' where n: "n = Suc n'" using rxm_more.hyps(3) rxm_more.prems(2) by (cases n) auto
  then have "f (\<lambda>t. if length (ahead t) < length (ahead s) then rep n' g f k t else None) s = None"
    using rxm_more.prems by (auto simp: Let_def or_else_None split: if_splits)
  from f [OF this rxm_more.hyps(1)] have "rep n' g f k t = None" using rxm_more.hyps(3) by simp
  then show ?case using rxm_more.hyps rxm_more.prems n by simp
qed

theorem mt_complete: "mt r k s = None \<Longrightarrow> rxm r s t \<Longrightarrow> k t = None"
proof (induction r arbitrary: k s t)
  case (RStar g a)
  then show ?case using rep_complete [of "mt a" a g s t] by (metis mt.simps(5) order_refl)
next
  case (RAhead a)
  from RAhead.prems(2) obtain u where u: "t = s" "rxm a s u" by (cases rule: rxm_aheadE)
  then have "mt a Some s \<noteq> None" using RAhead.IH [of Some s u] by (metis option.simps(3))
  then obtain v where "mt a Some s = Some v" by blast
  then show ?case using RAhead.prems(1) u by simp
next
  case (RGroup n a)
  from RGroup.prems(2) obtain u where "rxm a s u" "t = (behind u, ahead u, (caps u)(n \<mapsto> consumed s u))"
    by (cases rule: rxm_groupE)
  then show ?case using RGroup.IH [OF RGroup.prems(1) [unfolded mt.simps]] by simp
next
  case (RSeq a b)
  from RSeq.prems(2) obtain u where "rxm a s u" "rxm b u t" by (cases rule: rxm_seqE)
  then show ?case using RSeq.IH(1) [OF RSeq.prems(1) [unfolded mt.simps]] RSeq.IH(2) by blast
next
  case (RAlt a b)
  have n: "mt a k s = None" "mt b k s = None" using RAlt.prems(1) by (simp_all add: or_else_None)
  from RAlt.prems(2) have "rxm a s t \<or> rxm b s t" by (cases rule: rxm_altE) blast+
  then show ?case using RAlt.IH(1) [OF n(1)] RAlt.IH(2) [OF n(2)] by blast
next
  case (RSet P)
  from RSet.prems(2) obtain c p cs g where "s = (p, c # cs, g)" "t = (c # p, cs, g)" "P c" by (rule rxm_setE)
  then show ?case using RSet.prems(1) by simp
next
  case REps
  from REps.prems(2) show ?case by (rule rxm_epsE) (insert REps.prems(1), auto)
next
  case RBound
  from RBound.prems(2) show ?case by (rule rxm_boundE) (insert RBound.prems(1), auto)
next
  case RBegin
  from RBegin.prems(2) show ?case by (rule rxm_beginE) (insert RBegin.prems(1), auto)
next
  case RLine
  from RLine.prems(2) show ?case by (rule rxm_lineE) (insert RLine.prems(1), auto)
next
  case REnd
  from REnd.prems(2) show ?case by (rule rxm_endE) (insert REnd.prems(1), auto)
qed

end
