(* ===== verification/BpSource.thy ===== *)
theory BpSource
  imports PyRegex "HOL-Library.Product_Lexorder"
begin

text \<open>
  The reader of Verilog text in \<^verbatim>\<open>tools/gen_blueprint.py\<close>: comments, module bodies, port and parameter
  lists, the instantiation graph and the modules reachable in it, and the tables read from comments.
  The patterns are terms of \<open>PyRegex\<close>, in the order the source writes them; texts are made of one-byte
  characters.
\<close>

section \<open>Comments and modules\<close>

definition rx_line_comment :: rx where
  "rx_line_comment = rx_seq [rx_lit ''//'', rx_many (\<lambda>c. c \<noteq> CHR 0x0A)]"

definition rx_block_comment :: rx where
  "rx_block_comment = rx_seq [rx_lit ''/*'', rx_many_lazy (\<lambda>_. True), rx_lit ''*/'']"

definition strip_comments :: "string \<Rightarrow> string" where
  "strip_comments s = re_delete rx_block_comment (re_delete rx_line_comment s)"

text \<open>The text before the first occurrence of \<open>t\<close> and the text from there on.\<close>

fun split_on :: "string \<Rightarrow> string \<Rightarrow> (string \<times> string) option" where
  "split_on t [] = (if t = [] then Some ([], []) else None)"
| "split_on t (c # cs) =
    (if prefix_of t (c # cs) then Some ([], c # cs)
     else map_option (\<lambda>(a, b). (c # a, b)) (split_on t cs))"

type_synonym bodies = "(string \<times> string \<times> string) list"

text \<open>Assigning to a key of a dictionary keeps its place.\<close>

fun dict_set :: "'k \<Rightarrow> 'v \<Rightarrow> ('k \<times> 'v) list \<Rightarrow> ('k \<times> 'v) list" where
  "dict_set k v [] = [(k, v)]"
| "dict_set k v ((k', v') # d) = (if k' = k then (k, v) # d else (k', v') # dict_set k v d)"

definition rx_module :: rx where
  "rx_module = rx_seq [RBound, rx_lit ''module'', rx_some is_space, RGroup 1 (rx_some is_word)]"

definition module_body :: "string \<Rightarrow> string" where
  "module_body s = (case split_on ''endmodule'' s of Some (a, b) \<Rightarrow> a | None \<Rightarrow> s)"

definition module_bodies :: "string \<Rightarrow> string \<Rightarrow> bodies" where
  "module_bodies path text =
    fold (\<lambda>m. dict_set (mgroup m 1) (module_body (ahead m), path)) (re_finditer rx_module (strip_comments text)) []"

section \<open>Ports and parameters\<close>

text \<open>The text up to the parenthesis that closes the first one, and the text from there on.\<close>

fun paren_run :: "int \<Rightarrow> string \<Rightarrow> string \<times> string" where
  "paren_run d [] = ([], [])"
| "paren_run d (c # cs) =
    (if c = CHR ''('' then (let r = paren_run (d + 1) cs in (c # fst r, snd r))
     else if c = CHR '')'' then
       (if d - 1 = 0 then ([], c # cs) else (let r = paren_run (d - 1) cs in (c # fst r, snd r)))
     else (let r = paren_run d cs in (c # fst r, snd r)))"

definition from_paren :: "string \<Rightarrow> string" where
  "from_paren s = dropWhile (\<lambda>c. c \<noteq> CHR ''('') s"

definition rx_port :: rx where
  "rx_port = rx_seq [RBound, RGroup 1 (rx_alts [rx_lit ''input'', rx_lit ''output'', rx_lit ''inout'']), RBound,
     rx_many is_space, rx_opt (rx_alts [rx_lit ''wire'', rx_lit ''reg'', rx_lit ''logic'']),
     rx_many is_space, rx_opt (rx_seq [rx_lit ''signed'', rx_many is_space]),
     rx_opt (RGroup 2 (rx_seq [rx_lit ''['', rx_many (\<lambda>c. c \<noteq> CHR '']''), rx_lit '']''])),
     rx_many is_space, RGroup 3 (rx_some is_word)]"

definition header_ports :: "string \<Rightarrow> (string \<times> string \<times> string) list" where
  "header_ports header = map (\<lambda>m. (mgroup m 1, py_strip (mgroup m 2), mgroup m 3)) (re_finditer rx_port header)"

definition parse_ports :: "string \<Rightarrow> (string \<times> string \<times> string) list" where
  "parse_ports body =
    (let s = from_paren body;
         s' = (if suffix_of ''#'' (py_rstrip (takeWhile (\<lambda>c. c \<noteq> CHR ''('') body))
               then from_paren (List.tl (snd (paren_run 0 s))) else s)
     in if s = [] then [] else if s' = [] then [] else header_ports (List.tl (fst (paren_run 0 s'))))"

definition rx_param :: rx where
  "rx_param = rx_seq [rx_lit ''parameter'', rx_some is_space,
     rx_opt (rx_seq [rx_lit ''['', rx_many (\<lambda>c. c \<noteq> CHR '']''), rx_lit '']'', rx_many is_space]),
     RGroup 1 (rx_some is_word), rx_many is_space, rx_lit ''='', rx_many is_space,
     RGroup 2 (rx_some_lazy (\<lambda>c. c \<noteq> CHR '','')),
     RAhead (rx_alts [rx_seq [rx_lit '','', rx_many is_space, rx_alts [rx_lit ''parameter'', REnd]], REnd])]"

definition parse_params :: "string \<Rightarrow> (string \<times> string) list" where
  "parse_params body =
    (case split_on ''#('' body of None \<Rightarrow> []
     | Some (a, s) \<Rightarrow> map (\<lambda>m. (mgroup m 1, py_strip (mgroup m 2)))
         (re_finditer rx_param (List.tl (fst (paren_run 0 (List.tl s))))))"

section \<open>The instantiation graph\<close>

definition KW :: "string list" where
  "KW = [''module'', ''endmodule'', ''input'', ''output'', ''inout'', ''wire'', ''reg'', ''assign'',
    ''always'', ''begin'', ''end'', ''if'', ''else'', ''for'', ''case'', ''endcase'',
    ''generate'', ''endgenerate'', ''genvar'', ''integer'', ''parameter'', ''localparam'',
    ''function'', ''endfunction'', ''task'', ''endtask'', ''initial'', ''posedge'',
    ''negedge'', ''default'', ''real'', ''time'', ''signed'', ''unsigned'', ''while'',
    ''repeat'', ''forever'', ''casez'', ''casex'', ''endspecify'', ''specify'']"

definition rx_instance :: rx where
  "rx_instance = rx_seq [RBound, RGroup 1 (rx_some is_word), rx_many is_space,
     rx_opt (rx_seq [rx_lit ''#'', rx_many is_space, rx_lit ''('',
       RStar True (RAlt (RSet (\<lambda>c. c \<noteq> CHR ''('' \<and> c \<noteq> CHR '')''))
         (rx_seq [rx_lit ''('', rx_many (\<lambda>c. c \<noteq> CHR ''('' \<and> c \<noteq> CHR '')''), rx_lit '')''])),
       rx_lit '')'', rx_many is_space]),
     RGroup 2 (rx_some is_word), rx_many is_space, rx_lit ''('']"

definition child_modules :: "bodies \<Rightarrow> string \<Rightarrow> string \<Rightarrow> string list" where
  "child_modules bodies parent body =
    remdups (map (\<lambda>m. mgroup m 1)
      (filter (\<lambda>m. let child = mgroup m 1; inst = mgroup m 2 in
           child \<in> set (map fst bodies) \<and> child \<noteq> parent \<and> inst \<notin> set KW \<and> child \<notin> set KW)
         (re_finditer rx_instance body)))"

definition edges_of :: "bodies \<Rightarrow> (string \<times> string list) list" where
  "edges_of bodies = map (\<lambda>(parent, body, path). (parent, child_modules bodies parent body)) bodies"

definition succs :: "('a \<times> 'a list) list \<Rightarrow> 'a \<Rightarrow> 'a list" where
  "succs es x = (case map_of es x of None \<Rightarrow> [] | Some ys \<Rightarrow> ys)"

lemma succs_nonempty: "succs es x \<noteq> [] \<Longrightarrow> x \<in> fst ` set es"
  by (auto simp: succs_def split: option.splits dest!: map_of_SomeD intro: rev_image_eqI)

text \<open>The stack is popped at its end, which is the head of the list here; \<open>ord\<close> is the order in which a
  set is iterated.\<close>

function walk :: "('a list \<Rightarrow> 'a list) \<Rightarrow> ('a \<times> 'a list) list \<Rightarrow> 'a list \<Rightarrow> 'a list \<Rightarrow> 'a list" where
  "walk ord es seen [] = seen"
| "walk ord es seen (x # stack) =
    (if x \<in> set seen then walk ord es seen stack
     else walk ord es (x # seen) (if succs es x = [] then stack else rev (ord (succs es x)) @ stack))"
  by pat_completeness auto
termination
proof (relation "inv_image (less_than <*lex*> less_than) (\<lambda>(ord, es, seen, stack). (card (fst ` set es - set seen), length stack))")
  fix ord :: "'a list \<Rightarrow> 'a list" and es :: "('a \<times> 'a list) list" and seen stack :: "'a list" and x :: 'a
  assume x: "x \<notin> set seen"
  show "((ord, es, x # seen, if succs es x = [] then stack else rev (ord (succs es x)) @ stack), ord, es, seen, x # stack)
      \<in> inv_image (less_than <*lex*> less_than) (\<lambda>(ord, es, seen, stack). (card (fst ` set es - set seen), length stack))"
  proof (cases "x \<in> fst ` set es")
    case True
    then have "card (fst ` set es - set (x # seen)) < card (fst ` set es - set seen)"
      using x by (intro psubset_card_mono) auto
    then show ?thesis by simp
  next
    case False
    then have "succs es x = []" "fst ` set es - set (x # seen) = fst ` set es - set seen" using succs_nonempty [of es x] by auto
    then show ?thesis by simp
  qed
qed auto

text \<open>The files of the modules that are reached, sorted, and the modules.\<close>

definition body_of :: "bodies \<Rightarrow> string \<Rightarrow> (string \<times> string) option" where
  "body_of bodies m = map_of bodies m"

definition reachable_files :: "(string list \<Rightarrow> string list) \<Rightarrow> bodies \<Rightarrow> string \<Rightarrow> string list \<times> string list" where
  "reachable_files ord bodies root =
    (let seen = walk ord (edges_of bodies) [] [root] in
     (sort (remdups (List.map_filter (\<lambda>m. map_option snd (body_of bodies m)) seen)), seen))"

section \<open>Tables read from the text\<close>

definition rx_inst_params :: "string \<Rightarrow> rx" where
  "rx_inst_params child = rx_seq [rx_lit child, rx_many is_space, rx_lit ''#'', rx_many is_space, rx_lit ''('',
     RGroup 1 (rx_many_lazy (\<lambda>_. True)), rx_lit '')'', rx_many is_space, rx_some is_word, rx_many is_space, rx_lit ''('']"

definition rx_override :: rx where
  "rx_override = rx_seq [rx_lit ''.'', RGroup 1 (rx_some is_word), rx_many is_space, rx_lit ''('', rx_many is_space,
     RGroup 2 (rx_many_lazy (\<lambda>c. c \<noteq> CHR ''('' \<and> c \<noteq> CHR '')'')), rx_many is_space, rx_lit '')'']"

definition inst_params :: "bodies \<Rightarrow> string \<Rightarrow> string \<Rightarrow> (string \<times> string) list" where
  "inst_params bodies parent child =
    (let body = (case body_of bodies parent of None \<Rightarrow> [] | Some (b, p) \<Rightarrow> b) in
     case re_search (rx_inst_params child) body of
       None \<Rightarrow> []
     | Some m \<Rightarrow> fold (\<lambda>t. dict_set (mgroup t 1) (py_strip (mgroup t 2))) (re_finditer rx_override (mgroup m 1)) [])"

definition digits_val :: "string \<Rightarrow> nat" where
  "digits_val s = foldl (\<lambda>a c. 10 * a + (char_code c - 48)) 0 s"

definition rx_isa_op :: rx where
  "rx_isa_op = rx_seq [rx_lit ''TX6_OP_'', RGroup 1 (rx_some is_word), rx_many is_space, rx_lit ''='', rx_many is_space,
     RGroup 2 (rx_some is_digit), rx_many is_space, rx_opt (rx_lit '',''), rx_many is_space,
     rx_opt (rx_seq [rx_lit ''//'', rx_many is_space,
       RGroup 3 (rx_many (\<lambda>c. c \<noteq> CHR 0x0D \<and> c \<noteq> CHR 0x0A))])]"

definition isa_table :: "string \<Rightarrow> (nat \<times> string \<times> string) list" where
  "isa_table src = sort (map (\<lambda>m. (digits_val (mgroup m 2), mgroup m 1, py_strip (mgroup m 3))) (re_finditer rx_isa_op src))"

definition rx_master :: rx where
  "rx_master = rx_seq [rx_lit ''//'', rx_many is_space, rx_lit ''master'', rx_opt (rx_lit ''s''), rx_some is_space,
     RGroup 1 (rx_some is_digit),
     rx_opt (rx_seq [rx_many is_space, rx_some (\<lambda>c. c \<in> set ''-toand''), rx_many is_space, RGroup 2 (rx_some is_digit)]),
     rx_many is_space, rx_lit '':'', rx_many is_space,
     RGroup 3 (rx_some (\<lambda>c. c \<noteq> CHR 0x0D \<and> c \<noteq> CHR 0x0A))]"

definition strip_dots :: "string \<Rightarrow> string" where
  "strip_dots s = rev (dropWhile (\<lambda>c. c = CHR ''.'') (rev s))"

definition xbar_masters :: "string \<Rightarrow> (nat \<times> nat \<times> string) list" where
  "xbar_masters top_body =
    sort (map (\<lambda>m. let lo = digits_val (mgroup m 1); hi = (if mgroup m 2 \<noteq> [] then digits_val (mgroup m 2) else lo) in
                (lo, hi, take 80 (strip_dots (py_strip (mgroup m 3)))))
         (re_finditer rx_master top_body))"

text \<open>A number with commas between its thousands.\<close>

fun commas :: "string \<Rightarrow> string" where
  "commas (a # b # c # d # rest) = a # b # c # CHR '','' # commas (d # rest)"
| "commas s = s"

definition fmt_int :: "nat \<Rightarrow> string" where
  "fmt_int n = rev (commas (rev (dec_str n)))"

end
