(* ===== verification/BpStat.thy ===== *)
theory BpStat
  imports BpSource
begin

text \<open>
  The elaborated hierarchy in \<^verbatim>\<open>tools/gen_blueprint.py\<close>: the reader of the statistics Yosys prints, the
  instance counts of the whole chip, their folding by base name, and the tree that is drawn.
\<close>

section \<open>Names\<close>

definition rx_paramod :: rx where
  "rx_paramod = rx_seq [RBegin, rx_lit ''$paramod'', rx_many (\<lambda>c. c \<noteq> CHR 0x5C), rx_lit [CHR 0x5C], RGroup 1 (rx_some is_word)]"

definition base_module :: "string \<Rightarrow> string" where
  "base_module name = (case re_match rx_paramod name of Some m \<Rightarrow> mgroup m 1 | None \<Rightarrow> name)"

section \<open>Statistics\<close>

record mod_stat =
  ms_ports :: nat
  ms_port_bits :: nat
  ms_cells :: nat
  ms_wire_bits :: nat
  ms_subs :: "(string \<times> nat) list"

definition empty_stat :: mod_stat where
  "empty_stat = \<lparr>ms_ports = 0, ms_port_bits = 0, ms_cells = 0, ms_wire_bits = 0, ms_subs = []\<rparr>"

type_synonym mods = "(string \<times> mod_stat) list"

text \<open>A \<open>Counter\<close>: adding to a missing key starts from zero, at the end.\<close>

definition dict_get :: "'v \<Rightarrow> 'k \<Rightarrow> ('k \<times> 'v) list \<Rightarrow> 'v" where
  "dict_get d k m = (case map_of m k of None \<Rightarrow> d | Some v \<Rightarrow> v)"

definition count_add :: "'k \<Rightarrow> nat \<Rightarrow> ('k \<times> nat) list \<Rightarrow> ('k \<times> nat) list" where
  "count_add k n c = dict_set k (dict_get 0 k c + n) c"

definition strip_slashes :: "string \<Rightarrow> string" where
  "strip_slashes s = dropWhile (\<lambda>c. c = CHR 0x5C) s"

definition HIER :: string where "HIER = ''=== design hierarchy ===''"

definition rx_head :: rx where
  "rx_head = rx_seq [RBegin, rx_lit ''=== '', RGroup 1 (rx_some non_space), rx_lit '' ==='']"

definition rx_subs :: rx where
  "rx_subs = rx_seq [RBegin, rx_some is_space, rx_some is_digit, rx_some is_space, rx_lit ''submodules'', rx_many is_space, REnd]"

definition rx_port_bits :: rx where
  "rx_port_bits = rx_seq [RBegin, rx_some is_space, RGroup 1 (rx_some is_digit), rx_some is_space, rx_lit ''port bits'', rx_many is_space, REnd]"

definition rx_wire_bits :: rx where
  "rx_wire_bits = rx_seq [RBegin, rx_some is_space, RGroup 1 (rx_some is_digit), rx_some is_space, rx_lit ''wire bits'', rx_many is_space, REnd]"

definition rx_row :: rx where
  "rx_row = rx_seq [RBegin, rx_some is_space, RGroup 1 (rx_some is_digit), rx_some is_space, RGroup 2 (rx_some non_space), rx_many is_space, REnd]"

text \<open>The loop keeps the modules read so far, the current one and whether its submodules are listed.\<close>

type_synonym stat_state = "mods \<times> string option \<times> bool"

definition upd_cur :: "string \<Rightarrow> (mod_stat \<Rightarrow> mod_stat) \<Rightarrow> mods \<Rightarrow> mods" where
  "upd_cur cur f mods = dict_set cur (f (dict_get empty_stat cur mods)) mods"

definition stat_line :: "string \<Rightarrow> stat_state \<Rightarrow> stat_state" where
  "stat_line line st = (case st of (mods, cur, in_subs) \<Rightarrow>
    (case re_match rx_head line of
       Some m \<Rightarrow> (let k = strip_slashes (mgroup m 1) in
          (if k \<in> set (map fst mods) then mods else dict_set k empty_stat mods, Some k, False))
     | None \<Rightarrow>
    (case cur of None \<Rightarrow> st | Some k \<Rightarrow>
      if re_match rx_subs line \<noteq> None then (mods, cur, True) else
      (case re_match rx_port_bits line of
         Some m \<Rightarrow> (upd_cur k (ms_port_bits_update (\<lambda>_. digits_val (mgroup m 1))) mods, cur, False)
       | None \<Rightarrow>
      (case re_match rx_wire_bits line of
         Some m \<Rightarrow> (upd_cur k (ms_wire_bits_update (\<lambda>_. digits_val (mgroup m 1))) mods, cur, False)
       | None \<Rightarrow>
      (case re_match rx_row line of
         Some m \<Rightarrow> (let n = digits_val (mgroup m 1); what = mgroup m 2 in
           (if in_subs then upd_cur k (ms_subs_update (count_add (strip_slashes what) n)) mods
            else if what = ''ports'' then upd_cur k (ms_ports_update (\<lambda>_. n)) mods
            else if what = ''cells'' then upd_cur k (ms_cells_update (\<lambda>_. n)) mods
            else mods, cur, in_subs))
       | None \<Rightarrow> (mods, cur, if py_strip line \<noteq> [] then False else in_subs)))))))"

fun stat_lines :: "string list \<Rightarrow> stat_state \<Rightarrow> stat_state" where
  "stat_lines [] st = st"
| "stat_lines (line # ls) st = (if prefix_of HIER line then st else stat_lines ls (stat_line line st))"

definition parse_stat :: "string \<Rightarrow> mods" where
  "parse_stat text = fst (stat_lines (py_splitlines text) ([], None, False))"

definition rx_total :: "string \<Rightarrow> rx" where
  "rx_total root = rx_seq [RBegin, rx_some is_space, RGroup 1 (rx_some is_digit), rx_some is_space, rx_lit root, rx_many is_space, REnd]"

definition parse_design_total :: "string \<Rightarrow> string \<Rightarrow> nat option" where
  "parse_design_total text root =
    (case split_on HIER text of None \<Rightarrow> None
     | Some (a, s) \<Rightarrow>
        (case List.map_filter (re_match (rx_total root)) (py_splitlines (drop (length HIER) s)) of
           [] \<Rightarrow> None | m # _ \<Rightarrow> Some (digits_val (mgroup m 1))))"

section \<open>Instance counts\<close>

type_synonym counter = "(string \<times> nat) list"

definition subs_of :: "mods \<Rightarrow> string \<Rightarrow> counter" where
  "subs_of mods m = (case map_of mods m of None \<Rightarrow> [] | Some s \<Rightarrow> ms_subs s)"

text \<open>\<open>under\<close> with its memo; the fuel bounds the depth of the recursion, which the memo keeps below the
  number of modules.\<close>

fun under :: "nat \<Rightarrow> mods \<Rightarrow> string \<Rightarrow> (string \<times> counter) list \<Rightarrow> counter \<times> (string \<times> counter) list"
  and under_subs :: "nat \<Rightarrow> mods \<Rightarrow> counter \<Rightarrow> counter \<Rightarrow> (string \<times> counter) list \<Rightarrow> counter \<times> (string \<times> counter) list" where
  "under 0 mods m memo = ([], memo)"
| "under (Suc f) mods m memo =
    (case map_of memo m of Some c \<Rightarrow> (c, memo)
     | None \<Rightarrow> (let r = under_subs f mods (subs_of mods m) [] (dict_set m [] memo)
                in (fst r, dict_set m (fst r) (snd r))))"
| "under_subs f mods [] acc memo = (acc, memo)"
| "under_subs f mods ((s, n) # rest) acc memo =
    (let acc = count_add s n acc; r = under f mods s memo
     in under_subs f mods rest (fold (\<lambda>(k, v). count_add k (n * v)) (fst r) acc) (snd r))"

definition total_instances :: "mods \<Rightarrow> string \<Rightarrow> counter" where
  "total_instances mods root =
    fold (\<lambda>(k, v). count_add k v) (fst (under (length mods + 2) mods root [])) [(root, 1)]"

text \<open>The variants of a base module in the order of the counter, then the one with most instances first.\<close>

definition groups_of :: "counter \<Rightarrow> (string \<times> (nat \<times> string) list) list" where
  "groups_of tot = fold (\<lambda>(raw, n) g. dict_set (base_module raw) (dict_get [] (base_module raw) g @ [(n, raw)]) g) tot []"

definition by_base :: "mods \<Rightarrow> counter \<Rightarrow> (string \<times> nat \<times> nat \<times> nat \<times> nat \<times> nat) list" where
  "by_base mods tot = map (\<lambda>(base, items).
     let items = rev (sort items);
         insts = sum_list (map fst items);
         r = dict_get empty_stat (snd (hd items)) mods
     in (base, insts, length items, ms_ports r, ms_cells r, ms_wire_bits r)) (groups_of tot)"

text \<open>The tree; \<open>d\<close> counts the levels left below the limit of nine.\<close>

definition indent :: "nat \<Rightarrow> string" where "indent n = concat (replicate n ''    '')"

function tree_lines :: "mods \<Rightarrow> string \<Rightarrow> nat \<Rightarrow> string list \<Rightarrow> string \<Rightarrow> string list" where
  "tree_lines mods m depth seen prefix =
    (indent depth @ prefix @ base_module m) #
    (if m \<in> set seen \<or> 8 < depth then []
     else let merged = fold (\<lambda>(s, n). count_add s n) (subs_of mods m) [] in
       concat (map (\<lambda>s. let n = dict_get 0 s merged in
                 tree_lines mods s (depth + 1) (m # seen) (if 1 < n then dec_str n @ '' x '' else []))
              (sort_key base_module (map fst merged))))"
  by pat_completeness auto
termination by (relation "measure (\<lambda>(mods, m, depth, seen, prefix). 9 - depth)") auto

declare tree_lines.simps [simp del]

end
