(* ===== verification/BpGraph.thy ===== *)
theory BpGraph
  imports BpStat "HOL-Library.Multiset"
begin

text \<open>
  The two graph computations of the blueprint: the walk over the instantiation graph visits exactly what
  is reachable, in whatever order sets are iterated, and the memoised instance counts are those of the
  instance tree written out.
\<close>

section \<open>Dictionaries\<close>

lemma map_of_dict_set [simp]: "map_of (dict_set k v d) = (map_of d)(k \<mapsto> v)"
  by (induction d) (auto simp: fun_upd_twist)

lemma dict_set_keys: "fst ` set (dict_set k v d) = insert k (fst ` set d)"
proof (induction d)
  case (Cons a d)
  then show ?case by (cases a) (auto split: if_splits)
qed simp

lemma dict_set_distinct: "distinct (map fst d) \<Longrightarrow> distinct (map fst (dict_set k v d))"
  by (induction d) (auto simp: dict_set_keys)

lemma dict_get_set: "dict_get z k' (dict_set k v d) = (if k' = k then v else dict_get z k' d)"
  by (simp add: dict_get_def)

lemma count_add_get: "dict_get 0 k' (count_add k n c) = dict_get 0 k' c + (if k' = k then n else 0)"
  by (simp add: count_add_def dict_get_set)

lemma count_add_distinct: "distinct (map fst c) \<Longrightarrow> distinct (map fst (count_add k n c))"
  by (simp add: count_add_def dict_set_distinct)

lemma dict_get_Cons: "dict_get z k ((k', v) # c) = (if k = k' then v else dict_get z k c)"
  by (simp add: dict_get_def)

lemma dict_get_absent: "k \<notin> fst ` set c \<Longrightarrow> dict_get z k c = z"
  by (induction c) (auto simp: dict_get_def)

lemma fold_count_add:
  "distinct (map fst cs) \<Longrightarrow> dict_get 0 k (fold (\<lambda>(k, v). count_add k (n * v)) cs acc) = dict_get 0 k acc + n * dict_get 0 k cs"
proof (induction cs arbitrary: acc)
  case Nil
  then show ?case by (simp add: dict_get_def)
next
  case (Cons c cs)
  then show ?case by (cases c) (auto simp: dict_get_Cons count_add_get dict_get_absent)
qed

lemma fold_count_add_distinct:
  "distinct (map fst acc) \<Longrightarrow> distinct (map fst (fold (\<lambda>(k, v). count_add k (n * v)) cs acc))"
  by (induction cs arbitrary: acc) (auto simp: count_add_distinct)

lemmas dict_simps = dict_get_set count_add_get dict_get_Cons fold_count_add

section \<open>Reachable modules\<close>

definition edge_rel :: "('a \<times> 'a list) list \<Rightarrow> ('a \<times> 'a) set" where
  "edge_rel es = {(x, y). y \<in> set (succs es x)}"

text \<open>Sets are iterated in some order.\<close>

definition set_order :: "('a list \<Rightarrow> 'a list) \<Rightarrow> bool" where
  "set_order ord \<longleftrightarrow> (\<forall>xs. set (ord xs) = set xs)"

lemma set_orderD: "set_order ord \<Longrightarrow> set (ord xs) = set xs"
  by (simp add: set_order_def)

lemma walk_grows:
  assumes "set_order ord"
  shows "set seen \<union> set stack \<subseteq> set (walk ord es seen stack)"
proof (induction ord es seen stack rule: walk.induct)
  case (2 ord es seen x stack)
  then show ?case by (cases "x \<in> set seen") (auto split: if_splits)
qed simp

lemma walk_reached:
  assumes "set_order ord"
  shows "set (walk ord es seen stack) \<subseteq> set seen \<union> (edge_rel es)\<^sup>* `` set stack"
  using assms
proof (induction ord es seen stack rule: walk.induct)
  case (2 ord es seen x stack)
  show ?case
  proof (cases "x \<in> set seen")
    case False
    have s: "set (if succs es x = [] then stack else rev (ord (succs es x)) @ stack) = set (succs es x) \<union> set stack"
      using 2(3) by (auto simp: set_orderD)
    have "(edge_rel es)\<^sup>* `` (set (succs es x)) \<subseteq> (edge_rel es)\<^sup>* `` {x}"
      by (auto simp: edge_rel_def intro: converse_rtrancl_into_rtrancl)
    then have "(edge_rel es)\<^sup>* `` (set (succs es x) \<union> set stack) \<subseteq> (edge_rel es)\<^sup>* `` set (x # stack)" by auto
    moreover have "x \<in> (edge_rel es)\<^sup>* `` set (x # stack)" by auto
    moreover have u: "W \<subseteq> set (x # seen) \<union> A \<Longrightarrow> A \<subseteq> B \<Longrightarrow> x \<in> B \<Longrightarrow> W \<subseteq> set seen \<union> B" for W A B by auto
    ultimately have "set (walk ord es (x # seen) (if succs es x = [] then stack else rev (ord (succs es x)) @ stack)) \<subseteq>
        set seen \<union> (edge_rel es)\<^sup>* `` set (x # stack)"
      by (intro u [OF 2(2) [OF False 2(3), unfolded s]])
    then show ?thesis using False by simp
  next
    case True
    then show ?thesis using 2(1) [OF True 2(3)] by auto
  qed
qed simp

lemma walk_closed:
  assumes "set_order ord" "\<And>y. y \<in> set seen \<Longrightarrow> set (succs es y) \<subseteq> set seen \<union> set stack"
  shows "y \<in> set (walk ord es seen stack) \<Longrightarrow> set (succs es y) \<subseteq> set (walk ord es seen stack)"
  using assms
proof (induction ord es seen stack rule: walk.induct)
  case (2 ord es seen x stack)
  show ?case
  proof (cases "x \<in> set seen")
    case True
    then show ?thesis using 2(1) 2(3,4,5) by fastforce
  next
    case False
    have s: "set (if succs es x = [] then stack else rev (ord (succs es x)) @ stack) = set (succs es x) \<union> set stack"
      using 2(4) by (auto simp: set_orderD)
    have "set (succs es z) \<subseteq> set (x # seen) \<union> set (if succs es x = [] then stack else rev (ord (succs es x)) @ stack)"
      if "z \<in> set (x # seen)" for z
      using that 2(5) [of z] unfolding s by auto
    from 2(2) [OF False _ 2(4) this] 2(3) False show ?thesis by simp
  qed
next
  case (1 ord es seen)
  then show ?case by simp
qed

theorem walk_is_closure:
  assumes "set_order ord"
  shows "set (walk ord es [] [r]) = (edge_rel es)\<^sup>* `` {r}"
proof
  show "set (walk ord es [] [r]) \<subseteq> (edge_rel es)\<^sup>* `` {r}" using walk_reached [OF assms, of es "[]" "[r]"] by simp
next
  have "(r, y) \<in> (edge_rel es)\<^sup>* \<Longrightarrow> y \<in> set (walk ord es [] [r])" for y
  proof (induction rule: rtrancl_induct)
    case base
    then show ?case using walk_grows [OF assms, of "[]" "[r]" es] by simp
  next
    case (step y z)
    then show ?case using walk_closed [OF assms, of "[]" es "[r]" y] by (auto simp: edge_rel_def)
  qed
  then show "(edge_rel es)\<^sup>* `` {r} \<subseteq> set (walk ord es [] [r])" by auto
qed

lemma walk_distinct: "distinct seen \<Longrightarrow> distinct (walk ord es seen stack)"
  by (induction ord es seen stack rule: walk.induct) auto

text \<open>The order does not show in the files or in the modules that are not reached.\<close>

lemma reachable_files_order:
  assumes "set_order ord" "set_order ord'"
  shows "fst (reachable_files ord bodies r) = fst (reachable_files ord' bodies r)"
    "set (snd (reachable_files ord bodies r)) = set (snd (reachable_files ord' bodies r))"
proof -
  have s: "set (walk ord (edges_of bodies) [] [r]) = set (walk ord' (edges_of bodies) [] [r])"
    using walk_is_closure [OF assms(1)] walk_is_closure [OF assms(2)] by (simp only:)
  then show "set (snd (reachable_files ord bodies r)) = set (snd (reachable_files ord' bodies r))"
    by (simp add: reachable_files_def Let_def)
  have "sort (remdups xs) = sort (remdups ys)" if "set xs = set ys" for xs ys :: "string list"
    using that by (intro sorted_distinct_set_unique) auto
  then show "fst (reachable_files ord bodies r) = fst (reachable_files ord' bodies r)"
    using s by (simp add: reachable_files_def Let_def map_filter_def)
qed

section \<open>The instance tree\<close>

text \<open>The instances below a module, each as often as it is elaborated, down to a depth.\<close>

primrec inst_ms :: "nat \<Rightarrow> mods \<Rightarrow> string \<Rightarrow> string multiset" where
  "inst_ms 0 mods m = {#}"
| "inst_ms (Suc d) mods m = sum_list (map (\<lambda>(s, n). repeat_mset n (add_mset s (inst_ms d mods s))) (subs_of mods m))"

primrec depth_le :: "nat \<Rightarrow> mods \<Rightarrow> string \<Rightarrow> bool" where
  "depth_le 0 mods m = (subs_of mods m = [])"
| "depth_le (Suc d) mods m = list_all (\<lambda>(s, n). depth_le d mods s) (subs_of mods m)"

lemma depth_le_Suc: "depth_le d mods m \<Longrightarrow> depth_le (Suc d) mods m"
  by (induction d arbitrary: m) (auto simp: list_all_iff)

lemma inst_ms_stable: "depth_le d mods m \<Longrightarrow> inst_ms (Suc d) mods m = inst_ms d mods m"
proof (induction d arbitrary: m)
  case (Suc d)
  have "inst_ms (Suc d) mods s = inst_ms d mods s" if "(s, n) \<in> set (subs_of mods m)" for s n
    using Suc that by (auto simp: list_all_iff)
  then have "map (\<lambda>(s, n). repeat_mset n (add_mset s (inst_ms (Suc d) mods s))) (subs_of mods m) =
      map (\<lambda>(s, n). repeat_mset n (add_mset s (inst_ms d mods s))) (subs_of mods m)"
    by auto
  then show ?case by (simp only: inst_ms.simps)
qed simp

lemma depth_le_mono: "depth_le d mods m \<Longrightarrow> d \<le> e \<Longrightarrow> depth_le e mods m"
proof (induction e)
  case (Suc e)
  then show ?case using depth_le_Suc by (cases "d = Suc e") (simp_all del: depth_le.simps)
qed simp

lemma inst_ms_mono: "depth_le d mods m \<Longrightarrow> d \<le> e \<Longrightarrow> inst_ms e mods m = inst_ms d mods m"
proof (induction e)
  case (Suc e)
  then show ?case
    by (cases "d = Suc e") (simp_all add: inst_ms_stable depth_le_mono del: inst_ms.simps)
qed simp

text \<open>The exact depth of a module that has one, and its instances.\<close>

definition hgt :: "mods \<Rightarrow> string \<Rightarrow> nat" where "hgt mods m = (LEAST d. depth_le d mods m)"
definition has_hgt :: "mods \<Rightarrow> string \<Rightarrow> bool" where "has_hgt mods m \<longleftrightarrow> (\<exists>d. depth_le d mods m)"
definition insts :: "mods \<Rightarrow> string \<Rightarrow> string multiset" where "insts mods m = inst_ms (hgt mods m) mods m"

lemma hgt_depth: "has_hgt mods m \<Longrightarrow> depth_le (hgt mods m) mods m"
  unfolding hgt_def has_hgt_def by (rule LeastI_ex)

lemma hgt_le: "depth_le d mods m \<Longrightarrow> hgt mods m \<le> d"
  unfolding hgt_def by (rule Least_le)

lemma hgt_child:
  assumes "has_hgt mods m" "(s, n) \<in> set (subs_of mods m)"
  shows "has_hgt mods s" "hgt mods s < hgt mods m"
proof -
  obtain d where d: "hgt mods m = Suc d" "depth_le d mods s"
    using hgt_depth [OF assms(1)] assms(2) by (cases "hgt mods m") (auto simp: list_all_iff)
  then show "has_hgt mods s" "hgt mods s < hgt mods m" using hgt_le [of d mods s] by (auto simp: has_hgt_def)
qed

lemma insts_eq: "depth_le d mods m \<Longrightarrow> inst_ms d mods m = insts mods m"
  unfolding insts_def using inst_ms_mono [of "hgt mods m" mods m d] hgt_le [of d mods m] hgt_depth [of mods m]
  by (auto simp: has_hgt_def)

lemma insts_unfold:
  assumes "has_hgt mods m"
  shows "insts mods m = sum_list (map (\<lambda>(s, n). repeat_mset n (add_mset s (insts mods s))) (subs_of mods m))"
proof -
  obtain d where d: "depth_le d mods m" using assms by (auto simp: has_hgt_def)
  have "insts mods m = inst_ms (Suc d) mods m" using insts_eq [OF depth_le_Suc [OF d]] by simp
  moreover have "inst_ms d mods s = insts mods s" if "(s, n) \<in> set (subs_of mods m)" for s n
    using that depth_le_Suc [OF d] insts_eq [of d mods s] by (auto simp: list_all_iff)
  ultimately show ?thesis by (auto intro!: arg_cong [where f = sum_list])
qed

text \<open>Every depth up to that of a module is the depth of a module of the dictionary.\<close>

lemma hgt_realised:
  assumes "has_hgt mods m"
  shows "{1 .. hgt mods m} \<subseteq> hgt mods ` (fst ` set mods)"
  using assms
proof (induction "hgt mods m" arbitrary: m)
  case (Suc h)
  have n: "\<not> depth_le h mods m" using Suc.hyps(2) hgt_le [of h mods m] by auto
  have key: "m \<in> fst ` set mods"
  proof (rule ccontr)
    assume "m \<notin> fst ` set mods"
    then have "subs_of mods m = []" by (auto simp: subs_of_def dest!: map_of_SomeD intro: rev_image_eqI split: option.splits)
    then have "depth_le h mods m" by (cases h) auto
    then show False using n by simp
  qed
  have "{1 .. h} \<subseteq> hgt mods ` (fst ` set mods)"
  proof (cases h)
    case (Suc h')
    obtain s k where s: "(s, k) \<in> set (subs_of mods m)" "\<not> depth_le h' mods s"
      using n by (auto simp: Suc list_all_iff)
    have "hgt mods s = h"
      using s hgt_child [OF Suc.prems s(1)] Suc.hyps(2) hgt_depth [of mods s] depth_le_mono [of "hgt mods s" mods s h'] Suc
      by (metis less_Suc_eq_le not_less_eq_eq le_antisym)
    then show ?thesis using Suc.hyps(1) [of s] hgt_child(1) [OF Suc.prems s(1)] by auto
  qed simp
  moreover have "{1 .. hgt mods m} = insert (hgt mods m) {1 .. h}" by (auto simp: Suc.hyps(2) [symmetric])
  ultimately show ?case using key by auto
qed simp

lemma hgt_bound:
  assumes "has_hgt mods m"
  shows "hgt mods m \<le> length mods"
proof -
  have "card {1 .. hgt mods m} \<le> card (hgt mods ` (fst ` set mods))"
    by (rule card_mono) (use hgt_realised [OF assms] in auto)
  also have "\<dots> \<le> card (set mods)" by (metis card_image_le finite_set finite_imageI le_trans)
  also have "\<dots> \<le> length mods" by (rule card_length)
  finally show ?thesis by simp
qed

section \<open>The memoised counts\<close>

definition counts :: "counter \<Rightarrow> string multiset \<Rightarrow> bool" where
  "counts c M \<longleftrightarrow> distinct (map fst c) \<and> (\<forall>k. dict_get 0 k c = count M k)"

text \<open>The memo is right about the modules of depth below \<open>H\<close>; those being computed are deeper.\<close>

definition memo_ok :: "nat \<Rightarrow> mods \<Rightarrow> (string \<times> counter) list \<Rightarrow> bool" where
  "memo_ok H mods memo \<longleftrightarrow> (\<forall>m c. map_of memo m = Some c \<longrightarrow> has_hgt mods m \<longrightarrow> hgt mods m < H \<longrightarrow> counts c (insts mods m))"

definition above_same :: "nat \<Rightarrow> mods \<Rightarrow> (string \<times> counter) list \<Rightarrow> (string \<times> counter) list \<Rightarrow> bool" where
  "above_same H mods memo memo' \<longleftrightarrow> (\<forall>m. \<not> has_hgt mods m \<or> H \<le> hgt mods m \<longrightarrow> map_of memo' m = map_of memo m)"

lemma counts_empty: "counts [] {#}"
  by (simp add: counts_def dict_get_def)

lemma counts_add:
  assumes "counts acc A" "counts c C"
  shows "counts (fold (\<lambda>(k, v). count_add k (n * v)) c (count_add s n acc)) (A + repeat_mset n (add_mset s C))"
proof -
  have "dict_get 0 k (fold (\<lambda>(k, v). count_add k (n * v)) c (count_add s n acc)) = count (A + repeat_mset n (add_mset s C)) k" for k
    using assms fold_count_add [of c k n "count_add s n acc"] by (simp add: counts_def count_add_get algebra_simps)
  then show ?thesis using assms fold_count_add_distinct [of "count_add s n acc" n c] by (simp add: counts_def count_add_distinct)
qed

lemma under_counts:
  shows "has_hgt mods m \<Longrightarrow> hgt mods m < H \<Longrightarrow> hgt mods m < f \<Longrightarrow> memo_ok H mods memo \<Longrightarrow>
      counts (fst (under f mods m memo)) (insts mods m) \<and> memo_ok H mods (snd (under f mods m memo)) \<and>
      above_same H mods memo (snd (under f mods m memo))"
    and "\<forall>(s, n) \<in> set rest. has_hgt mods s \<and> hgt mods s < H \<and> hgt mods s < f \<Longrightarrow> memo_ok H mods memo \<Longrightarrow> counts acc A \<Longrightarrow>
      counts (fst (under_subs f mods rest acc memo)) (A + sum_list (map (\<lambda>(s, n). repeat_mset n (add_mset s (insts mods s))) rest)) \<and>
      memo_ok H mods (snd (under_subs f mods rest acc memo)) \<and>
      above_same H mods memo (snd (under_subs f mods rest acc memo))"
proof (induction f mods m memo and f mods rest acc memo arbitrary: H and H A rule: under_under_subs.induct)
  case (2 f mods m memo)
  show ?case
  proof (cases "map_of memo m")
    case (Some c)
    then show ?thesis using "2.prems" by (simp add: memo_ok_def above_same_def)
  next
    case None
    let ?h = "hgt mods m"
    let ?r = "under_subs f mods (subs_of mods m) [] (dict_set m [] memo)"
    have ch: "\<forall>(s, n) \<in> set (subs_of mods m). has_hgt mods s \<and> hgt mods s < ?h \<and> hgt mods s < f"
      using hgt_child [OF "2.prems"(1)] "2.prems"(3) by fastforce
    have "memo_ok ?h mods (dict_set m [] memo)"
      using "2.prems"(2,4) by (auto simp: memo_ok_def)
    from "2.IH" [OF None ch this counts_empty]
    have r: "counts (fst ?r) (insts mods m)" "memo_ok ?h mods (snd ?r)" "above_same ?h mods (dict_set m [] memo) (snd ?r)"
      by (simp_all add: insts_unfold [OF "2.prems"(1)])
    have "memo_ok H mods (dict_set m (fst ?r) (snd ?r))"
      unfolding memo_ok_def
    proof (intro allI impI)
      fix o' c assume o: "map_of (dict_set m (fst ?r) (snd ?r)) o' = Some c" "has_hgt mods o'" "hgt mods o' < H"
      show "counts c (insts mods o')"
      proof (cases "o' = m")
        case False
        then have s: "map_of (snd ?r) o' = Some c" using o by simp
        show ?thesis
        proof (cases "hgt mods o' < ?h")
          case True
          then show ?thesis using r(2) s o(2) by (simp add: memo_ok_def)
        next
          case below: False
          then have "map_of memo o' = Some c" using r(3) s False by (simp add: above_same_def)
          then show ?thesis using "2.prems"(4) o by (simp add: memo_ok_def)
        qed
      qed (use o r(1) in simp)
    qed
    moreover have "above_same H mods memo (dict_set m (fst ?r) (snd ?r))"
      using r(3) "2.prems"(1,2) by (auto simp: above_same_def)
    ultimately show ?thesis using r(1) None by (simp add: Let_def)
  qed
next
  case (4 f mods s n rest acc memo)
  let ?acc = "count_add s n acc"
  let ?r = "under f mods s memo"
  have s: "has_hgt mods s" "hgt mods s < H" "hgt mods s < f" using "4.prems"(1) by auto
  have u: "counts (fst ?r) (insts mods s)" "memo_ok H mods (snd ?r)" "above_same H mods memo (snd ?r)"
    using "4.IH"(1) [OF refl s "4.prems"(2)] by simp_all
  have c: "counts (fold (\<lambda>(k, v). count_add k (n * v)) (fst ?r) ?acc) (A + repeat_mset n (add_mset s (insts mods s)))"
    using counts_add [OF "4.prems"(3) u(1)] .
  have t: "\<forall>(s, n) \<in> set rest. has_hgt mods s \<and> hgt mods s < H \<and> hgt mods s < f" using "4.prems"(1) by auto
  show ?case using "4.IH"(2) [OF refl refl t u(2) c] u(3) by (simp add: Let_def above_same_def add.assoc)
qed (simp_all add: above_same_def)

lemma total_instances_counts:
  assumes "depth_le d mods root"
  shows "counts (total_instances mods root) (add_mset root (inst_ms d mods root))"
proof -
  have h: "has_hgt mods root" using assms by (auto simp: has_hgt_def)
  let ?u = "fst (under (length mods + 2) mods root [])"
  have u: "counts ?u (insts mods root)"
    using under_counts(1) [OF h, of "Suc (hgt mods root)" "length mods + 2" "[]"] hgt_bound [OF h]
    by (simp add: memo_ok_def)
  have "counts (fold (\<lambda>(k, v). count_add k (1 * v)) ?u (count_add root 1 [])) ({#} + repeat_mset 1 (add_mset root (insts mods root)))"
    by (rule counts_add [OF counts_empty u])
  then show ?thesis by (simp add: total_instances_def insts_eq [OF assms] count_add_def dict_get_def)
qed

section \<open>Folding by base name\<close>

lemma counts_size_filter:
  assumes "counts c M"
  shows "sum_list (map snd (filter (\<lambda>(k, v). P k) c)) = size (filter_mset P M)"
proof -
  have d: "distinct (map fst c)" and g: "\<And>k. dict_get 0 k c = count M k" using assms by (auto simp: counts_def)
  have v: "v = count M k" if "(k, v) \<in> set c" for k v
    using g [of k] d that by (simp add: dict_get_def)
  have "sum_list (map snd (filter (\<lambda>(k, v). P k) c)) = sum_list (map (count M) (filter P (map fst c)))"
    using v by (induction c) (auto split: prod.splits)
  also have "\<dots> = (\<Sum>k \<in> set (filter P (map fst c)). count M k)"
    by (rule sum_list_distinct_conv_sum_set) (use d in simp)
  also have "\<dots> = (\<Sum>k \<in> set_mset (filter_mset P M). count (filter_mset P M) k)"
  proof (rule sum.mono_neutral_cong)
    show "count M i = 0" if "i \<in> set (filter P (map fst c)) - set_mset (filter_mset P M)" for i
      using that by (auto simp: not_in_iff)
    show "count (filter_mset P M) i = 0" if "i \<in> set_mset (filter_mset P M) - set (filter P (map fst c))" for i
    proof -
      have "i \<notin> fst ` set c" using that by auto
      then have "count M i = 0" using g [of i] by (simp add: dict_get_absent)
      then show ?thesis by simp
    qed
  qed auto
  finally show ?thesis by (simp add: size_multiset_overloaded_eq)
qed

lemma groups_fold:
  "dict_get [] b (fold (\<lambda>(raw, n) g. dict_set (base_module raw) (dict_get [] (base_module raw) g @ [(n, raw)]) g) tot g) =
    dict_get [] b g @ map (\<lambda>(raw, n). (n, raw)) (filter (\<lambda>(raw, n). base_module raw = b) tot)"
  by (induction tot arbitrary: g) (auto simp: dict_get_set)

lemma groups_distinct:
  "distinct (map fst g) \<Longrightarrow>
    distinct (map fst (fold (\<lambda>(raw, n) g. dict_set (base_module raw) (dict_get [] (base_module raw) g @ [(n, raw)]) g) tot g))"
  by (induction tot arbitrary: g) (auto simp: dict_set_distinct)

lemma groups_keys:
  "fst ` set (fold (\<lambda>(raw, n) g. dict_set (base_module raw) (dict_get [] (base_module raw) g @ [(n, raw)]) g) tot g) =
    fst ` set g \<union> (\<lambda>t. base_module (fst t)) ` set tot"
proof (induction tot arbitrary: g)
  case (Cons t tot)
  show ?case by (cases t) (simp add: Cons.IH dict_set_keys)
qed simp

lemma by_base_lookup:
  "map_of (by_base mods tot) b =
    (let items = map (\<lambda>(raw, n). (n, raw)) (filter (\<lambda>(raw, n). base_module raw = b) tot) in
     if items = [] then None
     else let s = rev (sort items); r = dict_get empty_stat (snd (hd s)) mods
       in Some (sum_list (map fst items), length items, ms_ports r, ms_cells r, ms_wire_bits r))"
proof -
  let ?g = "groups_of tot"
  let ?items = "map (\<lambda>(raw, n). (n, raw)) (filter (\<lambda>(raw, n). base_module raw = b) tot)"
  have i: "dict_get [] b ?g = ?items" using groups_fold [of b tot "[]"] by (simp add: groups_of_def dict_get_def)
  have k: "b \<in> set (map fst ?g) \<longleftrightarrow> ?items \<noteq> []"
    using groups_keys [of tot "[]"] by (fastforce simp: groups_of_def filter_empty_conv image_iff)
  have m: "map_of (map (\<lambda>(k, v). (k, f v)) xs) b = map_option f (map_of xs b)" for f :: "(nat \<times> string) list \<Rightarrow> 'x" and xs
    by (induction xs) auto
  have s: "sum_list (map fst (sort xs)) = sum_list (map fst xs)" for xs :: "(nat \<times> string) list"
    by (metis mset_map mset_sort sum_mset_sum_list)
  have "map_of (by_base mods tot) b = map_option (\<lambda>items.
      let items = rev (sort items); insts = sum_list (map fst items); r = dict_get empty_stat (snd (hd items)) mods
      in (insts, length items, ms_ports r, ms_cells r, ms_wire_bits r)) (map_of ?g b)"
    unfolding m [symmetric] by_base_def by (rule arg_cong [where f = "\<lambda>x. map_of x b"]) (simp add: Let_def)
  moreover have "map_of ?g b = None \<longleftrightarrow> ?items = []" using k by (simp add: map_of_eq_None_iff)
  ultimately show ?thesis using i
    by (cases "map_of ?g b") (auto simp: Let_def dict_get_def s rev_map [symmetric])
qed

lemma by_base_distinct: "distinct (map fst (by_base mods tot))"
proof -
  have "map fst (by_base mods tot) = map fst (groups_of tot)" by (simp add: by_base_def Let_def comp_def split_def)
  then show ?thesis using groups_distinct [of "[]" tot] by (simp add: groups_of_def)
qed

end
