(* ===== verification/BpText.thy ===== *)
theory BpText
  imports BpGraph
begin

text \<open>
  How the patterns of the blueprint behave on texts of a known shape, and with it what the reader of the
  statistics makes of a report: exactly the figures that were printed, whatever follows the heading of
  the design hierarchy.
\<close>

definition plain_line :: "string \<Rightarrow> bool" where "plain_line l \<longleftrightarrow> list_all (\<lambda>c. \<not> is_linebreak c) l"

section \<open>Runs of a character class\<close>

lemma span_unique:
  assumes "list_all P u" "\<not> first_is P v"
  shows "takeWhile P (u @ v) = u" "dropWhile P (u @ v) = v"
  using assms by (induction u) (auto simp: first_is_def split: list.splits)

lemma first_is_append: "u \<noteq> [] \<Longrightarrow> first_is P (u @ v) = P (hd u)"
  by (cases u) simp_all

lemma rep_greedy:
  "list_all P u \<Longrightarrow> length u \<le> n \<Longrightarrow> \<not> first_is P v \<Longrightarrow> k (rev u @ p, v, c) = Some x \<Longrightarrow>
    rep n True (mt (RSet P)) k (p, u @ v, c) = Some x"
proof (induction u arbitrary: n p)
  case Nil
  then show ?case by (cases n) (auto simp: Let_def split: list.splits)
next
  case (Cons a u)
  then obtain n' where "n = Suc n'" by (cases n) auto
  then show ?case using Cons by (simp add: Let_def)
qed

lemma mt_many:
  "list_all P u \<Longrightarrow> \<not> first_is P v \<Longrightarrow> k (rev u @ p, v, c) = Some x \<Longrightarrow> mt (rx_many P) k (p, u @ v, c) = Some x"
  unfolding rx_many_def by (simp add: rep_greedy)

lemma mt_some:
  "list_all P u \<Longrightarrow> u \<noteq> [] \<Longrightarrow> \<not> first_is P v \<Longrightarrow> k (rev u @ p, v, c) = Some x \<Longrightarrow> mt (rx_some P) k (p, u @ v, c) = Some x"
  using mt_many [of P "List.tl u" v k "hd u # p" c x] by (cases u) (simp_all add: rx_some_def rx_many_def)

lemma mt_lit: "mt (rx_lit l) k (p, s, c) = (if prefix_of l s then k (rev l @ p, drop (length l) s, c) else None)"
  by (induction l arbitrary: p s) (auto simp: rx_lit_def split: list.splits)

lemma prefix_of_append [simp]: "prefix_of l (l @ s)"
  by (induction l) auto

lemma prefix_of_iff: "prefix_of l s \<longleftrightarrow> (\<exists>r. s = l @ r)"
proof
  show "prefix_of l s \<Longrightarrow> \<exists>r. s = l @ r" by (induction l s rule: prefix_of.induct) auto
qed auto

lemma rxm_star_set: "rxm (RStar g (RSet P)) s t \<Longrightarrow>
    \<exists>u. list_all P u \<and> ahead s = u @ ahead t \<and> behind t = rev u @ behind s \<and> caps t = caps s"
proof (induction "RStar g (RSet P)" s t rule: rxm.induct)
  case (rxm_done s)
  then show ?case by (intro exI [of _ "[]"]) simp
next
  case (rxm_more s t u)
  from rxm_more.hyps(1) obtain c p cs q where "s = (p, c # cs, q)" "t = (c # p, cs, q)" "P c" by (rule rxm_setE)
  moreover obtain w where "list_all P w" "ahead t = w @ ahead u" "behind u = rev w @ behind t" "caps u = caps t"
    using rxm_more.hyps(4) by blast
  ultimately show ?case by (intro exI [of _ "c # w"]) simp
qed

lemma rxm_many: "rxm (rx_many P) s t \<Longrightarrow> \<exists>u. list_all P u \<and> ahead s = u @ ahead t"
  unfolding rx_many_def using rxm_star_set by blast

lemma rxm_some:
  assumes "rxm (rx_some P) s t"
  shows "\<exists>u. list_all P u \<and> u \<noteq> [] \<and> ahead s = u @ ahead t"
proof -
  obtain v where v: "rxm (RSet P) s v" "rxm (RStar True (RSet P)) v t"
    using assms unfolding rx_some_def by (rule rxm_seqE)
  from v(1) obtain c p cs q where "s = (p, c # cs, q)" "v = (c # p, cs, q)" "P c" by (rule rxm_setE)
  moreover obtain w where "list_all P w" "ahead v = w @ ahead t" using rxm_star_set [OF v(2)] by blast
  ultimately show ?thesis by (intro exI [of _ "c # w"]) simp
qed

lemma rxm_lit: "rxm (rx_lit l) s t \<Longrightarrow> ahead s = l @ ahead t"
proof (induction l arbitrary: s)
  case Nil
  then show ?case by (auto simp: rx_lit_def elim: rxm_epsE)
next
  case (Cons a l)
  from Cons.prems obtain v where v: "rxm (RSet (\<lambda>d. d = a)) s v" "rxm (rx_lit l) v t"
    unfolding rx_lit_def foldr.simps comp_def by (rule rxm_seqE)
  from v(1) obtain c p cs q where "s = (p, c # cs, q)" "v = (c # p, cs, q)" "c = a" by (rule rxm_setE)
  then show ?case using Cons.IH [OF v(2)] by simp
qed

lemma rxm_grp: "rxm (RGroup n a) s t \<Longrightarrow> \<exists>u. rxm a s u \<and> ahead t = ahead u"
  by (erule rxm_groupE) (metis fst_conv snd_conv)

section \<open>Rows\<close>

text \<open>A number with some blanks before and after it, and what it counts.\<close>

definition row_text :: "nat \<Rightarrow> nat \<Rightarrow> nat \<Rightarrow> string \<Rightarrow> string" where
  "row_text pad gap n what = replicate (Suc pad) (CHR 0x20) @ dec_str n @ replicate (Suc gap) (CHR 0x20) @ what"

definition label :: "string \<Rightarrow> bool" where
  "label w \<longleftrightarrow> w \<noteq> [] \<and> \<not> is_space (hd w) \<and> \<not> is_space (last w)"

lemma space_blank [simp]: "is_space (CHR 0x20)" "is_digit (CHR 0x20) = False"
  by (simp_all add: is_space_def is_digit_def char_code_def)

lemma pad_spaces: "list_all is_space (replicate k (CHR 0x20))"
  by (induction k) simp_all

lemma dec_str_digits: "list_all is_digit (dec_str n)"
  using dec_str_chars [of n] by (auto simp: list_all_iff)

lemma dec_str_first: "\<not> first_is is_space (dec_str n @ s)"
proof -
  obtain c cs where "dec_str n = c # cs" using dec_str_nonempty [of n] by (cases "dec_str n") blast+
  then show ?thesis using dec_str_chars [of n] by simp
qed

lemma digits_val_append: "digits_val (s @ [c]) = 10 * digits_val s + (char_code c - 48)"
  by (simp add: digits_val_def)

lemma digits_val_dec: "digits_val (dec_str n) = n"
proof (induction n rule: dec_str.induct)
  case (1 n)
  show ?case
  proof (cases "n < 10")
    case True
    then show ?thesis by (simp add: dec_str.simps [of n] digits_val_def digit_char)
  next
    case False
    then show ?thesis using 1 by (simp add: dec_str.simps [of n] digits_val_append digit_char)
  qed
qed

text \<open>A row is read in one way only.\<close>

lemma row_unique:
  assumes "label what"
    and e: "row_text pad gap n what = b @ d @ b2 @ w @ z"
    and b: "list_all is_space b" "b \<noteq> []" and d: "list_all is_digit d" "d \<noteq> []" and b2: "list_all is_space b2" "b2 \<noteq> []"
    and w: "w \<noteq> []" "\<not> is_space (hd w)" and z: "list_all is_space z"
  shows "w = what \<and> d = dec_str n"
proof -
  have sp: "\<not> first_is is_space (x @ y)" if "list_all is_digit x" "x \<noteq> []" for x y
  proof (cases x)
    case (Cons a xs)
    then have "is_digit a" using that by simp
    then show ?thesis using Cons by (auto simp: is_digit_def is_space_def)
  qed (use that in simp)
  have dg: "\<not> first_is is_digit (x @ y)" if "list_all is_space x" "x \<noteq> []" for x y
  proof (cases x)
    case (Cons a xs)
    then have "is_space a" using that by simp
    then show ?thesis using Cons by (auto simp: is_digit_def is_space_def)
  qed (use that in simp)
  let ?g = "replicate (Suc gap) (CHR 0x20)"
  have dgg: "\<not> first_is is_digit (?g @ what)" by simp
  have 1: "dec_str n @ ?g @ what = d @ b2 @ w @ z"
    using span_unique(2) [of is_space "replicate (Suc pad) (CHR 0x20)" "dec_str n @ ?g @ what"] span_unique(2) [of is_space b "d @ b2 @ w @ z"]
      pad_spaces [of "Suc pad"] b sp [OF d] dec_str_first e
    by (simp add: row_text_def del: replicate.simps)
  have 2: "d = dec_str n" "?g @ what = b2 @ w @ z"
    using span_unique [of is_digit "dec_str n" "?g @ what"] span_unique [of is_digit d "b2 @ w @ z"]
      dec_str_digits [of n] d dg [OF b2] dgg 1 by (simp_all del: replicate.simps)
  have f: "\<not> first_is is_space what" "\<not> first_is is_space (w @ z)"
    using assms(1) w first_is_append [of what is_space "[]"] first_is_append [of w is_space z] by (simp_all add: label_def)
  have "what = w @ z"
    using span_unique(2) [of is_space ?g what] span_unique(2) [of is_space b2 "w @ z"] pad_spaces [of "Suc gap"] b2 2(2) f
    by (simp del: replicate.simps)
  moreover have "z = []"
    using calculation assms(1) z by (cases z rule: rev_cases) (auto simp: label_def)
  ultimately show ?thesis using 2(1) by simp
qed

text \<open>A literal at the end of a row: the pattern matches when it is the whole label.\<close>

definition rx_row_of :: "rx \<Rightarrow> rx \<Rightarrow> rx" where
  "rx_row_of number x = rx_seq [RBegin, rx_some is_space, number, rx_some is_space, x, rx_many is_space, REnd]"

lemma end_ahead: "rxm REnd s t \<Longrightarrow> list_all is_space (ahead s)"
  by (erule rxm_endE) (auto simp: NL_def is_space_def char_code_def)

lemma row_parts:
  assumes m: "rxm (rx_row_of number x) ([], line, c) t"
    and num: "\<And>s t. rxm number s t \<Longrightarrow> \<exists>d. list_all is_digit d \<and> d \<noteq> [] \<and> ahead s = d @ ahead t"
    and x: "\<And>s t. rxm x s t \<Longrightarrow> \<exists>w. Q w \<and> ahead s = w @ ahead t"
  shows "\<exists>b d b2 w z. line = b @ d @ b2 @ w @ z \<and> list_all is_space b \<and> b \<noteq> [] \<and> list_all is_digit d \<and> d \<noteq> [] \<and>
    list_all is_space b2 \<and> b2 \<noteq> [] \<and> Q w \<and> list_all is_space z"
proof -
  obtain t1 t2 t3 t4 t5 t6 where s: "rxm RBegin ([], line, c) t1" "rxm (rx_some is_space) t1 t2" "rxm number t2 t3"
    "rxm (rx_some is_space) t3 t4" "rxm x t4 t5" "rxm (rx_many is_space) t5 t6" "rxm REnd t6 t"
    using m unfolding rx_row_of_def rx_seq.simps by (elim rxm_seqE) blast
  have t1: "t1 = ([], line, c)" using s(1) by (rule rxm_beginE) simp
  obtain b where b: "list_all is_space b" "b \<noteq> []" "line = b @ ahead t2" using rxm_some [OF s(2)] t1 by auto
  obtain d where d: "list_all is_digit d" "d \<noteq> []" "ahead t2 = d @ ahead t3" using num [OF s(3)] by auto
  obtain b2 where b2: "list_all is_space b2" "b2 \<noteq> []" "ahead t3 = b2 @ ahead t4" using rxm_some [OF s(4)] by auto
  obtain w where w: "Q w" "ahead t4 = w @ ahead t5" using x [OF s(5)] by auto
  obtain z where z: "list_all is_space z" "ahead t5 = z @ ahead t6" using rxm_many [OF s(6)] by auto
  have "line = b @ d @ b2 @ w @ (z @ ahead t6)" using b d b2 w z by simp
  moreover have "list_all is_space (z @ ahead t6)" using z(1) end_ahead [OF s(7)] by simp
  ultimately show ?thesis using b d b2 w by blast
qed

lemma rxm_number: "rxm (rx_some is_digit) s t \<Longrightarrow> \<exists>d. list_all is_digit d \<and> d \<noteq> [] \<and> ahead s = d @ ahead t"
  by (rule rxm_some)

lemma rxm_number_group: "rxm (RGroup 1 (rx_some is_digit)) s t \<Longrightarrow> \<exists>d. list_all is_digit d \<and> d \<noteq> [] \<and> ahead s = d @ ahead t"
  using rxm_grp rxm_some by metis

lemma row_no_match:
  assumes l: "label what"
    and num: "\<And>s t. rxm number s t \<Longrightarrow> \<exists>d. list_all is_digit d \<and> d \<noteq> [] \<and> ahead s = d @ ahead t"
    and x: "\<And>s t. rxm x s t \<Longrightarrow> \<exists>w. Q w \<and> ahead s = w @ ahead t"
    and q: "\<And>w. Q w \<Longrightarrow> w \<noteq> [] \<and> \<not> is_space (hd w)" "\<not> Q what"
  shows "re_match (rx_row_of number x) (row_text pad gap n what) = None"
proof (rule ccontr)
  assume "re_match (rx_row_of number x) (row_text pad gap n what) \<noteq> None"
  then obtain t where "mt (rx_row_of number x) Some ([], row_text pad gap n what, \<lambda>_. None) = Some t"
    by (auto simp: re_match_def rx_at_def)
  then obtain u where u: "rxm (rx_row_of number x) ([], row_text pad gap n what, \<lambda>_. None) u" using mt_sound by blast
  obtain b d b2 w z where p: "row_text pad gap n what = b @ d @ b2 @ w @ z" "list_all is_space b" "b \<noteq> []" "list_all is_digit d" "d \<noteq> []"
    "list_all is_space b2" "b2 \<noteq> []" "Q w" "list_all is_space z"
    using row_parts [where Q = Q, OF u num x] by blast
  have "w = what" using row_unique [OF l p(1-7) _ _ p(9)] q(1) [OF p(8)] by blast
  then show False using p(8) q(2) by simp
qed

lemma row_lit_none:
  assumes "label what" "label l" "l \<noteq> what"
  shows "re_match (rx_row_of (rx_some is_digit) (rx_lit l)) (row_text pad gap n what) = None"
    "re_match (rx_row_of (RGroup 1 (rx_some is_digit)) (rx_lit l)) (row_text pad gap n what) = None"
  by (rule row_no_match [where Q = "\<lambda>w. w = l"]; use assms rxm_number rxm_number_group rxm_lit in \<open>auto simp: label_def\<close>)+

lemma rx_row_eq: "rx_row = rx_row_of (RGroup 1 (rx_some is_digit)) (RGroup 2 (rx_some non_space))"
  by (simp add: rx_row_def rx_row_of_def)

lemma row_word_none:
  assumes "label what" "\<not> list_all non_space what"
  shows "re_match rx_row (row_text pad gap n what) = None"
  unfolding rx_row_eq
proof (rule row_no_match [where Q = "\<lambda>w. list_all non_space w \<and> w \<noteq> []", OF assms(1) rxm_number_group])
  show "\<exists>w. (list_all non_space w \<and> w \<noteq> []) \<and> ahead s = w @ ahead t" if "rxm (RGroup 2 (rx_some non_space)) s t" for s t
    using rxm_grp [OF that] rxm_some by metis
  show "w \<noteq> [] \<and> \<not> is_space (hd w)" if "list_all non_space w \<and> w \<noteq> []" for w
    using that by (cases w) (auto simp: non_space_def)
  show "\<not> (list_all non_space what \<and> what \<noteq> [])" using assms(2) by simp
qed

lemma consumed_append [simp]: "consumed (p, u @ v, c) (q, v, c') = u"
  by (simp add: consumed_def)

lemma row_match:
  assumes l: "label what"
    and num: "number = rx_some is_digit \<and> c' = c \<or> number = RGroup 1 (rx_some is_digit) \<and> c' = c(1 \<mapsto> dec_str n)"
    and m: "\<And>p. mt x (mt (rx_many is_space) (mt REnd Some)) (p, what, c') = Some (f p)"
  shows "\<exists>p. mt (rx_row_of number x) Some ([], row_text pad gap n what, c) = Some (f p)"
proof -
  let ?k = "mt x (mt (rx_many is_space) (mt REnd Some))"
  have f: "\<not> first_is is_space what" using l first_is_append [of what is_space "[]"] by (simp add: label_def)
  let ?sp = "replicate (Suc pad) (CHR 0x20)" let ?g = "replicate (Suc gap) (CHR 0x20)"
  let ?p2 = "rev (dec_str n) @ rev ?sp" let ?p = "rev ?g @ ?p2"
  have g: "\<not> first_is is_digit (?g @ what)" by simp
  have 1: "mt (rx_some is_space) ?k (?p2, ?g @ what, c') = Some (f ?p)"
    by (rule mt_some [OF pad_spaces _ f]) (simp, rule m)
  have 2: "mt number (mt (rx_some is_space) ?k) (rev ?sp, dec_str n @ ?g @ what, c) = Some (f ?p)"
  proof (cases "number = rx_some is_digit")
    case True
    then have "c' = c" using num by (auto simp: rx_some_def)
    show ?thesis unfolding True
      by (rule mt_some [OF dec_str_digits _ g]) (use 1 \<open>c' = c\<close> in \<open>simp_all del: replicate.simps\<close>)
  next
    case False
    then have n: "number = RGroup 1 (rx_some is_digit)" "c' = c(1 \<mapsto> dec_str n)" using num by auto
    have "mt (rx_some is_digit) (\<lambda>t. mt (rx_some is_space) ?k (behind t, ahead t,
        (caps t)(1 \<mapsto> consumed (rev ?sp, dec_str n @ ?g @ what, c) t))) (rev ?sp, dec_str n @ ?g @ what, c) = Some (f ?p)"
      by (rule mt_some [OF dec_str_digits _ g]) (use 1 n(2) in \<open>simp_all add: consumed_def del: replicate.simps\<close>)
    then show ?thesis unfolding n(1) mt.simps .
  qed
  have "mt (rx_some is_space) (mt number (mt (rx_some is_space) ?k)) ([], ?sp @ dec_str n @ ?g @ what, c) = Some (f ?p)"
    by (rule mt_some [OF pad_spaces _ dec_str_first]) (simp, use 2 in \<open>simp only: append_Nil2\<close>)
  then show ?thesis by (auto simp: rx_row_of_def row_text_def simp del: replicate.simps)
qed

lemma mt_tail: "mt (rx_many is_space) (mt REnd Some) (p, [], c) = Some (p, [], c)"
  using mt_many [of is_space "[]" "[]" "mt REnd Some" p c] by simp

lemma row_lit_match:
  assumes "label l"
  shows "re_match (rx_row_of (rx_some is_digit) (rx_lit l)) (row_text pad gap n l) \<noteq> None"
    "\<exists>t. re_match (rx_row_of (RGroup 1 (rx_some is_digit)) (rx_lit l)) (row_text pad gap n l) = Some t \<and> mgroup t 1 = dec_str n"
proof -
  have m: "mt (rx_lit l) (mt (rx_many is_space) (mt REnd Some)) (p, l, c) = Some (rev l @ p, [], c)" for p c
    using prefix_of_append [of l "[]"] by (simp add: mt_lit mt_tail)
  show "re_match (rx_row_of (rx_some is_digit) (rx_lit l)) (row_text pad gap n l) \<noteq> None"
    using row_match [OF assms, of "rx_some is_digit" "\<lambda>_. None" "\<lambda>_. None" n "rx_lit l" "\<lambda>p. (rev l @ p, [], \<lambda>_. None)" pad gap] m
    by (auto simp: re_match_def rx_at_def)
  show "\<exists>t. re_match (rx_row_of (RGroup 1 (rx_some is_digit)) (rx_lit l)) (row_text pad gap n l) = Some t \<and> mgroup t 1 = dec_str n"
    using row_match [OF assms, of "RGroup 1 (rx_some is_digit)" "[1 \<mapsto> dec_str n]" "\<lambda>_. None" n "rx_lit l" "\<lambda>p. (rev l @ p, [], [1 \<mapsto> dec_str n])" pad gap] m
    by (auto simp: re_match_def rx_at_def mgroup_def)
qed

lemma row_word_match:
  assumes "list_all non_space what" "what \<noteq> []"
  shows "\<exists>t. re_match rx_row (row_text pad gap n what) = Some t \<and> mgroup t 1 = dec_str n \<and> mgroup t 2 = what"
proof -
  have l: "label what" using assms by (auto simp: label_def list_all_iff non_space_def)
  have m: "mt (RGroup 2 (rx_some non_space)) (mt (rx_many is_space) (mt REnd Some)) (p, what, c) = Some (rev what @ p, [], c(2 \<mapsto> what))" for p c
    using mt_some [of non_space what "[]" "\<lambda>t. mt (rx_many is_space) (mt REnd Some) (behind t, ahead t, (caps t)(2 \<mapsto> consumed (p, what, c) t))" p c] assms
    by (simp add: mt_tail consumed_def)
  show ?thesis unfolding rx_row_eq
    using row_match [OF l, of "RGroup 1 (rx_some is_digit)" "[1 \<mapsto> dec_str n]" "\<lambda>_. None" n "RGroup 2 (rx_some non_space)" "\<lambda>p. (rev what @ p, [], [1 \<mapsto> dec_str n, 2 \<mapsto> what])" pad gap] m
    by (auto simp: re_match_def rx_at_def mgroup_def)
qed

section \<open>Lines of the statistics\<close>

lemma label_word: "list_all non_space w \<Longrightarrow> w \<noteq> [] \<Longrightarrow> label w"
  by (auto simp: label_def list_all_iff non_space_def)

lemma fixed_labels: "label ''submodules'' \<and> label ''port bits'' \<and> label ''wire bits'' \<and> label ''ports'' \<and> label ''cells''"
  by (simp add: label_def is_space_def char_code_def)

lemma row_not_head: "re_match rx_head (row_text pad gap n w) = None"
  by (simp add: re_match_def rx_at_def rx_head_def mt_lit row_text_def)

lemma strip_nonempty: "\<not> list_all is_space s \<Longrightarrow> py_strip s \<noteq> []"
proof -
  assume "\<not> list_all is_space s"
  then obtain c where c: "c \<in> set s" "\<not> is_space c" by (auto simp: list_all_iff)
  then have "c \<in> set (dropWhile is_space s)" by (metis in_set_conv_decomp set_dropWhileD set_takeWhileD takeWhile_dropWhile_id Un_iff set_append)
  then have "c \<in> set (dropWhile is_space (rev (dropWhile is_space s)))"
    using c(2) by (metis set_rev set_takeWhileD takeWhile_dropWhile_id Un_iff set_append)
  then have "dropWhile is_space (rev (dropWhile is_space s)) \<noteq> []" by (metis empty_iff empty_set)
  then show ?thesis by (simp only: py_strip_def py_lstrip_def py_rstrip_def rev_is_Nil_conv not_False_eq_True)
qed

lemma row_not_blank: "py_strip (row_text pad gap n w) \<noteq> []"
proof -
  have "\<not> list_all is_space (dec_str n)"
    using dec_str_first [of n "[]"] by (cases "dec_str n") (auto dest: dec_str_nonempty [of n, THEN notE])
  then show ?thesis by (intro strip_nonempty) (simp add: row_text_def)
qed

lemma rx_rows:
  "rx_subs = rx_row_of (rx_some is_digit) (rx_lit ''submodules'')"
  "rx_port_bits = rx_row_of (RGroup 1 (rx_some is_digit)) (rx_lit ''port bits'')"
  "rx_wire_bits = rx_row_of (RGroup 1 (rx_some is_digit)) (rx_lit ''wire bits'')"
  by (simp_all add: rx_subs_def rx_port_bits_def rx_wire_bits_def rx_row_of_def)

lemma stat_subs: "stat_line (row_text pad gap n ''submodules'') (mods, Some k, b) = (mods, Some k, True)"
  using row_lit_match(1) [of "''submodules''" pad gap n] fixed_labels by (simp add: stat_line_def row_not_head rx_rows)

lemma stat_port_bits:
  "stat_line (row_text pad gap n ''port bits'') (mods, Some k, b) = (upd_cur k (ms_port_bits_update (\<lambda>_. n)) mods, Some k, False)"
  using row_lit_match(2) [of "''port bits''" pad gap n] row_lit_none(1) [of "''port bits''" "''submodules''" pad gap n] fixed_labels
  by (auto simp: stat_line_def row_not_head rx_rows digits_val_dec)

lemma stat_wire_bits:
  "stat_line (row_text pad gap n ''wire bits'') (mods, Some k, b) = (upd_cur k (ms_wire_bits_update (\<lambda>_. n)) mods, Some k, False)"
  using row_lit_match(2) [of "''wire bits''" pad gap n] row_lit_none(1) [of "''wire bits''" "''submodules''" pad gap n]
    row_lit_none(2) [of "''wire bits''" "''port bits''" pad gap n] fixed_labels
  by (auto simp: stat_line_def row_not_head rx_rows digits_val_dec)

lemma row_plain:
  assumes "label w" "w \<notin> {''submodules'', ''port bits'', ''wire bits''}"
  shows "stat_line (row_text pad gap n w) (mods, Some k, b) =
    (case re_match rx_row (row_text pad gap n w) of
       Some m \<Rightarrow> (let n = digits_val (mgroup m 1); what = mgroup m 2 in
           (if b then upd_cur k (ms_subs_update (count_add (strip_slashes what) n)) mods
            else if what = ''ports'' then upd_cur k (ms_ports_update (\<lambda>_. n)) mods
            else if what = ''cells'' then upd_cur k (ms_cells_update (\<lambda>_. n)) mods
            else mods, Some k, b))
     | None \<Rightarrow> (mods, Some k, False))"
proof -
  have "re_match rx_subs (row_text pad gap n w) = None" "re_match rx_port_bits (row_text pad gap n w) = None"
    "re_match rx_wire_bits (row_text pad gap n w) = None"
    unfolding rx_rows using assms fixed_labels by (intro row_lit_none; auto)+
  then show ?thesis by (simp add: stat_line_def row_not_head row_not_blank)
qed

lemma stat_word:
  assumes "list_all non_space w" "w \<noteq> []" "w \<noteq> ''submodules''"
  shows "stat_line (row_text pad gap n w) (mods, Some k, b) =
    (if b then upd_cur k (ms_subs_update (count_add (strip_slashes w) n)) mods
     else if w = ''ports'' then upd_cur k (ms_ports_update (\<lambda>_. n)) mods
     else if w = ''cells'' then upd_cur k (ms_cells_update (\<lambda>_. n)) mods
     else mods, Some k, b)"
proof -
  have "w \<noteq> ''port bits'' \<and> w \<noteq> ''wire bits''" using assms(1) by (auto simp: non_space_def)
  then show ?thesis
    using row_plain [OF label_word [OF assms(1,2)]] row_word_match [OF assms(1,2), of pad gap n] assms(3)
    by (auto simp: digits_val_dec)
qed

lemma stat_words:
  assumes "label w" "\<not> list_all non_space w" "w \<noteq> ''port bits''" "w \<noteq> ''wire bits''"
  shows "stat_line (row_text pad gap n w) (mods, Some k, b) = (mods, Some k, False)"
proof -
  have "list_all non_space ''submodules''" by (simp add: non_space_def is_space_def char_code_def)
  then have "w \<noteq> ''submodules''" using assms(2) by auto
  then show ?thesis using row_plain [OF assms(1)] row_word_none [OF assms(1,2)] assms by auto
qed

lemma stat_blank: "stat_line [] (mods, Some k, b) = (mods, Some k, b)"
proof -
  have "rx_some P = RSeq (RSet P) (rx_many P)" for P by (simp add: rx_some_def rx_many_def)
  then show ?thesis
    by (simp add: stat_line_def re_match_def rx_at_def rx_head_def rx_subs_def rx_port_bits_def rx_wire_bits_def rx_row_def
        mt_lit py_strip_def py_lstrip_def py_rstrip_def)
qed

definition head_line :: "string \<Rightarrow> string" where "head_line nm = ''=== '' @ nm @ '' ===''"

lemma head_match:
  assumes "list_all non_space nm" "nm \<noteq> []"
  shows "\<exists>t. re_match rx_head (head_line nm) = Some t \<and> mgroup t 1 = nm"
proof -
  have lit: "''=== '' @ x = CHR ''='' # CHR ''='' # CHR ''='' # CHR 0x20 # x" for x by simp
  have "mt (rx_some non_space) (\<lambda>t. mt (rx_lit '' ==='') Some (behind t, ahead t, (caps t)(1 \<mapsto> consumed ('' ==='', nm @ '' ==='', Map.empty) t)))
      ('' ==='', nm @ '' ==='', Map.empty) = Some (rev '' ==='' @ rev nm @ '' ==='', [], [1 \<mapsto> nm])"
    by (rule mt_some) (use assms in \<open>simp_all add: mt_lit consumed_def non_space_def\<close>)
  then show ?thesis
    by (simp add: re_match_def rx_at_def rx_head_def head_line_def mt_lit mgroup_def)
qed

lemma stat_head:
  assumes "list_all non_space nm" "nm \<noteq> []"
  shows "stat_line (head_line nm) (mods, cur, b) =
    (if strip_slashes nm \<in> fst ` set mods then mods else dict_set (strip_slashes nm) empty_stat mods, Some (strip_slashes nm), False)"
proof -
  obtain t where t: "re_match rx_head (head_line nm) = Some t" "mgroup t 1 = nm" using head_match [OF assms] by blast
  show ?thesis unfolding stat_line_def t(1) prod.case option.case t(2) Let_def by simp
qed

text \<open>A line whose first visible character is not a digit is no row.\<close>

definition text_line :: "string \<Rightarrow> bool" where
  "text_line l \<longleftrightarrow> \<not> first_is is_digit (dropWhile is_space l) \<and> \<not> prefix_of ''=== '' l"

lemma text_no_row:
  assumes "text_line l"
    and num: "\<And>s t. rxm number s t \<Longrightarrow> \<exists>d. list_all is_digit d \<and> d \<noteq> [] \<and> ahead s = d @ ahead t"
    and x: "\<And>s t. rxm x s t \<Longrightarrow> \<exists>w. Q w \<and> ahead s = w @ ahead t"
  shows "re_match (rx_row_of number x) l = None"
proof (rule ccontr)
  assume "re_match (rx_row_of number x) l \<noteq> None"
  then obtain t where "mt (rx_row_of number x) Some ([], l, \<lambda>_. None) = Some t"
    by (auto simp: re_match_def rx_at_def)
  then obtain u where u: "rxm (rx_row_of number x) ([], l, \<lambda>_. None) u" using mt_sound by blast
  obtain b d b2 w z where p: "l = b @ d @ b2 @ w @ z" "list_all is_space b" "list_all is_digit d" "d \<noteq> []"
    using row_parts [where Q = Q, OF u num x] by blast
  then obtain c cs where d: "d = c # cs" "is_digit c" by (cases d) auto
  have "\<not> is_space c" using d(2) by (auto simp: is_digit_def is_space_def)
  then have "dropWhile is_space l = d @ b2 @ w @ z"
    using span_unique(2) [of is_space b "d @ b2 @ w @ z"] p(1,2) d(1) by simp
  then show False using assms(1) d by (simp add: text_line_def)
qed

lemma no_head: "\<not> prefix_of ''=== '' l \<Longrightarrow> re_match rx_head l = None"
proof (rule ccontr)
  assume n: "\<not> prefix_of ''=== '' l" and "re_match rx_head l \<noteq> None"
  then obtain t where "mt (rx_lit ''=== '') (mt (RGroup 1 (rx_some non_space)) (mt (rx_lit '' ==='') Some)) ([], l, \<lambda>_. None) = Some t"
    by (auto simp: re_match_def rx_at_def rx_head_def fun_eq_iff)
  then show False using n by (simp add: mt_lit)
qed

lemma text_lit_none:
  assumes "text_line l"
  shows "re_match (rx_row_of (rx_some is_digit) (rx_lit m)) l = None"
    "re_match (rx_row_of (RGroup 1 (rx_some is_digit)) (rx_lit m)) l = None"
  by (rule text_no_row [OF assms, where Q = "\<lambda>_. True"]; use rxm_number rxm_number_group rxm_lit in blast)+

lemma stat_textline:
  assumes "text_line l"
  shows "stat_line l (mods, Some k, False) = (mods, Some k, False)"
proof -
  have "re_match rx_subs l = None" "re_match rx_port_bits l = None" "re_match rx_wire_bits l = None"
    unfolding rx_rows using text_lit_none [OF assms] by blast+
  moreover have "re_match rx_row l = None"
    unfolding rx_row_eq
  proof (rule text_no_row [OF assms, where Q = "\<lambda>w. list_all non_space w \<and> w \<noteq> []"])
    show "\<exists>w. (list_all non_space w \<and> w \<noteq> []) \<and> ahead s = w @ ahead t" if "rxm (RGroup 2 (rx_some non_space)) s t" for s t
      using rxm_grp [OF that] rxm_some by metis
  qed (rule rxm_number_group)
  ultimately show ?thesis using no_head assms by (simp add: stat_line_def text_line_def)
qed

section \<open>Reports\<close>

text \<open>What Yosys prints of one module: rows of figures in any order, each with a number of blanks before and after its number,
  and lines of text (\<open>+----------Local Count\<close>, bars, \<open>- memories\<close>, blank lines) among them; at the end the submodules.\<close>

datatype stat_item = SRow nat nat nat string | SText string

record stat_block =
  sb_name :: string
  sb_items :: "stat_item list"
  sb_head :: "nat \<times> nat \<times> nat"
  sb_subs :: "(nat \<times> nat \<times> nat \<times> string) list"

fun item_text :: "stat_item \<Rightarrow> string" where
  "item_text (SRow pad gap n w) = row_text pad gap n w"
| "item_text (SText l) = l"

fun item_ok :: "stat_item \<Rightarrow> bool" where
  "item_ok (SRow pad gap n w) = (label w \<and> plain_line w \<and> w \<noteq> ''submodules'')"
| "item_ok (SText l) = (text_line l \<and> plain_line l)"

text \<open>The figures that count: the last row of each kind.\<close>

fun item_fact :: "stat_item \<Rightarrow> mod_stat \<Rightarrow> mod_stat" where
  "item_fact (SRow pad gap n w) =
    (if w = ''ports'' then ms_ports_update (\<lambda>_. n)
     else if w = ''port bits'' then ms_port_bits_update (\<lambda>_. n)
     else if w = ''cells'' then ms_cells_update (\<lambda>_. n)
     else if w = ''wire bits'' then ms_wire_bits_update (\<lambda>_. n)
     else id)"
| "item_fact (SText l) = id"

definition word_ok :: "string \<Rightarrow> bool" where
  "word_ok w \<longleftrightarrow> w \<noteq> [] \<and> list_all non_space w \<and> w \<noteq> ''submodules''"

definition block_ok :: "stat_block \<Rightarrow> bool" where
  "block_ok b \<longleftrightarrow> word_ok (sb_name b) \<and> list_all item_ok (sb_items b) \<and> list_all (\<lambda>(pad, gap, n, w). word_ok w) (sb_subs b)"

definition sub_lines :: "stat_block \<Rightarrow> string list" where
  "sub_lines b = (if sb_subs b = [] then []
     else (case sb_head b of (pad, gap, n) \<Rightarrow> row_text pad gap n ''submodules'') # map (\<lambda>(pad, gap, n, w). row_text pad gap n w) (sb_subs b))"

definition block_lines :: "stat_block \<Rightarrow> string list" where
  "block_lines b = head_line (sb_name b) # map item_text (sb_items b) @ sub_lines b @ [[]]"

definition block_fact :: "stat_block \<Rightarrow> string \<times> mod_stat" where
  "block_fact b = (strip_slashes (sb_name b),
     (fold item_fact (sb_items b) empty_stat)\<lparr>ms_subs := fold (\<lambda>(pad, gap, n, w). count_add (strip_slashes w) n) (sb_subs b) []\<rparr>)"

lemma dict_set_new: "k \<notin> fst ` set d \<Longrightarrow> dict_set k v d = d @ [(k, v)]"
  by (induction d) auto

lemma upd_cur_last: "k \<notin> fst ` set mods \<Longrightarrow> upd_cur k f (mods @ [(k, s)]) = mods @ [(k, f s)]"
proof -
  assume k: "k \<notin> fst ` set mods"
  then have "map_of mods k = None" by (simp add: map_of_eq_None_iff)
  moreover have "dict_set k v (mods @ [(k, s)]) = mods @ [(k, v)]" for v using k by (induction mods) auto
  ultimately show ?thesis by (simp add: upd_cur_def dict_get_def map_add_def)
qed

lemma not_hier: "\<not> prefix_of HIER (row_text pad gap n w)" "\<not> prefix_of HIER []"
  by (simp_all add: HIER_def row_text_def)

lemma head_not_hier:
  assumes "list_all non_space nm" "nm \<noteq> []"
  shows "\<not> prefix_of HIER (head_line nm)"
proof
  assume "prefix_of HIER (head_line nm)"
  then obtain r where "head_line nm = HIER @ r" by (auto simp: prefix_of_iff)
  then have "nm @ '' ==='' = ''design'' @ '' hierarchy ==='' @ r" by (simp add: head_line_def HIER_def)
  moreover have "takeWhile non_space (nm @ '' ==='') = nm" "takeWhile non_space (''design'' @ '' hierarchy ==='' @ r) = ''design''"
    by (rule span_unique, use assms in \<open>simp_all add: non_space_def is_space_def char_code_def\<close>)+
  moreover have "dropWhile non_space (nm @ '' ==='') = '' ===''" "dropWhile non_space (''design'' @ '' hierarchy ==='' @ r) = '' hierarchy ==='' @ r"
    by (rule span_unique, use assms in \<open>simp_all add: non_space_def is_space_def char_code_def\<close>)+
  ultimately show False by simp
qed

lemma item_not_hier: "item_ok i \<Longrightarrow> \<not> prefix_of HIER (item_text i)"
proof (cases i)
  case (SText l)
  assume "item_ok i"
  then have "\<not> prefix_of ''=== '' l" using SText by (simp add: text_line_def)
  then show ?thesis using SText by (auto simp: HIER_def prefix_of_iff)
qed (use not_hier in auto)

lemma item_step:
  assumes "k \<notin> fst ` set mods" "item_ok i"
  shows "stat_line (item_text i) (mods @ [(k, s)], Some k, False) = (mods @ [(k, item_fact i s)], Some k, False)"
proof (cases i)
  case (SText l)
  then show ?thesis using assms stat_textline [of l "mods @ [(k, s)]" k] by simp
next
  case (SRow pad gap n w)
  have f: "list_all non_space ''ports'' \<and> list_all non_space ''cells''" by (simp add: non_space_def is_space_def char_code_def)
  consider "w = ''port bits''" | "w = ''wire bits''" | "list_all non_space w" "w \<noteq> []" "w \<noteq> ''submodules''" "w \<noteq> ''port bits''" "w \<noteq> ''wire bits''"
    | "label w" "\<not> list_all non_space w" "w \<noteq> ''port bits''" "w \<noteq> ''wire bits''" "w \<noteq> ''ports''" "w \<noteq> ''cells''"
  proof -
    have w: "label w" "w \<noteq> ''submodules''" using assms(2) SRow by simp_all
    then have "w \<noteq> []" by (simp add: label_def)
    then show thesis using w f that by blast
  qed
  then show ?thesis
  proof cases
    case 3
    then show ?thesis using assms(1) SRow stat_word [OF 3(1-3), of pad gap n "mods @ [(k, s)]" k False] by (simp add: upd_cur_last)
  next
    case 4
    then show ?thesis using SRow stat_words [OF 4(1-4), of pad gap n "mods @ [(k, s)]" k False] by simp
  qed (use assms(1) SRow in \<open>simp_all add: upd_cur_last stat_port_bits stat_wire_bits\<close>)
qed

lemma items_steps:
  assumes "k \<notin> fst ` set mods" "list_all item_ok is"
  shows "stat_lines (map item_text is @ rest) (mods @ [(k, s)], Some k, False) =
    stat_lines rest (mods @ [(k, fold item_fact is s)], Some k, False)"
  using assms(2)
proof (induction "is" arbitrary: s)
  case (Cons i "is")
  then show ?case using item_not_hier [of i] item_step [OF assms(1), of i s] by simp
qed simp

lemma subs_steps:
  assumes "k \<notin> fst ` set mods" "list_all (\<lambda>(pad, gap, n, w). word_ok w) ss"
  shows "stat_lines (map (\<lambda>(pad, gap, n, w). row_text pad gap n w) ss @ rest) (mods @ [(k, s)], Some k, True) =
    stat_lines rest (mods @ [(k, s\<lparr>ms_subs := fold (\<lambda>(pad, gap, n, w). count_add (strip_slashes w) n) ss (ms_subs s)\<rparr>)], Some k, True)"
  using assms(2)
proof (induction ss arbitrary: s)
  case (Cons x ss)
  obtain pad gap n w where x: "x = (pad, gap, n, w)" by (cases x)
  then have "stat_line (row_text pad gap n w) (mods @ [(k, s)], Some k, True) =
      (mods @ [(k, ms_subs_update (count_add (strip_slashes w) n) s)], Some k, True)"
    using Cons.prems stat_word [of w pad gap n "mods @ [(k, s)]" k True] assms(1) by (simp add: word_ok_def upd_cur_last)
  then show ?case using Cons x by (simp add: not_hier)
qed simp

lemma item_fact_subs: "ms_subs (fold item_fact is s) = ms_subs s"
proof (induction "is" arbitrary: s)
  case (Cons j "is")
  then show ?case by (cases j) auto
qed simp

lemma block_steps:
  assumes "block_ok b" "strip_slashes (sb_name b) \<notin> fst ` set mods"
  shows "\<exists>c. stat_lines (block_lines b @ rest) (mods, cur, i) = stat_lines rest (mods @ [block_fact b], Some (strip_slashes (sb_name b)), c)"
proof -
  let ?k = "strip_slashes (sb_name b)" and ?s = "fold item_fact (sb_items b) empty_stat"
  have b: "list_all non_space (sb_name b)" "sb_name b \<noteq> []" "list_all item_ok (sb_items b)" "list_all (\<lambda>(pad, gap, n, w). word_ok w) (sb_subs b)"
    using assms(1) by (auto simp: block_ok_def word_ok_def)
  have s0: "ms_subs ?s = []" using item_fact_subs by (simp add: empty_stat_def)
  then have e: "?s = ?s\<lparr>ms_subs := []\<rparr>" by simp
  have blank: "stat_lines ([] # rest) (m, Some ?k, c) = stat_lines rest (m, Some ?k, c)" for m c
    by (simp add: not_hier stat_blank)
  have "stat_lines (block_lines b @ rest) (mods, cur, i) =
      stat_lines (sub_lines b @ [] # rest) (mods @ [(?k, ?s)], Some ?k, False)"
    using stat_head [OF b(1,2), of mods cur i] head_not_hier [OF b(1,2)] assms(2) items_steps [OF assms(2) b(3)]
    by (simp add: block_lines_def dict_set_new)
  also have "\<dots> = stat_lines rest (mods @ [block_fact b], Some ?k, sb_subs b \<noteq> [])"
  proof (cases "sb_subs b = []")
    case True
    then show ?thesis using e blank by (simp add: sub_lines_def block_fact_def)
  next
    case False
    obtain pad gap n where h: "sb_head b = (pad, gap, n)" by (cases "sb_head b")
    show ?thesis
      using False subs_steps [OF assms(2) b(4), of "[] # rest" ?s] blank s0
      by (simp add: sub_lines_def h not_hier stat_subs block_fact_def)
  qed
  finally show ?thesis by blast
qed

lemma blocks_steps:
  assumes "list_all block_ok bs" "distinct (map (\<lambda>b. strip_slashes (sb_name b)) bs)" "prefix_of HIER l"
    "\<forall>b \<in> set bs. strip_slashes (sb_name b) \<notin> fst ` set mods"
  shows "fst (stat_lines (concat (map block_lines bs) @ l # rest) (mods, cur, i)) = mods @ map block_fact bs"
  using assms(1,2,4)
proof (induction bs arbitrary: mods cur i)
  case Nil
  then show ?case using assms(3) by simp
next
  case (Cons b bs)
  obtain c where c: "stat_lines (block_lines b @ concat (map block_lines bs) @ l # rest) (mods, cur, i) =
      stat_lines (concat (map block_lines bs) @ l # rest) (mods @ [block_fact b], Some (strip_slashes (sb_name b)), c)"
    using block_steps [of b mods "concat (map block_lines bs) @ l # rest" cur i] Cons.prems by auto
  have "fst (block_fact b) = strip_slashes (sb_name b)" by (simp add: block_fact_def)
  then have "\<forall>b' \<in> set bs. strip_slashes (sb_name b') \<notin> fst ` set (mods @ [block_fact b])"
    using Cons.prems(2,3) by (auto simp: image_iff)
  then show ?case using c Cons.IH [of "mods @ [block_fact b]"] Cons.prems by simp
qed

text \<open>The lines of the log before the first heading are skipped.\<close>

lemma log_skipped:
  assumes "list_all (\<lambda>l. \<not> prefix_of ''=== '' l) ls"
  shows "stat_lines (ls @ rest) ([], None, False) = stat_lines rest ([], None, False)"
  using assms
proof (induction ls)
  case (Cons l ls)
  have n: "\<not> prefix_of ''=== '' l" using Cons.prems by simp
  then have "\<not> prefix_of HIER l" by (auto simp: HIER_def prefix_of_iff)
  then show ?case using Cons no_head [OF n] by (simp add: stat_line_def)
qed simp

section \<open>Texts of lines\<close>

definition unlines :: "string list \<Rightarrow> string" where "unlines ls = concat (map (\<lambda>l. l @ NL) ls)"

lemma split_lines_append: "plain_line l \<Longrightarrow> split_lines cur (l @ CHR 0x0A # s) = (rev cur @ l) # split_lines [] s"
  by (induction l arbitrary: cur) (auto simp: plain_line_def is_linebreak_def char_code_def split: list.splits)

lemma splitlines_unlines: "list_all plain_line ls \<Longrightarrow> py_splitlines (unlines ls @ s) = ls @ py_splitlines s"
  by (induction ls) (auto simp: unlines_def NL_def py_splitlines_def split_lines_append)

lemma split_lines_prefix: "plain_line l \<Longrightarrow> l \<noteq> [] \<Longrightarrow> \<exists>r rs. split_lines cur (l @ s) = (rev cur @ l @ r) # rs"
proof (induction l arbitrary: cur)
  case (Cons c l)
  show ?case
  proof (cases "l = []")
    case True
    have "\<exists>r rs. split_lines cur s = (rev cur @ r) # rs" if "cur \<noteq> []" for cur
      using that
    proof (induction s arbitrary: cur)
      case (Cons d s)
      then show ?case by (cases "is_linebreak d") (auto split: list.splits, fastforce)
    qed auto
    from this [of "c # cur"] show ?thesis using True Cons.prems by (auto simp: plain_line_def)
  next
    case False
    then show ?thesis using Cons.IH [of "c # cur"] Cons.prems by (auto simp: plain_line_def)
  qed
qed simp

lemma hier_line: "\<exists>l ls. py_splitlines (HIER @ s) = l # ls \<and> prefix_of HIER l"
proof -
  have "plain_line HIER" "HIER \<noteq> []" by (simp_all add: plain_line_def HIER_def is_linebreak_def char_code_def)
  then obtain r rs where "split_lines [] (HIER @ s) = (HIER @ r) # rs" using split_lines_prefix [of HIER "[]" s] by auto
  then show ?thesis by (auto simp: py_splitlines_def)
qed

lemma plain_append: "plain_line (a @ b) \<longleftrightarrow> plain_line a \<and> plain_line b"
  by (simp add: plain_line_def)

lemma space_of_linebreak: "is_linebreak c \<Longrightarrow> is_space c"
  by (auto simp: is_linebreak_def is_space_def)

lemma word_plain: "list_all non_space w \<Longrightarrow> plain_line w"
  using space_of_linebreak by (auto simp: plain_line_def list_all_iff non_space_def)

lemma row_plain_line: "plain_line w \<Longrightarrow> plain_line (row_text pad gap n w)"
proof -
  have b: "\<not> is_linebreak (CHR 0x20)" by (simp add: is_linebreak_def char_code_def)
  have "plain_line (replicate k (CHR 0x20))" for k by (induction k) (simp_all add: plain_line_def b)
  moreover have "plain_line (dec_str n)" unfolding plain_line_def
    using dec_str_chars [of n] by (rule list.pred_mono_strong) simp
  ultimately show "plain_line w \<Longrightarrow> plain_line (row_text pad gap n w)"
    using b by (simp only: row_text_def plain_line_def list_all_append list.pred_inject simp_thms)
qed

lemma block_plain: "block_ok b \<Longrightarrow> list_all plain_line (block_lines b)"
proof -
  assume b: "block_ok b"
  have f: "plain_line ''submodules'' \<and> plain_line ''=== '' \<and> plain_line '' ===''"
    by (simp add: plain_line_def is_linebreak_def char_code_def)
  have "plain_line (item_text i)" if "item_ok i" for i
    using that row_plain_line by (cases i) auto
  then have "list_all plain_line (map item_text (sb_items b))"
    using b by (auto simp: block_ok_def list_all_iff)
  moreover have "list_all plain_line (sub_lines b)"
  proof -
    have "plain_line (row_text pad gap n w)" if "word_ok w" for pad gap n w
      using that row_plain_line [OF word_plain] by (simp add: word_ok_def)
    then have "list_all plain_line (map (\<lambda>(pad, gap, n, w). row_text pad gap n w) (sb_subs b))"
      using b unfolding block_ok_def list.pred_map comp_def by (auto elim!: list.pred_mono_strong)
    then show ?thesis using f by (auto simp: sub_lines_def row_plain_line split: prod.split)
  qed
  moreover have "plain_line (head_line (sb_name b))"
    using b f word_plain [of "sb_name b"] by (simp add: block_ok_def word_ok_def head_line_def plain_line_def)
  ultimately show ?thesis by (simp add: block_lines_def) (simp add: plain_line_def)
qed

definition stat_text :: "string list \<Rightarrow> stat_block list \<Rightarrow> string" where
  "stat_text log bs = unlines (log @ concat (map block_lines bs))"

lemma parse_stat_text:
  assumes "list_all (\<lambda>l. plain_line l \<and> \<not> prefix_of ''=== '' l) log" "list_all block_ok bs"
    "distinct (map (\<lambda>b. strip_slashes (sb_name b)) bs)"
  shows "parse_stat (stat_text log bs @ HIER @ rest) = map block_fact bs"
proof -
  obtain l ls where l: "py_splitlines (HIER @ rest) = l # ls" "prefix_of HIER l" using hier_line by blast
  have "list_all plain_line (log @ concat (map block_lines bs))"
    using assms(1,2) block_plain by (fastforce simp: list_all_iff)
  then have "py_splitlines (stat_text log bs @ HIER @ rest) = log @ concat (map block_lines bs) @ l # ls"
    using splitlines_unlines l(1) by (simp add: stat_text_def)
  moreover have "list_all (\<lambda>l. \<not> prefix_of ''=== '' l) log" using assms(1) by (auto simp: list_all_iff)
  ultimately show ?thesis
    using blocks_steps [OF assms(2,3) l(2), of "[]" ls None False] log_skipped by (simp add: parse_stat_def)
qed

end
