(* ===== verification/BpTables.thy ===== *)
theory BpTables
  imports BpText
begin

text \<open>
  Reading back a printed opcode table and a printed port list: the patterns take each entry whole, and
  go on behind it.
\<close>

section \<open>One match after the other\<close>

lemma first_is_hd: "first_is P s \<longleftrightarrow> s \<noteq> [] \<and> P (hd s)"
  by (cases s) simp_all

lemma find_skip:
  "rx_at r pre (c # cs) = None \<Longrightarrow> find_from r pre (c # cs) = find_from r (c # pre) cs"
  by simp

lemma find_hit:
  "rx_at r pre s = Some t \<Longrightarrow> length (ahead t) < length s \<Longrightarrow> find_from r pre s = t # find_from r (behind t) (ahead t)"
  by (cases s) auto

lemma mt_opt_take: "mt a k s = Some x \<Longrightarrow> mt (rx_opt a) k s = Some x"
  by (simp add: rx_opt_def)

lemma mt_opt_skip: "mt a k s = None \<Longrightarrow> mt (rx_opt a) k s = k s"
  by (simp add: rx_opt_def)

lemma mt_grp_some:
  "list_all P u \<Longrightarrow> u \<noteq> [] \<Longrightarrow> \<not> first_is P v \<Longrightarrow> k (rev u @ p, v, c(n \<mapsto> u)) = Some x \<Longrightarrow>
    mt (RGroup n (rx_some P)) k (p, u @ v, c) = Some x"
  unfolding mt.simps by (rule mt_some) (simp_all add: consumed_def)

lemma mt_grp_many:
  "list_all P u \<Longrightarrow> \<not> first_is P v \<Longrightarrow> k (rev u @ p, v, c(n \<mapsto> u)) = Some x \<Longrightarrow>
    mt (RGroup n (rx_many P)) k (p, u @ v, c) = Some x"
  unfolding mt.simps by (rule mt_many) (simp_all add: consumed_def)

lemma mt_lit_take: "mt (rx_lit l) k (p, l @ s, c) = k (rev l @ p, s, c)"
  by (simp add: mt_lit)

lemma mt_lit_miss: "\<not> prefix_of l s \<Longrightarrow> mt (rx_lit l) k (p, s, c) = None"
  by (simp add: mt_lit)

text \<open>A text whose first letter is not that of the pattern is passed over.\<close>

lemma find_skip_run:
  assumes "\<And>pre c cs. P c \<Longrightarrow> rx_at r pre (c # cs) = None" "list_all P u"
  shows "find_from r pre (u @ s) = find_from r (rev u @ pre) s"
  using assms(2)
proof (induction u arbitrary: pre)
  case (Cons c u)
  then show ?case using assms(1) by (simp add: find_skip)
qed simp

section \<open>The opcode table\<close>

text \<open>A row of the header, with a comment behind it or without.\<close>

definition isa_line :: "nat \<times> string \<times> string \<Rightarrow> string" where
  "isa_line r = (case r of (n, name, cm) \<Rightarrow>
     ''    TX6_OP_'' @ name @ '' = '' @ dec_str n @ '','' @ (if cm = [] then [] else ''  // '' @ cm) @ NL)"

definition note_ok :: "string \<Rightarrow> bool" where
  "note_ok cm \<longleftrightarrow> cm = [] \<or> label cm \<and> list_all (\<lambda>c. c \<noteq> CHR 0x0D \<and> c \<noteq> CHR 0x0A) cm"

definition isa_row_ok :: "nat \<times> string \<times> string \<Rightarrow> bool" where
  "isa_row_ok r = (case r of (n, name, cm) \<Rightarrow> name \<noteq> [] \<and> list_all is_word name \<and> note_ok cm)"

lemma not_words: "\<not> is_word (CHR 0x20)" "\<not> is_word (CHR '','')" "\<not> is_word (CHR ''['')" "\<not> is_word (CHR '')'')"
  by (simp_all add: is_word_def char_code_def Let_def)

lemma isa_other: "c \<noteq> CHR ''T'' \<Longrightarrow> rx_at rx_isa_op pre (c # cs) = None"
  by (simp add: rx_at_def rx_isa_op_def mt_lit)

text \<open>The end of the pattern: what the text behind the number must be for the match to end there.\<close>

definition isa_tail :: "(rpos \<Rightarrow> rpos option) \<Rightarrow> rpos \<Rightarrow> rpos option" where
  "isa_tail k = mt (rx_many is_space) (mt (rx_opt (rx_lit '','')) (mt (rx_many is_space)
     (mt (rx_opt (rx_seq [rx_lit ''//'', rx_many is_space, RGroup 3 (rx_many (\<lambda>c. c \<noteq> CHR 0x0D \<and> c \<noteq> CHR 0x0A))])) k)))"

lemma isa_head:
  assumes w: "name \<noteq> []" "list_all is_word name" "\<not> first_is is_digit s"
    and t: "isa_tail Some (rev (dec_str n) @ rev '' = '' @ rev name @ rev ''TX6_OP_'' @ pre, s, [1 \<mapsto> name, 2 \<mapsto> dec_str n]) = Some t"
  shows "rx_at rx_isa_op pre (''TX6_OP_'' @ name @ '' = '' @ dec_str n @ s) = Some t"
proof -
  let ?p1 = "rev name @ rev ''TX6_OP_'' @ pre"
  let ?G2 = "mt (RGroup 2 (rx_some is_digit)) (isa_tail Some)"
  let ?M = "mt (rx_many is_space)"
  have f: "\<not> first_is is_space (dec_str n @ s)" by (rule dec_str_first)
  have 1: "?G2 (rev '' = '' @ ?p1, dec_str n @ s, [1 \<mapsto> name]) = Some t"
    by (rule mt_grp_some) (use t dec_str_digits w(3) in simp_all)
  have 2: "?M ?G2 (rev '' ='' @ ?p1, [CHR 0x20] @ dec_str n @ s, [1 \<mapsto> name]) = Some t"
    by (rule mt_many) (use 1 f in simp_all)
  have 3: "mt (rx_lit ''='') (?M ?G2) (rev '' '' @ ?p1, ''='' @ [CHR 0x20] @ dec_str n @ s, [1 \<mapsto> name]) = Some t"
    unfolding mt_lit_take using 2 by simp
  have 4: "?M (mt (rx_lit ''='') (?M ?G2)) (?p1, [CHR 0x20] @ ''='' @ [CHR 0x20] @ dec_str n @ s, [1 \<mapsto> name]) = Some t"
    by (rule mt_many) (use 3 in \<open>simp_all add: is_space_def char_code_def\<close>)
  have 5: "mt (RGroup 1 (rx_some is_word)) (?M (mt (rx_lit ''='') (?M ?G2))) (rev ''TX6_OP_'' @ pre, name @ '' = '' @ dec_str n @ s, \<lambda>_. None) = Some t"
    by (rule mt_grp_some) (use 4 w not_words in simp_all)
  show ?thesis
    unfolding rx_at_def rx_isa_op_def rx_seq.simps mt_seq mt_lit_take using 5 by (simp add: isa_tail_def)
qed

lemma comma_not_space: "\<not> is_space (CHR '','')" "is_space (CHR 0x0A)" "\<not> is_space (CHR ''/'')" "\<not> is_space (CHR ''T'')"
  by (simp_all add: is_space_def char_code_def)

lemma isa_tail_plain:
  assumes "list_all is_space sp" "\<not> first_is is_space v" "\<not> prefix_of ''//'' v"
  shows "isa_tail Some (p, CHR '','' # sp @ v, c) = Some (rev sp @ CHR '','' # p, v, c)"
proof -
  let ?O = "mt (rx_opt (rx_seq [rx_lit ''//'', rx_many is_space, RGroup 3 (rx_many (\<lambda>c. c \<noteq> CHR 0x0D \<and> c \<noteq> CHR 0x0A))])) Some"
  have 1: "?O (q, v, c) = Some (q, v, c)" for q
    using assms(3) by (subst mt_opt_skip) (simp_all add: mt_lit_miss)
  have 2: "mt (rx_many is_space) ?O (CHR '','' # p, sp @ v, c) = Some (rev sp @ CHR '','' # p, v, c)"
    by (rule mt_many) (use assms 1 in simp_all)
  have 3: "mt (rx_opt (rx_lit '','')) (mt (rx_many is_space) ?O) (p, '','' @ sp @ v, c) = Some (rev sp @ CHR '','' # p, v, c)"
    by (rule mt_opt_take) (unfold mt_lit_take, use 2 in simp)
  show ?thesis
    unfolding isa_tail_def
    using mt_many [of is_space "[]" "'','' @ sp @ v" "mt (rx_opt (rx_lit '','')) (mt (rx_many is_space) ?O)" p c] 3 comma_not_space by simp
qed

lemma isa_tail_note:
  assumes "list_all is_space sp" "list_all is_space b" "\<not> first_is is_space (cm @ v)"
    "list_all (\<lambda>c. c \<noteq> CHR 0x0D \<and> c \<noteq> CHR 0x0A) cm" "\<not> first_is (\<lambda>c. c \<noteq> CHR 0x0D \<and> c \<noteq> CHR 0x0A) v"
  shows "\<exists>q. isa_tail Some (p, CHR '','' # sp @ ''//'' @ b @ cm @ v, c) = Some (q, v, c(3 \<mapsto> cm))"
proof -
  let ?G = "mt (RGroup 3 (rx_many (\<lambda>c. c \<noteq> CHR 0x0D \<and> c \<noteq> CHR 0x0A))) Some"
  let ?r = "rx_seq [rx_lit ''//'', rx_many is_space, RGroup 3 (rx_many (\<lambda>c. c \<noteq> CHR 0x0D \<and> c \<noteq> CHR 0x0A))]"
  let ?q = "rev cm @ rev b @ rev ''//'' @ rev sp @ CHR '','' # p"
  have 1: "?G (rev b @ rev ''//'' @ rev sp @ CHR '','' # p, cm @ v, c) = Some (?q, v, c(3 \<mapsto> cm))"
    by (rule mt_grp_many) (use assms in simp_all)
  have 2: "mt (rx_many is_space) ?G (rev ''//'' @ rev sp @ CHR '','' # p, b @ cm @ v, c) = Some (?q, v, c(3 \<mapsto> cm))"
    by (rule mt_many) (use assms 1 in simp_all)
  have 3: "mt (rx_opt ?r) Some (rev sp @ CHR '','' # p, ''//'' @ b @ cm @ v, c) = Some (?q, v, c(3 \<mapsto> cm))"
    by (rule mt_opt_take) (unfold rx_seq.simps mt_seq mt_lit_take, rule 2)
  have 4: "mt (rx_many is_space) (mt (rx_opt ?r) Some) (CHR '','' # p, sp @ ''//'' @ b @ cm @ v, c) = Some (?q, v, c(3 \<mapsto> cm))"
    by (rule mt_many) (use assms 3 comma_not_space in simp_all)
  have 5: "mt (rx_opt (rx_lit '','')) (mt (rx_many is_space) (mt (rx_opt ?r) Some)) (p, '','' @ sp @ ''//'' @ b @ cm @ v, c) = Some (?q, v, c(3 \<mapsto> cm))"
    by (rule mt_opt_take) (unfold mt_lit_take, use 4 in simp)
  show ?thesis
    unfolding isa_tail_def
    using mt_many [of is_space "[]" "'','' @ sp @ ''//'' @ b @ cm @ v" "mt (rx_opt (rx_lit '','')) (mt (rx_many is_space) (mt (rx_opt ?r) Some))" p c] 5 comma_not_space
    by auto
qed

lemma strip_label: "label w \<Longrightarrow> py_strip w = w"
proof -
  assume l: "label w"
  have d: "\<not> is_space (hd v) \<Longrightarrow> v \<noteq> [] \<Longrightarrow> dropWhile is_space v = v" for v by (cases v) auto
  have "dropWhile is_space w = w" "dropWhile is_space (rev w) = rev w"
    using l d [of w] d [of "rev w"] by (simp_all add: label_def hd_rev)
  then show ?thesis by (simp add: py_strip_def py_lstrip_def py_rstrip_def)
qed

lemma strip_note: "note_ok cm \<Longrightarrow> py_strip cm = cm"
  using strip_label by (auto simp: note_ok_def py_strip_def py_lstrip_def py_rstrip_def)

definition isa_entry :: "rpos \<Rightarrow> nat \<times> string \<times> string" where
  "isa_entry m = (digits_val (mgroup m 2), mgroup m 1, py_strip (mgroup m 3))"

text \<open>One row at the position where the name starts.\<close>

lemma isa_row_match:
  assumes "isa_row_ok (n, name, cm)" "\<not> prefix_of ''//'' (dropWhile is_space s)"
  shows "\<exists>t sp. rx_at rx_isa_op pre (''TX6_OP_'' @ name @ '' = '' @ dec_str n @ '','' @ (if cm = [] then [] else ''  // '' @ cm) @ NL @ s) = Some t \<and>
    isa_entry t = (n, name, cm) \<and> list_all is_space sp \<and> ahead t = sp @ dropWhile is_space s \<and> length (ahead t) \<le> Suc (length s)"
proof -
  have ok: "name \<noteq> []" "list_all is_word name" "note_ok cm" using assms(1) by (auto simp: isa_row_ok_def)
  let ?c = "[1 \<mapsto> name, 2 \<mapsto> dec_str n]"
  let ?p = "rev (dec_str n) @ rev '' = '' @ rev name @ rev ''TX6_OP_'' @ pre"
  have s: "s = takeWhile is_space s @ dropWhile is_space s" by simp
  have sp: "list_all is_space (takeWhile is_space s)" by (auto simp: list_all_iff dest: set_takeWhileD)
  have fs: "\<not> first_is is_space (dropWhile is_space s)"
    using hd_dropWhile [of is_space s] by (simp only: first_is_hd) blast
  show ?thesis
  proof (cases "cm = []")
    case True
    have "isa_tail Some (?p, CHR '','' # (NL @ takeWhile is_space s) @ dropWhile is_space s, ?c) =
        Some (rev (NL @ takeWhile is_space s) @ CHR '','' # ?p, dropWhile is_space s, ?c)"
      by (rule isa_tail_plain) (use sp fs assms(2) comma_not_space in \<open>auto simp: NL_def\<close>)
    then have "rx_at rx_isa_op pre (''TX6_OP_'' @ name @ '' = '' @ dec_str n @ CHR '','' # (NL @ takeWhile is_space s) @ dropWhile is_space s) =
        Some (rev (NL @ takeWhile is_space s) @ CHR '','' # ?p, dropWhile is_space s, ?c)"
      using ok by (intro isa_head) (simp_all add: is_digit_def char_code_def)
    then show ?thesis using True
      by (intro exI [of _ "(rev (NL @ takeWhile is_space s) @ CHR '','' # ?p, dropWhile is_space s, ?c)"] exI [of _ "[]"])
        (simp add: isa_entry_def mgroup_def digits_val_dec strip_note [of "[]"] note_ok_def length_dropWhile_le le_SucI)
  next
    case False
    then have n: "label cm" "list_all (\<lambda>c. c \<noteq> CHR 0x0D \<and> c \<noteq> CHR 0x0A) cm" using ok by (auto simp: note_ok_def)
    have "\<exists>q. isa_tail Some (?p, CHR '','' # ''  '' @ ''//'' @ '' '' @ cm @ NL @ s, ?c) = Some (q, NL @ s, ?c(3 \<mapsto> cm))"
      by (rule isa_tail_note) (use n False first_is_append [of cm is_space "NL @ s"] in \<open>simp_all add: label_def NL_def\<close>)
    then obtain q where "isa_tail Some (?p, CHR '','' # ''  '' @ ''//'' @ '' '' @ cm @ NL @ s, ?c) = Some (q, NL @ s, ?c(3 \<mapsto> cm))" ..
    then have "rx_at rx_isa_op pre (''TX6_OP_'' @ name @ '' = '' @ dec_str n @ CHR '','' # ''  '' @ ''//'' @ '' '' @ cm @ NL @ s) = Some (q, NL @ s, ?c(3 \<mapsto> cm))"
      using ok by (intro isa_head) (simp_all add: is_digit_def char_code_def)
    then show ?thesis using False ok(3) sp s comma_not_space
      by (intro exI [of _ "(q, NL @ s, ?c(3 \<mapsto> cm))"] exI [of _ "NL @ takeWhile is_space s"])
        (simp add: isa_entry_def mgroup_def digits_val_dec strip_note NL_def)
  qed
qed

lemma isa_spaces: "list_all is_space sp \<Longrightarrow> find_from rx_isa_op pre (sp @ s) = find_from rx_isa_op (rev sp @ pre) s"
  by (rule find_skip_run [where P = is_space]) (metis isa_other comma_not_space(4))

lemma isa_none: "list_all (\<lambda>c. c \<noteq> CHR ''T'') e \<Longrightarrow> find_from rx_isa_op pre e = []"
  using find_skip_run [where P = "\<lambda>c. c \<noteq> CHR ''T''" and u = e and s = "[]" and r = rx_isa_op] isa_other by simp

lemma isa_rows:
  assumes e: "list_all (\<lambda>c. c \<noteq> CHR ''T'') e" "\<not> prefix_of ''//'' (dropWhile is_space e)"
  shows "list_all isa_row_ok rs \<Longrightarrow> map isa_entry (find_from rx_isa_op pre (dropWhile is_space (concat (map isa_line rs) @ e))) = rs"
proof (induction rs arbitrary: pre)
  case Nil
  have "list_all (\<lambda>c. c \<noteq> CHR ''T'') (dropWhile is_space e)" using e(1) by (auto simp: list_all_iff dest: set_dropWhileD)
  then show ?case by (simp add: isa_none)
next
  case (Cons r rs)
  obtain n name cm where r: "r = (n, name, cm)" by (cases r)
  let ?s = "concat (map isa_line rs) @ e"
  have nx: "\<not> prefix_of ''//'' (dropWhile is_space ?s)"
    using e(2) by (cases rs) (auto simp: isa_line_def comma_not_space split: prod.splits)
  obtain t sp where t: "rx_at rx_isa_op pre (''TX6_OP_'' @ name @ '' = '' @ dec_str n @ '','' @ (if cm = [] then [] else ''  // '' @ cm) @ NL @ ?s) = Some t"
    "isa_entry t = (n, name, cm)" "list_all is_space sp" "ahead t = sp @ dropWhile is_space ?s" "length (ahead t) \<le> Suc (length ?s)"
    using isa_row_match [OF _ nx, of n name cm pre] Cons.prems r by auto
  have d: "dropWhile is_space (concat (map isa_line (r # rs)) @ e) =
      ''TX6_OP_'' @ name @ '' = '' @ dec_str n @ '','' @ (if cm = [] then [] else ''  // '' @ cm) @ NL @ ?s"
    by (simp add: r isa_line_def comma_not_space)
  have "length (ahead t) < length (''TX6_OP_'' @ name @ '' = '' @ dec_str n @ '','' @ (if cm = [] then [] else ''  // '' @ cm) @ NL @ ?s)"
    using t(5) by (simp add: NL_def)
  then have f: "find_from rx_isa_op pre (dropWhile is_space (concat (map isa_line (r # rs)) @ e)) = t # find_from rx_isa_op (behind t) (ahead t)"
    unfolding d by (rule find_hit [OF t(1)])
  show ?case unfolding f using t Cons isa_spaces [OF t(3)] r by simp
qed

section \<open>The port list\<close>

text \<open>A port as an ANSI header declares it: a direction, perhaps a kind of net, \<open>signed\<close> and a range, each with the blanks
  behind it, a name, and the names that follow with the same declaration, each with the separator before it.\<close>

record port_decl =
  pd_dir :: string
  pd_gap :: string
  pd_kind :: "(string \<times> string) option"
  pd_signed :: "string option"
  pd_range :: "(string \<times> string) option"
  pd_name :: string
  pd_more :: "(string \<times> string) list"

abbreviation blanks :: "string \<Rightarrow> bool" where "blanks \<equiv> list_all is_space"
abbreviation no_words :: "string \<Rightarrow> bool" where "no_words \<equiv> list_all (\<lambda>c. \<not> is_word c)"

definition DIRECTIONS :: "string list" where "DIRECTIONS = [''input'', ''output'', ''inout'']"
definition KINDS :: "string list" where "KINDS = [''wire'', ''reg'', ''logic'']"

definition kind_text :: "(string \<times> string) option \<Rightarrow> string" where
  "kind_text kd = (case kd of None \<Rightarrow> [] | Some (k, b) \<Rightarrow> k @ b)"

definition signed_text :: "string option \<Rightarrow> string" where
  "signed_text sg = (case sg of None \<Rightarrow> [] | Some b \<Rightarrow> ''signed'' @ b)"

definition bracket :: "string \<Rightarrow> string" where "bracket s = ''['' @ s @ '']''"

definition range_text :: "(string \<times> string) option \<Rightarrow> string" where
  "range_text w = (case w of None \<Rightarrow> [] | Some (s, b) \<Rightarrow> bracket s @ b)"

definition more_text :: "(string \<times> string) list \<Rightarrow> string" where
  "more_text ms = concat (map (\<lambda>(sep, nm). sep @ nm) ms)"

definition port_text :: "port_decl \<Rightarrow> string" where
  "port_text d = pd_dir d @ pd_gap d @ kind_text (pd_kind d) @ signed_text (pd_signed d) @ range_text (pd_range d) @ pd_name d @
     more_text (pd_more d)"

text \<open>The parts can be told apart: a blank or a bracket ends a keyword, and a name behind nothing, or behind a kind only, does not
  start with the keyword that could stand there.\<close>

definition name_ok :: "string \<Rightarrow> bool" where "name_ok nm \<longleftrightarrow> nm \<noteq> [] \<and> list_all is_word nm"

definition more_ok :: "string \<times> string \<Rightarrow> bool" where
  "more_ok m \<longleftrightarrow> fst m \<noteq> [] \<and> no_words (fst m) \<and> name_ok (snd m) \<and> snd m \<notin> set DIRECTIONS"

definition port_ok :: "port_decl \<Rightarrow> bool" where
  "port_ok d \<longleftrightarrow> pd_dir d \<in> set DIRECTIONS \<and> blanks (pd_gap d) \<and>
     (pd_gap d = [] \<longrightarrow> pd_kind d = None \<and> pd_signed d = None \<and> pd_range d \<noteq> None) \<and>
     (case pd_kind d of None \<Rightarrow> True | Some (k, b) \<Rightarrow> k \<in> set KINDS \<and> blanks b \<and> (b = [] \<longrightarrow> pd_signed d = None \<and> pd_range d \<noteq> None)) \<and>
     (case pd_signed d of None \<Rightarrow> True | Some b \<Rightarrow> blanks b \<and> (b = [] \<longrightarrow> pd_range d \<noteq> None)) \<and>
     (case pd_range d of None \<Rightarrow> True | Some (s, b) \<Rightarrow> list_all (\<lambda>c. c \<noteq> CHR '']'') s \<and> blanks b) \<and>
     name_ok (pd_name d) \<and>
     (pd_signed d = None \<and> pd_range d = None \<longrightarrow> \<not> prefix_of ''signed'' (pd_name d)) \<and>
     (pd_kind d = None \<and> pd_signed d = None \<and> pd_range d = None \<longrightarrow> list_all (\<lambda>k. \<not> prefix_of k (pd_name d)) KINDS) \<and>
     list_all more_ok (pd_more d)"

text \<open>What is read: the names that follow are lost.\<close>

definition port_entry :: "port_decl \<Rightarrow> string \<times> string \<times> string" where
  "port_entry d = (pd_dir d, (case pd_range d of None \<Rightarrow> [] | Some (s, b) \<Rightarrow> bracket s), pd_name d)"

lemma word_not_space: "is_word c \<Longrightarrow> \<not> is_space c"
  by (auto simp: is_word_def is_space_def Let_def)

lemma letters: "is_word (CHR ''i'')" "is_word (CHR ''o'')" "is_word (CHR ''t'')" "is_word (CHR ''w'')" "is_word (CHR ''r'')" "is_word (CHR ''l'')"
  by (simp_all add: is_word_def char_code_def Let_def)

lemma port_other: "c \<noteq> CHR ''i'' \<Longrightarrow> c \<noteq> CHR ''o'' \<Longrightarrow> rx_at rx_port pre (c # cs) = None"
  by (simp add: rx_at_def rx_port_def mt_lit)

text \<open>The part of the pattern behind the kind of net, and the part behind the direction.\<close>

definition port_tail :: "rpos \<Rightarrow> rpos option" where
  "port_tail = mt (rx_many is_space) (mt (rx_opt (rx_seq [rx_lit ''signed'', rx_many is_space]))
     (mt (rx_opt (RGroup 2 (rx_seq [rx_lit ''['', rx_many (\<lambda>c. c \<noteq> CHR '']''), rx_lit '']''])))
     (mt (rx_many is_space) (mt (RGroup 3 (rx_some is_word)) Some))))"

lemma mt_grp_rule:
  "mt a (\<lambda>t. k (behind t, ahead t, (caps t)(n \<mapsto> consumed s t))) s = Some x \<Longrightarrow> mt (RGroup n a) k s = Some x"
  by simp

lemma mt_one_of:
  assumes "d \<in> {l1, l2, l3}" "\<And>l. l \<in> {l1, l2, l3} \<Longrightarrow> l \<noteq> d \<Longrightarrow> \<not> prefix_of l (d @ s)" "k (rev d @ p, s, c) = Some x"
  shows "mt (rx_alts [rx_lit l1, rx_lit l2, rx_lit l3]) k (p, d @ s, c) = Some x"
proof -
  have m: "mt (rx_lit l) k (p, d @ s, c) = (if l = d then Some x else None)" if "l \<in> {l1, l2, l3}" for l
    using assms(2) [OF that] assms(3) by (simp add: mt_lit)
  show ?thesis using assms(1) by (auto simp: m or_else_def)
qed

lemma port_name:
  assumes "name \<noteq> []" "list_all is_word name" "\<not> first_is is_word v" "list_all is_space u"
  shows "mt (rx_many is_space) (mt (RGroup 3 (rx_some is_word)) Some) (p, u @ name @ v, c) = Some (rev name @ rev u @ p, v, c(3 \<mapsto> name))"
proof (rule mt_many)
  show "\<not> first_is is_space (name @ v)" using assms word_not_space by (cases name) auto
  show "mt (RGroup 3 (rx_some is_word)) Some (rev u @ p, name @ v, c) = Some (rev name @ rev u @ p, v, c(3 \<mapsto> name))"
    by (rule mt_grp_some) (use assms in simp_all)
qed (use assms in simp)

lemma prefix_word: "prefix_of l (name @ v) \<Longrightarrow> list_all is_word l \<Longrightarrow> \<not> first_is is_word v \<Longrightarrow> prefix_of l name"
proof (induction l name rule: prefix_of.induct)
  case (2 c cs)
  then show ?case by (cases v) auto
qed auto

lemma last_first: "list_all P u \<Longrightarrow> u \<noteq> [] \<Longrightarrow> first_is P (rev u @ p)"
  by (cases u rule: rev_cases) auto

abbreviation rxR :: rx where
  "rxR \<equiv> RGroup 2 (rx_seq [rx_lit ''['', rx_many (\<lambda>c. c \<noteq> CHR '']''), rx_lit '']''])"

abbreviation nameK :: "rpos \<Rightarrow> rpos option" where
  "nameK \<equiv> mt (rx_many is_space) (mt (RGroup 3 (rx_some is_word)) Some)"

definition with_range :: "(string \<times> string) option \<Rightarrow> (nat \<Rightarrow> string option) \<Rightarrow> nat \<Rightarrow> string option" where
  "with_range w c = (case w of None \<Rightarrow> c | Some (s, b) \<Rightarrow> c(2 \<mapsto> bracket s))"

definition range_ok :: "(string \<times> string) option \<Rightarrow> bool" where
  "range_ok w \<longleftrightarrow> (case w of None \<Rightarrow> True | Some (s, b) \<Rightarrow> list_all (\<lambda>c. c \<noteq> CHR '']'') s \<and> blanks b)"

lemma range_stage:
  assumes n: "name_ok name" "\<not> first_is is_word v" and w: "range_ok w"
  shows "\<exists>q. mt (rx_opt rxR) nameK (p, range_text w @ name @ v, c) = Some (q, v, (with_range w c)(3 \<mapsto> name))"
proof (cases w)
  case None
  have "nameK (p, name @ v, c) = Some (rev name @ p, v, c(3 \<mapsto> name))"
    using port_name [of name v "[]" p c] n by (simp add: name_ok_def)
  moreover have "\<not> prefix_of ''['' (name @ v)" using n not_words(3) by (cases name) (auto simp: name_ok_def)
  ultimately have "mt (rx_opt rxR) nameK (p, name @ v, c) = Some (rev name @ p, v, c(3 \<mapsto> name))"
    by (subst mt_opt_skip) (simp_all add: mt_lit_miss)
  then show ?thesis using None by (simp add: range_text_def with_range_def)
next
  case (Some x)
  obtain s b where x: "x = (s, b)" by (cases x)
  have s: "list_all (\<lambda>c. c \<noteq> CHR '']'') s" "blanks b" using w by (simp_all add: Some x range_ok_def)
  let ?q = "rev (bracket s) @ p" let ?v = "b @ name @ v"
  let ?r = "(rev name @ rev b @ ?q, v, c(2 \<mapsto> bracket s, 3 \<mapsto> name))"
  have 1: "nameK (?q, ?v, c(2 \<mapsto> bracket s)) = Some ?r"
    using port_name [of name v b ?q "c(2 \<mapsto> bracket s)"] n s(2) by (simp add: name_ok_def)
  let ?G = "\<lambda>t. nameK (behind t, ahead t, (caps t)(2 \<mapsto> consumed (p, ''['' @ s @ '']'' @ ?v, c) t))"
  have "?G (rev '']'' @ rev s @ rev ''['' @ p, ?v, c) = Some ?r"
    using 1 by (simp add: consumed_def bracket_def)
  then have 5: "mt (rx_lit '']'') ?G (rev s @ rev ''['' @ p, '']'' @ ?v, c) = Some ?r"
    unfolding mt_lit_take .
  have "mt (rx_many (\<lambda>c. c \<noteq> CHR '']'')) (mt (rx_lit '']'') ?G) (rev ''['' @ p, s @ '']'' @ ?v, c) = Some ?r"
    by (rule mt_many [OF s(1)], simp, rule 5)
  then have "mt (rx_seq [rx_lit ''['', rx_many (\<lambda>c. c \<noteq> CHR '']''), rx_lit '']'']) ?G (p, ''['' @ s @ '']'' @ ?v, c) = Some ?r"
    unfolding rx_seq.simps mt_seq mt_lit_take .
  then have "mt (rx_opt rxR) nameK (p, ''['' @ s @ '']'' @ ?v, c) = Some ?r" by (intro mt_opt_take mt_grp_rule)
  then show ?thesis by (simp add: Some x range_text_def with_range_def bracket_def)
qed

definition signed_ok :: "string option \<Rightarrow> (string \<times> string) option \<Rightarrow> string \<Rightarrow> bool" where
  "signed_ok sg w name \<longleftrightarrow> (case sg of None \<Rightarrow> w = None \<longrightarrow> \<not> prefix_of ''signed'' name | Some b \<Rightarrow> blanks b)"

lemma range_first: "name_ok name \<Longrightarrow> \<not> first_is is_space (range_text w @ name @ v)"
proof (cases w)
  case None
  assume "name_ok name"
  then show ?thesis using None word_not_space by (cases name) (auto simp: range_text_def name_ok_def)
next
  case (Some x)
  then show ?thesis by (cases x) (simp add: range_text_def bracket_def is_space_def char_code_def)
qed

lemma signed_first: "name_ok name \<Longrightarrow> \<not> first_is is_space (signed_text sg @ range_text w @ name @ v)"
  using range_first by (cases sg) (auto simp: signed_text_def is_space_def char_code_def)

lemma tail_stage:
  assumes n: "name_ok name" "\<not> first_is is_word v" and w: "range_ok w" and sg: "signed_ok sg w name" and u: "blanks u"
  shows "\<exists>q. port_tail (p, u @ signed_text sg @ range_text w @ name @ v, c) = Some (q, v, (with_range w c)(3 \<mapsto> name))"
proof -
  let ?S = "rx_seq [rx_lit ''signed'', rx_many is_space]"
  let ?K = "mt (rx_opt rxR) nameK" let ?r = "range_text w @ name @ v"
  have "\<exists>q. mt (rx_opt ?S) ?K (p', signed_text sg @ ?r, c) = Some (q, v, (with_range w c)(3 \<mapsto> name))" for p'
  proof (cases sg)
    case None
    have "list_all is_word ''signed''" by (simp add: is_word_def char_code_def Let_def)
    then have "\<not> prefix_of ''signed'' ?r"
      using sg None n prefix_word [of "''signed''" name v] by (cases w) (auto simp: signed_ok_def range_text_def bracket_def)
    then show ?thesis
      using range_stage [OF n w] by (subst mt_opt_skip) (simp_all add: mt_lit_miss None signed_text_def)
  next
    case (Some b)
    obtain q where "?K (rev b @ rev ''signed'' @ p', ?r, c) = Some (q, v, (with_range w c)(3 \<mapsto> name))"
      using range_stage [OF n w] by blast
    then have "mt (rx_many is_space) ?K (rev ''signed'' @ p', b @ ?r, c) = Some (q, v, (with_range w c)(3 \<mapsto> name))"
      using sg Some range_first [OF n(1)] by (intro mt_many) (auto simp: signed_ok_def)
    then have "mt ?S ?K (p', ''signed'' @ b @ ?r, c) = Some (q, v, (with_range w c)(3 \<mapsto> name))"
      unfolding rx_seq.simps mt_seq mt_lit_take .
    then show ?thesis by (intro exI [of _ q] mt_opt_take) (simp add: Some signed_text_def)
  qed
  then obtain q where "mt (rx_opt ?S) ?K (rev u @ p, signed_text sg @ ?r, c) = Some (q, v, (with_range w c)(3 \<mapsto> name))" by blast
  then show ?thesis
    unfolding port_tail_def by (intro exI [of _ q] mt_many u signed_first n(1))
qed

lemma kind_stage:
  assumes n: "name_ok name" "\<not> first_is is_word v" and w: "range_ok w" and sg: "signed_ok sg w name"
    and kd: "case kd of None \<Rightarrow> sg = None \<and> w = None \<longrightarrow> list_all (\<lambda>k. \<not> prefix_of k name) KINDS | Some (k, b) \<Rightarrow> k \<in> set KINDS \<and> blanks b"
  shows "\<exists>q. mt (rx_opt (rx_alts [rx_lit ''wire'', rx_lit ''reg'', rx_lit ''logic''])) port_tail
    (p, kind_text kd @ signed_text sg @ range_text w @ name @ v, c) = Some (q, v, (with_range w c)(3 \<mapsto> name))"
proof -
  let ?A = "rx_alts [rx_lit ''wire'', rx_lit ''reg'', rx_lit ''logic'']" let ?r = "signed_text sg @ range_text w @ name @ v"
  show ?thesis
  proof (cases kd)
    case None
    have ws: "list_all (list_all is_word) KINDS" by (simp add: KINDS_def is_word_def char_code_def Let_def)
    have "\<not> prefix_of k ?r" if k: "k \<in> set KINDS" for k
    proof (cases "sg = None \<and> w = None")
      case True
      then show ?thesis using kd None n(2) ws k prefix_word [of k name v] by (auto simp: list_all_iff signed_text_def range_text_def)
    next
      case False
      then show ?thesis using k by (cases sg; cases w) (auto simp: KINDS_def signed_text_def range_text_def bracket_def)
    qed
    then have "\<not> prefix_of ''wire'' ?r" "\<not> prefix_of ''reg'' ?r" "\<not> prefix_of ''logic'' ?r" by (simp_all add: KINDS_def)
    then have "mt (rx_opt ?A) port_tail (p, ?r, c) = port_tail (p, ?r, c)" by (subst mt_opt_skip) (simp_all add: mt_lit_miss)
    then show ?thesis using tail_stage [OF n w sg, of "[]" p c] by (simp add: None kind_text_def)
  next
    case (Some x)
    obtain k b where x: "x = (k, b)" by (cases x)
    have k: "k \<in> {''wire'', ''reg'', ''logic''}" "blanks b" using kd by (auto simp: Some x KINDS_def)
    obtain q where "port_tail (rev k @ p, b @ ?r, c) = Some (q, v, (with_range w c)(3 \<mapsto> name))"
      using tail_stage [OF n w sg k(2)] by blast
    then have "mt ?A port_tail (p, k @ b @ ?r, c) = Some (q, v, (with_range w c)(3 \<mapsto> name))"
      by (intro mt_one_of) (use k in auto)
    then show ?thesis by (intro exI [of _ q] mt_opt_take) (simp add: Some x kind_text_def)
  qed
qed

lemma port_match:
  assumes ok: "port_ok d" and v: "\<not> first_is is_word v" and pre: "\<not> first_is is_word pre"
  shows "\<exists>t. rx_at rx_port pre (pd_dir d @ pd_gap d @ kind_text (pd_kind d) @ signed_text (pd_signed d) @ range_text (pd_range d) @ pd_name d @ v) = Some t \<and>
    ahead t = v \<and> mgroup t 1 = pd_dir d \<and> mgroup t 2 = (case pd_range d of None \<Rightarrow> [] | Some (s, b) \<Rightarrow> bracket s) \<and> mgroup t 3 = pd_name d"
proof -
  let ?A = "rx_alts [rx_lit ''wire'', rx_lit ''reg'', rx_lit ''logic'']"
  let ?D = "rx_alts [rx_lit ''input'', rx_lit ''output'', rx_lit ''inout'']"
  let ?dir = "pd_dir d" let ?b = "kind_text (pd_kind d) @ signed_text (pd_signed d) @ range_text (pd_range d) @ pd_name d @ v"
  have n: "name_ok (pd_name d)" "range_ok (pd_range d)" "signed_ok (pd_signed d) (pd_range d) (pd_name d)"
    using ok by (auto simp: port_ok_def range_ok_def signed_ok_def split: option.splits)
  have kd: "case pd_kind d of None \<Rightarrow> pd_signed d = None \<and> pd_range d = None \<longrightarrow> list_all (\<lambda>k. \<not> prefix_of k (pd_name d)) KINDS
      | Some (k, b) \<Rightarrow> k \<in> set KINDS \<and> blanks b"
    using ok by (auto simp: port_ok_def split: option.splits)
  let ?K = "mt (rx_opt ?A) port_tail"
  obtain q where q: "?K (rev (pd_gap d) @ rev ?dir @ pre, ?b, [1 \<mapsto> ?dir]) = Some (q, v, (with_range (pd_range d) [1 \<mapsto> ?dir])(3 \<mapsto> pd_name d))"
    using kind_stage [OF n(1) v n(2,3) kd] by blast
  let ?t = "(q, v, (with_range (pd_range d) [1 \<mapsto> ?dir])(3 \<mapsto> pd_name d))"
  have fb: "\<not> first_is is_space ?b"
  proof (cases "pd_kind d")
    case (Some x)
    then show ?thesis using kd by (cases x) (auto simp: kind_text_def KINDS_def is_space_def char_code_def)
  qed (use signed_first [OF n(1)] in \<open>simp add: kind_text_def\<close>)
  have 1: "mt (rx_many is_space) ?K (rev ?dir @ pre, pd_gap d @ ?b, [1 \<mapsto> ?dir]) = Some ?t"
  proof (rule mt_many)
    show "blanks (pd_gap d)" using ok by (simp add: port_ok_def)
  qed (rule fb, rule q)
  have dd: "?dir \<in> {''input'', ''output'', ''inout''}" using ok by (auto simp: port_ok_def DIRECTIONS_def)
  then have dw: "list_all is_word ?dir" "?dir \<noteq> []" by (auto simp: is_word_def char_code_def Let_def)
  have gap: "\<not> first_is is_word (pd_gap d @ ?b)"
  proof (cases "pd_gap d")
    case Nil
    then have "pd_kind d = None" "pd_signed d = None" "\<exists>s b. pd_range d = Some (s, b)" using ok by (auto simp: port_ok_def)
    then show ?thesis using Nil not_words(3) by (auto simp: kind_text_def signed_text_def range_text_def bracket_def)
  next
    case (Cons c cs)
    then have "is_space c" using ok by (simp add: port_ok_def)
    then show ?thesis using Cons word_not_space by auto
  qed
  have 2: "mt RBound (mt (rx_many is_space) ?K) (rev ?dir @ pre, pd_gap d @ ?b, [1 \<mapsto> ?dir]) = Some ?t"
    using 1 last_first [OF dw] gap by simp
  have "mt (RGroup 1 ?D) (mt RBound (mt (rx_many is_space) ?K)) (pre, ?dir @ pd_gap d @ ?b, \<lambda>_. None) = Some ?t"
    by (rule mt_grp_rule, rule mt_one_of [where d = ?dir]) (use dd 2 in \<open>auto simp: consumed_def\<close>)
  moreover have "first_is is_word (?dir @ pd_gap d @ ?b)" using dw by (cases ?dir) auto
  ultimately have "rx_at rx_port pre (?dir @ pd_gap d @ ?b) = Some ?t"
    using pre by (simp add: rx_at_def rx_port_def port_tail_def)
  then show ?thesis by (intro exI [of _ ?t]) (auto simp: mgroup_def with_range_def split: option.split)
qed

lemma port_skip: "no_words u \<Longrightarrow> find_from rx_port pre (u @ s) = find_from rx_port (rev u @ pre) s"
  by (rule find_skip_run [where P = "\<lambda>c. \<not> is_word c"]) (metis port_other letters(1,2))

lemma inside_word: "list_all is_word u \<Longrightarrow> first_is is_word pre \<Longrightarrow> find_from rx_port pre (u @ s) = find_from rx_port (rev u @ pre) s"
proof (induction u arbitrary: pre)
  case (Cons c u)
  then have "rx_at rx_port pre (c # u @ s) = None" by (simp add: rx_at_def rx_port_def)
  then show ?case using Cons by (simp add: find_skip)
qed simp

text \<open>A word that is not a direction is passed over.\<close>

lemma word_skip:
  assumes "name_ok nm" "nm \<notin> set DIRECTIONS" "\<not> first_is is_word s" "\<not> first_is is_word pre"
  shows "find_from rx_port pre (nm @ s) = find_from rx_port (rev nm @ pre) s"
proof -
  obtain c u where nm: "nm = c # u" "is_word c" "list_all is_word u" using assms(1) by (cases nm) (auto simp: name_ok_def)
  have lit: "mt (rx_lit l) (\<lambda>t. mt RBound k (behind t, ahead t, f t)) (pre, nm @ s, cp) = None" if l: "l \<in> set DIRECTIONS" for l k f cp
  proof (cases "prefix_of l (nm @ s)")
    case True
    have lw: "list_all is_word l" "l \<noteq> []" using l by (auto simp: DIRECTIONS_def is_word_def char_code_def Let_def)
    have "prefix_of l nm" using prefix_word [OF True lw(1) assms(3)] .
    then obtain r where r: "nm = l @ r" by (auto simp: prefix_of_iff)
    then have "r \<noteq> []" using assms(2) l by auto
    then have "first_is is_word (r @ s)" using assms(1) r by (cases r) (auto simp: name_ok_def)
    then show ?thesis using last_first [OF lw, of pre] r by (simp add: mt_lit)
  qed (simp add: mt_lit_miss)
  have three: "mt (rx_lit ''input'') (\<lambda>t. mt RBound k (behind t, ahead t, f t)) (pre, nm @ s, cp) = None"
    "mt (rx_lit ''output'') (\<lambda>t. mt RBound k (behind t, ahead t, f t)) (pre, nm @ s, cp) = None"
    "mt (rx_lit ''inout'') (\<lambda>t. mt RBound k (behind t, ahead t, f t)) (pre, nm @ s, cp) = None" for k f cp
    by (rule lit; simp add: DIRECTIONS_def)+
  have grp: "mt (RGroup 1 (rx_alts [rx_lit ''input'', rx_lit ''output'', rx_lit ''inout''])) (mt RBound k) (pre, nm @ s, cp) = None" for k cp
    by (simp only: mt.simps(6) rx_alts.simps mt.simps(4) three or_else_simps)
  have "rx_at rx_port pre (nm @ s) = None"
    unfolding rx_at_def rx_port_def rx_seq.simps mt_seq by (subst mt.simps(7)) (simp only: grp if_cancel)
  then show ?thesis using inside_word [OF nm(3), of "c # pre" s] nm by (simp add: find_skip)
qed

lemma more_skip:
  "list_all more_ok ms \<Longrightarrow> \<not> first_is is_word s \<Longrightarrow> \<exists>pre'. find_from rx_port pre (more_text ms @ s) = find_from rx_port pre' s"
proof (induction ms arbitrary: pre)
  case (Cons m ms)
  obtain sep nm where m: "m = (sep, nm)" "sep \<noteq> []" "no_words sep" "name_ok nm" "nm \<notin> set DIRECTIONS"
    using Cons.prems(1) by (cases m) (auto simp: more_ok_def)
  have f: "\<not> first_is is_word (more_text ms @ s)"
  proof (cases ms)
    case (Cons x xs)
    obtain sp nx where x: "x = (sp, nx)" by (cases x)
    then have "sp \<noteq> []" "no_words sp" using Cons.prems(1) Cons by (simp_all add: more_ok_def)
    then show ?thesis using Cons x by (cases sp) (simp_all add: more_text_def)
  qed (use Cons.prems(2) in \<open>simp add: more_text_def\<close>)
  have "\<not> first_is is_word (rev sep @ pre)" using m(2,3) by (cases sep rule: rev_cases) auto
  then have "find_from rx_port pre (sep @ nm @ more_text ms @ s) = find_from rx_port (rev nm @ rev sep @ pre) (more_text ms @ s)"
    using port_skip [OF m(3)] word_skip [OF m(4,5) f] by simp
  then show ?case using Cons.IH [of "rev nm @ rev sep @ pre"] Cons.prems m(1) by (simp add: more_text_def)
qed (auto simp: more_text_def)

abbreviation port_of :: "rpos \<Rightarrow> string \<times> string \<times> string" where
  "port_of m \<equiv> (mgroup m 1, py_strip (mgroup m 2), mgroup m 3)"

lemma bracket_strip: "py_strip (case w of None \<Rightarrow> [] | Some (s, b) \<Rightarrow> bracket s) = (case w of None \<Rightarrow> [] | Some (s, b) \<Rightarrow> bracket s)"
proof (cases w)
  case (Some x)
  obtain s b where x: "x = (s, b)" by (cases x)
  have "label (bracket s)" by (simp add: bracket_def label_def is_space_def char_code_def)
  then show ?thesis using Some x strip_label by simp
qed (simp add: py_strip_def py_lstrip_def py_rstrip_def)

text \<open>A list of ports, each with the separator behind it; only the last may have none.\<close>

definition ports_text :: "(port_decl \<times> string) list \<Rightarrow> string" where
  "ports_text ps = concat (map (\<lambda>(d, sep). port_text d @ sep) ps)"

definition ports_ok :: "(port_decl \<times> string) list \<Rightarrow> bool" where
  "ports_ok ps \<longleftrightarrow> list_all (\<lambda>(d, sep). port_ok d \<and> no_words sep) ps \<and> list_all (\<lambda>(d, sep). sep \<noteq> []) (butlast ps)"

lemma ports_found:
  "ports_ok ps \<Longrightarrow> ps = [] \<or> \<not> first_is is_word pre \<Longrightarrow>
    map port_of (find_from rx_port pre (ports_text ps)) = map (\<lambda>(d, sep). port_entry d) ps"
proof (induction ps arbitrary: pre)
  case Nil
  have "rx_at rx_port pre [] = None" by (simp add: rx_at_def rx_port_def mt_lit)
  then show ?case by (simp add: ports_text_def)
next
  case (Cons x ps)
  obtain d sep where x: "x = (d, sep)" by (cases x)
  have ok: "port_ok d" "no_words sep" "list_all more_ok (pd_more d)" "ports_ok ps" and sep: "sep = [] \<Longrightarrow> ps = []"
    using Cons.prems(1) x by (cases ps; auto simp: ports_ok_def port_ok_def)+
  let ?s = "sep @ ports_text ps"
  have fs: "\<not> first_is is_word ?s" using ok(2) sep by (cases sep) (auto simp: ports_text_def)
  have fm: "\<not> first_is is_word (more_text (pd_more d) @ ?s)"
  proof (cases "pd_more d")
    case (Cons m ms)
    obtain sp nm where m: "m = (sp, nm)" by (cases m)
    then have "sp \<noteq> []" "no_words sp" using ok(3) Cons by (simp_all add: more_ok_def)
    then show ?thesis using Cons m by (cases sp) (simp_all add: more_text_def)
  qed (use fs in \<open>simp add: more_text_def\<close>)
  have t: "ports_text (x # ps) = pd_dir d @ pd_gap d @ kind_text (pd_kind d) @ signed_text (pd_signed d) @ range_text (pd_range d) @
      pd_name d @ more_text (pd_more d) @ ?s"
    by (simp add: ports_text_def port_text_def x)
  obtain r where m: "rx_at rx_port pre (ports_text (x # ps)) = Some r" "ahead r = more_text (pd_more d) @ ?s" "port_of r = port_entry d"
    using port_match [OF ok(1) fm, of pre] Cons.prems(2) unfolding t by (auto simp: port_entry_def bracket_strip)
  have "length (ahead r) < length (ports_text (x # ps))"
    using ok(1) unfolding m(2) t by (auto simp: port_ok_def DIRECTIONS_def)
  then have f: "find_from rx_port pre (ports_text (x # ps)) = r # find_from rx_port (behind r) (more_text (pd_more d) @ ?s)"
    using find_hit [OF m(1)] m(2) by simp
  obtain pre' where "find_from rx_port (behind r) (more_text (pd_more d) @ ?s) = find_from rx_port pre' ?s"
    using more_skip [OF ok(3) fs] by blast
  then have g: "find_from rx_port (behind r) (more_text (pd_more d) @ ?s) = find_from rx_port (rev sep @ pre') (ports_text ps)"
    using port_skip [OF ok(2)] by simp
  have "ps = [] \<or> \<not> first_is is_word (rev sep @ pre')" using sep ok(2) by (cases sep rule: rev_cases) auto
  then show ?case unfolding f g using Cons.IH [OF ok(4)] m(3) x by simp
qed

text \<open>Parentheses that close within a text.\<close>

fun nest :: "int \<Rightarrow> string \<Rightarrow> int option" where
  "nest d [] = Some d"
| "nest d (c # cs) =
    (if c = CHR ''('' then nest (d + 1) cs
     else if c = CHR '')'' then (if d - 1 = 0 then None else nest (d - 1) cs)
     else nest d cs)"

definition balanced :: "string \<Rightarrow> bool" where "balanced q \<longleftrightarrow> nest 1 q = Some 1"

lemma paren_nest: "nest d q = Some d' \<Longrightarrow> paren_run d (q @ s) = (q @ fst (paren_run d' s), snd (paren_run d' s))"
  by (induction d q rule: nest.induct) (auto simp: Let_def split: if_splits)

lemma paren_closed: "balanced q \<Longrightarrow> paren_run 0 (CHR ''('' # q @ CHR '')'' # s) = (CHR ''('' # q, CHR '')'' # s)"
  using paren_nest [of 1 q 1 "CHR '')'' # s"] by (simp add: balanced_def Let_def)

text \<open>A module behind its name: perhaps a parameter block, blanks, the ports, and the rest. Blanks may stand before and behind the
  sharp of the parameter block.\<close>

definition params_text :: "(string \<times> string \<times> string) option \<Rightarrow> string" where
  "params_text params = (case params of None \<Rightarrow> [] | Some (b0, b1, q) \<Rightarrow> b0 @ ''#'' @ b1 @ ''('' @ q @ '')'')"

definition params_ok :: "(string \<times> string \<times> string) option \<Rightarrow> bool" where
  "params_ok params = (case params of None \<Rightarrow> True | Some (b0, b1, q) \<Rightarrow> blanks b0 \<and> blanks b1 \<and> balanced q)"

definition module_text :: "(string \<times> string \<times> string) option \<Rightarrow> string \<Rightarrow> string \<Rightarrow> string \<Rightarrow> string" where
  "module_text params mid header rest = params_text params @ mid @ ''('' @ header @ '')'' @ rest"

lemma no_paren: "blanks mid \<Longrightarrow> list_all (\<lambda>c. c \<noteq> CHR ''('') mid"
  by (auto simp: list_all_iff is_space_def char_code_def)

lemma from_paren_skip: "list_all (\<lambda>c. c \<noteq> CHR ''('') mid \<Longrightarrow> from_paren (mid @ ''('' @ s) = ''('' @ s"
  unfolding from_paren_def by (rule span_unique(2)) simp_all

lemma parse_ports_header:
  assumes "balanced header" "blanks mid" "params_ok params"
  shows "parse_ports (module_text params mid header rest) = header_ports header"
proof -
  note m = no_paren [OF assms(2)]
  have h: "header_ports (List.tl (fst (paren_run 0 (''('' @ header @ '')'' @ rest)))) = header_ports header"
    using paren_closed [OF assms(1), of rest] by simp
  show ?thesis
  proof (cases params)
    case None
    have "py_rstrip mid = []" using assms(2) by (simp add: py_rstrip_def list_all_iff)
    then have "\<not> suffix_of ''#'' (py_rstrip mid)" by (simp add: suffix_of_def)
    then show ?thesis
      using span_unique(1) [OF m, of "''('' @ header @ '')'' @ rest"] from_paren_skip [OF m] h
      by (simp add: None module_text_def params_text_def parse_ports_def)
  next
    case (Some x)
    obtain b0 b1 q where x: "x = (b0, b1, q)" by (cases x)
    have q: "blanks b0" "blanks b1" "balanced q" using assms(3) by (simp_all add: Some x params_ok_def)
    let ?s = "mid @ ''('' @ header @ '')'' @ rest" let ?b = "b0 @ ''#'' @ b1"
    have b: "list_all (\<lambda>c. c \<noteq> CHR ''('') ?b" using no_paren [OF q(1)] no_paren [OF q(2)] by simp
    have "dropWhile is_space (rev ?b) = CHR ''#'' # rev b0"
      using span_unique(2) [of is_space "rev b1" "CHR ''#'' # rev b0"] q(2) by (simp add: is_space_def char_code_def)
    then have "suffix_of ''#'' (py_rstrip ?b)" by (simp add: py_rstrip_def suffix_of_def)
    then show ?thesis
      using paren_closed [OF q(3), of ?s] from_paren_skip [OF m, of "header @ '')'' @ rest"] from_paren_skip [OF b, of "q @ '')'' @ ?s"]
        span_unique(1) [OF b, of "''('' @ q @ '')'' @ ?s"] h
      by (simp add: Some x module_text_def params_text_def parse_ports_def)
  qed
qed

lemma ports_read:
  assumes "no_words lead" "ports_ok ps"
  shows "header_ports (lead @ ports_text ps) = map (\<lambda>(d, sep). port_entry d) ps"
proof -
  have "\<not> first_is is_word (rev lead @ [])" using assms(1) by (cases lead rule: rev_cases) auto
  then show ?thesis
    using ports_found [OF assms(2)] port_skip [OF assms(1), of "[]"] by (simp add: header_ports_def re_finditer_def)
qed

end
