(* ===== verification/BpReport.thy ===== *)
theory BpReport
  imports BpStat Regression
begin

text \<open>
  The report of \<^verbatim>\<open>tools/gen_blueprint.py\<close> and its command line. The report is a list of lines; the few
  characters of its prose beyond ASCII are written as their bytes in UTF-8. Yosys, the file system and
  the environment are the fields of a record over an abstract world. What is printed is left out.
\<close>

section \<open>Constants\<close>

definition TOP :: string where "TOP = ''titan_x5_gpu_top''"

definition EXCLUDE :: "string list" where
  "EXCLUDE = [''titan_x5_fpga_top.v'', ''xilinx_stubs.v'']"

section \<open>Geometry\<close>

text \<open>The first run of digits in an override.\<close>

definition rx_number :: rx where "rx_number = RGroup 1 (rx_some is_digit)"

definition geti :: "(string \<times> string) list \<Rightarrow> string \<Rightarrow> nat \<Rightarrow> nat" where
  "geti d k dflt =
    (case re_search rx_number (dict_get [] k d) of Some m \<Rightarrow> digits_val (mgroup m 1) | None \<Rightarrow> dflt)"

type_synonym disp = "(string \<times> nat \<times> nat \<times> nat \<times> nat \<times> nat) list"

definition ninst :: "disp \<Rightarrow> string \<Rightarrow> nat" where
  "ninst disp name = (case map_of disp name of None \<Rightarrow> 0 | Some v \<Rightarrow> fst v)"

definition sm_module :: "string \<Rightarrow> string" where
  "sm_module sm = (if sm = ''x5'' then ''titan_x5_sm'' else ''titan_x7_sm_shim'')"

record geometry =
  g_n_sm :: nat
  g_lanes_per_sm :: nat
  g_warps :: nat
  g_line_b :: nat
  g_l1_ways :: nat
  g_l1_sets :: nat
  g_l1_kib :: nat
  g_l2_ways :: nat
  g_l2_sets :: nat
  g_l2_banks :: nat
  g_l2_kib :: nat
  g_n_l1d :: nat
  g_n_tmu :: nat
  g_n_rop :: nat
  g_rf :: "(string \<times> string) list"
  g_rf_kib_per_sm :: nat
  g_xbar :: "(string \<times> string) list"
  g_cxb :: "(string \<times> string) list"

definition geometry_of :: "string \<Rightarrow> bodies \<Rightarrow> disp \<Rightarrow> geometry" where
  "geometry_of sm bodies disp =
    (let l1 = inst_params bodies (sm_module sm) ''titan_x5_l1_cache'';
         l2 = inst_params bodies TOP ''titan_x5_l2_cache'';
         xbar = inst_params bodies TOP ''titan_x5_crossbar'';
         cxb = inst_params bodies TOP ''titan_x5_coherent_xbar'';
         smp = inst_params bodies TOP (sm_module sm);
         rf = inst_params bodies ''titan_x5_sm'' ''titan_x5_register_file'';
         n_sm = (if ninst disp ''titan_x5_sm'' \<noteq> 0 then ninst disp ''titan_x5_sm'' else ninst disp ''titan_x7_sm_shim'');
         lanes_per_sm = geti smp ''NUM_ALUS'' 32;
         warps = geti smp ''NUM_WARPS'' 8;
         line_b = geti smp ''LINE_BYTES'' 128;
         l1_ways = geti l1 ''WAYS'' 4; l1_sets = geti l1 ''SETS'' 64;
         l1_kib = l1_ways * l1_sets * line_b div 1024;
         l2_ways = geti l2 ''WAYS'' 8; l2_sets = geti l2 ''SETS'' 256;
         l2_banks = geti l2 ''BANKS'' 4;
         l2_kib = l2_ways * l2_sets * geti l2 ''LINE_SIZE'' line_b div 1024;
         rf_regs = geti rf ''NUM_REGS'' 64;
         rf_dw = geti rf ''DATA_WIDTH'' 1024;
         rf_kib_per_sm = rf_regs * warps * rf_dw div 8 div 1024
     in \<lparr>g_n_sm = n_sm, g_lanes_per_sm = lanes_per_sm, g_warps = warps, g_line_b = line_b,
         g_l1_ways = l1_ways, g_l1_sets = l1_sets, g_l1_kib = l1_kib,
         g_l2_ways = l2_ways, g_l2_sets = l2_sets, g_l2_banks = l2_banks, g_l2_kib = l2_kib,
         g_n_l1d = ninst disp ''titan_x5_l1_cache'', g_n_tmu = ninst disp ''titan_x5_tmu'', g_n_rop = ninst disp ''titan_x5_rop'',
         g_rf = rf, g_rf_kib_per_sm = rf_kib_per_sm, g_xbar = xbar, g_cxb = cxb\<rparr>)"

section \<open>The sections of the report\<close>

definition report_intro :: "string \<Rightarrow> string list" where
  \<open>report_intro sm =
    (''# TITAN APEX-X '' @ [CHR 0xE2, CHR 0x80, CHR 0x94] @ '' chip blueprint ('' @ sm @ '' build)'') #
    [[],
     ''> **This file is generated. Do not edit it by hand.**'',
     ''> '',
     ''> ```bash'',
     ''> python tools/gen_blueprint.py            # regenerate'',
     ''> python tools/gen_blueprint.py --check    # fail if it is stale'',
     ''> ```'',
     ''> '',
     ''> Every structural figure below was recovered from the RTL at'',
     ''> generation time. The hierarchy and all instance counts come from'',
     ''> Yosys (`read_verilog; hierarchy -check -top; stat`), so generate'',
     ''> loops, parameter overrides and `ifdef` selection are *elaborated*,'',
     ''> not guessed at with a regex. If this document and the RTL ever'',
     ''> disagree, `--check` fails.'',
     [],
     ''---'',
     [],
     ''## 0. What this is, and the caveats that travel with it'',
     [],
     ''A GPU written from RTL up, simulated and synthesised. It is **not a'',
     ''product**: there is no manufactured chip, no installable driver and no'',
     ''benchmarked frame rate. Its honest peer group is academic open-source'',
     ''GPUs '' @ [CHR 0xE2, CHR 0x80, CHR 0x94] @ '' MIAOW, Vortex, Nyuzi '' @ [CHR 0xE2, CHR 0x80, CHR 0x94] @ '' not shipping silicon.'',
     [],
     ''Three caveats attach to every physical number here:'',
     [],
     ''1. **GT2N is a *predictive* PDK '' @ [CHR 0xE2, CHR 0x80, CHR 0x94] @ '' this design is not fabbable.** No'',
     ''   foundry accepts it.'',
     ''2. **Synthesis only.** No floorplan, placement or routing. ABC reports'',
     ''   `WireLoad = "none"`: **zero wire delay**. At 2 nm wire delay'',
     ''   dominates, so place-and-route can only make timing worse.'',
     ''3. **One corner** (`tt`, 0.7 V, 25 '' @ [CHR 0xC2, CHR 0xB0] @ ''C). No slow corner, so no signoff'',
     ''   margin.'',
     [],
     ''---'',
     [],
     ''## 1. The chip, measured'',
     [],
     ''| Property | Value |'',
     ''|:--|--:|'']\<close>

text \<open>The table of measured figures.\<close>

definition report_facts :: "string \<Rightarrow> mods \<Rightarrow> counter \<Rightarrow> nat option \<Rightarrow> (string \<times> string \<times> string) list \<Rightarrow> nat \<Rightarrow> geometry \<Rightarrow> string list" where
  \<open>report_facts sm mods tot design_cells ports top_bits g =
    (let n_in = length (filter (\<lambda>(d, w, n). d = ''input'') ports);
         n_out = length (filter (\<lambda>(d, w, n). d = ''output'') ports)
     in
    [''| Top module | `'' @ TOP @ ''` |'',
     ''| SM variant built | **'' @ sm @ ''** |'',
     ''| Modules elaborated into the chip | **'' @ dec_str (length mods) @ ''** |'',
     ''| Total module instances | **'' @ fmt_int (sum_list (map snd tot)) @ ''** |''] @
    (if design_cells \<noteq> None \<and> design_cells \<noteq> Some 0
     then [''| RTL cells, whole chip | **'' @ fmt_int (the design_cells) @ ''** |''] else []) @
    [''| Top-level ports | **'' @ dec_str (length ports) @ ''** ('' @ dec_str n_in @ '' in, '' @ dec_str n_out @ '' out), '' @ fmt_int top_bits @ '' bits |'',
     ''| Shader cores (SM) | **'' @ dec_str (g_n_sm g) @ ''** |'',
     ''| Lanes per SM | **'' @ dec_str (g_lanes_per_sm g) @ ''** |'',
     ''| **Total lanes** | **'' @ dec_str (g_n_sm g * g_lanes_per_sm g) @ ''** |'',
     ''| Warps per SM | '' @ dec_str (g_warps g) @ '' |'',
     ''| Threads in flight | **'' @ fmt_int (g_n_sm g * g_warps g * g_lanes_per_sm g) @ ''** |'',
     ''| Texture units (TMU) | '' @ dec_str (g_n_tmu g) @ '' |'',
     ''| Raster output units (ROP) | '' @ dec_str (g_n_rop g) @ '' |'',
     ''| L1 caches | **'' @ dec_str (g_n_l1d g) @ ''** x '' @ dec_str (g_l1_kib g) @ '' KiB ('' @ dec_str (g_l1_ways g) @ ''-way, '' @
       dec_str (g_l1_sets g) @ '' sets, '' @ dec_str (g_line_b g) @ '' B lines) |'',
     ''| L2 cache | **'' @ dec_str (g_l2_kib g) @ '' KiB** ('' @ dec_str (g_l2_ways g) @ ''-way, '' @
       dec_str (g_l2_sets g) @ '' sets, '' @ dec_str (g_l2_banks g) @ '' banks) |'',
     (if g_rf g \<noteq> []
      then ''| Register file | '' @ dec_str (g_rf_kib_per_sm g) @ '' KiB per SM, **'' @ dec_str (g_rf_kib_per_sm g * g_n_sm g) @ '' KiB** total |''
      else ''| Register file | see SM |''),
     ''| Word crossbar | '' @ dec_str (geti (g_xbar g) ''NUM_MASTERS'' 0) @ '' masters, '' @ dec_str (geti (g_xbar g) ''NUM_SLAVES'' 0) @
       '' slaves, '' @ dec_str (geti (g_xbar g) ''DATA_WIDTH'' 32) @ ''-bit |'',
     ''| Coherent crossbar | '' @ dec_str (geti (g_cxb g) ''NUM_MASTERS'' 0) @ '' masters, MESI, '' @ dec_str (g_line_b g) @ '' B lines |'',
     []])\<close>

definition report_cell_note :: "nat option \<Rightarrow> string list" where
  \<open>report_cell_note design_cells =
    (if design_cells \<noteq> None \<and> design_cells \<noteq> Some 0 then
    [''**"RTL cells" is not a gate count.** It is what Yosys counts after'',
     ''elaboration and before technology mapping: `$add`, `$mux`, `$dff`,'',
     ''whole memories as single cells. Mapping onto GT2N turns each of'',
     ''those into some number of standard cells, and a memory into a very'',
     ''large number of flip-flops, because **GT2N has no SRAM**. The'',
     ''mapped gate count for the whole chip is **unmeasured**: a full-chip'',
     ''`synth` run was attempted for this document and was still running'',
     ''at a 50-minute timeout, so no figure is quoted for it. The per-block'',
     ''GT2N areas that ARE measured are in'',
     ''[GT2N_2NM_SYNTHESIS.md](GT2N_2NM_SYNTHESIS.md).'',
     []] else []) @
    [''---'', []]\<close>

text \<open>The modules, those with most instances first; Python sorts by \<open>(- instances, name)\<close>.\<close>

definition report_modules :: "disp \<Rightarrow> string list" where
  \<open>report_modules disp =
    [''## 2. Every module in the chip'',
     [],
     ''Instance counts are **elaborated totals across the whole design**, so a'',
     ''module inside a 4x generate loop inside another 4x loop reports 16.'',
     [],
     ''`variants` counts distinct parameterisations Yosys elaborated for that'',
     ''module; ports / cells / wire bits are the largest such variant.'',
     [],
     ''| Module | Instances | Variants | Ports | Local cells | Wire bits |'',
     ''|:--|--:|--:|--:|--:|--:|''] @
    map (\<lambda>name. case map_of disp name of
           None \<Rightarrow> []
         | Some (n, nv, np, nc, nw) \<Rightarrow>
             ''| `'' @ name @ ''` | '' @ fmt_int n @ '' | '' @ dec_str nv @ '' | '' @ dec_str np @ '' | '' @ fmt_int nc @ '' | '' @ fmt_int nw @ '' |'')
      (sort_key (\<lambda>k. (- int (ninst disp k), k)) (map fst disp)) @
    [[],
     ''---'',
     []]\<close>

definition report_hierarchy :: "mods \<Rightarrow> string list" where
  \<open>report_hierarchy mods =
    [''## 3. Hierarchy'',
     [],
     ''```''] @ tree_lines mods TOP 0 [] [] @
    [''```'',
     [],
     ''---'',
     []]\<close>

definition report_pinout :: "(string \<times> string \<times> string) list \<Rightarrow> nat \<Rightarrow> string list" where
  \<open>report_pinout ports top_bits =
    [''## 4. Pinout'',
     []] @
    [dec_str (length ports) @ '' ports, '' @ fmt_int top_bits @ '' bits.''] @
    [[],
     ''| Dir | Width | Name |'',
     ''|:--|:--|:--|''] @
    map (\<lambda>(d, w, n). ''| '' @ d @ '' | `'' @ (if w \<noteq> [] then w else ''1'') @ ''` | `'' @ n @ ''` |'') ports @
    [[],
     ''---'',
     []]\<close>

definition report_masters :: "string \<Rightarrow> string list" where
  \<open>report_masters raw_top =
    [''## 5. Word crossbar master map'',
     [],
     ''Parsed from the master-assignment comments in the top level.'',
     [],
     ''| Port | Client |'',
     ''|:--|:--|''] @
    map (\<lambda>(lo, hi, who). ''| '' @ dec_str lo @ (if hi = lo then [] else ''-'' @ dec_str hi) @ '' | '' @ who @ '' |'') (xbar_masters raw_top) @
    [[],
     ''---'',
     []]\<close>

definition escape_bars :: "string \<Rightarrow> string" where
  "escape_bars s = concat (map (\<lambda>c. if c = CHR ''|'' then [CHR 0x5C, c] else [c]) s)"

definition report_isa :: "(nat \<times> string \<times> string) list \<Rightarrow> string list" where
  \<open>report_isa isa =
    [''## 6. Instruction set'',
     [],
     ''Read from `driver/titan_x6_isa.h`, which is the ISA's definition of'',
     ''record: the compiler, the C functional model and the RTL decoder are'',
     ''all written against it.'',
     [],
     ''```'',
     '' [31:27] opcode   [26:21] rd   [20:15] rs1   [14:9] rs2'',
     '' [8:3] rs3/imm12  [2:1] pred   [0] use_imm'',
     ''```'',
     [],
     ''| # | Mnemonic | Notes |'',
     ''|--:|:--|:--|''] @
    map (\<lambda>(num, name, note). ''| '' @ dec_str num @ '' | `'' @ name @ ''` | '' @ escape_bars note @ '' |'') isa @
    [[],
     ''Three encoding facts have each caused a real bug in this project:'',
     [],
     ''- **`BRANCH` is unconditional**, gated only by its predicate. It does'',
     ''  *not* read rs1, and its target is an **absolute instruction index**.'',
     ''- **`BARRIER` with `use_imm` and `imm == 0xFFF` is EXIT.** A plain'',
     ''  `BARRIER` is thread sync.'',
     ''- **`SETP`'s `rd` field is `{cond[2:0], pdst[1:0]}`**, not a register'',
     ''  index. `cond` selects one of six `TX6_CMP_*` comparisons.'',
     [],
     ''Predicates are per-warp P0..P3, each a **32-bit per-lane mask**; P0 is'',
     ''hardwired all-ones. There is **no reconvergence stack**: `titan_x5_sm`'',
     ''executes only on a uniformly-true predicate and raises the sticky'',
     ''`dbg_pred_divergent` flag on a mixed mask, while `titan_x7_sm` applies'',
     ''the predicate as a per-lane write mask.'',
     [],
     ''---'',
     []]\<close>

definition report_misleading :: "string list" where
  \<open>report_misleading =
    [''## 7. Things the block diagram would mislead you about'',
     [],
     ''- **Only ROP 0 receives fragments.** ROPs 1-3 are instantiated with'',
     ''  `i_valid(16'b0)` and never paint.'',
     ''- **The ROP has no per-fragment shader dispatch.** It latches the'',
     ''  shader's most recent R63 export and paints whatever the rasterizer'',
     ''  hands it, so a fragment's colour is "the most recent export", not'',
     ''  "the shader result for this fragment".'',
     ''- **There is no instruction cache.** Each SM fetches single 32-bit'',
     ''  words on crossbar masters 9-12, one outstanding at a time. Measured:'',
     ''  8 warps versus 1 pushed the render test from 8,009 to 10,009 cycles'',
     ''  on fetch contention alone.'',
     ''- **The four TMU L1s are read-only** (`core_req_write` tied low), so'',
     ''  they contribute invalidation but never a writeback.'',
     ''- **`titan_x5_gddr7_pam3_phy` is not a PHY.** It contains'',
     ''  `assign tx_ready = 1'b1;`. A real memory PHY is transistor-level'',
     ''  analog IP -- DLLs, per-bit deskew, training -- licensed, not written.'',
     [],
     ''---'',
     []]\<close>

definition slashes :: "string \<Rightarrow> string" where
  "slashes s = map (\<lambda>c. if c = CHR 0x5C then CHR ''/'' else c) s"

definition report_orphans :: "(string \<Rightarrow> string) \<Rightarrow> bodies \<Rightarrow> string list \<Rightarrow> string list" where
  \<open>report_orphans relpath bodies orphans =
    [''## 8. In `rtl/`, but NOT in the chip'',
     []] @
    [''**'' @ dec_str (length orphans) @ '' of '' @ dec_str (length bodies) @ '' modules** in `rtl/` are not reachable''] @
    [''from the top level in either SM build. Some are verified blocks waiting'',
     ''to be connected, some are scaffolding for a larger part. A reader'',
     ''looking at the directory listing would reasonably assume otherwise,'',
     ''which is why this section is generated rather than remembered.'',
     [],
     ''| Module | File |'',
     ''|:--|:--|''] @
    map (\<lambda>name. ''| `'' @ name @ ''` | `'' @ slashes (relpath (case body_of bodies name of None \<Rightarrow> [] | Some (b, p) \<Rightarrow> p)) @ ''` |'') orphans @
    [[]]\<close>

section \<open>The host\<close>

datatype bp_exn = SystemExit string | PyExn py_error

record 'w bp_host =
  bp_root :: string
  bp_walk :: "'w \<Rightarrow> string \<Rightarrow> (string \<times> string list) list"
  bp_env :: "string \<Rightarrow> string option"
  bp_which :: "string \<Rightarrow> string option"
  bp_exists :: "'w \<Rightarrow> string \<Rightarrow> bool"
  bp_relpath :: "string \<Rightarrow> string \<Rightarrow> string"
  bp_read :: "'w \<Rightarrow> string \<Rightarrow> py_error + string"
  bp_mkdtemp :: "'w \<Rightarrow> (py_error + string) \<times> 'w"
  bp_rmtree :: "string \<Rightarrow> 'w \<Rightarrow> 'w"
  bp_makedirs :: "string \<Rightarrow> 'w \<Rightarrow> (py_error + unit) \<times> 'w"
  bp_write :: "string \<Rightarrow> string \<Rightarrow> 'w \<Rightarrow> (py_error + unit) \<times> 'w"
  bp_exec :: "string list \<Rightarrow> 'w \<Rightarrow> (py_error + int) \<times> 'w"

definition lift_py :: "py_error + 'a \<Rightarrow> bp_exn + 'a" where
  "lift_py m = (case m of Inl e \<Rightarrow> Inl (PyExn e) | Inr x \<Rightarrow> Inr x)"

definition RTL_DIR :: "'w bp_host \<Rightarrow> string" where "RTL_DIR h = path_join (bp_root h) ''rtl''"

definition OUT_DEFAULT :: "'w bp_host \<Rightarrow> string" where
  "OUT_DEFAULT h = joins (bp_root h) [''docs'', ''TITAN_APEX_X_BLUEPRINT.md'']"

definition bp_rtl_files :: "'w bp_host \<Rightarrow> 'w \<Rightarrow> string list" where
  "bp_rtl_files h w =
    sort (concat (map (\<lambda>(d, fs). map (path_join d) (filter (\<lambda>f. suffix_of ''.v'' f \<and> f \<notin> set EXCLUDE) (sort fs)))
      (bp_walk h w (RTL_DIR h))))"

definition read_bodies :: "'w bp_host \<Rightarrow> 'w \<Rightarrow> string list \<Rightarrow> py_error + bodies" where
  "read_bodies h w files =
    efold (\<lambda>f bodies. ebind (bp_read h w f) (\<lambda>text.
      Inr (fold (\<lambda>(name, v). dict_set name v) (module_bodies f text) bodies))) files []"

definition parse_isa :: "'w bp_host \<Rightarrow> 'w \<Rightarrow> py_error + (nat \<times> string \<times> string) list" where
  "parse_isa h w =
    (let path = joins (bp_root h) [''driver'', ''titan_x6_isa.h''] in
     if \<not> bp_exists h w path then Inr [] else ebind (bp_read h w path) (\<lambda>src. Inr (isa_table src)))"

section \<open>Yosys\<close>

definition find_yosys :: "'w bp_host \<Rightarrow> 'w \<Rightarrow> bp_exn + string" where
  "find_yosys h w =
    (case filter (\<lambda>c. c \<notin> {None, Some []}) [bp_which h ''yosys'', bp_which h ''yosys.exe''] of
       Some cand # _ \<Rightarrow> Inr cand
     | _ \<Rightarrow>
         (case (case bp_env h ''OSS_CAD'' of
                  None \<Rightarrow> None
                | Some oss \<Rightarrow> if oss = [] then None
                    else find (bp_exists h w) (map (\<lambda>name. joins oss [''bin'', name]) [''yosys.exe'', ''yosys''])) of
            Some p \<Rightarrow> Inr p
          | None \<Rightarrow> Inl (SystemExit (''yosys not found. Put it on PATH or set OSS_CAD to an oss-cad-suite '' @
              ''directory (it also needs its lib/ alongside bin/).''))))"

definition yosys_script :: "'w bp_host \<Rightarrow> string list \<Rightarrow> string list \<Rightarrow> string" where
  "yosys_script h files defines =
    ''read_verilog '' @ py_join '' '' (map (\<lambda>x. ''-D'' @ x) defines) @ '' '' @
      py_join '' '' (map (\<lambda>f. slashes (bp_relpath h f (bp_root h))) files) @ NL @
    ''hierarchy -check -top '' @ TOP @ NL @ ''stat'' @ NL"

definition last_n :: "nat \<Rightarrow> 'a list \<Rightarrow> 'a list" where "last_n n xs = drop (length xs - n) xs"

definition yosys_error :: "string \<Rightarrow> string" where
  "yosys_error text =
    (let err = filter (infix_of ''ERROR'') (py_splitlines text)
     in ''yosys failed:'' @ NL @ py_join NL (if err \<noteq> [] then last_n 5 err else [last_n 2000 text]))"

text \<open>What happens between \<open>mkdtemp\<close> and the \<open>finally\<close>.\<close>

definition yosys_in ::
    "'w bp_host \<Rightarrow> string \<Rightarrow> string \<Rightarrow> string list \<Rightarrow> string list \<Rightarrow> 'w \<Rightarrow> (bp_exn + (mods \<times> nat option)) \<times> 'w" where
  "yosys_in h yosys tmp files defines w =
    (let ys = path_join tmp ''bp.ys''; log_path = path_join tmp ''bp.log'' in
     case bp_write h ys (yosys_script h files defines) w of
       (Inl e, w) \<Rightarrow> (Inl (PyExn e), w)
     | (Inr _, w) \<Rightarrow>
         let (r, w) = bp_exec h [yosys, ''-l'', log_path, ''-s'', ys] w
         in (ebind (lift_py r) (\<lambda>returncode. ebind (lift_py (bp_read h w log_path)) (\<lambda>text.
               if returncode \<noteq> 0 then Inl (SystemExit (yosys_error text))
               else Inr (parse_stat text, parse_design_total text TOP))), w))"

definition run_yosys_stat ::
    "'w bp_host \<Rightarrow> string list \<Rightarrow> string list \<Rightarrow> 'w \<Rightarrow> (bp_exn + (mods \<times> nat option)) \<times> 'w" where
  "run_yosys_stat h files defines w =
    (case find_yosys h w of
       Inl e \<Rightarrow> (Inl e, w)
     | Inr yosys \<Rightarrow>
         (case bp_mkdtemp h w of
            (Inl e, w) \<Rightarrow> (Inl (PyExn e), w)
          | (Inr tmp, w) \<Rightarrow>
              let (res, w) = yosys_in h yosys tmp files defines w in (res, bp_rmtree h tmp w)))"

section \<open>The command line\<close>

definition build_report ::
    "'w bp_host \<Rightarrow> 'w \<Rightarrow> string \<Rightarrow> mods \<Rightarrow> bodies \<Rightarrow> string list \<Rightarrow> nat option \<Rightarrow> py_error + string list" where
  "build_report h w sm mods bodies orphans design_cells =
    (let tot = total_instances mods TOP; disp = by_base mods tot in
     case map_of mods TOP of None \<Rightarrow> Inl KeyError
     | Some root \<Rightarrow>
    (let g = geometry_of sm bodies disp in
     case body_of bodies TOP of None \<Rightarrow> Inl KeyError
     | Some (body, path) \<Rightarrow>
    (let ports = parse_ports body in
     ebind (parse_isa h w) (\<lambda>isa. ebind (bp_read h w path) (\<lambda>raw_top.
       Inr (report_intro sm @ report_facts sm mods tot design_cells ports (ms_port_bits root) g @
            report_cell_note design_cells @ report_modules disp @ report_hierarchy mods @
            report_pinout ports (ms_port_bits root) @ report_masters raw_top @ report_isa isa @
            report_misleading @ report_orphans (\<lambda>p. bp_relpath h p (bp_root h)) bodies orphans))))))"

text \<open>\<open>os.path.dirname\<close>: the text up to the last slash, without the slashes at its end.\<close>

definition dir_name :: "string \<Rightarrow> string" where
  "dir_name p =
    (let r = dropWhile (\<lambda>c. c \<noteq> CHR ''/'') (rev p); q = dropWhile (\<lambda>c. c = CHR ''/'') r
     in if q = [] then rev r else rev q)"

text \<open>\<open>s.replace("\r\n", "\n")\<close>.\<close>

fun unix_lines :: "string \<Rightarrow> string" where
  "unix_lines (a # b # s) = (if a = CHR 0x0D \<and> b = CHR 0x0A then CHR 0x0A # unix_lines s else a # unix_lines (b # s))"
| "unix_lines s = s"

definition bp_text :: "(string list \<Rightarrow> string list) \<Rightarrow> 'w bp_host \<Rightarrow> string \<Rightarrow> 'w \<Rightarrow> (bp_exn + string) \<times> 'w" where
  "bp_text ord h sm w =
    (case read_bodies h w (bp_rtl_files h w) of
       Inl e \<Rightarrow> (Inl (PyExn e), w)
     | Inr bodies \<Rightarrow>
         let defines = (if sm = ''x7'' then [''TITAN_USE_X7_SM''] else []);
             (design_files, reachable) = reachable_files ord bodies TOP
         in (case run_yosys_stat h design_files defines w of
               (Inl e, w) \<Rightarrow> (Inl e, w)
             | (Inr (mods, design_cells), w) \<Rightarrow>
                 let orphans = sort (filter (\<lambda>m. m \<notin> set reachable) (map fst bodies)) in
                 (ebind (lift_py (build_report h w sm mods bodies orphans design_cells)) (\<lambda>ls. Inr (py_join NL ls @ NL)), w)))"

text \<open>\<open>os.makedirs\<close> raises \<open>FileNotFoundError\<close> on the empty path.\<close>

definition bp_main :: "(string list \<Rightarrow> string list) \<Rightarrow> 'w bp_host \<Rightarrow> string \<Rightarrow> string option \<Rightarrow> bool \<Rightarrow> 'w \<Rightarrow> (bp_exn + int) \<times> 'w" where
  "bp_main ord h sm out_arg check w =
    (let path = (if out_arg \<notin> {None, Some []} then the out_arg else OUT_DEFAULT h) in
     case bp_text ord h sm w of
       (Inl e, w) \<Rightarrow> (Inl e, w)
     | (Inr text, w) \<Rightarrow>
         if check then
           (if \<not> bp_exists h w path then (Inr 1, w)
            else (ebind (lift_py (bp_read h w path)) (\<lambda>have. if unix_lines have = text then Inr 0 else Inr 1), w))
         else if dir_name path = [] then (Inl (PyExn OSError), w)
         else
           (case bp_makedirs h (dir_name path) w of
              (Inl e, w) \<Rightarrow> (Inl (PyExn e), w)
            | (Inr _, w) \<Rightarrow>
                (case bp_write h path text w of
                   (Inl e, w) \<Rightarrow> (Inl (PyExn e), w)
                 | (Inr _, w) \<Rightarrow> (Inr 0, w))))"

end
