(* ===== verification/BpProps.thy ===== *)
theory BpProps
  imports BpTables BpReport
begin

text \<open>
  The properties of the blueprint generator: what its readers make of a report, of the ISA header and of
  a port list, the modules it takes for reachable, the instance counts it prints, and when \<^verbatim>\<open>--check\<close>
  accepts the committed file.
\<close>

section \<open>Statistics\<close>

text \<open>C35: \<open>parse_stat\<close> reads back what Yosys prints: every module with its ports, port bits, cells, wire bits and
  submodules, in order, whatever the padding of each row, past the lines of the log, rows of other things, the lines of text
  among them and blank lines, and whatever the summary behind \<open>=== design hierarchy ===\<close> says.\<close>

theorem parse_stat_reads_report:
  assumes "list_all (\<lambda>l. plain_line l \<and> \<not> prefix_of ''=== '' l) log" "list_all block_ok bs"
    "distinct (map (\<lambda>b. strip_slashes (sb_name b)) bs)"
  shows "parse_stat (stat_text log bs @ HIER @ rest) = map block_fact bs"
  using assms by (rule parse_stat_text)

text \<open>Two blocks and the start of the summary of \<^verbatim>\<open>syn/reports/synthesis_stats.txt\<close>.\<close>

definition report_lines :: "string list" where
  "report_lines =
    [[], ''12. Printing statistics.'', [], ''=== titan_x6_tensor_core_array ==='', [],
     ''        +----------Local Count, excluding submodules.'', ''        | '', ''      825 wires'',
     ''    18454 wire bits'', ''      825 public wires'', ''    18454 public wire bits'', ''        8 ports'',
     ''     1030 port bits'', ''       16 cells'', ''       16   $_DFFE_PN0P_'', ''      256 submodules'',
     ''      256   $paramod$c90708c2091c5deb0a68d048d1310494f86784d2'' @ [CHR 0x5C] @ ''mac_pe'', [],
     ''=== $paramod$c90708c2091c5deb0a68d048d1310494f86784d2'' @ [CHR 0x5C] @ ''mac_pe ==='', [],
     ''        +----------Local Count, excluding submodules.'', ''        | '', ''       89 wires'',
     ''      379 wire bits'', ''       19 public wires'', ''      309 public wire bits'', ''       10 ports'',
     ''      133 port bits'', ''      167 cells'', ''       11   $_ANDNOT_'', ''       28   $_AND_'',
     ''       64   $_DFFE_PN0P_'', ''        4   $_MUX_'', ''       41   $_NAND_'', ''        8   $_NOR_'',
     ''        3   $_NOT_'', ''        6   $_ORNOT_'', ''        2   $_OR_'', ''        2 submodules'',
     ''        1   fp32_add'', ''        1   titan_x5_fp16_mul'', []]"

definition report_tail :: "string list" where
  "report_tail =
    [HIER, [], ''        +----------Count including submodules.'', ''        | '',
     ''   603664 titan_x6_tensor_core_array'',
     ''      167 $paramod$c90708c2091c5deb0a68d048d1310494f86784d2'' @ [CHR 0x5C] @ ''mac_pe'']"

definition report_blocks :: "stat_block list" where
  "report_blocks =
    [\<lparr>sb_name = ''titan_x6_tensor_core_array'',
      sb_items = [SText [], SText ''        +----------Local Count, excluding submodules.'', SText ''        | '', SRow 5 0 825 ''wires'', SRow 3 0 18454 ''wire bits'',
        SRow 5 0 825 ''public wires'', SRow 3 0 18454 ''public wire bits'', SRow 7 0 8 ''ports'', SRow 4 0 1030 ''port bits'', SRow 6 0 16 ''cells'',
        SRow 6 2 16 ''$_DFFE_PN0P_''],
      sb_head = (5, 0, 256), sb_subs = [(5, 2, 256, ''$paramod$c90708c2091c5deb0a68d048d1310494f86784d2'' @ [CHR 0x5C] @ ''mac_pe'')]\<rparr>,
     \<lparr>sb_name = ''$paramod$c90708c2091c5deb0a68d048d1310494f86784d2'' @ [CHR 0x5C] @ ''mac_pe'',
      sb_items = [SText [], SText ''        +----------Local Count, excluding submodules.'', SText ''        | '', SRow 6 0 89 ''wires'', SRow 5 0 379 ''wire bits'',
        SRow 6 0 19 ''public wires'', SRow 5 0 309 ''public wire bits'', SRow 6 0 10 ''ports'', SRow 5 0 133 ''port bits'', SRow 5 0 167 ''cells'',
        SRow 6 2 11 ''$_ANDNOT_'', SRow 6 2 28 ''$_AND_'', SRow 6 2 64 ''$_DFFE_PN0P_'', SRow 7 2 4 ''$_MUX_'', SRow 6 2 41 ''$_NAND_'',
        SRow 7 2 8 ''$_NOR_'', SRow 7 2 3 ''$_NOT_'', SRow 7 2 6 ''$_ORNOT_'', SRow 7 2 2 ''$_OR_''],
      sb_head = (7, 0, 2), sb_subs = [(7, 2, 1, ''fp32_add''), (7, 2, 1, ''titan_x5_fp16_mul'')]\<rparr>]"

lemma digit_lits:
  "char_of (48 :: nat) = CHR ''0''" "char_of (49 :: nat) = CHR ''1''" "char_of (50 :: nat) = CHR ''2''" "char_of (51 :: nat) = CHR ''3''" "char_of (52 :: nat) = CHR ''4''"
  "char_of (53 :: nat) = CHR ''5''" "char_of (54 :: nat) = CHR ''6''" "char_of (55 :: nat) = CHR ''7''" "char_of (56 :: nat) = CHR ''8''" "char_of (57 :: nat) = CHR ''9''"
  by code_simp+

lemma pads:
  "replicate 3 (CHR 0x20) = ''   ''"
  "replicate 4 (CHR 0x20) = ''    ''"
  "replicate 5 (CHR 0x20) = ''     ''"
  "replicate 6 (CHR 0x20) = ''      ''"
  "replicate 7 (CHR 0x20) = ''       ''"
  "replicate 8 (CHR 0x20) = ''        ''"
  by (simp_all add: eval_nat_numeral)

lemma report_lines_blocks: "report_lines = [[], ''12. Printing statistics.'', []] @ concat (map block_lines report_blocks)"
  by (simp add: report_lines_def report_blocks_def block_lines_def sub_lines_def row_text_def head_line_def dec_str.simps digit_lits
      pads)

lemma report_is_text:
  "unlines (report_lines @ report_tail) = stat_text [[], ''12. Printing statistics.'', []] report_blocks @ HIER @ NL @ unlines (List.tl report_tail)"
  unfolding report_lines_blocks stat_text_def by (simp add: unlines_def report_tail_def)

theorem parse_stat_reads_report_witness:
  "parse_stat (unlines (report_lines @ report_tail)) =
    [(''titan_x6_tensor_core_array'', \<lparr>ms_ports = 8, ms_port_bits = 1030, ms_cells = 16, ms_wire_bits = 18454,
        ms_subs = [(''$paramod$c90708c2091c5deb0a68d048d1310494f86784d2'' @ [CHR 0x5C] @ ''mac_pe'', 256)]\<rparr>),
     (''$paramod$c90708c2091c5deb0a68d048d1310494f86784d2'' @ [CHR 0x5C] @ ''mac_pe'', \<lparr>ms_ports = 10, ms_port_bits = 133, ms_cells = 167, ms_wire_bits = 379,
        ms_subs = [(''fp32_add'', 1), (''titan_x5_fp16_mul'', 1)]\<rparr>)]"
proof -
  have "list_all (\<lambda>l. plain_line l \<and> \<not> prefix_of ''=== '' l) [[], ''12. Printing statistics.'', []]" by code_simp
  moreover have "list_all block_ok report_blocks"
    by (simp add: report_blocks_def block_ok_def word_ok_def label_def text_line_def plain_line_def is_linebreak_def is_space_def non_space_def
        is_digit_def char_code_def)
  moreover have "distinct (map (\<lambda>b. strip_slashes (sb_name b)) report_blocks)" by (simp add: report_blocks_def strip_slashes_def)
  ultimately have "parse_stat (unlines (report_lines @ report_tail)) = map block_fact report_blocks"
    unfolding report_is_text by (rule parse_stat_reads_report)
  also have "\<dots> = [(''titan_x6_tensor_core_array'', \<lparr>ms_ports = 8, ms_port_bits = 1030, ms_cells = 16, ms_wire_bits = 18454,
        ms_subs = [(''$paramod$c90708c2091c5deb0a68d048d1310494f86784d2'' @ [CHR 0x5C] @ ''mac_pe'', 256)]\<rparr>),
     (''$paramod$c90708c2091c5deb0a68d048d1310494f86784d2'' @ [CHR 0x5C] @ ''mac_pe'', \<lparr>ms_ports = 10, ms_port_bits = 133, ms_cells = 167, ms_wire_bits = 379,
        ms_subs = [(''fp32_add'', 1), (''titan_x5_fp16_mul'', 1)]\<rparr>)]"
    by (simp add: report_blocks_def block_fact_def empty_stat_def count_add_def strip_slashes_def dict_get_def)
  finally show ?thesis .
qed

section \<open>Instance counts\<close>

text \<open>C36: the instance counts of the report are those of the elaborated instance tree: the total is its size, the line
  of a module counts the instances of all its parameterisations, and every module has one line.\<close>

theorem instances_counted:
  assumes "depth_le d mods root"
  shows "sum_list (map snd (total_instances mods root)) = size (add_mset root (inst_ms d mods root)) \<and>
    ninst (by_base mods (total_instances mods root)) b =
      size (filter_mset (\<lambda>m. base_module m = b) (add_mset root (inst_ms d mods root))) \<and>
    distinct (map fst (by_base mods (total_instances mods root)))"
proof -
  let ?t = "total_instances mods root" and ?M = "add_mset root (inst_ms d mods root)"
  have c: "counts ?t ?M" using assms by (rule total_instances_counts)
  have s: "sum_list (map snd ?t) = size ?M" using counts_size_filter [OF c, of "\<lambda>_. True"] by simp
  have "ninst (by_base mods ?t) b = sum_list (map snd (filter (\<lambda>(k, v). base_module k = b) ?t))"
    using by_base_lookup [of mods ?t b] by (auto simp: ninst_def Let_def comp_def split_def)
  then have "ninst (by_base mods ?t) b = size (filter_mset (\<lambda>m. base_module m = b) ?M)"
    using counts_size_filter [OF c, of "\<lambda>m. base_module m = b"] by simp
  then show ?thesis using s by_base_distinct by blast
qed

definition chip_example :: mods where
  "chip_example =
    [(''top'', empty_stat\<lparr>ms_subs := [(''gpc'', 2), (''$paramod$1'' @ [CHR 0x5C] @ ''l1'', 1)]\<rparr>),
     (''gpc'', empty_stat\<lparr>ms_subs := [(''sm'', 4)]\<rparr>),
     (''sm'', empty_stat\<lparr>ms_subs := [(''$paramod$1'' @ [CHR 0x5C] @ ''l1'', 1), (''$paramod$2'' @ [CHR 0x5C] @ ''l1'', 2)]\<rparr>)]"

theorem instances_counted_witness:
  "depth_le 3 chip_example ''top'' \<and> ninst (by_base chip_example (total_instances chip_example ''top'')) ''l1'' = 25 \<and>
    size (filter_mset (\<lambda>m. base_module m = ''l1'') (add_mset ''top'' (inst_ms 3 chip_example ''top''))) = 25"
proof -
  have d: "depth_le 3 chip_example ''top''" by code_simp
  have "ninst (by_base chip_example (total_instances chip_example ''top'')) ''l1'' = 25" by code_simp
  then show ?thesis using d instances_counted [OF d, of "''l1''"] by simp
qed

section \<open>Reachable modules\<close>

text \<open>C37: in whatever order sets are iterated, the modules handed on are exactly those reachable from the top through
  instantiations, none twice, cycles or not, and the files exactly those that hold them, sorted, none twice.\<close>

theorem reachable_is_closure:
  assumes "set_order ord" "reachable_files ord bodies r = (files, seen)"
  shows "set seen = {m. (r, m) \<in> (edge_rel (edges_of bodies))\<^sup>*} \<and> distinct seen \<and>
    set files = {p. \<exists>m b. (r, m) \<in> (edge_rel (edges_of bodies))\<^sup>* \<and> body_of bodies m = Some (b, p)} \<and>
    sorted files \<and> distinct files"
proof -
  have s: "seen = walk ord (edges_of bodies) [] [r]"
    "files = sort (remdups (List.map_filter (\<lambda>m. map_option snd (body_of bodies m)) seen))"
    using assms(2) by (auto simp: reachable_files_def Let_def)
  have c: "set seen = {m. (r, m) \<in> (edge_rel (edges_of bodies))\<^sup>*}"
    unfolding s(1) using walk_is_closure [OF assms(1), of "edges_of bodies" r] by auto
  have "set files = {p. \<exists>m \<in> set seen. \<exists>b. body_of bodies m = Some (b, p)}"
    by (force simp: s(2) map_filter_def)
  then show ?thesis using c walk_distinct [of "[]" ord "edges_of bodies" "[r]"] s by auto
qed

theorem reachable_is_closure_witness:
  "set_order rev \<and> reachable_files rev [(''a'', ''; b u (x); b v (y);'', ''f''), (''b'', ''; a w (x);'', ''g''), (''c'', ''; a k (x);'', ''h'')] ''a'' =
      ([''f'', ''g''], [''b'', ''a'']) \<and>
    (''a'', ''c'') \<notin> (edge_rel (edges_of [(''a'', ''; b u (x); b v (y);'', ''f''), (''b'', ''; a w (x);'', ''g''), (''c'', ''; a k (x);'', ''h'')]))\<^sup>*"
proof -
  have o: "set_order rev" by (simp add: set_order_def)
  have e: "reachable_files rev [(''a'', ''; b u (x); b v (y);'', ''f''), (''b'', ''; a w (x);'', ''g''), (''c'', ''; a k (x);'', ''h'')] ''a'' =
      ([''f'', ''g''], [''b'', ''a''])" by code_simp
  have "''c'' \<notin> set [''b'', ''a'']" by simp
  then show ?thesis using reachable_is_closure [OF o e] o e by blast
qed

section \<open>The check\<close>

lemma bp_text_order:
  assumes "set_order ord" "set_order ord'"
  shows "bp_text ord h sm w = bp_text ord' h sm w"
proof (cases "read_bodies h w (bp_rtl_files h w)")
  case (Inr bodies)
  obtain f s where a: "reachable_files ord bodies TOP = (f, s)" by fastforce
  obtain f' s' where b: "reachable_files ord' bodies TOP = (f', s')" by fastforce
  have e: "f = f'" "set s = set s'" using reachable_files_order [OF assms, of bodies TOP] a b by auto
  show ?thesis unfolding bp_text_def Inr sum.case Let_def a b prod.case e ..
qed (simp add: bp_text_def)

text \<open>The text with the line ends of Windows.\<close>

definition crlf :: "string \<Rightarrow> string" where
  "crlf s = concat (map (\<lambda>c. if c = CHR 0x0A then [CHR 0x0D, CHR 0x0A] else [c]) s)"

lemma unix_same: "CHR 0x0D \<notin> set s \<Longrightarrow> unix_lines s = s"
proof (induction s rule: unix_lines.induct)
  case (1 a b s)
  have a: "a \<noteq> CHR 0x0D" using "1.prems" by (metis list.set_intros(1))
  then have "unix_lines (b # s) = b # s" using 1 by (metis list.set_intros(2))
  then show ?case using a by (simp only: unix_lines.simps simp_thms if_False)
qed simp_all

lemma unix_crlf: "CHR 0x0D \<notin> set s \<Longrightarrow> unix_lines (crlf s) = s"
proof (induction s)
  case (Cons c s)
  then have u: "unix_lines (crlf s) = s" and c: "c \<noteq> CHR 0x0D" by auto
  have n: "unix_lines (d # t) = d # unix_lines t" if "d \<noteq> CHR 0x0D" for d t
    using that by (cases t) simp_all
  show ?case
  proof (cases "c = CHR 0x0A")
    case True
    then show ?thesis using u by (simp add: crlf_def)
  next
    case False
    then have "crlf (c # s) = c # crlf s" by (simp add: crlf_def)
    then show ?thesis using n [OF c] u by simp
  qed
qed (simp add: crlf_def)

text \<open>C38: the text of the blueprint does not depend on the order in which sets are iterated, so \<^verbatim>\<open>--check\<close> decides
  between the committed file and the RTL: while the sources give the text they gave when it was written, it exits with 0 exactly when the
  file exists and holds that text, with either kind of line ends, and with 1 otherwise.\<close>

theorem check_guards_blueprint:
  assumes "set_order ord" "set_order ord'"
    and "bp_text ord h sm w = (Inr text, w1)" "fst (bp_text ord' h sm w2) = fst (bp_text ord' h sm w)"
    and "CHR 0x0D \<notin> set text"
    and "path = (if arg \<notin> {None, Some []} then the arg else OUT_DEFAULT h)"
    and "bp_exists h (snd (bp_text ord' h sm w2)) path = ex" "bp_read h (snd (bp_text ord' h sm w2)) path = Inr have'"
  shows "fst (bp_main ord' h sm arg True w2) = Inr (if ex \<and> unix_lines have' = text then 0 else 1) \<and>
    unix_lines text = text \<and> unix_lines (crlf text) = text"
proof -
  have "fst (bp_text ord' h sm w2) = Inr text" using assms(3,4) bp_text_order [OF assms(1,2), of h sm w] by simp
  then obtain w3 where "bp_text ord' h sm w2 = (Inr text, w3)" by (metis prod.collapse)
  then show ?thesis using assms(5-8) by (auto simp: bp_main_def Let_def lift_py_def unix_same unix_crlf)
qed

text \<open>A repository with one module, whose blueprint is the whole state.\<close>

definition bp_example :: "string option bp_host" where
  "bp_example = \<lparr>
    bp_root = ''r'',
    bp_walk = (\<lambda>w d. [(d, [''top.v''])]),
    bp_env = (\<lambda>_. None),
    bp_which = (\<lambda>p. if p = ''yosys'' then Some ''yosys'' else None),
    bp_exists = (\<lambda>w p. p = ''r/docs/TITAN_APEX_X_BLUEPRINT.md'' \<and> w \<noteq> None),
    bp_relpath = (\<lambda>p d. p),
    bp_read = (\<lambda>w p.
      if p = ''r/rtl/top.v'' then Inr ''module titan_x5_gpu_top (input clk); endmodule''
      else if p = ''t/bp.log'' then Inr (''=== titan_x5_gpu_top ==='' @ NL @ ''   1 ports'' @ NL @ ''   1 port bits'' @ NL)
      else (case w of None \<Rightarrow> Inl OSError | Some s \<Rightarrow> Inr s)),
    bp_mkdtemp = (\<lambda>w. (Inr ''t'', w)),
    bp_rmtree = (\<lambda>_ w. w),
    bp_makedirs = (\<lambda>_ w. (Inr (), w)),
    bp_write = (\<lambda>p s w. (Inr (), if p = ''r/docs/TITAN_APEX_X_BLUEPRINT.md'' then Some s else w)),
    bp_exec = (\<lambda>_ w. (Inr 0, w))\<rparr>"

definition ex_bodies :: bodies where "ex_bodies = [(''titan_x5_gpu_top'', '' (input clk); '', ''r/rtl/top.v'')]"
definition ex_mods :: mods where "ex_mods = [(''titan_x5_gpu_top'', empty_stat\<lparr>ms_ports := 1, ms_port_bits := 1\<rparr>)]"

lemma bp_ex_bodies: "read_bodies bp_example w (bp_rtl_files bp_example w) = Inr ex_bodies"
  by code_simp
lemma bp_ex_files: "reachable_files ord ex_bodies TOP = ([''r/rtl/top.v''], [TOP])"
  by code_simp
lemma bp_ex_yosys: "run_yosys_stat bp_example [''r/rtl/top.v''] [] w = (Inr (ex_mods, None), w)"
  by code_simp
lemma bp_ex_orphans: "sort (filter (\<lambda>m. m \<noteq> TOP) (map fst ex_bodies)) = []"
  by code_simp
lemma bp_ex_facts: "map_of ex_mods TOP = Some (empty_stat\<lparr>ms_ports := 1, ms_port_bits := 1\<rparr>)" "body_of ex_bodies TOP = Some ('' (input clk); '', ''r/rtl/top.v'')"
  "parse_isa bp_example w = Inr []" "bp_read bp_example w ''r/rtl/top.v'' = Inr ''module titan_x5_gpu_top (input clk); endmodule''"
  "parse_ports '' (input clk); '' = [(''input'', [], ''clk'')]" "total_instances ex_mods TOP = [(TOP, 1)]"
  "by_base ex_mods [(TOP, 1)] = [(TOP, 1, 1, 1, 0, 0)]"
  by code_simp+

definition ex_geo :: geometry where "ex_geo = geometry_of ''x5'' ex_bodies [(TOP, 1, 1, 1, 0, 0)]"

abbreviation cr_free :: "string \<Rightarrow> bool" where "cr_free \<equiv> list_all (\<lambda>c. c \<noteq> CHR 0x0D)"
abbreviation no_cr :: "string list \<Rightarrow> bool" where "no_cr \<equiv> list_all cr_free"

lemma cr_dec: "cr_free (dec_str n)"
proof -
  have "cr_free (dec_str n)" if "list_all is_digit (dec_str n)"
    using that by (rule list.pred_mono_strong) (auto simp: is_digit_def char_code_def)
  then show ?thesis using dec_str_digits by blast
qed

lemma cr_commas: "cr_free (commas s) = cr_free s"
  by (induction s rule: commas.induct) simp_all

lemma cr_rev: "cr_free (rev s) = cr_free s"
  by (simp add: list_all_iff)

lemma cr_fmt: "cr_free (fmt_int n)"
  by (simp add: fmt_int_def cr_rev cr_commas cr_dec)

lemma cr_sec2: "no_cr (report_facts ''x5'' mods tot dc ports n g)"
  by (simp add: report_facts_def cr_dec cr_fmt TOP_def Let_def)

lemma cr_sec1: "no_cr (report_intro ''x5'')" by code_simp
lemma cr_sec3: "no_cr (report_cell_note None)" by code_simp
lemma cr_sec4: "no_cr (report_modules  [(TOP, 1, 1, 1, 0, 0)])" by code_simp
lemma cr_sec5: "no_cr (report_hierarchy ex_mods)" by code_simp
lemma cr_sec6: "no_cr (report_pinout  [(''input'', [], ''clk'')] 1)" by code_simp
lemma cr_sec7: "no_cr (report_masters ''module titan_x5_gpu_top (input clk); endmodule'')" by code_simp
lemma cr_sec8: "no_cr (report_isa [])" by code_simp
lemma cr_sec9: "no_cr report_misleading" by code_simp
lemma cr_sec10: "no_cr (report_orphans (\<lambda>p. p) ex_bodies [])" by code_simp

definition ex_lines :: "string list" where
  "ex_lines = report_intro ''x5'' @ report_facts ''x5'' ex_mods [(TOP, 1)] None [(''input'', [], ''clk'')] 1 ex_geo @
     report_cell_note None @ report_modules [(TOP, 1, 1, 1, 0, 0)] @ report_hierarchy ex_mods @
     report_pinout [(''input'', [], ''clk'')] 1 @ report_masters ''module titan_x5_gpu_top (input clk); endmodule'' @
     report_isa [] @ report_misleading @ report_orphans (\<lambda>p. p) ex_bodies []"

definition ex_text :: string where "ex_text = py_join NL ex_lines @ NL"

lemma bp_ex_report: "build_report bp_example w ''x5'' ex_mods ex_bodies [] None = Inr ex_lines"
proof -
  have "bp_relpath bp_example p (bp_root bp_example) = p" for p by (simp add: bp_example_def)
  then show ?thesis by (simp add: build_report_def Let_def bp_ex_facts ex_lines_def ex_geo_def empty_stat_def del: One_nat_def)
qed

lemma bp_ex_text: "bp_text ord bp_example ''x5'' w = (Inr ex_text, w)"
  by (simp add: bp_text_def bp_ex_bodies bp_ex_files bp_ex_yosys bp_ex_orphans bp_ex_report lift_py_def ex_text_def Let_def)

lemma cr_join: "no_cr ls \<Longrightarrow> cr_free (py_join NL ls)"
  by (induction NL ls rule: py_join.induct) (auto simp: NL_def)

lemma ex_text_cr: "CHR 0x0D \<notin> set ex_text"
proof -
  have "no_cr ex_lines" unfolding ex_lines_def list_all_append
    using cr_sec1 cr_sec2 cr_sec3 cr_sec4 cr_sec5 cr_sec6 cr_sec7 cr_sec8 cr_sec9 cr_sec10 by blast
  then have "cr_free ex_text" unfolding ex_text_def list_all_append using cr_join by (simp add: NL_def)
  then show ?thesis by (auto simp: list_all_iff)
qed

text \<open>Written, read back with the line ends of Windows, and a file that has been edited.\<close>

theorem check_guards_blueprint_witness:
  "bp_main id bp_example ''x5'' None False None = (Inr 0, Some ex_text) \<and>
    fst (bp_main rev bp_example ''x5'' None True (Some (crlf ex_text))) = Inr 0 \<and>
    fst (bp_main rev bp_example ''x5'' None True (Some ''# edited'')) = Inr 1"
proof -
  have o: "set_order id" "set_order rev" by (simp_all add: set_order_def)
  have p: "OUT_DEFAULT bp_example = ''r/docs/TITAN_APEX_X_BLUEPRINT.md''" "dir_name ''r/docs/TITAN_APEX_X_BLUEPRINT.md'' \<noteq> []"
    by code_simp+
  have f: "fst (bp_text rev bp_example ''x5'' (Some s)) = fst (bp_text rev bp_example ''x5'' None)" for s
    by (simp add: bp_ex_text)
  have c: "fst (bp_main rev bp_example ''x5'' None True (Some s)) = Inr (if True \<and> unix_lines s = ex_text then 0 else 1) \<and>
      unix_lines ex_text = ex_text \<and> unix_lines (crlf ex_text) = ex_text" for s
    by (rule check_guards_blueprint [OF o bp_ex_text f ex_text_cr refl])
      (simp_all add: bp_ex_text p, simp_all add: bp_example_def)
  have "unix_lines ''# edited'' \<noteq> ex_text"
  proof
    assume "unix_lines ''# edited'' = ex_text"
    moreover have "ex_text = ''# T'' @ drop 3 ex_text"
      by (simp add: ex_text_def ex_lines_def report_intro_def)
    moreover have "unix_lines ''# edited'' = ''# edited''" by code_simp
    ultimately have "take 3 ''# edited'' = take 3 (''# T'' @ drop 3 ex_text)" by simp
    then show False by simp
  qed
  moreover have "bp_main id bp_example ''x5'' None False None = (Inr 0, Some ex_text)"
    by (simp add: bp_main_def bp_ex_text p Let_def) (simp add: bp_example_def)
  ultimately show ?thesis using c [of "crlf ex_text"] c [of "''# edited''"] by simp
qed

section \<open>The ISA header and the pins\<close>

text \<open>\<open>parse_isa\<close> reads the opcode table of the header back: numbers, names and comments, sorted by number, when
  no comment line follows an opcode without a comment of its own.\<close>

theorem isa_table_reads_header:
  assumes "list_all isa_row_ok rows" "list_all (\<lambda>c. c \<noteq> CHR ''T'') lead" "list_all (\<lambda>c. c \<noteq> CHR ''T'') trail"
    "\<not> prefix_of ''//'' (dropWhile is_space trail)"
  shows "isa_table (lead @ concat (map isa_line rows) @ trail) = sort rows"
proof -
  let ?b = "concat (map isa_line rows) @ trail"
  have sp: "list_all is_space (takeWhile is_space ?b)" by (auto simp: list_all_iff dest: set_takeWhileD)
  have "find_from rx_isa_op [] (lead @ ?b) = find_from rx_isa_op (rev lead @ []) ?b"
    by (rule find_skip_run [OF isa_other assms(2)])
  also have "\<dots> = find_from rx_isa_op (rev lead @ []) (takeWhile is_space ?b @ dropWhile is_space ?b)" by simp
  also have "\<dots> = find_from rx_isa_op (rev (takeWhile is_space ?b) @ rev lead @ []) (dropWhile is_space ?b)"
    by (rule isa_spaces [OF sp])
  finally show ?thesis
    using isa_rows [OF assms(3,4,1)] by (simp add: isa_table_def re_finditer_def isa_entry_def [abs_def])
qed

theorem isa_table_reads_header_witness:
  "isa_table (''enum {'' @ NL @ concat (map isa_line [(5, ''AND'', []), (0, ''ADD'', ''rd = rs1 + rs2'')]) @ ''};'') =
    [(0, ''ADD'', ''rd = rs1 + rs2''), (5, ''AND'', [])]"
proof -
  have "isa_table ((''enum {'' @ NL) @ concat (map isa_line [(5, ''AND'', []), (0, ''ADD'', ''rd = rs1 + rs2'')]) @ ''};'') =
      sort [(5, ''AND'', []), (0, ''ADD'', ''rd = rs1 + rs2'')]"
    by (rule isa_table_reads_header) code_simp+
  then show ?thesis by simp
qed

text \<open>C39: \<open>parse_ports\<close> reads back an ANSI port list behind any parameter block: direction, range and first name of every
  declaration, in order, for every kind of net, signed or not, with any blanks between the parts and any separators between the
  declarations, when no name without a range begins with \<open>signed\<close> and none without range and kind with the name of a kind. The names
  that follow with the same declaration are lost.\<close>

theorem parse_ports_reads_header:
  assumes "ports_ok ports" "no_words lead" "balanced (lead @ ports_text ports)" "blanks mid" "params_ok params"
  shows "parse_ports (module_text params mid (lead @ ports_text ports) rest) = map (\<lambda>(d, sep). port_entry d) ports"
  using parse_ports_header [OF assms(3-5)] ports_read [OF assms(2,1)] by simp

text \<open>The header of \<^verbatim>\<open>rtl/graphics/titan_x5_rasterizer.v\<close>, without its comments.\<close>

definition rasterizer_text :: string where
  "rasterizer_text = py_join NL
    ['' #('',
     ''    parameter COORD_W = 16,'',
     ''    parameter WEIGHT_W = 32'',
     '') ('',
     ''    input  wire clk,'',
     ''    input  wire rst_n,'',
     ''    '',
     ''    '',
     ''    input  wire i_valid,'',
     ''    output wire i_ready,'',
     ''    input wire [15:0] v0_x, v0_y,'',
     ''    input wire [15:0] v1_x, v1_y,'',
     ''    input wire [15:0] v2_x, v2_y,'',
     ''    input wire [31:0] v0_z, v1_z, v2_z,'',
     ''    '',
     ''    '',
     ''    output wire [15:0] o_valid, '',
     ''    input  wire o_ready,'',
     ''    output wire signed [COORD_W-1:0] o_x, o_y, '',
     ''    output wire [16*WEIGHT_W-1:0] o_w0, o_w1, o_w2, '',
     ''    output wire [16*32-1:0] o_z'',
     '');'']"

definition rasterizer_ports :: "(port_decl \<times> string) list" where
  "rasterizer_ports =
    [(\<lparr>pd_dir = ''input'', pd_gap = ''  '', pd_kind = Some (''wire'', '' ''), pd_signed = None, pd_range = None, pd_name = ''clk'',
        pd_more = []\<rparr>, '','' @ NL @ ''    ''),
     (\<lparr>pd_dir = ''input'', pd_gap = ''  '', pd_kind = Some (''wire'', '' ''), pd_signed = None, pd_range = None, pd_name = ''rst_n'',
        pd_more = []\<rparr>, '','' @ NL @ ''    '' @ NL @ ''    '' @ NL @ ''    ''),
     (\<lparr>pd_dir = ''input'', pd_gap = ''  '', pd_kind = Some (''wire'', '' ''), pd_signed = None, pd_range = None, pd_name = ''i_valid'',
        pd_more = []\<rparr>, '','' @ NL @ ''    ''),
     (\<lparr>pd_dir = ''output'', pd_gap = '' '', pd_kind = Some (''wire'', '' ''), pd_signed = None, pd_range = None, pd_name = ''i_ready'',
        pd_more = []\<rparr>, '','' @ NL @ ''    ''),
     (\<lparr>pd_dir = ''input'', pd_gap = '' '', pd_kind = Some (''wire'', '' ''), pd_signed = None, pd_range = Some (''15:0'', '' ''), pd_name = ''v0_x'',
        pd_more = [('', '', ''v0_y'')]\<rparr>, '','' @ NL @ ''    ''),
     (\<lparr>pd_dir = ''input'', pd_gap = '' '', pd_kind = Some (''wire'', '' ''), pd_signed = None, pd_range = Some (''15:0'', '' ''), pd_name = ''v1_x'',
        pd_more = [('', '', ''v1_y'')]\<rparr>, '','' @ NL @ ''    ''),
     (\<lparr>pd_dir = ''input'', pd_gap = '' '', pd_kind = Some (''wire'', '' ''), pd_signed = None, pd_range = Some (''15:0'', '' ''), pd_name = ''v2_x'',
        pd_more = [('', '', ''v2_y'')]\<rparr>, '','' @ NL @ ''    ''),
     (\<lparr>pd_dir = ''input'', pd_gap = '' '', pd_kind = Some (''wire'', '' ''), pd_signed = None, pd_range = Some (''31:0'', '' ''), pd_name = ''v0_z'',
        pd_more = [('', '', ''v1_z''), ('', '', ''v2_z'')]\<rparr>, '','' @ NL @ ''    '' @ NL @ ''    '' @ NL @ ''    ''),
     (\<lparr>pd_dir = ''output'', pd_gap = '' '', pd_kind = Some (''wire'', '' ''), pd_signed = None, pd_range = Some (''15:0'', '' ''), pd_name = ''o_valid'',
        pd_more = []\<rparr>, '', '' @ NL @ ''    ''),
     (\<lparr>pd_dir = ''input'', pd_gap = ''  '', pd_kind = Some (''wire'', '' ''), pd_signed = None, pd_range = None, pd_name = ''o_ready'',
        pd_more = []\<rparr>, '','' @ NL @ ''    ''),
     (\<lparr>pd_dir = ''output'', pd_gap = '' '', pd_kind = Some (''wire'', '' ''), pd_signed = Some '' '', pd_range = Some (''COORD_W-1:0'', '' ''), pd_name = ''o_x'',
        pd_more = [('', '', ''o_y'')]\<rparr>, '', '' @ NL @ ''    ''),
     (\<lparr>pd_dir = ''output'', pd_gap = '' '', pd_kind = Some (''wire'', '' ''), pd_signed = None, pd_range = Some (''16*WEIGHT_W-1:0'', '' ''), pd_name = ''o_w0'',
        pd_more = [('', '', ''o_w1''), ('', '', ''o_w2'')]\<rparr>, '', '' @ NL @ ''    ''),
     (\<lparr>pd_dir = ''output'', pd_gap = '' '', pd_kind = Some (''wire'', '' ''), pd_signed = None, pd_range = Some (''16*32-1:0'', '' ''), pd_name = ''o_z'',
        pd_more = []\<rparr>, NL)]"

lemma rasterizer_is_text:
  "rasterizer_text = module_text (Some ('' '', [], NL @ ''    parameter COORD_W = 16,'' @ NL @ ''    parameter WEIGHT_W = 32'' @ NL)) '' '' ((NL @ ''    '') @ ports_text rasterizer_ports) '';''"
  by code_simp

theorem parse_ports_reads_header_witness:
  "parse_ports rasterizer_text =
    [(''input'', [], ''clk''), (''input'', [], ''rst_n''), (''input'', [], ''i_valid''), (''output'', [], ''i_ready''),
     (''input'', ''[15:0]'', ''v0_x''), (''input'', ''[15:0]'', ''v1_x''), (''input'', ''[15:0]'', ''v2_x''), (''input'', ''[31:0]'', ''v0_z''),
     (''output'', ''[15:0]'', ''o_valid''), (''input'', [], ''o_ready''), (''output'', ''[COORD_W-1:0]'', ''o_x''), (''output'', ''[16*WEIGHT_W-1:0]'', ''o_w0''),
     (''output'', ''[16*32-1:0]'', ''o_z'')]"
proof -
  have "ports_ok rasterizer_ports" by code_simp
  moreover have "no_words (NL @ ''    '')" by code_simp
  moreover have "balanced ((NL @ ''    '') @ ports_text rasterizer_ports)" by code_simp
  moreover have "blanks '' ''" by code_simp
  moreover have "params_ok (Some ('' '', [], NL @ ''    parameter COORD_W = 16,'' @ NL @ ''    parameter WEIGHT_W = 32'' @ NL))" by code_simp
  ultimately have "parse_ports rasterizer_text = map (\<lambda>(d, sep). port_entry d) rasterizer_ports"
    unfolding rasterizer_is_text by (rule parse_ports_reads_header)
  then show ?thesis by (simp add: rasterizer_ports_def port_entry_def bracket_def)
qed

section \<open>Departures\<close>

text \<open>An opcode without a comment takes the comment line behind it: the pattern runs over the line end.\<close>

theorem opcode_takes_next_comment:
  "isa_table (''TX6_OP_COS = 28,'' @ NL @ ''// Slot 29 was RSQRT'' @ NL @ ''TX6_OP_SIN = 27,  // sine'') =
    [(27, ''SIN'', ''sine''), (28, ''COS'', ''Slot 29 was RSQRT'')]"
  by code_simp

text \<open>A name that begins with the name of a kind of net loses it.\<close>

theorem port_name_cut: "header_ports ''input regfile_en'' = [(''input'', [], ''file_en'')]"
  by code_simp

text \<open>An instance with a call inside an override is not seen.\<close>

theorem nested_override_missed:
  "child_modules [(''m'', [], []), (''b'', [], [])] ''m'' ''; b #(.W(3)) u (x);'' = [''b''] \<and>
    child_modules [(''m'', [], []), (''b'', [], [])] ''m'' ''; b #(.W(f(3))) u (x);'' = []"
  by code_simp

text \<open>Two slashes inside a block comment take its end with them.\<close>

theorem block_comment_runs_on: "strip_comments (''a /* x // y */ b'' @ NL @ ''c /* z */ d'') = ''a  d''"
  by code_simp

text \<open>The figures shown for a module are those of the parameterisation with most instances, not of the largest.\<close>

theorem shown_variant_is_commonest:
  "by_base
    [(''$paramod$1'' @ [CHR 0x5C] @ ''m'', empty_stat\<lparr>ms_ports := 1, ms_cells := 10\<rparr>),
     (''$paramod$2'' @ [CHR 0x5C] @ ''m'', empty_stat\<lparr>ms_ports := 2, ms_cells := 99\<rparr>)]
    [(''$paramod$1'' @ [CHR 0x5C] @ ''m'', 3), (''$paramod$2'' @ [CHR 0x5C] @ ''m'', 1)] = [(''m'', 4, 2, 1, 10, 0)]"
  by code_simp

text \<open>An output path without a directory fails after all the work.\<close>

theorem bare_output_path_fails:
  assumes "bp_text ord h sm w = (Inr text, w')"
  shows "bp_main ord h sm (Some ''blueprint.md'') False w = (Inl (PyExn OSError), w')"
proof -
  have "dir_name ''blueprint.md'' = []" by code_simp
  then show ?thesis using assms by (simp add: bp_main_def)
qed

end
