(* ===== verification/RtlDeps.thy ===== *)
theory RtlDeps
  imports BpText
begin

text \<open>
  The file list of one module, \<^verbatim>\<open>syn/scripts/rtl_deps.py\<close>: which module each file of the synthesis script
  defines, what a file instantiates by name, and the files of everything the requested module needs.
  The list of files and their texts are arguments, what is printed is the result.
\<close>

section \<open>Reading the sources\<close>

definition rx_read_verilog :: rx where
  "rx_read_verilog = rx_seq [rx_lit ''read_verilog'', rx_some is_space, RGroup 1 (rx_some non_space)]"

definition script_files :: "string \<Rightarrow> string list" where
  "script_files script = map (\<lambda>m. mgroup m 1) (List.map_filter (re_match rx_read_verilog) (file_lines [] script))"

definition ident_start :: "char \<Rightarrow> bool" where
  "ident_start c \<longleftrightarrow> (let n = char_code c in 65 \<le> n \<and> n \<le> 90 \<or> 97 \<le> n \<and> n \<le> 122 \<or> n = 95)"

definition rx_defines :: rx where
  "rx_defines = rx_seq [RLine, rx_many is_space, rx_lit ''module'', rx_some is_space,
     RGroup 1 (RSeq (RSet ident_start) (rx_many is_word))]"

definition defined_modules :: "string \<Rightarrow> string list" where
  "defined_modules src = map (\<lambda>m. mgroup m 1) (re_finditer rx_defines src)"

text \<open>Module to file, in the order of the first definitions; a later definition replaces the file.\<close>

definition defines_of :: "(string \<times> string) list \<Rightarrow> (string \<times> string) list" where
  "defines_of texts = fold (\<lambda>(f, src). fold (\<lambda>m. dict_set m f) (defined_modules src)) texts []"

section \<open>The graph\<close>

definition rx_uses :: "string list \<Rightarrow> rx" where
  "rx_uses names = rx_seq [RBound, RGroup 1 (rx_alts (map rx_lit names)), RBound, rx_many is_space,
     RAlt (rx_lit ''#'')
       (rx_seq [RSet (\<lambda>c. ident_start c \<or> c = CHR ''$''), rx_many is_word, rx_many is_space, rx_lit ''(''])]"

definition by_length :: "string list \<Rightarrow> string list" where
  "by_length names = sort_key (\<lambda>s. - int (length s)) names"

definition uses :: "string list \<Rightarrow> string \<Rightarrow> string \<Rightarrow> string list" where
  "uses names m src = filter (\<lambda>u. u \<noteq> m) (remdups (map (\<lambda>t. mgroup t 1) (re_finditer (rx_uses names) src)))"

definition use_edges :: "(string \<times> string) list \<Rightarrow> (string \<times> string) list \<Rightarrow> (string \<times> string list) list" where
  "use_edges texts defs =
    map (\<lambda>(m, f). (m, uses (by_length (map fst defs)) m (dict_get [] f texts))) defs"

text \<open>\<open>main\<close>: the lines printed, or the message of \<open>sys.exit\<close>.\<close>

definition dep_texts :: "(string \<Rightarrow> string) \<Rightarrow> string \<Rightarrow> (string \<times> string) list" where
  "dep_texts read_file script = fold (\<lambda>f. dict_set f (strip_comments (read_file f))) (script_files script) []"

definition dep_defs :: "(string \<Rightarrow> string) \<Rightarrow> string \<Rightarrow> (string \<times> string) list" where
  "dep_defs read_file script =
    defines_of (map (\<lambda>f. (f, dict_get [] f (dep_texts read_file script))) (script_files script))"

definition rtl_deps :: "(string list \<Rightarrow> string list) \<Rightarrow> (string \<Rightarrow> string) \<Rightarrow> string \<Rightarrow> string \<Rightarrow> string + string list" where
  "rtl_deps ord read_file script root =
    (let texts = dep_texts read_file script; defs = dep_defs read_file script in
     if root \<notin> set (map fst defs) then Inl (''error: module '' @ root @ '' not defined in the file list'')
     else
       let seen = walk ord (use_edges texts defs) [] [root];
           needed = map (\<lambda>m. dict_get [] m defs) seen
       in Inr (filter (\<lambda>f. f \<in> set needed) (script_files script)))"

section \<open>Used names are defined\<close>

primrec ungrouped :: "rx \<Rightarrow> bool" where
  "ungrouped (RSet P) = True"
| "ungrouped REps = True"
| "ungrouped (RSeq a b) = (ungrouped a \<and> ungrouped b)"
| "ungrouped (RAlt a b) = (ungrouped a \<and> ungrouped b)"
| "ungrouped (RStar g a) = ungrouped a"
| "ungrouped (RGroup n a) = False"
| "ungrouped RBound = True"
| "ungrouped RBegin = True"
| "ungrouped RLine = True"
| "ungrouped REnd = True"
| "ungrouped (RAhead a) = True"

lemma ungrouped_caps: "rxm r s t \<Longrightarrow> ungrouped r \<Longrightarrow> caps t = caps s"
  by (induction rule: rxm.induct) auto

lemma ungrouped_lit: "ungrouped (rx_lit l)"
  by (induction l) (simp_all add: rx_lit_def)

lemma ungrouped_some: "ungrouped (rx_some P)" "ungrouped (rx_many P)"
  by (simp_all add: rx_some_def rx_many_def)

lemma find_from_match: "t \<in> set (find_from r pre s) \<Longrightarrow> \<exists>p q. rx_at r p q = Some t"
  by (induction r pre s rule: find_from.induct) (auto split: option.splits if_splits)

lemma rxm_alts_lit: "rxm (rx_alts (map rx_lit ls)) s t \<Longrightarrow> \<exists>l \<in> set ls. ahead s = l @ ahead t"
proof (induction ls)
  case Nil
  then show ?case by (auto elim: rxm_setE)
next
  case (Cons l ls)
  show ?case
  proof (cases ls)
    case Nil
    then show ?thesis using Cons.prems rxm_lit by auto
  next
    case (Cons l' ls')
    then have "rxm (RAlt (rx_lit l) (rx_alts (map rx_lit ls))) s t" using Cons.prems by simp
    then show ?thesis using Cons.IH rxm_lit by (elim rxm_altE) auto
  qed
qed

lemma rxm_second: "rxm (rx_seq (r # q # p # rs)) s t \<Longrightarrow> \<exists>a b. rxm q a b \<and> rxm (rx_seq (p # rs)) b t"
  unfolding rx_seq.simps by (elim rxm_seqE) blast

lemma uses_defined:
  assumes "m \<in> set (uses names x src)"
  shows "m \<in> set names"
proof -
  obtain t where t: "t \<in> set (find_from (rx_uses names) [] src)" "m = mgroup t 1"
    using assms by (auto simp: uses_def re_finditer_def)
  obtain p q where "rx_at (rx_uses names) p q = Some t" using find_from_match [OF t(1)] by blast
  then have "rxm (rx_uses names) (p, q, \<lambda>_. None) t"
    unfolding rx_at_def by (auto dest: mt_sound)
  then obtain a b where b: "rxm (RGroup 1 (rx_alts (map rx_lit names))) a b"
    "rxm (rx_seq [RBound, rx_many is_space, RAlt (rx_lit ''#'')
       (rx_seq [RSet (\<lambda>c. ident_start c \<or> c = CHR ''$''), rx_many is_word, rx_many is_space, rx_lit ''(''])]) b t"
    unfolding rx_uses_def by (blast dest: rxm_second)
  have c: "caps t = caps b"
    using ungrouped_caps [OF b(2)] by (simp add: ungrouped_lit ungrouped_some)
  obtain u where u: "rxm (rx_alts (map rx_lit names)) a u" "b = (behind u, ahead u, (caps u)(1 \<mapsto> consumed a u))"
    using b(1) by (rule rxm_groupE)
  obtain l where l: "l \<in> set names" "ahead a = l @ ahead u" using rxm_alts_lit [OF u(1)] by blast
  then have "consumed a u = l" by (simp add: consumed_def)
  then show ?thesis using t(2) c u(2) l(1) by (simp add: mgroup_def)
qed

lemma walk_within:
  assumes "set_order ord" "\<And>x. set (succs es x) \<subseteq> K" "set seen \<union> set stack \<subseteq> K"
  shows "set (walk ord es seen stack) \<subseteq> K"
proof -
  have "(edge_rel es)\<^sup>* `` set stack \<subseteq> K"
  proof
    fix y assume "y \<in> (edge_rel es)\<^sup>* `` set stack"
    then obtain x where x: "x \<in> set stack" and xy: "(x, y) \<in> (edge_rel es)\<^sup>*" by auto
    from xy show "y \<in> K"
    proof (induction rule: rtrancl_induct)
      case base
      then show ?case using x assms(3) by auto
    next
      case (step y z)
      then show ?case using assms(2) [of y] by (auto simp: edge_rel_def)
    qed
  qed
  moreover have "set seen \<subseteq> K" using assms(3) by simp
  ultimately show ?thesis using walk_reached [OF assms(1), of es seen stack] by (meson Un_least subset_trans)
qed

lemma defines_fold: "m \<in> fst ` set (fold (\<lambda>m. dict_set m f) ms d) \<longleftrightarrow> m \<in> set ms \<or> m \<in> fst ` set d"
  by (induction ms arbitrary: d) (auto simp: dict_set_keys)

lemma defines_file:
  "map_of (fold (\<lambda>(f, src). fold (\<lambda>m. dict_set m f) (defined_modules src)) texts d) m = Some g \<Longrightarrow>
    map_of d m = Some g \<or> g \<in> fst ` set texts"
proof (induction texts arbitrary: d)
  case (Cons x texts)
  have f: "map_of (fold (\<lambda>m. dict_set m f) ms d) m = Some g \<Longrightarrow> map_of d m = Some g \<or> g = f" for f ms d
  proof (induction ms arbitrary: d)
    case (Cons a ms)
    then show ?case by (fastforce split: if_splits)
  qed simp
  show ?case using Cons.IH Cons.prems f by (cases x) fastforce
qed simp

lemma dep_defs_file: "map_of (dep_defs read_file script) m = Some f \<Longrightarrow> f \<in> set (script_files script)"
  unfolding dep_defs_def defines_of_def by (drule defines_file) (auto simp: image_image)

lemma use_edges_within: "set (succs (use_edges texts defs) x) \<subseteq> fst ` set defs"
proof -
  have "set ys \<subseteq> fst ` set defs" if "map_of (use_edges texts defs) x = Some ys" for ys
  proof
    fix u assume "u \<in> set ys"
    moreover have "(x, ys) \<in> set (use_edges texts defs)" by (rule map_of_SomeD [OF that])
    ultimately obtain m f where "u \<in> set (uses (by_length (map fst defs)) m (dict_get [] f texts))"
      unfolding use_edges_def by auto
    then have "u \<in> set (by_length (map fst defs))" by (rule uses_defined)
    then show "u \<in> fst ` set defs" by (simp add: by_length_def)
  qed
  then show ?thesis unfolding succs_def dict_get_def by (cases "map_of (use_edges texts defs) x") simp_all
qed

section \<open>The closure\<close>

text \<open>C40: for a module of the list the script prints exactly the files that define a module reachable from it through
  uses, in the order of the list, the file of the module itself among them, whatever the order of
  sets; every module it reaches has a file.\<close>

theorem rtl_deps_closure:
  assumes "set_order ord" "map_of (dep_defs read_file script) root = Some file"
  shows "rtl_deps ord read_file script root =
      Inr (filter (\<lambda>f. \<exists>m. (root, m) \<in> (edge_rel (use_edges (dep_texts read_file script) (dep_defs read_file script)))\<^sup>* \<and>
          map_of (dep_defs read_file script) m = Some f) (script_files script)) \<and>
    file \<in> set (script_files script) \<and>
    (edge_rel (use_edges (dep_texts read_file script) (dep_defs read_file script)))\<^sup>* `` {root} \<subseteq> dom (map_of (dep_defs read_file script))"
proof -
  let ?defs = "dep_defs read_file script"
  let ?es = "use_edges (dep_texts read_file script) ?defs"
  let ?seen = "walk ord ?es [] [root]"
  have r: "root \<in> fst ` set ?defs" using assms(2) by (metis domI dom_map_of_conv_image_fst)
  have c: "set ?seen = (edge_rel ?es)\<^sup>* `` {root}" by (rule walk_is_closure [OF assms(1)])
  have d: "set ?seen \<subseteq> dom (map_of ?defs)"
    unfolding dom_map_of_conv_image_fst by (rule walk_within [OF assms(1) use_edges_within]) (simp add: r)
  have "f \<in> set (map (\<lambda>m. dict_get [] m ?defs) ?seen) \<longleftrightarrow> (\<exists>m. (root, m) \<in> (edge_rel ?es)\<^sup>* \<and> map_of ?defs m = Some f)" for f
  proof
    assume "f \<in> set (map (\<lambda>m. dict_get [] m ?defs) ?seen)"
    then obtain m where "m \<in> set ?seen" "f = dict_get [] m ?defs" by auto
    then show "\<exists>m. (root, m) \<in> (edge_rel ?es)\<^sup>* \<and> map_of ?defs m = Some f" using c d by (force simp: dict_get_def dom_def)
  next
    assume "\<exists>m. (root, m) \<in> (edge_rel ?es)\<^sup>* \<and> map_of ?defs m = Some f"
    then show "f \<in> set (map (\<lambda>m. dict_get [] m ?defs) ?seen)" using c by (force simp: dict_get_def)
  qed
  then have "rtl_deps ord read_file script root =
      Inr (filter (\<lambda>f. \<exists>m. (root, m) \<in> (edge_rel ?es)\<^sup>* \<and> map_of ?defs m = Some f) (script_files script))"
    using r by (simp only: rtl_deps_def Let_def set_map simp_thms if_False)
  then show ?thesis using dep_defs_file [OF assms(2)] c d by simp
qed

definition dep_example :: "string \<Rightarrow> string" where
  "dep_example f = (if f = ''a.v'' then ''module a(); b #(.W(2)) u_b (x); endmodule''
     else if f = ''b.v'' then ''module b(); endmodule'' else ''module c(); a u_a (x); endmodule'')"

definition dep_script :: string where
  "dep_script = ''read_verilog c.v'' @ NL @ ''read_verilog b.v'' @ NL @ ''read_verilog a.v'' @ NL @ ''synth'' @ NL"

theorem rtl_deps_closure_witness:
  "rtl_deps rev dep_example dep_script ''a'' = Inr [''b.v'', ''a.v''] \<and>
    ''c'' \<notin> (edge_rel (use_edges (dep_texts dep_example dep_script) (dep_defs dep_example dep_script)))\<^sup>* `` {''a''}"
proof -
  have o: "set_order rev" by (simp add: set_order_def)
  have f: "map_of (dep_defs dep_example dep_script) ''a'' = Some ''a.v''" by code_simp
  have r: "rtl_deps rev dep_example dep_script ''a'' = Inr [''b.v'', ''a.v'']" by code_simp
  have c: "map_of (dep_defs dep_example dep_script) ''c'' = Some ''c.v''" "script_files dep_script = [''c.v'', ''b.v'', ''a.v'']" by code_simp+
  let ?R = "(edge_rel (use_edges (dep_texts dep_example dep_script) (dep_defs dep_example dep_script)))\<^sup>*"
  have d: "''c.v'' \<noteq> ''b.v''" "''c.v'' \<noteq> ''a.v''" by simp_all
  have "(''a'', ''c'') \<notin> ?R"
  proof
    assume "(''a'', ''c'') \<in> ?R"
    then have "''c.v'' \<in> set (filter (\<lambda>f. \<exists>m. (''a'', m) \<in> ?R \<and> map_of (dep_defs dep_example dep_script) m = Some f) (script_files dep_script))"
      using c(1) unfolding c(2) by auto
    moreover have "filter (\<lambda>f. \<exists>m. (''a'', m) \<in> ?R \<and> map_of (dep_defs dep_example dep_script) m = Some f) (script_files dep_script) = [''b.v'', ''a.v'']"
      using conjunct1 [OF rtl_deps_closure [OF o f]] unfolding r by (rule sum.inject(2) [THEN iffD1, THEN sym])
    ultimately show False using d by (simp only: list.set insert_iff empty_iff simp_thms)
  qed
  then show ?thesis using r by simp
qed

end
