(* ===== verification/SelfTest.thy ===== *)
theory SelfTest
  imports Tbin GenVectors TensorProps
begin

text \<open>
  \<open>selftest\<close> of \<^verbatim>\<open>compiler/titan_compiler.py\<close>: the two matrix multiplications on the reference simulator with
  random operands and the conversion of a few floats to \<open>FP8\<close> and back. The random source, the
  watchdog of the simulator and \<open>math.log2\<close> are arguments; the result is the number of failures.
\<close>

section \<open>Setting up the memory\<close>

text \<open>\<open>struct.pack_into\<close> of one word, \<^verbatim>\<open>"<i"\<close> or \<^verbatim>\<open>"<I"\<close>, and \<open>struct.unpack_from\<close> of a \<^verbatim>\<open>"<i"\<close>.\<close>

definition pack_into :: "bool \<Rightarrow> int list \<Rightarrow> int \<Rightarrow> int \<Rightarrow> py_error + int list" where
  "pack_into sgd mem off v =
    (if (if sgd then - (2 ^ 31) \<le> v \<and> v < 2 ^ 31 else 0 \<le> v \<and> v < 2 ^ 32) then wr32 mem off v else Inl StructError)"

definition unpack_i32 :: "int list \<Rightarrow> int \<Rightarrow> py_error + int" where
  "unpack_i32 mem off = ebind (rd32 mem off) (\<lambda>w. Inr (if w < 2 ^ 31 then w else w - 2 ^ 32))"

text \<open>The loops over \<open>enumerate\<close>: words at \<open>base + 4 * i\<close>, bytes at \<open>base + i\<close>.\<close>

definition st_words :: "bool \<Rightarrow> int \<Rightarrow> int list \<Rightarrow> int list \<Rightarrow> py_error + int list" where
  "st_words sgd base vs = efold (\<lambda>(i, v) mem. pack_into sgd mem (base + 4 * int i) v) (enumerate 0 vs)"

definition put8 :: "int list \<Rightarrow> int \<Rightarrow> int \<Rightarrow> py_error + int list" where
  "put8 mem i v = (if 0 \<le> i \<and> i < int (length mem) then Inr (mem[nat i := v]) else Inl IndexError)"

definition st_bytes :: "int \<Rightarrow> int list \<Rightarrow> int list \<Rightarrow> py_error + int list" where
  "st_bytes base vs = efold (\<lambda>(i, v) mem. put8 mem (base + int i) (v AND 0xFF)) (enumerate 0 vs)"

definition base_a :: int where "base_a = 0x1000"
definition base_b :: int where "base_b = 0x2000"
definition base_c :: int where "base_c = 0x3000"
definition base_p :: int where "base_p = 0x4000"

definition st_params :: "int \<Rightarrow> int \<Rightarrow> int \<Rightarrow> int list \<Rightarrow> py_error + int list" where
  "st_params M N K = st_words False base_p [base_a, base_b, base_c, M, N, K]"

definition blank_mem :: "int list" where
  "blank_mem = replicate (2 ^ 16) 0"

section \<open>The comparison\<close>

definition st_ref :: "int list \<Rightarrow> int list \<Rightarrow> int \<Rightarrow> int \<Rightarrow> int \<Rightarrow> int \<Rightarrow> int" where
  "st_ref A B N K i j = (\<Sum>k\<leftarrow>[0..K - 1]. A ! nat (i * K + k) * B ! nat (k * N + j))"

definition st_compare :: "int list \<Rightarrow> int list \<Rightarrow> int \<Rightarrow> int \<Rightarrow> int \<Rightarrow> int list \<Rightarrow> py_error + bool" where
  "st_compare A B M N K mem =
    efold (\<lambda>i ok. efold (\<lambda>j ok.
        ebind (unpack_i32 mem (base_c + 4 * (i * N + j))) (\<lambda>got.
        Inr (if st_ref A B N K i j \<noteq> got then False else ok)))
      [0..N - 1] ok) [0..M - 1] True"

section \<open>The three runs\<close>

definition st_scalar :: "int list \<Rightarrow> nat \<Rightarrow> int list \<Rightarrow> int list \<Rightarrow> py_error + bool" where
  "st_scalar ws max_steps A B =
    ebind (st_words True base_a A blank_mem) (\<lambda>mem.
    ebind (st_words True base_b B mem) (\<lambda>mem.
    ebind (st_params 8 8 8 mem) (\<lambda>mem.
    ebind (simulate ws mem base_p max_steps) (\<lambda>(steps, mem).
    st_compare A B 8 8 8 mem))))"

definition st_tensor :: "int list \<Rightarrow> nat \<Rightarrow> int list \<Rightarrow> int list \<Rightarrow> py_error + bool" where
  "st_tensor ws max_steps A B =
    ebind (st_bytes base_a A blank_mem) (\<lambda>mem.
    ebind (st_bytes base_b B mem) (\<lambda>mem.
    ebind (st_params 32 32 32 mem) (\<lambda>mem.
    ebind (simulate ws mem base_p max_steps) (\<lambda>(steps, mem).
    st_compare A B 32 32 32 mem))))"

text \<open>A decimal literal is the nearest float, as the quotient of two integers is.\<close>

definition py_max :: "int \<Rightarrow> int \<Rightarrow> int" where
  "py_max a b = (if py_flt a b then b else a)"

definition st_floats :: "int list" where
  "st_floats = [py_float 0 0, py_float 1 0, py_float (- 3) (- 1), py_float 1 (- 4), py_float 448 0, py_float 13 (- 2)]"

definition st_fp8 :: "(int \<Rightarrow> int) \<Rightarrow> int \<Rightarrow> py_error + int" where
  "st_fp8 floor_log2 = efold (\<lambda>v failures.
      ebind (float_to_fp8 floor_log2 v) (\<lambda>b. let rt = fp8_to_float b in
      Inr (if py_flt (py_max (py_fmul (py_abs v) (py_truediv 626 10000)) (py_truediv 1 1000)) (py_abs (py_fsub rt v))
           then failures + 1 else failures))) st_floats"

section \<open>The test\<close>

definition glift_sum :: "py_error + 'a \<Rightarrow> ('g, 'a) gen" where
  "glift_sum r = (\<lambda>g. (r, g))"

definition st_draws :: "'g rng \<Rightarrow> nat \<Rightarrow> int \<Rightarrow> ('g, int list) gen" where
  "st_draws r n bnd = gtimes n (gbind (randrange r (- bnd) bnd 1) (\<lambda>x. gret [x]))"

definition st_encoding :: "py_error + unit" where
  "st_encoding =
    ebind (enc_i (OPS I_LOAD) 5 1 8 0) (\<lambda>w.
    if drop_bit 27 w = OPS I_LOAD \<and> drop_bit 21 w AND 63 = 5 \<and> w AND 1 = 1 then Inr () else Inl AssertionError)"

definition selftest :: "(int \<Rightarrow> int) \<Rightarrow> 'g rng \<Rightarrow> nat \<Rightarrow> ('g, int) gen" where
  "selftest floor_log2 r max_steps =
    gbind (glift_sum st_encoding) (\<lambda>_.
    gbind (glift_sum (parse_kernel [FunctionDef matmul_kernel] None)) (\<lambda>fn.
    gbind (glift_sum (compile fn)) (\<lambda>ws.
    gbind (st_draws r 64 50) (\<lambda>A. gbind (st_draws r 64 50) (\<lambda>B.
    gbind (glift_sum (st_scalar ws max_steps A B)) (\<lambda>ok.
    let failures = (if ok then 0 else 1) in
    gbind (glift_sum (compile_tensor fn ''int8'')) (\<lambda>ws.
    gbind (st_draws r 1024 8) (\<lambda>A. gbind (st_draws r 1024 8) (\<lambda>B.
    gbind (glift_sum (st_tensor ws max_steps A B)) (\<lambda>ok.
    let failures = failures + (if ok then 0 else 1) in
    glift_sum (st_fp8 floor_log2 failures)))))))))))"

end
