(* ===== verification/MatmulRun.thy ===== *)
theory MatmulRun
  imports TensorProps CodegenCorrect
begin

text \<open>
  The matrix multiplication kernel of the self-test under the scalar backend: an invariant rule for
  the loops of the kernel semantics, and with it the meaning of the kernel as a matrix product
  of 32-bit cells.
\<close>

section \<open>Counting loops\<close>

lemma sint_index: "0 \<le> i \<Longrightarrow> i \<le> sint (w :: 32 word) \<Longrightarrow> sint (word_of_int i :: 32 word) = i"
  using sint_range32 [of w] by (intro sint_word_of_int32) auto

lemma krestrict_known [simp]: "env0 x = Some v \<Longrightarrow> krestrict env0 env x = env x"
  by (simp add: krestrict_def)

lemma kloop_range:
  fixes bnd :: "32 word"
  assumes body: "\<And>n i env mem. m \<le> n \<Longrightarrow> 0 \<le> i \<Longrightarrow> i < sint bnd \<Longrightarrow> I i env mem \<Longrightarrow> env x = Some (word_of_int i) \<Longrightarrow>
      \<exists>env1 mem1. kstmts n body (krestrict env0 env) mem = Some (KNormal env1 mem1) \<and>
        env1 x = Some (word_of_int i) \<and> I (i + 1) (env1(x \<mapsto> word_of_int (i + 1))) mem1"
    and start: "I 0 env mem" "env x = Some 0" "0 \<le> sint bnd" "m + nat (sint bnd) \<le> n"
  shows "\<exists>env1 mem1. kloop n x bnd 1 body env0 env mem = Some (KNormal env1 mem1) \<and> I (sint bnd) env1 mem1"
proof -
  have "\<exists>env1 mem1. kloop n x bnd 1 body env0 env mem = Some (KNormal env1 mem1) \<and> I (sint bnd) env1 mem1"
    if "0 \<le> i" "i \<le> sint bnd" "m + nat (sint bnd - i) \<le> n" "I i env mem" "env x = Some (word_of_int i)" for i n env mem
    using that
  proof (induction "nat (sint bnd - i)" arbitrary: i n env mem)
    case 0
    then have "i = sint bnd" by simp
    then show ?case using "0.prems" by (subst kloop.simps) simp
  next
    case (Suc d)
    then have lt: "i < sint bnd" by simp
    obtain n' where n': "n = Suc n'" using Suc.prems(3) lt by (cases n) auto
    have "m \<le> n'" using Suc.prems(3) lt n' by linarith
    from body [OF this Suc.prems(1) lt Suc.prems(4,5)] obtain env1 mem1 where
      b: "kstmts n' body (krestrict env0 env) mem = Some (KNormal env1 mem1)" "env1 x = Some (word_of_int i)"
      "I (i + 1) (env1(x \<mapsto> word_of_int (i + 1))) mem1" by blast
    have "\<exists>env2 mem2. kloop n' x bnd 1 body env0 (env1(x \<mapsto> word_of_int (i + 1))) mem1 = Some (KNormal env2 mem2) \<and>
        I (sint bnd) env2 mem2"
    proof (rule Suc.hyps(1))
      show "d = nat (sint bnd - (i + 1))" "0 \<le> i + 1" "i + 1 \<le> sint bnd" "m + nat (sint bnd - (i + 1)) \<le> n'"
        using Suc.hyps(2) Suc.prems(1,3) lt n' by linarith+
    qed (use b(3) in simp_all)
    moreover have "sint (word_of_int i :: 32 word) = i" using Suc.prems(1,2) by (rule sint_index)
    ultimately show ?case using lt b(1,2) Suc.prems(5) n' by (subst kloop.simps) simp
  qed
  from this [of 0 n env mem] start show ?thesis by simp
qed

section \<open>Arrays of words\<close>

definition mem_at :: "int list \<Rightarrow> int \<Rightarrow> int" where
  "mem_at mem x = (case rd32 mem x of Inr w \<Rightarrow> w | Inl _ \<Rightarrow> 0)"

definition word_layout :: "int \<Rightarrow> int \<Rightarrow> int \<Rightarrow> int \<Rightarrow> int \<Rightarrow> int \<Rightarrow> int list \<Rightarrow> bool" where
  "word_layout a b c M N K mem \<longleftrightarrow>
     byte_mem mem \<and> int (length mem) \<le> 2 ^ 32 \<and>
     0 \<le> a \<and> 0 \<le> b \<and> 0 \<le> c \<and> 0 \<le> M \<and> 0 \<le> N \<and> 0 \<le> K \<and>
     a + 4 * (M * K) \<le> int (length mem) \<and> b + 4 * (K * N) \<le> int (length mem) \<and> c + 4 * (M * N) \<le> int (length mem) \<and>
     (a + 4 * (M * K) \<le> c \<or> c + 4 * (M * N) \<le> a) \<and> (b + 4 * (K * N) \<le> c \<or> c + 4 * (M * N) \<le> b)"

definition word_dot :: "int list \<Rightarrow> int \<Rightarrow> int \<Rightarrow> int \<Rightarrow> int \<Rightarrow> int \<Rightarrow> int \<Rightarrow> int \<Rightarrow> int" where
  "word_dot mem a b N K i j n =
     (\<Sum>k \<in> {0..<n}. mem_at mem (a + 4 * (i * K + k)) * mem_at mem (b + 4 * (k * N + j)))"

lemma word_dot_step: "0 \<le> n \<Longrightarrow> word_dot mem a b N K i j (n + 1) =
    word_dot mem a b N K i j n + mem_at mem (a + 4 * (i * K + n)) * mem_at mem (b + 4 * (n * N + j))"
proof -
  assume "0 \<le> n"
  then have "{0..<n + 1} = insert n {0..<n}" by auto
  then show ?thesis by (simp add: word_dot_def)
qed

lemma kaddr_index:
  fixes B K :: "32 word"
  assumes "0 \<le> i * sint K + k" "4 * (i * sint K + k) < 2 ^ 32"
  shows "kaddr B (word_of_int i * K + word_of_int k) = uint B + 4 * (i * sint K + k)"
proof -
  have "push_bit 2 (word_of_int i * K + word_of_int k) = 0 + word_of_int 4 * (word_of_int i * K + word_of_int k)"
    by (simp add: push_bit_eq_mult)
  then show ?thesis using word_addr [of 0 4 i K k] assms by (simp only: kaddr_def) simp
qed

lemma kaddr_inside:
  fixes B K :: "32 word"
  assumes "0 \<le> i * sint K + k" "i * sint K + k < n" "uint B + 4 * n \<le> l" "l \<le> 2 ^ 32"
  shows "kaddr B (word_of_int i * K + word_of_int k) = uint B + 4 * (i * sint K + k)"
proof -
  define x u where "x = i * sint K + k" and "u = uint B"
  have "0 \<le> u" by (simp add: u_def)
  then have "4 * x < 2 ^ 32" using assms unfolding x_def [symmetric] u_def [symmetric] by simp
  then show ?thesis using assms(1) unfolding x_def by (rule kaddr_index [rotated])
qed

lemma rd32_mem_at: "ok32 m x \<Longrightarrow> rd32 m x = Inr (mem_at m x)"
  using mem32.rd_total [of m x] by (auto simp: mem_at_def)

lemma cell_inv_cell:
  assumes inv: "cell_inv c M N mem m g" and ij: "0 \<le> i" "i < M" "0 \<le> j" "j < N"
  shows "rd32 m (c + 4 * (i * N + j)) = Inr (g (i, j) mod 2 ^ 32)"
proof -
  have cells: "mem32.cells ({0..<M} \<times> {0..<N}) (\<lambda>(i, j). c + 4 * (i * N + j)) m g" using inv by (simp add: cell_inv_def)
  have p: "(i, j) \<in> {0..<M} \<times> {0..<N}" using ij by auto
  have "ok32 m (c + 4 * (i * N + j)) \<and> (\<exists>w. rd32 m (c + 4 * (i * N + j)) = Inr w \<and> w mod 2 ^ 32 = g (i, j) mod 2 ^ 32)"
    using bspec [OF conjunct1 [OF cells [unfolded mem32.cells_def]] p] by simp
  then show ?thesis using rd32_range by (auto simp: ok32_def)
qed

lemma cell_inv_write:
  assumes inv: "cell_inv c M N mem m g" and ij: "0 \<le> i" "i < M" "0 \<le> j" "j < N" and v: "v mod 2 ^ 32 = u mod 2 ^ 32"
  shows "\<exists>m'. wr32 m (c + 4 * (i * N + j)) v = Inr m' \<and> cell_inv c M N mem m' (g((i, j) := u))"
proof -
  let ?x = "c + 4 * (i * N + j)"
  have cells: "mem32.cells ({0..<M} \<times> {0..<N}) (\<lambda>(i, j). c + 4 * (i * N + j)) m g" and len: "length m = length mem"
    and same: "\<And>x. 0 \<le> x \<Longrightarrow> x < int (length mem) \<Longrightarrow> x < c \<or> c + 4 * (M * N) \<le> x \<Longrightarrow> m ! nat x = mem ! nat x"
    using inv by (auto simp: cell_inv_def)
  have p: "(i, j) \<in> {0..<M} \<times> {0..<N}" using ij by auto
  then have ok: "ok32 m ?x" using cells unfolding mem32.cells_def by force
  obtain m' where m': "wr32 m ?x v = Inr m'" using mem32.wr_total [OF ok] by blast
  have e: "m' = put32 (nat ?x) (v AND 0xFFFFFFFF) m" using m' wr32_ok32 [OF ok] by simp
  have "mem32.cells ({0..<M} \<times> {0..<N}) (\<lambda>(i, j). c + 4 * (i * N + j)) m' (g((i, j) := u))"
    by (rule mem32.cells_update [OF cells p _ v]) (use m' in simp)
  moreover have "m' ! nat x = mem ! nat x" if "0 \<le> x" "x < int (length mem)" "x < c \<or> c + 4 * (M * N) \<le> x" for x
  proof -
    have "nat x < nat ?x \<or> nat ?x + 3 < nat x" using that ok index_bound [OF ij] by (auto simp: ok32_def)
    then show ?thesis using same [OF that] by (simp add: e put32_other)
  qed
  ultimately show ?thesis using m' len by (auto simp: cell_inv_def e)
qed

lemma cell_inv_read:
  assumes "cell_inv c M N mem m g" "ok32 mem x" "x + 4 \<le> c \<or> c + 4 * (M * N) \<le> x" "0 \<le> M * N"
  shows "rd32 m x = rd32 mem x"
proof -
  have len: "length m = length mem"
    and same: "\<And>x. 0 \<le> x \<Longrightarrow> x < int (length mem) \<Longrightarrow> x < c \<or> c + 4 * (M * N) \<le> x \<Longrightarrow> m ! nat x = mem ! nat x"
    using assms(1) by (auto simp: cell_inv_def)
  have "m ! (nat x + d) = mem ! (nat x + d)" if "d \<le> 3" for d
  proof -
    have "nat (x + int d) = nat x + d" using assms(2) by (simp add: ok32_def nat_add_distrib)
    then show ?thesis using same [of "x + int d"] assms(2,3) that by (auto simp: ok32_def)
  qed
  from this [of 0] this [of 1] this [of 2] this [of 3] show ?thesis
    using assms(2) len by (simp add: rd32_def buf_off_def ok32_def)
qed

lemma cell_inv_cong:
  assumes "cell_inv c M N mem m g" "\<And>i j. 0 \<le> i \<Longrightarrow> i < M \<Longrightarrow> 0 \<le> j \<Longrightarrow> j < N \<Longrightarrow> g (i, j) mod 2 ^ 32 = g' (i, j) mod 2 ^ 32"
  shows "cell_inv c M N mem m g'"
  using assms unfolding cell_inv_def mem32.cells_def by force

lemma word_layout_cell:
  assumes "word_layout a b c M N K mem" "0 \<le> i" "i < M" "0 \<le> j" "j < N"
  shows "ok32 mem (c + 4 * (i * N + j))"
  using assms index_bound [OF assms(2-5)] by (auto simp: word_layout_def ok32_def)

section \<open>The kernel\<close>

definition mm_binds :: "env \<Rightarrow> 32 word \<Rightarrow> 32 word \<Rightarrow> 32 word \<Rightarrow> 32 word \<Rightarrow> 32 word \<Rightarrow> 32 word \<Rightarrow> bool" where
  "mm_binds env A B C M N K \<longleftrightarrow> env ''A'' = Some A \<and> env ''B'' = Some B \<and> env ''C'' = Some C \<and>
     env ''M'' = Some M \<and> env ''N'' = Some N \<and> env ''K'' = Some K"

definition mm_acc :: stmt where
  "mm_acc = Assign [Name ''acc''] (BinOp (Name ''acc'') Add
     (BinOp (Subscript (Name ''A'') (BinOp (BinOp (Name ''i'') Mult (Name ''K'')) Add (Name ''k''))) Mult
            (Subscript (Name ''B'') (BinOp (BinOp (Name ''k'') Mult (Name ''N'')) Add (Name ''j'')))))"

definition mm_row :: "stmt list" where
  "mm_row = [Assign [Name ''acc''] (Constant (CInt 0)),
     For (Name ''k'') (Call (Name ''range'') [Name ''K''] []) [mm_acc] [],
     Assign [Subscript (Name ''C'') (BinOp (BinOp (Name ''i'') Mult (Name ''N'')) Add (Name ''j''))] (Name ''acc'')]"

lemma matmul_kernel_body: "fbody matmul_kernel =
    [ExprStmt (Constant (COther ''C[MxN] = A[MxK] @ B[KxN] (row-major, int32)'' False)),
     For (Name ''i'') (Call (Name ''range'') [Name ''M''] [])
       [For (Name ''j'') (Call (Name ''range'') [Name ''N''] []) mm_row []] []]"
  by (simp add: matmul_kernel_def mm_row_def mm_acc_def)

lemma kstmts_simps:
  "kstmts n [] env mem = Some (KNormal env mem)"
  "kstmts n (c # cs) env mem = (case kstmt n c env mem of Some (KNormal env mem) \<Rightarrow> kstmts n cs env mem | r \<Rightarrow> r)"
  "kstmt n (Assign targets v) env mem = kassign targets v env mem"
  "kstmt n (ExprStmt (Constant k)) env mem = Some (KNormal env mem)"
  by (simp_all add: kstmts.simps [of n "[]"] kstmts.simps [of n "c # cs"] kstmt.simps)

lemma kstmt_range:
  assumes "env s = Some bnd" "s \<noteq> x"
  shows "kstmt n (For (Name x) (Call (Name ''range'') [Name s] []) body []) env mem =
    kloop n x bnd 1 body (env(x \<mapsto> 0)) (env(x \<mapsto> 0)) mem"
  using assms by (simp add: kstmt.simps for_head_def range_args_def Let_def)

text \<open>One multiplication and addition.\<close>

lemma mm_acc_step:
  assumes lay: "word_layout (uint A) (uint B) (uint C) (sint M) (sint N) (sint K) mem0"
    and inv: "cell_inv (uint C) (sint M) (sint N) mem0 mem g"
    and ij: "0 \<le> i" "i < sint M" "0 \<le> j" "j < sint N" "0 \<le> k" "k < sint K"
    and e: "mm_binds env A B C M N K" "env ''i'' = Some (word_of_int i)" "env ''j'' = Some (word_of_int j)"
      "env ''k'' = Some (word_of_int k)" "env ''acc'' = Some (word_of_int (word_dot mem0 (uint A) (uint B) (sint N) (sint K) i j k))"
  shows "kstmts n [mm_acc] env mem =
    Some (KNormal (env(''acc'' \<mapsto> word_of_int (word_dot mem0 (uint A) (uint B) (sint N) (sint K) i j (k + 1)))) mem)"
proof -
  note L = lay [unfolded word_layout_def]
  let ?a = "uint A + 4 * (i * sint K + k)" and ?b = "uint B + 4 * (k * sint N + j)"
  have A: "0 \<le> i * sint K + k" "i * sint K + k < sint M * sint K" using index_bound [OF ij(1,2,5,6)] by auto
  have B: "0 \<le> k * sint N + j" "k * sint N + j < sint K * sint N" using index_bound [OF ij(5,6,3,4)] by auto
  have MN: "0 \<le> sint M * sint N" using L by simp
  have oa: "ok32 mem0 ?a" and ob: "ok32 mem0 ?b" using A B L by (auto simp: ok32_def)
  have "rd32 mem ?a = Inr (mem_at mem0 ?a)" using cell_inv_read [OF inv oa _ MN] rd32_mem_at [OF oa] A L by auto
  moreover have "rd32 mem ?b = Inr (mem_at mem0 ?b)" using cell_inv_read [OF inv ob _ MN] rd32_mem_at [OF ob] B L by auto
  moreover have "kaddr A (word_of_int i * K + word_of_int k) = ?a"
    by (rule kaddr_inside [OF A]) (use L in auto)
  moreover have "kaddr B (word_of_int k * N + word_of_int j) = ?b"
    by (rule kaddr_inside [OF B]) (use L in auto)
  ultimately show ?thesis
    using e word_dot_step [OF ij(5), of mem0 "uint A" "uint B" "sint N" "sint K" i j]
    by (simp add: mm_acc_def mm_binds_def kstmts_simps kassign_def)
qed

text \<open>One cell of \<open>C\<close>: the accumulator, the loop over \<open>k\<close> and the store.\<close>

lemma mm_row_run:
  assumes lay: "word_layout (uint A) (uint B) (uint C) (sint M) (sint N) (sint K) mem0"
    and inv: "cell_inv (uint C) (sint M) (sint N) mem0 mem g"
    and ij: "0 \<le> i" "i < sint M" "0 \<le> j" "j < sint N"
    and e: "mm_binds env A B C M N K" "env ''i'' = Some (word_of_int i)" "env ''j'' = Some (word_of_int j)"
    and fuel: "nat (sint K) \<le> n"
  shows "\<exists>env' mem'. kstmts n mm_row env mem = Some (KNormal env' mem') \<and>
    mm_binds env' A B C M N K \<and> env' ''i'' = Some (word_of_int i) \<and> env' ''j'' = Some (word_of_int j) \<and>
    cell_inv (uint C) (sint M) (sint N) mem0 mem' (g((i, j) := word_dot mem0 (uint A) (uint B) (sint N) (sint K) i j (sint K)))"
proof -
  define D where "D k = word_dot mem0 (uint A) (uint B) (sint N) (sint K) i j k" for k
  define I where "I k env1 mem1 \<longleftrightarrow> mem1 = mem \<and> mm_binds env1 A B C M N K \<and> env1 ''i'' = Some (word_of_int i) \<and>
      env1 ''j'' = Some (word_of_int j) \<and> env1 ''acc'' = Some (word_of_int (D k))" for k and env1 :: env and mem1
  let ?env0 = "env(''acc'' \<mapsto> 0, ''k'' \<mapsto> 0)"
  have K0: "0 \<le> sint K" using lay by (simp add: word_layout_def)
  have "\<exists>env1 mem1. kloop n ''k'' K 1 [mm_acc] ?env0 ?env0 mem = Some (KNormal env1 mem1) \<and> I (sint K) env1 mem1"
  proof (rule kloop_range [where m = 0])
    fix n k env1 mem1 assume k: "0 \<le> k" "k < sint K" "I k env1 mem1" "env1 ''k'' = Some (word_of_int k)"
    let ?e = "krestrict ?env0 env1"
    have known: "mm_binds ?e A B C M N K" "?e ''i'' = Some (word_of_int i)" "?e ''j'' = Some (word_of_int j)"
      "?e ''k'' = Some (word_of_int k)" "?e ''acc'' = Some (word_of_int (D k))"
      using k(3,4) e by (auto simp: I_def mm_binds_def krestrict_def)
    have "kstmts n [mm_acc] ?e mem = Some (KNormal (?e(''acc'' \<mapsto> word_of_int (D (k + 1)))) mem)"
      unfolding D_def by (rule mm_acc_step [OF lay inv ij k(1,2) known(1-4) known(5) [unfolded D_def]])
    moreover have "I (k + 1) (?e(''acc'' \<mapsto> word_of_int (D (k + 1)), ''k'' \<mapsto> word_of_int (k + 1))) mem"
      using known by (simp add: I_def mm_binds_def)
    moreover have "mem1 = mem" using k(3) by (simp add: I_def)
    ultimately show "\<exists>env2 mem2. kstmts n [mm_acc] ?e mem1 = Some (KNormal env2 mem2) \<and>
        env2 ''k'' = Some (word_of_int k) \<and> I (k + 1) (env2(''k'' \<mapsto> word_of_int (k + 1))) mem2"
      using known(4) by (intro exI conjI) (assumption | simp)+
  qed (use e K0 fuel in \<open>simp_all add: I_def mm_binds_def D_def word_dot_def\<close>)
  then obtain env1 where l: "kloop n ''k'' K 1 [mm_acc] ?env0 ?env0 mem = Some (KNormal env1 mem)" "I (sint K) env1 mem"
    by (auto simp: I_def)
  have v: "uint (word_of_int (D (sint K)) :: 32 word) mod 2 ^ 32 = D (sint K) mod 2 ^ 32"
    by (simp add: uint_word_of_int take_bit_eq_mod)
  obtain mem' where w: "wr32 mem (uint C + 4 * (i * sint N + j)) (uint (word_of_int (D (sint K)) :: 32 word)) = Inr mem'"
    "cell_inv (uint C) (sint M) (sint N) mem0 mem' (g((i, j) := D (sint K)))"
    using cell_inv_write [OF inv ij v] by blast
  have "kaddr C (word_of_int i * N + word_of_int j) = uint C + 4 * (i * sint N + j)"
    by (rule kaddr_inside [of i N j "sint M * sint N" C "int (length mem0)"])
      (use index_bound [OF ij] lay in \<open>auto simp: word_layout_def\<close>)
  moreover have "env ''K'' = Some K" using e by (simp add: mm_binds_def)
  ultimately have "kstmts n mm_row env mem = Some (KNormal env1 mem')"
    using l w(1) by (simp add: mm_row_def kstmts_simps kstmt_range kassign_def I_def mm_binds_def)
  then show ?thesis using l(2) w(2) by (auto simp: I_def D_def)
qed

text \<open>The cells that are final when the loops are at \<open>(i, j)\<close>.\<close>

definition mm_done :: "(int \<Rightarrow> int \<Rightarrow> int) \<Rightarrow> (int \<times> int \<Rightarrow> int) \<Rightarrow> int \<Rightarrow> int \<Rightarrow> int \<times> int \<Rightarrow> int" where
  "mm_done D g i j = (\<lambda>(i', j'). if i' < i \<or> i' = i \<and> j' < j then D i' j' else g (i', j'))"

lemma mm_done_next: "(mm_done D g i j)((i, j) := D i j) = mm_done D g i (j + 1)"
  by (auto simp: mm_done_def fun_eq_iff)

lemma mm_cols_run:
  fixes A B C M N K :: "32 word"
  assumes lay: "word_layout (uint A) (uint B) (uint C) (sint M) (sint N) (sint K) mem0"
  defines "D i j \<equiv> word_dot mem0 (uint A) (uint B) (sint N) (sint K) i j (sint K)"
  assumes inv: "cell_inv (uint C) (sint M) (sint N) mem0 mem (mm_done D g i 0)"
    and i: "0 \<le> i" "i < sint M" and e: "mm_binds env A B C M N K" "env ''i'' = Some (word_of_int i)"
    and fuel: "nat (sint K) + nat (sint N) \<le> n"
  shows "\<exists>env' mem'. kstmts n [For (Name ''j'') (Call (Name ''range'') [Name ''N''] []) mm_row []] env mem = Some (KNormal env' mem') \<and>
    mm_binds env' A B C M N K \<and> env' ''i'' = Some (word_of_int i) \<and>
    cell_inv (uint C) (sint M) (sint N) mem0 mem' (mm_done D g (i + 1) 0)"
proof -
  define I where "I j env1 mem1 \<longleftrightarrow> mm_binds env1 A B C M N K \<and> env1 ''i'' = Some (word_of_int i) \<and>
      cell_inv (uint C) (sint M) (sint N) mem0 mem1 (mm_done D g i j)" for j and env1 :: env and mem1
  let ?env0 = "env(''j'' \<mapsto> 0)"
  have "\<exists>env1 mem1. kloop n ''j'' N 1 mm_row ?env0 ?env0 mem = Some (KNormal env1 mem1) \<and> I (sint N) env1 mem1"
  proof (rule kloop_range [where m = "nat (sint K)"])
    fix n j env1 mem1 assume f: "nat (sint K) \<le> n" and j: "0 \<le> j" "j < sint N"
      and k: "I j env1 mem1" "env1 ''j'' = Some (word_of_int j)"
    let ?e = "krestrict ?env0 env1"
    have "mm_binds ?e A B C M N K" "?e ''i'' = Some (word_of_int i)" "?e ''j'' = Some (word_of_int j)"
      using k e by (auto simp: I_def mm_binds_def krestrict_def)
    from mm_row_run [OF lay _ i j this f, of mem1 "mm_done D g i j"] k(1)
    obtain env2 mem2 where r: "kstmts n mm_row ?e mem1 = Some (KNormal env2 mem2)" "mm_binds env2 A B C M N K"
      "env2 ''i'' = Some (word_of_int i)" "env2 ''j'' = Some (word_of_int j)"
      "cell_inv (uint C) (sint M) (sint N) mem0 mem2 (mm_done D g i (j + 1))"
      unfolding I_def D_def [symmetric] mm_done_next by blast
    have "I (j + 1) (env2(''j'' \<mapsto> word_of_int (j + 1))) mem2" using r by (simp add: I_def mm_binds_def)
    then show "\<exists>env2 mem2. kstmts n mm_row ?e mem1 = Some (KNormal env2 mem2) \<and>
        env2 ''j'' = Some (word_of_int j) \<and> I (j + 1) (env2(''j'' \<mapsto> word_of_int (j + 1))) mem2"
      using r by blast
  next
    show "I 0 ?env0 mem" using inv e by (simp add: I_def mm_binds_def)
  qed (use lay fuel in \<open>simp_all add: word_layout_def\<close>)
  then obtain env1 mem1 where l: "kloop n ''j'' N 1 mm_row ?env0 ?env0 mem = Some (KNormal env1 mem1)" "I (sint N) env1 mem1"
    by blast
  have "env ''N'' = Some N" using e by (simp add: mm_binds_def)
  then have "kstmts n [For (Name ''j'') (Call (Name ''range'') [Name ''N''] []) mm_row []] env mem = Some (KNormal env1 mem1)"
    using l(1) by (simp add: kstmts_simps kstmt_range)
  moreover have "cell_inv (uint C) (sint M) (sint N) mem0 mem1 (mm_done D g (i + 1) 0)"
    using l(2) unfolding I_def by (elim conjE cell_inv_cong) (auto simp: mm_done_def)
  ultimately show ?thesis using l(2) by (auto simp: I_def)
qed

lemma matmul_kernel_means:
  fixes A B C M N K :: "32 word"
  assumes lay: "word_layout (uint A) (uint B) (uint C) (sint M) (sint N) (sint K) mem"
    and p: "kparams mem addr 0 (fargs matmul_kernel) (\<lambda>_. None) = Some env" and e: "mm_binds env A B C M N K"
  defines "D i j \<equiv> word_dot mem (uint A) (uint B) (sint N) (sint K) i j (sint K)"
  shows "\<exists>n mem'. krun n matmul_kernel mem addr = Some mem' \<and>
    cell_inv (uint C) (sint M) (sint N) mem mem' (\<lambda>(i, j). D i j)"
proof -
  define g0 where "g0 = (\<lambda>(i, j). mem_at mem (uint C + 4 * (i * sint N + j)))"
  define I where "I i env1 mem1 \<longleftrightarrow> mm_binds env1 A B C M N K \<and>
      cell_inv (uint C) (sint M) (sint N) mem mem1 (mm_done D g0 i 0)" for i and env1 :: env and mem1
  let ?env0 = "env(''i'' \<mapsto> 0)" and ?body = "[For (Name ''j'') (Call (Name ''range'') [Name ''N''] []) mm_row []]"
  let ?n = "nat (sint K) + nat (sint N) + nat (sint M)"
  have "cell_inv (uint C) (sint M) (sint N) mem mem g0"
    unfolding g0_def mem_at_def
    by (rule cell_inv_init [OF _ word_layout_cell [OF lay]]) (use lay in \<open>simp_all add: word_layout_def\<close>)
  then have "cell_inv (uint C) (sint M) (sint N) mem mem (mm_done D g0 0 0)"
    by (rule cell_inv_cong) (simp add: mm_done_def)
  then have start: "I 0 ?env0 mem" using e by (simp add: I_def mm_binds_def)
  have "\<exists>env1 mem1. kloop ?n ''i'' M 1 ?body ?env0 ?env0 mem = Some (KNormal env1 mem1) \<and> I (sint M) env1 mem1"
  proof (rule kloop_range [where m = "nat (sint K) + nat (sint N)"])
    fix n i env1 mem1 assume f: "nat (sint K) + nat (sint N) \<le> n" and i: "0 \<le> i" "i < sint M"
      and k: "I i env1 mem1" "env1 ''i'' = Some (word_of_int i)"
    let ?e = "krestrict ?env0 env1"
    have "mm_binds ?e A B C M N K" "?e ''i'' = Some (word_of_int i)"
      using k e by (auto simp: I_def mm_binds_def krestrict_def)
    from mm_cols_run [OF lay _ i this f, of mem1 g0] k(1)
    obtain env2 mem2 where r: "kstmts n ?body ?e mem1 = Some (KNormal env2 mem2)" "mm_binds env2 A B C M N K"
      "env2 ''i'' = Some (word_of_int i)" "cell_inv (uint C) (sint M) (sint N) mem mem2 (mm_done D g0 (i + 1) 0)"
      unfolding I_def D_def by blast
    have "I (i + 1) (env2(''i'' \<mapsto> word_of_int (i + 1))) mem2" using r by (simp add: I_def mm_binds_def)
    then show "\<exists>env2 mem2. kstmts n ?body ?e mem1 = Some (KNormal env2 mem2) \<and>
        env2 ''i'' = Some (word_of_int i) \<and> I (i + 1) (env2(''i'' \<mapsto> word_of_int (i + 1))) mem2"
      using r by blast
  next
    show "I 0 ?env0 mem" by (rule start)
  qed (use lay in \<open>simp_all add: word_layout_def\<close>)
  then obtain env1 mem1 where l: "kloop ?n ''i'' M 1 ?body ?env0 ?env0 mem = Some (KNormal env1 mem1)" "I (sint M) env1 mem1"
    by blast
  have "env ''M'' = Some M" using e by (simp add: mm_binds_def)
  then have "krun ?n matmul_kernel mem addr = Some mem1"
    using l(1) p by (simp add: krun_def matmul_kernel_body kstmts_simps kstmt_range)
  moreover have "cell_inv (uint C) (sint M) (sint N) mem mem1 (\<lambda>(i, j). D i j)"
    using l(2) unfolding I_def by (elim conjE cell_inv_cong) (simp add: mm_done_def)
  ultimately show ?thesis by blast
qed

end
