(* ===== verification/SelfTestProps.thy ===== *)
theory SelfTestProps
  imports SelfTest MatmulRun GenVectorsProps
begin

text \<open>
  The self-test of the compiler passes: what the stores leave in memory, the two products, and
  with \<open>gsat\<close> the whole test for every random source. This is the composition of the compiler, the
  tensor backend, the simulator and the \<open>FP8\<close> conversion.
\<close>

section \<open>The memory before a run\<close>

lemma rd32_frame:
  assumes "length m' = length m" "ok32 m x" "\<And>d. d \<le> 3 \<Longrightarrow> m' ! (nat x + d) = m ! (nat x + d)"
  shows "rd32 m' x = rd32 m x"
  using assms(3) [of 0] assms(3) [of 1] assms(3) [of 2] assms(3) [of 3] assms(1,2)
  by (simp add: rd32_def buf_off_def ok32_def)

definition stores :: "nat \<Rightarrow> int \<Rightarrow> int list \<Rightarrow> int list \<Rightarrow> int list \<Rightarrow> bool" where
  "stores sz base vs mem mem' \<longleftrightarrow> byte_mem mem' \<and> length mem' = length mem \<and>
     (\<forall>x < length mem. int x < base \<or> base + int (sz * length vs) \<le> int x \<longrightarrow> mem' ! x = mem ! x)"

lemma stores_rd32:
  assumes "stores sz base vs mem mem'" "ok32 mem x" "x + 4 \<le> base \<or> base + int (sz * length vs) \<le> x"
  shows "rd32 mem' x = rd32 mem x"
proof (rule rd32_frame)
  fix d :: nat assume "d \<le> 3"
  moreover have "0 \<le> x" "x + 4 \<le> int (length mem)" using assms(2) by (auto simp: ok32_def)
  ultimately have "nat x + d < length mem" "int (nat x + d) = x + int d" by linarith+
  then show "mem' ! (nat x + d) = mem ! (nat x + d)"
    using assms(1,3) \<open>d \<le> 3\<close> by (auto simp: stores_def)
qed (use assms in \<open>auto simp: stores_def\<close>)

lemma st_words_spec:
  assumes "byte_mem mem" "0 \<le> base" "base + 4 * int (length vs) \<le> int (length mem)"
    "\<And>v. v \<in> set vs \<Longrightarrow> if sgd then - (2 ^ 31) \<le> v \<and> v < 2 ^ 31 else 0 \<le> v \<and> v < 2 ^ 32"
  shows "\<exists>mem'. st_words sgd base vs mem = Inr mem' \<and> stores 4 base vs mem mem' \<and>
    (\<forall>i < length vs. rd32 mem' (base + 4 * int i) = Inr (vs ! i mod 2 ^ 32))"
  using assms
proof (induction vs rule: rev_induct)
  case Nil
  then show ?case by (simp add: st_words_def stores_def)
next
  case (snoc v vs)
  obtain m1 where m1: "st_words sgd base vs mem = Inr m1" "stores 4 base vs mem m1"
    "\<And>i. i < length vs \<Longrightarrow> rd32 m1 (base + 4 * int i) = Inr (vs ! i mod 2 ^ 32)"
    using snoc by (force split: if_splits)
  let ?x = "base + 4 * int (length vs)"
  have ok: "ok32 m1 (base + 4 * int i)" if "i \<le> length vs" for i
    using that m1(2) snoc.prems by (auto simp: ok32_def stores_def)
  obtain m2 where m2: "wr32 m1 ?x v = Inr m2" using mem32.wr_total [OF ok [of "length vs"]] by auto
  have p: "pack_into sgd m1 ?x v = Inr m2" using snoc.prems(4) [of v] m2 by (simp add: pack_into_def)
  have e: "m2 = put32 (nat ?x) (v AND 0xFFFFFFFF) m1" using m2 wr32_ok32 [OF ok [of "length vs"]] by simp
  have "byte_mem m2" using mem32.ok_wr [OF ok m2, of ?x] ok [of "length vs"] by (simp add: ok32_def)
  moreover have "m2 ! x = m1 ! x" if "int x < base \<or> base + int (4 * length (vs @ [v])) \<le> int x" for x
    unfolding e by (rule put32_other) (use that snoc.prems(2) in auto)
  ultimately have "stores 4 base (vs @ [v]) mem m2"
    using m1(2) by (auto simp: stores_def e)
  moreover have "rd32 m2 (base + 4 * int i) = Inr ((vs @ [v]) ! i mod 2 ^ 32)" if "i < length (vs @ [v])" for i
  proof (cases "i = length vs")
    case True
    then show ?thesis using mem32.rd_wr_same [OF ok m2] by simp
  next
    case False
    then have i: "i < length vs" using that by simp
    have "rd32 m2 (base + 4 * int i) = rd32 m1 (base + 4 * int i)"
      by (rule mem32.rd_wr_other [OF ok ok m2]) (use i in auto)
    then show ?thesis using m1(3) i by (simp add: nth_append)
  qed
  moreover have "st_words sgd base (vs @ [v]) mem = Inr m2"
    using m1(1) p by (simp add: st_words_def enumerate_append_eq efold_append)
  ultimately show ?case by blast
qed

lemma st_bytes_spec:
  assumes "byte_mem mem" "0 \<le> base" "base + int (length vs) \<le> int (length mem)"
  shows "\<exists>mem'. st_bytes base vs mem = Inr mem' \<and> stores 1 base vs mem mem' \<and>
    (\<forall>i < length vs. mem' ! (nat base + i) = vs ! i AND 0xFF)"
  using assms
proof (induction vs rule: rev_induct)
  case Nil
  then show ?case by (simp add: st_bytes_def stores_def)
next
  case (snoc v vs)
  obtain m1 where m1: "st_bytes base vs mem = Inr m1" "stores 1 base vs mem m1"
    "\<And>i. i < length vs \<Longrightarrow> m1 ! (nat base + i) = vs ! i AND 0xFF"
    using snoc by force
  let ?m2 = "m1[nat (base + int (length vs)) := v AND 0xFF]"
  have n: "nat (base + int (length vs)) = nat base + length vs" using snoc.prems(2) by (simp add: nat_add_distrib)
  have len: "length m1 = length mem" "base + int (length vs) < int (length mem)" using m1(2) snoc.prems(3) by (auto simp: stores_def)
  have b: "0 \<le> v AND 0xFF" "v AND 0xFF < 256" using take_bit_lt [of 8 v] by (simp_all add: mask_simps)
  have "byte_mem ?m2" using m1(2) b set_update_subset_insert [of m1 "nat (base + int (length vs))" "v AND 0xFF"]
    by (auto simp: byte_mem_def stores_def)
  then have "stores 1 base (vs @ [v]) mem ?m2" using m1(2) n snoc.prems(2) by (auto simp: stores_def nth_list_update)
  moreover have "?m2 ! (nat base + i) = (vs @ [v]) ! i AND 0xFF" if "i < length (vs @ [v])" for i
    using that m1(3) len n snoc.prems(2) by (auto simp: nth_list_update nth_append less_Suc_eq)
  moreover have "st_bytes base (vs @ [v]) mem = Inr ?m2"
    using m1(1) len snoc.prems(2) by (simp add: st_bytes_def enumerate_append_eq efold_append put8_def)
  ultimately show ?case by blast
qed

text \<open>The parameter block, as the kernel finds it.\<close>

lemma kparams_block:
  assumes "\<And>i. i < 6 \<Longrightarrow> rd32 mem (addr + 4 * int i) = Inr (vs ! i mod 2 ^ 32)" "length vs = 6"
  shows "\<exists>env. kparams mem addr 0 (fargs matmul_kernel) (\<lambda>_. None) = Some env \<and>
    mm_binds env (word_of_int (vs ! 0)) (word_of_int (vs ! 1)) (word_of_int (vs ! 2))
      (word_of_int (vs ! 3)) (word_of_int (vs ! 4)) (word_of_int (vs ! 5))"
proof -
  have w: "(word_of_int (x mod 2 ^ 32) :: 32 word) = word_of_int x" for x
    by (simp add: word_of_int_eq_iff take_bit_eq_mod)
  show ?thesis
    using assms(1) [of 0] assms(1) [of 1] assms(1) [of 2] assms(1) [of 3] assms(1) [of 4] assms(1) [of 5] w
    by (simp add: matmul_kernel_def mm_binds_def)
qed

section \<open>The comparison\<close>

lemma efold_same: "(\<And>x. x \<in> set xs \<Longrightarrow> f x s = Inr s) \<Longrightarrow> efold f xs s = Inr s"
  by (induction xs) simp_all

lemma st_compare_true:
  assumes "\<And>i j. 0 \<le> i \<Longrightarrow> i < M \<Longrightarrow> 0 \<le> j \<Longrightarrow> j < N \<Longrightarrow>
    unpack_i32 mem (base_c + 4 * (i * N + j)) = Inr (st_ref A B N K i j)"
  shows "st_compare A B M N K mem = Inr True"
proof -
  have "efold (\<lambda>j ok. ebind (unpack_i32 mem (base_c + 4 * (i * N + j))) (\<lambda>got.
      Inr (if st_ref A B N K i j \<noteq> got then False else ok))) [0..N - 1] True = Inr True" if "i \<in> set [0..M - 1]" for i
  proof (rule efold_same)
    fix j assume "j \<in> set [0..N - 1]"
    then have u: "unpack_i32 mem (base_c + 4 * (i * N + j)) = Inr (st_ref A B N K i j)"
      by (intro assms) (use that in auto)
    show "ebind (unpack_i32 mem (base_c + 4 * (i * N + j))) (\<lambda>got.
      Inr (if st_ref A B N K i j \<noteq> got then False else True)) = Inr True" unfolding u by simp
  qed
  then show ?thesis unfolding st_compare_def by (rule efold_same)
qed

lemma unpack_i32_eq:
  assumes "rd32 mem x = Inr (v mod 2 ^ 32)" "- (2 ^ 31) \<le> v" "v < 2 ^ 31"
  shows "unpack_i32 mem x = Inr v"
proof -
  have r: "(if v mod 2 ^ 32 < 2 ^ 31 then v mod 2 ^ 32 else v mod 2 ^ 32 - 2 ^ 32) = v"
  proof (cases "0 \<le> v")
    case False
    then have "(v + 2 ^ 32) mod 2 ^ 32 = v + 2 ^ 32" using assms(2) by (intro mod_pos_pos_trivial) auto
    then have "v mod 2 ^ 32 = v + 2 ^ 32" by simp
    then show ?thesis using False assms(2) by simp
  qed (use assms(3) in simp)
  show ?thesis unfolding unpack_i32_def assms(1) ebind_simps r ..
qed

lemma st_ref_sum: "st_ref A B N K i j = (\<Sum>k\<in>{0..<K}. A ! nat (i * K + k) * B ! nat (k * N + j))"
proof -
  have "{0..K - 1} = {0..<K}" by auto
  then show ?thesis by (simp add: st_ref_def interv_sum_list_conv_sum_set_int)
qed

lemma st_ref_range:
  assumes "\<And>k. 0 \<le> k \<Longrightarrow> k < K \<Longrightarrow> \<bar>A ! nat (i * K + k)\<bar> \<le> n \<and> \<bar>B ! nat (k * N + j)\<bar> \<le> n" "0 \<le> K" "0 \<le> n"
  shows "\<bar>st_ref A B N K i j\<bar> \<le> K * (n * n)"
proof -
  have "\<bar>st_ref A B N K i j\<bar> \<le> (\<Sum>k\<in>{0..<K}. \<bar>A ! nat (i * K + k) * B ! nat (k * N + j)\<bar>)"
    unfolding st_ref_sum by (rule sum_abs)
  also have "\<dots> \<le> (\<Sum>k\<in>{0..<K}. n * n)"
    by (rule sum_mono) (use assms(1,3) in \<open>auto simp: abs_mult intro!: mult_mono\<close>)
  finally show ?thesis using assms(2) by simp
qed

lemma word_dot_ref:
  assumes "\<And>k. 0 \<le> k \<Longrightarrow> k < K \<Longrightarrow> mem_at mem (a + 4 * (i * K + k)) = A ! nat (i * K + k) mod 2 ^ 32 \<and>
    mem_at mem (b + 4 * (k * N + j)) = B ! nat (k * N + j) mod 2 ^ 32"
  shows "word_dot mem a b N K i j K mod 2 ^ 32 = st_ref A B N K i j mod 2 ^ 32"
proof -
  have "word_dot mem a b N K i j K mod 2 ^ 32 =
      (\<Sum>k\<in>{0..<K}. (A ! nat (i * K + k) mod 2 ^ 32) * (B ! nat (k * N + j) mod 2 ^ 32)) mod 2 ^ 32"
    using assms by (simp add: word_dot_def)
  also have "\<dots> = (\<Sum>k\<in>{0..<K}. ((A ! nat (i * K + k) mod 2 ^ 32) * (B ! nat (k * N + j) mod 2 ^ 32)) mod 2 ^ 32) mod 2 ^ 32"
    by (simp only: mod_sum_eq)
  also have "\<dots> = st_ref A B N K i j mod 2 ^ 32"
    by (simp only: mod_mult_eq mod_sum_eq st_ref_sum)
  finally show ?thesis .
qed

section \<open>The scalar run\<close>

lemma blank_mem_facts: "byte_mem blank_mem" "length blank_mem = 65536" "x < 65536 \<Longrightarrow> blank_mem ! x = 0"
  by (simp_all add: byte_mem_def blank_mem_def)

lemma st_params_spec:
  assumes "byte_mem mem" "length mem = 65536" "0 \<le> n" "n < 2 ^ 32"
  shows "\<exists>mem'. st_params n n n mem = Inr mem' \<and> stores 4 base_p [base_a, base_b, base_c, n, n, n] mem mem' \<and>
    (\<exists>env. kparams mem' base_p 0 (fargs matmul_kernel) (\<lambda>_. None) = Some env \<and>
      mm_binds env (word_of_int base_a) (word_of_int base_b) (word_of_int base_c) (word_of_int n) (word_of_int n) (word_of_int n))"
proof -
  let ?vs = "[base_a, base_b, base_c, n, n, n]"
  have "\<exists>mem'. st_words False base_p ?vs mem = Inr mem' \<and> stores 4 base_p ?vs mem mem' \<and>
      (\<forall>i < length ?vs. rd32 mem' (base_p + 4 * int i) = Inr (?vs ! i mod 2 ^ 32))"
    by (rule st_words_spec) (use assms in \<open>auto simp: base_a_def base_b_def base_c_def base_p_def\<close>)
  then obtain mem' where m: "st_words False base_p ?vs mem = Inr mem'" "stores 4 base_p ?vs mem mem'"
    "\<And>i. i < 6 \<Longrightarrow> rd32 mem' (base_p + 4 * int i) = Inr (?vs ! i mod 2 ^ 32)" by auto
  from kparams_block [OF m(3)] have "\<exists>env. kparams mem' base_p 0 (fargs matmul_kernel) (\<lambda>_. None) = Some env \<and>
      mm_binds env (word_of_int base_a) (word_of_int base_b) (word_of_int base_c) (word_of_int n) (word_of_int n) (word_of_int n)"
    by simp
  then show ?thesis using m(1,2) by (auto simp: st_params_def)
qed

definition scalar_operand :: "int list \<Rightarrow> bool" where
  "scalar_operand A \<longleftrightarrow> length A = 64 \<and> (\<forall>x \<in> set A. - 50 \<le> x \<and> x < 50)"

lemma scalar_memory:
  assumes "scalar_operand A" "scalar_operand B"
  shows "\<exists>m1 m2 m3 env. st_words True base_a A blank_mem = Inr m1 \<and> st_words True base_b B m1 = Inr m2 \<and> st_params 8 8 8 m2 = Inr m3 \<and>
    byte_mem m3 \<and> length m3 = 65536 \<and>
    (\<forall>i < 64. mem_at m3 (base_a + 4 * int i) = A ! i mod 2 ^ 32 \<and> mem_at m3 (base_b + 4 * int i) = B ! i mod 2 ^ 32) \<and>
    kparams m3 base_p 0 (fargs matmul_kernel) (\<lambda>_. None) = Some env \<and>
    mm_binds env (word_of_int base_a) (word_of_int base_b) (word_of_int base_c) 8 8 8"
proof -
  note b = base_a_def base_b_def base_c_def base_p_def
  have "\<exists>m1. st_words True base_a A blank_mem = Inr m1 \<and> stores 4 base_a A blank_mem m1 \<and>
      (\<forall>i < length A. rd32 m1 (base_a + 4 * int i) = Inr (A ! i mod 2 ^ 32))"
    by (rule st_words_spec) (use assms blank_mem_facts in \<open>force simp: b scalar_operand_def\<close>)+
  then obtain m1 where m1: "st_words True base_a A blank_mem = Inr m1" "stores 4 base_a A blank_mem m1"
    "\<And>i. i < 64 \<Longrightarrow> rd32 m1 (base_a + 4 * int i) = Inr (A ! i mod 2 ^ 32)" using assms by (auto simp: scalar_operand_def)
  have l1: "byte_mem m1" "length m1 = 65536" using m1(2) blank_mem_facts by (simp_all add: stores_def)
  have "\<exists>m2. st_words True base_b B m1 = Inr m2 \<and> stores 4 base_b B m1 m2 \<and>
      (\<forall>i < length B. rd32 m2 (base_b + 4 * int i) = Inr (B ! i mod 2 ^ 32))"
    by (rule st_words_spec) (use assms l1 in \<open>force simp: b scalar_operand_def\<close>)+
  then obtain m2 where m2: "st_words True base_b B m1 = Inr m2" "stores 4 base_b B m1 m2"
    "\<And>i. i < 64 \<Longrightarrow> rd32 m2 (base_b + 4 * int i) = Inr (B ! i mod 2 ^ 32)" using assms by (auto simp: scalar_operand_def)
  have l2: "byte_mem m2" "length m2 = 65536" using m2(2) l1 by (simp_all add: stores_def)
  obtain m3 env where m3: "st_params 8 8 8 m2 = Inr m3" "stores 4 base_p [base_a, base_b, base_c, 8, 8, 8] m2 m3"
    "kparams m3 base_p 0 (fargs matmul_kernel) (\<lambda>_. None) = Some env"
    "mm_binds env (word_of_int base_a) (word_of_int base_b) (word_of_int base_c) 8 8 8"
    using st_params_spec [OF l2, of 8] by auto
  have l3: "byte_mem m3" "length m3 = 65536" using m3(2) l2 by (simp_all add: stores_def)
  have ok: "ok32 m1 (base_a + 4 * int i)" "ok32 m2 (base_a + 4 * int i)" "ok32 m2 (base_b + 4 * int i)" if "i < 64" for i
    using that l1 l2 by (simp_all add: ok32_def b)
  have "mem_at m3 (base_a + 4 * int i) = A ! i mod 2 ^ 32 \<and> mem_at m3 (base_b + 4 * int i) = B ! i mod 2 ^ 32" if i: "i < 64" for i
  proof -
    have "rd32 m2 (base_a + 4 * int i) = rd32 m1 (base_a + 4 * int i)"
      by (rule stores_rd32 [OF m2(2) ok(1) [OF i]]) (use i in \<open>simp add: b\<close>)
    moreover have "rd32 m3 (base_a + 4 * int i) = rd32 m2 (base_a + 4 * int i)"
      by (rule stores_rd32 [OF m3(2) ok(2) [OF i]]) (use i in \<open>simp add: b\<close>)
    moreover have "rd32 m3 (base_b + 4 * int i) = rd32 m2 (base_b + 4 * int i)"
      by (rule stores_rd32 [OF m3(2) ok(3) [OF i]]) (use i in \<open>simp add: b\<close>)
    ultimately show ?thesis using m1(3) [OF i] m2(3) [OF i] by (simp add: mem_at_def)
  qed
  then show ?thesis using m1(1) m2(1) m3(1,3,4) l3 by blast
qed

lemma st_scalar_passes:
  assumes ws: "compile matmul_kernel = Inr ws" and op: "scalar_operand A" "scalar_operand B"
  shows "\<exists>k. \<forall>max_steps > k. st_scalar ws max_steps A B = Inr True"
proof -
  note b = base_a_def base_b_def base_c_def base_p_def
  obtain m1 m2 m3 env where m: "st_words True base_a A blank_mem = Inr m1" "st_words True base_b B m1 = Inr m2"
      "st_params 8 8 8 m2 = Inr m3" "byte_mem m3" "length m3 = 65536"
    and cells: "\<And>i. i < 64 \<Longrightarrow> mem_at m3 (base_a + 4 * int i) = A ! i mod 2 ^ 32 \<and> mem_at m3 (base_b + 4 * int i) = B ! i mod 2 ^ 32"
    and env: "kparams m3 base_p 0 (fargs matmul_kernel) (\<lambda>_. None) = Some env"
      "mm_binds env (word_of_int base_a) (word_of_int base_b) (word_of_int base_c) 8 8 8"
    using scalar_memory [OF op] by blast
  have lay: "word_layout (uint (word_of_int base_a :: 32 word)) (uint (word_of_int base_b :: 32 word))
      (uint (word_of_int base_c :: 32 word)) (sint (8 :: 32 word)) (sint (8 :: 32 word)) (sint (8 :: 32 word)) m3"
    using m(4,5) by (simp add: word_layout_def b)
  obtain n mem' where r: "krun n matmul_kernel m3 base_p = Some mem'"
    "cell_inv base_c 8 8 m3 mem' (\<lambda>(i, j). word_dot m3 base_a base_b 8 8 i j 8)"
    using matmul_kernel_means [OF lay env] by (auto simp: b)
  have "unpack_i32 mem' (base_c + 4 * (i * 8 + j)) = Inr (st_ref A B 8 8 i j)" if ij: "0 \<le> i" "i < 8" "0 \<le> j" "j < 8" for i j
  proof -
    have idx: "nat (i * 8 + k) < 64 \<and> nat (k * 8 + j) < 64 \<and> 0 \<le> i * 8 + k \<and> 0 \<le> k * 8 + j" if "0 \<le> k" "k < 8" for k
      using that ij by (simp add: nat_less_iff)
    have w: "rd32 mem' (base_c + 4 * (i * 8 + j)) = Inr (word_dot m3 base_a base_b 8 8 i j 8 mod 2 ^ 32)"
      using cell_inv_cell [OF r(2) ij] by simp
    have "word_dot m3 base_a base_b 8 8 i j 8 mod 2 ^ 32 = st_ref A B 8 8 i j mod 2 ^ 32"
    proof (rule word_dot_ref)
      fix k :: int assume k: "0 \<le> k" "k < 8"
      show "mem_at m3 (base_a + 4 * (i * 8 + k)) = A ! nat (i * 8 + k) mod 2 ^ 32 \<and>
          mem_at m3 (base_b + 4 * (k * 8 + j)) = B ! nat (k * 8 + j) mod 2 ^ 32"
        using cells [of "nat (i * 8 + k)"] cells [of "nat (k * 8 + j)"] idx [OF k] by simp
    qed
    moreover have "\<bar>st_ref A B 8 8 i j\<bar> \<le> 8 * (50 * 50)"
    proof (rule st_ref_range)
      fix k :: int assume k: "0 \<le> k" "k < 8"
      have "A ! nat (i * 8 + k) \<in> set A" "B ! nat (k * 8 + j) \<in> set B" using idx [OF k] op by (simp_all add: scalar_operand_def)
      then show "\<bar>A ! nat (i * 8 + k)\<bar> \<le> 50 \<and> \<bar>B ! nat (k * 8 + j)\<bar> \<le> 50" using op by (force simp: scalar_operand_def)
    qed simp_all
    ultimately show ?thesis using w by (intro unpack_i32_eq) auto
  qed
  then have "st_compare A B 8 8 8 mem' = Inr True" by (rule st_compare_true)
  moreover obtain k where "\<And>max_steps. max_steps > k \<Longrightarrow> simulate ws m3 base_p max_steps = Inr (k + 1, mem')"
    using halts_simulate [OF compile_halts [OF ws r(1) m(4)]] by blast
  ultimately show ?thesis using m(1-3) by (intro exI [of _ k]) (simp add: st_scalar_def)
qed

section \<open>The tensor run\<close>

definition tensor_operand :: "int list \<Rightarrow> bool" where
  "tensor_operand A \<longleftrightarrow> length A = 1024 \<and> (\<forall>x \<in> set A. - 8 \<le> x \<and> x < 8)"

lemma sb_byte: "- 8 \<le> v \<Longrightarrow> v < 8 \<Longrightarrow> sb (v AND 0xFF) = v"
proof -
  assume v: "- 8 \<le> v" "v < 8"
  then have "v \<in> {- 8..7}" by simp
  then have "v \<in> set [- 8..7]" by (simp only: set_upto)
  moreover have "list_all (\<lambda>v. sb (v AND 0xFF) = v) [- 8..7]" by code_simp
  ultimately show ?thesis by (simp only: list_all_iff)
qed

lemma tensor_memory:
  assumes "tensor_operand A" "tensor_operand B"
  shows "\<exists>m1 m2 m3 env. st_bytes base_a A blank_mem = Inr m1 \<and> st_bytes base_b B m1 = Inr m2 \<and> st_params 32 32 32 m2 = Inr m3 \<and>
    byte_mem m3 \<and> length m3 = 65536 \<and>
    (\<forall>i < 1024. m3 ! (nat base_a + i) = A ! i AND 0xFF \<and> m3 ! (nat base_b + i) = B ! i AND 0xFF \<and>
      rd32 m3 (base_c + 4 * int i) = Inr 0) \<and>
    kparams m3 base_p 0 (fargs matmul_kernel) (\<lambda>_. None) = Some env \<and>
    mm_binds env (word_of_int base_a) (word_of_int base_b) (word_of_int base_c) 32 32 32"
proof -
  note b = base_a_def base_b_def base_c_def base_p_def
  have la: "length A = 1024" "length B = 1024" using assms by (simp_all add: tensor_operand_def)
  obtain m1 where m1: "st_bytes base_a A blank_mem = Inr m1" "stores 1 base_a A blank_mem m1"
    "\<And>i. i < 1024 \<Longrightarrow> m1 ! (nat base_a + i) = A ! i AND 0xFF"
    using st_bytes_spec [of blank_mem base_a A] blank_mem_facts la by (auto simp: b)
  have l1: "byte_mem m1" "length m1 = 65536" using m1(2) blank_mem_facts by (simp_all add: stores_def)
  obtain m2 where m2: "st_bytes base_b B m1 = Inr m2" "stores 1 base_b B m1 m2"
    "\<And>i. i < 1024 \<Longrightarrow> m2 ! (nat base_b + i) = B ! i AND 0xFF"
    using st_bytes_spec [of m1 base_b B] l1 la by (auto simp: b)
  have l2: "byte_mem m2" "length m2 = 65536" using m2(2) l1 by (simp_all add: stores_def)
  obtain m3 env where m3: "st_params 32 32 32 m2 = Inr m3" "stores 4 base_p [base_a, base_b, base_c, 32, 32, 32] m2 m3"
    "kparams m3 base_p 0 (fargs matmul_kernel) (\<lambda>_. None) = Some env"
    "mm_binds env (word_of_int base_a) (word_of_int base_b) (word_of_int base_c) 32 32 32"
    using st_params_spec [OF l2, of 32] by auto
  have l3: "byte_mem m3" "length m3 = 65536" using m3(2) l2 by (simp_all add: stores_def)
  have f1: "m1 ! x = 0" if "12288 \<le> x" "x < 16384" for x
    using m1(2) that la blank_mem_facts(2,3) by (simp add: stores_def b)
  have f2: "m2 ! x = m1 ! x" if "x < 8192 \<or> 9216 \<le> x" "x < 65536" for x
    using m2(2) that la l1(2) by (auto simp: stores_def b)
  have f3: "m3 ! x = m2 ! x" if "x < 16384" for x
    using m3(2) that l2(2) by (simp add: stores_def b)
  have "m3 ! (nat base_a + i) = A ! i AND 0xFF \<and> m3 ! (nat base_b + i) = B ! i AND 0xFF \<and>
      rd32 m3 (base_c + 4 * int i) = Inr 0" if i: "i < 1024" for i
  proof (intro conjI)
    show "m3 ! (nat base_a + i) = A ! i AND 0xFF" using m1(3) [OF i] f2 f3 i by (simp add: b)
    show "m3 ! (nat base_b + i) = B ! i AND 0xFF" using m2(3) [OF i] f3 i by (simp add: b)
    have ok: "ok32 m3 (base_c + 4 * int i)" using i l3 by (simp add: ok32_def b)
    have z: "m3 ! x = 0" if "12288 \<le> x" "x < 16384" for x using f1 f2 f3 that by simp
    have "nat (base_c + 4 * int i) = 12288 + 4 * i" by (simp add: b nat_add_distrib)
    then show "rd32 m3 (base_c + 4 * int i) = Inr 0" unfolding rd32_ok32 [OF ok] using z i by simp
  qed
  then show ?thesis using m1(1) m2(1) m3(1,3,4) l3 by blast
qed

lemma st_tensor_passes:
  assumes ws: "compile_tensor matmul_kernel ''int8'' = Inr ws" and op: "tensor_operand A" "tensor_operand B"
  shows "\<exists>k. \<forall>max_steps > k. st_tensor ws max_steps A B = Inr True"
proof -
  note b = base_a_def base_b_def base_c_def base_p_def
  obtain m1 m2 m3 env where m: "st_bytes base_a A blank_mem = Inr m1" "st_bytes base_b B m1 = Inr m2"
      "st_params 32 32 32 m2 = Inr m3" "byte_mem m3" "length m3 = 65536"
    and cells: "\<And>i. i < 1024 \<Longrightarrow> m3 ! (nat base_a + i) = A ! i AND 0xFF \<and> m3 ! (nat base_b + i) = B ! i AND 0xFF \<and>
      rd32 m3 (base_c + 4 * int i) = Inr 0"
    and env: "kparams m3 base_p 0 (fargs matmul_kernel) (\<lambda>_. None) = Some env"
      "mm_binds env (word_of_int base_a) (word_of_int base_b) (word_of_int base_c) 32 32 32"
    using tensor_memory [OF op] by blast
  have lay: "matmul_layout (uint (word_of_int base_a :: 32 word)) (uint (word_of_int base_b :: 32 word))
      (uint (word_of_int base_c :: 32 word)) (sint (32 :: 32 word)) (sint (32 :: 32 word)) (sint (32 :: 32 word)) m3"
    using m(4,5) by (simp add: matmul_layout_def b)
  have names: "map env [mmA matmul_names, mmB matmul_names, mmC matmul_names, mmM matmul_names, mmN matmul_names, mmK matmul_names] =
      map Some [word_of_int base_a, word_of_int base_b, word_of_int base_c, 32, 32, 32]"
    using env(2) by (simp add: matmul_names_def mm_binds_def)
  have di: "distinct (fargs matmul_kernel)" by (simp add: matmul_kernel_def)
  obtain mem' where h: "halts ws (sim_init m3 base_p) mem'" and acc: "accumulated base_a base_b base_c 32 32 32 m3 mem'"
    using tensor_int8_halts [OF ws _ match_matmul_kernel di env(1) names lay] by (auto simp: b)
  have "unpack_i32 mem' (base_c + 4 * (i * 32 + j)) = Inr (st_ref A B 32 32 i j)" if ij: "0 \<le> i" "i < 32" "0 \<le> j" "j < 32" for i j
  proof -
    have idx: "nat (i * 32 + k) < 1024 \<and> nat (k * 32 + j) < 1024 \<and> 0 \<le> i * 32 + k \<and> 0 \<le> k * 32 + j" if "0 \<le> k" "k < 32" for k
      using that ij by (simp add: nat_less_iff)
    have mem: "A ! nat (i * 32 + k) \<in> set A" "B ! nat (k * 32 + j) \<in> set B" if "0 \<le> k" "k < 32" for k
      using idx [OF that] op by (simp_all add: tensor_operand_def)
    have "dot_part m3 base_a base_b 32 32 i j k = A ! nat (i * 32 + k) * B ! nat (k * 32 + j)" if k: "0 \<le> k" "k < 32" for k
    proof -
      have "nat (base_a + i * 32 + k) = nat base_a + nat (i * 32 + k)" "nat (base_b + k * 32 + j) = nat base_b + nat (k * 32 + j)"
        using idx [OF k] nat_add_distrib [of base_a "i * 32 + k"] nat_add_distrib [of base_b "k * 32 + j"]
        by (simp_all add: b add.assoc)
      moreover have "sb (A ! nat (i * 32 + k) AND 0xFF) = A ! nat (i * 32 + k)" "sb (B ! nat (k * 32 + j) AND 0xFF) = B ! nat (k * 32 + j)"
        by (rule sb_byte; use mem [OF k] op in \<open>force simp: tensor_operand_def\<close>)+
      ultimately show ?thesis using cells [of "nat (i * 32 + k)"] cells [of "nat (k * 32 + j)"] idx [OF k] by (simp add: dot_part_def)
    qed
    then have sum: "(\<Sum>k\<in>{0..<32}. dot_part m3 base_a base_b 32 32 i j k) = st_ref A B 32 32 i j"
      unfolding st_ref_sum by (intro sum.cong) auto
    have "rd32 m3 (base_c + 4 * (i * 32 + j)) = Inr 0" using cells [of "nat (i * 32 + j)"] ij by (simp add: nat_less_iff)
    then have w: "rd32 mem' (base_c + 4 * (i * 32 + j)) = Inr (st_ref A B 32 32 i j mod 2 ^ 32)"
      using acc ij sum unfolding accumulated_def by force
    have "\<bar>st_ref A B 32 32 i j\<bar> \<le> 32 * (8 * 8)"
    proof (rule st_ref_range)
      fix k :: int assume k: "0 \<le> k" "k < 32"
      show "\<bar>A ! nat (i * 32 + k)\<bar> \<le> 8 \<and> \<bar>B ! nat (k * 32 + j)\<bar> \<le> 8" using mem [OF k] op by (force simp: tensor_operand_def)
    qed simp_all
    then show ?thesis by (intro unpack_i32_eq [OF w]) auto
  qed
  then have "st_compare A B 32 32 32 mem' = Inr True" by (rule st_compare_true)
  moreover obtain k where "\<And>max_steps. max_steps > k \<Longrightarrow> simulate ws m3 base_p max_steps = Inr (k + 1, mem')"
    using halts_simulate [OF h] by blast
  ultimately show ?thesis using m(1-3) by (intro exI [of _ k]) (simp add: st_tensor_def)
qed

section \<open>The whole test\<close>

text \<open>\<open>math.floor(math.log2(x))\<close> on the five floats of the test.\<close>

definition log2_ok :: "(int \<Rightarrow> int) \<Rightarrow> bool" where
  "log2_ok floor_log2 \<longleftrightarrow>
     map (\<lambda>(m, c). floor_log2 (py_float m c)) [(1, 0), (3, - 1), (1, - 4), (448, 0), (13, - 2)] = [0, 0, - 4, 8, 1]"

lemma float_to_fp8_log:
  assumes "fl (py_min (py_abs f) (py_float 448 0)) = e" "float_to_fp8 (\<lambda>_. e) f = r"
  shows "float_to_fp8 fl f = r"
proof -
  have "float_to_fp8 fl f = float_to_fp8 (\<lambda>_. e) f" unfolding float_to_fp8_def Let_def assms(1) ..
  then show ?thesis using assms(2) by simp
qed

lemma fp8_of_floats:
  assumes "log2_ok fl"
  shows "float_to_fp8 fl (py_float 0 0) = Inr 0" "float_to_fp8 fl (py_float 1 0) = Inr 56"
    "float_to_fp8 fl (py_float (- 3) (- 1)) = Inr 188" "float_to_fp8 fl (py_float 1 (- 4)) = Inr 24"
    "float_to_fp8 fl (py_float 448 0) = Inr 126" "float_to_fp8 fl (py_float 13 (- 2)) = Inr 69"
proof -
  have log: "fl (py_float 1 0) = 0" "fl (py_float 3 (- 1)) = 0" "fl (py_float 1 (- 4)) = - 4" "fl (py_float 448 0) = 8"
      "fl (py_float 13 (- 2)) = 1"
    using assms by (simp_all add: log2_ok_def)
  have arg: "py_min (py_abs (py_float 1 0)) (py_float 448 0) = py_float 1 0"
    "py_min (py_abs (py_float (- 3) (- 1))) (py_float 448 0) = py_float 3 (- 1)"
    "py_min (py_abs (py_float 1 (- 4))) (py_float 448 0) = py_float 1 (- 4)"
    "py_min (py_abs (py_float 448 0)) (py_float 448 0) = py_float 448 0"
    "py_min (py_abs (py_float 13 (- 2))) (py_float 448 0) = py_float 13 (- 2)"
    by code_simp+
  have z: "float_to_fp8 fl (py_float 0 0) = float_to_fp8 (\<lambda>_. 0) (py_float 0 0)"
  proof -
    have "py_flt (py_min (py_abs (py_float 0 0)) (py_float 448 0)) (py_float 1 (- 9))" by code_simp
    then show ?thesis unfolding float_to_fp8_def Let_def by (simp only: if_True)
  qed
  show "float_to_fp8 fl (py_float 0 0) = Inr 0" unfolding z by code_simp
  show "float_to_fp8 fl (py_float 1 0) = Inr 56"
    by (rule float_to_fp8_log [where e = "0"], simp only: arg log, code_simp)
  show "float_to_fp8 fl (py_float (- 3) (- 1)) = Inr 188"
    by (rule float_to_fp8_log [where e = "0"], simp only: arg log, code_simp)
  show "float_to_fp8 fl (py_float 1 (- 4)) = Inr 24"
    by (rule float_to_fp8_log [where e = "- 4"], simp only: arg log, code_simp)
  show "float_to_fp8 fl (py_float 448 0) = Inr 126"
    by (rule float_to_fp8_log [where e = "8"], simp only: arg log, code_simp)
  show "float_to_fp8 fl (py_float 13 (- 2)) = Inr 69"
    by (rule float_to_fp8_log [where e = "1"], simp only: arg log, code_simp)
qed

definition fp8_close :: "int \<Rightarrow> int \<Rightarrow> bool" where
  "fp8_close v b \<longleftrightarrow>
     \<not> py_flt (py_max (py_fmul (py_abs v) (py_truediv 626 10000)) (py_truediv 1 1000)) (py_abs (py_fsub (fp8_to_float b) v))"

lemma st_fp8_passes:
  assumes "log2_ok fl"
  shows "st_fp8 fl n = Inr n"
proof -
  have "list_all (\<lambda>(v, b). fp8_close v b) (zip st_floats [0, 56, 188, 24, 126, 69])" by code_simp
  then show ?thesis
    unfolding st_fp8_def st_floats_def efold.simps fp8_of_floats [OF assms] ebind_simps Let_def
    by (simp only: fp8_close_def zip_Cons_Cons list.pred_inject prod.case if_False ebind_simps simp_thms)
qed

lemma finite_operands: "finite (Collect scalar_operand)" "finite (Collect tensor_operand)"
proof -
  have "finite {A. set A \<subseteq> {- 50..<50 :: int} \<and> length A = 64}" "finite {A. set A \<subseteq> {- 8..<8 :: int} \<and> length A = 1024}"
    by (rule finite_lists_length_eq; simp)+
  moreover have "Collect scalar_operand \<subseteq> {A. set A \<subseteq> {- 50..<50} \<and> length A = 64}"
    "Collect tensor_operand \<subseteq> {A. set A \<subseteq> {- 8..<8} \<and> length A = 1024}"
    by (auto simp: scalar_operand_def tensor_operand_def)
  ultimately show "finite (Collect scalar_operand)" "finite (Collect tensor_operand)"
    using finite_subset by blast+
qed

text \<open>A number of steps for all operands of a finite set.\<close>

lemma uniform_bound:
  assumes "finite S" "\<And>a b. a \<in> S \<Longrightarrow> b \<in> S \<Longrightarrow> \<exists>k. \<forall>n > k. P a b n"
  shows "\<exists>k :: nat. \<forall>n > k. \<forall>a \<in> S. \<forall>b \<in> S. P a b n"
proof -
  obtain f where f: "\<And>a b n. a \<in> S \<Longrightarrow> b \<in> S \<Longrightarrow> f a b < n \<Longrightarrow> P a b n" using assms(2) by metis
  have "f a b \<le> Max ((\<lambda>(a, b). f a b) ` (S \<times> S))" if "a \<in> S" "b \<in> S" for a b
    by (rule Max_ge) (use that assms(1) in auto)
  then show ?thesis using f by (meson le_less_trans)
qed

lemma gbind_lift: "gbind (glift_sum (Inr x)) f = f x"
  by (simp add: gbind_def glift_sum_def)

lemma gsat_lift_sum: "gsat P (glift_sum (Inr x)) \<longleftrightarrow> P x"
  by (auto simp: gsat_def glift_sum_def)

lemma st_draws_sat:
  assumes "rng_ok r" "0 < bnd"
  shows "gsat (\<lambda>A. length A = n \<and> (\<forall>x \<in> set A. - bnd \<le> x \<and> x < bnd)) (st_draws r n bnd)"
  unfolding st_draws_def
proof (rule gsat_mono [OF gsat_times [where k = 1]])
  show "gsat (\<lambda>xs. list_all (\<lambda>x. - bnd \<le> x \<and> x < bnd) xs \<and> length xs = 1) (gbind (randrange r (- bnd) bnd 1) (\<lambda>x. gret [x]))"
    by (intro gsat_bind [OF gsat_range] gsat_ret) (use assms in auto)
qed (auto simp: list_all_iff)

lemma selftest_zero:
  assumes r: "rng_ok r" and fl: "log2_ok fl"
  shows "\<exists>k. \<forall>max_steps > k. gsat (\<lambda>failures. failures = 0) (selftest fl r max_steps)"
proof -
  have "case compile matmul_kernel of Inr _ \<Rightarrow> True | Inl _ \<Rightarrow> False" by code_simp
  then obtain ws where ws: "compile matmul_kernel = Inr ws" by (auto split: sum.splits)
  obtain wt where wt: "compile_tensor matmul_kernel ''int8'' = Inr wt" using matmul_kernel_compiles by blast
  have enc: "st_encoding = Inr ()" by code_simp
  have pk: "parse_kernel [FunctionDef matmul_kernel] None = Inr matmul_kernel" by (simp add: parse_kernel_def)
  have "\<exists>k. \<forall>n > k. \<forall>A \<in> Collect scalar_operand. \<forall>B \<in> Collect scalar_operand. st_scalar ws n A B = Inr True"
    by (rule uniform_bound [OF finite_operands(1)]) (simp add: st_scalar_passes [OF ws])
  then obtain k1 where k1: "\<And>n A B. n > k1 \<Longrightarrow> scalar_operand A \<Longrightarrow> scalar_operand B \<Longrightarrow> st_scalar ws n A B = Inr True"
    by (metis mem_Collect_eq)
  have "\<exists>k. \<forall>n > k. \<forall>A \<in> Collect tensor_operand. \<forall>B \<in> Collect tensor_operand. st_tensor wt n A B = Inr True"
    by (rule uniform_bound [OF finite_operands(2)]) (simp add: st_tensor_passes [OF wt])
  then obtain k2 where k2: "\<And>n A B. n > k2 \<Longrightarrow> tensor_operand A \<Longrightarrow> tensor_operand B \<Longrightarrow> st_tensor wt n A B = Inr True"
    by (metis mem_Collect_eq)
  have d1: "gsat scalar_operand (st_draws r 64 50)" and d2: "gsat tensor_operand (st_draws r 1024 8)"
    by (rule gsat_mono [OF st_draws_sat [OF r]]; simp add: scalar_operand_def tensor_operand_def)+
  have "gsat (\<lambda>failures. failures = 0) (selftest fl r n)" if "n > max k1 k2" for n
  proof -
    have n: "n > k1" "n > k2" using that by simp_all
    have "gsat (\<lambda>failures. failures = 0) (gbind (glift_sum (st_tensor wt n A B)) (\<lambda>ok.
        let failures = 0 + (if ok then 0 else 1) in glift_sum (st_fp8 fl failures)))"
      if "tensor_operand A" "tensor_operand B" for A B
      using k2 [OF n(2) that] by (simp add: gbind_lift st_fp8_passes [OF fl] gsat_lift_sum)
    then have t: "gsat (\<lambda>failures. failures = 0) (gbind (st_draws r 1024 8) (\<lambda>A. gbind (st_draws r 1024 8) (\<lambda>B.
        gbind (glift_sum (st_tensor wt n A B)) (\<lambda>ok.
        let failures = 0 + (if ok then 0 else 1) in glift_sum (st_fp8 fl failures)))))"
      by (intro gsat_bind [OF d2])
    show ?thesis
      unfolding selftest_def enc pk gbind_lift ws wt
      by (intro gsat_bind [OF d1]) (use k1 [OF n(1)] t in \<open>simp add: gbind_lift\<close>)
  qed
  then show ?thesis by blast
qed

section \<open>Results\<close>

text \<open>C4: the self-test finds no failure and the command line exits with 0, whatever is drawn, for every
  watchdog of the simulator above some number of steps.\<close>

theorem selftest_passes:
  assumes "rng_ok r" "log2_ok fl" "cli_selftest args"
  shows "\<exists>k. \<forall>max_steps > k. \<forall>g. fst (selftest fl r max_steps g) = Inr 0 \<and>
    cli_main parsed out_io (fst (selftest fl r max_steps g)) args = (SysExit 0, None, [])"
proof -
  obtain k where k: "\<And>max_steps. max_steps > k \<Longrightarrow> gsat (\<lambda>failures. failures = 0) (selftest fl r max_steps)"
    using selftest_zero [OF assms(1,2)] by blast
  have "fst (selftest fl r max_steps g) = Inr 0" if "max_steps > k" for max_steps g
    using k [OF that] unfolding gsat_def by (metis fst_conv)
  then show ?thesis using assms(3) by (intro exI [of _ k]) (simp add: cli_main_def)
qed

definition selftest_args :: cli where
  "selftest_args = \<lparr>cli_input = None, cli_output = None, cli_function = None, cli_tensor = False, cli_dtype = ''int8'',
     cli_dump = False, cli_selftest = True\<rparr>"

lemma selftest_args_ok: "cli_selftest selftest_args"
  by (simp add: selftest_args_def)

theorem selftest_passes_witness:
  "\<exists>max_steps. fst (selftest (\<lambda>x. drop_bit 52 x - 1023) counter_rng max_steps 0) = Inr 0"
proof -
  have "log2_ok (\<lambda>x. drop_bit 52 x - 1023)" by code_simp
  then obtain k where "\<forall>max_steps > k. \<forall>g. fst (selftest (\<lambda>x. drop_bit 52 x - 1023) counter_rng max_steps g) = Inr 0 \<and>
      cli_main parsed out_io (fst (selftest (\<lambda>x. drop_bit 52 x - 1023) counter_rng max_steps g)) selftest_args = (SysExit 0, None, [])"
    using selftest_passes [OF counter_rng_ok _ selftest_args_ok] by blast
  then have "fst (selftest (\<lambda>x. drop_bit 52 x - 1023) counter_rng (Suc k) 0) = Inr 0" by simp
  then show ?thesis by blast
qed

text \<open>C3: the scalar backend computes a matrix product. For arrays of words inside the memory, \<open>C\<close> apart from \<open>A\<close> and
  \<open>B\<close>, of any size, empty ones included, the compiled kernel halts and every \<open>C[i*N+j]\<close> is the dot product of row \<open>i\<close> of \<open>A\<close>
  and column \<open>j\<close> of \<open>B\<close> modulo \<open>2 ^ 32\<close>, all other memory unchanged.\<close>

theorem scalar_matmul:
  fixes A B C M N K :: "32 word"
  assumes "compile matmul_kernel = Inr ws" "kparams mem addr 0 (fargs matmul_kernel) (\<lambda>_. None) = Some env"
    "mm_binds env A B C M N K" "word_layout (uint A) (uint B) (uint C) (sint M) (sint N) (sint K) mem"
  shows "\<exists>k mem'. (\<forall>extra. simulate ws mem addr (k + 1 + extra) = Inr (k + 1, mem')) \<and> length mem' = length mem \<and>
    (\<forall>i \<in> {0..<sint M}. \<forall>j \<in> {0..<sint N}. rd32 mem' (uint C + 4 * (i * sint N + j)) =
      Inr (word_dot mem (uint A) (uint B) (sint N) (sint K) i j (sint K) mod 2 ^ 32)) \<and>
    (\<forall>x. 0 \<le> x \<and> x < int (length mem) \<and> (x < uint C \<or> uint C + 4 * (sint M * sint N) \<le> x) \<longrightarrow> mem' ! nat x = mem ! nat x)"
proof -
  have bm: "byte_mem mem" using assms(4) by (simp add: word_layout_def)
  obtain n mem' where r: "krun n matmul_kernel mem addr = Some mem'"
    and inv: "cell_inv (uint C) (sint M) (sint N) mem mem' (\<lambda>(i, j). word_dot mem (uint A) (uint B) (sint N) (sint K) i j (sint K))"
    using matmul_kernel_means [OF assms(4,2,3)] by blast
  obtain k where "\<forall>max_steps > k. simulate ws mem addr max_steps = Inr (k + 1, mem')"
    using halts_simulate [OF compile_halts [OF assms(1) r bm]] by blast
  then have s: "\<forall>extra. simulate ws mem addr (k + 1 + extra) = Inr (k + 1, mem')" by simp
  have c: "rd32 mem' (uint C + 4 * (i * sint N + j)) =
      Inr (word_dot mem (uint A) (uint B) (sint N) (sint K) i j (sint K) mod 2 ^ 32)"
    if "i \<in> {0..<sint M}" "j \<in> {0..<sint N}" for i j
    using cell_inv_cell [OF inv] that by simp
  have f: "length mem' = length mem" "\<forall>x. 0 \<le> x \<and> x < int (length mem) \<and> (x < uint C \<or> uint C + 4 * (sint M * sint N) \<le> x) \<longrightarrow>
      mem' ! nat x = mem ! nat x"
    by (fact conjunct1 [OF inv [unfolded cell_inv_def]], fact conjunct2 [OF conjunct2 [OF inv [unfolded cell_inv_def]]])
  have "\<forall>i \<in> {0..<sint M}. \<forall>j \<in> {0..<sint N}. rd32 mem' (uint C + 4 * (i * sint N + j)) =
      Inr (word_dot mem (uint A) (uint B) (sint N) (sint K) i j (sint K) mod 2 ^ 32)"
    by (intro ballI) (rule c)
  with s f show ?thesis by (intro exI [of _ k] exI [of _ mem'] conjI)
qed

definition mini_mem :: "int list" where
  "mini_mem = [24, 0, 0, 0, 28, 0, 0, 0, 32, 0, 0, 0, 1, 0, 0, 0, 1, 0, 0, 0, 1, 0, 0, 0, 3, 0, 0, 0, 255, 255, 255, 255, 7, 0, 0, 0]"

theorem scalar_matmul_witness:
  "\<exists>ws k mem'. (\<forall>extra. simulate ws mini_mem 0 (k + 1 + extra) = Inr (k + 1, mem')) \<and> rd32 mem' 32 = Inr 0xFFFFFFFD"
proof -
  have "case compile matmul_kernel of Inr _ \<Rightarrow> True | Inl _ \<Rightarrow> False" by code_simp
  then obtain ws where ws: "compile matmul_kernel = Inr ws" by (auto split: sum.splits)
  have rd: "rd32 mini_mem (0 + 4 * int i) = Inr ([24, 28, 32, 1, 1, 1] ! i mod 2 ^ 32)" if "i < 6" for i
  proof -
    have "list_all (\<lambda>i. rd32 mini_mem (0 + 4 * int i) = Inr ([24, 28, 32, 1, 1, 1] ! i mod 2 ^ 32)) [0, 1, 2, 3, 4, 5]" by code_simp
    moreover have "i \<in> set [0, 1, 2, 3, 4, 5]" using that by auto
    ultimately show ?thesis unfolding list_all_iff by (rule bspec)
  qed
  obtain env where e: "kparams mini_mem 0 0 (fargs matmul_kernel) (\<lambda>_. None) = Some env" "mm_binds env 24 28 32 1 1 1"
    using kparams_block [of mini_mem 0 "[24, 28, 32, 1, 1, 1]"] rd by auto
  have d: "word_dot mini_mem 24 28 1 1 0 0 1 mod 2 ^ 32 = 0xFFFFFFFD"
    by (simp add: word_dot_def mem_at_def) code_simp
  have "word_layout (uint (24 :: 32 word)) (uint (28 :: 32 word)) (uint (32 :: 32 word)) (sint (1 :: 32 word)) (sint (1 :: 32 word))
      (sint (1 :: 32 word)) mini_mem" by (simp add: word_layout_def mini_mem_def byte_mem_def)
  from scalar_matmul [OF ws e this] obtain k mem' where k: "\<forall>extra. simulate ws mini_mem 0 (k + 1 + extra) = Inr (k + 1, mem')"
    and c: "\<forall>i \<in> {0..<sint (1 :: 32 word)}. \<forall>j \<in> {0..<sint (1 :: 32 word)}. rd32 mem' (uint (32 :: 32 word) + 4 * (i * sint (1 :: 32 word) + j)) =
      Inr (word_dot mini_mem (uint (24 :: 32 word)) (uint (28 :: 32 word)) (sint (1 :: 32 word)) (sint (1 :: 32 word)) i j (sint (1 :: 32 word)) mod 2 ^ 32)"
    by blast
  have "rd32 mem' 32 = Inr 0xFFFFFFFD" using bspec [OF bspec [OF c, of 0], of 0] d by simp
  then show ?thesis using k by blast
qed

end
