(* ===== verification/RtFloat.thy ===== *)
theory RtFloat
  imports RtFixed Tbin
begin

text \<open>
  The conversions between floats and Q16.16 of \<^verbatim>\<open>tb/uvm/rt_ref.py\<close>: scaling by \<open>2 ** 16\<close> is exact, so
  \<open>fx\<close> rounds the exact value once, and every 32-bit number survives the way through a float.
\<close>

section \<open>Conversions\<close>

definition fx :: "int \<Rightarrow> py_error + int" where
  "fx v = ebind (py_round (py_fmul v (py_float 65536 0))) (\<lambda>n. Inr (se32 n))"

text \<open>An integer divided by a float is converted first, which may overflow; dividing by \<open>65536.0\<close> is the scaling
  by \<open>2 ** -16\<close>.\<close>

definition fx_to_f :: "int \<Rightarrow> py_error + int" where
  "fx_to_f v =
    (let x = py_float v 0 in
     if fp_finite FP64 x then Inr (py_fmul x (py_float 1 (- 16))) else Inl OverflowError)"

section \<open>Exact results\<close>

context ieee_format
begin

lemma rne_exact:
  assumes "correctly_rounded fmt RM_RNE x r" "fp_finite fmt y" "fp_val fmt y = x" "\<bar>x\<bar> \<le> max_mag"
  shows "fp_finite fmt r \<and> fp_val fmt r = x"
proof -
  have "fp_finite fmt r"
  proof (rule ccontr)
    assume "\<not> fp_finite fmt r"
    then have "rne_limit fmt \<le> \<bar>x\<bar>" using assms(1) by (simp add: correctly_rounded_def)
    then show False using assms(4) rne_limit_alt max_mag_alt powi2_pos [of MAX_SCALE] by linarith
  qed
  moreover from this have "\<bar>fp_val fmt r - x\<bar> \<le> \<bar>fp_val fmt y - x\<bar>" using assms(1,2) by (simp add: correctly_rounded_def)
  ultimately show ?thesis using assms(3) by simp
qed

lemma mag_le_max: "0 \<le> m \<Longrightarrow> m < 2 ^ (mb + 1) \<Longrightarrow> c \<le> MAX_SCALE \<Longrightarrow> mag m c \<le> max_mag"
  unfolding max_mag_def by (rule mag_mono2) auto

lemma mag_sgn: "mag p c = sgn_rat (if p < 0 then 1 else 0) * mag \<bar>p\<bar> c"
  by (simp add: mag_def sgn_rat_def)

lemma rne_exact_mag:
  assumes r: "correctly_rounded fmt RM_RNE (mag p c) r"
    and m: "\<bar>p\<bar> < 2 ^ (mb + 1)" and c: "MIN_SCALE fmt \<le> c" "c \<le> MAX_SCALE"
  shows "fp_finite fmt r \<and> fp_val fmt r = mag p c"
proof -
  have "\<exists>y. fp_finite fmt y \<and> fp_val fmt y = mag p c"
  proof (cases "p = 0")
    case True
    then show ?thesis using zero_result_spec(2,3) [of 0 "mag p c"] by auto
  next
    case False
    then obtain y where "fp_finite fmt y" "fp_val fmt y = sgn_rat (if p < 0 then 1 else 0) * mag \<bar>p\<bar> c"
      using representable [OF _ m c, of "if p < 0 then 1 else 0"] by (cases "p < 0") (simp_all, blast+)
    then show ?thesis using mag_sgn by metis
  qed
  then obtain y where y: "fp_finite fmt y" "fp_val fmt y = mag p c" by blast
  have "\<bar>mag p c\<bar> \<le> max_mag" using mag_le_max [of "\<bar>p\<bar>" c] m c mag_nonneg [of "\<bar>p\<bar>" c] unfolding mag_sgn [of p] by simp
  then show ?thesis by (rule rne_exact [OF r y])
qed

end

lemma fp64_scales: "MIN_SCALE FP64 = - 1074" "fp64.MAX_SCALE = 971"
  by (simp_all add: FP64_def FpFormat_def fp64.MAX_SCALE_def Let_def)

lemma py_float_val:
  assumes "\<bar>m\<bar> < 2 ^ 53" "- 1074 \<le> c" "c \<le> 971"
  shows "fp_finite FP64 (py_float m c) \<and> fp_val FP64 (py_float m c) = mag m c"
proof (cases "m = 0")
  case True
  then show ?thesis using fp64.zero_result_spec(2,3) [of 0 0] by (simp add: py_float_def FP64_def)
next
  case False
  obtain r fl where r: "round_pack (if m < 0 then 1 else 0) \<bar>m\<bar> c RM_RNE FP64 = (r, fl)" by (metis surj_pair)
  have "fp64.packed RM_RNE (if m < 0 then 1 else 0) (mag \<bar>m\<bar> c) r fl"
    by (rule fp64.round_pack_packed) (use False r in \<open>simp_all add: FP64_def\<close>)
  then have "correctly_rounded FP64 RM_RNE (mag m c) r" unfolding fp64.packed_def FP64_def fp64.mag_sgn [of m c] by blast
  then show ?thesis using fp64.rne_exact_mag [of m c r] assms False r fp64_scales by (simp add: py_float_def FP64_def)
qed

lemma py_fmul_val:
  assumes "fp_finite FP64 a" "fp_finite FP64 b" "fp_val FP64 a * fp_val FP64 b = mag p c" "\<bar>p\<bar> < 2 ^ 53" "- 1074 \<le> c" "c \<le> 971"
  shows "fp_finite FP64 (py_fmul a b) \<and> fp_val FP64 (py_fmul a b) = mag p c"
proof -
  obtain r fl where r: "fp_mul a b RM_RNE FP64 = (r, fl)" by (metis surj_pair)
  have "rounds_to FP64 RM_RNE (fp_val FP64 a * fp_val FP64 b) r fl"
    using fp64.fp_mul_rounds [of a b RM_RNE r fl] assms(1,2) r by (simp add: FP64_def)
  then have "correctly_rounded FP64 RM_RNE (mag p c) r" by (simp add: rounds_to_def assms(3))
  then show ?thesis using fp64.rne_exact_mag [of p c r] assms(4-6) r fp64_scales by (simp add: py_fmul_def FP64_def)
qed

text \<open>Rounding a float that is an integer changes nothing; rounding any float errs by at most a half.\<close>

lemma rshift_rne_near:
  assumes "0 \<le> m"
  shows "\<bar>of_int (rshift_rne m s) - mag m (- s)\<bar> \<le> 1 / 2"
proof (cases "s \<le> 0")
  case True
  then have "mag m (- s) = of_int (m * 2 ^ nat (- s))" by (simp add: mag_def power_int_def)
  then show ?thesis using True by (simp add: rshift_rne_def shl_eq)
next
  case False
  then obtain k where k: "s = int (Suc k)" by (metis not_le zero_less_imp_eq_int Suc_pred of_nat_0_less_iff)
  let ?q = "m div 2 ^ Suc k" and ?r = "m mod 2 ^ Suc k"
  have r: "0 \<le> ?r" "?r < 2 * 2 ^ k" by simp_all
  have v: "mag m (- s) = of_int ?q + of_int ?r / 2 ^ Suc k"
  proof -
    have "(of_int m :: rat) = of_int (?q * 2 ^ Suc k + ?r)" by (simp only: div_mult_mod_eq)
    then have "(of_int m :: rat) = of_int ?q * 2 ^ Suc k + of_int ?r" by (simp only: of_int_add of_int_mult of_int_power of_int_numeral)
    moreover have "mag m (- s) = of_int m / 2 ^ Suc k"
      unfolding mag_def k power_int_minus powi2_nat by (simp only: divide_inverse)
    ultimately show ?thesis by (simp only: add_divide_distrib) simp
  qed
  have "rshift_rne m s = ?q \<and> ?r \<le> 2 ^ k \<or> rshift_rne m s = ?q + 1 \<and> 2 ^ k \<le> ?r"
  proof -
    have n: "nat s = Suc k" "nat (s - 1) = k" "\<not> s \<le> 0" "0 \<le> s" "0 \<le> s - 1" by (simp_all add: k)
    have "shr m s = ?q" "shl 1 (s - 1) = 2 ^ k" using n by (simp_all add: shr_eq shl_eq)
    moreover have "m AND (shl 1 s - 1) = ?r"
    proof -
      have "shl 1 s - 1 = mask (Suc k)" unfolding shl_eq n(1) mask_eq_exp_minus_1 by simp
      then show ?thesis by (simp only: take_bit_eq_mask [symmetric] take_bit_eq_mod)
    qed
    ultimately have "rshift_rne m s = (if 2 ^ k < ?r \<or> ?r = 2 ^ k \<and> ?q AND 1 \<noteq> 0 then ?q + 1 else ?q)"
      unfolding rshift_rne_def Let_def using n(3) by simp
    then show ?thesis by (cases "2 ^ k < ?r \<or> ?r = 2 ^ k \<and> ?q AND 1 \<noteq> 0") auto
  qed
  then show ?thesis
  proof
    assume a: "rshift_rne m s = ?q \<and> ?r \<le> 2 ^ k"
    then have "(of_int ?r :: rat) \<le> of_int (2 ^ k)" by (simp only: of_int_le_iff)
    then have "(of_int ?r :: rat) / 2 ^ Suc k \<le> 1 / 2" "0 \<le> (of_int ?r :: rat) / 2 ^ Suc k" using r(1) by (simp_all add: divide_le_eq)
    then show ?thesis using a v by linarith
  next
    assume a: "rshift_rne m s = ?q + 1 \<and> 2 ^ k \<le> ?r"
    then have "(of_int (2 ^ k) :: rat) \<le> of_int ?r" "(of_int ?r :: rat) \<le> of_int (2 * 2 ^ k)" using r(2) by (simp_all only: of_int_le_iff)
    then have "1 / 2 \<le> (of_int ?r :: rat) / 2 ^ Suc k" "(of_int ?r :: rat) / 2 ^ Suc k \<le> 1" by (simp_all add: divide_le_eq le_divide_eq)
    moreover have "of_int (rshift_rne m s) = (of_int ?q + 1 :: rat)" using a by simp
    ultimately show ?thesis using v by linarith
  qed
qed

lemma py_round_near:
  assumes "fp_finite FP64 f"
  shows "\<exists>n. py_round f = Inr n \<and> \<bar>of_int n - fp_val FP64 f\<bar> \<le> 1 / 2"
proof -
  obtain k s m c where d: "decode f FP64 = (k, s, m, c)" "0 \<le> m" "fp_val FP64 f = sgn_rat s * mag m c" "s = 0 \<or> s = 1"
    using fp64.fp_finite_val [of f] assms unfolding FP64_def by metis
  then have k: "k = KZero \<or> k = KFin" using assms by (simp add: fp_finite_def fp_kind_of_def)
  let ?n = "(if s \<noteq> 0 then - 1 else 1) * rshift_rne m (- c)"
  have "py_round f = Inr ?n" using d(1) k by (auto simp: py_round_def is_nan_kind_def)
  moreover have "\<bar>of_int ?n - fp_val FP64 f\<bar> = \<bar>of_int (rshift_rne m (- c)) - mag m c\<bar>"
    unfolding d(3) by (simp add: sgn_rat_def abs_minus_commute)
  ultimately show ?thesis using rshift_rne_near [OF d(2), of "- c"] by simp
qed

lemma py_round_int: "fp_finite FP64 f \<Longrightarrow> fp_val FP64 f = of_int n \<Longrightarrow> py_round f = Inr n"
proof -
  assume f: "fp_finite FP64 f" "fp_val FP64 f = of_int n"
  obtain m where m: "py_round f = Inr m" "\<bar>of_int m - (of_int n :: rat)\<bar> \<le> 1 / 2"
    using py_round_near [OF f(1)] unfolding f(2) by blast
  have "\<bar>of_int (m - n) :: rat\<bar> < 1" using m(2) by simp
  then have "m = n" by (simp only: of_int_abs [symmetric] of_int_less_1_iff)
  then show "py_round f = Inr n" using m(1) by simp
qed

section \<open>The results\<close>

lemma mag_65536: "mag 65536 0 = mag 1 16"
  by (simp add: mag_def power_int_def)

lemma mag_neg: "mag (- m) c = - mag m c"
  by (simp add: mag_def)

lemma mag_scale: "mag m c * mag 1 d = mag m (c + d)"
  by (simp add: mag_def powi2_add)

text \<open>\<open>fx\<close> of a finite float below \<open>2 ** 955\<close> is the nearest integer to its value times \<open>2 ** 16\<close>, wrapped to 32 bits.\<close>

lemma fx_nearest:
  assumes "fp_finite FP64 v" "\<bar>fp_val FP64 v\<bar> < 2 ^ 955"
  shows "\<exists>n. fx v = Inr (se32 n) \<and> \<bar>of_int n - fp_val FP64 v * 65536\<bar> \<le> 1 / 2"
proof -
  obtain s m c where d: "0 \<le> m" "m < 2 ^ (52 + 1)" "- 1074 \<le> c" "c \<le> 971" "fp_val FP64 v = sgn_rat s * mag m c" "s = 0 \<or> s = 1"
  proof (rule fp64.fp_finite_val [of v])
    show "fp_finite (FpFormat 11 52) v" using assms(1) by (simp add: FP64_def)
  next
    fix k :: fp_kind and s m c
    assume "s = 0 \<or> s = 1" "0 \<le> m" "m < 2 ^ (52 + 1)" "MIN_SCALE (FpFormat 11 52) \<le> c" "c \<le> fp64.MAX_SCALE"
      "fp_val (FpFormat 11 52) v = sgn_rat s * mag m c"
    then show thesis using that [of m c s] fp64_scales by (simp add: FP64_def)
  qed
  have c: "m = 0 \<or> c \<le> 955"
  proof (rule ccontr)
    assume a: "\<not> (m = 0 \<or> c \<le> 955)"
    then have "mag 1 955 \<le> mag m c" using d(1) by (intro fp64.mag_mono2) auto
    moreover have "\<bar>fp_val FP64 v\<bar> = mag m c" using d(1,5) mag_nonneg [of m c] by simp
    ultimately show False using assms(2) by (simp add: mag_def power_int_def)
  qed
  define p c' where "p = (if s \<noteq> 0 then - m else m)" and "c' = (if m = 0 then 0 else c + 16)"
  have h: "fp_finite FP64 (py_float 65536 0)" "fp_val FP64 (py_float 65536 0) = mag 65536 0" using py_float_val [of 65536 0] by simp_all
  have e: "fp_val FP64 v * mag 65536 0 = mag p c'"
    unfolding mag_65536 using mag_scale [of m c 16] by (simp add: d(5) p_def c'_def sgn_rat_def mag_neg)
  have y: "fp_finite FP64 (py_fmul v (py_float 65536 0))" "fp_val FP64 (py_fmul v (py_float 65536 0)) = fp_val FP64 v * 65536"
    using py_fmul_val [OF assms(1) h(1), of p c'] h(2) e d(1-4) c by (auto simp: p_def c'_def mag_def)
  from py_round_near [OF y(1)] show ?thesis unfolding y(2) by (auto simp: fx_def)
qed

lemma fx_roundtrip:
  assumes "- (2 ^ 31) \<le> v" "v < 2 ^ 31"
  shows "\<exists>x. fx_to_f v = Inr x \<and> fp_val FP64 x = of_int v / 65536 \<and> fx x = Inr v"
proof -
  have v: "\<bar>v\<bar> < 2 ^ 53" using assms by simp
  have f: "fp_finite FP64 (py_float v 0)" "fp_val FP64 (py_float v 0) = mag v 0" using py_float_val [OF v, of 0] by simp_all
  have g: "fp_finite FP64 (py_float 1 (- 16))" "fp_val FP64 (py_float 1 (- 16)) = mag 1 (- 16)" using py_float_val [of 1 "- 16"] by simp_all
  define x where "x = py_fmul (py_float v 0) (py_float 1 (- 16))"
  have x: "fp_finite FP64 x" "fp_val FP64 x = mag v (- 16)"
    using py_fmul_val [OF f(1) g(1), of v "- 16"] v f(2) g(2) mag_scale [of v 0 "- 16"] by (simp_all add: x_def)
  have h: "fp_finite FP64 (py_float 65536 0)" "fp_val FP64 (py_float 65536 0) = mag 65536 0" using py_float_val [of 65536 0] by simp_all
  have "mag v (- 16) * mag 65536 0 = mag v 0" unfolding mag_65536 mag_scale by simp
  then have y: "fp_finite FP64 (py_fmul x (py_float 65536 0))" "fp_val FP64 (py_fmul x (py_float 65536 0)) = mag v 0"
    using py_fmul_val [OF x(1) h(1), of v 0] v x(2) h(2) by simp_all
  have "py_round (py_fmul x (py_float 65536 0)) = Inr v" by (rule py_round_int [OF y(1)]) (simp add: y(2) mag_def)
  then have "fx x = Inr v" using se32_id [OF assms] by (simp add: fx_def)
  moreover have "fx_to_f v = Inr x" using f(1) by (simp add: fx_to_f_def x_def)
  moreover have "fp_val FP64 x = of_int v / 65536" unfolding x(2) mag_def by (simp only: power_int_minus power_int_numeral divide_inverse) simp
  ultimately show ?thesis by blast
qed

end
