(* ===== verification/ScratchGen.thy ===== *)
theory ScratchGen
  imports GenVectorsProps
begin

text \<open>
  The older generator \<^verbatim>\<open>bin/scratch_gen.py\<close>, which writes the same three files: the statements of the script
  in their order, over the random sources and generators of \<open>GenVectors\<close>.
\<close>

section \<open>Operand pairs\<close>

definition f32_to_hex :: "int \<Rightarrow> string" where
  "f32_to_hex f_int = ''0x'' @ hex_str 8 f_int"

definition f16_to_hex :: "int \<Rightarrow> string" where
  "f16_to_hex f_int = ''0x'' @ hex_str 4 f_int"

definition add_f32_pair :: "int \<Rightarrow> int \<Rightarrow> pair list" where
  "add_f32_pair a b = both Add a b"

definition mul_f32_pair :: "int \<Rightarrow> int \<Rightarrow> pair list" where
  "mul_f32_pair a b = both Mul a b"

definition mul_f16_pair :: "int \<Rightarrow> int \<Rightarrow> pair list" where
  "mul_f16_pair a b = both Mul a b"

definition sg_nan :: "pair list" where
  "sg_nan = add_f32_pair 0x7FC00000 0x3F800000 @ add_f32_pair 0x7F800001 0x3F800000 @ add_f32_pair 0x7FC00000 0x7F800001 @
     add_f32_pair 0x7FC01234 0x3F800000 @ mul_f32_pair 0x7FC00000 0x3F800000 @ mul_f32_pair 0x7F800001 0x3F800000 @
     mul_f32_pair 0x7FC01234 0x7F800001"

definition sg_inf :: "pair list" where
  "sg_inf = add_f32_pair 0x7F800000 0xFF800000 @ add_f32_pair 0x7F800000 0x7F800000 @ add_f32_pair 0xFF800000 0xFF800000 @
     add_f32_pair 0x7F800000 0x3F800000 @ add_f32_pair 0xFF800000 0x3F800000 @ mul_f32_pair 0x7F800000 0x00000000 @
     mul_f32_pair 0xFF800000 0x80000000 @ mul_f32_pair 0x7F800000 0x7F800000 @ mul_f32_pair 0x7F800000 0x3F800000"

definition sg_zero :: "pair list" where
  "sg_zero = concat (map (\<lambda>a. concat (map (\<lambda>b. add_f32_pair a b @ mul_f32_pair a b) [0x00000000, 0x80000000])) [0x00000000, 0x80000000])"

definition sg_sub :: "pair list" where
  "sg_sub = add_f32_pair 0x00000001 0x00000001 @ add_f32_pair 0x003FFFFF 0x003FFFFF @ mul_f32_pair 0x00000001 0x00000001 @
     mul_f32_pair 0x007FFFFF 0x007FFFFF @ mul_f32_pair 0x4F000000 0x00000001"

definition sg_cancel :: "pair list" where
  "sg_cancel = add_f32_pair 0x3F800000 0xBF800001 @ add_f32_pair 0x40000000 0xC0000001"

definition sg_tie :: "pair list" where
  "sg_tie = add_f32_pair 0x3F800000 0x33000000 @ add_f32_pair 0x3F800001 0x33000000"

definition sg_overflow :: "pair list" where
  "sg_overflow = add_f32_pair 0x7F7FFFFF 0x72000000 @ mul_f32_pair 0x7F7FFFFF 0x3F800000 @ mul_f32_pair 0x7F7FFFFF 0x3F800001 @
     mul_f32_pair 0x7F7FFFFF 0x3F7FFFFF"

definition sg_underflow :: "pair list" where
  "sg_underflow = mul_f32_pair 0x3F800000 0x00000001 @ mul_f32_pair 0x3E800000 0x00800000"

definition sg_align :: "pair list" where
  "sg_align = concat (map (\<lambda>shift. add_f32_pair 0x3F800000 (push_bit 23 (127 - shift))) [0, 1, 23, 24, 25, 60])"

definition sg_fp32 :: "'g rng \<Rightarrow> ('g, pair list) gen" where
  "sg_fp32 r =
    gbind (gtimes 100
      (gbind (randint r 0 0xFFFFFFFF) (\<lambda>a. gbind (randint r 0 0xFFFFFFFF) (\<lambda>b. gret (add_f32_pair a b @ mul_f32_pair a b))))) (\<lambda>rs.
    gret (sg_nan @ sg_inf @ sg_zero @ sg_sub @ sg_cancel @ sg_tie @ sg_overflow @ sg_underflow @ sg_align @ rs))"

definition sg_fp16_fixed :: "pair list" where
  "sg_fp16_fixed = mul_f16_pair 0x7E00 0x3C00 @ mul_f16_pair 0x7E01 0x3C00 @ mul_f16_pair 0x7C00 0x0000 @ mul_f16_pair 0xFC00 0x8000 @
     mul_f16_pair 0x7C00 0x7C00 @
     concat (map (\<lambda>a. concat (map (\<lambda>b. mul_f16_pair a b) [0x0000, 0x8000])) [0x0000, 0x8000]) @
     mul_f16_pair 0x0001 0x0001 @ mul_f16_pair 0x03FF 0x03FF @ mul_f16_pair 0x5C00 0x0001 @ mul_f16_pair 0x3C00 0x3800 @
     mul_f16_pair 0x7BFF 0x3C01 @ mul_f16_pair 0x7BFF 0x3BFF"

definition sg_fp16 :: "'g rng \<Rightarrow> ('g, pair list) gen" where
  "sg_fp16 r =
    gbind (gtimes 300 (gbind (randint r 0 0xFFFF) (\<lambda>a. gbind (randint r 0 0xFFFF) (\<lambda>b. gret (mul_f16_pair a b))))) (\<lambda>rs.
    gret (sg_fp16_fixed @ rs))"

section \<open>Access patterns\<close>

definition sg_pattern :: "string \<Rightarrow> int list \<Rightarrow> lsu_pattern" where
  "sg_pattern msk addrs = \<lparr>p_mask = msk, p_addrs = map f32_to_hex addrs, p_write = 0\<rparr>"

definition add_lsu :: "int list \<Rightarrow> lsu_pattern" where
  "add_lsu addrs = sg_pattern ''0xFFFFFFFF'' addrs"

definition sg_lsu_directed :: "lsu_pattern list" where
  "sg_lsu_directed =
    [add_lsu (replicate 32 0x1000), add_lsu (lanes (\<lambda>i. 0x1000 + i * 4)), add_lsu (lanes (\<lambda>i. 0x1000 + i * 8)),
     add_lsu (lanes (\<lambda>i. 0x1000 + i * 16)), add_lsu (lanes (\<lambda>i. 0x1000 + i * 32)), add_lsu (lanes (\<lambda>i. 0x1040 + i * 4)),
     add_lsu (lanes (\<lambda>i. 0x1000 + i * 128)), add_lsu ((replicate 32 0x1000)[15 := 0x2000]),
     add_lsu (lanes (\<lambda>i. 0x1000 + (31 - i) * 4))]"

definition sg_partial :: "'g rng \<Rightarrow> ('g, lsu_pattern list) gen" where
  "sg_partial r =
    (let addrs = lanes (\<lambda>j. 0x1000 + j * 4) in
     gbind (randint r 0 0xFFFFFFFF) (\<lambda>m.
     gret [sg_pattern ''0x00000001'' addrs, sg_pattern ''0x55555555'' addrs, sg_pattern (f32_to_hex m) addrs]))"

definition sg_lsu :: "'g rng \<Rightarrow> ('g, lsu_pattern list) gen" where
  "sg_lsu r =
    gbind (gtimes 20 (sg_partial r)) (\<lambda>ps.
    fill 60 (gbind (gtimes 32 (gbind (randint r 0 0x3FFF) (\<lambda>x. gret [x * 4]))) (\<lambda>addrs. gret (sg_pattern ''0xFFFFFFFF'' addrs)))
      (sg_lsu_directed @ ps))"

section \<open>The three files\<close>

definition texts_of :: "(int \<Rightarrow> string) \<Rightarrow> op \<Rightarrow> pair list \<Rightarrow> (string \<times> string) list" where
  "texts_of hex l ps = map (\<lambda>(a, b). (hex a, hex b)) (pairs_of l ps)"

definition scratch_gen :: "'g rng \<Rightarrow> ('g, (string \<times> corpus) list) gen" where
  "scratch_gen r =
    gbind (sg_fp32 r) (\<lambda>ps32.
    gbind (sg_fp16 r) (\<lambda>ps16.
    gbind (sg_lsu r) (\<lambda>lsu.
    gret [(''fp32_vectors.json'', FpCorpus [(''add'', texts_of f32_to_hex Add ps32), (''mul'', texts_of f32_to_hex Mul ps32)]),
          (''fp16_vectors.json'', FpCorpus [(''mul'', texts_of f16_to_hex Mul ps16)]),
          (''lsu_patterns.json'', LsuCorpus lsu)])))"

section \<open>What the files hold\<close>

lemma gsat_times_count:
  assumes "gsat (P 1) m" "P 0 []" "\<And>i j xs ys. P i xs \<Longrightarrow> P j ys \<Longrightarrow> P (i + j) (xs @ ys)"
  shows "gsat (P n) (gtimes n m)"
proof (induction n)
  case (Suc n)
  have "P (Suc n) (xs @ ys)" if "P 1 xs" "P n ys" for xs ys using assms(3) [OF that] by simp
  then show ?case unfolding gtimes.simps by (intro gsat_bind [OF assms(1)] gsat_bind [OF Suc.IH] gsat_ret)
qed (simp add: assms(2) gsat_ret)

definition in_width :: "nat \<Rightarrow> int \<Rightarrow> bool" where
  "in_width w v \<longleftrightarrow> 0 \<le> v \<and> v < 2 ^ w"

text \<open>Both orders of every pair, operands of the width, and the number of additions and multiplications.\<close>

definition mirrored :: "nat \<Rightarrow> nat \<Rightarrow> nat \<Rightarrow> pair list \<Rightarrow> bool" where
  "mirrored w na nm ps \<longleftrightarrow> list_all (\<lambda>(l, a, b). (l, b, a) \<in> set ps \<and> in_width w a \<and> in_width w b) ps \<and>
     length (pairs_of Add ps) = na \<and> length (pairs_of Mul ps) = nm"

lemma mirrored_append: "mirrored w i k xs \<Longrightarrow> mirrored w j l ys \<Longrightarrow> mirrored w (i + j) (k + l) (xs @ ys)"
  by (auto simp: mirrored_def pairs_of_def list_all_iff)

definition sg_fp32_fixed :: "pair list" where
  "sg_fp32_fixed = sg_nan @ sg_inf @ sg_zero @ sg_sub @ sg_cancel @ sg_tie @ sg_overflow @ sg_underflow @ sg_align"

lemma sg_fixed_mirrored: "mirrored 32 52 38 sg_fp32_fixed" "mirrored 16 0 30 sg_fp16_fixed"
  by code_simp+

lemma sg_fp32_sat:
  assumes "rng_ok r"
  shows "gsat (mirrored 32 252 238) (sg_fp32 r)"
proof -
  have one: "gsat (mirrored 32 (2 * 1) (2 * 1)) (gbind (randint r 0 0xFFFFFFFF) (\<lambda>a. gbind (randint r 0 0xFFFFFFFF) (\<lambda>b.
      gret (add_f32_pair a b @ mul_f32_pair a b))))"
    by (intro gsat_bind [OF gsat_randint [OF assms]] gsat_ret)
      (auto simp: mirrored_def in_width_def add_f32_pair_def mul_f32_pair_def both_def pairs_of_def)
  have "gsat (mirrored 32 (2 * 100) (2 * 100)) (gtimes 100 (gbind (randint r 0 0xFFFFFFFF) (\<lambda>a. gbind (randint r 0 0xFFFFFFFF) (\<lambda>b.
      gret (add_f32_pair a b @ mul_f32_pair a b)))))"
    by (rule gsat_times_count [where P = "\<lambda>n. mirrored 32 (2 * n) (2 * n)", OF one])
      (simp_all add: mirrored_def [of _ 0] pairs_of_def add_mult_distrib2 mirrored_append)
  moreover have "mirrored 32 252 238 (sg_fp32_fixed @ rs)" if "mirrored 32 200 200 rs" for rs
    using mirrored_append [OF sg_fixed_mirrored(1) that] by simp
  ultimately show ?thesis
    unfolding sg_fp32_def sg_fp32_fixed_def [symmetric] append_assoc [symmetric]
    by (intro gsat_bind [where P = "mirrored 32 200 200"] gsat_ret) (simp_all add: sg_fp32_fixed_def)
qed

lemma sg_fp16_sat:
  assumes "rng_ok r"
  shows "gsat (mirrored 16 0 630) (sg_fp16 r)"
proof -
  have one: "gsat (mirrored 16 0 (2 * 1)) (gbind (randint r 0 0xFFFF) (\<lambda>a. gbind (randint r 0 0xFFFF) (\<lambda>b. gret (mul_f16_pair a b))))"
    by (intro gsat_bind [OF gsat_randint [OF assms]] gsat_ret)
      (auto simp: mirrored_def in_width_def mul_f16_pair_def both_def pairs_of_def)
  have "gsat (mirrored 16 0 (2 * 300)) (gtimes 300 (gbind (randint r 0 0xFFFF) (\<lambda>a. gbind (randint r 0 0xFFFF) (\<lambda>b. gret (mul_f16_pair a b)))))"
    by (rule gsat_times_count [where P = "\<lambda>n. mirrored 16 0 (2 * n)", OF one])
      (use mirrored_append [of 16 0 _ _ 0] in \<open>auto simp: mirrored_def [of _ 0 0] pairs_of_def add_mult_distrib2\<close>)
  moreover have "mirrored 16 0 630 (sg_fp16_fixed @ rs)" if "mirrored 16 0 600 rs" for rs
    using mirrored_append [OF sg_fixed_mirrored(2) that] by simp
  ultimately show ?thesis
    unfolding sg_fp16_def by (intro gsat_bind [where P = "mirrored 16 0 600"] gsat_ret) simp_all
qed

lemma read_f32: "0 \<le> v \<Longrightarrow> read_hex (f32_to_hex v) = Inr v"
  unfolding f32_to_hex_def by (rule read_hex_prefixed)

lemma read_f16: "0 \<le> v \<Longrightarrow> read_hex (f16_to_hex v) = Inr v"
  unfolding f16_to_hex_def by (rule read_hex_prefixed)

lemma sg_pattern_ok:
  assumes "read_hex msk = Inr m" "0 \<le> m" "m < 2 ^ 32" "length addrs = 32" "list_all addr_ok addrs"
  shows "pattern_ok (sg_pattern msk addrs)"
proof -
  have "emap read_hex (map f32_to_hex as) = Inr as" if "list_all addr_ok as" for as
    using that by (induction as) (auto simp: addr_ok_def read_f32)
  then show ?thesis using assms by (simp add: pattern_ok_def sg_pattern_def)
qed

lemma sg_masks: "read_hex ''0xFFFFFFFF'' = Inr 0xFFFFFFFF" "read_hex ''0x00000001'' = Inr 1" "read_hex ''0x55555555'' = Inr 0x55555555"
  by code_simp+

lemma sg_lsu_sat:
  assumes r: "rng_ok r"
  shows "gsat (\<lambda>ps. list_all pattern_ok ps \<and> length ps = 69) (sg_lsu r)"
proof -
  have seq: "length (lanes (\<lambda>j. 0x1000 + j * 4)) = 32" "list_all addr_ok (lanes (\<lambda>j. 0x1000 + j * 4))" by code_simp+
  have "gsat (\<lambda>ps. list_all pattern_ok ps \<and> length ps = 3) (sg_partial r)"
    unfolding sg_partial_def Let_def
    by (intro gsat_bind [OF gsat_randint [OF r]] gsat_ret) (use seq sg_masks in \<open>auto intro!: sg_pattern_ok read_f32\<close>)
  then have "gsat (\<lambda>ps. list_all pattern_ok ps \<and> length ps = 20 * 3) (gtimes 20 (sg_partial r))" by (rule gsat_times)
  moreover have "list_all pattern_ok sg_lsu_directed \<and> length sg_lsu_directed = 9" by code_simp
  ultimately show ?thesis
    unfolding sg_lsu_def by (intro gsat_bind [where P = "\<lambda>ps. list_all pattern_ok ps \<and> length ps = 20 * 3"])
      (auto simp: fill.simps intro!: gsat_ret)
qed

text \<open>A list of operand texts: both orders of every pair, and every text is read back as an operand of the width.\<close>

definition texts_ok :: "nat \<Rightarrow> (string \<times> string) list \<Rightarrow> bool" where
  "texts_ok w ts \<longleftrightarrow> (\<forall>(x, y) \<in> set ts. (y, x) \<in> set ts \<and> (\<exists>v. read_hex x = Inr v \<and> in_width w v))"

lemma texts_of_ok:
  assumes "mirrored w na nm ps" "\<And>v. 0 \<le> v \<Longrightarrow> read_hex (hex v) = Inr v"
  shows "texts_ok w (texts_of hex l ps)"
proof -
  have "(hex b, hex a) \<in> set (texts_of hex l ps) \<and> (\<exists>v. read_hex (hex a) = Inr v \<and> in_width w v)"
    if "(a, b) \<in> set (pairs_of l ps)" for a b
  proof -
    have p: "(l, a, b) \<in> set ps" using that by (auto simp: pairs_of_def)
    then have "(l, b, a) \<in> set ps" and a: "in_width w a" using assms(1) by (auto simp: mirrored_def list_all_iff)
    then have "(b, a) \<in> set (pairs_of l ps)" by (force simp: pairs_of_def)
    then have "(hex b, hex a) \<in> set (texts_of hex l ps)" by (force simp: texts_of_def)
    then show ?thesis using a assms(2) by (auto simp: in_width_def)
  qed
  then show ?thesis by (auto simp: texts_ok_def texts_of_def)
qed

lemma mirrored_lengths: "mirrored w na nm ps \<Longrightarrow> length (texts_of hex Add ps) = na \<and> length (texts_of hex Mul ps) = nm"
  by (simp add: mirrored_def texts_of_def)

lemma file32: "mirrored 32 na nm ps \<Longrightarrow> texts_ok 32 (texts_of f32_to_hex Add ps) \<and> texts_ok 32 (texts_of f32_to_hex Mul ps)"
  using texts_of_ok read_f32 by blast

lemma file16: "mirrored 16 na nm ps \<Longrightarrow> texts_ok 16 (texts_of f16_to_hex Mul ps)"
  using texts_of_ok read_f16 by blast

theorem scratch_corpus:
  assumes "rng_ok r"
  shows "\<exists>adds muls muls16 lsu g'. scratch_gen r g = (Inr [(''fp32_vectors.json'', FpCorpus [(''add'', adds), (''mul'', muls)]),
      (''fp16_vectors.json'', FpCorpus [(''mul'', muls16)]), (''lsu_patterns.json'', LsuCorpus lsu)], g') \<and>
    texts_ok 32 adds \<and> texts_ok 32 muls \<and> texts_ok 16 muls16 \<and> length adds = 252 \<and> length muls = 238 \<and> length muls16 = 630 \<and>
    list_all pattern_ok lsu \<and> length lsu = 69"
proof -
  have "gsat (\<lambda>fs. \<exists>adds muls muls16 lsu. fs = [(''fp32_vectors.json'', FpCorpus [(''add'', adds), (''mul'', muls)]),
      (''fp16_vectors.json'', FpCorpus [(''mul'', muls16)]), (''lsu_patterns.json'', LsuCorpus lsu)] \<and>
      texts_ok 32 adds \<and> texts_ok 32 muls \<and> texts_ok 16 muls16 \<and> length adds = 252 \<and> length muls = 238 \<and> length muls16 = 630 \<and>
      list_all pattern_ok lsu \<and> length lsu = 69) (scratch_gen r)"
    unfolding scratch_gen_def
    by (intro gsat_bind [OF sg_fp32_sat [OF assms]] gsat_bind [OF sg_fp16_sat [OF assms]] gsat_bind [OF sg_lsu_sat [OF assms]] gsat_ret
        exI conjI refl)
      (blast dest: file32 file16 mirrored_lengths)+
  then show ?thesis unfolding gsat_def by metis
qed

theorem scratch_corpus_witness:
  "\<exists>lsu adds muls muls16 g'. scratch_gen counter_rng 0 = (Inr [(''fp32_vectors.json'', FpCorpus [(''add'', adds), (''mul'', muls)]),
      (''fp16_vectors.json'', FpCorpus [(''mul'', muls16)]), (''lsu_patterns.json'', LsuCorpus lsu)], g') \<and> length lsu = 69"
  using scratch_corpus [OF counter_rng_ok, of 0] by blast

text \<open>What the comments of the script say of fixed stimuli and what the reference model computes: the sums listed as ties are below half
  a unit of the last place, the sum that \<open>exactly rounds up to Inf\<close> is the largest finite number, the half-precision product
  listed as a tie is exact.\<close>

lemma scratch_comments:
  "fp_add 0x3F800000 0x33000000 RM_RNE FP32 = (0x3F800000, no_flags\<lparr>inexact := True\<rparr>) \<and>
   fp_add 0x3F800001 0x33000000 RM_RNE FP32 = (0x3F800001, no_flags\<lparr>inexact := True\<rparr>) \<and>
   fp_add 0x7F7FFFFF 0x72000000 RM_RNE FP32 = (0x7F7FFFFF, no_flags\<lparr>inexact := True\<rparr>) \<and>
   fp_mul 0x3C00 0x3800 RM_RNE FP16 = (0x3800, no_flags)"
  by code_simp

end
