(* ===== verification/SimRegression.thy ===== *)
theory SimRegression
  imports GenVectorsProps PyString
begin

text \<open>
  The runner over random seeds, \<^verbatim>\<open>sim/regression.py\<close>. Running a command is an argument: the command and the value
  of \<^verbatim>\<open>RANDOM_SEED\<close> to a return code, on the state the random source uses too.
\<close>

definition TESTS :: "string list" where
  "TESTS = [''test_alu_ops'', ''test_crossbar_routing'', ''test_cache_coherence'', ''test_texture_sampling'',
     ''test_display_timing'', ''test_system'', ''test_graphics_pipeline'']"

definition run_test :: "(string list \<Rightarrow> string \<Rightarrow> 'g \<Rightarrow> int \<times> 'g) \<Rightarrow> string \<Rightarrow> int \<Rightarrow> ('g, bool) gen" where
  "run_test run test_name seed =
    gbind (glift (run [''python'', ''-m'', ''pytest'', ''../tb/'' @ test_name @ ''.py'',
        ''--cocotb-make-module='' @ test_name, ''-v''] (dec_str (nat seed)))) (\<lambda>code.
    gret (code = 0))"

text \<open>The runs in their order with their verdicts, the two numbers of the last line and the exit code.\<close>

definition seed_runs :: "(string list \<Rightarrow> string \<Rightarrow> 'g \<Rightarrow> int \<times> 'g) \<Rightarrow> 'g rng \<Rightarrow> int \<Rightarrow> ('g, (string \<times> int \<times> bool) list) gen" where
  "seed_runs run r seeds =
    gfor TESTS (\<lambda>test. gtimes (nat seeds)
      (gbind (randint r 0 (2 ^ 32 - 1)) (\<lambda>seed. gbind (run_test run test seed) (\<lambda>ok. gret [(test, seed, ok)]))))"

definition sim_main ::
    "(string list \<Rightarrow> string \<Rightarrow> 'g \<Rightarrow> int \<times> 'g) \<Rightarrow> 'g rng \<Rightarrow> int \<Rightarrow> ('g, (string \<times> int \<times> bool) list \<times> nat \<times> nat \<times> int) gen" where
  "sim_main run r seeds =
    gbind (seed_runs run r seeds) (\<lambda>runs.
    let total = length runs; passed = length (filter (\<lambda>(test, seed, ok). ok) runs) in
    gret (runs, passed, total, if passed = total then 0 else 1))"

lemma seed_runs_sat:
  assumes "rng_ok r"
  shows "gsat (\<lambda>runs. list_all (\<lambda>(test, seed, ok). test \<in> set TESTS \<and> 0 \<le> seed \<and> seed < 2 ^ 32) runs \<and> length runs = 7 * nat seeds)
    (seed_runs run r seeds)"
proof -
  let ?P = "\<lambda>(test, seed, ok). test \<in> set TESTS \<and> 0 \<le> seed \<and> seed < (2 :: int) ^ 32"
  have one: "gsat (\<lambda>runs. list_all ?P runs \<and> length runs = 1)
      (gbind (randint r 0 (2 ^ 32 - 1)) (\<lambda>seed. gbind (run_test run test seed) (\<lambda>ok. gret [(test, seed, ok)])))"
    if "test \<in> set TESTS" for test
    unfolding run_test_def
    by (intro gsat_bind [OF gsat_randint [OF assms]] gsat_bind [where P = "\<lambda>_. True"] gsat_lift gsat_ret) (use that in auto)
  have "gsat (\<lambda>runs. list_all ?P runs \<and> length runs = nat seeds * 1) (gtimes (nat seeds)
      (gbind (randint r 0 (2 ^ 32 - 1)) (\<lambda>seed. gbind (run_test run test seed) (\<lambda>ok. gret [(test, seed, ok)]))))"
    if "test \<in> set TESTS" for test
    by (rule gsat_times [OF one [OF that]])
  from gsat_for [of TESTS, OF this] show ?thesis
    unfolding seed_runs_def by (rule gsat_mono) (simp_all add: TESTS_def)
qed

text \<open>The exit code is 0 exactly when every run passed; there are as many runs as tests times seeds.\<close>

lemma sim_exit:
  assumes "rng_ok r"
  shows "gsat (\<lambda>(runs, passed, total, code). total = 7 * nat seeds \<and> (code = 0 \<longleftrightarrow> list_all (\<lambda>(test, seed, ok). ok) runs)) (sim_main run r seeds)"
proof -
  have f: "length (filter Q xs) = length xs \<longleftrightarrow> list_all Q xs" for Q and xs :: "(string \<times> int \<times> bool) list"
    by (metis filter_True length_filter_less less_irrefl list_all_iff)
  show ?thesis
    unfolding sim_main_def Let_def by (intro gsat_bind [OF seed_runs_sat [OF assms]] gsat_ret) (simp add: f [symmetric])
qed

text \<open>Without seeds nothing runs and the runner reports success.\<close>

lemma no_seeds_succeed: "seeds \<le> 0 \<Longrightarrow> fst (sim_main run r seeds g) = Inr ([], 0, 0, 0)"
  by (simp add: sim_main_def seed_runs_def TESTS_def gbind_def gret_def)

end
