(* ===== verification/BlockSummary.thy ===== *)
theory BlockSummary
  imports BpText
begin

text \<open>
  The table of the per-block synthesis reports, \<^verbatim>\<open>syn/scripts/summarize_blocks.py\<close>: what is read of a report and
  the lines that are printed. The files of the directory and their texts are arguments.
\<close>

section \<open>Reading a report\<close>

definition FF_CELLS :: "string list" where
  "FF_CELLS = [''FDRE'', ''FDCE'', ''FDSE'', ''FDPE'']"

text \<open>\<open>fullmatch\<close>: the first way to match that ends with the text.\<close>

definition re_fullmatch :: "rx \<Rightarrow> string \<Rightarrow> rpos option" where
  "re_fullmatch r s = mt r (\<lambda>t. if ahead t = [] then Some t else None) ([], s, \<lambda>_. None)"

definition rx_lutram :: rx where
  "rx_lutram = rx_seq [rx_lit ''RAM'', RGroup 1 (rx_some is_digit), RSet (\<lambda>c. c \<in> set ''SMX''), rx_many is_digit]"

definition rx_cell :: rx where
  "rx_cell = rx_seq [RSet is_space, RSet is_space, RSet is_space, rx_some is_space, RGroup 1 (rx_some non_space),
     rx_some is_space, RGroup 2 (rx_some is_digit), REnd]"

definition rx_lcs :: rx where
  "rx_lcs = rx_seq [rx_lit ''Estimated number of LCs:'', rx_some is_space, RGroup 1 (rx_some is_digit)]"

text \<open>The text behind the last of the places \<open>split\<close> cuts at, if there is one.\<close>

function last_section :: "string \<Rightarrow> string \<Rightarrow> string option" where
  "last_section sep s =
    (if sep = [] then None
     else case split_on sep s of
       None \<Rightarrow> None
     | Some (_, rest) \<Rightarrow>
         (let tail = drop (length sep) rest in
          if length tail < length s then (case last_section sep tail of None \<Rightarrow> Some tail | Some t \<Rightarrow> Some t) else None))"
  by pat_completeness auto
termination by (relation "measure (\<lambda>(sep, s). length s)") auto

declare last_section.simps [simp del]

text \<open>The number of block RAMs is a multiple of one half; the field counts the halves.\<close>

record blk =
  b_lc :: nat
  b_ff :: nat
  b_bram_halves :: nat
  b_dsp :: nat
  b_lutram :: nat

definition cell_line :: "string \<Rightarrow> (string \<times> nat) list \<Rightarrow> (string \<times> nat) list" where
  "cell_line line cells =
    (case re_match rx_cell line of None \<Rightarrow> cells | Some m \<Rightarrow> dict_set (mgroup m 1) (digits_val (mgroup m 2)) cells)"

definition tail_cells :: "string \<Rightarrow> (string \<times> nat) list" where
  "tail_cells tail = fold cell_line (py_splitlines tail) []"

definition sum_cells :: "(string \<Rightarrow> bool) \<Rightarrow> (string \<times> nat) list \<Rightarrow> nat" where
  "sum_cells P cells = sum_list (map snd (filter (\<lambda>(k, v). P k) cells))"

definition tail_stat :: "string \<Rightarrow> blk" where
  "tail_stat tail =
    (let cells = tail_cells tail in
     \<lparr>b_lc = (case re_search rx_lcs tail of None \<Rightarrow> 0 | Some m \<Rightarrow> digits_val (mgroup m 1)),
      b_ff = sum_cells (\<lambda>k. k \<in> set FF_CELLS) cells,
      b_bram_halves = 2 * dict_get 0 ''RAMB36E1'' cells + dict_get 0 ''RAMB18E1'' cells,
      b_dsp = dict_get 0 ''DSP48E1'' cells,
      b_lutram = sum_cells (\<lambda>k. re_fullmatch rx_lutram k \<noteq> None) cells\<rparr>)"

definition block_stat :: "string \<Rightarrow> blk option" where
  "block_stat txt = map_option tail_stat (last_section ''Number of cells:'' txt)"

section \<open>The table\<close>

text \<open>\<open>{:g}\<close> of a number of halves: at most six significant digits, ties to the even digit, no trailing zeros, an exponent from
  a million on.\<close>

definition exp_text :: "nat \<Rightarrow> string" where
  "exp_text e = ''e+'' @ (if e < 10 then ''0'' else []) @ dec_str e"

definition strip_zeros :: "string \<Rightarrow> string" where
  "strip_zeros s = rev (dropWhile (\<lambda>c. c = CHR ''0'') (rev s))"

definition div_even :: "nat \<Rightarrow> nat \<Rightarrow> nat" where
  "div_even a b =
    (let q = a div b; r = a mod b in if 2 * r > b \<or> 2 * r = b \<and> odd q then q + 1 else q)"

definition halves_g :: "nat \<Rightarrow> string" where
  "halves_g h =
    (let n = length (dec_str (h div 2)) in
     if n \<le> 5 then dec_str (h div 2) @ (if odd h then ''.5'' else [])
     else
       (let m = div_even h (2 * 10 ^ (n - 6)); (m, e) = (if m = 10 ^ 6 then (10 ^ 5, n) else (m, n - 1)) in
        if e < 6 then dec_str m
        else
          (let ds = dec_str m; frac = strip_zeros (List.tl ds) in
           hd ds # (if frac = [] then [] else CHR ''.'' # frac) @ exp_text e)))"

definition base_name :: "string \<Rightarrow> string" where
  "base_name f = take (length f - 5) f"

text \<open>The names with the suffix, as \<open>glob\<close> gives them, in the order of \<open>sorted\<close>; the rows sorted by the number of cells, the
  largest first.\<close>

definition stat_files :: "string list \<Rightarrow> string list" where
  "stat_files names = sort (filter (\<lambda>f. suffix_of ''.stat'' f \<and> \<not> prefix_of ''.'' f) names)"

definition summary_rows :: "(string \<Rightarrow> string) \<Rightarrow> string list \<Rightarrow> (string \<times> blk) list" where
  "summary_rows read_file names =
    sort_key (\<lambda>r. - int (b_lc (snd r)))
      (List.map_filter (\<lambda>f. map_option (\<lambda>b. (base_name f, b)) (block_stat (read_file f))) (stat_files names))"

definition row_line :: "string \<times> blk \<Rightarrow> string" where
  "row_line r =
    (case r of (name, b) \<Rightarrow> ''| '' @ name @ '' | '' @ fmt_int (b_lc b) @ '' | '' @ fmt_int (b_ff b) @ '' | '' @ halves_g (b_bram_halves b) @
       '' | '' @ dec_str (b_dsp b) @ '' | '' @ dec_str (b_lutram b) @ '' |'')"

definition summary :: "(string \<Rightarrow> string) \<Rightarrow> string list \<Rightarrow> string list" where
  "summary read_file names =
    [''| block | LUT-eq (LC) | FF | BRAM36 | DSP48 | LUTRAM cells |'', ''|---|---:|---:|---:|---:|---:|''] @
    map row_line (summary_rows read_file names) @
    [''| **xc7a35t budget** | **'' @ fmt_int 20800 @ ''** | **'' @ fmt_int 41600 @ ''** | **'' @ dec_str 50 @ ''** | **'' @ dec_str 90 @
     ''** | - |'']"

text \<open>The paths named on the error stream.\<close>

definition summary_warnings :: "(string \<Rightarrow> string) \<Rightarrow> string list \<Rightarrow> string list" where
  "summary_warnings read_file names = filter (\<lambda>f. block_stat (read_file f) = None) (stat_files names)"

section \<open>Reading what was printed\<close>

definition blanks :: "nat \<Rightarrow> string" where
  "blanks k = replicate k (CHR 0x20)"

definition cell_row :: "string \<Rightarrow> nat \<Rightarrow> nat \<Rightarrow> string" where
  "cell_row w pad n = blanks 5 @ w @ blanks (Suc pad) @ dec_str n"

lemma digits_no_space: "\<not> first_is non_space (blanks (Suc k) @ s)"
  by (simp add: blanks_def non_space_def)

lemma blank_facts: "list_all is_space (blanks k)" "blanks (Suc k) \<noteq> []"
  by (simp_all add: blanks_def pad_spaces)

lemma count_first: "\<not> first_is is_space (dec_str n)"
  using dec_str_first [of n "[]"] by simp

lemma cell_row_match:
  assumes w: "list_all non_space w" "w \<noteq> []"
  shows "\<exists>t. re_match rx_cell (cell_row w pad n) = Some t \<and> mgroup t 1 = w \<and> mgroup t 2 = dec_str n"
proof -
  let ?c = "[1 \<mapsto> w] :: nat \<Rightarrow> string option" and ?d = "dec_str n"
  let ?k2 = "mt (RGroup 2 (rx_some is_digit)) (mt REnd Some)"
  let ?k1 = "mt (rx_some is_space) ?k2"
  have g2: "\<exists>t. ?k2 (q, ?d, ?c) = Some t \<and> mgroup t 1 = w \<and> mgroup t 2 = ?d" for q
  proof -
    have "mt (rx_some is_digit) (\<lambda>t. mt REnd Some (behind t, ahead t, (caps t)(2 \<mapsto> consumed (q, ?d @ [], ?c) t))) (q, ?d @ [], ?c) =
        Some (rev ?d @ q, [], ?c(2 \<mapsto> ?d))"
      by (rule mt_some) (simp_all add: dec_str_digits consumed_def)
    then show ?thesis by (simp add: mgroup_def)
  qed
  have g1: "\<exists>t. ?k1 (q, blanks (Suc pad) @ ?d, ?c) = Some t \<and> mgroup t 1 = w \<and> mgroup t 2 = ?d" for q
  proof -
    obtain t where t: "?k2 (rev (blanks (Suc pad)) @ q, ?d, ?c) = Some t" "mgroup t 1 = w \<and> mgroup t 2 = ?d" using g2 by blast
    have "?k1 (q, blanks (Suc pad) @ ?d, ?c) = Some t"
      by (rule mt_some [where k = "?k2", OF blank_facts(1) [of "Suc pad"] blank_facts(2) [of pad] count_first [of n] t(1)])
    then show ?thesis using t(2) by blast
  qed
  have g0: "\<exists>t. mt (RGroup 1 (rx_some non_space)) ?k1 (q, w @ blanks (Suc pad) @ ?d, \<lambda>_. None) = Some t \<and> mgroup t 1 = w \<and> mgroup t 2 = ?d" for q
  proof -
    obtain t where t: "?k1 (rev w @ q, blanks (Suc pad) @ ?d, ?c) = Some t" "mgroup t 1 = w \<and> mgroup t 2 = ?d" using g1 by blast
    have "mt (rx_some non_space) (\<lambda>t. ?k1 (behind t, ahead t, (caps t)(1 \<mapsto> consumed (q, w @ blanks (Suc pad) @ ?d, \<lambda>_. None) t)))
        (q, w @ blanks (Suc pad) @ ?d, \<lambda>_. None) = Some t"
      by (rule mt_some [OF w digits_no_space]) (use t(1) in \<open>simp add: consumed_def\<close>)
    then show ?thesis using t(2) by simp
  qed
  obtain t where t: "mt (RGroup 1 (rx_some non_space)) ?k1 (rev (blanks 2) @ rev (blanks 3), w @ blanks (Suc pad) @ ?d, \<lambda>_. None) = Some t"
    "mgroup t 1 = w \<and> mgroup t 2 = ?d" using g0 by blast
  have "\<not> first_is is_space (w @ blanks (Suc pad) @ ?d)" using w by (cases w) (simp_all add: non_space_def)
  then have "mt (rx_some is_space) (mt (RGroup 1 (rx_some non_space)) ?k1) (rev (blanks 3), blanks 2 @ w @ blanks (Suc pad) @ ?d, \<lambda>_. None) = Some t"
    by (intro mt_some) (use t(1) in \<open>simp_all add: blanks_def pad_spaces\<close>)
  then have "re_match rx_cell (cell_row w pad n) = Some t"
    by (simp add: re_match_def rx_at_def rx_cell_def cell_row_def blanks_def eval_nat_numeral)
  then show ?thesis using t(2) by blast
qed

text \<open>Lines that are no cells: the number behind the heading, an empty line, the line of the logic cells.\<close>

lemma rx_cell_parts:
  assumes "rxm rx_cell ([], line, c) t"
  shows "\<exists>a b d s w n z. line = a # b # d # s @ w @ n @ z \<and> is_space a \<and> is_space b \<and> is_space d \<and> list_all is_space s \<and> s \<noteq> [] \<and>
    list_all non_space w \<and> w \<noteq> [] \<and> n \<noteq> [] \<and> is_space (hd n)"
proof -
  have sq: "rxm (RSeq a b) s t \<Longrightarrow> \<exists>u. rxm a s u \<and> rxm b u t" for a b s t
    by (erule rxm_seqE) blast
  obtain t1 t2 t3 t4 t5 t6 where s: "rxm (RSet is_space) ([], line, c) t1" "rxm (RSet is_space) t1 t2" "rxm (RSet is_space) t2 t3"
    "rxm (rx_some is_space) t3 t4" "rxm (RGroup 1 (rx_some non_space)) t4 t5" "rxm (rx_some is_space) t5 t6"
    using assms sq unfolding rx_cell_def rx_seq.simps by meson
  have "\<exists>a. is_space a \<and> ahead s = a # ahead t" if "rxm (RSet is_space) s t" for s t
    using that by (auto elim: rxm_setE)
  note one = this
  obtain a where a: "is_space a" "line = a # ahead t1" using one [OF s(1)] by auto
  obtain b where b: "is_space b" "ahead t1 = b # ahead t2" using one [OF s(2)] by auto
  obtain d where d: "is_space d" "ahead t2 = d # ahead t3" using one [OF s(3)] by auto
  note h = a b d
  obtain u where u: "list_all is_space u" "u \<noteq> []" "ahead t3 = u @ ahead t4" using rxm_some [OF s(4)] by blast
  obtain w where w: "list_all non_space w" "w \<noteq> []" "ahead t4 = w @ ahead t5" using rxm_grp [OF s(5)] rxm_some by metis
  obtain n where n: "list_all is_space n" "n \<noteq> []" "ahead t5 = n @ ahead t6" using rxm_some [OF s(6)] by blast
  have "line = a # b # d # u @ w @ n @ ahead t6" using h u(3) w(3) n(3) by simp
  then show ?thesis using h u(1,2) w(1,2) n(1,2) by (intro exI conjI) (assumption | cases n; simp)+
qed

lemma no_cell: "(\<And>t. \<not> rxm rx_cell ([], line, \<lambda>_. None) t) \<Longrightarrow> cell_line line cells = cells"
  using mt_sound [of rx_cell Some "([], line, \<lambda>_. None)"] unfolding cell_line_def re_match_def rx_at_def
  by (cases "mt rx_cell Some ([], line, \<lambda>_. None)") auto

lemma no_cell_count: "cell_line (blanks k @ dec_str n) cells = cells"
proof (rule no_cell, rule notI)
  fix t assume "rxm rx_cell ([], blanks k @ dec_str n, \<lambda>_. None) t"
  then obtain a b d s w m z where p: "blanks k @ dec_str n = a # b # d # s @ w @ m @ z" "is_space a" "is_space b" "is_space d"
    "list_all is_space s" "list_all non_space w" "w \<noteq> []" "m \<noteq> []" "is_space (hd m)" using rx_cell_parts by blast
  let ?u = "a # b # d # s"
  have u: "list_all is_space ?u" using p by simp
  have f: "\<not> first_is is_space (w @ m @ z)" using p(6,7) by (cases w) (simp_all add: non_space_def)
  have "dropWhile is_space (?u @ w @ m @ z) = w @ m @ z" by (rule span_unique(2) [OF u f])
  moreover have "dropWhile is_space (blanks k @ dec_str n) = dec_str n"
    by (rule span_unique(2)) (use dec_str_first [of n "[]"] pad_spaces in \<open>simp_all add: blanks_def\<close>)
  ultimately have "dec_str n = w @ m @ z" using p(1) by simp
  then have "hd m \<in> set (dec_str n)" using p(8) by (cases m) auto
  then show False using dec_str_chars [of n] p(9) by (auto simp: list_all_iff)
qed

lemma no_cell_blank: "cell_line [] cells = cells"
  by (rule no_cell) (use rx_cell_parts in blast)

definition lcs_head :: string where
  "lcs_head = ''Estimated number of LCs:''"

lemma no_cell_lcs: "cell_line (blanks 3 @ lcs_head @ s) cells = cells"
proof (rule no_cell, rule notI)
  fix t assume "rxm rx_cell ([], blanks 3 @ lcs_head @ s, \<lambda>_. None) t"
  then obtain a b d u v where "blanks 3 @ lcs_head @ s = a # b # d # u @ v" "list_all is_space u" "u \<noteq> []"
    using rx_cell_parts by blast
  then have "is_space (CHR ''E'')" by (cases u) (auto simp: blanks_def lcs_head_def eval_nat_numeral)
  then show False by (simp add: is_space_def char_code_def)
qed

definition tail_text :: "nat \<Rightarrow> (string \<times> nat \<times> nat) list \<Rightarrow> nat \<Rightarrow> string" where
  "tail_text cnt rows lcs =
    unlines ((blanks 6 @ dec_str cnt) # map (\<lambda>(w, pad, n). cell_row w pad n) rows @
      [[], blanks 3 @ lcs_head @ blanks 5 @ dec_str lcs])"

text \<open>The cells of the last section are the rows that were printed there.\<close>

lemma tail_cells_read:
  assumes "list_all (\<lambda>(w, pad, n). list_all non_space w \<and> w \<noteq> []) rows" "distinct (map fst rows)"
  shows "tail_cells (tail_text cnt rows lcs) = map (\<lambda>(w, pad, n). (w, n)) rows"
proof -
  have row: "cell_line (cell_row w pad n) cells = dict_set w n cells" if w: "list_all non_space w" "w \<noteq> []" for w pad n cells
    using cell_row_match [OF w, of pad n] by (auto simp: cell_line_def digits_val_dec)
  have rows: "fold cell_line (map (\<lambda>(w, pad, n). cell_row w pad n) rs) cells = cells @ map (\<lambda>(w, pad, n). (w, n)) rs"
    if "list_all (\<lambda>(w, pad, n). list_all non_space w \<and> w \<noteq> []) rs" "distinct (map fst rs)" "fst ` set rs \<inter> fst ` set cells = {}" for rs cells
    using that
  proof (induction rs arbitrary: cells)
    case (Cons r rs)
    obtain w pad n where r: "r = (w, pad, n)" by (metis prod_cases3)
    have "cell_line (cell_row w pad n) cells = cells @ [(w, n)]" using Cons.prems r row by (auto simp: dict_set_new)
    then show ?case using Cons.IH [of "cells @ [(w, n)]"] Cons.prems r by auto
  qed simp
  have b: "plain_line (blanks k)" for k by (induction k) (simp_all add: blanks_def plain_line_def is_linebreak_def char_code_def)
  have d: "plain_line (dec_str n)" for n
    unfolding plain_line_def using dec_str_chars [of n] by (rule list.pred_mono_strong) simp
  have "plain_line lcs_head" by code_simp
  then have e: "plain_line (blanks 3 @ lcs_head @ blanks 5 @ dec_str lcs)" by (simp only: plain_append b d simp_thms)
  have "list_all plain_line (map (\<lambda>(w, pad, n). cell_row w pad n) rows)"
    using assms(1) by (auto simp: list_all_iff cell_row_def plain_append b d word_plain)
  then have "py_splitlines (tail_text cnt rows lcs) = (blanks 6 @ dec_str cnt) # map (\<lambda>(w, pad, n). cell_row w pad n) rows @
      [[], blanks 3 @ lcs_head @ blanks 5 @ dec_str lcs]"
    unfolding tail_text_def using b [of 6] d [of cnt] e
    by (subst splitlines_unlines [of _ "[]", simplified]) (simp_all add: plain_append py_splitlines_def plain_line_def [of "[]"] del: append_Cons)
  then show ?thesis
    using rows [OF assms, of "[]"] by (simp add: tail_cells_def no_cell_count no_cell_blank no_cell_lcs)
qed

text \<open>With them the flip-flops, block RAMs and multipliers of the report; the dual-port primitives of distributed RAM are not counted.\<close>

lemma block_counts_read:
  assumes "list_all (\<lambda>(w, pad, n). list_all non_space w \<and> w \<noteq> []) rows" "distinct (map fst rows)"
  shows "b_ff (tail_stat (tail_text cnt rows lcs)) = (\<Sum>(w, pad, n)\<leftarrow>rows. if w \<in> set FF_CELLS then n else 0)"
proof -
  have "sum_list (map snd (filter (\<lambda>(k, v). P k) (map (\<lambda>(w, pad, n). (w, n)) rs))) = (\<Sum>(w, pad, n)\<leftarrow>rs. if P w then n else 0)"
    for P and rs :: "(string \<times> nat \<times> nat) list" by (induction rs) auto
  then show ?thesis by (simp add: tail_stat_def Let_def tail_cells_read [OF assms] sum_cells_def)
qed

lemma lutram_missed:
  "map (\<lambda>k. re_fullmatch rx_lutram k \<noteq> None) [''RAM32M'', ''RAM64M'', ''RAM32X1D'', ''RAM64X1D'', ''RAM128X1S'', ''RAM256X1S''] =
    [True, True, False, False, False, False]"
  by code_simp

lemma rows_by_size: "sorted (map (\<lambda>r. - int (b_lc (snd r))) (summary_rows read_file names))"
  by (simp add: summary_rows_def)

end
