(* ===== verification/SynthCharts.thy ===== *)
theory SynthCharts
  imports BlockSummary ComputeRunnerProps Tbin
begin

text \<open>
  The chart of the synthesis statistics, \<^verbatim>\<open>tools/gen_synth_charts.py\<close>: the reader of the report, the table of the most
  frequent gates as an SVG text and what \<open>main\<close> writes. Percentages are doubles, printed with one digit.
\<close>

section \<open>Reading the statistics\<close>

definition chart_line :: "string \<Rightarrow> bool \<times> (string \<times> int) list \<Rightarrow> py_error + bool \<times> (string \<times> int) list" where
  "chart_line line st =
    (let in_stats = (fst st \<or> infix_of ''Number of wires:'' line) in
     if in_stats \<and> infix_of ''$_'' line then
       (case py_split (py_strip line) of
          gate # num # _ \<Rightarrow> ebind (read_dec num) (\<lambda>n. Inr (in_stats, dict_set gate n (snd st)))
        | _ \<Rightarrow> Inr (in_stats, snd st))
     else Inr (in_stats, snd st))"

definition parse_stats :: "string \<Rightarrow> py_error + (string \<times> int) list" where
  "parse_stats txt = ebind (efold chart_line (file_lines [] txt) (False, [])) (\<lambda>st. Inr (snd st))"

section \<open>Percentages\<close>

text \<open>A quotient of two numbers that is too large for a double raises.\<close>

definition py_quotient :: "int \<Rightarrow> int \<Rightarrow> py_error + int" where
  "py_quotient a b =
    (if b = 0 then Inl ZeroDivisionError
     else let q = py_truediv a b in if fp_finite FP64 q then Inr q else Inl OverflowError)"

text \<open>\<open>{:.1f}\<close> rounds the exact value to the nearest tenth, ties to the even one.\<close>

definition fixed1 :: "int \<Rightarrow> string" where
  "fixed1 f =
    (case decode f FP64 of (k, s, m, c) \<Rightarrow>
       if is_nan_kind k then ''nan''
       else (if s \<noteq> 0 then ''-'' else []) @
         (if k = KInf then ''inf''
          else let t = nat (rshift_rne (10 * m) (- c)) in dec_str (t div 10) @ ''.'' @ dec_str (t mod 10)))"

definition percent :: "int \<Rightarrow> int \<Rightarrow> py_error + string" where
  "percent n tot = ebind (py_quotient n tot) (\<lambda>q. Inr (fixed1 (py_fmul q (py_float 100 0))))"

definition comma_int :: "int \<Rightarrow> string" where
  "comma_int n = (if n < 0 then ''-'' else []) @ fmt_int (nat \<bar>n\<bar>)"

section \<open>The table\<close>

definition COLORS :: "string list" where
  "COLORS = [''#10B981'', ''#3B82F6'', ''#F59E0B'', ''#EF4444'', ''#8B5CF6'', ''#EC4899'', ''#6366F1'']"

definition Q :: string where
  "Q = [CHR 0x22]"

definition svg_row :: "int \<Rightarrow> nat \<Rightarrow> string \<times> int \<Rightarrow> py_error + string" where
  "svg_row tot i = (\<lambda>(gate, n).
    ebind (percent n tot) (\<lambda>pct.
      let y = 80 + 25 * i in
      Inr (''<rect x='' @ Q @ ''20'' @ Q @ '' y='' @ Q @ dec_str (y - 12) @ Q @ '' width='' @ Q @ ''16'' @ Q @ '' height='' @ Q @ ''16'' @ Q @
        '' fill='' @ Q @ COLORS ! (i mod length COLORS) @ Q @ ''/>'' @ NL @
        ''<text x='' @ Q @ ''45'' @ Q @ '' y='' @ Q @ dec_str y @ Q @ '' font-family='' @ Q @ ''monospace'' @ Q @ '' font-size='' @ Q @ ''14'' @ Q @
        '' fill='' @ Q @ ''#D1D5DB'' @ Q @ ''>'' @ gate @ '': '' @ comma_int n @ '' ('' @ pct @ ''%)</text>'' @ NL)))"

definition svg_head :: string where
  "svg_head =
    ''<svg xmlns='' @ Q @ ''http://www.w3.org/2000/svg'' @ Q @ '' viewBox='' @ Q @ ''0 0 400 400'' @ Q @ ''>'' @ NL @
    ''<rect width='' @ Q @ ''400'' @ Q @ '' height='' @ Q @ ''400'' @ Q @ '' fill='' @ Q @ ''#1F2937'' @ Q @ '' rx='' @ Q @ ''8'' @ Q @ ''/>'' @ NL @
    ''<text x='' @ Q @ ''20'' @ Q @ '' y='' @ Q @ ''40'' @ Q @ '' font-family='' @ Q @ ''sans-serif'' @ Q @ '' font-size='' @ Q @ ''20'' @ Q @
    '' font-weight='' @ Q @ ''bold'' @ Q @ '' fill='' @ Q @ ''#F9FAFB'' @ Q @ ''>Gate Distribution</text>'' @ NL"

text \<open>The rows stop after the ninth; the sorting keeps the order of equal gates.\<close>

definition shown :: "(string \<times> int) list \<Rightarrow> (string \<times> int) list" where
  "shown gates = take 9 (sort_key (\<lambda>x. - snd x) gates)"

text \<open>The file that is written; none when all gates add up to zero.\<close>

definition generate_svg_pie :: "(string \<times> int) list \<Rightarrow> py_error + string option" where
  "generate_svg_pie gates =
    (let tot = sum_list (map snd gates) in
     if tot = 0 then Inr None
     else ebind (efold (\<lambda>(i, g) svg. ebind (svg_row tot i g) (\<lambda>r. Inr (svg @ r))) (enumerate 0 (shown gates)) svg_head)
       (\<lambda>svg. Inr (Some (svg @ ''</svg>''))))"

text \<open>The report, if there is one, gives the exit code and the file.\<close>

definition charts_main :: "string option \<Rightarrow> py_error + nat \<times> string option" where
  "charts_main report =
    (case report of
       None \<Rightarrow> Inr (1, None)
     | Some txt \<Rightarrow> ebind (parse_stats txt) (\<lambda>gates. ebind (generate_svg_pie gates) (\<lambda>svg. Inr (0, svg))))"

section \<open>What is read and shown\<close>

lemma no_heading_lines:
  assumes "list_all (\<lambda>l. \<not> infix_of ''Number of wires:'' l) ls"
  shows "efold chart_line ls (False, c) = Inr (False, c)"
  using assms by (induction ls) (simp_all add: chart_line_def Let_def)

text \<open>A report without the heading is read as one with no gates: no file is written, and the exit code is 0.\<close>

lemma no_heading_no_chart:
  assumes "list_all (\<lambda>l. \<not> infix_of ''Number of wires:'' l) (file_lines [] txt)"
  shows "charts_main (Some txt) = Inr (0, None)"
  using no_heading_lines [OF assms] by (simp add: charts_main_def parse_stats_def generate_svg_pie_def)

text \<open>The statistics in the repository print the number before the gate and have no such heading.\<close>

definition tensor_stats :: "string list" where
  "tensor_stats = [''      825 wires'', ''    18454 wire bits'', ''        8 ports'', ''       16 cells'', ''       16   $_DFFE_PN0P_'']"

lemma committed_format:
  "charts_main (Some (unlines tensor_stats)) = Inr (0, None)"
  "charts_main (Some (unlines (''   Number of wires:   825'' # tensor_stats))) = Inl ValueError"
  by code_simp+

text \<open>A report with the gate before the number is read back: behind the heading every line adds its gate.\<close>

definition gate_row :: "nat \<Rightarrow> nat \<Rightarrow> string \<times> nat \<Rightarrow> string" where
  "gate_row k j = (\<lambda>(g, n). blanks k @ g @ blanks (Suc j) @ dec_str n)"

lemma split_blanks: "py_split (blanks k @ s) = py_split s"
proof -
  have "py_lstrip (blanks k @ s) = py_lstrip s"
    using blank_facts(1) [of k] by (simp add: py_lstrip_def dropWhile_append2 list_all_iff)
  then show ?thesis unfolding py_split.simps [of "blanks k @ s"] py_split.simps [of s] by simp
qed

lemma strip_row:
  assumes "list_all non_space g" "g \<noteq> []"
  shows "py_strip (gate_row k j (g, n)) = g @ blanks (Suc j) @ dec_str n"
proof -
  have "\<not> is_space (hd g)" "g = hd g # List.tl g" using assms by (cases g; simp add: non_space_def)+
  then have "py_lstrip (gate_row k j (g, n)) = g @ blanks (Suc j) @ dec_str n"
    using blank_facts(1) [of k] by (cases g) (simp_all add: py_lstrip_def gate_row_def dropWhile_append2 list_all_iff)
  moreover obtain ds d where "dec_str n = ds @ [d]" "\<not> is_space d"
    using dec_plain(1) [of n] by (cases "dec_str n" rule: rev_cases) auto
  ultimately show ?thesis by (simp add: py_strip_def py_rstrip_def)
qed

lemma gate_row_line:
  assumes g: "list_all non_space g" "infix_of ''$_'' (gate_row k j (g, n))" "g \<noteq> []"
  shows "chart_line (gate_row k j (g, n)) (True, c) = Inr (True, dict_set g (int n) c)"
proof -
  have "py_split (dec_str n) = [dec_str n]"
    using split_word(2) [of "dec_str n"] dec_plain(1) by simp
  moreover have "py_split (g @ blanks (Suc j) @ dec_str n) = g # py_split (blanks j @ dec_str n)"
    using split_word(1) [of g] g(1,3) by (simp add: blanks_def non_space_def list_all_iff)
  ultimately show ?thesis
    using g by (simp add: chart_line_def Let_def strip_row split_blanks read_dec_dec_str)
qed

lemma shown_most_frequent:
  assumes "a \<in> set (shown gates)" "b \<in> set (drop 9 (sort_key (\<lambda>x. - snd x) gates))"
  shows "snd b \<le> snd a"
proof -
  have "sorted (map (\<lambda>x. - snd x) (take 9 (sort_key (\<lambda>x. - snd x) gates) @ drop 9 (sort_key (\<lambda>x. - snd x) gates)))"
    by (simp only: append_take_drop_id) simp
  then show ?thesis using assms unfolding map_append sorted_append shown_def by force
qed


lemma percent_texts:
  "map (\<lambda>(a, b). percent a b) [(1, 3), (1, 80), (3, 80), (1, 1), (206, 615), (0, - 5), (7, 0)] =
    [Inr ''33.3'', Inr ''1.2'', Inr ''3.8'', Inr ''100.0'', Inr ''33.5'', Inr ''-0.0'', Inl ZeroDivisionError]"
  by code_simp

end
