(* ===== verification/Tools.thy ===== *)
theory Tools
  imports BpText PyText
begin

text \<open>
  The small scripts: the licence header (\<^verbatim>\<open>bin/add_header.py\<close>), the summary of a simulation
  (\<^verbatim>\<open>sim/benchmark.py\<close>), the pictures of a frame buffer (\<^verbatim>\<open>bin/render_fb.py\<close>, \<^verbatim>\<open>bin/render_image.py\<close>) as the
  pixels that are set, and the values of signals over time (\<^verbatim>\<open>bin/parse_vcd.py\<close>, \<^verbatim>\<open>bin/parse_vcd_transitions.py\<close>,
  \<^verbatim>\<open>bin/parse_mc_state.py\<close>, \<^verbatim>\<open>bin/find_signals.py\<close>). The image and the waveform reader are other packages: a
  waveform is the list of its signals with the changes of each.
\<close>

section \<open>The licence header\<close>

definition HEADER :: string where
  "HEADER =
    ''// ============================================================================'' @ NL @
    ''// Copyright (c) 2026 Adhiraj'' @ NL @
    ''// '' @ NL @
    ''// This file is part of the Titan X5-B GPU project.'' @ NL @
    ''// '' @ NL @
    ''// Licensed under CERN-OHL-S-2.0.'' @ NL @
    ''// See LICENSE for details.'' @ NL @
    ''// ============================================================================'' @ NL"

definition process_file :: "string \<times> string \<Rightarrow> string \<times> string" where
  "process_file = (\<lambda>(file, content).
    if (suffix_of ''.v'' file \<or> suffix_of ''.sv'' file) \<and> \<not> prefix_of ''// ================================'' content
    then (file, HEADER @ content) else (file, content))"

definition process_dir :: "(string \<times> string) list \<Rightarrow> (string \<times> string) list" where
  "process_dir files = map process_file files"

text \<open>A second run changes nothing.\<close>

lemma header_marked: "prefix_of ''// ================================'' (HEADER @ content)"
  by (simp add: HEADER_def)

lemma header_once: "process_dir (process_dir files) = process_dir files"
  by (simp add: process_dir_def process_file_def case_prod_beta header_marked)

section \<open>The summary of a simulation\<close>

definition rx_rendered :: rx where
  "rx_rendered = rx_seq [rx_lit ''Rendered '', RGroup 1 (rx_some is_digit), rx_lit '' pixels'']"

definition parse_sim_log :: "string \<Rightarrow> string list" where
  "parse_sim_log content =
    (let pixels_rendered = (case re_search rx_rendered content of None \<Rightarrow> 0 | Some m \<Rightarrow> digits_val (mgroup m 1)) in
     [''Titan X5-B GPU Simulation Benchmark Results'', ''=========================================='',
      ''Pixels Rendered: '' @ dec_str pixels_rendered,
      if pixels_rendered > 0 then ''Status: GENUINE SILICON (Not a stub!)'' else ''Status: FAILED''])"

definition benchmark_main :: "(string \<Rightarrow> string option) \<Rightarrow> string list \<Rightarrow> string list" where
  "benchmark_main read_file argv =
    (let log_file = (if length argv > 1 then argv ! 1 else ''reports/test_runner.log'') in
     case read_file log_file of
       None \<Rightarrow> [''Error: '' @ log_file @ '' not found. Run the test suite first.'']
     | Some content \<Rightarrow> parse_sim_log content)"

section \<open>Pictures of a frame buffer\<close>

type_synonym rgba = "int \<times> int \<times> int \<times> int"

definition int16 :: "string \<Rightarrow> py_error + int" where
  "int16 s = read_hex (py_strip s)"

definition fb_coords :: "(nat \<times> nat) list" where
  "fb_coords = concat (map (\<lambda>y. map (\<lambda>x. (x, y)) [0..<64]) [0..<64])"

text \<open>\<open>render_fb.py\<close>: the lines that are not empty, and the pixels they set; a line that is no number is skipped.\<close>

definition fb_lines :: "string \<Rightarrow> string list" where
  "fb_lines txt = filter (\<lambda>l. l \<noteq> []) (map py_strip (file_lines [] txt))"

definition fb_lit :: "string list \<Rightarrow> nat \<Rightarrow> bool" where
  "fb_lit ls i \<longleftrightarrow> i < length ls \<and> (case int16 (ls ! i) of Inl _ \<Rightarrow> False | Inr v \<Rightarrow> v \<noteq> 0)"

definition render_fb :: "string \<Rightarrow> (nat \<times> nat) list \<times> nat" where
  "render_fb txt =
    (let ls = fb_lines txt; lit = filter (\<lambda>(x, y). fb_lit ls (y * 64 + x)) fb_coords in (lit, length lit))"

text \<open>\<open>render_image.py\<close>: every line is a pixel, and a line that is no number raises.\<close>

definition hex_to_rgba :: "string \<Rightarrow> py_error + rgba" where
  "hex_to_rgba s =
    (if length s \<noteq> 8 then Inr (0, 0, 0, 255)
     else
       ebind (int16 (drop 6 s)) (\<lambda>r. ebind (int16 (take 2 (drop 4 s))) (\<lambda>g.
       ebind (int16 (take 2 (drop 2 s))) (\<lambda>b. ebind (int16 (take 2 s)) (\<lambda>a. Inr (r, g, b, a))))))"

definition render_image :: "string \<Rightarrow> py_error + ((nat \<times> nat) \<times> rgba) list" where
  "render_image txt =
    (let ls = file_lines [] txt in
     emap (\<lambda>(x, y). ebind (hex_to_rgba (py_strip (ls ! (y * 64 + x)))) (\<lambda>p. Inr ((x, y), p)))
       (filter (\<lambda>(x, y). y * 64 + x < length ls) fb_coords))"

lemma fb_coords_set: "(x, y) \<in> set fb_coords \<longleftrightarrow> x < 64 \<and> y < 64"
  by (force simp: fb_coords_def)

text \<open>The number that is reported is the number of lines with a number other than zero among the first 4096.\<close>

lemma fb_coords_index: "map (\<lambda>(x, y). y * 64 + x) fb_coords = [0..<64 * 64]"
proof -
  have "concat (map (\<lambda>y. map (\<lambda>x. y * 64 + x) [0..<64]) [0..<n]) = [0..<n * 64]" for n :: nat
  proof (induction n)
    case (Suc n)
    have "map (\<lambda>x. n * 64 + x) [0..<64] = [n * 64..<n * 64 + 64]"
      using map_add_upt [of "n * 64" 64] by (simp add: add.commute del: upt.simps upt_rec_numeral)
    then show ?case using Suc upt_add_eq_append [of 0 "n * 64" 64]
      by (simp add: add.commute [of 64] upt_Suc_append del: upt.simps(2) upt_rec_numeral)
  qed simp
  then show ?thesis by (simp only: fb_coords_def map_concat map_map comp_def case_prod_conv)
qed

lemma render_fb_count: "snd (render_fb txt) = card {i. i < 4096 \<and> fb_lit (fb_lines txt) i}"
proof -
  let ?P = "fb_lit (fb_lines txt)"
  have "snd (render_fb txt) = length (filter ?P (map (\<lambda>(x, y). y * 64 + x) fb_coords))"
    by (simp add: render_fb_def Let_def filter_map comp_def case_prod_unfold del: case_prod_conv)
  also have "\<dots> = card (set (filter ?P [0..<64 * 64]))"
    unfolding fb_coords_index by (rule distinct_card [symmetric]) (rule distinct_filter, rule distinct_upt)
  also have "set (filter ?P [0..<64 * 64]) = {i. i < 4096 \<and> ?P i}" by auto
  finally show ?thesis .
qed

text \<open>A pixel printed as alpha, blue, green, red is read back.\<close>

lemma strip_hex: "0 \<le> v \<Longrightarrow> py_strip (hex_str n v) = hex_str n v"
proof -
  assume "0 \<le> v"
  have "\<not> is_space c" if p: "plain_hex c" for c
  proof -
    obtain d where "c = hex_digit d" "0 \<le> d" "d < 16" using p unfolding plain_hex_def by blast
    moreover from this have "d \<in> set [0, 1, 2, 3, 4, 5, 6, 7, 8, 9, 10, 11, 12, 13, 14, 15]"
      unfolding list.set insert_iff empty_iff by arith
    ultimately show ?thesis by (auto simp: hex_digit_def is_space_def char_code_def)
  qed
  then have "list_all (\<lambda>c. \<not> is_space c) (hex_str n v)"
    using hex_str_plain [OF \<open>0 \<le> v\<close>, of n] by (auto simp: list_all_iff)
  then show ?thesis
    by (rule strip_plain)
qed

lemma rgba_read:
  assumes "0 \<le> r" "r < 256" "0 \<le> g" "g < 256" "0 \<le> b" "b < 256" "0 \<le> a" "a < 256"
  shows "hex_to_rgba (hex_str 2 a @ hex_str 2 b @ hex_str 2 g @ hex_str 2 r) = Inr (r, g, b, a)"
proof -
  have "length (hex_str 2 v) = 2" if "0 \<le> v" "v < 256" for v using hex_str_length [of v 2] that by simp
  then show ?thesis
    using assms by (simp add: hex_to_rgba_def int16_def strip_hex read_hex_str)
qed

text \<open>An empty line moves the pixels of one script and not those of the other.\<close>

lemma blank_line_pixels:
  "fb_lines (unlines [''00000000'', [], ''FFFFFFFF'']) = [''00000000'', ''FFFFFFFF'']"
  "map (fb_lit [''00000000'', ''FFFFFFFF'']) [0, 1, 2] = [False, True, False]"
  "map (\<lambda>l. hex_to_rgba (py_strip l)) (file_lines [] (unlines [''00000000'', [], ''FFFFFFFF''])) =
    [Inr (0, 0, 0, 0), Inr (0, 0, 0, 255), Inr (255, 255, 255, 255)]"
  by code_simp+

section \<open>Values of signals\<close>

fun val_at :: "(int \<times> string) list \<Rightarrow> int \<Rightarrow> string option \<Rightarrow> string option" where
  "val_at [] t val = val"
| "val_at ((time, v) # tv) t val = (if time \<le> t then val_at tv t (Some v) else val)"

definition get_val_at_time :: "(string \<Rightarrow> (int \<times> string) list) \<Rightarrow> string option \<Rightarrow> int \<Rightarrow> string option" where
  "get_val_at_time vcd sig t = (case sig of None \<Rightarrow> None | Some s \<Rightarrow> if s = [] then None else val_at (vcd s) t None)"

text \<open>The last signal whose name contains a text.\<close>

definition signal_with :: "string \<Rightarrow> string list \<Rightarrow> string option" where
  "signal_with t signals = fold (\<lambda>s r. if infix_of t s then Some s else r) signals None"

definition show_val :: "string option \<Rightarrow> string" where
  "show_val v = (case v of None \<Rightarrow> ''None'' | Some s \<Rightarrow> s)"

definition parse_vcd :: "string list \<Rightarrow> (string \<Rightarrow> (int \<times> string) list) \<Rightarrow> string list" where
  "parse_vcd signals vcd =
    (let tmu0_state = signal_with ''dut.dbg_tmu_state'' signals; rop0_state = signal_with ''dut.dbg_rop_state'' signals;
         mem_req = signal_with ''dut.rop_mem_req'' signals; mem_gnt = signal_with ''dut.mc_req_ready'' signals in
     [''TMU state sig: '' @ show_val tmu0_state, ''ROP state sig: '' @ show_val rop0_state] @
     map (\<lambda>t.
         ''Time '' @ dec_str t @ '': TMU='' @ show_val (get_val_at_time vcd tmu0_state (int t)) @
         '' ROP='' @ show_val (get_val_at_time vcd rop0_state (int t)) @
         '' req='' @ show_val (get_val_at_time vcd mem_req (int t)) @ '' gnt='' @ show_val (get_val_at_time vcd mem_gnt (int t)))
       (map (\<lambda>k. 300000 + 10000 * k) [0..<8]))"

text \<open>One time and five signals of fixed names, which the waveform has to hold.\<close>

definition parse_vcd_transitions :: "(string \<Rightarrow> (int \<times> string) list) \<Rightarrow> string list" where
  "parse_vcd_transitions vcd =
    (let at_time = (\<lambda>sig. show_val (val_at (vcd sig) 310000 None)) in
     [''Time 310000:'',
      ''ROP state: '' @ at_time ''tb_titan_x5_gpu_top.dut.rop_gen[0].genblk1.u_rop.state[3:0]'',
      ''cfg_dcc: '' @ at_time ''tb_titan_x5_gpu_top.dut.rop_gen[0].genblk1.u_rop.cfg_dcc_en'',
      ''dcc_gnt: '' @ at_time ''tb_titan_x5_gpu_top.dut.rop_gen[0].genblk1.u_rop.dcc_gnt'',
      ''mem_req: '' @ at_time ''tb_titan_x5_gpu_top.dut.rop_mem_req'',
      ''mem_gnt: '' @ at_time ''tb_titan_x5_gpu_top.dut.mc_req_ready''])"

text \<open>The changes of the state of the memory controller that are listed.\<close>

definition mc_transitions :: "(int \<times> string) list \<Rightarrow> (int \<times> string) list" where
  "mc_transitions tv = filter (\<lambda>(t, v). 250000 \<le> t \<and> t \<le> 320000) tv"

definition matching_signals :: "string list \<Rightarrow> string list" where
  "matching_signals signals =
    concat (map (\<lambda>s.
      (if infix_of ''dut'' s \<and> infix_of ''state'' s \<and> infix_of ''rop'' s then [s] else []) @
      (if infix_of ''cfg_dcc'' s then [s] else []) @ (if infix_of ''dcc_gnt'' s then [s] else [])) signals)"

text \<open>With the changes in order of time, the value at a time is that of the last change up to it.\<close>

lemma val_at_last:
  assumes "sorted (map fst tv)"
  shows "val_at tv t val =
    (case filter (\<lambda>(time, v). time \<le> t) tv of [] \<Rightarrow> val | cs \<Rightarrow> Some (snd (last cs)))"
  using assms
proof (induction tv arbitrary: val)
  case (Cons c tv)
  obtain time v where c: "c = (time, v)" by (cases c)
  show ?case
  proof (cases "time \<le> t")
    case True
    then show ?thesis using Cons c by (cases "filter (\<lambda>(time, v). time \<le> t) tv") auto
  next
    case False
    then have "filter (\<lambda>(time, v). time \<le> t) tv = []" using Cons.prems c by (auto simp: filter_empty_conv)
    then show ?thesis using False c by simp
  qed
qed simp

lemma signal_with_last: "signal_with t signals = (if filter (infix_of t) signals = [] then None else Some (last (filter (infix_of t) signals)))"
  unfolding signal_with_def by (induction signals rule: rev_induct) auto

end
