(* ===== verification/Spec2Isabelle.thy ===== *)
theory Spec2Isabelle
  imports Isa Assembler FpOps CompilerResults TensorProps TensorRefProps RtProps RegressionProps TbinProps CoverageProps GenVectorsProps ComputeRunnerProps BpProps RtlDeps SelfTestProps RtFloat ScratchGen SimRegression BlockSummary SynthCharts Tools
begin

text \<open>
  A verification library for the Python software of the Titan X6 GPU repository: the compute compiler
  \<^verbatim>\<open>compiler/titan_compiler.py\<close>, the golden models the hardware is compared with
  (\<^verbatim>\<open>tb/uvm/fp_ref.py\<close>, \<^verbatim>\<open>tb/uvm/tensor_ref.py\<close>, \<^verbatim>\<open>tb/uvm/rt_ref.py\<close>), the stimulus generator
  \<^verbatim>\<open>tb/vectors/gen_vectors.py\<close>, the coverage layer \<^verbatim>\<open>tb/uvm/coverage_util.py\<close>, the host side of the
  compute bench \<^verbatim>\<open>tb/compute_runner.py\<close>, the regression runner \<^verbatim>\<open>tb/run_regression.py\<close> and the
  generator of the chip blueprint \<^verbatim>\<open>tools/gen_blueprint.py\<close>.

  \<^bold>\<open>How the parts interact.\<close> A kernel, a restricted Python function, is parsed into the node classes the
  compiler tests for (\<open>KernelAst\<close>). The scalar backend lowers it statement by statement
  (\<open>ScalarCodegen\<close>) onto the assembler (\<open>Assembler\<close>), which records instruction words of the encoders
  in \<open>Isa\<close> and patches branches at the end; the tensor backend (\<open>TensorBackend\<close>) matches the matrix
  multiplication loop nest and emits a tiled program of \<open>WMMA\<close> instructions. The command line
  (\<open>Tbin\<close>) chooses the backend and writes the words to a container. The reference simulator
  (\<open>Simulator\<close>) runs the words on a byte buffer; its floating-point arithmetic is that of Python's
  doubles (\<open>PyFloat\<close>), which are patterns of the format \<open>FpFormat 11 52\<close> of the floating-point
  reference model (\<open>FpRef\<close>). The tensor model (\<open>TensorRef\<close>) and the ray tracing model (\<open>RtRef\<close>) stand
  for themselves, they are what the simulations of the hardware are compared with. The stimulus
  generator (\<open>GenVectors\<close>) writes the operands of those simulations, the coverage layer
  (\<open>CoverageUtil\<close>) classifies what they did.

  \<^bold>\<open>Conventions.\<close> Python's integers are \<open>int\<close>, its masks and shifts the bit operations of HOL, its
  exceptions the constructors of \<open>py_error\<close> on the left of a sum. An object with mutable fields is a
  record that is passed through and returned (\<open>assembler\<close>, \<open>cg\<close>, \<open>sim\<close>, \<open>bvh_node\<close>); a dictionary is a
  map or an association list in insertion order; a file is the list of bytes it holds. Messages of
  exceptions keep their text without line numbers and without the dump of an unsupported expression. What may fail
  outside the program, such as opening or writing a file, is an argument that may return an exception.

  \<^bold>\<open>Theories and sources.\<close>
  \<^item> \<open>Prelude\<close>: \<open>py_error\<close>, the bind \<open>ebind\<close> and map \<open>emap\<close> of results, bit lemmas (\<open>mask_simps\<close>), and
    the locale \<open>codec\<close> of an encoder with its decoder, interpreted by the instruction words
    (\<open>isa\<close>), the BVH node words (\<open>node_word\<close>) and the little-endian words of a container (\<open>le32\<close>).
  \<^item> \<open>Isa\<close>: \<open>OPS\<close>, \<open>enc_r\<close>, \<open>enc_i\<close>, \<open>disassemble\<close>. \<open>Assembler\<close>: the class of the same name.
  \<^item> \<open>KernelAst\<close>, \<open>ScalarCodegen\<close>: \<open>parse_kernel\<close>, \<open>collect_array_params\<close> and the class
    \<open>ScalarCodegen\<close>. \<open>KernelSem\<close> is the specification, the meaning of a kernel over 32-bit words and a
    shared byte memory. \<open>CodegenExpr\<close>, \<open>CodegenStmt\<close>, \<open>CodegenCorrect\<close>, \<open>CompilerProps\<close>,
    \<open>CompilerErrors\<close>: the simulation proof, the register invariant \<open>cg_ok\<close>, the structure of emitted
    code and the exceptions. \<open>CompilerResults\<close>: the properties.
  \<^item> \<open>Simulator\<close>, \<open>SimSteps\<close>: \<open>simulate\<close> as a loop of \<open>sim_step\<close>; each instruction as an operation on
    machine words and runs of code segments.
  \<^item> \<open>TensorBackend\<close>: \<open>match_matmul\<close> and \<open>compile_tensor\<close>; \<open>TensorCode\<close>, \<open>TensorRun\<close>: the emitted
    words and their run as a tiled loop nest; \<open>TensorSpec\<close>: that nest as a matrix product, over the
    locale \<open>word_memory\<close>, interpreted by \<open>rd32\<close> and \<open>wr32\<close>; \<open>TensorProps\<close>: the properties.
  \<^item> \<open>Tbin\<close>, \<open>TbinProps\<close>: \<open>write_tbin\<close>, \<open>dump_listing\<close>, \<open>float_to_fp8\<close>, \<open>main\<close>.
  \<^item> \<open>MatmulRun\<close>: the matrix multiplication kernel under the scalar backend, with an invariant rule for counting loops.
    \<open>SelfTest\<close>, \<open>SelfTestProps\<close>: \<open>selftest\<close>, and that it passes, the composition of the compiler, both backends,
    the simulator and the conversion to \<open>FP8\<close>.
  \<^item> \<open>FpRef\<close>: \<open>FpFormat\<close>, \<open>_decode\<close>, \<open>_round_pack\<close>, \<open>fp_add\<close>, \<open>fp_mul\<close>, \<open>fp_fma\<close>, \<open>is_nan\<close>. \<open>FpRound\<close>: the
    locale \<open>ieee_format\<close> with the specification of correct rounding, interpreted for half, single
    (\<open>FpOps\<close>) and double precision (\<open>PyFloat\<close>). \<open>FpOps\<close>: the properties of the operations.
  \<^item> \<open>TensorRef\<close>, \<open>TensorRefProps\<close>: the multipliers, the widening, the adder and \<open>wmma_golden\<close>.
  \<^item> \<open>RtRef\<close>: fixed point, reciprocal, intersection tests, BVH builder, node words and traversal;
    \<open>RtFixed\<close>, \<open>RtBvh\<close>, \<open>RtTraverse\<close>: error analysis of the reciprocal, the tree that is built, the
    stack machine against a recursive search. \<open>RtProps\<close>: the properties. \<open>RtFloat\<close>: \<open>fx\<close> and \<open>fx_to_f\<close>, exact scalings of doubles.
  \<^item> \<open>Regression\<close>, \<open>RegressionProps\<close>: the suite table, \<open>check_results\<close>, \<open>run_suite\<close>, \<open>main\<close>, over a record
    of the functions of the host (files, simulator, XML parser, subprocess).

  \<^item> \<open>PyText\<close>: hexadecimal texts as the format strings print them, and their reading.
  \<^item> \<open>GenVectors\<close>, \<open>GenVectorsProps\<close>: the class \<open>F\<close>, \<open>fp_pairs\<close> section by section, \<open>lsu_patterns\<close>, \<open>main\<close>, as
    generators that pass a random source along (a record of draws, with the hypothesis \<open>rng_ok\<close> that
    they stay in their ranges). \<open>gsat\<close> is a total-correctness logic for generators; the locale
    \<open>vformat\<close>, interpreted for both formats, holds the facts about operands.
  \<^item> \<open>ScratchGen\<close>: the older generator \<^verbatim>\<open>bin/scratch_gen.py\<close> over the same sources. \<open>SimRegression\<close>: the runner over
    seeds \<^verbatim>\<open>sim/regression.py\<close>.
  \<^item> \<open>BlockSummary\<close>: the table of the per-block synthesis reports \<^verbatim>\<open>syn/scripts/summarize_blocks.py\<close>, over the patterns of
    \<open>PyRegex\<close>, with what is read of a printed report. \<open>SynthCharts\<close>: \<^verbatim>\<open>tools/gen_synth_charts.py\<close>, its percentages as
    doubles. \<open>Tools\<close>: the licence header, the benchmark summary, the pictures of a frame buffer and the waveform readers
    of \<^verbatim>\<open>bin\<close> and \<^verbatim>\<open>sim\<close>.
  \<^item> \<open>CoverageUtil\<close>, \<open>CoverageProps\<close>: bins, crosses and sampling functions as the list of points with the
    value each is given, and the MESI tracker as a map.
  \<^item> \<open>PyString\<close>: the string methods of Python, decimal numbers among them. \<open>ComputeRunner\<close>,
    \<open>ComputeRunnerProps\<close>: the record \<open>cr_host\<close> of what the host offers, \<open>image_name\<close>, \<open>cr_build\<close> with its
    staleness check, \<open>cr_run\<close> with the files it writes and the result file it reads.
  \<^item> \<open>PyRegex\<close>: the matcher of Python's \<^verbatim>\<open>re\<close> as far as it is used, in continuation-passing style: patterns are the
    datatype \<open>rx\<close>, alternatives and repetitions are tried in the order of the source. \<open>mt_sound\<close> and
    \<open>mt_complete\<close> relate it to the declarative relation \<open>rxm\<close>.
  \<^item> \<open>BpSource\<close>, \<open>BpStat\<close>, \<open>BpReport\<close>: \<^verbatim>\<open>gen_blueprint.py\<close>, the reader of Verilog and of the ISA header, the
    reader of Yosys' statistics with the instance counts and the tree, the report line by line and \<open>main\<close>
    over the record \<open>bp_host\<close>. \<open>BpGraph\<close>: the walk over the instantiation graph as a closure, the memoised counts as
    a multiset of instances; \<open>BpText\<close>, \<open>BpTables\<close>: how the patterns behave on printed reports, opcode tables and
    port lists; \<open>BpProps\<close>: the properties.
  \<^item> \<open>RtlDeps\<close>: \<^verbatim>\<open>syn/scripts/rtl_deps.py\<close>, the file list of a module, over the patterns and the walk of the blueprint.

  \<^bold>\<open>Bounds and fuel.\<close> \<open>simulate\<close> has the watchdog of the source as its fuel; the compiler theorems
  say that some number of steps reaches the exit and the simulator returns for every watchdog above
  it. \<open>traverse\<close> takes fuel where the source loops while the stack is not empty; \<open>traverse_nearest\<close>
  shows that twice the number of triangles is enough. \<open>under\<close> has two more than the number of modules,
  \<open>hgt_bound\<close> shows that this covers the depth of any hierarchy without cycles; a repetition in \<open>mt\<close> has the length of
  the text ahead. Everything else is structural or has a
  termination proof.

  \<^bold>\<open>Not modelled.\<close> The Python parser, \<open>argparse\<close>, files, subprocesses, XML and waveform packages are arguments.
  Payloads of NaNs in doubles, line numbers and syntax dumps in messages and progress messages are left out, as is the self-check of
  \<^verbatim>\<open>fp_ref.py\<close>, which compares with a numerical package. The scripts that remain have no logic of
  their own that could be stated: \<^verbatim>\<open>bin/integrate_crossbar.py\<close> and \<^verbatim>\<open>bin/rewrite_crossbar.py\<close> put literal Verilog
  texts in place of others, \<^verbatim>\<open>syn/gt2n\<close> prints tables of measured areas and leakage, the plotting scripts call a
  plotting package. The \<^verbatim>\<open>test_*.py\<close> files of \<^verbatim>\<open>tb\<close> are coroutines over a simulator of the Verilog sources, and the
  Verilog, the driver and the firmware are in other languages; the golden models they are compared with are modelled.
\<close>

end
